(* ===== verification/Base.thy ===== *)
theory Base
  imports Main "HOL-Library.Word"
begin

unbundle bit_operations_syntax

text \<open>
  Prelude of the LightningBNB development. It holds what every component shares:
  \<^item> names for Go's types: bytes and fixed-width unsigned integers are words, Go's \<open>int\<close>,
    instants (\<open>time.Time\<close>) and durations (\<open>time.Duration\<close>, nanoseconds) are \<open>int\<close>; the zero
    instant \<open>time.Time{}\<close> is \<open>0\<close>;
  \<^item> Go's error values: package-level sentinels, \<open>errors.New\<close> and \<open>fmt.Errorf\<close> with \<open>%w\<close>, with
    \<open>Error()\<close> and \<open>errors.Is\<close>;
  \<^item> \<open>encoding/binary\<close>'s big-endian integers and their round trips, \<open>strconv.Itoa\<close>, the
    conversions between strings and byte slices;
  \<^item> generic lemmas on slices of lists and on unsigned arithmetic below the word size, collected
    in \<open>wsimps\<close> and \<open>slice_simps\<close>.
\<close>

section \<open>Names for Go's types\<close>

type_synonym byte = "8 word"
type_synonym bytes = "8 word list"
type_synonym u16 = "16 word"
type_synonym u32 = "32 word"
type_synonym u64 = "64 word"
type_synonym instant = int
type_synonym duration = int

abbreviation len :: "'a list \<Rightarrow> int" where
  "len xs \<equiv> int (length xs)"

text \<open>\<open>time.Time.IsZero\<close>; durations are counted in nanoseconds.\<close>

abbreviation IsZero :: "instant \<Rightarrow> bool" where
  "IsZero t \<equiv> t = 0"

definition millisecond :: duration where
  "millisecond = 1000000"

definition second :: duration where
  "second = 1000 * millisecond"

named_theorems wsimps \<open>unsigned word arithmetic read through \<open>unat\<close>\<close>
named_theorems slice_simps \<open>contiguous parts of lists\<close>
named_theorems codec \<open>length and round-trip equations of the wire encodings\<close>

section \<open>Errors\<close>

text \<open>
  The package-level error variables of the program and of the packages it calls, compared by
  identity; \<open>Panic\<close> stands for a run-time panic (an index or slice bound out of range), which is
  an outcome of the code and no error value of it.
\<close>

datatype sentinel =
    Panic
  | EOF | ErrUnexpectedEOF | ErrShortWrite | ErrNoProgress | ErrClosedPipe | ErrNetClosed
  | ContextCanceled | ContextDeadlineExceeded
  | ErrInvalidFrame | ErrFrameTooLarge
  | ErrProtocolVersion | ErrRejected | ErrSessionState | ErrHandshake
  | ErrResumeTimeout | ErrNotConnected | ErrSequenceExhausted | ErrCompression
  | ErrSessionClosed | ErrTooManyStreams | ErrStreamRejected | ErrProtocol
  | IOTimeout
  | ErrNotExist | ErrExist | ErrPacketSendClosed | ConnAborted | ConnReset | BrokenPipe

fun sentinel_text :: "sentinel \<Rightarrow> string" where
  "sentinel_text Panic = ''panic''"
| "sentinel_text EOF = ''EOF''"
| "sentinel_text ErrUnexpectedEOF = ''unexpected EOF''"
| "sentinel_text ErrShortWrite = ''short write''"
| "sentinel_text ErrNoProgress = ''multiple Read calls return no data or error''"
| "sentinel_text ErrClosedPipe = ''io: read/write on closed pipe''"
| "sentinel_text ErrNetClosed = ''use of closed network connection''"
| "sentinel_text ContextCanceled = ''context canceled''"
| "sentinel_text ContextDeadlineExceeded = ''context deadline exceeded''"
| "sentinel_text ErrInvalidFrame = ''invalid multiplexing frame''"
| "sentinel_text ErrFrameTooLarge = ''multiplexing frame is too large''"
| "sentinel_text ErrProtocolVersion = ''unsupported LightningBNB protocol version''"
| "sentinel_text ErrRejected = ''BLE session rejected''"
| "sentinel_text ErrSessionState = ''peer requested unavailable session state''"
| "sentinel_text ErrHandshake = ''invalid BLE handshake''"
| "sentinel_text ErrResumeTimeout = ''BLE resume timeout expired''"
| "sentinel_text ErrNotConnected = ''BLE session is not connected''"
| "sentinel_text ErrSequenceExhausted = ''BLE session byte sequence exhausted''"
| "sentinel_text ErrCompression = ''BLE peer does not support requested compression''"
| "sentinel_text ErrSessionClosed = ''multiplexing session closed''"
| "sentinel_text ErrTooManyStreams = ''maximum concurrent stream count reached''"
| "sentinel_text ErrStreamRejected = ''stream rejected''"
| "sentinel_text ErrProtocol = ''multiplexing protocol error''"
| "sentinel_text IOTimeout = ''i/o timeout''"
| "sentinel_text ErrNotExist = ''file does not exist''"
| "sentinel_text ErrExist = ''file already exists''"
| "sentinel_text ErrPacketSendClosed = ''BLE packet connection closed while waiting to send''"
| "sentinel_text ConnAborted = ''software caused connection abort''"
| "sentinel_text ConnReset = ''connection reset by peer''"
| "sentinel_text BrokenPipe = ''broken pipe''"

text \<open>
  \<open>Sentinel e\<close> is the variable itself, \<open>ErrorText t\<close> is \<open>errors.New(t)\<close> (or a \<open>fmt.Errorf\<close> that
  wraps nothing), \<open>Wrapped pre e post\<close> is a \<open>fmt.Errorf\<close> whose format has \<open>%w\<close> between the texts
  \<open>pre\<close> and \<open>post\<close>, and \<open>Rejected r\<close> is a \<open>link.RejectedError\<close> with reason \<open>r\<close>, which unwraps to
  \<open>ErrRejected\<close>.
\<close>

datatype go_error =
    Sentinel sentinel
  | ErrorText string
  | Wrapped string go_error string
  | Rejected string

primrec err_text :: "go_error \<Rightarrow> string" where
  "err_text (Sentinel e) = sentinel_text e"
| "err_text (ErrorText t) = t"
| "err_text (Wrapped pre e post) = pre @ err_text e @ post"
| "err_text (Rejected r) =
     (if r = '''' then sentinel_text ErrRejected else sentinel_text ErrRejected @ '': '' @ r)"

primrec errors_is :: "go_error \<Rightarrow> sentinel \<Rightarrow> bool" where
  "errors_is (Sentinel e) x = (e = x)"
| "errors_is (ErrorText t) x = False"
| "errors_is (Wrapped pre e post) x = errors_is e x"
| "errors_is (Rejected r) x = (x = ErrRejected)"

abbreviation raise :: "sentinel \<Rightarrow> go_error + 'a" where
  "raise e \<equiv> Inl (Sentinel e)"

section \<open>Slices\<close>

text \<open>\<open>xs[lo:hi]\<close> of Go, \<open>None\<close> where it panics.\<close>

definition go_slice :: "'a list \<Rightarrow> nat \<Rightarrow> nat \<Rightarrow> 'a list option" where
  "go_slice xs lo hi = (if lo \<le> hi \<and> hi \<le> length xs then Some (take (hi - lo) (drop lo xs)) else None)"

text \<open>The \<open>n\<close> elements of a list from position \<open>i\<close> on (fewer where the list ends before).\<close>

definition part :: "'a list \<Rightarrow> nat \<Rightarrow> nat \<Rightarrow> 'a list" where
  "part xs i n = take n (drop i xs)"

lemma length_part [slice_simps]: "length (part xs i n) = min n (length xs - i)"
  by (auto simp: part_def)

lemma part_0 [simp]: "part xs i 0 = []"
  by (simp add: part_def)

lemma part_append_part:
  "part xs i m @ part xs (i + m) n = part xs i (m + n)"
  by (simp add: part_def take_add add.commute)

lemma take_append_part [slice_simps]:
  "take i xs @ part xs i n = take (i + n) xs"
  by (simp add: part_def take_add)

lemma part_of_part [slice_simps]:
  "i + n \<le> m \<Longrightarrow> part (part xs k m) i n = part xs (k + i) n"
  by (simp add: part_def drop_take add.commute min_def)

lemma drop_part [slice_simps]:
  "i \<le> m \<Longrightarrow> drop i (part xs k m) = part xs (k + i) (m - i)"
  by (simp add: part_def drop_take add.commute)

lemma take_part [slice_simps]:
  "n \<le> m \<Longrightarrow> take n (part xs k m) = part xs k n"
  by (simp add: part_def min_def)

lemma part_drop [slice_simps]: "part (drop k xs) i n = part xs (k + i) n"
  by (simp add: part_def add.commute)

lemma part_append_left [slice_simps]:
  "i + n \<le> length xs \<Longrightarrow> part (xs @ ys) i n = part xs i n"
  by (simp add: part_def)

lemma part_all [simp]: "part xs 0 (length xs) = xs"
  by (simp add: part_def)

lemma go_slice_part:
  "lo \<le> hi \<Longrightarrow> hi \<le> length xs \<Longrightarrow> go_slice xs lo hi = Some (part xs lo (hi - lo))"
  by (simp add: go_slice_def part_def)

lemma go_slice_Some_length: "go_slice xs lo hi = Some ys \<Longrightarrow> length ys = hi - lo"
  by (auto simp: go_slice_def split: if_splits)

section \<open>Unsigned arithmetic below the word size\<close>

text \<open>
  Offsets are unsigned words. The code guards its additions against overflow; below the bound
  the machine operations agree with those on \<open>nat\<close>.
\<close>

lemma unat_less_pow: "unat (w :: 'a::len word) < 2 ^ LENGTH('a)"
  by (rule unsigned_less)

lemma unat_add_of_nat [wsimps]:
  fixes a :: "'a::len word"
  assumes "unat a + n < 2 ^ LENGTH('a)"
  shows "unat (a + of_nat n) = unat a + n"
  using assms by (simp add: unat_word_ariths unat_of_nat mod_simps)

lemma unat_sub_le [wsimps]:
  fixes a b :: "'a::len word"
  assumes "b \<le> a"
  shows "unat (a - b) = unat a - unat b"
  using assms by (simp add: unat_sub_if' word_le_nat_alt)

lemma unat_of_nat_less [wsimps]:
  "n < 2 ^ LENGTH('a) \<Longrightarrow> unat (of_nat n :: 'a::len word) = n"
  by (simp add: unat_of_nat)

lemma word_eq_unatI: "unat a = unat b \<Longrightarrow> a = b"
  by (simp add: word_unat_eq_iff)

lemma uint_of_int_small:
  "0 \<le> i \<Longrightarrow> i < 2 ^ LENGTH('a) \<Longrightarrow> uint (word_of_int i :: 'a::len word) = i"
  by (simp add: uint_word_of_int)

text \<open>\<open>int(x)\<close> of an unsigned 64-bit value reads it as two's complement.\<close>

abbreviation go_int :: "u64 \<Rightarrow> int" where
  "go_int x \<equiv> sint x"

lemma go_int_small [wsimps]:
  fixes x :: u64
  assumes "unat x < 2 ^ 63"
  shows "go_int x = int (unat x)"
proof -
  have u: "int (unat x) = uint x" by simp
  have "int (unat x) < int (2 ^ 63)" using assms by (simp only: of_nat_less_iff)
  with u have "uint x < 2 ^ 63" by simp
  then have "signed_take_bit 63 (uint x) = uint x"
    by (intro signed_take_bit_int_eq_self) (simp_all add: order_trans [of _ 0])
  with u show ?thesis by (simp add: sint_uint)
qed

section \<open>Big-endian integers\<close>

text \<open>
  \<open>binary.BigEndian.PutUintN\<close> writes \<open>n\<close> bytes, most significant first;
  \<open>binary.BigEndian.UintN\<close> reads them back. Both are stated once for every width.
\<close>

primrec be_bytes :: "nat \<Rightarrow> nat \<Rightarrow> bytes" where
  "be_bytes 0 v = []"
| "be_bytes (Suc n) v = be_bytes n (v div 256) @ [of_nat v]"

definition be_nat :: "bytes \<Rightarrow> nat" where
  "be_nat bs = foldl (\<lambda>acc b. acc * 256 + unat b) 0 bs"

definition put_uint16 :: "u16 \<Rightarrow> bytes" where
  "put_uint16 v = be_bytes 2 (unat v)"

definition put_uint32 :: "u32 \<Rightarrow> bytes" where
  "put_uint32 v = be_bytes 4 (unat v)"

definition put_uint64 :: "u64 \<Rightarrow> bytes" where
  "put_uint64 v = be_bytes 8 (unat v)"

definition uint16_of :: "bytes \<Rightarrow> u16" where
  "uint16_of bs = of_nat (be_nat bs)"

definition uint32_of :: "bytes \<Rightarrow> u32" where
  "uint32_of bs = of_nat (be_nat bs)"

definition uint64_of :: "bytes \<Rightarrow> u64" where
  "uint64_of bs = of_nat (be_nat bs)"

lemma length_be_bytes [simp]: "length (be_bytes n v) = n"
  by (induction n arbitrary: v) simp_all

lemma be_nat_Nil [simp]: "be_nat [] = 0"
  by (simp add: be_nat_def)

lemma be_nat_snoc [simp]: "be_nat (bs @ [b]) = be_nat bs * 256 + unat b"
  by (simp add: be_nat_def)

lemma be_nat_less: "be_nat bs < 256 ^ length bs"
proof (induction bs rule: rev_induct)
  case (snoc b bs)
  have "unat b < 256" using unat_less_pow [of b] by simp
  with snoc show ?case by simp
qed simp

lemma be_nat_be_bytes: "be_nat (be_bytes n v) = v mod 256 ^ n"
proof (induction n arbitrary: v)
  case (Suc n)
  have "be_nat (be_bytes (Suc n) v) = v div 256 mod 256 ^ n * 256 + v mod 256"
    by (simp add: Suc unat_of_nat)
  also have "\<dots> = v mod (256 * 256 ^ n)"
    by (simp add: mod_mult2_eq)
  finally show ?case by simp
qed simp

lemma be_bytes_be_nat: "be_bytes (length bs) (be_nat bs) = bs"
proof (induction bs rule: rev_induct)
  case (snoc b bs)
  have b: "unat b < 256" using unat_less_pow [of b] by simp
  have "(of_nat (be_nat bs * 256 + unat b) :: byte) = of_nat (unat b)"
    by (rule word_eq_unatI) (simp only: unat_of_nat, simp)
  with b show ?case by (simp add: snoc)
qed simp

lemma length_put_uint [codec]:
  "length (put_uint16 a) = 2" "length (put_uint32 b) = 4" "length (put_uint64 c) = 8"
  by (simp_all add: put_uint16_def put_uint32_def put_uint64_def)

lemma uint_of_put_uint [codec]:
  "uint16_of (put_uint16 a) = a" "uint32_of (put_uint32 b) = b" "uint64_of (put_uint64 c) = c"
  using unat_less_pow [of a] unat_less_pow [of b] unat_less_pow [of c]
  by (simp_all add: put_uint16_def put_uint32_def put_uint64_def uint16_of_def uint32_of_def
      uint64_of_def be_nat_be_bytes)

lemma put_uint_of_uint:
  "length bs = 2 \<Longrightarrow> put_uint16 (uint16_of bs) = bs"
  "length bs = 4 \<Longrightarrow> put_uint32 (uint32_of bs) = bs"
  "length bs = 8 \<Longrightarrow> put_uint64 (uint64_of bs) = bs"
  using be_nat_less [of bs] be_bytes_be_nat [of bs]
  by (simp_all add: put_uint16_def put_uint32_def put_uint64_def uint16_of_def uint32_of_def
      uint64_of_def unat_of_nat)

section \<open>Strings\<close>

text \<open>
  A Go string is a sequence of bytes. \<open>[]byte(s)\<close> and \<open>string(b)\<close> convert without loss.
\<close>

definition bytes_of :: "string \<Rightarrow> bytes" where
  "bytes_of s = map of_char s"

definition string_of :: "bytes \<Rightarrow> string" where
  "string_of bs = map (\<lambda>b. char_of (unat b)) bs"

lemma length_bytes_of [simp]: "length (bytes_of s) = length s"
  by (simp add: bytes_of_def)

lemma length_string_of [simp]: "length (string_of b) = length b"
  by (simp add: string_of_def)

text \<open>\<open>strconv.Itoa\<close> and the \<open>%d\<close> verb.\<close>

fun digits_of :: "nat \<Rightarrow> string" where
  "digits_of n = (if n < 10 then [char_of (48 + n)] else digits_of (n div 10) @ [char_of (48 + n mod 10)])"

declare digits_of.simps [simp del]

definition itoa :: "int \<Rightarrow> string" where
  "itoa i = (if i < 0 then CHR ''-'' # digits_of (nat (- i)) else digits_of (nat i))"

section \<open>Go maps\<close>

text \<open>
  A Go map is an association list with distinct keys: the order of the list is the order in which
  a \<open>range\<close> loop visits the entries, which Go leaves open. Reading is \<open>map_of\<close>; storing and
  deleting keep the other entries.
\<close>

definition gomap_del :: "'k \<Rightarrow> ('k \<times> 'v) list \<Rightarrow> ('k \<times> 'v) list" where
  "gomap_del k m = filter (\<lambda>kv. fst kv \<noteq> k) m"

definition gomap_put :: "'k \<Rightarrow> 'v \<Rightarrow> ('k \<times> 'v) list \<Rightarrow> ('k \<times> 'v) list" where
  "gomap_put k v m = (k, v) # gomap_del k m"

lemma set_gomap_del [simp]: "set (gomap_del k m) = {kv \<in> set m. fst kv \<noteq> k}"
  by (auto simp: gomap_del_def)

lemma map_of_gomap_del [simp]: "map_of (gomap_del k m) = (map_of m)(k := None)"
  by (induction m) (auto simp: gomap_del_def fun_eq_iff)

lemma map_of_gomap_put [simp]: "map_of (gomap_put k v m) = (map_of m)(k \<mapsto> v)"
  by (simp add: gomap_put_def)

lemma distinct_keys_del [simp]: "distinct (map fst m) \<Longrightarrow> distinct (map fst (gomap_del k m))"
  by (simp add: gomap_del_def distinct_map_filter)

lemma distinct_keys_put [simp]: "distinct (map fst m) \<Longrightarrow> distinct (map fst (gomap_put k v m))"
  by (auto simp: gomap_put_def)

lemma length_gomap_del: "map_of m k = Some v \<Longrightarrow> length (gomap_del k m) < length m"
  by (induction m) (auto simp: gomap_del_def less_Suc_eq_le split: if_splits)

lemma gomap_del_fresh: "k \<notin> fst ` set m \<Longrightarrow> gomap_del k m = m"
  by (induction m) (auto simp: gomap_del_def)

lemma sum_list_gomap_del:
  assumes "distinct (map fst m)" and "map_of m k = Some v"
  shows "(\<Sum>kv \<leftarrow> m. f kv) = f (k, v) + (\<Sum>kv \<leftarrow> gomap_del k m. f kv :: int)"
  using assms
proof (induction m)
  case (Cons a m)
  show ?case
  proof (cases "fst a = k")
    case True
    with Cons.prems have "k \<notin> fst ` set m" and "a = (k, v)" by (cases a; auto)+
    then show ?thesis using gomap_del_fresh [of k m] by (simp add: gomap_del_def)
  next
    case False
    with Cons show ?thesis by (cases a) (simp add: gomap_del_def)
  qed
qed simp

section \<open>Blocking calls\<close>

text \<open>
  How a \<open>Write\<close> call stands: everything is taken, an error ended it, or it waits with the bytes
  that are left. What ends a wait: a signal, the closing of \<open>done\<close>, or the timer of the deadline.
\<close>

datatype write_outcome = WriteDone | WriteFailed go_error | WriteWaits bytes

datatype wait_event = Notified | DoneClosed | TimerFired

end
