(* ===== verification/Frame.thy ===== *)
theory Frame
  imports Base
begin

text \<open>
  The multiplexing frames of \<open>internal/protocol/frame.go\<close>: the frame type and its constants,
  \<open>Validate\<close>, the writer and the reader, the window-update helpers. An \<open>io.Writer\<close> is a parameter
  \<open>write\<close> over a state of its own, with the contract of the interface as a locale; an
  \<open>io.Reader\<close> is the bytes it still yields and the error it ends with, as \<open>io.ReadFull\<close> sees it.
  The lemmas show that \<open>ReadFrame\<close> inverts \<open>WriteFrame\<close>, that it accepts nothing else, and where
  the two disagree.
\<close>

section \<open>Constants and the frame type\<close>

definition Version :: byte where "Version = 3"
definition HeaderSize :: nat where "HeaderSize = 9"
definition MaxDataPayload :: nat where "MaxDataPayload = 16 * 1024"
definition MaxErrorPayload :: nat where "MaxErrorPayload = 256"

definition FrameOpen :: byte where "FrameOpen = 1"
definition FrameOpenOK :: byte where "FrameOpenOK = 2"
definition FrameOpenError :: byte where "FrameOpenError = 3"
definition FrameData :: byte where "FrameData = 4"
definition FrameWindowUpdate :: byte where "FrameWindowUpdate = 5"
definition FrameFIN :: byte where "FrameFIN = 6"
definition FrameReset :: byte where "FrameReset = 7"
definition FrameServiceList :: byte where "FrameServiceList = 8"

lemmas frame_types = FrameOpen_def FrameOpenOK_def FrameOpenError_def FrameData_def
  FrameWindowUpdate_def FrameFIN_def FrameReset_def FrameServiceList_def

lemmas frame_consts = HeaderSize_def MaxDataPayload_def MaxErrorPayload_def

record Frame =
  FType :: byte
  StreamID :: u32
  Payload :: bytes

lemma Frame_collapse: "\<lparr>FType = FType f, StreamID = StreamID f, Payload = Payload f\<rparr> = f"
  by (cases f) simp

section \<open>Validation\<close>

definition Validate :: "Frame \<Rightarrow> go_error option" where
  "Validate frame =
    (let n = length (Payload frame); t = FType frame in
     if StreamID frame = 0 \<and> t \<noteq> FrameServiceList then
       Some (Wrapped '''' (Sentinel ErrInvalidFrame) '': stream id is zero'')
     else if t = FrameOpenOK \<or> t = FrameFIN then
       (if n \<noteq> 0 then
          Some (Wrapped '''' (Sentinel ErrInvalidFrame)
            ('': frame type '' @ itoa (uint t) @ '' must not contain a payload''))
        else None)
     else if t = FrameOpen then
       (if n > 128 then
          Some (Wrapped '''' (Sentinel ErrInvalidFrame) '': service selector too long'')
        else None)
     else if t = FrameOpenError \<or> t = FrameReset then
       (if n > MaxErrorPayload then
          Some (Wrapped '''' (Sentinel ErrFrameTooLarge) ('': error payload length '' @ itoa (int n)))
        else None)
     else if t = FrameServiceList then
       (if n = 0 then Some (Wrapped '''' (Sentinel ErrInvalidFrame) '': empty service list'')
        else None)
     else if t = FrameData then
       (if n = 0 \<or> n > MaxDataPayload then
          Some (Wrapped '''' (Sentinel ErrInvalidFrame)
            ('': invalid data payload length '' @ itoa (int n)))
        else None)
     else if t = FrameWindowUpdate then
       (if n \<noteq> 4 \<or> uint32_of (Payload frame) = 0 then
          Some (Wrapped '''' (Sentinel ErrInvalidFrame) '': invalid window update'')
        else None)
     else Some (Wrapped '''' (Sentinel ErrInvalidFrame) ('': unknown type '' @ itoa (uint t))))"

section \<open>Writing\<close>

text \<open>
  \<open>w.Write(data)\<close> returns the new state of the writer, the count of bytes it took and its error.
  A count outside the slice makes \<open>data[n:]\<close> panic.
\<close>

type_synonym 'w writer = "'w \<Rightarrow> bytes \<Rightarrow> 'w \<times> int \<times> go_error option"

function writeAll :: "'w writer \<Rightarrow> 'w \<Rightarrow> bytes \<Rightarrow> 'w \<times> go_error option" where
  "writeAll write w data =
    (if data = [] then (w, None)
     else case write w data of (w', n, err) \<Rightarrow>
       (case err of
          Some e \<Rightarrow> (w', Some e)
        | None \<Rightarrow>
            if n = 0 then (w', Some (Sentinel ErrShortWrite))
            else if n < 0 \<or> len data < n then (w', Some (Sentinel Panic))
            else writeAll write w' (drop (nat n) data)))"
  by pat_completeness auto
termination
  by (relation "measure (\<lambda>(write, w, data). length data)") auto

declare writeAll.simps [simp del]

definition encodeFrame :: "Frame \<Rightarrow> bytes" where
  "encodeFrame frame =
     (let header = [FType frame] @ put_uint32 (StreamID frame)
                   @ put_uint32 (of_nat (length (Payload frame)))
      in header @ Payload frame)"

definition WriteFrame :: "'w writer \<Rightarrow> 'w \<Rightarrow> Frame \<Rightarrow> 'w \<times> go_error option" where
  "WriteFrame write w frame =
     (case Validate frame of
        Some e \<Rightarrow> (w, Some e)
      | None \<Rightarrow> writeAll write w (encodeFrame frame))"

section \<open>Reading\<close>

record reader =
  rd_data :: bytes
  rd_err :: go_error

text \<open>
  \<open>io.ReadFull(r, buf)\<close> for a buffer of \<open>n\<close> bytes: the next \<open>n\<close> bytes; the reader's error when it
  ends before the first of them; \<open>ErrUnexpectedEOF\<close> when it ends with EOF in between.
\<close>

definition ReadFull :: "reader \<Rightarrow> nat \<Rightarrow> (go_error + bytes) \<times> reader" where
  "ReadFull r n =
     (if n \<le> length (rd_data r) then (Inr (take n (rd_data r)), r\<lparr>rd_data := drop n (rd_data r)\<rparr>)
      else (Inl (if rd_data r \<noteq> [] \<and> rd_err r = Sentinel EOF then Sentinel ErrUnexpectedEOF
                 else rd_err r),
            r\<lparr>rd_data := []\<rparr>))"

definition ReadFrame :: "reader \<Rightarrow> (go_error + Frame) \<times> reader" where
  "ReadFrame r =
     (case ReadFull r HeaderSize of
        (Inl e, r1) \<Rightarrow> (Inl e, r1)
      | (Inr header, r1) \<Rightarrow>
          (let length32 = uint32_of (part header 5 4) in
           if unat length32 > MaxDataPayload then
             (Inl (Wrapped '''' (Sentinel ErrFrameTooLarge)
                    ('': payload length '' @ itoa (uint length32))), r1)
           else case ReadFull r1 (unat length32) of
             (Inl e, r2) \<Rightarrow> (Inl e, r2)
           | (Inr payload, r2) \<Rightarrow>
               (let frame = \<lparr>FType = header ! 0, StreamID = uint32_of (part header 1 4),
                             Payload = payload\<rparr> in
                case Validate frame of
                  Some e \<Rightarrow> (Inl e, r2)
                | None \<Rightarrow> (Inr frame, r2))))"

section \<open>Window updates\<close>

definition WindowUpdate :: "u32 \<Rightarrow> u32 \<Rightarrow> Frame" where
  "WindowUpdate streamID amount =
     \<lparr>FType = FrameWindowUpdate, StreamID = streamID, Payload = put_uint32 amount\<rparr>"

definition WindowAmount :: "Frame \<Rightarrow> u32" where
  "WindowAmount frame =
     (if FType frame \<noteq> FrameWindowUpdate \<or> length (Payload frame) \<noteq> 4 then 0
      else uint32_of (Payload frame))"

section \<open>The contract of io.Writer\<close>

text \<open>
  What \<open>writeAll\<close> relies on: \<open>out w\<close> are the bytes the writer has taken so far; \<open>Write\<close> takes a
  prefix of its argument, reports its length, and fails when it takes less than all of it. The
  invariant holds of the states the writer goes through.
\<close>

locale io_writer =
  fixes wr :: "'w writer"
    and out :: "'w \<Rightarrow> bytes"
    and inv :: "'w \<Rightarrow> bool"
  assumes wr_inv: "inv w \<Longrightarrow> wr w d = (w', n, e) \<Longrightarrow> inv w'"
    and wr_range: "inv w \<Longrightarrow> wr w d = (w', n, e) \<Longrightarrow> 0 \<le> n \<and> n \<le> len d"
    and wr_out: "inv w \<Longrightarrow> wr w d = (w', n, e) \<Longrightarrow> out w' = out w @ take (nat n) d"
    and wr_short: "inv w \<Longrightarrow> wr w d = (w', n, e) \<Longrightarrow> n < len d \<Longrightarrow> e \<noteq> None"
begin

lemma writeAll_result:
  assumes "inv w" and "writeAll wr w d = (w', e)"
  shows "inv w' \<and> (\<exists>k \<le> length d. out w' = out w @ take k d \<and> (e = None \<longrightarrow> k = length d))"
proof (cases "d = []")
  case True
  with assms show ?thesis by (simp add: writeAll.simps [of wr w "[]"])
next
  case False
  obtain w1 n err where w1: "wr w d = (w1, n, err)" by (cases "wr w d") auto
  note facts = wr_inv [OF assms(1) w1] wr_range [OF assms(1) w1] wr_out [OF assms(1) w1]
    wr_short [OF assms(1) w1]
  have "n = len d" if "err = None" using facts that by (cases "n < len d") auto
  then have all: "drop (nat n) d = []" if "err = None" using that by simp
  from assms(2) False w1 facts all have "w' = w1 \<and> (e = None \<longrightarrow> n = len d)"
    by (auto simp: writeAll.simps [of wr w d] writeAll.simps [of wr w1 "[]"] split: option.splits if_splits)
  with facts show ?thesis
    by (intro conjI exI [of _ "nat n"]) auto
qed

lemma WriteFrame_ok:
  assumes "inv w" and "WriteFrame wr w f = (w', None)"
  shows "Validate f = None \<and> out w' = out w @ encodeFrame f \<and> inv w'"
  using assms writeAll_result [OF assms(1), of "encodeFrame f" w' None]
  by (auto simp: WriteFrame_def split: option.splits)

lemma WriteFrame_prefix:
  assumes "inv w" and "WriteFrame wr w f = (w', e)"
  shows "\<exists>k. out w' = out w @ take k (encodeFrame f)"
  using assms writeAll_result [OF assms(1), of "encodeFrame f" w' e]
  by (auto simp: WriteFrame_def split: option.splits intro: exI [of _ 0])

end

text \<open>A buffer in memory is a writer: \<open>bytes.Buffer\<close>, which takes everything.\<close>

definition buffer_write :: "bytes writer" where
  "buffer_write w d = (w @ d, len d, None)"

interpretation buf: io_writer buffer_write "\<lambda>w. w" "\<lambda>_. True"
  by unfold_locales (auto simp: buffer_write_def)

section \<open>Lemmas\<close>

lemma length_encodeFrame [codec]: "length (encodeFrame f) = HeaderSize + length (Payload f)"
  by (simp add: encodeFrame_def codec HeaderSize_def)

lemma Validate_Data_payload:
  "Validate f = None \<Longrightarrow> FType f = FrameData \<Longrightarrow> 0 < length (Payload f) \<and> length (Payload f) \<le> MaxDataPayload"
  by (auto simp: Validate_def Let_def frame_types split: if_splits)

text \<open>Every valid frame but a service list has a payload the reader's bound admits.\<close>

lemma Validate_payload_bound:
  assumes "Validate f = None" and "FType f \<noteq> FrameServiceList"
  shows "length (Payload f) \<le> MaxDataPayload"
  using assms by (auto simp: Validate_def Let_def frame_consts split: if_splits)

lemma ReadFull_append:
  "ReadFull r (length xs) = (Inr xs, r\<lparr>rd_data := ys\<rparr>)" if "rd_data r = xs @ ys"
  using that by (simp add: ReadFull_def)

lemma ReadFull_Inr:
  "ReadFull r n = (Inr xs, r') \<Longrightarrow> rd_data r = xs @ rd_data r' \<and> length xs = n \<and> rd_err r' = rd_err r"
  by (auto simp: ReadFull_def split: if_splits)

lemma header_parts:
  assumes "header = [t] @ put_uint32 sid @ put_uint32 l"
  shows "header ! 0 = t" "part header 1 4 = put_uint32 sid" "part header 5 4 = put_uint32 l"
    "length header = HeaderSize"
  using assms by (simp_all add: part_def codec HeaderSize_def)

lemma header_split:
  assumes "length h = HeaderSize"
  shows "h = [h ! 0] @ part h 1 4 @ part h 5 4"
proof -
  have "h = take 1 h @ part h 1 4 @ part h 5 4"
    using assms part_append_part [of h 1 4 4] take_append_part [of 1 h 8]
    by (simp add: HeaderSize_def)
  moreover have "take 1 h = [h ! 0]"
    using assms by (cases h) (simp_all add: HeaderSize_def)
  ultimately show ?thesis by simp
qed

text \<open>The reader on the encoding of a valid frame of admissible size, whatever follows it.\<close>

lemma ReadFrame_encodeFrame:
  assumes "Validate f = None" and "length (Payload f) \<le> MaxDataPayload"
    and "rd_data r = encodeFrame f @ rest"
  shows "ReadFrame r = (Inr f, r\<lparr>rd_data := rest\<rparr>)"
proof -
  let ?l = "of_nat (length (Payload f)) :: u32"
  let ?h = "[FType f] @ put_uint32 (StreamID f) @ put_uint32 ?l"
  have l: "unat ?l = length (Payload f)"
    using assms(2) by (intro unat_of_nat_less) (simp add: MaxDataPayload_def)
  have "rd_data r = ?h @ (Payload f @ rest)"
    using assms(3) by (simp add: encodeFrame_def)
  from ReadFull_append [OF this] have r1: "ReadFull r HeaderSize = (Inr ?h, r\<lparr>rd_data := Payload f @ rest\<rparr>)"
    by (simp add: codec HeaderSize_def)
  have r2: "ReadFull (r\<lparr>rd_data := Payload f @ rest\<rparr>) (length (Payload f))
      = (Inr (Payload f), r\<lparr>rd_data := rest\<rparr>)"
    using ReadFull_append [of "r\<lparr>rd_data := Payload f @ rest\<rparr>" "Payload f" rest] by simp
  show ?thesis
    using assms(1,2) r1 r2 l header_parts [OF refl, of "FType f" "StreamID f" ?l]
    by (simp add: ReadFrame_def Let_def codec Frame_collapse)
qed

text \<open>What the reader accepts is the encoding of the frame it returns.\<close>

lemma ReadFrame_Inr:
  assumes "ReadFrame r = (Inr f, r')"
  shows "Validate f = None \<and> length (Payload f) \<le> MaxDataPayload
    \<and> rd_data r = encodeFrame f @ rd_data r' \<and> rd_err r' = rd_err r"
proof -
  obtain h r1 where h: "ReadFull r HeaderSize = (Inr h, r1)"
    using assms by (auto simp: ReadFrame_def split: sum.splits prod.splits)
  let ?l = "uint32_of (part h 5 4)"
  obtain p where bound: "unat ?l \<le> MaxDataPayload" and p: "ReadFull r1 (unat ?l) = (Inr p, r')"
    and f: "f = \<lparr>FType = h ! 0, StreamID = uint32_of (part h 1 4), Payload = p\<rparr>"
    and v: "Validate f = None"
    using assms h by (auto simp: ReadFrame_def Let_def split: sum.splits prod.splits if_splits option.splits)
  have lh: "length h = HeaderSize" and lp: "length p = unat ?l"
    using ReadFull_Inr [OF h] ReadFull_Inr [OF p] by simp_all
  have four: "length (part h 1 4) = 4" "length (part h 5 4) = 4"
    using lh by (simp_all add: length_part HeaderSize_def)
  have "of_nat (length p) = ?l" using lp by simp
  then have "encodeFrame f = h @ p"
    using header_split [OF lh] four by (simp add: encodeFrame_def f put_uint_of_uint)
  then show ?thesis
    using ReadFull_Inr [OF h] ReadFull_Inr [OF p] v bound lp f by simp
qed

end
