(* ===== verification/Handshake.thy ===== *)
theory Handshake
  imports Frame "HOL-Library.Signed_Division"
begin

text \<open>
  The session handshake of \<open>internal/link/handshake.go\<close> and the session configuration of
  \<open>internal/link/session.go\<close>: packet types, \<open>Config\<close> and its normalisation, \<open>Hello\<close>, the encoders
  and decoders of HELLO_ID, HELLO, HELLO_ACK and REJECT, and \<open>ReadHello\<close>, which reads packets from
  a connection until a HELLO is complete. The lemmas give the round trips, the size bound of the
  bootstrap packets and what \<open>ReadHello\<close> refuses.
\<close>

section \<open>Packet types and configuration\<close>

definition packetHelloID :: byte where "packetHelloID = 1"
definition packetHello :: byte where "packetHello = 2"
definition packetHelloAck :: byte where "packetHelloAck = 3"
definition packetData :: byte where "packetData = 4"
definition packetAck :: byte where "packetAck = 5"
definition packetPing :: byte where "packetPing = 6"
definition packetPong :: byte where "packetPong = 7"
definition packetClose :: byte where "packetClose = 8"
definition packetReject :: byte where "packetReject = 9"

lemmas packet_types = packetHelloID_def packetHello_def packetHelloAck_def packetData_def
  packetAck_def packetPing_def packetPong_def packetClose_def packetReject_def

definition minimumPacketMTU :: int where "minimumPacketMTU = 20"
definition capabilityCompression :: byte where "capabilityCompression = 1"
definition knownCapabilities :: byte where "knownCapabilities = capabilityCompression"

lemmas capability_defs = knownCapabilities_def capabilityCompression_def

definition DefaultReplayWindow :: int where "DefaultReplayWindow = 2 ^ 20"
definition DefaultResumeTimeout :: duration where "DefaultResumeTimeout = 60 * second"
definition DefaultMaxConnections :: int where "DefaultMaxConnections = 32"

record Config =
  ResumeTimeout :: duration
  ReplayWindow :: int
  MaxConnections :: int
  Compression :: bool

definition normalized :: "Config \<Rightarrow> Config" where
  "normalized cfg0 =
     (let cfg1 = (if ResumeTimeout cfg0 \<le> 0 then cfg0\<lparr>ResumeTimeout := DefaultResumeTimeout\<rparr> else cfg0);
          cfg2 = (if ReplayWindow cfg1 \<le> 0 then cfg1\<lparr>ReplayWindow := DefaultReplayWindow\<rparr> else cfg1);
          cfg3 = (if MaxConnections cfg2 \<le> 0 then cfg2\<lparr>MaxConnections := DefaultMaxConnections\<rparr> else cfg2)
      in if MaxConnections cfg3 > 65535 then cfg3\<lparr>MaxConnections := 65535\<rparr> else cfg3)"

text \<open>A session ID is an array of 16 bytes.\<close>

type_synonym SessionID = bytes

record Hello =
  hello_ID :: SessionID
  hello_ExpectedRemote :: u64
  hello_ResumeTimeout :: duration
  hello_MaxConnections :: int
  hello_AdvertisedPacketMTU :: int
  hello_Compression :: bool

definition emptyHello :: Hello where
  "emptyHello = \<lparr>hello_ID = replicate 16 0, hello_ExpectedRemote = 0, hello_ResumeTimeout = 0,
     hello_MaxConnections = 0, hello_AdvertisedPacketMTU = 0, hello_Compression = False\<rparr>"

definition emptyConfig :: Config where
  "emptyConfig = \<lparr>ResumeTimeout = 0, ReplayWindow = 0, MaxConnections = 0, Compression = False\<rparr>"

fun RejectionReason :: "go_error \<Rightarrow> string" where
  "RejectionReason (Rejected r) = r"
| "RejectionReason (Wrapped pre e post) = RejectionReason e"
| "RejectionReason (Sentinel e) = ''''"
| "RejectionReason (ErrorText t) = ''''"

section \<open>Encoders\<close>

definition durationMilliseconds :: "duration \<Rightarrow> u32" where
  "durationMilliseconds d =
     (let ms = d sdiv millisecond in
      if ms \<le> 0 then 1
      else if ms > 2 ^ 32 - 1 then 2 ^ 32 - 1
      else word_of_int ms)"

definition normalizeMTU :: "int \<Rightarrow> int" where
  "normalizeMTU mtu =
     (if mtu < minimumPacketMTU then minimumPacketMTU else if mtu > 244 then 244 else mtu)"

definition encodeHelloID :: "SessionID \<Rightarrow> bytes" where
  "encodeHelloID sid = [packetHelloID, Version] @ sid"

definition encodeHello :: "SessionID \<Rightarrow> u64 \<Rightarrow> Config \<Rightarrow> int \<Rightarrow> bytes \<times> bytes" where
  "encodeHello sid expectedRemote cfg packetMTU =
     (encodeHelloID sid,
      [packetHello] @ put_uint64 expectedRemote @ put_uint32 (durationMilliseconds (ResumeTimeout cfg))
      @ put_uint16 (word_of_int (MaxConnections cfg)) @ put_uint16 (word_of_int (normalizeMTU packetMTU))
      @ (if Compression cfg then [capabilityCompression] else []))"

definition encodeHelloAck :: "u64 \<Rightarrow> Config \<Rightarrow> int \<Rightarrow> bytes" where
  "encodeHelloAck expectedRemote cfg packetMTU =
     [packetHelloAck, Version] @ put_uint64 expectedRemote
     @ put_uint32 (durationMilliseconds (ResumeTimeout cfg))
     @ put_uint16 (word_of_int (MaxConnections cfg)) @ put_uint16 (word_of_int (normalizeMTU packetMTU))
     @ (if Compression cfg then [capabilityCompression] else [])"

text \<open>The packet \<open>SendReject\<close> hands to the connection.\<close>

definition rejectPacket :: "string \<Rightarrow> bytes" where
  "rejectPacket reason = [packetReject] @ bytes_of (if length reason > 18 then take 18 reason else reason)"

section \<open>Decoders\<close>

definition decodeHelloAck :: "bytes \<Rightarrow> go_error + (u64 \<times> Config \<times> int)" where
  "decodeHelloAck packet =
     (if (length packet \<noteq> 18 \<and> length packet \<noteq> 19) \<or> packet ! 0 \<noteq> packetHelloAck then raise ErrHandshake
      else if packet ! 1 \<noteq> Version then raise ErrProtocolVersion
      else
        let cfg = emptyConfig\<lparr>ResumeTimeout := uint (uint32_of (part packet 10 4)) * millisecond,
                    MaxConnections := uint (uint16_of (part packet 14 2))\<rparr> in
        if length packet = 19 \<and> packet ! 18 AND NOT knownCapabilities \<noteq> 0 then raise ErrHandshake
        else
          let cfg = (if length packet = 19
                     then cfg\<lparr>Compression := packet ! 18 AND capabilityCompression \<noteq> 0\<rparr> else cfg);
              mtu = uint (uint16_of (part packet 16 2)) in
          if ResumeTimeout cfg \<le> 0 \<or> MaxConnections cfg \<le> 0 \<or> mtu < minimumPacketMTU then raise ErrHandshake
          else Inr (uint64_of (part packet 2 8), cfg, mtu))"

text \<open>
  What \<open>ReadHello\<close> waits for: its context ends with an error, the connection's receive channel
  is closed, or a packet arrives. The events come in the order the \<open>select\<close> takes them;
  \<open>None\<close> means that the call is still waiting after them.
\<close>

datatype recv_event = CtxDone go_error | RecvClosed | RecvPacket bytes

definition parseHello :: "Hello \<Rightarrow> bytes \<Rightarrow> go_error + Hello" where
  "parseHello hello packet =
     (let hello = hello\<lparr>hello_ExpectedRemote := uint64_of (part packet 1 8),
            hello_ResumeTimeout := uint (uint32_of (part packet 9 4)) * millisecond,
            hello_MaxConnections := uint (uint16_of (part packet 13 2)),
            hello_AdvertisedPacketMTU := uint (uint16_of (part packet 15 2))\<rparr> in
      if length packet = 18 \<and> packet ! 17 AND NOT knownCapabilities \<noteq> 0 then raise ErrHandshake
      else
        let hello = (if length packet = 18
                     then hello\<lparr>hello_Compression := packet ! 17 AND capabilityCompression \<noteq> 0\<rparr>
                     else hello) in
        if hello_ResumeTimeout hello \<le> 0 \<or> hello_MaxConnections hello \<le> 0
           \<or> hello_AdvertisedPacketMTU hello < minimumPacketMTU then raise ErrHandshake
        else Inr hello)"

fun ReadHello :: "Hello \<Rightarrow> bool \<Rightarrow> recv_event list \<Rightarrow> (go_error + Hello) option" where
  "ReadHello hello haveID [] = None"
| "ReadHello hello haveID (CtxDone e # es) = Some (Inl e)"
| "ReadHello hello haveID (RecvClosed # es) =
     Some (Inl (ErrorText ''BLE connection closed during handshake''))"
| "ReadHello hello haveID (RecvPacket packet # es) =
     (if packet = [] then ReadHello hello haveID es
      else if packet ! 0 = packetHelloID then
        (if length packet \<noteq> 18 then ReadHello hello haveID es
         else if packet ! 1 \<noteq> Version then Some (raise ErrProtocolVersion)
         else ReadHello (hello\<lparr>hello_ID := part packet 2 16\<rparr>) True es)
      else if packet ! 0 = packetHello then
        (if \<not> haveID \<or> (length packet \<noteq> 17 \<and> length packet \<noteq> 18) then ReadHello hello haveID es
         else Some (parseHello hello packet))
      else ReadHello hello haveID es)"

definition validatePeerExpected :: "u64 \<Rightarrow> u64 \<Rightarrow> u64 \<Rightarrow> go_error option" where
  "validatePeerExpected base next expected =
     (if expected < base \<or> expected > next then
        Some (Wrapped '''' (Sentinel ErrSessionState)
          ('': peer expects '' @ itoa (uint expected) @ '', retained range is ['' @ itoa (uint base)
           @ '','' @ itoa (uint next) @ '']''))
      else None)"

section \<open>Lemmas\<close>

lemma normalizeMTU_range: "minimumPacketMTU \<le> normalizeMTU m \<and> normalizeMTU m \<le> 244"
  by (auto simp: normalizeMTU_def minimumPacketMTU_def)

lemma normalizeMTU_id: "minimumPacketMTU \<le> m \<Longrightarrow> m \<le> 244 \<Longrightarrow> normalizeMTU m = m"
  by (simp add: normalizeMTU_def)

lemma uint_normalizeMTU [simp]: "uint (word_of_int (normalizeMTU m) :: u16) = normalizeMTU m"
  using normalizeMTU_range [of m] by (intro uint_of_int_small) (auto simp: minimumPacketMTU_def)

lemma uint_maxConnections:
  "0 \<le> n \<Longrightarrow> n \<le> 65535 \<Longrightarrow> uint (word_of_int n :: u16) = n"
  by (intro uint_of_int_small) auto

text \<open>
  The millisecond count on the wire is at least one, and on the way back never lengthens a
  timeout of a millisecond or more.
\<close>

lemma durationMilliseconds_uint:
  "uint (durationMilliseconds d) =
     (if d sdiv millisecond \<le> 0 then 1 else min (d sdiv millisecond) (2 ^ 32 - 1))"
proof -
  let ?ms = "d sdiv millisecond"
  have "uint (word_of_int ?ms :: u32) = ?ms" if "0 < ?ms" "?ms \<le> 2 ^ 32 - 1"
    using that by (intro uint_of_int_small) auto
  then show ?thesis
    by (simp add: durationMilliseconds_def Let_def min_def uint_minus_simple_alt)
qed

lemma durationMilliseconds_pos: "0 < uint (durationMilliseconds d)"
  by (simp add: durationMilliseconds_uint min_def)

lemma sdiv_millisecond: "0 \<le> d \<Longrightarrow> d sdiv millisecond = d div millisecond"
  by (cases "d = 0") (simp_all add: signed_divide_int_def millisecond_def)

lemma durationMilliseconds_le:
  assumes "millisecond \<le> d"
  shows "uint (durationMilliseconds d) * millisecond \<le> d"
proof -
  have "0 \<le> d" using assms by (simp add: millisecond_def)
  then have "uint (durationMilliseconds d) \<le> max 1 (d div millisecond)"
    by (simp add: durationMilliseconds_uint sdiv_millisecond)
  then have "uint (durationMilliseconds d) * millisecond \<le> max 1 (d div millisecond) * millisecond"
    by (simp add: millisecond_def)
  also have "\<dots> \<le> d" using assms by (auto simp: max_def millisecond_def)
  finally show ?thesis .
qed

lemma length_encodeHelloID [codec]: "length sid = 16 \<Longrightarrow> length (encodeHelloID sid) = 18"
  by (simp add: encodeHelloID_def)

lemma length_encodeHello2 [codec]:
  "length (snd (encodeHello sid e cfg m)) = 17 + (if Compression cfg then 1 else 0)"
  by (simp add: encodeHello_def codec)

lemma length_encodeHelloAck [codec]:
  "length (encodeHelloAck e cfg m) = 18 + (if Compression cfg then 1 else 0)"
  by (simp add: encodeHelloAck_def codec)

lemma length_rejectPacket: "length (rejectPacket reason) \<le> 19"
  by (simp add: rejectPacket_def)

lemma hello_parts:
  fixes sid e cfg m defines "p \<equiv> snd (encodeHello sid e cfg m)"
  shows "p ! 0 = packetHello" "part p (Suc 0) 8 = put_uint64 e"
    "part p 9 4 = put_uint32 (durationMilliseconds (ResumeTimeout cfg))"
    "part p 13 2 = put_uint16 (word_of_int (MaxConnections cfg))"
    "part p 15 2 = put_uint16 (word_of_int (normalizeMTU m))"
    "Compression cfg \<Longrightarrow> p ! 17 = capabilityCompression"
  by (simp_all add: p_def encodeHello_def part_def codec nth_append)

lemma helloAck_parts:
  fixes e cfg m defines "p \<equiv> encodeHelloAck e cfg m"
  shows "p ! 0 = packetHelloAck" "p ! Suc 0 = Version" "part p 2 8 = put_uint64 e"
    "part p 10 4 = put_uint32 (durationMilliseconds (ResumeTimeout cfg))"
    "part p 14 2 = put_uint16 (word_of_int (MaxConnections cfg))"
    "part p 16 2 = put_uint16 (word_of_int (normalizeMTU m))"
    "Compression cfg \<Longrightarrow> p ! 18 = capabilityCompression"
  by (simp_all add: p_def encodeHelloAck_def part_def codec nth_append)

lemma parseHello_encodeHello:
  assumes "0 < MaxConnections cfg" and "MaxConnections cfg \<le> 65535"
  shows "parseHello h (snd (encodeHello sid e cfg m)) =
    Inr (h\<lparr>hello_ExpectedRemote := e,
           hello_ResumeTimeout := uint (durationMilliseconds (ResumeTimeout cfg)) * millisecond,
           hello_MaxConnections := MaxConnections cfg,
           hello_AdvertisedPacketMTU := normalizeMTU m,
           hello_Compression := (if Compression cfg then True else hello_Compression h)\<rparr>)"
proof -
  have "\<not> uint (durationMilliseconds (ResumeTimeout cfg)) * millisecond \<le> 0"
    using durationMilliseconds_pos [of "ResumeTimeout cfg"] by (simp add: millisecond_def)
  then show ?thesis
    using assms normalizeMTU_range [of m]
    by (simp add: parseHello_def Let_def hello_parts codec uint_maxConnections capability_defs)
qed

lemma decodeHelloAck_encodeHelloAck:
  assumes "0 < MaxConnections cfg" and "MaxConnections cfg \<le> 65535"
  shows "decodeHelloAck (encodeHelloAck e cfg m) =
    Inr (e, \<lparr>ResumeTimeout = uint (durationMilliseconds (ResumeTimeout cfg)) * millisecond,
             ReplayWindow = 0, MaxConnections = MaxConnections cfg,
             Compression = Compression cfg\<rparr>, normalizeMTU m)"
proof -
  have "\<not> uint (durationMilliseconds (ResumeTimeout cfg)) * millisecond \<le> 0"
    using durationMilliseconds_pos [of "ResumeTimeout cfg"] by (simp add: millisecond_def)
  then show ?thesis
    using assms normalizeMTU_range [of m]
    by (simp add: decodeHelloAck_def Let_def helloAck_parts codec uint_maxConnections capability_defs
        emptyConfig_def)
qed

lemma normalized_valid:
  "0 < ResumeTimeout (normalized cfg) \<and> 0 < ReplayWindow (normalized cfg)
   \<and> 0 < MaxConnections (normalized cfg) \<and> MaxConnections (normalized cfg) \<le> 65535
   \<and> Compression (normalized cfg) = Compression cfg"
  by (simp add: normalized_def Let_def DefaultResumeTimeout_def DefaultReplayWindow_def
      DefaultMaxConnections_def second_def millisecond_def)

end
