(* ===== verification/Link_State.thy ===== *)
theory Link_State
  imports Handshake
begin

text \<open>
  The state of a reliable link session, \<open>internal/link/session.go\<close> and \<open>stats.go\<close>: the constants,
  the binding to one BLE connection, the session with its send and receive windows, and the
  operations that both directions share. Every operation runs under the session's mutex, so it is
  one state transformer. What it does outside the session (closing a connection, starting a
  goroutine, sending) is returned as a list of effects.
\<close>

section \<open>Constants\<close>

definition retransmitInterval :: duration where "retransmitInterval = second"
definition heartbeatInterval :: duration where "heartbeatInterval = 3 * second"
definition heartbeatResponseTimeout :: duration where "heartbeatResponseTimeout = 2 * second"
definition heartbeatFailureLimit :: int where "heartbeatFailureLimit = 2"
definition liveWriteWindow :: int where "liveWriteWindow = 64 * 1024"
definition fastRetransmitACKs :: int where "fastRetransmitACKs = 3"
definition ackBatchPackets :: int where "ackBatchPackets = 8"
definition initialFlightWindowPackets :: int where "initialFlightWindowPackets = ackBatchPackets"
definition maxFlightWindowPackets :: int where "maxFlightWindowPackets = 128"
definition ackMaxDelay :: duration where "ackMaxDelay = 40 * millisecond"

lemmas flight_consts = initialFlightWindowPackets_def ackBatchPackets_def maxFlightWindowPackets_def

section \<open>State\<close>

text \<open>A connection of the BLE layer: its identity and what its \<open>MTU\<close> method returns.\<close>

record PacketConn =
  conn_ref :: nat
  conn_MTU :: int

record transportStats =
  st_dataTXPackets :: u64
  st_dataTXBytes :: u64
  st_dataRXPackets :: u64
  st_dataRXBytes :: u64
  st_ackTXPackets :: u64
  st_ackRXPackets :: u64
  st_heartbeatTX :: u64
  st_heartbeatRX :: u64
  st_heartbeatFailures :: u64
  st_retransmissions :: u64
  st_fastRetransmissions :: u64
  st_outOfOrderDataPackets :: u64
  st_rejectedDataPackets :: u64
  st_sendCalls :: u64
  st_sendDuration :: duration
  st_maxSendDuration :: duration

text \<open>
  The loops of a binding hold a pointer to it; the session gives every binding a generation of its
  own, which stands for that pointer: \<open>s.current == b\<close> is \<open>isCurrent (b_gen b) s\<close>.
\<close>

record binding =
  b_conn :: PacketConn
  b_gen :: u64
  b_mtu :: int
  b_lastRX :: instant
  b_lastTX :: instant
  b_lastHeartbeat :: instant
  b_heartbeatPending :: bool
  b_heartbeatSentAt :: instant
  b_heartbeatFailures :: int
  b_sendNext :: u64
  b_retransmitAt :: instant
  b_duplicateACK :: int
  b_flightPackets :: int

text \<open>
  The channel \<open>notify\<close>, closed and replaced at each signal, is the number of signals so far: a
  waiter that saw \<open>k\<close> is woken once the number differs from \<open>k\<close>.
\<close>

record Session =
  s_id :: SessionID
  s_config :: Config
  txBase :: u64
  txNext :: u64
  txBuf :: bytes
  rxNext :: u64
  rxBuf :: bytes
  rxPending :: "(u64 \<times> bytes) list"
  rxPendingBytes :: int
  current :: "binding option"
  bindGen :: u64
  detachedAt :: instant
  ackDirty :: bool
  ackPackets :: int
  ackDeadline :: instant
  pongDirty :: bool
  helloReply :: bytes
  pendingHelloID :: SessionID
  havePendingHello :: bool
  s_stats :: transportStats
  readDeadline :: instant
  writeDeadline :: instant
  s_notify :: nat
  s_done :: bool
  s_closed :: bool
  s_err :: "go_error option"
  detachCount :: u64
  lastDetachReason :: string

datatype link_effect =
    ConnClose PacketConn
  | CancelBinding u64
  | StartLoops u64
  | GoCloseWithError go_error
  | GoExpireAfter instant duration
  | ConnSend PacketConn bytes

section \<open>Operations\<close>

definition zeroStats :: transportStats where
  "zeroStats = \<lparr>st_dataTXPackets = 0, st_dataTXBytes = 0, st_dataRXPackets = 0, st_dataRXBytes = 0,
     st_ackTXPackets = 0, st_ackRXPackets = 0, st_heartbeatTX = 0, st_heartbeatRX = 0,
     st_heartbeatFailures = 0, st_retransmissions = 0, st_fastRetransmissions = 0,
     st_outOfOrderDataPackets = 0, st_rejectedDataPackets = 0, st_sendCalls = 0,
     st_sendDuration = 0, st_maxSendDuration = 0\<rparr>"

definition NewSessionWithID :: "SessionID \<Rightarrow> Config \<Rightarrow> Session" where
  "NewSessionWithID sid cfg =
     \<lparr>s_id = sid, s_config = normalized cfg, txBase = 0, txNext = 0, txBuf = [], rxNext = 0,
      rxBuf = [], rxPending = [], rxPendingBytes = 0, current = None, bindGen = 0, detachedAt = 0,
      ackDirty = False, ackPackets = 0, ackDeadline = 0, pongDirty = False, helloReply = [],
      pendingHelloID = replicate 16 0, havePendingHello = False, s_stats = zeroStats,
      readDeadline = 0, writeDeadline = 0, s_notify = 0, s_done = False, s_closed = False,
      s_err = None, detachCount = 0, lastDetachReason = ''''\<rparr>"

text \<open>\<open>NewSession\<close> draws the identifier from \<open>crypto/rand\<close>, whose result is a parameter.\<close>

definition NewSession :: "go_error + SessionID \<Rightarrow> Config \<Rightarrow> go_error + Session" where
  "NewSession rand_read cfg =
     (case rand_read of
        Inl e \<Rightarrow> Inl (Wrapped ''create session id: '' e '''')
      | Inr sid \<Rightarrow> Inr (NewSessionWithID sid cfg))"

definition Matches :: "Session \<Rightarrow> SessionID \<Rightarrow> bool" where
  "Matches s sid = (s_id s = sid)"

definition signalLocked :: "Session \<Rightarrow> Session" where
  "signalLocked s = s\<lparr>s_notify := s_notify s + 1\<rparr>"

definition sessionErrorLocked :: "Session \<Rightarrow> go_error" where
  "sessionErrorLocked s =
     (case s_err s of
        None \<Rightarrow> Sentinel EOF
      | Some e \<Rightarrow> if errors_is e EOF then Sentinel EOF else e)"

definition isCurrent :: "u64 \<Rightarrow> Session \<Rightarrow> bool" where
  "isCurrent g s = (case current s of None \<Rightarrow> False | Some b \<Rightarrow> b_gen b = g)"

text \<open>Slicing \<open>txBuf[delta:]\<close> beyond its end panics.\<close>

definition reconcilePeerLocked :: "u64 \<Rightarrow> Session \<Rightarrow> go_error option \<times> Session" where
  "reconcilePeerLocked expected s =
     (case validatePeerExpected (txBase s) (txNext s) expected of
        Some e \<Rightarrow> (Some e, s)
      | None \<Rightarrow>
          let delta = go_int (expected - txBase s) in
          if delta > 0 then
            (if delta > len (txBuf s) then (Some (Sentinel Panic), s)
             else (None, signalLocked (s\<lparr>txBuf := drop (nat delta) (txBuf s), txBase := expected\<rparr>)))
          else (None, s))"

definition negotiateLocked :: "Config \<Rightarrow> Session \<Rightarrow> Session" where
  "negotiateLocked peer s =
     (let cfg0 = s_config s;
          cfg1 = (if ResumeTimeout peer > 0 \<and> ResumeTimeout peer < ResumeTimeout cfg0
                  then cfg0\<lparr>ResumeTimeout := ResumeTimeout peer\<rparr> else cfg0);
          cfg2 = (if MaxConnections peer > 0 \<and> MaxConnections peer < MaxConnections cfg1
                  then cfg1\<lparr>MaxConnections := MaxConnections peer\<rparr> else cfg1)
      in s\<lparr>s_config := cfg2\<lparr>Compression := Compression cfg2 \<and> Compression peer\<rparr>\<rparr>)"

definition reduceFlightWindow :: "binding \<Rightarrow> binding" where
  "reduceFlightWindow b =
     (let flightPackets = (if b_flightPackets b < initialFlightWindowPackets
                           then initialFlightWindowPackets else b_flightPackets b)
      in b\<lparr>b_flightPackets := max initialFlightWindowPackets (flightPackets div 2)\<rparr>)"

end
