(* ===== verification/Link_Receive.thy ===== *)
theory Link_Receive
  imports Link_State
begin

text \<open>
  The receive window of a link session: \<open>acceptDataLocked\<close> of \<open>internal/link/session.go\<close>, with its
  loops as recursive functions over the entries of \<open>rxPending\<close> in the order the range loop visits
  them. The invariant \<open>rx_ok\<close> says that the retained fragments are non-empty, disjoint, beyond
  the contiguous offset and counted by \<open>rxPendingBytes\<close>, and that the buffered bytes stay within
  the replay window. The lemmas show that no index is out of range, that the invariant is kept,
  and that a receiver fed with fragments of one byte stream delivers exactly that stream.
\<close>

section \<open>Definitions\<close>

text \<open>The overlap of a packet with the retained fragments: the first range loop.\<close>

datatype scan_result = ScanOverlap int | ScanReject | ScanConflict | ScanPanic

fun scanPending :: "u64 \<Rightarrow> bytes \<Rightarrow> u64 \<Rightarrow> u64 \<Rightarrow> (u64 \<times> bytes) list \<Rightarrow> int \<Rightarrow> scan_result" where
  "scanPending seq payload end' nxt [] overlap = ScanOverlap overlap"
| "scanPending seq payload end' nxt ((pendingSeq, pendingPayload) # rest) overlap =
     (let pendingEnd = pendingSeq + of_nat (length pendingPayload) in
      if seq < pendingEnd \<and> pendingSeq < end' then
        (if seq \<noteq> nxt then ScanReject
         else
           let n = min end' pendingEnd - pendingSeq in
           case (go_slice payload (unat (pendingSeq - seq)) (unat (pendingSeq - seq + n)),
                 go_slice pendingPayload 0 (unat n)) of
             (Some a, Some b) \<Rightarrow>
               if a \<noteq> b then ScanConflict
               else scanPending seq payload end' nxt rest (overlap + go_int n)
           | _ \<Rightarrow> ScanPanic)
      else scanPending seq payload end' nxt rest overlap)"

text \<open>
  The second range loop: fragments that start before \<open>end\<close> are dropped and their length is taken
  off the count; what a dropped fragment has beyond \<open>end\<close> is kept as the suffix.
\<close>

fun coverPending :: "u64 \<Rightarrow> (u64 \<times> bytes) list \<Rightarrow> int \<Rightarrow> bytes \<Rightarrow> (u64 \<times> bytes) list \<times> int \<times> bytes" where
  "coverPending end' [] count suffix = ([], count, suffix)"
| "coverPending end' ((pendingSeq, pendingPayload) # rest) count suffix =
     (if end' \<le> pendingSeq then
        (case coverPending end' rest count suffix of
           (kept, count', suffix') \<Rightarrow> ((pendingSeq, pendingPayload) # kept, count', suffix'))
      else
        coverPending end' rest (count - len pendingPayload)
          (if pendingSeq + of_nat (length pendingPayload) > end'
           then drop (unat (end' - pendingSeq)) pendingPayload else suffix))"

text \<open>The last loop: fragments that have become contiguous are delivered.\<close>

function drainPending ::
  "u64 \<Rightarrow> bytes \<Rightarrow> (u64 \<times> bytes) list \<Rightarrow> int \<Rightarrow> int \<Rightarrow> u64 \<times> bytes \<times> (u64 \<times> bytes) list \<times> int \<times> int" where
  "drainPending nxt buf pend count advanced =
     (case map_of pend nxt of
        None \<Rightarrow> (nxt, buf, pend, count, advanced)
      | Some pending \<Rightarrow>
          drainPending (nxt + of_nat (length pending)) (buf @ pending) (gomap_del nxt pend)
            (count - len pending) (advanced + 1))"
  by pat_completeness auto
termination
  by (relation "measure (\<lambda>(nxt, buf, pend, count, advanced). length pend)")
    (auto simp: length_gomap_del)

declare drainPending.simps [simp del]

text \<open>
  A packet ahead of the contiguous offset is retained, unless the reordering window is full.
  The result is \<open>(advancedPackets, buffered, rejected)\<close>.
\<close>

definition bufferAhead :: "u64 \<Rightarrow> bytes \<Rightarrow> Session \<Rightarrow> (go_error + int \<times> bool \<times> bool) \<times> Session" where
  "bufferAhead seq payload s =
     (if len (rxPending s) \<ge> maxFlightWindowPackets then (Inr (0, False, True), s)
      else
        (Inr (0, True, False),
         s\<lparr>rxPending := gomap_put seq payload (rxPending s),
           rxPendingBytes := rxPendingBytes s + len payload,
           s_stats := (s_stats s)\<lparr>
             st_dataRXBytes := st_dataRXBytes (s_stats s) + of_nat (length payload),
             st_outOfOrderDataPackets := st_outOfOrderDataPackets (s_stats s) + 1\<rparr>\<rparr>))"

text \<open>A packet at the contiguous offset is delivered, and with it what it makes contiguous.\<close>

definition deliverInOrder :: "u64 \<Rightarrow> bytes \<Rightarrow> int \<Rightarrow> Session \<Rightarrow> (go_error + int \<times> bool \<times> bool) \<times> Session" where
  "deliverInOrder end' payload overlap s =
     (case coverPending end' (rxPending s) (rxPendingBytes s) [] of
       (kept, count, suffix) \<Rightarrow>
         let pend1 = (if suffix \<noteq> [] then gomap_put end' suffix kept else kept);
             count1 = (if suffix \<noteq> [] then count + len suffix else count) in
         (case drainPending end' (rxBuf s @ payload) pend1 count1 1 of
            (nxt', buf', pend', count', advanced) \<Rightarrow>
              (Inr (advanced, False, False),
               signalLocked (s\<lparr>rxNext := nxt', rxBuf := buf', rxPending := pend',
                 rxPendingBytes := count',
                 s_stats := (s_stats s)\<lparr>
                   st_dataRXBytes := st_dataRXBytes (s_stats s)
                     + word_of_int (len payload - overlap)\<rparr>\<rparr>))))"

text \<open>
  The trimmed slice \<open>payload[s.rxNext-seq:]\<close> is in range because the packet ends beyond
  \<open>rxNext\<close>.
\<close>

definition acceptDataLocked ::
  "u64 \<Rightarrow> bytes \<Rightarrow> Session \<Rightarrow> (go_error + int \<times> bool \<times> bool) \<times> Session" where
  "acceptDataLocked seq0 payload0 s =
    (if len payload0 > 2 ^ 64 - 1 - uint seq0 then (raise ErrSequenceExhausted, s)
     else
      let end' = seq0 + of_nat (length payload0) in
      if end' \<le> rxNext s then (Inr (0, False, True), s)
      else
       let payload = (if seq0 < rxNext s then drop (unat (rxNext s - seq0)) payload0 else payload0);
           seq = (if seq0 < rxNext s then rxNext s else seq0) in
       if uint (end' - rxNext s) > ReplayWindow (s_config s) then (Inr (0, False, True), s)
       else
        case scanPending seq payload end' (rxNext s) (rxPending s) 0 of
          ScanReject \<Rightarrow> (Inr (0, False, True), s)
        | ScanConflict \<Rightarrow> (Inl (ErrorText ''conflicting replay data''), s)
        | ScanPanic \<Rightarrow> (raise Panic, s)
        | ScanOverlap overlap \<Rightarrow>
            if len (rxBuf s) + rxPendingBytes s + len payload - overlap > ReplayWindow (s_config s) then
              (Inr (0, False, True), s)
            else if seq > rxNext s then bufferAhead seq payload s
            else deliverInOrder end' payload overlap s)"

section \<open>Invariant\<close>

text \<open>
  Retained fragments from offset \<open>lo\<close> on: distinct starts, no empty fragment, none beyond the
  64-bit range, no two that overlap.
\<close>

definition apart :: "u64 \<times> bytes \<Rightarrow> u64 \<times> bytes \<Rightarrow> bool" where
  "apart f g \<longleftrightarrow> unat (fst f) + length (snd f) \<le> unat (fst g)
               \<or> unat (fst g) + length (snd g) \<le> unat (fst f)"

definition pend_ok :: "nat \<Rightarrow> (u64 \<times> bytes) list \<Rightarrow> bool" where
  "pend_ok lo pend \<longleftrightarrow>
     distinct (map fst pend)
     \<and> (\<forall>f \<in> set pend. snd f \<noteq> [] \<and> lo \<le> unat (fst f) \<and> unat (fst f) + length (snd f) < 2 ^ 64)
     \<and> (\<forall>f \<in> set pend. \<forall>g \<in> set pend. f \<noteq> g \<longrightarrow> apart f g)"

definition pend_bytes :: "(u64 \<times> bytes) list \<Rightarrow> int" where
  "pend_bytes pend = (\<Sum>f \<leftarrow> pend. len (snd f))"

definition rx_ok :: "Session \<Rightarrow> bool" where
  "rx_ok s \<longleftrightarrow>
     pend_ok (Suc (unat (rxNext s))) (rxPending s)
     \<and> (\<forall>f \<in> set (rxPending s).
          int (unat (fst f) + length (snd f)) \<le> uint (rxNext s) + ReplayWindow (s_config s))
     \<and> rxPendingBytes s = pend_bytes (rxPending s)
     \<and> len (rxBuf s) + rxPendingBytes s \<le> ReplayWindow (s_config s)
     \<and> len (rxPending s) \<le> maxFlightWindowPackets
     \<and> 0 < ReplayWindow (s_config s) \<and> ReplayWindow (s_config s) < 2 ^ 63"

section \<open>Lemmas on the loops\<close>

lemma pend_okD:
  assumes "pend_ok lo pend" and "(q, p) \<in> set pend"
  shows "p \<noteq> []" "lo \<le> unat q" "unat q + length p < 2 ^ 64"
    "unat (q + of_nat (length p)) = unat q + length p"
proof -
  from assms show "p \<noteq> []" "lo \<le> unat q" "unat q + length p < 2 ^ 64"
    by (fastforce simp: pend_ok_def)+
  then show "unat (q + of_nat (length p)) = unat q + length p"
    by (simp add: unat_add_of_nat)
qed

lemma pend_ok_mono: "pend_ok lo pend \<Longrightarrow> lo' \<le> lo \<Longrightarrow> pend_ok lo' pend"
  unfolding pend_ok_def by (meson le_trans)

lemma pend_ok_subset:
  "pend_ok lo pend \<Longrightarrow> set pend' \<subseteq> set pend \<Longrightarrow> distinct (map fst pend') \<Longrightarrow> pend_ok lo pend'"
  unfolding pend_ok_def by (meson subsetD)

lemma pend_ok_del: "pend_ok lo pend \<Longrightarrow> pend_ok lo (gomap_del k pend)"
  by (rule pend_ok_subset) (auto simp: pend_ok_def)

lemma pend_ok_put:
  assumes "pend_ok lo pend" and "p \<noteq> []" and "lo \<le> unat q" and "unat q + length p < 2 ^ 64"
    and "\<And>f. f \<in> set pend \<Longrightarrow> apart (q, p) f"
  shows "pend_ok lo (gomap_put q p pend)"
  using assms by (fastforce simp: pend_ok_def gomap_put_def apart_def)

lemma pend_bytes_simps [simp]:
  "pend_bytes [] = 0" "pend_bytes (f # pend) = len (snd f) + pend_bytes pend"
  by (simp_all add: pend_bytes_def)

lemma pend_bytes_del:
  "distinct (map fst pend) \<Longrightarrow> map_of pend k = Some p \<Longrightarrow>
   pend_bytes (gomap_del k pend) = pend_bytes pend - len p"
  unfolding pend_bytes_def
  by (subst sum_list_gomap_del [of pend k p]) simp_all

lemma pend_bytes_put:
  assumes "q \<notin> fst ` set pend"
  shows "pend_bytes (gomap_put q p pend) = len p + pend_bytes pend"
  using assms by (simp add: gomap_put_def gomap_del_fresh)

lemma pend_bytes_nonneg: "0 \<le> pend_bytes pend"
  by (induction pend) auto

text \<open>A fragment of the byte stream \<open>src\<close>.\<close>

definition frag_of :: "bytes \<Rightarrow> u64 \<Rightarrow> bytes \<Rightarrow> bool" where
  "frag_of src q p \<longleftrightarrow> unat q + length p \<le> length src \<and> p = part src (unat q) (length p)"

lemma frag_of_drop:
  assumes "frag_of src q p" and "k \<le> length p" and "unat q' = unat q + k"
  shows "frag_of src q' (drop k p)"
proof -
  from assms(1) have p: "p = part src (unat q) (length p)" and le: "unat q + length p \<le> length src"
    by (simp_all add: frag_of_def)
  from assms(2) have "drop k p = part src (unat q + k) (length p - k)"
    by (subst p) (rule drop_part)
  with le assms(2,3) show ?thesis by (simp add: frag_of_def length_part)
qed

text \<open>Draining delivers the contiguous fragments and leaves only fragments beyond the new offset.\<close>

lemma drainPending_ok:
  assumes "pend_ok (unat nxt) pend" and "drainPending nxt buf pend count adv = (nxt', buf', pend', count', adv')"
  shows "pend_ok (Suc (unat nxt')) pend' \<and> set pend' \<subseteq> set pend \<and> unat nxt \<le> unat nxt'
    \<and> length pend' \<le> length pend \<and> adv \<le> adv'
    \<and> count' - pend_bytes pend' = count - pend_bytes pend
    \<and> (\<exists>added. buf' = buf @ added \<and> length added = unat nxt' - unat nxt
         \<and> len added = count - count'
         \<and> (\<forall>src. (\<forall>(q, p) \<in> set pend. frag_of src q p) \<longrightarrow> unat nxt \<le> length src \<longrightarrow>
              added = part src (unat nxt) (unat nxt' - unat nxt) \<and> unat nxt' \<le> length src))"
  using assms
proof (induction nxt buf pend count adv rule: drainPending.induct)
  case (1 nxt buf pend count adv)
  show ?case
  proof (cases "map_of pend nxt")
    case None
    with "1.prems"(2) have eq: "nxt' = nxt" "buf' = buf" "pend' = pend" "count' = count" "adv' = adv"
      by (auto simp: drainPending.simps [of nxt])
    have "Suc (unat nxt) \<le> unat (fst f)" if "f \<in> set pend" for f
    proof -
      have "unat nxt \<le> unat (fst f)" using "1.prems"(1) that by (auto simp: pend_ok_def)
      moreover have "fst f \<noteq> nxt" using None that by (force simp: map_of_eq_None_iff)
      ultimately show ?thesis by (metis Suc_leI le_neq_implies_less word_eq_unatI)
    qed
    then have "pend_ok (Suc (unat nxt)) pend"
      using "1.prems"(1) by (auto simp: pend_ok_def)
    then show ?thesis by (simp add: eq)
  next
    case (Some p)
    then have mem: "(nxt, p) \<in> set pend" by (rule map_of_SomeD)
    note ok = pend_okD [OF "1.prems"(1) mem]
    let ?n1 = "nxt + of_nat (length p)" and ?pend1 = "gomap_del nxt pend"
    have n1: "unat ?n1 = unat nxt + length p" by (rule ok(4))
    have ok1: "pend_ok (unat ?n1) ?pend1"
    proof -
      have "unat ?n1 \<le> unat (fst f)" if "f \<in> set ?pend1" for f
      proof -
        from that have f: "f \<in> set pend" "fst f \<noteq> nxt" by auto
        then have "apart (nxt, p) f" using "1.prems"(1) mem by (force simp: pend_ok_def)
        moreover have "unat nxt \<le> unat (fst f)" "0 < length (snd f)"
          using "1.prems"(1) f by (auto simp: pend_ok_def)
        ultimately show ?thesis using n1 by (auto simp: apart_def)
      qed
      moreover have "pend_ok (unat nxt) ?pend1" using "1.prems"(1) by (rule pend_ok_del)
      ultimately show ?thesis by (auto simp: pend_ok_def)
    qed
    have run: "drainPending ?n1 (buf @ p) ?pend1 (count - len p) (adv + 1) = (nxt', buf', pend', count', adv')"
      using "1.prems"(2) Some by (simp add: drainPending.simps [of nxt])
    note IH = "1.IH" [OF Some ok1 run]
    have cnt: "pend_bytes ?pend1 = pend_bytes pend - len p"
      using "1.prems"(1) Some by (intro pend_bytes_del) (auto simp: pend_ok_def)
    from IH obtain added where added: "buf' = (buf @ p) @ added" "length added = unat nxt' - unat ?n1"
        "len added = count - len p - count'"
      and src: "\<And>src. (\<forall>(q, p) \<in> set ?pend1. frag_of src q p) \<Longrightarrow> unat ?n1 \<le> length src \<Longrightarrow>
              added = part src (unat ?n1) (unat nxt' - unat ?n1) \<and> unat nxt' \<le> length src"
      by blast
    have le: "unat ?n1 \<le> unat nxt'" using IH by blast
    have "p @ added = part src (unat nxt) (unat nxt' - unat nxt) \<and> unat nxt' \<le> length src"
      if frags: "\<forall>(q, p) \<in> set pend. frag_of src q p" for src
    proof -
      from frags mem have "frag_of src nxt p" by auto
      then have p: "p = part src (unat nxt) (length p)" and "unat ?n1 \<le> length src"
        using n1 by (auto simp: frag_of_def)
      with src [of src] frags have "added = part src (unat ?n1) (unat nxt' - unat ?n1)" "unat nxt' \<le> length src"
        by auto
      then show ?thesis
        using part_append_part [of src "unat nxt" "length p" "unat nxt' - unat ?n1"] le n1 p by simp
    qed
    moreover have "pend_ok (Suc (unat nxt')) pend' \<and> set pend' \<subseteq> set pend \<and> unat nxt \<le> unat nxt'
      \<and> length pend' \<le> length pend \<and> adv \<le> adv' \<and> count' - pend_bytes pend' = count - pend_bytes pend"
      using IH cnt n1 length_gomap_del [OF Some] by auto
    ultimately show ?thesis
      using added le n1 by (intro conjI exI [of _ "p @ added"]) auto
  qed
qed

text \<open>The bytes of retained fragments that a packet ending at \<open>end'\<close> covers.\<close>

definition overlap_bytes :: "u64 \<Rightarrow> (u64 \<times> bytes) list \<Rightarrow> int" where
  "overlap_bytes end' pend =
     (\<Sum>f \<leftarrow> pend. if fst f < end'
       then int (min (unat end') (unat (fst f) + length (snd f)) - unat (fst f)) else 0)"

lemma overlap_bytes_simps [simp]:
  "overlap_bytes end' [] = 0"
  "overlap_bytes end' (f # pend) = (if fst f < end'
     then int (min (unat end') (unat (fst f) + length (snd f)) - unat (fst f)) else 0)
     + overlap_bytes end' pend"
  by (simp_all add: overlap_bytes_def)

lemma pend_ok_Cons:
  assumes "pend_ok lo (f # pend)"
  shows "pend_ok lo pend" "\<And>g. g \<in> set pend \<Longrightarrow> apart f g"
  using assms by (auto simp: pend_ok_def)

lemma scan_slices:
  fixes seq end' q :: u64
  assumes "unat seq < unat q" and "q < end'" and "unat end' = unat seq + length payload"
    and pe: "unat pe = unat q + length p" and "length p < 2 ^ 63"
  defines "n \<equiv> min end' pe - q"
  shows "unat n = min (unat end') (unat q + length p) - unat q"
    and "go_int n = int (min (unat end') (unat q + length p) - unat q)"
    and "go_slice payload (unat (q - seq)) (unat (q - seq + n))
         = Some (part payload (unat q - unat seq) (unat n))"
    and "go_slice p 0 (unat n) = Some (part p 0 (unat n))"
proof -
  have mm: "unat (min end' pe) = min (unat end') (unat q + length p)"
    using pe by (auto simp: min_def word_le_nat_alt)
  have "q \<le> min end' pe" using assms(2) pe mm by (auto simp: word_le_nat_alt word_less_nat_alt min_def)
  then show n: "unat n = min (unat end') (unat q + length p) - unat q"
    using mm by (simp add: n_def unat_sub_le)
  have "unat n < 2 ^ 63" using n assms(5) by auto
  then show "go_int n = int (min (unat end') (unat q + length p) - unat q)"
    using n by (simp add: go_int_small)
  have "seq \<le> q" using assms(1) by (simp add: word_le_nat_alt)
  then have d: "unat (q - seq) = unat q - unat seq" by (rule unat_sub_le)
  have lt: "unat q < unat end'" using assms(2) by (simp add: word_less_nat_alt)
  have bound: "unat q - unat seq + unat n \<le> length payload"
    using n assms(1,3) lt by auto
  have "unat (q - seq + n) = unat q - unat seq + unat n"
    using d bound assms(3) unat_less_pow [of end'] unat_add_of_nat [of "q - seq" "unat n"] by simp
  then show "go_slice payload (unat (q - seq)) (unat (q - seq + n))
         = Some (part payload (unat q - unat seq) (unat n))"
    using d bound by (simp add: go_slice_part)
  show "go_slice p 0 (unat n) = Some (part p 0 (unat n))"
    using n by (simp add: go_slice_part)
qed

text \<open>A packet at the contiguous offset: every compared slice is in range, and the overlap is counted.\<close>

lemma scanPending_inorder:
  assumes "pend_ok (Suc (unat seq)) pend" and "\<And>f. f \<in> set pend \<Longrightarrow> length (snd f) < 2 ^ 63"
    and e: "unat end' = unat seq + length payload"
  shows "scanPending seq payload end' seq pend ov = ScanOverlap (ov + overlap_bytes end' pend)
    \<or> (scanPending seq payload end' seq pend ov = ScanConflict
       \<and> \<not> (\<exists>src. frag_of src seq payload \<and> (\<forall>(q, p) \<in> set pend. frag_of src q p)))"
  using assms(1,2)
proof (induction pend arbitrary: ov)
  case (Cons f pend)
  obtain q p where f: "f = (q, p)" by (cases f)
  note ok = pend_okD [OF Cons.prems(1), of q p, unfolded f]
  note IH = Cons.IH [OF pend_ok_Cons(1) [OF Cons.prems(1)] Cons.prems(2)]
  show ?case
  proof (cases "q < end'")
    case False
    with IH [of ov] f show ?thesis by auto
  next
    case True
    have lt: "unat seq < unat q" using ok f by auto
    have len: "length p < 2 ^ 63" using Cons.prems(2) [of f] f by simp
    let ?n = "min end' (q + of_nat (length p)) - q"
    have pe: "unat (q + of_nat (length p)) = unat q + length p" using ok f by auto
    note sl = scan_slices [OF lt True e pe len]
    have seqlt: "seq < q + of_nat (length p)" using lt pe by (simp add: word_less_nat_alt)
    show ?thesis
    proof (cases "part payload (unat q - unat seq) (unat ?n) = part p 0 (unat ?n)")
      case True
      with IH [of "ov + go_int ?n"] f sl seqlt \<open>q < end'\<close> show ?thesis
        by (auto simp: Let_def add.assoc)
    next
      case False
      have "\<not> (frag_of src seq payload \<and> frag_of src q p)" for src
      proof
        assume "frag_of src seq payload \<and> frag_of src q p"
        then have pl: "payload = part src (unat seq) (length payload)"
          and p: "p = part src (unat q) (length p)" by (auto simp: frag_of_def)
        have lt': "unat q < unat end'" using \<open>q < end'\<close> by (simp add: word_less_nat_alt)
        have "part payload (unat q - unat seq) (unat ?n) = part src (unat q) (unat ?n)"
          using part_of_part [of "unat q - unat seq" "unat ?n" "length payload" src "unat seq"]
            lt lt' e sl(1) pl by auto
        moreover have "part p 0 (unat ?n) = part src (unat q) (unat ?n)"
          using part_of_part [of 0 "unat ?n" "length p" src "unat q"] sl(1) p by auto
        ultimately show False using False by simp
      qed
      with False f sl seqlt \<open>q < end'\<close> show ?thesis
        by (auto simp: Let_def)
    qed
  qed
qed simp

text \<open>A packet ahead of the contiguous offset overlaps nothing, or is rejected.\<close>

lemma scanPending_ahead:
  assumes "pend_ok lo pend" and "seq \<noteq> nxt"
  shows "scanPending seq payload end' nxt pend ov = ScanReject
    \<or> (scanPending seq payload end' nxt pend ov = ScanOverlap ov
       \<and> (\<forall>f \<in> set pend. unat (fst f) + length (snd f) \<le> unat seq \<or> unat end' \<le> unat (fst f)))"
  using assms(1)
proof (induction pend)
  case (Cons f pend)
  obtain q p where f: "f = (q, p)" by (cases f)
  have "unat (q + of_nat (length p)) = unat q + length p"
    using pend_okD(4) [OF Cons.prems, of q p] f by simp
  with Cons.IH [OF pend_ok_Cons(1) [OF Cons.prems]] f assms(2) show ?case
    by (auto simp: Let_def word_less_nat_alt not_less)
qed simp

text \<open>The covered fragments: what is kept, what is taken off the count, and the one suffix.\<close>

definition straddles :: "u64 \<Rightarrow> u64 \<times> bytes \<Rightarrow> bool" where
  "straddles end' f \<longleftrightarrow> fst f < end' \<and> unat end' < unat (fst f) + length (snd f)"

lemma coverPending_ok:
  assumes "pend_ok lo pend" and "coverPending end' pend count suffix0 = (kept, count', suffix)"
    and "suffix0 \<noteq> [] \<Longrightarrow> \<forall>f \<in> set pend. \<not> straddles end' f"
  shows "kept = filter (\<lambda>f. end' \<le> fst f) pend
    \<and> count' + len suffix = count + len suffix0 - overlap_bytes end' pend
    \<and> pend_bytes pend - count = pend_bytes kept - count'
    \<and> (suffix = suffix0 \<or> (\<exists>f \<in> set pend. straddles end' f \<and> suffix = drop (unat end' - unat (fst f)) (snd f)))"
  using assms
proof (induction pend arbitrary: count suffix0 kept)
  case (Cons f pend)
  obtain q p where f: "f = (q, p)" by (cases f)
  have pe: "unat (q + of_nat (length p)) = unat q + length p"
    using pend_okD(4) [OF Cons.prems(1), of q p] f by simp
  note tail = pend_ok_Cons [OF Cons.prems(1)]
  show ?case
  proof (cases "end' \<le> q")
    case True
    then obtain kept1 where c: "coverPending end' pend count suffix0 = (kept1, count', suffix)" and "kept = f # kept1"
      using Cons.prems(2) f by (auto split: prod.splits)
    with Cons.IH [OF tail(1) c] Cons.prems(3) True f show ?thesis by (auto simp: not_less)
  next
    case False
    let ?sfx = "if q + of_nat (length p) > end' then drop (unat (end' - q)) p else suffix0"
    have c: "coverPending end' pend (count - len p) ?sfx = (kept, count', suffix)"
      using Cons.prems(2) False f by simp
    have sub: "unat (end' - q) = unat end' - unat q" using False by (simp add: unat_sub_le)
    have str: "q + of_nat (length p) > end' \<longleftrightarrow> straddles end' f"
      using False f pe by (auto simp: straddles_def word_less_nat_alt word_le_nat_alt)
    have none: "\<forall>g \<in> set pend. \<not> straddles end' g" if "?sfx \<noteq> []"
    proof (cases "straddles end' f")
      case True
      then show ?thesis using tail(2) by (fastforce simp: straddles_def apart_def word_less_nat_alt)
    next
      case False
      with that str Cons.prems(3) show ?thesis by auto
    qed
    have lt: "unat q < unat end'" using False by (simp add: word_less_nat_alt not_le)
    have "len ?sfx - len p = len suffix0 - int (min (unat end') (unat q + length p) - unat q)"
    proof (cases "straddles end' f")
      case True
      then have "suffix0 = []" using Cons.prems(3) by auto
      with True str sub f lt show ?thesis by (auto simp: straddles_def min_def)
    next
      case False
      with str lt f show ?thesis by (auto simp: straddles_def min_def word_less_nat_alt)
    qed
    with Cons.IH [OF tail(1) c none] False f str sub show ?thesis
      by (auto simp: not_le)
  qed
qed simp


section \<open>Accepting a packet\<close>

lemma rx_okD:
  assumes "rx_ok s"
  shows "pend_ok (Suc (unat (rxNext s))) (rxPending s)"
    "\<And>f. f \<in> set (rxPending s) \<Longrightarrow> length (snd f) < 2 ^ 63"
    "rxPendingBytes s = pend_bytes (rxPending s)"
proof -
  show "pend_ok (Suc (unat (rxNext s))) (rxPending s)" "rxPendingBytes s = pend_bytes (rxPending s)"
    using assms by (simp_all add: rx_ok_def)
  fix f assume f: "f \<in> set (rxPending s)"
  then have "len (snd f) \<le> pend_bytes (rxPending s)"
    unfolding pend_bytes_def by (intro member_le_sum_list) (auto intro!: image_eqI [of _ _ f])
  then show "length (snd f) < 2 ^ 63" using assms by (simp add: rx_ok_def)
qed


lemma bufferAhead_ok:
  assumes ok: "rx_ok s" and run: "bufferAhead q p s = (r, s')" and "p \<noteq> []"
    and q: "unat (rxNext s) < unat q" and e: "unat q + length p < 2 ^ 64"
    and apart: "\<And>f. f \<in> set (rxPending s) \<Longrightarrow> apart (q, p) f"
    and win: "int (unat q + length p) \<le> uint (rxNext s) + ReplayWindow (s_config s)"
    and room: "len (rxBuf s) + rxPendingBytes s + len p \<le> ReplayWindow (s_config s)"
  shows "rx_ok s' \<and> set (rxPending s') \<subseteq> insert (q, p) (set (rxPending s))"
proof (cases "len (rxPending s) \<ge> maxFlightWindowPackets")
  case True
  with ok run show ?thesis by (auto simp: bufferAhead_def)
next
  case False
  have fresh: "q \<notin> fst ` set (rxPending s)"
    using apart pend_okD(1) [OF rx_okD(1) [OF ok]] \<open>p \<noteq> []\<close> by (fastforce simp: apart_def)
  have "pend_ok (Suc (unat (rxNext s))) (gomap_put q p (rxPending s))"
    using rx_okD(1) [OF ok] \<open>p \<noteq> []\<close> q e apart by (intro pend_ok_put) auto
  moreover have "length (gomap_put q p (rxPending s)) = Suc (length (rxPending s))"
    using fresh by (simp add: gomap_put_def gomap_del_fresh)
  ultimately have "rx_ok (snd (bufferAhead q p s))"
    using ok False win room pend_bytes_put [OF fresh, of p]
    by (auto simp: bufferAhead_def rx_ok_def gomap_put_def)
  with run show ?thesis by (auto simp: bufferAhead_def gomap_put_def False split: if_splits)
qed

text \<open>The retained fragments after the covered ones are gone, with the suffix stored at \<open>end'\<close>.\<close>

lemma coverPending_suffix:
  assumes pok: "pend_ok (Suc lo) pend" and cov: "coverPending end' pend (pend_bytes pend) [] = (kept, count, suffix)"
    and "lo \<le> unat end'"
  defines "pend1 \<equiv> (if suffix \<noteq> [] then gomap_put end' suffix kept else kept)"
    and "count1 \<equiv> (if suffix \<noteq> [] then count + len suffix else count)"
  shows "pend_ok (unat end') pend1" and "count1 = pend_bytes pend1"
    and "count1 = pend_bytes pend - overlap_bytes end' pend" and "length pend1 \<le> length pend"
    and "\<And>f. f \<in> set pend1 \<Longrightarrow> \<exists>g \<in> set pend. unat (fst f) + length (snd f) = unat (fst g) + length (snd g)"
    and "\<And>src. \<forall>(q, p) \<in> set pend. frag_of src q p \<Longrightarrow> \<forall>(q, p) \<in> set pend1. frag_of src q p"
proof -
  note co = coverPending_ok [OF pok cov, simplified]
  have kept: "kept = filter (\<lambda>f. end' \<le> fst f) pend" using co by blast
  have kok: "pend_ok (unat end') kept"
    using pok by (auto simp: kept pend_ok_def word_le_nat_alt distinct_map_filter)
  have cnt: "count = pend_bytes kept" "count + len suffix = pend_bytes pend - overlap_bytes end' pend"
    using co by auto
  have "pend_ok (unat end') pend1 \<and> count1 = pend_bytes pend1 \<and> length pend1 \<le> length pend
    \<and> (\<forall>f \<in> set pend1. \<exists>g \<in> set pend. unat (fst f) + length (snd f) = unat (fst g) + length (snd g))
    \<and> (\<forall>src. (\<forall>(q, p) \<in> set pend. frag_of src q p) \<longrightarrow> (\<forall>(q, p) \<in> set pend1. frag_of src q p))"
  proof (cases "suffix = []")
    case True
    with kok cnt have "pend_ok (unat end') pend1 \<and> count1 = pend_bytes pend1 \<and> length pend1 \<le> length pend"
      by (simp add: pend1_def count1_def) (simp add: kept)
    moreover have "set pend1 \<subseteq> set pend" using True by (auto simp: pend1_def kept)
    ultimately show ?thesis by blast
  next
    case False
    then obtain q p where f: "(q, p) \<in> set pend" and str: "straddles end' (q, p)"
      and sfx: "suffix = drop (unat end' - unat q) p"
      using co by auto
    then have qp: "unat q < unat end'" "unat end' < unat q + length p" "\<not> end' \<le> q"
      by (auto simp: straddles_def word_less_nat_alt word_le_nat_alt)
    have away: "unat q + length p \<le> unat (fst g)" if "g \<in> set kept" for g
    proof -
      have "g \<in> set pend" "unat end' \<le> unat (fst g)" using that by (auto simp: kept word_le_nat_alt)
      moreover from this have "apart (q, p) g" using pok f qp unfolding pend_ok_def by fastforce
      ultimately show ?thesis using qp by (auto simp: apart_def)
    qed
    have lens: "unat end' + length suffix = unat q + length p" using sfx qp by auto
    have fresh: "end' \<notin> fst ` set kept" using away qp by (fastforce dest: away)
    have put_ok: "pend_ok (unat end') (gomap_put end' suffix kept)"
    proof (rule pend_ok_put [OF kok False])
      show "unat end' + length suffix < 2 ^ 64" using lens pend_okD(3) [OF pok f] by simp
    qed (use away lens in \<open>auto simp: apart_def\<close>)
    have "length kept < length pend"
      unfolding kept using f qp by (intro length_filter_less [of "(q, p)"]) auto
    then have put_len: "length (gomap_put end' suffix kept) \<le> length pend"
      by (simp add: gomap_put_def gomap_del_fresh [OF fresh])
    have pend1: "pend1 = gomap_put end' suffix kept" and count1: "count1 = pend_bytes (gomap_put end' suffix kept)"
      using False pend_bytes_put [OF fresh, of suffix] cnt(1) by (simp_all add: pend1_def count1_def)
    have mem: "f = (end', suffix) \<or> f \<in> set pend" if "f \<in> set pend1" for f
      using that unfolding pend1 by (auto simp: gomap_put_def kept)
    have sfrag: "frag_of src end' suffix" if "\<forall>(q, p) \<in> set pend. frag_of src q p" for src
      unfolding sfx using that f qp by (intro frag_of_drop [of src q]) auto
    have "\<forall>f \<in> set pend1. \<exists>g \<in> set pend. unat (fst f) + length (snd f) = unat (fst g) + length (snd g)"
    proof
      fix g assume "g \<in> set pend1"
      from mem [OF this] show "\<exists>h \<in> set pend. unat (fst g) + length (snd g) = unat (fst h) + length (snd h)"
        using f lens by (metis fst_conv snd_conv)
    qed
    moreover have "\<forall>src. (\<forall>(q, p) \<in> set pend. frag_of src q p) \<longrightarrow> (\<forall>(q, p) \<in> set pend1. frag_of src q p)"
      using mem sfrag by blast
    ultimately show ?thesis using put_ok put_len pend1 count1 by (simp only: simp_thms)
  qed
  then show "pend_ok (unat end') pend1" "count1 = pend_bytes pend1" "length pend1 \<le> length pend"
    "\<And>f. f \<in> set pend1 \<Longrightarrow> \<exists>g \<in> set pend. unat (fst f) + length (snd f) = unat (fst g) + length (snd g)"
    "\<And>src. \<forall>(q, p) \<in> set pend. frag_of src q p \<Longrightarrow> \<forall>(q, p) \<in> set pend1. frag_of src q p"
    by blast+
  show "count1 = pend_bytes pend - overlap_bytes end' pend" using cnt by (auto simp: count1_def)
qed

text \<open>What delivering a packet of \<open>src\<close> at the contiguous offset adds to the read buffer.\<close>

definition delivers :: "Session \<Rightarrow> Session \<Rightarrow> bytes \<Rightarrow> bool" where
  "delivers s s' src \<longleftrightarrow>
     (\<forall>(q, p) \<in> set (rxPending s'). frag_of src q p)
     \<and> (rxNext s' = rxNext s \<or> unat (rxNext s') \<le> length src)
     \<and> rxBuf s' = rxBuf s @ part src (unat (rxNext s)) (unat (rxNext s') - unat (rxNext s))"

lemma deliverInOrder_ok:
  assumes ok: "rx_ok s" and run: "deliverInOrder end' p overlap s = (r, s')"
    and e: "unat end' = unat (rxNext s) + length p" and ov: "overlap = overlap_bytes end' (rxPending s)"
    and room: "len (rxBuf s) + rxPendingBytes s + len p - overlap \<le> ReplayWindow (s_config s)"
  shows "rx_ok s'" and "unat end' \<le> unat (rxNext s')" and "\<exists>adv \<ge> 1. r = Inr (adv, False, False)"
    and "\<exists>added. rxBuf s' = rxBuf s @ added \<and> length added = unat (rxNext s') - unat (rxNext s)"
    and "\<And>src. frag_of src (rxNext s) p \<Longrightarrow> \<forall>(q, p) \<in> set (rxPending s). frag_of src q p \<Longrightarrow> delivers s s' src"
proof -
  obtain kept count suffix where cov: "coverPending end' (rxPending s) (rxPendingBytes s) [] = (kept, count, suffix)"
    by (cases "coverPending end' (rxPending s) (rxPendingBytes s) []")
  define pend1 where "pend1 = (if suffix \<noteq> [] then gomap_put end' suffix kept else kept)"
  define count1 where "count1 = (if suffix \<noteq> [] then count + len suffix else count)"
  obtain n b pd c adv where dr: "drainPending end' (rxBuf s @ p) pend1 count1 1 = (n, b, pd, c, adv)"
    by (cases "drainPending end' (rxBuf s @ p) pend1 count1 1")
  have "unat (rxNext s) \<le> unat end'" using e by simp
  note cs = coverPending_suffix [OF rx_okD(1) [OF ok] cov [unfolded rx_okD(3) [OF ok]] this,
      folded pend1_def count1_def]
  note dok = drainPending_ok [OF cs(1) dr]
  from run have s': "r = Inr (adv, False, False)" "rxNext s' = n" "rxBuf s' = b" "rxPending s' = pd"
      "rxPendingBytes s' = c" "s_config s' = s_config s"
    using cov dr by (auto simp: deliverInOrder_def signalLocked_def pend1_def count1_def Let_def)
  show "unat end' \<le> unat (rxNext s')" "\<exists>adv \<ge> 1. r = Inr (adv, False, False)"
    using dok s' by auto
  from dok obtain added where add: "b = (rxBuf s @ p) @ added" "length added = unat n - unat end'"
      "len added = count1 - c"
    and src: "\<And>src. (\<forall>(q, p) \<in> set pend1. frag_of src q p) \<Longrightarrow> unat end' \<le> length src \<Longrightarrow>
       added = part src (unat end') (unat n - unat end') \<and> unat n \<le> length src"
    by blast
  show "\<exists>added. rxBuf s' = rxBuf s @ added \<and> length added = unat (rxNext s') - unat (rxNext s)"
    using add s' e dok by (intro exI [of _ "p @ added"]) simp
  have "int (unat (fst f) + length (snd f)) \<le> uint n + ReplayWindow (s_config s)" if f: "f \<in> set pd" for f
  proof -
    obtain g where "g \<in> set (rxPending s)" "unat (fst f) + length (snd f) = unat (fst g) + length (snd g)"
      using cs(5) [of f] f dok by blast
    then have "int (unat (fst f) + length (snd f)) \<le> uint (rxNext s) + ReplayWindow (s_config s)"
      using ok unfolding rx_ok_def by metis
    moreover have "unat end' \<le> unat n" using dok by blast
    then have "int (unat (rxNext s)) \<le> int (unat n)" using e by (simp only: of_nat_le_iff)
    ultimately show ?thesis by simp
  qed
  moreover have "len b + c \<le> ReplayWindow (s_config s)"
    using add cs(3) room ov rx_okD(3) [OF ok] by simp
  ultimately show "rx_ok s'"
    using ok dok cs(2,4) s' unfolding rx_ok_def by auto
  show "delivers s s' src" if fr: "frag_of src (rxNext s) p" "\<forall>(q, p) \<in> set (rxPending s). frag_of src q p" for src
  proof -
    have p: "p = part src (unat (rxNext s)) (length p)" "unat end' \<le> length src"
      using fr(1) e by (auto simp: frag_of_def)
    note pd1 = cs(6) [OF fr(2)]
    have "p @ added = part src (unat (rxNext s)) (unat n - unat (rxNext s))" "unat n \<le> length src"
      using src [OF pd1 p(2)] dok e p(1)
        part_append_part [of src "unat (rxNext s)" "length p" "unat n - unat end'"] by auto
    then show ?thesis using pd1 dok add s' by (auto simp: delivers_def)
  qed
qed

text \<open>What is left of a packet after the part below the contiguous offset is cut off.\<close>

lemma trim_packet:
  fixes seq0 nxt :: u64
  assumes g: "\<not> len p0 > 2 ^ 64 - 1 - uint seq0" and n: "\<not> seq0 + of_nat (length p0) \<le> nxt" and "p0 \<noteq> []"
  defines "p \<equiv> (if seq0 < nxt then drop (unat (nxt - seq0)) p0 else p0)"
    and "seq \<equiv> (if seq0 < nxt then nxt else seq0)"
  shows "unat (seq0 + of_nat (length p0)) = unat seq + length p" and "p \<noteq> []" and "unat nxt \<le> unat seq"
    and "\<And>src. frag_of src seq0 p0 \<Longrightarrow> frag_of src seq p"
proof -
  have "int (unat seq0 + length p0) < int (2 ^ 64)" using g by simp
  then have "unat seq0 + length p0 < 2 ^ 64" by (simp only: of_nat_less_iff)
  then have e: "unat (seq0 + of_nat (length p0)) = unat seq0 + length p0" by (simp add: unat_add_of_nat)
  then have lt: "unat nxt < unat seq0 + length p0" using n by (simp add: word_le_nat_alt)
  have sub: "unat (nxt - seq0) = unat nxt - unat seq0" if "seq0 < nxt" using that by (simp add: unat_sub_le)
  show "unat (seq0 + of_nat (length p0)) = unat seq + length p" "p \<noteq> []" "unat nxt \<le> unat seq"
    using e lt sub \<open>p0 \<noteq> []\<close> by (auto simp: p_def seq_def word_less_nat_alt)
  show "frag_of src seq p" if "frag_of src seq0 p0" for src
    using that frag_of_drop [of src seq0 p0 "unat nxt - unat seq0" nxt] sub lt
    by (auto simp: p_def seq_def word_less_nat_alt)
qed

lemma delivers_same:
  "\<forall>(q, p) \<in> set (rxPending s). frag_of src q p \<Longrightarrow> delivers s s src"
  by (simp add: delivers_def)

text \<open>
  The four branches of \<open>acceptDataLocked\<close> for a packet that is not exhausted: nothing changes, the
  packet conflicts with a retained fragment, it is retained, or it is delivered.
\<close>

lemma acceptDataLocked_cases:
  assumes ok: "rx_ok s" and "p0 \<noteq> []" and run: "acceptDataLocked seq0 p0 s = (r, s')"
  obtains (exhausted) "r = raise ErrSequenceExhausted" "s' = s" "2 ^ 64 \<le> unat seq0 + length p0"
  | (rejected) "r = Inr (0, False, True)" "s' = s"
  | (conflict) "r = Inl (ErrorText ''conflicting replay data'')" "s' = s"
      "\<And>src. \<not> (frag_of src seq0 p0 \<and> (\<forall>(q, p) \<in> set (rxPending s). frag_of src q p))"
  | (ahead) seq p where "bufferAhead seq p s = (r, s')" "p \<noteq> []" "unat (rxNext s) < unat seq"
      "unat seq + length p < 2 ^ 64" "\<And>f. f \<in> set (rxPending s) \<Longrightarrow> apart (seq, p) f"
      "int (unat seq + length p) \<le> uint (rxNext s) + ReplayWindow (s_config s)"
      "len (rxBuf s) + rxPendingBytes s + len p \<le> ReplayWindow (s_config s)"
      "\<And>src. frag_of src seq0 p0 \<Longrightarrow> frag_of src seq p"
  | (inorder) end' p where "deliverInOrder end' p (overlap_bytes end' (rxPending s)) s = (r, s')"
      "unat end' = unat (rxNext s) + length p" "p \<noteq> []"
      "len (rxBuf s) + rxPendingBytes s + len p - overlap_bytes end' (rxPending s) \<le> ReplayWindow (s_config s)"
      "\<And>src. frag_of src seq0 p0 \<Longrightarrow> frag_of src (rxNext s) p"
proof -
  define end' where "end' = seq0 + of_nat (length p0)"
  define p where "p = (if seq0 < rxNext s then drop (unat (rxNext s - seq0)) p0 else p0)"
  define seq where "seq = (if seq0 < rxNext s then rxNext s else seq0)"
  let ?scan = "scanPending seq p end' (rxNext s) (rxPending s) 0"
  have unf: "acceptDataLocked seq0 p0 s =
    (if len p0 > 2 ^ 64 - 1 - uint seq0 then (raise ErrSequenceExhausted, s)
     else if end' \<le> rxNext s then (Inr (0, False, True), s)
     else if uint (end' - rxNext s) > ReplayWindow (s_config s) then (Inr (0, False, True), s)
     else case ?scan of
          ScanReject \<Rightarrow> (Inr (0, False, True), s)
        | ScanConflict \<Rightarrow> (Inl (ErrorText ''conflicting replay data''), s)
        | ScanPanic \<Rightarrow> (raise Panic, s)
        | ScanOverlap overlap \<Rightarrow>
            if len (rxBuf s) + rxPendingBytes s + len p - overlap > ReplayWindow (s_config s) then
              (Inr (0, False, True), s)
            else if seq > rxNext s then bufferAhead seq p s
            else deliverInOrder end' p overlap s)"
    by (simp only: acceptDataLocked_def end'_def p_def seq_def Let_def)
  consider (ex) "len p0 > 2 ^ 64 - 1 - uint seq0" | (early) "\<not> len p0 > 2 ^ 64 - 1 - uint seq0"
      "end' \<le> rxNext s \<or> uint (end' - rxNext s) > ReplayWindow (s_config s)"
    | (in_range) "\<not> len p0 > 2 ^ 64 - 1 - uint seq0" "\<not> end' \<le> rxNext s" "\<not> uint (end' - rxNext s) > ReplayWindow (s_config s)"
    by blast
  then show thesis
  proof cases
    case ex
    then have "int (2 ^ 64) \<le> int (unat seq0 + length p0)" by simp
    then have "2 ^ 64 \<le> unat seq0 + length p0" by (simp only: of_nat_le_iff)
    moreover have "acceptDataLocked seq0 p0 s = (raise ErrSequenceExhausted, s)" using ex by (simp add: unf)
    ultimately show thesis using run by (intro exhausted) simp_all
  next
    case early
    then have "acceptDataLocked seq0 p0 s = (Inr (0, False, True), s)" by (auto simp: unf)
    with run show thesis by (intro rejected) simp_all
  next
    case in_range
    note tr = trim_packet [OF in_range(1) in_range(2) [unfolded end'_def] \<open>p0 \<noteq> []\<close>,
        folded p_def seq_def end'_def]
    have "uint (end' - rxNext s) = int (unat end' - unat (rxNext s))"
      using in_range(2) unat_sub_le [of "rxNext s" end'] by (metis linear uint_nat)
    then have win: "int (unat end') \<le> uint (rxNext s) + ReplayWindow (s_config s)"
      using in_range(2,3) tr(1,3) by simp
    show thesis
    proof (cases "seq = rxNext s")
      case True
      note e = tr(1) [unfolded True]
      from scanPending_inorder [OF rx_okD(1,2) [OF ok] e, of 0]
      consider "?scan = ScanOverlap (overlap_bytes end' (rxPending s))"
        | "?scan = ScanConflict" "\<not> (\<exists>src. frag_of src (rxNext s) p \<and> (\<forall>(q, p) \<in> set (rxPending s). frag_of src q p))"
        using True by auto
      then show thesis
      proof cases
        case 1
        let ?over = "len (rxBuf s) + rxPendingBytes s + len p - overlap_bytes end' (rxPending s)
          > ReplayWindow (s_config s)"
        have acc: "(r, s') = (if ?over then (Inr (0, False, True), s)
            else deliverInOrder end' p (overlap_bytes end' (rxPending s)) s)"
          using run 1 in_range True by (simp add: unf split: if_splits)
        show thesis
        proof (cases ?over)
          case True
          with acc show thesis by (intro rejected) simp_all
        next
          case fits: False
          with acc have "deliverInOrder end' p (overlap_bytes end' (rxPending s)) s = (r, s')" by simp
          from inorder [OF this e tr(2)] fits tr(4) True show thesis by simp
        qed
      next
        case 2
        then have "acceptDataLocked seq0 p0 s = (Inl (ErrorText ''conflicting replay data''), s)"
          using in_range by (simp add: unf)
        with run 2 True tr(4) show thesis by (intro conflict) auto
      qed
    next
      case False
      then have lt: "unat (rxNext s) < unat seq" using tr(3) by (metis le_neq_implies_less word_eq_unatI)
      from scanPending_ahead [OF rx_okD(1) [OF ok] False, of p end' 0]
      show thesis
      proof
        assume "?scan = ScanReject"
        then have "acceptDataLocked seq0 p0 s = (Inr (0, False, True), s)" using in_range by (simp add: unf)
        with run show thesis by (intro rejected) simp_all
      next
        assume sc: "?scan = ScanOverlap 0 \<and> (\<forall>f \<in> set (rxPending s).
            unat (fst f) + length (snd f) \<le> unat seq \<or> unat end' \<le> unat (fst f))"
        show thesis
        proof (cases "len (rxBuf s) + rxPendingBytes s + len p > ReplayWindow (s_config s)")
          case True
          then have "acceptDataLocked seq0 p0 s = (Inr (0, False, True), s)" using in_range sc by (simp add: unf)
          with run show thesis by (intro rejected) simp_all
        next
          case fits: False
          show thesis
          proof (rule ahead [OF _ tr(2) lt])
            show "bufferAhead seq p s = (r, s')"
              using run in_range sc fits lt by (simp add: unf word_less_nat_alt)
          qed (use sc tr win fits unat_less_pow [of end'] in \<open>auto simp: apart_def\<close>)
        qed
      qed
    qed
  qed
qed

lemma acceptDataLocked_ok:
  assumes ok: "rx_ok s" and ne: "p \<noteq> []" and run: "acceptDataLocked q p s = (r, s')"
  shows "rx_ok s'" and "r \<noteq> raise Panic" and "unat (rxNext s) \<le> unat (rxNext s')"
    and "\<exists>added. rxBuf s' = rxBuf s @ added \<and> length added = unat (rxNext s') - unat (rxNext s)"
proof -
  have "rx_ok s' \<and> r \<noteq> raise Panic \<and> unat (rxNext s) \<le> unat (rxNext s')
    \<and> (\<exists>added. rxBuf s' = rxBuf s @ added \<and> length added = unat (rxNext s') - unat (rxNext s))"
    using ok ne run
  proof (cases rule: acceptDataLocked_cases)
    case (ahead seq p)
    from bufferAhead_ok [OF ok ahead(1-7)] ahead(1) show ?thesis
      by (auto simp: bufferAhead_def split: if_splits)
  next
    case (inorder end' p)
    note d = deliverInOrder_ok [OF ok inorder(1,2) refl inorder(4)]
    from d(1-4) inorder(2) show ?thesis by auto
  qed (use ok in auto)
  then show "rx_ok s'" "r \<noteq> raise Panic" "unat (rxNext s) \<le> unat (rxNext s')"
    "\<exists>added. rxBuf s' = rxBuf s @ added \<and> length added = unat (rxNext s') - unat (rxNext s)"
    by blast+
qed

lemma acceptDataLocked_delivers:
  assumes ok: "rx_ok s" and ne: "p \<noteq> []" and run: "acceptDataLocked q p s = (r, s')"
    and src: "frag_of src q p" "\<forall>(q, p) \<in> set (rxPending s). frag_of src q p" "length src < 2 ^ 64"
  shows "delivers s s' src" and "\<exists>adv buffered rejected. r = Inr (adv, buffered, rejected)"
proof -
  have "delivers s s' src \<and> (\<exists>adv buffered rejected. r = Inr (adv, buffered, rejected))"
    using ok ne run
  proof (cases rule: acceptDataLocked_cases)
    case exhausted
    with src show ?thesis by (auto simp: frag_of_def)
  next
    case (ahead seq p)
    from bufferAhead_ok [OF ok ahead(1-7)] ahead(1) ahead(8) [OF src(1)] src(2) show ?thesis
      by (auto simp: bufferAhead_def delivers_def split: if_splits)
  next
    case (inorder end' p)
    note d = deliverInOrder_ok [OF ok inorder(1,2) refl inorder(4)]
    from d(3) d(5) [OF inorder(5) [OF src(1)] src(2)] show ?thesis by auto
  qed (use src delivers_same in auto)
  then show "delivers s s' src" "\<exists>adv buffered rejected. r = Inr (adv, buffered, rejected)" by blast+
qed

text \<open>Progress: a packet at the contiguous offset is delivered when the reader has emptied the buffer.\<close>

lemma pend_bytes_range:
  assumes "pend_ok lo pend" and "\<And>f. f \<in> set pend \<Longrightarrow> unat (fst f) + length (snd f) \<le> hi" and "lo \<le> hi"
  shows "pend_bytes pend \<le> int (hi - lo)"
proof -
  let ?iv = "\<lambda>f. {unat (fst f)..<unat (fst f) + length (snd f)}"
  have dist: "distinct pend" using assms(1) by (auto simp: pend_ok_def distinct_map)
  have disj: "?iv f \<inter> ?iv g = {}" if "f \<in> set pend" "g \<in> set pend" "f \<noteq> g" for f g
  proof -
    have "apart f g" using assms(1) that by (auto simp: pend_ok_def)
    then show ?thesis by (auto simp: apart_def)
  qed
  have "pend_bytes pend = int (\<Sum>f \<in> set pend. card (?iv f))"
    using dist by (simp add: pend_bytes_def sum_list_distinct_conv_sum_set)
  also have "(\<Sum>f \<in> set pend. card (?iv f)) = card (\<Union>f \<in> set pend. ?iv f)"
    using disj by (intro card_UN_disjoint [symmetric]) auto
  also have "\<dots> \<le> card {lo..<hi}"
  proof (rule card_mono)
    have "lo \<le> unat (fst f)" if "f \<in> set pend" for f using assms(1) that by (auto simp: pend_ok_def)
    then show "(\<Union>f \<in> set pend. ?iv f) \<subseteq> {lo..<hi}" using assms(2) by fastforce
  qed simp
  finally show ?thesis by simp
qed

lemma in_order_fits:
  assumes ok: "rx_ok s" and e: "unat (rxNext s) \<le> unat end'"
    and win: "int (unat end') \<le> uint (rxNext s) + ReplayWindow (s_config s)"
  shows "rxPendingBytes s - overlap_bytes end' (rxPending s)
    \<le> uint (rxNext s) + ReplayWindow (s_config s) - int (unat end')"
proof -
  obtain kept count suffix where cov: "coverPending end' (rxPending s) (pend_bytes (rxPending s)) [] = (kept, count, suffix)"
    by (cases "coverPending end' (rxPending s) (pend_bytes (rxPending s)) []")
  note cs = coverPending_suffix [OF rx_okD(1) [OF ok] cov e]
  define hi where "hi = nat (uint (rxNext s) + ReplayWindow (s_config s))"
  have hi: "int hi = uint (rxNext s) + ReplayWindow (s_config s)"
    using ok by (simp add: hi_def rx_ok_def)
  have "unat (fst f) + length (snd f) \<le> hi" if "f \<in> set (rxPending s)" for f
  proof -
    have "int (unat (fst f) + length (snd f)) \<le> int hi" using ok that hi by (simp add: rx_ok_def)
    then show ?thesis by (simp only: of_nat_le_iff)
  qed
  moreover have "unat end' \<le> hi" using win unfolding hi [symmetric] by (simp only: of_nat_le_iff)
  ultimately have "pend_bytes (if suffix \<noteq> [] then gomap_put end' suffix kept else kept) \<le> int (hi - unat end')"
    by (intro pend_bytes_range [OF cs(1)]) (metis cs(5))
  then show ?thesis using cs(2,3) rx_okD(3) [OF ok] hi \<open>unat end' \<le> hi\<close> by (simp add: of_nat_diff)
qed

lemma acceptDataLocked_progress:
  assumes ok: "rx_ok s" and run: "acceptDataLocked q p s = (r, s')"
    and src: "frag_of src q p" "\<forall>(q, p) \<in> set (rxPending s). frag_of src q p" "length src < 2 ^ 64"
    and q: "unat q \<le> unat (rxNext s)" "unat (rxNext s) < unat q + length p"
    and win: "int (unat q + length p) \<le> uint (rxNext s) + ReplayWindow (s_config s)" and "rxBuf s = []"
  shows "unat q + length p \<le> unat (rxNext s')" and "\<exists>adv \<ge> 1. r = Inr (adv, False, False)"
proof -
  define end' where "end' = q + of_nat (length p)"
  define p1 where "p1 = (if q < rxNext s then drop (unat (rxNext s - q)) p else p)"
  have "p \<noteq> []" using q by auto
  have big: "unat q + length p < 2 ^ 64" using src by (simp add: frag_of_def)
  then have e0: "unat end' = unat q + length p" by (simp add: end'_def unat_add_of_nat)
  have "int (unat q + length p) < int (2 ^ 64)" using big by (simp only: of_nat_less_iff)
  then have guard: "\<not> len p > 2 ^ 64 - 1 - uint q" by simp
  have past: "\<not> q + of_nat (length p) \<le> rxNext s" using e0 q(2) by (simp add: word_le_nat_alt end'_def)
  have seq: "(if q < rxNext s then rxNext s else q) = rxNext s"
    using q(1) by (metis le_neq_implies_less word_eq_unatI word_less_nat_alt)
  note tr = trim_packet [OF guard past \<open>p \<noteq> []\<close>, unfolded seq, folded p1_def end'_def]
  have "uint (end' - rxNext s) = int (unat end' - unat (rxNext s))"
    using unat_sub_le [of "rxNext s" end'] e0 q(2) by (metis less_imp_le uint_nat word_le_nat_alt)
  then have inwin: "\<not> uint (end' - rxNext s) > ReplayWindow (s_config s)"
    using win e0 q by simp
  have scan: "scanPending (rxNext s) p1 end' (rxNext s) (rxPending s) 0 = ScanOverlap (overlap_bytes end' (rxPending s))"
    using scanPending_inorder [OF rx_okD(1,2) [OF ok] tr(1), of 0] tr(4) [OF src(1)] src(2) by auto
  have "int (unat end') \<le> uint (rxNext s) + ReplayWindow (s_config s)" using win e0 by simp
  from in_order_fits [OF ok _ this] have room: "len (rxBuf s) + rxPendingBytes s + len p1 - overlap_bytes end' (rxPending s)
      \<le> ReplayWindow (s_config s)"
    using tr(1) \<open>rxBuf s = []\<close> by simp
  have "deliverInOrder end' p1 (overlap_bytes end' (rxPending s)) s = (r, s')"
    using run guard past inwin scan room seq
    by (simp add: acceptDataLocked_def Let_def flip: end'_def p1_def)
  note d = deliverInOrder_ok [OF ok this tr(1) refl room]
  from d(2) e0 show "unat q + length p \<le> unat (rxNext s')" by simp
  from d(3) show "\<exists>adv \<ge> 1. r = Inr (adv, False, False)" .
qed

text \<open>The fields that accepting a packet leaves alone.\<close>

lemma acceptDataLocked_frame:
  assumes "acceptDataLocked q p s = (r, s')"
  shows "s' = s\<lparr>rxNext := rxNext s', rxBuf := rxBuf s', rxPending := rxPending s',
    rxPendingBytes := rxPendingBytes s', s_stats := s_stats s', s_notify := s_notify s'\<rparr>"
    and "\<And>e. r = Inl e \<Longrightarrow> s' = s"
  using assms
  by (auto simp: acceptDataLocked_def bufferAhead_def deliverInOrder_def signalLocked_def Let_def
      split: if_splits scan_result.splits prod.splits)

end
