(* ===== verification/Link_Send.thy ===== *)
theory Link_Send
  imports Link_Receive
begin

text \<open>
  The send side of a link session, \<open>internal/link/session.go\<close>: the choice of the next packet
  (\<open>nextPacketLocked\<close>), cumulative acknowledgements with the adaptive flight window
  (\<open>handleAckLocked\<close>), the heartbeat decisions and the accounting of the send loop. The invariant
  \<open>tx_ok\<close> says that the retained bytes are exactly the offsets \<open>[txBase, txNext)\<close> and that they
  stay within the replay window; \<open>bind_ok\<close> bounds the cursor, the MTU and the flight window of a
  binding. The lemmas show that no slice is out of range, that a DATA packet carries the retained
  bytes of its offset, and how far the sender may run ahead of the last acknowledgement.
\<close>

section \<open>Choosing the next packet\<close>

text \<open>A slice with bounds computed as Go's \<open>int\<close>.\<close>

definition go_slice_int :: "'a list \<Rightarrow> int \<Rightarrow> int \<Rightarrow> 'a list option" where
  "go_slice_int xs lo hi = (if lo < 0 \<or> hi < lo then None else go_slice xs (nat lo) (nat hi))"

text \<open>A cursor outside the retained range goes back to its start.\<close>

definition resetCursor :: "binding \<Rightarrow> Session \<Rightarrow> binding" where
  "resetCursor b s =
     (if b_sendNext b < txBase s \<or> b_sendNext b > txNext s
      then b\<lparr>b_sendNext := txBase s, b_retransmitAt := 0, b_duplicateACK := 0\<rparr> else b)"

text \<open>The retransmission timer: what was sent and is still unacknowledged is sent again.\<close>

definition retransmitDue :: "binding \<Rightarrow> instant \<Rightarrow> Session \<Rightarrow> binding \<times> Session" where
  "retransmitDue b now s =
     (if b_sendNext b > txBase s \<and> \<not> IsZero (b_retransmitAt b) \<and> \<not> now < b_retransmitAt b
      then (reduceFlightWindow (b\<lparr>b_sendNext := txBase s, b_retransmitAt := now + retransmitInterval,
              b_duplicateACK := 0\<rparr>),
            s\<lparr>s_stats := (s_stats s)\<lparr>st_retransmissions := st_retransmissions (s_stats s) + 1\<rparr>\<rparr>)
      else (b, s))"

text \<open>The next DATA packet that the flight window allows, if any.\<close>

definition nextDataLocked :: "binding \<Rightarrow> instant \<Rightarrow> Session \<Rightarrow> (go_error + bytes option) \<times> binding \<times> Session" where
  "nextDataLocked b0 now s =
     (let payloadSize0 = (if b_mtu b0 - 9 < 1 then 1 else b_mtu b0 - 9);
          flightPackets = (if b_flightPackets b0 < initialFlightWindowPackets
                           then initialFlightWindowPackets else b_flightPackets b0);
          b = (if b_flightPackets b0 < initialFlightWindowPackets
               then b0\<lparr>b_flightPackets := flightPackets\<rparr> else b0);
          flightWindow = word_of_int (payloadSize0 * flightPackets) :: u64;
          windowEnd = min (txNext s) (txBase s + flightWindow) in
      if b_sendNext b < windowEnd then
        (let payloadSize = min payloadSize0 (go_int (windowEnd - b_sendNext b));
             start = go_int (b_sendNext b - txBase s) in
         case go_slice_int (txBuf s) start (start + payloadSize) of
           None \<Rightarrow> (raise Panic, b, s)
         | Some chunk \<Rightarrow>
             let b1 = (if b_sendNext b = txBase s \<and> IsZero (b_retransmitAt b)
                       then b\<lparr>b_retransmitAt := now + retransmitInterval\<rparr> else b) in
             (Inr (Some ([packetData] @ put_uint64 (b_sendNext b) @ chunk)),
              b1\<lparr>b_sendNext := b_sendNext b1 + word_of_int payloadSize\<rparr>, s))
      else (Inr None, b, s))"

definition nextPacketLocked :: "binding \<Rightarrow> instant \<Rightarrow> Session \<Rightarrow> (go_error + bytes option) \<times> binding \<times> Session" where
  "nextPacketLocked b now s =
     (if helloReply s \<noteq> [] then (Inr (Some (helloReply s)), b, s\<lparr>helloReply := []\<rparr>)
      else if pongDirty s then (Inr (Some [packetPong]), b, s\<lparr>pongDirty := False\<rparr>)
      else if ackDirty s \<and> (ackPackets s \<ge> ackBatchPackets \<or> IsZero (ackDeadline s) \<or> \<not> now < ackDeadline s) then
        (Inr (Some ([packetAck] @ put_uint64 (rxNext s))), b,
         s\<lparr>ackDirty := False, ackPackets := 0, ackDeadline := 0\<rparr>)
      else
        case retransmitDue (resetCursor b s) now s of (b1, s1) \<Rightarrow> nextDataLocked b1 now s1)"

section \<open>Acknowledgements\<close>

text \<open>The cumulative acknowledgement moved: the window grows and the timer restarts.\<close>

definition ackAdvanced :: "binding \<Rightarrow> instant \<Rightarrow> Session \<Rightarrow> binding" where
  "ackAdvanced b now s =
     (let flight = (if b_flightPackets b < initialFlightWindowPackets then initialFlightWindowPackets
                    else if b_flightPackets b < maxFlightWindowPackets then b_flightPackets b + 1
                    else b_flightPackets b);
          sendNext = (if b_sendNext b < txBase s then txBase s else b_sendNext b)
      in b\<lparr>b_duplicateACK := 0, b_flightPackets := flight, b_sendNext := sendNext,
           b_retransmitAt := (if sendNext > txBase s then now + retransmitInterval else 0)\<rparr>)"

definition handleAckLocked :: "binding \<Rightarrow> u64 \<Rightarrow> instant \<Rightarrow> Session \<Rightarrow> go_error option \<times> binding \<times> Session" where
  "handleAckLocked b expected now s =
     (if expected < txBase s then (None, b, s)
      else
        case reconcilePeerLocked expected s of
          (Some e, s1) \<Rightarrow> (Some e, b, s1)
        | (None, s1) \<Rightarrow>
            if txBase s1 > txBase s then (None, ackAdvanced b now s1, s1)
            else if expected = txBase s1 \<and> b_sendNext b > txBase s1 then
              (let b1 = b\<lparr>b_duplicateACK := b_duplicateACK b + 1\<rparr> in
               if b_duplicateACK b1 \<ge> fastRetransmitACKs then
                 (None,
                  reduceFlightWindow (b1\<lparr>b_sendNext := txBase s1,
                    b_retransmitAt := now + retransmitInterval, b_duplicateACK := 0\<rparr>),
                  signalLocked (s1\<lparr>s_stats := (s_stats s1)\<lparr>
                    st_fastRetransmissions := st_fastRetransmissions (s_stats s1) + 1\<rparr>\<rparr>))
               else (None, b1, s1))
            else (None, b, s1))"

section \<open>Heartbeats and accounting\<close>

text \<open>The decision \<open>(probe, detach)\<close> of one heartbeat tick.\<close>

definition heartbeatCheckLocked :: "binding \<Rightarrow> instant \<Rightarrow> Session \<Rightarrow> (bool \<times> bool) \<times> binding \<times> Session" where
  "heartbeatCheckLocked b now s =
     (if b_heartbeatPending b \<and> now - b_heartbeatSentAt b < heartbeatResponseTimeout then
        ((False, False), b, s)
      else
        let probeAfterFailure = b_heartbeatPending b;
            b1 = (if b_heartbeatPending b
                  then b\<lparr>b_heartbeatPending := False, b_heartbeatFailures := b_heartbeatFailures b + 1\<rparr>
                  else b);
            s1 = (if b_heartbeatPending b
                  then s\<lparr>s_stats := (s_stats s)\<lparr>
                         st_heartbeatFailures := st_heartbeatFailures (s_stats s) + 1\<rparr>\<rparr>
                  else s) in
        if probeAfterFailure \<and> b_heartbeatFailures b1 \<ge> heartbeatFailureLimit then
          ((False, True), b1, s1)
        else if \<not> probeAfterFailure \<and> \<not> IsZero (b_heartbeatSentAt b1)
                \<and> now - b_heartbeatSentAt b1 < heartbeatInterval then
          ((False, False), b1, s1)
        else ((True, False), b1\<lparr>b_heartbeatPending := True, b_heartbeatSentAt := now\<rparr>, s1))"

definition heartbeatSendResultLocked ::
  "u64 \<Rightarrow> instant \<Rightarrow> instant \<Rightarrow> go_error option \<Rightarrow> Session \<Rightarrow> bool \<times> Session" where
  "heartbeatSendResultLocked g started finished err s =
     (case current s of
        None \<Rightarrow> (False, s)
      | Some b \<Rightarrow>
          if b_gen b \<noteq> g \<or> s_closed s then (False, s)
          else
            case err of
              None \<Rightarrow>
                (False, s\<lparr>current := Some (let b1 = b\<lparr>b_lastTX := finished\<rparr> in
                   if b_heartbeatPending b1 then b1\<lparr>b_heartbeatSentAt := finished\<rparr> else b1)\<rparr>)
            | Some e \<Rightarrow>
                if errors_is e ContextDeadlineExceeded \<and> \<not> b_lastRX b < started then
                  (False, s\<lparr>current := Some (b\<lparr>b_heartbeatPending := False, b_heartbeatFailures := 0,
                     b_heartbeatSentAt := finished\<rparr>)\<rparr>)
                else (True, s))"

text \<open>The statistics of a finished send; \<open>packet\<close> is never empty.\<close>

definition recordSendTime :: "duration \<Rightarrow> transportStats \<Rightarrow> transportStats" where
  "recordSendTime d st =
     st\<lparr>st_sendCalls := st_sendCalls st + 1, st_sendDuration := st_sendDuration st + d,
        st_maxSendDuration := (if d > st_maxSendDuration st then d else st_maxSendDuration st)\<rparr>"

definition recordSent :: "bytes \<Rightarrow> transportStats \<Rightarrow> transportStats" where
  "recordSent packet st =
     (if hd packet = packetData then
        st\<lparr>st_dataTXPackets := st_dataTXPackets st + 1,
           st_dataTXBytes := st_dataTXBytes st + word_of_int (len packet - 9)\<rparr>
      else if hd packet = packetAck then st\<lparr>st_ackTXPackets := st_ackTXPackets st + 1\<rparr>
      else st)"

text \<open>What \<open>sendLoop\<close> does under the mutex once \<open>Send\<close> has returned.\<close>

definition sendFinished :: "u64 \<Rightarrow> bytes \<Rightarrow> duration \<Rightarrow> instant \<Rightarrow> go_error option \<Rightarrow> Session \<Rightarrow> Session" where
  "sendFinished g packet d finished err s =
     (let st = recordSendTime d (s_stats s);
          s1 = s\<lparr>s_stats := (if err = None then recordSent packet st else st)\<rparr> in
      case current s1 of
        None \<Rightarrow> s1
      | Some b \<Rightarrow> if b_gen b = g \<and> err = None then s1\<lparr>current := Some (b\<lparr>b_lastTX := finished\<rparr>)\<rparr> else s1)"

section \<open>Invariant\<close>

definition tx_ok :: "Session \<Rightarrow> bool" where
  "tx_ok s \<longleftrightarrow> unat (txNext s) = unat (txBase s) + length (txBuf s)
     \<and> len (txBuf s) \<le> ReplayWindow (s_config s)
     \<and> 0 < ReplayWindow (s_config s) \<and> ReplayWindow (s_config s) < 2 ^ 63"

definition bind_ok :: "Session \<Rightarrow> binding \<Rightarrow> bool" where
  "bind_ok s b \<longleftrightarrow> b_sendNext b \<le> txNext s \<and> minimumPacketMTU \<le> b_mtu b \<and> b_mtu b \<le> 244
     \<and> initialFlightWindowPackets \<le> b_flightPackets b \<and> b_flightPackets b \<le> maxFlightWindowPackets"

text \<open>The bytes a binding may have in flight beyond the acknowledged offset.\<close>

definition flightLimit :: "binding \<Rightarrow> int" where
  "flightLimit b = (b_mtu b - 9) * b_flightPackets b"

section \<open>Lemmas\<close>

lemma unat_word_of_int_small:
  "0 \<le> i \<Longrightarrow> i < 2 ^ LENGTH('a) \<Longrightarrow> unat (word_of_int i :: 'a::len word) = nat i"
  by (simp add: unat_eq_nat_uint uint_of_int_small)

lemma unat_add_le: "unat (a + b) \<le> unat a + unat (b :: 'a::len word)"
  by (simp add: unat_word_ariths)

lemma tx_range:
  assumes "tx_ok s"
  shows "txBase s \<le> txNext s" and "unat (txNext s) - unat (txBase s) = length (txBuf s)"
    and "length (txBuf s) < 2 ^ 63"
proof -
  have "len (txBuf s) < 2 ^ 63" using assms by (simp add: tx_ok_def)
  then have "int (length (txBuf s)) < int (2 ^ 63)" by simp
  then show "length (txBuf s) < 2 ^ 63" by (simp only: of_nat_less_iff)
qed (use assms in \<open>auto simp: tx_ok_def word_le_nat_alt\<close>)

text \<open>An acknowledgement inside the retained range drops exactly the acknowledged bytes.\<close>

lemma reconcilePeerLocked_ok:
  assumes ok: "tx_ok s" and run: "reconcilePeerLocked expected s = (r, s')"
  shows "tx_ok s'" and "txNext s' = txNext s" and "r \<noteq> Some (Sentinel Panic)"
    and "r = None \<longleftrightarrow> txBase s \<le> expected \<and> expected \<le> txNext s"
    and "r = None \<Longrightarrow> txBase s' = expected \<and> txBuf s' = drop (unat expected - unat (txBase s)) (txBuf s)"
    and "r \<noteq> None \<Longrightarrow> s' = s"
    and "s' = s\<lparr>txBase := txBase s', txBuf := txBuf s', s_notify := s_notify s'\<rparr>"
proof -
  define d where "d = unat expected - unat (txBase s)"
  have in_range: "go_int (expected - txBase s) = int d" "d \<le> length (txBuf s)"
    if "txBase s \<le> expected" "expected \<le> txNext s"
  proof -
    show "d \<le> length (txBuf s)" using tx_range(2) [OF ok] that by (auto simp: d_def word_le_nat_alt)
    then show "go_int (expected - txBase s) = int d"
      using tx_range(3) [OF ok] that by (subst go_int_small) (simp_all add: unat_sub_le d_def)
  qed
  show same: "r \<noteq> None \<Longrightarrow> s' = s" and fr: "s' = s\<lparr>txBase := txBase s', txBuf := txBuf s', s_notify := s_notify s'\<rparr>"
    using run by (auto simp: reconcilePeerLocked_def signalLocked_def Let_def split: option.splits if_splits)
  show r: "r = None \<longleftrightarrow> txBase s \<le> expected \<and> expected \<le> txNext s"
    using run in_range by (auto simp: reconcilePeerLocked_def validatePeerExpected_def Let_def not_less split: if_splits)
  show "r \<noteq> Some (Sentinel Panic)"
    using run in_range by (auto simp: reconcilePeerLocked_def validatePeerExpected_def Let_def not_less split: if_splits)
  show "txNext s' = txNext s"
    using run by (auto simp: reconcilePeerLocked_def signalLocked_def Let_def split: option.splits if_splits)
  show drop: "txBase s' = expected \<and> txBuf s' = drop (unat expected - unat (txBase s)) (txBuf s)" if "r = None"
  proof -
    have le: "txBase s \<le> expected" "expected \<le> txNext s" using r that by auto
    have "expected = txBase s" if "\<not> go_int (expected - txBase s) > 0"
    proof (rule word_eq_unatI)
      have "d = 0" using that in_range [OF le] by simp
      then show "unat expected = unat (txBase s)" using le(1) by (simp add: d_def word_le_nat_alt)
    qed
    with that run in_range r show ?thesis unfolding d_def [symmetric]
      by (auto simp: reconcilePeerLocked_def validatePeerExpected_def signalLocked_def Let_def split: if_splits)
  qed
  show "tx_ok s'"
  proof (cases r)
    case None
    then have "txBase s \<le> expected" "expected \<le> txNext s" using r by auto
    then have "unat (txNext s) = unat (txBase s') + length (txBuf s')" "length (txBuf s') \<le> length (txBuf s)"
      using ok drop [OF None] by (auto simp: tx_ok_def word_le_nat_alt)
    moreover have "s_config s' = s_config s" "txNext s' = txNext s" by (subst fr, simp)+
    ultimately show ?thesis using ok by (simp add: tx_ok_def)
  qed (use same ok in auto)
qed

lemma bind_ok_reduceFlightWindow [simp]:
  "bind_ok s b \<Longrightarrow> bind_ok s (reduceFlightWindow b)"
  by (auto simp: bind_ok_def reduceFlightWindow_def flight_consts Let_def)

lemma reduceFlightWindow_simps [simp]:
  "b_sendNext (reduceFlightWindow b) = b_sendNext b" "b_mtu (reduceFlightWindow b) = b_mtu b"
  "b_gen (reduceFlightWindow b) = b_gen b" "b_conn (reduceFlightWindow b) = b_conn b"
  by (simp_all add: reduceFlightWindow_def Let_def)

lemma bind_ok_resetCursor: "tx_ok s \<Longrightarrow> bind_ok s b \<Longrightarrow> bind_ok s (resetCursor b s) \<and> txBase s \<le> b_sendNext (resetCursor b s)"
  using tx_range(1) [of s] by (auto simp: bind_ok_def resetCursor_def not_less)

lemma retransmitDue_ok:
  assumes "tx_ok s" and "bind_ok s b" "txBase s \<le> b_sendNext b" and "retransmitDue b now s = (b', s')"
  shows "bind_ok s b'" and "txBase s \<le> b_sendNext b'" and "s' = s\<lparr>s_stats := s_stats s'\<rparr>"
  using assms tx_range(1) [of s]
  by (auto simp: retransmitDue_def bind_ok_def reduceFlightWindow_def flight_consts Let_def split: if_splits)

text \<open>A DATA packet with offset \<open>q\<close> and payload \<open>p\<close>.\<close>

definition dataPacket :: "u64 \<Rightarrow> bytes \<Rightarrow> bytes" where
  "dataPacket q p = [packetData] @ put_uint64 q @ p"

text \<open>The payload is the retained bytes at its offset, and the cursor stays within the flight window.\<close>

lemma nextDataLocked_ok:
  assumes tx: "tx_ok s" and b: "bind_ok s b" and base: "txBase s \<le> b_sendNext b"
    and run: "nextDataLocked b now s = (r, b', s')"
  shows "s' = s" and "bind_ok s b'"
    and "(r = Inr None \<and> b' = b) \<or> (\<exists>p. r = Inr (Some (dataPacket (b_sendNext b) p)) \<and> p \<noteq> []
      \<and> unat (b_sendNext b) + length p \<le> unat (txNext s)
      \<and> p = part (txBuf s) (unat (b_sendNext b) - unat (txBase s)) (length p)
      \<and> len p \<le> b_mtu b - 9
      \<and> unat (b_sendNext b') = unat (b_sendNext b) + length p
      \<and> int (unat (b_sendNext b')) \<le> uint (txBase s) + flightLimit b)"
proof -
  let ?size = "b_mtu b - 9"
  define fw where "fw = (word_of_int (?size * b_flightPackets b) :: u64)"
  define we where "we = min (txNext s) (txBase s + fw)"
  have sz: "11 \<le> ?size" "?size \<le> 235" "8 \<le> b_flightPackets b" "b_flightPackets b \<le> 128"
    using b by (auto simp: bind_ok_def flight_consts minimumPacketMTU_def)
  have fl: "(b_flightPackets b < initialFlightWindowPackets) = False" "(?size < 1) = False"
    using sz by (auto simp: flight_consts)
  have unf: "nextDataLocked b now s = (if b_sendNext b < we then
        (let payloadSize = min ?size (go_int (we - b_sendNext b));
             start = go_int (b_sendNext b - txBase s) in
         case go_slice_int (txBuf s) start (start + payloadSize) of
           None \<Rightarrow> (raise Panic, b, s)
         | Some chunk \<Rightarrow>
             let b1 = (if b_sendNext b = txBase s \<and> IsZero (b_retransmitAt b)
                       then b\<lparr>b_retransmitAt := now + retransmitInterval\<rparr> else b) in
             (Inr (Some ([packetData] @ put_uint64 (b_sendNext b) @ chunk)),
              b1\<lparr>b_sendNext := b_sendNext b1 + word_of_int payloadSize\<rparr>, s))
      else (Inr None, b, s))"
    unfolding nextDataLocked_def we_def fw_def by (simp only: fl Let_def if_False)
  have "unat fw = nat (?size * b_flightPackets b)"
    unfolding fw_def
    using sz mult_mono [of ?size 235 "b_flightPackets b" 128] mult_nonneg_nonneg [of ?size "b_flightPackets b"]
    by (intro unat_word_of_int_small) simp_all
  then have "unat (txBase s + fw) \<le> unat (txBase s) + nat (flightLimit b)"
    using unat_add_le [of "txBase s" fw] by (simp add: flightLimit_def)
  then have we_le: "unat we \<le> unat (txNext s)" "unat we \<le> unat (txBase s) + nat (flightLimit b)"
    by (auto simp: we_def min_def word_le_nat_alt)
  have bu: "unat (txBase s) \<le> unat (b_sendNext b)" using base by (simp add: word_le_nat_alt)
  have "s' = s \<and> bind_ok s b' \<and> ((r = Inr None \<and> b' = b) \<or> (\<exists>p. r = Inr (Some (dataPacket (b_sendNext b) p)) \<and> p \<noteq> []
      \<and> unat (b_sendNext b) + length p \<le> unat (txNext s)
      \<and> p = part (txBuf s) (unat (b_sendNext b) - unat (txBase s)) (length p)
      \<and> len p \<le> b_mtu b - 9
      \<and> unat (b_sendNext b') = unat (b_sendNext b) + length p
      \<and> int (unat (b_sendNext b')) \<le> uint (txBase s) + flightLimit b))"
  proof (cases "b_sendNext b < we")
    case False
    with run b show ?thesis by (simp add: unf)
  next
    case True
    define n where "n = min (nat ?size) (unat we - unat (b_sendNext b))"
    let ?start = "unat (b_sendNext b) - unat (txBase s)"
    have lt: "unat (b_sendNext b) < unat we" using True by (simp add: word_less_nat_alt)
    have small: "unat we - unat (b_sendNext b) < 2 ^ 63" "?start < 2 ^ 63" and fits: "?start + n \<le> length (txBuf s)"
      using tx_range(2,3) [OF tx] we_le(1) bu lt unfolding n_def by linarith+
    have g1: "go_int (we - b_sendNext b) = int (unat we - unat (b_sendNext b))"
      using small(1) True by (simp add: unat_sub_le go_int_small)
    have g2: "go_int (b_sendNext b - txBase s) = int ?start"
      using small(2) base by (simp add: unat_sub_le go_int_small)
    have g3: "min ?size (go_int (we - b_sendNext b)) = int n"
      using sz by (simp add: g1 n_def)
    have slice: "go_slice_int (txBuf s) (int ?start) (int ?start + int n) = Some (part (txBuf s) ?start n)"
      using fits by (simp add: go_slice_int_def nat_add_distrib go_slice_part)
    let ?p = "part (txBuf s) ?start n"
    have lenp: "length ?p = n" using fits by (simp add: length_part)
    have n: "0 < n" "unat (b_sendNext b) + n \<le> unat we" "int n \<le> ?size" using sz lt by (auto simp: n_def)
    have adv: "unat (b_sendNext b + word_of_int (int n)) = unat (b_sendNext b) + n"
      using n(2) unat_less_pow [of we] unat_add_of_nat [of "b_sendNext b" n] by simp
    have fin: "s' = s" "r = Inr (Some (dataPacket (b_sendNext b) ?p))"
      "b_sendNext b' = b_sendNext b + word_of_int (int n)" "b_mtu b' = b_mtu b" "b_flightPackets b' = b_flightPackets b"
      using run True by (auto simp: unf g2 g3 slice Let_def dataPacket_def split: if_splits)
    have "bind_ok s b'" using b adv n(2) we_le(1) by (simp add: bind_ok_def fin word_le_nat_alt)
    moreover have "int (unat (b_sendNext b) + n) \<le> int (unat (txBase s) + nat (flightLimit b))"
      using n(2) we_le(2) by (simp only: of_nat_le_iff)
    moreover have "0 \<le> flightLimit b" using sz by (simp add: flightLimit_def)
    moreover have "?p \<noteq> []" using lenp n(1) by auto
    ultimately show ?thesis
      using n we_le(1) adv lenp fin by (intro conjI disjI2 exI [of _ ?p]) auto
  qed
  then show "s' = s" "bind_ok s b'"
    "(r = Inr None \<and> b' = b) \<or> (\<exists>p. r = Inr (Some (dataPacket (b_sendNext b) p)) \<and> p \<noteq> []
      \<and> unat (b_sendNext b) + length p \<le> unat (txNext s)
      \<and> p = part (txBuf s) (unat (b_sendNext b) - unat (txBase s)) (length p)
      \<and> len p \<le> b_mtu b - 9
      \<and> unat (b_sendNext b') = unat (b_sendNext b) + length p
      \<and> int (unat (b_sendNext b')) \<le> uint (txBase s) + flightLimit b)" by blast+
qed

text \<open>
  The packets of \<open>nextPacketLocked\<close>: a pending HELLO_ACK, a PONG, the cumulative ACK or a DATA
  packet. Only bookkeeping fields of the session change.
\<close>

lemma nextPacketLocked_ok:
  assumes tx: "tx_ok s" and b: "bind_ok s b" and run: "nextPacketLocked b now s = (r, b', s')"
  shows "bind_ok s b'"
    and "s' = s\<lparr>helloReply := helloReply s', pongDirty := pongDirty s', ackDirty := ackDirty s',
           ackPackets := ackPackets s', ackDeadline := ackDeadline s', s_stats := s_stats s'\<rparr>"
    and "r = Inr None
      \<or> (helloReply s \<noteq> [] \<and> r = Inr (Some (helloReply s)))
      \<or> r = Inr (Some [packetPong])
      \<or> r = Inr (Some ([packetAck] @ put_uint64 (rxNext s)))
      \<or> (\<exists>q p. r = Inr (Some (dataPacket q p)) \<and> p \<noteq> [] \<and> txBase s \<le> q
          \<and> unat q + length p \<le> unat (txNext s)
          \<and> p = part (txBuf s) (unat q - unat (txBase s)) (length p)
          \<and> len p \<le> b_mtu b - 9)"
proof -
  obtain b1 s1 where rd: "retransmitDue (resetCursor b s) now s = (b1, s1)" by fastforce
  have rc: "bind_ok s (resetCursor b s)" "txBase s \<le> b_sendNext (resetCursor b s)"
    using bind_ok_resetCursor [OF tx b] by auto
  note rt = retransmitDue_ok [OF tx rc rd]
  have mtu: "b_mtu b1 = b_mtu b" using rd by (auto simp: retransmitDue_def resetCursor_def split: if_splits)
  obtain r2 b2 s2 where nd: "nextDataLocked b1 now s1 = (r2, b2, s2)" by (cases "nextDataLocked b1 now s1")
  have eqs: "txBase s1 = txBase s" "txNext s1 = txNext s" "txBuf s1 = txBuf s" "s_config s1 = s_config s"
    by (subst rt(3), simp)+
  have "tx_ok s1" "bind_ok s1 b1" "txBase s1 \<le> b_sendNext b1"
    using tx rt(1,2) by (simp_all add: tx_ok_def bind_ok_def eqs)
  note nok = nextDataLocked_ok [OF this nd]
  have bok: "bind_ok s b2" using nok(2) by (simp add: bind_ok_def eqs)
  have s1: "s2 = s\<lparr>s_stats := s_stats s1\<rparr>" using nok(1) rt(3) by simp
  consider (ctl) "b' = b" "r = Inr (Some (helloReply s)) \<and> helloReply s \<noteq> [] \<or> r = Inr (Some [packetPong])
        \<or> r = Inr (Some ([packetAck] @ put_uint64 (rxNext s)))"
      "s' = s\<lparr>helloReply := helloReply s', pongDirty := pongDirty s', ackDirty := ackDirty s',
           ackPackets := ackPackets s', ackDeadline := ackDeadline s', s_stats := s_stats s'\<rparr>"
    | (data) "(r, b', s') = (r2, b2, s2)"
    using run rd nd by (auto simp: nextPacketLocked_def split: if_splits)
  then have "bind_ok s b'
    \<and> s' = s\<lparr>helloReply := helloReply s', pongDirty := pongDirty s', ackDirty := ackDirty s',
           ackPackets := ackPackets s', ackDeadline := ackDeadline s', s_stats := s_stats s'\<rparr>
    \<and> (r = Inr None \<or> (helloReply s \<noteq> [] \<and> r = Inr (Some (helloReply s)))
      \<or> r = Inr (Some [packetPong]) \<or> r = Inr (Some ([packetAck] @ put_uint64 (rxNext s)))
      \<or> (\<exists>q p. r = Inr (Some (dataPacket q p)) \<and> p \<noteq> [] \<and> txBase s \<le> q
          \<and> unat q + length p \<le> unat (txNext s)
          \<and> p = part (txBuf s) (unat q - unat (txBase s)) (length p)
          \<and> len p \<le> b_mtu b - 9))"
  proof cases
    case ctl
    with b show ?thesis by blast
  next
    case data
    then have "bind_ok s b' \<and> s' = s\<lparr>s_stats := s_stats s1\<rparr>" using bok s1 by simp
    moreover from nok(3) have "r = Inr None \<or> (\<exists>p. r = Inr (Some (dataPacket (b_sendNext b1) p)) \<and> p \<noteq> []
          \<and> unat (b_sendNext b1) + length p \<le> unat (txNext s)
          \<and> p = part (txBuf s) (unat (b_sendNext b1) - unat (txBase s)) (length p)
          \<and> len p \<le> b_mtu b - 9)" using data by (auto simp: eqs mtu)
    ultimately show ?thesis using rt(2) by fastforce
  qed
  then show "bind_ok s b'"
    "s' = s\<lparr>helloReply := helloReply s', pongDirty := pongDirty s', ackDirty := ackDirty s',
           ackPackets := ackPackets s', ackDeadline := ackDeadline s', s_stats := s_stats s'\<rparr>"
    "r = Inr None
      \<or> (helloReply s \<noteq> [] \<and> r = Inr (Some (helloReply s)))
      \<or> r = Inr (Some [packetPong])
      \<or> r = Inr (Some ([packetAck] @ put_uint64 (rxNext s)))
      \<or> (\<exists>q p. r = Inr (Some (dataPacket q p)) \<and> p \<noteq> [] \<and> txBase s \<le> q
          \<and> unat q + length p \<le> unat (txNext s)
          \<and> p = part (txBuf s) (unat q - unat (txBase s)) (length p)
          \<and> len p \<le> b_mtu b - 9)" by blast+
qed

lemma bind_ok_simps [simp]:
  "bind_ok s (b\<lparr>b_duplicateACK := n\<rparr>) = bind_ok s b"
  "bind_ok s (b\<lparr>b_retransmitAt := t\<rparr>) = bind_ok s b"
  by (simp_all add: bind_ok_def)

lemma bind_ok_rewind [simp]:
  "bind_ok s b \<Longrightarrow> q \<le> txNext s \<Longrightarrow>
   bind_ok s (b\<lparr>b_sendNext := q\<rparr>)"
  by (simp add: bind_ok_def)

lemma ackAdvanced_bind_ok:
  assumes "bind_ok s b" and "txBase s \<le> txNext s"
  shows "bind_ok s (ackAdvanced b now s)"
  using assms by (auto simp: ackAdvanced_def bind_ok_def flight_consts Let_def)

lemma ack_frame_trans:
  assumes "s1 = s\<lparr>txBase := a, txBuf := b, s_notify := n0\<rparr>" and "s' = s1\<lparr>s_notify := n, s_stats := st\<rparr>"
  shows "s' = s\<lparr>txBase := a, txBuf := b, s_notify := s_notify s', s_stats := s_stats s'\<rparr>"
  using assms by simp

lemma handleAckLocked_ok:
  assumes tx: "tx_ok s" and b: "bind_ok s b" and run: "handleAckLocked b expected now s = (r, b', s')"
  shows "tx_ok s'" and "bind_ok s' b'" and "r \<noteq> Some (Sentinel Panic)"
    and "r = None \<longleftrightarrow> expected \<le> txNext s"
    and "r = None \<Longrightarrow> txBase s' = max (txBase s) expected
           \<and> txBuf s' = drop (unat (max (txBase s) expected) - unat (txBase s)) (txBuf s)"
    and "s' = s\<lparr>txBase := txBase s', txBuf := txBuf s', s_notify := s_notify s', s_stats := s_stats s'\<rparr>"
    and "r \<noteq> None \<Longrightarrow> s' = s"
proof -
  obtain r1 s1 where rp: "reconcilePeerLocked expected s = (r1, s1)" by fastforce
  note ro = reconcilePeerLocked_ok [OF tx rp]
  have b1: "bind_ok s1 b" using b by (subst ro(7)) (simp add: bind_ok_def)
  have le1: "txBase s1 \<le> txNext s1" using tx_range(1) [OF ro(1)] .
  have le: "txBase s \<le> txNext s" using tx_range(1) [OF tx] .
  consider (old) "expected < txBase s" "(r, b', s') = (None, b, s)"
    | (bad) "\<not> expected < txBase s" "r1 \<noteq> None" "(r, b', s') = (r1, b, s1)"
    | (good) "\<not> expected < txBase s" "r1 = None" "r = None" "bind_ok s1 b'"
        "s' = s1\<lparr>s_notify := s_notify s', s_stats := s_stats s'\<rparr>"
  proof (cases "expected < txBase s")
    case True
    with run that(1) show thesis by (simp add: handleAckLocked_def)
  next
    case False
    show thesis
    proof (cases r1)
      case None
      show thesis
      proof (rule that(3) [OF False None])
        show "r = None" "bind_ok s1 b'" "s' = s1\<lparr>s_notify := s_notify s', s_stats := s_stats s'\<rparr>"
          using run False rp None b1 le1 ackAdvanced_bind_ok [OF b1 le1, of now]
          by (auto simp: handleAckLocked_def signalLocked_def Let_def split: if_splits)
      qed
    next
      case (Some e)
      with run rp False have "(r, b', s') = (r1, b, s1)" by (simp add: handleAckLocked_def)
      with Some show thesis by (intro that(2) [OF False]) simp_all
    qed
  qed
  then have "tx_ok s' \<and> bind_ok s' b' \<and> r \<noteq> Some (Sentinel Panic) \<and> (r = None \<longleftrightarrow> expected \<le> txNext s)
    \<and> (r = None \<longrightarrow> txBase s' = max (txBase s) expected
           \<and> txBuf s' = drop (unat (max (txBase s) expected) - unat (txBase s)) (txBuf s))
    \<and> s' = s\<lparr>txBase := txBase s', txBuf := txBuf s', s_notify := s_notify s', s_stats := s_stats s'\<rparr>
    \<and> (r \<noteq> None \<longrightarrow> s' = s)"
  proof cases
    case old
    with tx b le show ?thesis by auto
  next
    case bad
    then have "s1 = s" using ro(6) by simp
    with bad tx b ro(3,4) show ?thesis by auto
  next
    case good
    then have "expected \<le> txNext s" "txBase s \<le> expected" and b1: "txBase s1 = expected"
        "txBuf s1 = drop (unat expected - unat (txBase s)) (txBuf s)"
      using ro(4,5) by auto
    moreover have "txBase s' = txBase s1" "txBuf s' = txBuf s1" "tx_ok s' = tx_ok s1" "bind_ok s' = bind_ok s1"
      by (subst good(5), simp add: tx_ok_def bind_ok_def fun_eq_iff)+
    moreover have "s' = s\<lparr>txBase := txBase s1, txBuf := txBuf s1, s_notify := s_notify s', s_stats := s_stats s'\<rparr>"
    proof -
      obtain n0 n st where "s1 = s\<lparr>txBase := txBase s1, txBuf := txBuf s1, s_notify := n0\<rparr>"
        and "s' = s1\<lparr>s_notify := n, s_stats := st\<rparr>" using good(5) ro(7) by blast
      then show ?thesis by (rule ack_frame_trans)
    qed
    ultimately show ?thesis using good(3,4) ro(1) by (simp add: max_def)
  qed
  then show "tx_ok s'" "bind_ok s' b'" "r \<noteq> Some (Sentinel Panic)" "r = None \<longleftrightarrow> expected \<le> txNext s"
    "r = None \<Longrightarrow> txBase s' = max (txBase s) expected
           \<and> txBuf s' = drop (unat (max (txBase s) expected) - unat (txBase s)) (txBuf s)"
    "s' = s\<lparr>txBase := txBase s', txBuf := txBuf s', s_notify := s_notify s', s_stats := s_stats s'\<rparr>"
    "r \<noteq> None \<Longrightarrow> s' = s" by blast+
qed

end
