(* ===== verification/Link_Session.thy ===== *)
theory Link_Session
  imports Link_Send
begin

text \<open>
  The operations of a link session, \<open>internal/link/session.go\<close>: handling a received packet, binding
  to a connection on both sides, losing the binding, expiry, closing, and the \<open>net.Conn\<close> operations
  \<open>Read\<close> and \<open>Write\<close> that the multiplexer calls. A critical section is one function of the session;
  what the code does outside the mutex is returned as effects. A blocking wait is the outcome
  \<open>None\<close> (\<open>Read\<close>, \<open>WaitBound\<close>) or \<open>WriteWaits\<close> (\<open>Write\<close>): the call goes on from there when the session
  is signalled. The lemmas show that every operation keeps \<open>sess_ok\<close>, the conjunction of the
  receive and send invariants.
\<close>

section \<open>Received packets\<close>

text \<open>
  The acknowledgement that an accepted packet asks for: batched when the stream advanced, at once
  when the sender has to know that it should go back.
\<close>

definition scheduleAck :: "instant \<Rightarrow> int \<Rightarrow> bool \<Rightarrow> bool \<Rightarrow> Session \<Rightarrow> Session" where
  "scheduleAck now advancedPackets buffered rejected s0 =
     (let s1 = (if rejected then s0\<lparr>s_stats := (s_stats s0)\<lparr>
                  st_rejectedDataPackets := st_rejectedDataPackets (s_stats s0) + 1\<rparr>\<rparr> else s0);
          s2 = s1\<lparr>ackDirty := True\<rparr> in
      if advancedPackets > 0 then
        s2\<lparr>ackPackets := ackPackets s2 + advancedPackets,
           ackDeadline := (if IsZero (ackDeadline s2) then now + ackMaxDelay else ackDeadline s2)\<rparr>
      else if buffered \<or> rejected then
        s2\<lparr>ackPackets := ackBatchPackets, ackDeadline := now\<rparr>
      else s2)"

definition handleData :: "bytes \<Rightarrow> instant \<Rightarrow> Session \<Rightarrow> go_error option \<times> Session" where
  "handleData packet now s0 =
     (if len packet \<le> 9 then (Some (Sentinel ErrHandshake), s0)
      else
        let s1 = s0\<lparr>s_stats := (s_stats s0)\<lparr>st_dataRXPackets := st_dataRXPackets (s_stats s0) + 1\<rparr>\<rparr> in
        case acceptDataLocked (uint64_of (part packet 1 8)) (drop 9 packet) s1 of
          (Inl e, s2) \<Rightarrow> (Some e, s2)
        | (Inr (advancedPackets, buffered, rejected), s2) \<Rightarrow>
            (None, signalLocked (scheduleAck now advancedPackets buffered rejected s2)))"

definition handleAck :: "binding \<Rightarrow> bytes \<Rightarrow> instant \<Rightarrow> Session \<Rightarrow> go_error option \<times> Session" where
  "handleAck b packet now s0 =
     (if length packet \<noteq> 9 then (Some (Sentinel ErrHandshake), s0)
      else
        case handleAckLocked b (uint64_of (part packet 1 8)) now s0 of
          (Some e, b1, s1) \<Rightarrow> (Some e, s1\<lparr>current := Some b1\<rparr>)
        | (None, b1, s1) \<Rightarrow>
            (None, s1\<lparr>current := Some b1,
               s_stats := (s_stats s1)\<lparr>st_ackRXPackets := st_ackRXPackets (s_stats s1) + 1\<rparr>\<rparr>))"

text \<open>
  A client that has not seen the reply repeats its HELLO; the server negotiates and answers again.
\<close>

definition renegotiate :: "binding \<Rightarrow> bytes \<Rightarrow> bool \<Rightarrow> Session \<Rightarrow> Session" where
  "renegotiate b packet peerCompression s1 =
     (let peerCfg = emptyConfig\<lparr>ResumeTimeout := uint (uint32_of (part packet 9 4)) * millisecond,
                      MaxConnections := uint (uint16_of (part packet 13 2)),
                      Compression := peerCompression\<rparr>;
          mtu = min (b_mtu b) (normalizeMTU (uint (uint16_of (part packet 15 2))));
          s2 = negotiateLocked peerCfg s1
      in signalLocked (s2\<lparr>current := Some (b\<lparr>b_mtu := min (b_mtu b) mtu\<rparr>),
           helloReply := encodeHelloAck (rxNext s2) (s_config s2) mtu,
           havePendingHello := False\<rparr>))"

definition handleHello :: "binding \<Rightarrow> bytes \<Rightarrow> Session \<Rightarrow> go_error option \<times> Session" where
  "handleHello b packet s0 =
     (if (length packet \<noteq> 17 \<and> length packet \<noteq> 18) \<or> \<not> havePendingHello s0 \<or> pendingHelloID s0 \<noteq> s_id s0
      then (None, s0)
      else
        let peerCompression = (length packet = 18 \<and> packet ! 17 AND capabilityCompression \<noteq> 0) in
        if (length packet = 18 \<and> packet ! 17 AND NOT knownCapabilities \<noteq> 0)
           \<or> peerCompression \<noteq> Compression (s_config s0)
        then (Some (Sentinel ErrCompression), s0)
        else
          case reconcilePeerLocked (uint64_of (part packet 1 8)) s0 of
            (Some e, s1) \<Rightarrow> (Some e, s1)
          | (None, s1) \<Rightarrow> (None, renegotiate b packet peerCompression s1))"

text \<open>The switch of \<open>handlePacket\<close> over the packet type, on the current binding.\<close>

definition dispatchPacket ::
  "binding \<Rightarrow> bytes \<Rightarrow> instant \<Rightarrow> Session \<Rightarrow> go_error option \<times> link_effect list \<times> Session" where
  "dispatchPacket b packet now s0 =
     (let ty = packet ! 0 in
      if ty = packetData then (case handleData packet now s0 of (e, s1) \<Rightarrow> (e, [], s1))
      else if ty = packetAck then (case handleAck b packet now s0 of (e, s1) \<Rightarrow> (e, [], s1))
      else if ty = packetPing then
        (if length packet \<noteq> 1 then (Some (Sentinel ErrHandshake), [], s0)
         else (None, [], signalLocked (s0\<lparr>pongDirty := True\<rparr>)))
      else if ty = packetPong then
        (if length packet \<noteq> 1 then (Some (Sentinel ErrHandshake), [], s0)
         else (None, [], s0\<lparr>s_stats := (s_stats s0)\<lparr>st_heartbeatRX := st_heartbeatRX (s_stats s0) + 1\<rparr>,
                             current := Some (b\<lparr>b_lastHeartbeat := now\<rparr>)\<rparr>))
      else if ty = packetClose then (None, [GoCloseWithError (Sentinel EOF)], s0)
      else if ty = packetHelloID then
        (if length packet = 18 \<and> packet ! 1 = Version
         then (None, [], s0\<lparr>pendingHelloID := part packet 2 16, havePendingHello := True\<rparr>)
         else (None, [], s0))
      else if ty = packetHello then (case handleHello b packet s0 of (e, s1) \<Rightarrow> (e, [], s1))
      else if ty = packetReject then (Some (Sentinel ErrRejected), [], s0)
      else (Some (Sentinel ErrHandshake), [], s0))"

text \<open>
  \<open>handlePacket\<close>: \<open>g\<close> is the binding of the receive loop that calls it. The caller closes the
  binding when the result is an error.
\<close>

definition handlePacket ::
  "u64 \<Rightarrow> bytes \<Rightarrow> instant \<Rightarrow> Session \<Rightarrow> go_error option \<times> link_effect list \<times> Session" where
  "handlePacket g packet now s =
     (if packet = [] then (None, [], s)
      else
        case current s of
          None \<Rightarrow> (None, [], s)
        | Some b0 \<Rightarrow>
            if b_gen b0 \<noteq> g \<or> s_closed s then (None, [], s)
            else
              let b = b0\<lparr>b_lastRX := now, b_heartbeatPending := False, b_heartbeatFailures := 0\<rparr> in
              dispatchPacket b packet now (s\<lparr>current := Some b\<rparr>))"

section \<open>Losing the binding and closing\<close>

definition failBinding :: "u64 \<Rightarrow> instant \<Rightarrow> go_error \<Rightarrow> Session \<Rightarrow> link_effect list \<times> Session" where
  "failBinding g at reason s =
     (case current s of
        None \<Rightarrow> ([], s)
      | Some b \<Rightarrow>
          if b_gen b \<noteq> g \<or> s_closed s then ([], s)
          else ([CancelBinding g, GoExpireAfter at (ResumeTimeout (s_config s)), ConnClose (b_conn b)],
                signalLocked (s\<lparr>current := None, detachedAt := at, detachCount := detachCount s + 1,
                  lastDetachReason := err_text reason\<rparr>)))"

definition closeWithError :: "go_error \<Rightarrow> Session \<Rightarrow> link_effect list \<times> Session" where
  "closeWithError err s =
     (if s_closed s then ([], s)
      else
        ((case current s of None \<Rightarrow> [] | Some b \<Rightarrow> [CancelBinding (b_gen b), ConnClose (b_conn b)]),
         signalLocked (s\<lparr>s_closed := True, s_err := Some err, current := None, s_done := True\<rparr>)))"

text \<open>
  The goroutine of \<open>expireAfter\<close>: it started at \<open>now\<close>; \<open>doneFirst\<close> says that the session was
  closed before its timer fired. \<open>s\<close> is the session when it takes the mutex.
\<close>

definition expireAfter :: "instant \<Rightarrow> duration \<Rightarrow> instant \<Rightarrow> bool \<Rightarrow> Session \<Rightarrow> link_effect list \<times> Session" where
  "expireAfter at timeout now doneFirst s =
     (let delay = at + timeout - now in
      if delay > 0 \<and> doneFirst then ([], s)
      else if \<not> s_closed s \<and> current s = None \<and> detachedAt s = at then closeWithError (Sentinel ErrResumeTimeout) s
      else ([], s))"

text \<open>One turn of \<open>receiveLoop\<close>; the flag says whether the loop goes on.\<close>

definition receiveStep :: "u64 \<Rightarrow> recv_event \<Rightarrow> instant \<Rightarrow> Session \<Rightarrow> bool \<times> link_effect list \<times> Session" where
  "receiveStep g ev now s =
     (case ev of
        CtxDone e \<Rightarrow> (False, [], s)
      | RecvClosed \<Rightarrow>
          (case failBinding g now (ErrorText ''BLE receive channel closed'') s of (eff, s1) \<Rightarrow> (False, eff, s1))
      | RecvPacket packet \<Rightarrow>
          (case handlePacket g packet now s of
             (None, eff, s1) \<Rightarrow> (True, eff, s1)
           | (Some e, eff, s1) \<Rightarrow>
               (case failBinding g now (Wrapped ''receive packet: '' e '''') s1 of
                  (eff2, s2) \<Rightarrow> (False, eff @ eff2, s2))))"

text \<open>The critical section of one turn of \<open>sendLoop\<close>; \<open>None\<close> means that the loop ends.\<close>

definition sendStep :: "u64 \<Rightarrow> instant \<Rightarrow> Session \<Rightarrow> (go_error + bytes option) option \<times> Session" where
  "sendStep g now s =
     (case current s of
        None \<Rightarrow> (None, s)
      | Some b \<Rightarrow>
          if b_gen b \<noteq> g \<or> s_closed s then (None, s)
          else (case nextPacketLocked b now s of (r, b1, s1) \<Rightarrow> (Some r, s1\<lparr>current := Some b1\<rparr>)))"

text \<open>What \<open>sendLoop\<close> does once \<open>Send\<close> has returned; the flag says whether the loop goes on.\<close>

definition sendDone ::
  "u64 \<Rightarrow> bytes \<Rightarrow> instant \<Rightarrow> instant \<Rightarrow> go_error option \<Rightarrow> Session \<Rightarrow> bool \<times> link_effect list \<times> Session" where
  "sendDone g packet started finished err s =
     (let s1 = sendFinished g packet (finished - started) finished err s in
      case err of
        None \<Rightarrow> (True, [], s1)
      | Some e \<Rightarrow>
          (case failBinding g finished
                  (Wrapped (''send packet type '' @ itoa (uint (hd packet)) @ '': '') e '''') s1 of
             (eff, s2) \<Rightarrow> (False, eff, s2)))"

text \<open>The critical section of one turn of \<open>heartbeatLoop\<close>: \<open>(probe, detach)\<close>, or \<open>None\<close> when it ends.\<close>

definition heartbeatStep :: "u64 \<Rightarrow> instant \<Rightarrow> Session \<Rightarrow> (bool \<times> bool) option \<times> link_effect list \<times> Session" where
  "heartbeatStep g now s =
     (case current s of
        None \<Rightarrow> (None, [], s)
      | Some b \<Rightarrow>
          if b_gen b \<noteq> g \<or> s_closed s then (None, [], s)
          else
            case heartbeatCheckLocked b now s of
              ((probe, detach), b1, s1) \<Rightarrow>
                let s2 = s1\<lparr>current := Some b1\<rparr> in
                if detach then
                  (case failBinding g now (ErrorText ''heartbeat response failure limit reached'') s2 of
                     (eff, s3) \<Rightarrow> (Some (probe, detach), eff, s3))
                else (Some (probe, detach), (if probe then [ConnSend (b_conn b1) [packetPing]] else []), s2))"

text \<open>What \<open>heartbeatLoop\<close> does once its \<open>Send\<close> has returned.\<close>

definition heartbeatSent ::
  "u64 \<Rightarrow> instant \<Rightarrow> instant \<Rightarrow> go_error option \<Rightarrow> Session \<Rightarrow> bool \<times> link_effect list \<times> Session" where
  "heartbeatSent g started finished err s =
     (let st = recordSendTime (finished - started) (s_stats s);
          s1 = s\<lparr>s_stats := (if err = None then st\<lparr>st_heartbeatTX := st_heartbeatTX st + 1\<rparr> else st)\<rparr> in
      case heartbeatSendResultLocked g started finished err s1 of
        (detach, s2) \<Rightarrow>
          (case err of
             Some e \<Rightarrow>
               if detach then
                 (case failBinding g finished (Wrapped ''send heartbeat: '' e '''') s2 of
                    (eff, s3) \<Rightarrow> (False, eff, s3))
               else (True, [], s2)
           | None \<Rightarrow> (True, [], s2)))"

section \<open>Binding\<close>

definition attach :: "PacketConn \<Rightarrow> int \<Rightarrow> instant \<Rightarrow> Session \<Rightarrow> go_error option \<times> link_effect list \<times> Session" where
  "attach conn mtu now s =
     (if s_closed s then (Some (sessionErrorLocked s), [], s)
      else
        let g = bindGen s + 1;
            b = \<lparr>b_conn = conn, b_gen = g,
                 b_mtu = min (normalizeMTU (conn_MTU conn)) (normalizeMTU mtu),
                 b_lastRX = now, b_lastTX = now, b_lastHeartbeat = 0, b_heartbeatPending = False,
                 b_heartbeatSentAt = now, b_heartbeatFailures = 0, b_sendNext = txBase s,
                 b_retransmitAt = 0, b_duplicateACK = 0, b_flightPackets = initialFlightWindowPackets\<rparr>;
            s1 = s\<lparr>bindGen := g, rxPending := [], rxPendingBytes := 0, current := Some b, detachedAt := 0,
                   ackDeadline := (if ackDirty s then now else ackDeadline s)\<rparr> in
        (None,
         (case current s of None \<Rightarrow> [] | Some old \<Rightarrow> [CancelBinding (b_gen old), ConnClose (b_conn old)])
           @ [StartLoops g],
         signalLocked s1))"

text \<open>
  \<open>BindClient\<close> sends its HELLO pair until a reply arrives. What happens to it, in order: the
  result of a \<open>Send\<close>, the end of its context, the retry timer, the end of the connection, a packet.
  \<open>None\<close> means that it is still waiting; an event that does not fit the point it is at does not
  occur.
\<close>

datatype hs_event = HsSend "go_error option" | HsCtx go_error | HsRetry | HsRecvClosed | HsRecv bytes
datatype hs_point = SendFirst | SendSecond | WaitReply

fun clientHandshake :: "hs_point \<Rightarrow> hs_event list \<Rightarrow> (go_error + u64 \<times> Config \<times> int) option" where
  "clientHandshake pc [] = None"
| "clientHandshake SendFirst (HsSend (Some e) # es) = Some (Inl (Wrapped ''send session identity: '' e ''''))"
| "clientHandshake SendFirst (HsSend None # es) = clientHandshake SendSecond es"
| "clientHandshake SendSecond (HsSend (Some e) # es) =
     Some (Inl (Wrapped ''send session resume state: '' e ''''))"
| "clientHandshake SendSecond (HsSend None # es) = clientHandshake WaitReply es"
| "clientHandshake WaitReply (HsCtx e # es) = Some (Inl e)"
| "clientHandshake WaitReply (HsRetry # es) = clientHandshake SendFirst es"
| "clientHandshake WaitReply (HsRecvClosed # es) =
     Some (Inl (ErrorText ''BLE connection closed during handshake''))"
| "clientHandshake WaitReply (HsRecv packet # es) =
     (if packet \<noteq> [] \<and> packet ! 0 = packetReject then Some (Inl (Rejected (string_of (drop 1 packet))))
      else case decodeHelloAck packet of
             Inr reply \<Rightarrow> Some (Inr reply)
           | Inl e \<Rightarrow> clientHandshake WaitReply es)"
| "clientHandshake pc (ev # es) = clientHandshake pc es"

text \<open>The first critical section: the HELLO pair and the configuration it announces.\<close>

definition bindClientHello :: "PacketConn \<Rightarrow> Session \<Rightarrow> go_error + (bytes \<times> bytes) \<times> Config" where
  "bindClientHello conn s =
     (if s_closed s then Inl (sessionErrorLocked s)
      else Inr (encodeHello (s_id s) (rxNext s) (s_config s) (conn_MTU conn), s_config s))"

text \<open>What follows the reply: \<open>cfg\<close> is the configuration announced in the HELLO.\<close>

definition bindClientReply ::
  "Config \<Rightarrow> PacketConn \<Rightarrow> u64 \<times> Config \<times> int \<Rightarrow> instant \<Rightarrow> Session
   \<Rightarrow> go_error option \<times> link_effect list \<times> Session" where
  "bindClientReply cfg conn reply now s =
     (case reply of (peerExpected, peerCfg, peerMTU) \<Rightarrow>
        if Compression cfg \<and> \<not> Compression peerCfg then (Some (Sentinel ErrCompression), [], s)
        else if \<not> Compression cfg \<and> Compression peerCfg then (Some (Sentinel ErrHandshake), [], s)
        else
          case reconcilePeerLocked peerExpected s of
            (Some e, s1) \<Rightarrow> (Some e, [], s1)
          | (None, s1) \<Rightarrow>
              attach conn (min (normalizeMTU (conn_MTU conn)) peerMTU) now (negotiateLocked peerCfg s1))"

text \<open>\<open>BindClient\<close> on a session that nothing else touches in the meantime.\<close>

definition BindClient ::
  "PacketConn option \<Rightarrow> hs_event list \<Rightarrow> instant \<Rightarrow> Session
   \<Rightarrow> (go_error option \<times> link_effect list \<times> Session) option" where
  "BindClient conn es now s =
     (case conn of
        None \<Rightarrow> Some (Some (ErrorText ''nil BLE packet connection''), [], s)
      | Some c \<Rightarrow>
          (case bindClientHello c s of
             Inl e \<Rightarrow> Some (Some e, [], s)
           | Inr (hello, cfg) \<Rightarrow>
               (case clientHandshake SendFirst es of
                  None \<Rightarrow> None
                | Some (Inl e) \<Rightarrow> Some (Some e, [], s)
                | Some (Inr reply) \<Rightarrow> Some (bindClientReply cfg c reply now s))))"

text \<open>\<open>sendResult\<close> is what sending the HELLO_ACK returns.\<close>

definition BindServer ::
  "PacketConn \<Rightarrow> Hello \<Rightarrow> go_error option \<Rightarrow> instant \<Rightarrow> Session
   \<Rightarrow> go_error option \<times> link_effect list \<times> Session" where
  "BindServer conn hello sendResult now s =
     (if \<not> Matches s (hello_ID hello) then (Some (Sentinel ErrRejected), [], s)
      else if hello_Compression hello \<noteq> Compression (s_config s) then (Some (Sentinel ErrCompression), [], s)
      else if s_closed s then (Some (sessionErrorLocked s), [], s)
      else
        case reconcilePeerLocked (hello_ExpectedRemote hello) s of
          (Some e, s1) \<Rightarrow> (Some e, [], s1)
        | (None, s1) \<Rightarrow>
            let peerCfg = emptyConfig\<lparr>ResumeTimeout := hello_ResumeTimeout hello,
                            MaxConnections := hello_MaxConnections hello,
                            Compression := hello_Compression hello\<rparr>;
                mtu = min (normalizeMTU (conn_MTU conn)) (normalizeMTU (hello_AdvertisedPacketMTU hello));
                s2 = negotiateLocked peerCfg s1;
                ack = encodeHelloAck (rxNext s2) (s_config s2) mtu in
            case sendResult of
              Some e \<Rightarrow> (Some (Wrapped ''send handshake response: '' e ''''), [ConnSend conn ack], s2)
            | None \<Rightarrow>
                (case attach conn mtu now s2 of (e, eff, s3) \<Rightarrow> (e, ConnSend conn ack # eff, s3)))"

section \<open>Reading, writing and waiting\<close>

definition IsBound :: "Session \<Rightarrow> bool" where
  "IsBound s \<longleftrightarrow> current s \<noteq> None \<and> \<not> s_closed s"

definition PacketMTU :: "Session \<Rightarrow> int" where
  "PacketMTU s = (case current s of None \<Rightarrow> 0 | Some b \<Rightarrow> if s_closed s then 0 else b_mtu b)"

text \<open>One pass of the loop of \<open>WaitBound\<close>: \<open>None\<close> when it waits, otherwise its result.\<close>

definition WaitBound :: "Session \<Rightarrow> go_error option option" where
  "WaitBound s =
     (if s_closed s then Some (Some (sessionErrorLocked s))
      else if current s \<noteq> None then Some None else None)"

definition waitForSignal :: "instant \<Rightarrow> instant \<Rightarrow> wait_event \<Rightarrow> go_error option" where
  "waitForSignal deadline now ev =
     (if IsZero deadline then None
      else if deadline - now \<le> 0 then Some (Sentinel IOTimeout)
      else if ev = TimerFired then Some (Sentinel IOTimeout) else None)"

text \<open>One pass of \<open>Read\<close> into a buffer of \<open>n\<close> bytes.\<close>

definition Read :: "nat \<Rightarrow> Session \<Rightarrow> (go_error + bytes) option \<times> Session" where
  "Read n s =
     (if n = 0 then (Some (Inr []), s)
      else if rxBuf s \<noteq> [] then
        (Some (Inr (take n (rxBuf s))), signalLocked (s\<lparr>rxBuf := drop n (rxBuf s)\<rparr>))
      else if s_closed s then (Some (Inl (sessionErrorLocked s)), s)
      else (None, s))"

text \<open>
  \<open>Write\<close> runs until everything is buffered, an error ends it, or there is no space: then it
  waits with the bytes that are left.
\<close>

definition writeSpace :: "Session \<Rightarrow> int" where
  "writeSpace s =
     (let space = ReplayWindow (s_config s) - len (txBuf s) in
      if current s \<noteq> None then min space (liveWriteWindow - len (txBuf s)) else space)"

function (sequential) Write :: "nat \<Rightarrow> bytes \<Rightarrow> Session \<Rightarrow> nat \<times> write_outcome \<times> Session" where
  "Write written [] s = (written, WriteDone, s)"
| "Write written p s =
     (if s_closed s then (written, WriteFailed (sessionErrorLocked s), s)
      else if writeSpace s > 0 then
        (let n = nat (min (writeSpace s) (len p)) in
         if int n > 2 ^ 64 - 1 - uint (txNext s) then (written, WriteFailed (Sentinel ErrSequenceExhausted), s)
         else Write (written + n) (drop n p)
                (signalLocked (s\<lparr>txBuf := txBuf s @ take n p, txNext := txNext s + of_nat n\<rparr>)))
      else (written, WriteWaits p, s))"
  by pat_completeness auto
termination
  by (relation "measure (\<lambda>(written, p, s). length p)") auto

declare Write.simps(2) [simp del]

text \<open>\<open>Close\<close> tells the peer and closes.\<close>

definition Close :: "Session \<Rightarrow> link_effect list \<times> Session" where
  "Close s =
     (let goodbye = (case current s of None \<Rightarrow> [] | Some b \<Rightarrow> [ConnSend (b_conn b) [packetClose]]) in
      case closeWithError (Sentinel EOF) s of (eff, s1) \<Rightarrow> (goodbye @ eff, s1))"

definition SetDeadline :: "instant \<Rightarrow> Session \<Rightarrow> Session" where
  "SetDeadline t s = signalLocked (s\<lparr>readDeadline := t, writeDeadline := t\<rparr>)"

definition SetReadDeadline :: "instant \<Rightarrow> Session \<Rightarrow> Session" where
  "SetReadDeadline t s = signalLocked (s\<lparr>readDeadline := t\<rparr>)"

definition SetWriteDeadline :: "instant \<Rightarrow> Session \<Rightarrow> Session" where
  "SetWriteDeadline t s = signalLocked (s\<lparr>writeDeadline := t\<rparr>)"

section \<open>Invariant\<close>

definition life_ok :: "Session \<Rightarrow> bool" where
  "life_ok s \<longleftrightarrow> (case current s of None \<Rightarrow> True | Some b \<Rightarrow> bind_ok s b)
     \<and> (s_closed s \<longrightarrow> current s = None) \<and> (s_closed s = s_done s)"

definition sess_ok :: "Session \<Rightarrow> bool" where
  "sess_ok s \<longleftrightarrow> rx_ok s \<and> tx_ok s \<and> life_ok s"

text \<open>What the invariants of the two directions depend on.\<close>

definition rx_view :: "Session \<Rightarrow> u64 \<times> bytes \<times> (u64 \<times> bytes) list \<times> int \<times> int" where
  "rx_view s = (rxNext s, rxBuf s, rxPending s, rxPendingBytes s, ReplayWindow (s_config s))"

definition tx_view :: "Session \<Rightarrow> u64 \<times> u64 \<times> bytes \<times> int" where
  "tx_view s = (txBase s, txNext s, txBuf s, ReplayWindow (s_config s))"

lemma rx_ok_view: "rx_view s' = rx_view s \<Longrightarrow> rx_ok s' = rx_ok s"
  by (simp add: rx_view_def rx_ok_def)

lemma tx_ok_view: "tx_view s' = tx_view s \<Longrightarrow> tx_ok s' = tx_ok s"
  by (simp add: tx_view_def tx_ok_def)

lemma bind_ok_view: "tx_view s' = tx_view s \<Longrightarrow> bind_ok s' = bind_ok s"
  by (simp add: tx_view_def bind_ok_def fun_eq_iff)

lemma view_frame:
  "s' = s\<lparr>rxNext := a1, rxBuf := a2, rxPending := a3, rxPendingBytes := a4, s_stats := st, s_notify := n\<rparr>
     \<Longrightarrow> tx_view s' = tx_view s"
  by (simp add: tx_view_def)

lemma signal_views [simp]:
  "rx_view (signalLocked s) = rx_view s" "tx_view (signalLocked s) = tx_view s"
  "current (signalLocked s) = current s" "s_closed (signalLocked s) = s_closed s" "s_done (signalLocked s) = s_done s"
  by (simp_all add: signalLocked_def rx_view_def tx_view_def)


lemma life_ok_view:
  "tx_view s' = tx_view s \<Longrightarrow> current s' = current s \<Longrightarrow> s_closed s' = s_closed s \<Longrightarrow> s_done s' = s_done s \<Longrightarrow>
   life_ok s' = life_ok s"
  using bind_ok_view [of s' s] by (simp add: life_ok_def split: option.split)

lemma sess_ok_view:
  "rx_view s' = rx_view s \<Longrightarrow> tx_view s' = tx_view s \<Longrightarrow> current s' = current s \<Longrightarrow> s_closed s' = s_closed s
   \<Longrightarrow> s_done s' = s_done s \<Longrightarrow> sess_ok s' = sess_ok s"
  using rx_ok_view [of s' s] tx_ok_view [of s' s] life_ok_view [of s' s] by (simp add: sess_ok_def)

lemma scheduleAck_views [simp]:
  "rx_view (scheduleAck now a b c s) = rx_view s" "tx_view (scheduleAck now a b c s) = tx_view s"
  "current (scheduleAck now a b c s) = current s" "s_closed (scheduleAck now a b c s) = s_closed s"
  "s_done (scheduleAck now a b c s) = s_done s"
  by (simp_all add: scheduleAck_def rx_view_def tx_view_def Let_def)

lemma handleData_run:
  assumes "\<not> len packet \<le> 9"
  shows "handleData packet now s =
    (case acceptDataLocked (uint64_of (part packet 1 8)) (drop 9 packet)
       (s\<lparr>s_stats := (s_stats s)\<lparr>st_dataRXPackets := st_dataRXPackets (s_stats s) + 1\<rparr>\<rparr>) of
       (Inl e, s2) \<Rightarrow> (Some e, s2)
     | (Inr (a, b, c), s2) \<Rightarrow> (None, signalLocked (scheduleAck now a b c s2)))"
  using assms by (simp only: handleData_def Let_def if_False)

lemma handleData_ok:
  assumes ok: "sess_ok s" and run: "handleData packet now s = (e, s')"
  shows "sess_ok s'" and "e \<noteq> Some (Sentinel Panic)" and "tx_view s' = tx_view s"
    and "current s' = current s" and "s_closed s' = s_closed s"
    and "rx_view s' = rx_view s \<or> (9 < length packet \<and> (\<exists>s1 s2 r. rx_view s1 = rx_view s \<and> rx_view s' = rx_view s2
      \<and> acceptDataLocked (uint64_of (part packet 1 8)) (drop 9 packet) s1 = (r, s2)))"
proof -
  have "sess_ok s' \<and> e \<noteq> Some (Sentinel Panic) \<and> tx_view s' = tx_view s \<and> current s' = current s \<and> s_closed s' = s_closed s
    \<and> (rx_view s' = rx_view s \<or> (9 < length packet \<and> (\<exists>s1 s2 r. rx_view s1 = rx_view s \<and> rx_view s' = rx_view s2
      \<and> acceptDataLocked (uint64_of (part packet 1 8)) (drop 9 packet) s1 = (r, s2))))"
  proof (cases "len packet \<le> 9")
    case True
    with run ok show ?thesis by (auto simp: handleData_def)
  next
    case False
    define s1 where "s1 = s\<lparr>s_stats := (s_stats s)\<lparr>st_dataRXPackets := st_dataRXPackets (s_stats s) + 1\<rparr>\<rparr>"
    obtain r s2 where acc: "acceptDataLocked (uint64_of (part packet 1 8)) (drop 9 packet) s1 = (r, s2)"
      by (cases "acceptDataLocked (uint64_of (part packet 1 8)) (drop 9 packet) s1")
    have v1: "rx_view s1 = rx_view s" "tx_view s1 = tx_view s" "current s1 = current s" "s_closed s1 = s_closed s" "s_done s1 = s_done s"
      by (simp_all add: s1_def rx_view_def tx_view_def)
    have rx1: "rx_ok s1" using ok rx_ok_view [OF v1(1)] by (simp add: sess_ok_def)
    have ne: "drop 9 packet \<noteq> []" using False by simp
    note a = acceptDataLocked_ok(1,2) [OF rx1 ne acc]
    have v2: "tx_view s2 = tx_view s" "current s2 = current s" "s_closed s2 = s_closed s" "s_done s2 = s_done s"
      using v1 by (subst acceptDataLocked_frame(1) [OF acc], simp add: tx_view_def)+
    have v3: "rx_view s' = rx_view s2" "tx_view s' = tx_view s2" "current s' = current s2" "s_closed s' = s_closed s2"
        "s_done s' = s_done s2" and e: "e = (case r of Inl e \<Rightarrow> Some e | Inr _ \<Rightarrow> None)"
      using handleData_run [OF False, of now s, folded s1_def, unfolded acc] run by (auto split: sum.splits)
    have "sess_ok s'" using a(1) ok v2 v3 rx_ok_view [OF v3(1)] tx_ok_view [of s' s] life_ok_view [of s' s]
      by (simp add: sess_ok_def)
    moreover have "9 < length packet" using False by simp
    moreover have "e \<noteq> Some (Sentinel Panic)" using e a(2) by (auto split: sum.splits)
    ultimately show ?thesis using v1(1) v2 v3 acc by (intro conjI disjI2 exI) simp_all
  qed
  then show "sess_ok s'" "e \<noteq> Some (Sentinel Panic)" "tx_view s' = tx_view s" "current s' = current s" "s_closed s' = s_closed s"
    "rx_view s' = rx_view s \<or> (9 < length packet \<and> (\<exists>s1 s2 r. rx_view s1 = rx_view s \<and> rx_view s' = rx_view s2
      \<and> acceptDataLocked (uint64_of (part packet 1 8)) (drop 9 packet) s1 = (r, s2)))" by blast+
qed

text \<open>The peer's expected offset \<open>x\<close> was taken over: everything below it is gone from the buffer.\<close>

definition reconciled :: "u64 \<Rightarrow> Session \<Rightarrow> Session \<Rightarrow> bool" where
  "reconciled x s s' \<longleftrightarrow> x \<le> txNext s \<and> txNext s' = txNext s \<and> txBase s' = max (txBase s) x
     \<and> txBuf s' = drop (unat (max (txBase s) x) - unat (txBase s)) (txBuf s)
     \<and> ReplayWindow (s_config s') = ReplayWindow (s_config s)"

lemma reconciled_ok:
  assumes "reconciled x s s'" and "tx_ok s"
  shows "tx_ok s'"
proof -
  have "unat (max (txBase s) x) = max (unat (txBase s)) (unat x)"
    by (simp add: max_def word_le_nat_alt)
  moreover have "unat x \<le> unat (txNext s)" using assms by (simp add: reconciled_def word_le_nat_alt)
  ultimately have "unat (txNext s') = unat (txBase s') + length (txBuf s')" "length (txBuf s') \<le> length (txBuf s)"
    using assms by (auto simp: reconciled_def tx_ok_def)
  moreover have "ReplayWindow (s_config s') = ReplayWindow (s_config s)" using assms(1) by (simp add: reconciled_def)
  ultimately show ?thesis using assms(2) unfolding tx_ok_def by simp
qed

lemma handleAck_ok:
  assumes ok: "sess_ok s" and cur: "current s = Some b" and run: "handleAck b packet now s = (e, s')"
  shows "sess_ok s'" and "e \<noteq> Some (Sentinel Panic)" and "rx_view s' = rx_view s"
    and "tx_view s' = tx_view s \<or> reconciled (uint64_of (part packet 1 8)) s s'"
proof -
  have tx: "tx_ok s" and b: "bind_ok s b" and life: "life_ok s"
    using ok cur by (auto simp: sess_ok_def life_ok_def)
  have "sess_ok s' \<and> e \<noteq> Some (Sentinel Panic) \<and> rx_view s' = rx_view s
    \<and> (tx_view s' = tx_view s \<or> reconciled (uint64_of (part packet 1 8)) s s')"
  proof (cases "length packet = 9")
    case False
    with run ok show ?thesis by (auto simp: handleAck_def)
  next
    case True
    let ?x = "uint64_of (part packet 1 8)"
    obtain r b1 s1 where h: "handleAckLocked b ?x now s = (r, b1, s1)" by (cases "handleAckLocked b ?x now s")
    note ha = handleAckLocked_ok [OF tx b h]
    have e: "e = r" and s': "rx_view s' = rx_view s1" "tx_view s' = tx_view s1" "current s' = Some b1"
        "s_closed s' = s_closed s1" "s_done s' = s_done s1"
      using run True h by (auto simp: handleAck_def rx_view_def tx_view_def split: option.splits)
    have v1: "rx_view s1 = rx_view s" "s_closed s1 = s_closed s" "s_done s1 = s_done s"
      "ReplayWindow (s_config s1) = ReplayWindow (s_config s)" "txNext s1 = txNext s"
      by (subst ha(6), simp add: rx_view_def)+
    have "life_ok s'" using life ha(2) cur s' v1 bind_ok_view [OF s'(2)] by (auto simp: life_ok_def)
    then have sok: "sess_ok s'"
      using ok ha(1) rx_ok_view [of s' s] tx_ok_view [OF s'(2)] s'(1) v1(1) by (simp add: sess_ok_def)
    have "tx_view s' = tx_view s \<or> reconciled ?x s s'"
    proof (cases r)
      case None
      then have "reconciled ?x s s1" using ha(4,5) v1 by (simp add: reconciled_def)
      then show ?thesis using s'(2) by (simp add: reconciled_def tx_view_def)
    next
      case (Some err)
      then show ?thesis using ha(7) s'(2) by simp
    qed
    then show ?thesis using sok ha(3) e s'(1) v1(1) by simp
  qed
  then show "sess_ok s'" "e \<noteq> Some (Sentinel Panic)" "rx_view s' = rx_view s"
    "tx_view s' = tx_view s \<or> reconciled (uint64_of (part packet 1 8)) s s'" by blast+
qed

lemma negotiate_views [simp]:
  "rx_view (negotiateLocked peer s) = rx_view s" "tx_view (negotiateLocked peer s) = tx_view s"
  "current (negotiateLocked peer s) = current s" "s_closed (negotiateLocked peer s) = s_closed s"
  "s_done (negotiateLocked peer s) = s_done s" "txNext (negotiateLocked peer s) = txNext s"
  "txBase (negotiateLocked peer s) = txBase s" "txBuf (negotiateLocked peer s) = txBuf s"
  "ReplayWindow (s_config (negotiateLocked peer s)) = ReplayWindow (s_config s)"
  by (simp_all add: negotiateLocked_def rx_view_def tx_view_def Let_def)

lemma reconcile_reconciled:
  assumes "tx_ok s" and "reconcilePeerLocked x s = (None, s1)"
  shows "reconciled x s s1"
proof -
  note ro = reconcilePeerLocked_ok [OF assms]
  have "s_config s1 = s_config s" by (subst ro(7)) simp
  moreover have "max (txBase s) x = x" "x \<le> txNext s" using ro(4) by auto
  ultimately show ?thesis using ro(2,5) by (auto simp: reconciled_def)
qed

lemma reconcile_rx_view:
  "reconcilePeerLocked x s = (r, s1) \<Longrightarrow> rx_view s1 = rx_view s \<and> current s1 = current s
     \<and> s_closed s1 = s_closed s \<and> s_done s1 = s_done s"
  by (auto simp: reconcilePeerLocked_def signalLocked_def rx_view_def Let_def split: option.splits if_splits)

lemma renegotiate_views:
  "rx_view (renegotiate b packet c s) = rx_view s" "tx_view (renegotiate b packet c s) = tx_view s"
  "s_closed (renegotiate b packet c s) = s_closed s" "s_done (renegotiate b packet c s) = s_done s"
  using negotiate_views
  by (simp_all add: renegotiate_def Let_def rx_view_def tx_view_def signalLocked_def)

lemma renegotiate_current:
  assumes "bind_ok s0 b"
  shows "\<exists>m. current (renegotiate b packet c s) = Some (b\<lparr>b_mtu := m\<rparr>) \<and> m \<le> b_mtu b \<and> minimumPacketMTU \<le> m"
  using assms normalizeMTU_range by (auto simp: renegotiate_def Let_def bind_ok_def)

lemma handleHello_ok:
  assumes ok: "sess_ok s" and cur: "current s = Some b" and run: "handleHello b packet s = (e, s')"
  shows "sess_ok s'" and "e \<noteq> Some (Sentinel Panic)" and "rx_view s' = rx_view s"
    and "tx_view s' = tx_view s \<or> reconciled (uint64_of (part packet 1 8)) s s'"
proof -
  have tx: "tx_ok s" and b: "bind_ok s b" and life: "life_ok s"
    using ok cur by (auto simp: sess_ok_def life_ok_def)
  let ?x = "uint64_of (part packet 1 8)"
  obtain r s1 where rp: "reconcilePeerLocked ?x s = (r, s1)" by fastforce
  note ro = reconcilePeerLocked_ok [OF tx rp]
  consider (skip) "s' = s" "e \<noteq> Some (Sentinel Panic)" | (bad) "r \<noteq> None" "e = r" "s' = s1"
    | (good) c where "r = None" "e = None" "s' = renegotiate b packet c s1"
  proof (cases "s' = s \<and> e \<noteq> Some (Sentinel Panic)")
    case False
    with run rp have "(case r of Some e \<Rightarrow> (Some e, s1) | None \<Rightarrow>
        (None, renegotiate b packet (length packet = 18 \<and> packet ! 17 AND capabilityCompression \<noteq> 0) s1)) = (e, s')"
      by (auto simp: handleHello_def Let_def split: if_splits)
    with that(2,3) show thesis by (cases r) auto
  qed (use that in blast)
  then have "sess_ok s' \<and> e \<noteq> Some (Sentinel Panic) \<and> rx_view s' = rx_view s
    \<and> (tx_view s' = tx_view s \<or> reconciled ?x s s')"
  proof cases
    case skip
    with ok show ?thesis by simp
  next
    case bad
    with ok ro(3,6) show ?thesis by simp
  next
    case (good c)
    have rec: "reconciled ?x s s1" using reconcile_reconciled [OF tx] rp good(1) by simp
    note rn = renegotiate_views [of b packet c s1, folded good(3)]
    have v: "rx_view s' = rx_view s" "tx_view s' = tx_view s1" "s_closed s' = s_closed s" "s_done s' = s_done s"
      using reconcile_rx_view [OF rp] rn by simp_all
    obtain m where m: "current s' = Some (b\<lparr>b_mtu := m\<rparr>)" "m \<le> b_mtu b" "minimumPacketMTU \<le> m"
      using renegotiate_current [OF b, of packet c s1] good(3) by auto
    have "reconciled ?x s s'" using rec v(2) by (simp add: reconciled_def tx_view_def)
    moreover have "bind_ok s' (b\<lparr>b_mtu := m\<rparr>)"
      using b m \<open>reconciled ?x s s'\<close> by (auto simp: bind_ok_def reconciled_def)
    then have "life_ok s'" using life cur v m by (auto simp: life_ok_def)
    moreover have "tx_ok s'" using reconciled_ok [OF \<open>reconciled ?x s s'\<close> tx] .
    ultimately show ?thesis using ok rx_ok_view [OF v(1)] v(1) good(2) by (simp add: sess_ok_def)
  qed
  then show "sess_ok s'" "e \<noteq> Some (Sentinel Panic)" "rx_view s' = rx_view s"
    "tx_view s' = tx_view s \<or> reconciled ?x s s'" by blast+
qed

text \<open>
  What a received packet does to the two directions: nothing, one \<open>acceptDataLocked\<close>, or the
  peer's expected offset is taken over.
\<close>

definition packet_effect :: "bytes \<Rightarrow> Session \<Rightarrow> Session \<Rightarrow> bool" where
  "packet_effect packet s s' \<longleftrightarrow>
     (rx_view s' = rx_view s \<and> tx_view s' = tx_view s)
     \<or> (packet \<noteq> [] \<and> packet ! 0 = packetData \<and> 9 < length packet \<and> tx_view s' = tx_view s
        \<and> (\<exists>s1 s2 r. rx_view s1 = rx_view s \<and> rx_view s' = rx_view s2
           \<and> acceptDataLocked (uint64_of (part packet 1 8)) (drop 9 packet) s1 = (r, s2)))
     \<or> (packet \<noteq> [] \<and> (packet ! 0 = packetAck \<or> packet ! 0 = packetHello) \<and> rx_view s' = rx_view s
        \<and> reconciled (uint64_of (part packet 1 8)) s s')"

lemma reconciled_view:
  "tx_view s0 = tx_view s \<Longrightarrow> reconciled x s0 s' = reconciled x s s'"
  by (simp add: reconciled_def tx_view_def)

lemma bind_ok_touch [simp]:
  "bind_ok s (b\<lparr>b_lastRX := t\<rparr>) = bind_ok s b" "bind_ok s (b\<lparr>b_heartbeatPending := p\<rparr>) = bind_ok s b"
  "bind_ok s (b\<lparr>b_heartbeatFailures := n\<rparr>) = bind_ok s b" "bind_ok s (b\<lparr>b_lastHeartbeat := t\<rparr>) = bind_ok s b"
  "bind_ok s (b\<lparr>b_lastTX := t\<rparr>) = bind_ok s b" "bind_ok s (b\<lparr>b_heartbeatSentAt := t\<rparr>) = bind_ok s b"
  by (simp_all add: bind_ok_def)

text \<open>A session whose binding is replaced by another one that satisfies \<open>bind_ok\<close>.\<close>

lemma sess_ok_rebind:
  assumes "sess_ok s" and "current s \<noteq> None" and "bind_ok s b'" and "current s' = Some b'"
    and "rx_view s' = rx_view s" and "tx_view s' = tx_view s" and "s_closed s' = s_closed s" and "s_done s' = s_done s"
  shows "sess_ok s'"
  using assms rx_ok_view [OF assms(5)] tx_ok_view [OF assms(6)] bind_ok_view [OF assms(6)]
  by (auto simp: sess_ok_def life_ok_def)

lemma dispatchPacket_ok:
  assumes ok: "sess_ok s" and cur: "current s = Some b" and ne: "packet \<noteq> []"
    and run: "dispatchPacket b packet now s = (e, eff, s')"
  shows "sess_ok s' \<and> e \<noteq> Some (Sentinel Panic) \<and> packet_effect packet s s'"
proof -
  consider (data) "packet ! 0 = packetData" "handleData packet now s = (e, s')"
    | (ack) "packet ! 0 = packetAck" "handleAck b packet now s = (e, s')"
    | (hello) "packet ! 0 = packetHello" "handleHello b packet s = (e, s')"
    | (ctl) "e \<noteq> Some (Sentinel Panic)" "rx_view s' = rx_view s" "tx_view s' = tx_view s"
        "\<exists>t. current s' = Some (b\<lparr>b_lastHeartbeat := t\<rparr>)" "s_closed s' = s_closed s" "s_done s' = s_done s"
  proof (cases "packet ! 0 = packetData \<or> packet ! 0 = packetAck \<or> packet ! 0 = packetHello")
    case True
    then show thesis using run that(1-3) by (auto simp: dispatchPacket_def Let_def packet_types split: prod.splits)
  next
    case False
    have lh: "\<exists>t. b = b\<lparr>b_lastHeartbeat := t\<rparr>" by (rule exI [of _ "b_lastHeartbeat b"]) simp
    show thesis
      by (rule that(4); insert run False cur lh;
          simp add: dispatchPacket_def Let_def signalLocked_def rx_view_def tx_view_def split: if_splits; force)
  qed
  then show ?thesis
  proof cases
    case data
    then show ?thesis using handleData_ok [OF ok data(2)] ne by (auto simp: packet_effect_def)
  next
    case ack
    then show ?thesis using handleAck_ok [OF ok cur ack(2)] ne by (auto simp: packet_effect_def)
  next
    case hello
    then show ?thesis using handleHello_ok [OF ok cur hello(2)] ne by (auto simp: packet_effect_def)
  next
    case ctl
    then obtain t where t: "current s' = Some (b\<lparr>b_lastHeartbeat := t\<rparr>)" by blast
    have "bind_ok s b" using ok cur by (simp add: sess_ok_def life_ok_def)
    then have "sess_ok s'" using sess_ok_rebind [OF ok _ _ t ctl(2,3,5,6)] cur by simp
    then show ?thesis using ctl by (simp add: packet_effect_def)
  qed
qed

lemma handlePacket_ok:
  assumes ok: "sess_ok s" and run: "handlePacket g packet now s = (e, eff, s')"
  shows "sess_ok s'" and "e \<noteq> Some (Sentinel Panic)" and "packet_effect packet s s'"
proof -
  have "sess_ok s' \<and> e \<noteq> Some (Sentinel Panic) \<and> packet_effect packet s s'"
  proof (cases "packet = [] \<or> \<not> isCurrent g s \<or> s_closed s")
    case True
    then have "s' = s" "e = None"
      using run by (auto simp: handlePacket_def isCurrent_def split: option.splits if_splits)
    then show ?thesis using ok by (simp add: packet_effect_def)
  next
    case False
    then obtain b0 where b0: "current s = Some b0" "b_gen b0 = g"
      by (auto simp: isCurrent_def split: option.splits)
    define b where "b = b0\<lparr>b_lastRX := now, b_heartbeatPending := False, b_heartbeatFailures := 0\<rparr>"
    define s0 where "s0 = s\<lparr>current := Some b\<rparr>"
    have v0: "rx_view s0 = rx_view s" "tx_view s0 = tx_view s" "current s0 = Some b" "s_closed s0 = s_closed s" "s_done s0 = s_done s"
      by (simp_all add: s0_def rx_view_def tx_view_def)
    have "bind_ok s b" using ok b0 by (simp add: b_def sess_ok_def life_ok_def)
    then have "sess_ok s0" using sess_ok_rebind [OF ok _ _ v0(3,1,2,4,5)] b0 by simp
    moreover have "dispatchPacket b packet now s0 = (e, eff, s')"
      using run False b0 by (simp add: handlePacket_def b_def s0_def Let_def)
    ultimately have "sess_ok s' \<and> e \<noteq> Some (Sentinel Panic) \<and> packet_effect packet s0 s'"
      using dispatchPacket_ok v0(3) False by blast
    then show ?thesis using v0(1,2) reconciled_view [OF v0(2)] by (simp add: packet_effect_def)
  qed
  then show "sess_ok s'" "e \<noteq> Some (Sentinel Panic)" "packet_effect packet s s'" by blast+
qed

section \<open>The other operations\<close>

lemma failBinding_ok:
  assumes "sess_ok s" and "failBinding g at reason s = (eff, s')"
  shows "sess_ok s'" and "rx_view s' = rx_view s" and "tx_view s' = tx_view s" and "s_closed s' = s_closed s"
proof -
  have v: "rx_view s' = rx_view s" "tx_view s' = tx_view s" "s_closed s' = s_closed s" "s_done s' = s_done s"
      "current s' = current s \<or> current s' = None"
    using assms(2) by (auto simp: failBinding_def rx_view_def tx_view_def signalLocked_def split: option.splits if_splits)
  then show "rx_view s' = rx_view s" "tx_view s' = tx_view s" "s_closed s' = s_closed s" by simp_all
  show "sess_ok s'"
    using assms(1) v rx_ok_view [OF v(1)] tx_ok_view [OF v(2)] bind_ok_view [OF v(2)]
    by (auto simp: sess_ok_def life_ok_def split: option.splits)
qed

lemma closeWithError_ok:
  assumes "sess_ok s" and "closeWithError err s = (eff, s')"
  shows "sess_ok s'" and "rx_view s' = rx_view s" and "tx_view s' = tx_view s" and "s_closed s'" and "current s' = None"
proof -
  have v: "rx_view s' = rx_view s" "tx_view s' = tx_view s" "s_closed s'" "s_done s'" "current s' = None"
    using assms by (auto simp: closeWithError_def rx_view_def tx_view_def signalLocked_def sess_ok_def life_ok_def split: if_splits)
  then show "rx_view s' = rx_view s" "tx_view s' = tx_view s" "s_closed s'" "current s' = None" by simp_all
  show "sess_ok s'" using assms(1) v rx_ok_view [OF v(1)] tx_ok_view [OF v(2)] by (simp add: sess_ok_def life_ok_def)
qed

lemma expireAfter_ok:
  assumes "sess_ok s" and "expireAfter at timeout now d s = (eff, s')"
  shows "sess_ok s'" and "rx_view s' = rx_view s" and "tx_view s' = tx_view s"
  using assms closeWithError_ok [OF assms(1)] by (auto simp: expireAfter_def Let_def split: if_splits)

lemma rx_ok_forget:
  "rx_ok s \<Longrightarrow> rx_view s' = (rxNext s, rxBuf s, [], 0, ReplayWindow (s_config s)) \<Longrightarrow> rx_ok s'"
  using pend_bytes_nonneg [of "rxPending s"]
  by (auto simp: rx_ok_def rx_view_def pend_ok_def maxFlightWindowPackets_def)

text \<open>A new binding starts at the acknowledged offset and forgets the fragments beyond a gap.\<close>

lemma attach_ok:
  assumes ok: "sess_ok s" and run: "attach conn mtu now s = (e, eff, s')"
  shows "sess_ok s'" and "tx_view s' = tx_view s" and "e \<noteq> Some (Sentinel Panic) \<or> s_err s = Some (Sentinel Panic)"
    and "rx_view s' = rx_view s \<or> rx_view s' = (rxNext s, rxBuf s, [], 0, ReplayWindow (s_config s))"
    and "e = None \<Longrightarrow> \<exists>b. current s' = Some b \<and> b_conn b = conn \<and> b_sendNext b = txBase s \<and> b_gen b = bindGen s + 1"
proof -
  have tx: "tx_view s' = tx_view s" using run by (auto simp: attach_def tx_view_def signalLocked_def Let_def split: if_splits)
  show "tx_view s' = tx_view s" by (rule tx)
  show rx: "rx_view s' = rx_view s \<or> rx_view s' = (rxNext s, rxBuf s, [], 0, ReplayWindow (s_config s))"
    using run by (auto simp: attach_def rx_view_def signalLocked_def Let_def split: if_splits)
  show "e \<noteq> Some (Sentinel Panic) \<or> s_err s = Some (Sentinel Panic)"
    using run by (auto simp: attach_def sessionErrorLocked_def Let_def split: if_splits option.splits)
  show "e = None \<Longrightarrow> \<exists>b. current s' = Some b \<and> b_conn b = conn \<and> b_sendNext b = txBase s \<and> b_gen b = bindGen s + 1"
    using run by (auto simp: attach_def signalLocked_def Let_def split: if_splits)
  have "life_ok s'"
    using run ok normalizeMTU_range [of "conn_MTU conn"] normalizeMTU_range [of mtu] tx_range(1) [of s]
    by (auto simp: attach_def sess_ok_def life_ok_def bind_ok_def signalLocked_def flight_consts min_def Let_def split: if_splits)
  then show "sess_ok s'"
    using ok rx rx_ok_view [of s' s] rx_ok_forget [of s s'] tx_ok_view [OF tx] by (auto simp: sess_ok_def)
qed

text \<open>What taking over the peer's offset \<open>x\<close> and binding may change.\<close>

definition bind_effect :: "u64 \<Rightarrow> Session \<Rightarrow> Session \<Rightarrow> bool" where
  "bind_effect x s s' \<longleftrightarrow> (tx_view s' = tx_view s \<or> reconciled x s s')
     \<and> (rx_view s' = rx_view s \<or> rx_view s' = (rxNext s, rxBuf s, [], 0, ReplayWindow (s_config s)))"

lemma sess_ok_reconciled:
  assumes ok: "sess_ok s" and rp: "reconcilePeerLocked x s = (None, s1)"
  shows "sess_ok (negotiateLocked peer s1)" and "reconciled x s (negotiateLocked peer s1)"
    and "rx_view (negotiateLocked peer s1) = rx_view s"
proof -
  let ?s = "negotiateLocked peer s1"
  have rec: "reconciled x s s1" using reconcile_reconciled rp ok by (simp add: sess_ok_def)
  then show r2: "reconciled x s ?s" by (simp add: reconciled_def)
  note rv = reconcile_rx_view [OF rp]
  then show rx: "rx_view ?s = rx_view s" by simp
  have "bind_ok ?s = bind_ok s" using r2 by (simp add: bind_ok_def reconciled_def fun_eq_iff)
  then have "life_ok ?s" using ok rv by (auto simp: sess_ok_def life_ok_def split: option.splits)
  then show "sess_ok ?s"
    using ok rx_ok_view [OF rx] reconciled_ok [OF r2] by (simp add: sess_ok_def)
qed

lemma attach_effect:
  assumes ok: "sess_ok s2" and rec: "reconciled x s s2" and rx: "rx_view s2 = rx_view s"
    and run: "attach conn mtu now s2 = (e, eff, s')"
  shows "sess_ok s'" and "bind_effect x s s'"
proof -
  note a = attach_ok [OF ok run]
  show "sess_ok s'" by (rule a(1))
  show "bind_effect x s s'"
    using a(2,4) rec rx by (auto simp: bind_effect_def reconciled_def tx_view_def rx_view_def)
qed

lemma BindServer_ok:
  assumes ok: "sess_ok s" and run: "BindServer conn hello sendResult now s = (e, eff, s')"
  shows "sess_ok s'" and "bind_effect (hello_ExpectedRemote hello) s s'"
proof -
  let ?x = "hello_ExpectedRemote hello"
  obtain r s1 where rp: "reconcilePeerLocked ?x s = (r, s1)" by fastforce
  have "tx_ok s" using ok by (simp add: sess_ok_def)
  note ro = reconcilePeerLocked_ok(6) [OF this rp]
  consider (same) "s' = s" | (sent) peer where "r = None" "s' = negotiateLocked peer s1"
    | (bound) peer mtu eff' where "r = None" "attach conn mtu now (negotiateLocked peer s1) = (e, eff', s')"
    using run rp ro by (fastforce simp: BindServer_def Let_def split: if_splits option.splits prod.splits)
  then have "sess_ok s' \<and> bind_effect ?x s s'"
  proof cases
    case same
    then show ?thesis using ok by (simp add: bind_effect_def)
  next
    case (sent peer)
    then show ?thesis using sess_ok_reconciled [OF ok, of ?x s1 peer] rp by (simp add: bind_effect_def)
  next
    case (bound peer mtu eff')
    then show ?thesis using sess_ok_reconciled [OF ok, of ?x s1 peer] rp attach_effect by blast
  qed
  then show "sess_ok s'" "bind_effect ?x s s'" by blast+
qed

lemma bindClientReply_ok:
  assumes ok: "sess_ok s" and run: "bindClientReply cfg conn (x, peerCfg, mtu) now s = (e, eff, s')"
  shows "sess_ok s'" and "bind_effect x s s'"
proof -
  obtain r s1 where rp: "reconcilePeerLocked x s = (r, s1)" by fastforce
  have "tx_ok s" using ok by (simp add: sess_ok_def)
  note ro = reconcilePeerLocked_ok(6) [OF this rp]
  consider (same) "s' = s" | (bound) mtu' where "r = None" "attach conn mtu' now (negotiateLocked peerCfg s1) = (e, eff, s')"
    using run rp ro by (fastforce simp: bindClientReply_def split: if_splits option.splits)
  then have "sess_ok s' \<and> bind_effect x s s'"
  proof cases
    case same
    then show ?thesis using ok by (simp add: bind_effect_def)
  next
    case (bound mtu')
    then show ?thesis using sess_ok_reconciled [OF ok, of x s1 peerCfg] rp attach_effect by blast
  qed
  then show "sess_ok s'" "bind_effect x s s'" by blast+
qed

text \<open>Reading takes bytes off the front of the delivered stream.\<close>

lemma Read_ok:
  assumes ok: "sess_ok s" and run: "Read n s = (r, s')"
  shows "sess_ok s'" and "tx_view s' = tx_view s"
    and "rx_view s' = (rxNext s, drop (case r of Some (Inr p) \<Rightarrow> length p | _ \<Rightarrow> 0) (rxBuf s), rxPending s, rxPendingBytes s,
           ReplayWindow (s_config s))"
    and "r = Some (Inr p) \<Longrightarrow> p = take n (rxBuf s)"
proof -
  have v: "tx_view s' = tx_view s" "current s' = current s" "s_closed s' = s_closed s" "s_done s' = s_done s"
      "rxNext s' = rxNext s" "rxPending s' = rxPending s" "rxPendingBytes s' = rxPendingBytes s" "s_config s' = s_config s"
      "length (rxBuf s') \<le> length (rxBuf s)"
    using run by (auto simp: Read_def tx_view_def signalLocked_def split: if_splits)
  then show "tx_view s' = tx_view s" by simp
  show "r = Some (Inr p) \<Longrightarrow> p = take n (rxBuf s)" using run by (auto simp: Read_def split: if_splits)
  have "rxBuf s' = drop (case r of Some (Inr p) \<Rightarrow> length p | _ \<Rightarrow> 0) (rxBuf s)"
    using run by (auto simp: Read_def signalLocked_def min_def split: if_splits)
  with v show "rx_view s' = (rxNext s, drop (case r of Some (Inr p) \<Rightarrow> length p | _ \<Rightarrow> 0) (rxBuf s), rxPending s, rxPendingBytes s,
           ReplayWindow (s_config s))" by (simp add: rx_view_def)
  have "rx_ok s'" using ok v by (simp add: sess_ok_def rx_ok_def)
  then show "sess_ok s'" using ok v(1-4) tx_ok_view [OF v(1)] life_ok_view [OF v(1-4)] by (simp add: sess_ok_def)
qed

text \<open>
  Writing appends the first \<open>k\<close> bytes; on a wait exactly the rest is left. The buffer never grows
  beyond the replay window, nor beyond the live window while a binding is there.
\<close>

definition wrote :: "bytes \<Rightarrow> Session \<Rightarrow> Session \<Rightarrow> bool" where
  "wrote p s s' \<longleftrightarrow> txBase s' = txBase s \<and> txBuf s' = txBuf s @ p \<and> unat (txNext s') = unat (txNext s) + length p
     \<and> rx_view s' = rx_view s \<and> s_config s' = s_config s \<and> current s' = current s
     \<and> s_closed s' = s_closed s \<and> s_done s' = s_done s"

lemma wrote_trans: "wrote p s s1 \<Longrightarrow> wrote q s1 s' \<Longrightarrow> wrote (p @ q) s s'"
  by (simp add: wrote_def)

lemma Write_ok:
  assumes "Write w p s = (w', out, s')" and "sess_ok s"
  shows "\<exists>k \<le> length p. w' = w + k \<and> wrote (take k p) s s' \<and> sess_ok s'
    \<and> (out = WriteDone \<longrightarrow> k = length p)
    \<and> (\<forall>q. out = WriteWaits q \<longrightarrow> q = drop k p \<and> q \<noteq> [] \<and> writeSpace s' \<le> 0 \<and> \<not> s_closed s')"
  using assms
proof (induction w p s arbitrary: w' rule: Write.induct)
  case (1 w s)
  then show ?case by (auto simp: wrote_def)
next
  case (2 w x xs s)
  let ?p = "x # xs"
  define n where "n = nat (min (writeSpace s) (len ?p))"
  define s1 where "s1 = signalLocked (s\<lparr>txBuf := txBuf s @ take n ?p, txNext := txNext s + of_nat n\<rparr>)"
  have unf: "Write w ?p s = (if s_closed s then (w, WriteFailed (sessionErrorLocked s), s)
      else if writeSpace s > 0 then
        (if int n > 2 ^ 64 - 1 - uint (txNext s) then (w, WriteFailed (Sentinel ErrSequenceExhausted), s)
         else Write (w + n) (drop n ?p) s1)
      else (w, WriteWaits ?p, s))"
    by (subst Write.simps) (simp only: n_def s1_def Let_def)
  show ?case
  proof (cases "\<not> s_closed s \<and> writeSpace s > 0 \<and> \<not> int n > 2 ^ 64 - 1 - uint (txNext s)")
    case False
    then show ?thesis using 2(2,3) unfolding unf by (auto simp: wrote_def intro!: exI [of _ 0] split: if_splits)
  next
    case True
    have n: "0 < n" "n \<le> length ?p" "int n \<le> writeSpace s" using True by (auto simp: n_def)
    have "int (unat (txNext s) + n) < int (2 ^ 64)" using True by simp
    then have "unat (txNext s) + n < 2 ^ 64" by (simp only: of_nat_less_iff)
    then have w1: "wrote (take n ?p) s s1"
      using n by (simp add: wrote_def s1_def signalLocked_def rx_view_def unat_add_of_nat)
    have "int n \<le> ReplayWindow (s_config s) - len (txBuf s)"
      using n(3) by (auto simp: writeSpace_def Let_def split: if_splits)
    then have tx1: "tx_ok s1" using "2.prems"(2) w1 n(2) by (simp add: sess_ok_def tx_ok_def wrote_def)
    have "txNext s \<le> txNext s1" using w1 by (simp add: wrote_def word_le_nat_alt)
    then have "life_ok s1"
      using "2.prems"(2) w1 by (auto simp: sess_ok_def life_ok_def wrote_def bind_ok_def split: option.splits)
    then have ok1: "sess_ok s1" using tx1 "2.prems"(2) w1 rx_ok_view [of s1 s] by (simp add: sess_ok_def wrote_def)
    have run1: "Write (w + n) (drop n ?p) s1 = (w', out, s')" using "2.prems"(1) True unfolding unf by simp
    from "2.IH" [OF _ _ n_def] True run1 ok1
    obtain k where k: "k \<le> length (drop n ?p)" "w' = w + n + k" "wrote (take k (drop n ?p)) s1 s'" "sess_ok s'"
      "out = WriteDone \<longrightarrow> k = length (drop n ?p)"
      "\<forall>q. out = WriteWaits q \<longrightarrow> q = drop k (drop n ?p) \<and> q \<noteq> [] \<and> writeSpace s' \<le> 0 \<and> \<not> s_closed s'"
      unfolding s1_def by blast
    have "take (n + k) ?p = take n ?p @ take k (drop n ?p)" by (rule take_add)
    then have "wrote (take (n + k) ?p) s s'" using wrote_trans [OF w1 k(3)] by simp
    then show ?thesis using k n by (intro exI [of _ "n + k"]) (auto simp: add.commute)
  qed
qed

text \<open>Sending and probing change neither direction; a DATA packet carries retained bytes.\<close>

lemma sendStep_ok:
  assumes ok: "sess_ok s" and run: "sendStep g now s = (r, s')"
  shows "sess_ok s'" and "rx_view s' = rx_view s" and "tx_view s' = tx_view s" and "r \<noteq> Some (raise Panic)"
    and "r = None \<or> r = Some (Inr None) \<or> r = Some (Inr (Some [packetPong]))
      \<or> (helloReply s \<noteq> [] \<and> r = Some (Inr (Some (helloReply s))))
      \<or> r = Some (Inr (Some ([packetAck] @ put_uint64 (rxNext s))))
      \<or> (\<exists>q p. r = Some (Inr (Some (dataPacket q p))) \<and> p \<noteq> [] \<and> txBase s \<le> q
          \<and> unat q + length p \<le> unat (txNext s)
          \<and> p = part (txBuf s) (unat q - unat (txBase s)) (length p) \<and> len p \<le> PacketMTU s - 9)"
proof -
  have "sess_ok s' \<and> rx_view s' = rx_view s \<and> tx_view s' = tx_view s \<and> r \<noteq> Some (raise Panic)
    \<and> (r = None \<or> r = Some (Inr None) \<or> r = Some (Inr (Some [packetPong]))
      \<or> (helloReply s \<noteq> [] \<and> r = Some (Inr (Some (helloReply s))))
      \<or> r = Some (Inr (Some ([packetAck] @ put_uint64 (rxNext s))))
      \<or> (\<exists>q p. r = Some (Inr (Some (dataPacket q p))) \<and> p \<noteq> [] \<and> txBase s \<le> q
          \<and> unat q + length p \<le> unat (txNext s)
          \<and> p = part (txBuf s) (unat q - unat (txBase s)) (length p) \<and> len p \<le> PacketMTU s - 9))"
  proof (cases "isCurrent g s \<and> \<not> s_closed s")
    case False
    then show ?thesis using run ok by (auto simp: sendStep_def isCurrent_def split: option.splits if_splits)
  next
    case True
    then obtain b where b: "current s = Some b" "b_gen b = g" by (auto simp: isCurrent_def split: option.splits)
    have tx: "tx_ok s" and bok: "bind_ok s b" using ok b by (auto simp: sess_ok_def life_ok_def)
    obtain r1 b1 s1 where np: "nextPacketLocked b now s = (r1, b1, s1)" by (cases "nextPacketLocked b now s")
    note n = nextPacketLocked_ok [OF tx bok np]
    have r: "r = Some r1" and s': "s' = s1\<lparr>current := Some b1\<rparr>"
      using run b True np by (auto simp: sendStep_def)
    have v: "rx_view s' = rx_view s" "tx_view s' = tx_view s" "s_closed s' = s_closed s" "s_done s' = s_done s"
      unfolding s' by (subst n(2), simp add: rx_view_def tx_view_def)+
    have "sess_ok s'" using sess_ok_rebind [OF ok _ n(1) _ v] b s' by simp
    moreover have "PacketMTU s = b_mtu b" using b True by (simp add: PacketMTU_def)
    ultimately show ?thesis using n(3) v(1,2) r by (simp only: simp_thms) auto
  qed
  then show "sess_ok s'" "rx_view s' = rx_view s" "tx_view s' = tx_view s" "r \<noteq> Some (raise Panic)"
    "r = None \<or> r = Some (Inr None) \<or> r = Some (Inr (Some [packetPong]))
      \<or> (helloReply s \<noteq> [] \<and> r = Some (Inr (Some (helloReply s))))
      \<or> r = Some (Inr (Some ([packetAck] @ put_uint64 (rxNext s))))
      \<or> (\<exists>q p. r = Some (Inr (Some (dataPacket q p))) \<and> p \<noteq> [] \<and> txBase s \<le> q
          \<and> unat q + length p \<le> unat (txNext s)
          \<and> p = part (txBuf s) (unat q - unat (txBase s)) (length p) \<and> len p \<le> PacketMTU s - 9)" by blast+
qed

lemma sendFinished_ok:
  assumes ok: "sess_ok s"
  shows "sess_ok (sendFinished g packet d finished err s)"
    and "rx_view (sendFinished g packet d finished err s) = rx_view s"
    and "tx_view (sendFinished g packet d finished err s) = tx_view s"
proof -
  let ?s = "sendFinished g packet d finished err s"
  have v: "rx_view ?s = rx_view s" "tx_view ?s = tx_view s" "s_closed ?s = s_closed s" "s_done ?s = s_done s"
    by (auto simp: sendFinished_def rx_view_def tx_view_def Let_def split: option.splits)
  then show "rx_view ?s = rx_view s" "tx_view ?s = tx_view s" by simp_all
  show "sess_ok ?s"
  proof (cases "current ?s = current s")
    case True
    then show ?thesis using ok sess_ok_view v by blast
  next
    case False
    then obtain b where b: "current s = Some b" "current ?s = Some (b\<lparr>b_lastTX := finished\<rparr>)"
      by (auto simp: sendFinished_def Let_def split: option.splits if_splits)
    then have "bind_ok s b" using ok by (simp add: sess_ok_def life_ok_def)
    then show ?thesis using sess_ok_rebind [OF ok _ _ b(2) v] b(1) by simp
  qed
qed

lemma sendDone_ok:
  assumes "sess_ok s" and "sendDone g packet started finished err s = (go, eff, s')"
  shows "sess_ok s'" and "rx_view s' = rx_view s" and "tx_view s' = tx_view s"
proof -
  let ?s1 = "sendFinished g packet (finished - started) finished err s"
  note f = sendFinished_ok [OF assms(1), of g packet "finished - started" finished err]
  have "sess_ok s' \<and> rx_view s' = rx_view ?s1 \<and> tx_view s' = tx_view ?s1"
    using assms(2) f(1) failBinding_ok [OF f(1)]
    by (auto simp: sendDone_def Let_def split: option.splits prod.splits)
  then show "sess_ok s'" "rx_view s' = rx_view s" "tx_view s' = tx_view s" using f by auto
qed

lemma heartbeatCheckLocked_ok:
  assumes "bind_ok s b" and "heartbeatCheckLocked b now s = (r, b', s')"
  shows "bind_ok s b'" and "b_conn b' = b_conn b" and "s' = s\<lparr>s_stats := s_stats s'\<rparr>"
  using assms by (auto simp: heartbeatCheckLocked_def Let_def split: if_splits)

lemma heartbeatStep_ok:
  assumes ok: "sess_ok s" and run: "heartbeatStep g now s = (r, eff, s')"
  shows "sess_ok s'" and "rx_view s' = rx_view s" and "tx_view s' = tx_view s"
proof -
  have "sess_ok s' \<and> rx_view s' = rx_view s \<and> tx_view s' = tx_view s"
  proof (cases "isCurrent g s \<and> \<not> s_closed s")
    case False
    then show ?thesis using run ok by (auto simp: heartbeatStep_def isCurrent_def split: option.splits if_splits)
  next
    case True
    then obtain b where b: "current s = Some b" "b_gen b = g" by (auto simp: isCurrent_def split: option.splits)
    have bok: "bind_ok s b" using ok b by (auto simp: sess_ok_def life_ok_def)
    obtain probe det b1 s1 where hc: "heartbeatCheckLocked b now s = ((probe, det), b1, s1)"
      by (cases "heartbeatCheckLocked b now s") auto
    note h = heartbeatCheckLocked_ok [OF bok hc]
    let ?s2 = "s1\<lparr>current := Some b1\<rparr>"
    have v: "rx_view ?s2 = rx_view s" "tx_view ?s2 = tx_view s" "s_closed ?s2 = s_closed s" "s_done ?s2 = s_done s"
      by (subst h(3), simp add: rx_view_def tx_view_def)+
    have ok2: "sess_ok ?s2" using sess_ok_rebind [OF ok _ h(1) _ v] b by simp
    show ?thesis using run b True hc ok2 v(1,2) failBinding_ok [OF ok2]
      by (auto simp: heartbeatStep_def Let_def split: if_splits prod.splits)
  qed
  then show "sess_ok s'" "rx_view s' = rx_view s" "tx_view s' = tx_view s" by blast+
qed

lemma heartbeatSendResultLocked_ok:
  assumes ok: "sess_ok s" and run: "heartbeatSendResultLocked g started finished err s = (d, s')"
  shows "sess_ok s'" and "rx_view s' = rx_view s" and "tx_view s' = tx_view s"
proof -
  have v: "rx_view s' = rx_view s" "tx_view s' = tx_view s" "s_closed s' = s_closed s" "s_done s' = s_done s"
    using run by (auto simp: heartbeatSendResultLocked_def rx_view_def tx_view_def split: option.splits if_splits)
  then show "rx_view s' = rx_view s" "tx_view s' = tx_view s" by simp_all
  show "sess_ok s'"
  proof (cases "current s' = current s")
    case True
    then show ?thesis using ok sess_ok_view v by blast
  next
    case False
    then obtain b b' where b: "current s = Some b" "current s' = Some b'" and "bind_ok s b' = bind_ok s b"
      using run by (auto simp: heartbeatSendResultLocked_def Let_def split: option.splits if_splits)
    then have "bind_ok s b'" using ok by (simp add: sess_ok_def life_ok_def)
    then show ?thesis using sess_ok_rebind [OF ok _ _ b(2) v] b(1) by simp
  qed
qed

lemma heartbeatSent_ok:
  assumes ok: "sess_ok s" and run: "heartbeatSent g started finished err s = (r, eff, s')"
  shows "sess_ok s'" and "rx_view s' = rx_view s" and "tx_view s' = tx_view s"
proof -
  define st where "st = recordSendTime (finished - started) (s_stats s)"
  define s1 where "s1 = s\<lparr>s_stats := (if err = None then st\<lparr>st_heartbeatTX := st_heartbeatTX st + 1\<rparr> else st)\<rparr>"
  have v1: "rx_view s1 = rx_view s" "tx_view s1 = tx_view s" "sess_ok s1"
    using ok sess_ok_view [of s1 s] by (simp_all add: s1_def rx_view_def tx_view_def)
  obtain d s2 where h: "heartbeatSendResultLocked g started finished err s1 = (d, s2)" by fastforce
  note ho = heartbeatSendResultLocked_ok [OF v1(3) h]
  have "sess_ok s' \<and> rx_view s' = rx_view s2 \<and> tx_view s' = tx_view s2"
    using run h ho(1) failBinding_ok [OF ho(1)]
    by (auto simp: heartbeatSent_def Let_def simp flip: st_def s1_def split: option.splits if_splits prod.splits)
  then show "sess_ok s'" "rx_view s' = rx_view s" "tx_view s' = tx_view s" using ho v1 by auto
qed

lemma receiveStep_ok:
  assumes ok: "sess_ok s" and run: "receiveStep g ev now s = (go, eff, s')"
  shows "sess_ok s'" and "\<exists>s1. sess_ok s1 \<and> rx_view s' = rx_view s1 \<and> tx_view s' = tx_view s1
    \<and> (s1 = s \<or> (\<exists>packet. ev = RecvPacket packet \<and> packet_effect packet s s1))"
proof -
  have "sess_ok s' \<and> (\<exists>s1. sess_ok s1 \<and> rx_view s' = rx_view s1 \<and> tx_view s' = tx_view s1
    \<and> (s1 = s \<or> (\<exists>packet. ev = RecvPacket packet \<and> packet_effect packet s s1)))"
  proof (cases ev)
    case (CtxDone e)
    then show ?thesis using run ok by (auto simp: receiveStep_def)
  next
    case RecvClosed
    then obtain eff2 where "failBinding g now (ErrorText ''BLE receive channel closed'') s = (eff2, s')"
      using run by (auto simp: receiveStep_def split: prod.splits)
    then show ?thesis using failBinding_ok [OF ok] ok by blast
  next
    case (RecvPacket packet)
    obtain e eff1 s1 where h: "handlePacket g packet now s = (e, eff1, s1)" by (cases "handlePacket g packet now s")
    note ho = handlePacket_ok [OF ok h]
    have "sess_ok s' \<and> rx_view s' = rx_view s1 \<and> tx_view s' = tx_view s1"
      using run RecvPacket h ho(1) failBinding_ok [OF ho(1)]
      by (auto simp: receiveStep_def split: option.splits prod.splits)
    then show ?thesis using ho RecvPacket by blast
  qed
  then show "sess_ok s'" "\<exists>s1. sess_ok s1 \<and> rx_view s' = rx_view s1 \<and> tx_view s' = tx_view s1
    \<and> (s1 = s \<or> (\<exists>packet. ev = RecvPacket packet \<and> packet_effect packet s s1))" by blast+
qed

lemma NewSessionWithID_ok:
  assumes "ReplayWindow cfg < 2 ^ 63"
  shows "sess_ok (NewSessionWithID sid cfg)"
  using assms
  by (simp add: NewSessionWithID_def sess_ok_def rx_ok_def tx_ok_def life_ok_def pend_ok_def normalized_def
      DefaultReplayWindow_def maxFlightWindowPackets_def Let_def)

text \<open>The stored HELLO_ACK: kept, sent, or built anew from the current receive offset.\<close>

definition reply_step :: "Session \<Rightarrow> Session \<Rightarrow> bool" where
  "reply_step s s' \<longleftrightarrow> helloReply s' = helloReply s \<or> helloReply s' = []
     \<or> (\<exists>cfg mtu. helloReply s' = encodeHelloAck (rxNext s) cfg mtu)"

lemma reply_same [simp]: "reply_step s s"
  by (simp add: reply_step_def)

lemma reply_reconcile: "reconcilePeerLocked x s = (r, s1) \<Longrightarrow> helloReply s1 = helloReply s \<and> rxNext s1 = rxNext s"
  by (auto simp: reconcilePeerLocked_def signalLocked_def Let_def split: option.splits if_splits)

lemma reply_fail: "failBinding g at reason s = (eff, s') \<Longrightarrow> helloReply s' = helloReply s"
  by (auto simp: failBinding_def signalLocked_def split: option.splits if_splits)

lemma reply_close: "closeWithError err s = (eff, s') \<Longrightarrow> helloReply s' = helloReply s"
  by (auto simp: closeWithError_def signalLocked_def split: if_splits)

lemma reply_expire: "expireAfter at timeout now d s = (eff, s') \<Longrightarrow> helloReply s' = helloReply s"
  by (auto simp: expireAfter_def Let_def reply_close split: if_splits)

lemma reply_attach: "attach conn mtu now s = (e, eff, s') \<Longrightarrow> helloReply s' = helloReply s"
  by (auto simp: attach_def signalLocked_def Let_def split: if_splits)

lemma reply_negotiate: "helloReply (negotiateLocked peer s) = helloReply s" "rxNext (negotiateLocked peer s) = rxNext s"
  by (simp_all add: negotiateLocked_def Let_def)

lemma reply_Read: "Read n s = (r, s') \<Longrightarrow> helloReply s' = helloReply s"
  by (auto simp: Read_def signalLocked_def split: if_splits)

lemma reply_Write: "Write w p s = (w', out, s') \<Longrightarrow> helloReply s' = helloReply s"
proof (induction w p s arbitrary: w' rule: Write.induct)
  case (2 w x xs s)
  from "2.prems" show ?case
    by (subst (asm) Write.simps) (auto simp: Let_def signalLocked_def dest!: "2.IH" split: if_splits)
qed simp

lemma reply_BindServer: "BindServer conn hello sr now s = (e, eff, s') \<Longrightarrow> helloReply s' = helloReply s"
  by (auto simp: BindServer_def Let_def reply_negotiate
      dest!: reply_reconcile reply_attach split: if_splits option.splits prod.splits)

lemma reply_bindClientReply: "bindClientReply cfg conn reply now s = (e, eff, s') \<Longrightarrow> helloReply s' = helloReply s"
  by (auto simp: bindClientReply_def reply_negotiate
      dest!: reply_reconcile reply_attach split: if_splits option.splits prod.splits)

lemma reply_handleData:
  assumes "handleData packet now s = (e, s')"
  shows "helloReply s' = helloReply s"
proof (cases "len packet \<le> 9")
  case True
  with assms show ?thesis by (simp add: handleData_def)
next
  case False
  let ?s1 = "s\<lparr>s_stats := (s_stats s)\<lparr>st_dataRXPackets := st_dataRXPackets (s_stats s) + 1\<rparr>\<rparr>"
  obtain r s2 where acc: "acceptDataLocked (uint64_of (part packet 1 8)) (drop 9 packet) ?s1 = (r, s2)"
    by (cases "acceptDataLocked (uint64_of (part packet 1 8)) (drop 9 packet) ?s1")
  have "helloReply s2 = helloReply ?s1" by (subst acceptDataLocked_frame(1) [OF acc]) simp
  moreover have "helloReply (scheduleAck now a b c s2) = helloReply s2" for a b c
    by (simp add: scheduleAck_def Let_def)
  ultimately show ?thesis
    using handleData_run [OF False, of now s, unfolded acc] assms by (auto simp: signalLocked_def split: sum.splits)
qed

lemma reply_handleAck: "handleAck b packet now s = (e, s') \<Longrightarrow> helloReply s' = helloReply s"
  by (auto simp: handleAck_def handleAckLocked_def signalLocked_def Let_def dest!: reply_reconcile
      split: if_splits option.splits prod.splits)

lemma reply_renegotiate: "\<exists>cfg mtu. helloReply (renegotiate b packet c s) = encodeHelloAck (rxNext s) cfg mtu"
  by (simp add: renegotiate_def signalLocked_def reply_negotiate Let_def) blast

lemma reply_handleHello:
  assumes "handleHello b packet s = (e, s')"
  shows "reply_step s s'"
proof -
  obtain r s1 where rp: "reconcilePeerLocked (uint64_of (part packet 1 8)) s = (r, s1)" by fastforce
  have "s' = s \<or> s' = s1 \<or> (\<exists>c. s' = renegotiate b packet c s1)"
    using assms rp by (auto simp: handleHello_def Let_def split: if_splits option.splits)
  then show ?thesis using reply_reconcile [OF rp] reply_renegotiate [of b packet _ s1] by (auto simp: reply_step_def)
qed

lemma reply_dispatch:
  assumes "dispatchPacket b packet now s = (e, eff, s')"
  shows "reply_step s s'"
  using assms
  by (auto simp: dispatchPacket_def Let_def reply_step_def signalLocked_def split: if_splits prod.splits
      dest!: reply_handleData reply_handleAck dest: reply_handleHello)


lemma reply_handlePacket:
  assumes "handlePacket g packet now s = (e, eff, s')"
  shows "reply_step s s'"
proof (cases "s' = s")
  case False
  then obtain b where "dispatchPacket b packet now (s\<lparr>current := Some b\<rparr>) = (e, eff, s')"
    using assms by (auto simp: handlePacket_def Let_def split: if_splits option.splits)
  from reply_dispatch [OF this] show ?thesis by (simp add: reply_step_def)
qed simp

lemma reply_receiveStep:
  assumes "receiveStep g ev now s = (go, eff, s')"
  shows "reply_step s s'"
proof (cases ev)
  case (RecvPacket packet)
  obtain e eff1 s1 where h: "handlePacket g packet now s = (e, eff1, s1)" by (cases "handlePacket g packet now s")
  have "helloReply s' = helloReply s1"
    using assms RecvPacket h by (auto simp: receiveStep_def dest: reply_fail split: option.splits prod.splits)
  then show ?thesis using reply_handlePacket [OF h] by (simp add: reply_step_def)
qed (use assms in \<open>auto simp: receiveStep_def reply_step_def dest: reply_fail split: prod.splits\<close>)

lemma reply_nextPacket:
  assumes "nextPacketLocked b now s = (r, b', s')"
  shows "reply_step s s'"
proof -
  have "helloReply s1 = helloReply s" if "retransmitDue c now s = (b1, s1)" for c b1 s1
    using that by (auto simp: retransmitDue_def split: if_splits)
  moreover have "s2 = s1" if "nextDataLocked b1 now s1 = (r1, b2, s2)" for b1 s1 r1 b2 s2
    using that by (simp add: nextDataLocked_def Let_def split: if_splits option.splits)
  ultimately show ?thesis
    using assms by (fastforce simp: nextPacketLocked_def reply_step_def split: if_splits prod.splits)
qed

lemma reply_sendStep: "sendStep g now s = (r, s') \<Longrightarrow> reply_step s s'"
  by (auto simp: sendStep_def reply_step_def dest!: reply_nextPacket split: option.splits if_splits prod.splits)

lemma reply_sendDone: "sendDone g packet t0 t1 err s = (go, eff, s') \<Longrightarrow> helloReply s' = helloReply s"
  by (auto simp: sendDone_def sendFinished_def Let_def dest!: reply_fail split: option.splits prod.splits if_splits)

lemma reply_heartbeatStep: "heartbeatStep g now s = (r, eff, s') \<Longrightarrow> helloReply s' = helloReply s"
  by (auto simp: heartbeatStep_def heartbeatCheckLocked_def Let_def dest!: reply_fail
      split: option.splits prod.splits if_splits)

lemma reply_heartbeatSent: "heartbeatSent g t0 t1 err s = (r, eff, s') \<Longrightarrow> helloReply s' = helloReply s"
  by (auto simp: heartbeatSent_def heartbeatSendResultLocked_def Let_def dest!: reply_fail
      split: option.splits prod.splits if_splits)

section \<open>Binding keeps the data\<close>

text \<open>Binding a connection, on either side, changes nothing of the data a session holds, and does not close it.\<close>

definition same_stream :: "Session \<Rightarrow> Session \<Rightarrow> bool" where
  "same_stream s s' \<longleftrightarrow> s_id s' = s_id s \<and> rxBuf s' = rxBuf s \<and> rxNext s' = rxNext s \<and> txNext s' = txNext s
     \<and> s_done s' = s_done s \<and> s_closed s' = s_closed s"

lemma same_stream_refl [simp]: "same_stream s s"
  by (simp add: same_stream_def)

lemma same_stream_trans: "same_stream a b \<Longrightarrow> same_stream b c \<Longrightarrow> same_stream a c"
  by (simp add: same_stream_def)

lemma reconcile_same: "reconcilePeerLocked x s = (r, s') \<Longrightarrow> same_stream s s'"
  by (auto simp: reconcilePeerLocked_def signalLocked_def same_stream_def Let_def split: if_splits option.splits)

lemma negotiate_same: "same_stream s (negotiateLocked peer s)"
  by (simp add: negotiateLocked_def same_stream_def Let_def)

definition bound_to :: "PacketConn \<Rightarrow> Session \<Rightarrow> bool" where
  "bound_to conn s \<longleftrightarrow> \<not> s_closed s \<and> (\<exists>b. current s = Some b \<and> b_conn b = conn)"

lemma attach_same: "attach conn mtu now s = (e, eff, s') \<Longrightarrow> same_stream s s' \<and> (e = None \<longrightarrow> bound_to conn s')"
  by (auto simp: attach_def signalLocked_def same_stream_def bound_to_def Let_def split: if_splits)

lemma attach_after_negotiate:
  "same_stream s s1 \<Longrightarrow> attach conn mtu now (negotiateLocked peer s1) = (e, eff, s') \<Longrightarrow> same_stream s s' \<and> (e = None \<longrightarrow> bound_to conn s')"
  using attach_same [of conn mtu now "negotiateLocked peer s1" e eff s'] same_stream_trans [OF _ negotiate_same [of s1 peer], of s]
  by (auto intro: same_stream_trans)

lemma BindServer_keeps:
  assumes "BindServer conn hello sendResult now s = (e, eff, s')"
  shows "same_stream s s' \<and> (e = None \<longrightarrow> bound_to conn s')"
proof -
  obtain r s1 where rp: "reconcilePeerLocked (hello_ExpectedRemote hello) s = (r, s1)" by fastforce
  have s1: "same_stream s s1" by (rule reconcile_same [OF rp])
  consider (refused) "e \<noteq> None" "s' = s" | (offset) "e \<noteq> None" "s' = s1" | (sent) peer where "e \<noteq> None" "s' = negotiateLocked peer s1"
    | (bound) peer mtu eff' where "attach conn mtu now (negotiateLocked peer s1) = (e, eff', s')"
    using assms rp by (fastforce simp: BindServer_def Let_def split: if_splits option.splits prod.splits)
  then show ?thesis
  proof cases
    case (sent peer)
    then show ?thesis using same_stream_trans [OF s1 negotiate_same] by auto
  next
    case (bound peer mtu eff')
    then show ?thesis using attach_after_negotiate [OF s1] by blast
  qed (use s1 in auto)
qed

lemma bindClientReply_keeps:
  assumes "bindClientReply cfg conn reply now s = (e, eff, s')"
  shows "same_stream s s' \<and> (e = None \<longrightarrow> bound_to conn s')"
proof -
  obtain expected peer mtu where r: "reply = (expected, peer, mtu)" by (cases reply)
  obtain x s1 where rp: "reconcilePeerLocked expected s = (x, s1)" by fastforce
  have s1: "same_stream s s1" by (rule reconcile_same [OF rp])
  show ?thesis using assms s1 attach_after_negotiate [OF s1]
    by (auto simp: bindClientReply_def r rp split: if_splits option.splits)
qed

lemma BindClient_keeps:
  "BindClient (Some conn) es now s = Some (e, eff, s') \<Longrightarrow> same_stream s s' \<and> (e = None \<longrightarrow> bound_to conn s')"
  by (auto simp: BindClient_def split: sum.splits option.splits dest: bindClientReply_keeps)

lemma Close_conn: "bound_to conn s \<Longrightarrow> ConnClose conn \<in> set (fst (Close s))"
  by (auto simp: bound_to_def Close_def closeWithError_def Let_def)

end
