(* ===== verification/Reliable.thy ===== *)
theory Reliable
  imports Link_Session
begin

text \<open>
  Two link sessions and the air between them. Each side performs the operations of
  \<open>internal/link/session.go\<close> in any order; a packet that one side has handed to \<open>Send\<close> may reach the
  other side never, once or many times, in any order and over any later binding: the network is the
  set of all packets ever sent. Ghost state records what each side's application has written and
  read. In every reachable state the bytes read are a prefix of the bytes the other side has
  written, whatever is lost, repeated, reordered or resumed.
\<close>

section \<open>Operations of one side\<close>

text \<open>The packets that a list of effects sends.\<close>

fun sentBy :: "link_effect list \<Rightarrow> bytes set" where
  "sentBy [] = {}"
| "sentBy (ConnSend c pk # eff) = insert pk (sentBy eff)"
| "sentBy (e # eff) = sentBy eff"

text \<open>
  \<open>link_op P s wr rd N s'\<close>: one critical section takes the session from \<open>s\<close> to \<open>s'\<close>, the
  application writes \<open>wr\<close> or reads \<open>rd\<close>, and the packets \<open>N\<close> are sent. \<open>P\<close> are the packets of
  the peer.
\<close>

inductive link_op :: "bytes set \<Rightarrow> Session \<Rightarrow> bytes \<Rightarrow> bytes \<Rightarrow> bytes set \<Rightarrow> Session \<Rightarrow> bool" for P where
  op_write: "Write 0 p s = (k, out, s') \<Longrightarrow> link_op P s (take k p) [] {} s'"
| op_read: "Read n s = (r, s') \<Longrightarrow> link_op P s [] (case r of Some (Inr p) \<Rightarrow> p | _ \<Rightarrow> []) {} s'"
| op_send: "sendStep g now s = (r, s') \<Longrightarrow>
     link_op P s [] [] (case r of Some (Inr (Some pk)) \<Rightarrow> {pk} | _ \<Rightarrow> {}) s'"
| op_sent: "sendDone g pk t0 t1 err s = (go, eff, s') \<Longrightarrow> link_op P s [] [] (sentBy eff) s'"
| op_receive: "receiveStep g ev now s = (go, eff, s') \<Longrightarrow> (\<And>pk. ev = RecvPacket pk \<Longrightarrow> pk \<in> P) \<Longrightarrow>
     link_op P s [] [] {} s'"
| op_heartbeat: "heartbeatStep g now s = (r, eff, s') \<Longrightarrow> link_op P s [] [] (sentBy eff) s'"
| op_heartbeat_sent: "heartbeatSent g t0 t1 err s = (go, eff, s') \<Longrightarrow> link_op P s [] [] {} s'"
| op_hello: "bindClientHello conn s = Inr ((p1, p2), cfg) \<Longrightarrow> link_op P s [] [] {p1, p2} s"
| op_reply: "pk \<in> P \<Longrightarrow> decodeHelloAck pk = Inr reply \<Longrightarrow>
     bindClientReply cfg conn reply now s = (e, eff, s') \<Longrightarrow> link_op P s [] [] {} s'"
| op_bind_server: "pk \<in> P \<Longrightarrow> pk \<noteq> [] \<Longrightarrow> pk ! 0 = packetHello \<Longrightarrow> parseHello h pk = Inr hello \<Longrightarrow>
     BindServer conn hello res now s = (e, eff, s') \<Longrightarrow> link_op P s [] [] (sentBy eff) s'"
| op_close_err: "closeWithError err s = (eff, s') \<Longrightarrow> link_op P s [] [] {} s'"
| op_close: "Close s = (eff, s') \<Longrightarrow> link_op P s [] [] (sentBy eff) s'"
| op_expire: "expireAfter at timeout now doneFirst s = (eff, s') \<Longrightarrow> link_op P s [] [] {} s'"

section \<open>The system\<close>

datatype side = ClientSide | ServerSide

fun other :: "side \<Rightarrow> side" where
  "other ClientSide = ServerSide"
| "other ServerSide = ClientSide"

record world =
  w_sess :: "side \<Rightarrow> Session"
  w_written :: "side \<Rightarrow> bytes"
  w_read :: "side \<Rightarrow> bytes"
  w_net :: "side \<Rightarrow> bytes set"

definition world_init :: "Session \<Rightarrow> Session \<Rightarrow> world" where
  "world_init c s = \<lparr>w_sess = (\<lambda>a. if a = ClientSide then c else s), w_written = (\<lambda>a. []), w_read = (\<lambda>a. []),
     w_net = (\<lambda>a. {})\<rparr>"

inductive world_step :: "world \<Rightarrow> world \<Rightarrow> bool" where
  "link_op (w_net w (other a)) (w_sess w a) wr rd N s' \<Longrightarrow>
   world_step w (w\<lparr>w_sess := (w_sess w)(a := s'), w_written := (w_written w)(a := w_written w a @ wr),
     w_read := (w_read w)(a := w_read w a @ rd), w_net := (w_net w)(a := w_net w a \<union> N)\<rparr>)"

inductive world_reach :: "Session \<Rightarrow> Session \<Rightarrow> world \<Rightarrow> bool" for c s where
  reach_init: "world_reach c s (world_init c s)"
| reach_step: "world_reach c s w \<Longrightarrow> world_step w w' \<Longrightarrow> world_reach c s w'"

text \<open>Two fresh sessions of one session identifier, each with its own configuration.\<close>

definition link_reachable :: "SessionID \<Rightarrow> Config \<Rightarrow> Config \<Rightarrow> world \<Rightarrow> bool" where
  "link_reachable sid cfgC cfgS = world_reach (NewSessionWithID sid cfgC) (NewSessionWithID sid cfgS)"

section \<open>Invariant\<close>

definition sends :: "bytes \<Rightarrow> Session \<Rightarrow> bool" where
  "sends out s \<longleftrightarrow> unat (txNext s) = length out \<and> txBuf s = drop (unat (txBase s)) out"

definition receives :: "bytes \<Rightarrow> Session \<Rightarrow> bytes \<Rightarrow> bool" where
  "receives out s inp \<longleftrightarrow> unat (rxNext s) \<le> length out \<and> inp @ rxBuf s = take (unat (rxNext s)) out
     \<and> (\<forall>(q, p) \<in> set (rxPending s). frag_of out q p)"

text \<open>A DATA packet carries a fragment of the stream; every announced offset has been received.\<close>

definition carries :: "bytes \<Rightarrow> bytes \<Rightarrow> bool" where
  "carries out pk \<longleftrightarrow> (pk \<noteq> [] \<and> pk ! 0 = packetData \<and> 9 < length pk \<longrightarrow>
     frag_of out (uint64_of (part pk 1 8)) (drop 9 pk))"

definition announces :: "nat \<Rightarrow> bytes \<Rightarrow> bool" where
  "announces n pk \<longleftrightarrow>
     (pk \<noteq> [] \<and> (pk ! 0 = packetAck \<or> pk ! 0 = packetHello) \<longrightarrow> unat (uint64_of (part pk 1 8)) \<le> n)
     \<and> (\<forall>x cfg mtu. decodeHelloAck pk = Inr (x, cfg, mtu) \<longrightarrow> unat x \<le> n)"

definition reply_ok :: "Session \<Rightarrow> bool" where
  "reply_ok s \<longleftrightarrow> helloReply s = []
     \<or> (\<exists>x cfg mtu. helloReply s = encodeHelloAck x cfg mtu \<and> unat x \<le> unat (rxNext s))"

text \<open>
  One side: it sends \<open>out\<close>, has delivered a prefix \<open>inp\<close> of the peer's \<open>peer\<close>, and has dropped
  nothing beyond the offset \<open>n\<close> that the peer has received.
\<close>

definition side_ok :: "bytes \<Rightarrow> bytes \<Rightarrow> bytes \<Rightarrow> nat \<Rightarrow> Session \<Rightarrow> bool" where
  "side_ok out peer inp n s \<longleftrightarrow> sess_ok s \<and> reply_ok s \<and> sends out s \<and> receives peer s inp \<and> unat (txBase s) \<le> n"

definition net_ok :: "bytes \<Rightarrow> nat \<Rightarrow> bytes set \<Rightarrow> bool" where
  "net_ok out n N \<longleftrightarrow> (\<forall>pk \<in> N. carries out pk \<and> announces n pk)"

definition world_ok :: "world \<Rightarrow> bool" where
  "world_ok w \<longleftrightarrow> (\<forall>a.
     side_ok (w_written w a) (w_written w (other a)) (w_read w a) (unat (rxNext (w_sess w (other a)))) (w_sess w a)
     \<and> net_ok (w_written w a) (unat (rxNext (w_sess w a))) (w_net w a))"

section \<open>Packets\<close>

lemma frag_of_append: "frag_of out q p \<Longrightarrow> frag_of (out @ ext) q p"
  by (auto simp: frag_of_def part_append_left)

lemma carries_append: "carries out pk \<Longrightarrow> carries (out @ ext) pk"
  by (auto simp: carries_def frag_of_append)

lemma announces_mono: "announces n pk \<Longrightarrow> n \<le> m \<Longrightarrow> announces m pk"
  unfolding announces_def by (meson le_trans)

lemma net_ok_mono: "net_ok out n N \<Longrightarrow> n \<le> m \<Longrightarrow> net_ok (out @ ext) m N"
  unfolding net_ok_def using carries_append announces_mono by blast

lemma net_ok_union: "net_ok out n (M \<union> N) \<longleftrightarrow> net_ok out n M \<and> net_ok out n N"
  by (auto simp: net_ok_def)

lemma net_ok_insert: "net_ok out n (insert pk N) \<longleftrightarrow> carries out pk \<and> announces n pk \<and> net_ok out n N"
  by (auto simp: net_ok_def)

lemma net_ok_empty [simp]: "net_ok out n {}"
  by (simp add: net_ok_def)

text \<open>Packets that are neither DATA nor announce an offset.\<close>

lemma net_ok_plain:
  assumes "ty \<noteq> packetData" and "ty \<noteq> packetAck" and "ty \<noteq> packetHello" and "ty \<noteq> packetHelloAck"
  shows "carries out (ty # rest)" and "announces n (ty # rest)"
  using assms by (auto simp: carries_def announces_def decodeHelloAck_def Let_def)

lemma part_head: "part (ty # put_uint64 x @ rest) (Suc 0) 8 = put_uint64 x"
  by (simp add: part_def codec)

lemma ack_ok: "unat x \<le> n \<Longrightarrow> carries out (packetAck # put_uint64 x) \<and> announces n (packetAck # put_uint64 x)"
  using part_head [of packetAck x "[]"]
  by (auto simp: carries_def announces_def decodeHelloAck_def packet_types codec)

lemma hello_ok:
  assumes "unat x \<le> n" and "encodeHello sid x cfg mtu = (f, h)"
  shows "net_ok out n {f, h}"
proof -
  have f: "f = packetHelloID # Version # sid" using assms(2) by (simp add: encodeHello_def encodeHelloID_def)
  have h: "h = snd (encodeHello sid x cfg mtu)" using assms(2) by simp
  have "announces n h"
    using assms(1) hello_parts(1,2) [of sid x cfg mtu] h
    by (auto simp: announces_def decodeHelloAck_def packet_types codec)
  moreover have "carries out h" using hello_parts(1) [of sid x cfg mtu] h by (simp add: carries_def packet_types)
  ultimately show ?thesis
    using net_ok_plain [of packetHelloID] by (simp add: net_ok_insert f packet_types)
qed

lemma helloAck_ok:
  assumes "unat x \<le> n"
  shows "carries out (encodeHelloAck x cfg mtu) \<and> announces n (encodeHelloAck x cfg mtu)"
  using assms helloAck_parts(1,3) [of x cfg mtu]
  by (auto simp: carries_def announces_def packet_types decodeHelloAck_def codec Let_def split: if_splits)

lemma data_ok:
  assumes "frag_of out q p"
  shows "carries out (dataPacket q p) \<and> announces n (dataPacket q p)"
  using assms part_head [of packetData q p]
  by (auto simp: carries_def announces_def dataPacket_def decodeHelloAck_def packet_types codec)

section \<open>One side\<close>

lemma reply_ok_step:
  assumes "reply_ok s" and "reply_step s s'" and "unat (rxNext s) \<le> unat (rxNext s')"
  shows "reply_ok s'"
  using assms(2) [unfolded reply_step_def]
proof (elim disjE exE)
  assume "helloReply s' = helloReply s"
  then show ?thesis using assms(1,3) unfolding reply_ok_def by (metis le_trans)
qed (use assms(3) in \<open>auto simp: reply_ok_def\<close>)

lemma reply_keep: "helloReply s' = helloReply s \<Longrightarrow> reply_step s s'"
  by (simp add: reply_step_def)

lemma side_ok_view:
  assumes ok: "side_ok out peer inp n s" and "sess_ok s'" and rx: "rx_view s' = rx_view s" and tx: "tx_view s' = tx_view s"
    and "reply_step s s'"
  shows "side_ok out peer inp n s'"
proof -
  have "reply_ok s'" using ok assms(5) rx by (auto simp: side_ok_def rx_view_def intro: reply_ok_step)
  then show ?thesis
    using ok assms(2) rx tx by (simp add: side_ok_def sends_def receives_def rx_view_def tx_view_def)
qed

lemma side_ok_reconciled:
  assumes ok: "side_ok out peer inp n s" and rec: "reconciled x s s'" and "unat x \<le> n"
  shows "sends out s'" and "unat (txBase s') \<le> n"
proof -
  have "unat (max (txBase s) x) = max (unat (txBase s)) (unat x)" by (simp add: max_def word_le_nat_alt)
  then show "sends out s'" "unat (txBase s') \<le> n"
    using ok rec assms(3) by (auto simp: side_ok_def sends_def reconciled_def max_def)
qed

lemma side_ok_bind:
  assumes ok: "side_ok out peer inp n s" and "sess_ok s'" and bind: "bind_effect x s s'" and "unat x \<le> n"
    and "helloReply s' = helloReply s"
  shows "side_ok out peer inp n s'"
proof -
  have "sends out s' \<and> unat (txBase s') \<le> n"
    using bind side_ok_reconciled [OF ok _ assms(4)] ok by (auto simp: bind_effect_def side_ok_def sends_def tx_view_def)
  moreover have "receives peer s' inp \<and> reply_ok s'"
    using bind ok reply_ok_step [OF _ reply_keep [OF assms(5)]] by (auto simp: bind_effect_def side_ok_def receives_def rx_view_def)
  ultimately show ?thesis using assms(2) by (simp add: side_ok_def)
qed

lemma side_ok_packet:
  assumes ok: "side_ok out peer inp n s" and "sess_ok s'" and eff: "packet_effect pk s s'"
    and pk: "carries peer pk" "announces n pk" and "length peer < 2 ^ 64" and "reply_step s s'"
  shows "side_ok out peer inp n s' \<and> unat (rxNext s) \<le> unat (rxNext s')"
proof -
  from eff consider (same) "rx_view s' = rx_view s" "tx_view s' = tx_view s"
    | (data) s1 s2 r where "pk \<noteq> []" "pk ! 0 = packetData" "9 < length pk" "tx_view s' = tx_view s"
        "rx_view s1 = rx_view s" "rx_view s' = rx_view s2"
        "acceptDataLocked (uint64_of (part pk 1 8)) (drop 9 pk) s1 = (r, s2)"
    | (offset) "pk \<noteq> []" "pk ! 0 = packetAck \<or> pk ! 0 = packetHello" "rx_view s' = rx_view s"
        "reconciled (uint64_of (part pk 1 8)) s s'"
    unfolding packet_effect_def by blast
  then show ?thesis
  proof cases
    case same
    then show ?thesis using side_ok_view [OF ok assms(2) _ _ assms(7)] by (simp add: rx_view_def)
  next
    case (data s1 s2 r)
    note d = data(1-3) and tx = data(4) and v = data(5,6) and acc = data(7)
    have rx1: "rx_ok s1" using ok rx_ok_view [OF v(1)] by (simp add: side_ok_def sess_ok_def)
    have rec: "receives peer s1 inp" using ok v(1) by (simp add: side_ok_def receives_def rx_view_def)
    have ne: "drop 9 pk \<noteq> []" and fr: "frag_of peer (uint64_of (part pk 1 8)) (drop 9 pk)"
      using d pk(1) by (auto simp: carries_def)
    have pend: "\<forall>(q, p) \<in> set (rxPending s1). frag_of peer q p" using rec by (simp add: receives_def)
    note del = acceptDataLocked_delivers(1) [OF rx1 ne acc fr pend assms(6)]
    have mono: "unat (rxNext s1) \<le> unat (rxNext s2)" by (rule acceptDataLocked_ok(3) [OF rx1 ne acc])
    have "receives peer s2 inp"
      using del rec mono take_append_part [of "unat (rxNext s1)" peer "unat (rxNext s2) - unat (rxNext s1)"]
      by (auto simp: receives_def delivers_def simp flip: append_assoc)
    then have "receives peer s' inp" using v(2) by (simp add: receives_def rx_view_def)
    moreover have le: "unat (rxNext s) \<le> unat (rxNext s')" using mono v by (simp add: rx_view_def)
    moreover have "reply_ok s'" using ok assms(7) le by (auto simp: side_ok_def intro: reply_ok_step)
    ultimately show ?thesis using ok assms(2) tx by (simp add: side_ok_def sends_def tx_view_def)
  next
    case offset
    note rx = offset(3) and rec = offset(4)
    have "unat (uint64_of (part pk 1 8)) \<le> n" using offset pk(2) by (simp add: announces_def)
    note sr = side_ok_reconciled [OF ok rec this]
    have "reply_ok s'" "receives peer s' inp"
      using ok assms(7) rx by (auto simp: side_ok_def receives_def rx_view_def intro: reply_ok_step)
    then show ?thesis using sr assms(2) rx by (simp add: side_ok_def rx_view_def)
  qed
qed


lemma side_ok_write:
  assumes ok: "side_ok out peer inp n s" and run: "Write 0 p s = (k, o', s')"
  shows "side_ok (out @ take k p) peer inp n s' \<and> rxNext s' = rxNext s"
proof -
  have "sess_ok s" using ok by (simp add: side_ok_def)
  from Write_ok [OF run this] have w: "wrote (take k p) s s'" "sess_ok s'" by auto
  have "unat (txBase s) \<le> length out"
    using ok tx_range(1) [of s] by (auto simp: side_ok_def sess_ok_def sends_def word_le_nat_alt)
  then have "sends (out @ take k p) s'" using ok w(1) by (simp add: side_ok_def sends_def wrote_def)
  moreover have rx: "rx_view s' = rx_view s" and tb: "txBase s' = txBase s" using w(1) by (simp_all add: wrote_def)
  moreover have "reply_ok s'"
    using reply_ok_step [OF _ reply_keep [OF reply_Write [OF run]]] ok rx by (simp add: side_ok_def rx_view_def)
  ultimately show ?thesis using ok w(2) by (simp add: side_ok_def receives_def rx_view_def)
qed

lemma side_ok_read:
  assumes ok: "side_ok out peer inp n s" and run: "Read k s = (r, s')"
  shows "side_ok out peer (inp @ (case r of Some (Inr p) \<Rightarrow> p | _ \<Rightarrow> [])) n s' \<and> rxNext s' = rxNext s"
proof -
  let ?p = "case r of Some (Inr p) \<Rightarrow> p | _ \<Rightarrow> []"
  have "sess_ok s" using ok by (simp add: side_ok_def)
  note rd = Read_ok [OF this run]
  have "?p @ rxBuf s' = rxBuf s"
    using run by (auto simp: Read_def signalLocked_def split: if_splits)
  then have "receives peer s' (inp @ ?p)" using ok rd(3) by (simp add: side_ok_def receives_def rx_view_def)
  moreover have "rxNext s' = rxNext s" using rd(3) by (simp add: rx_view_def)
  moreover have "reply_ok s'"
    using reply_ok_step [OF _ reply_keep [OF reply_Read [OF run]]] ok \<open>rxNext s' = rxNext s\<close> by (simp add: side_ok_def)
  ultimately show ?thesis using ok rd(1,2) by (simp add: side_ok_def sends_def tx_view_def)
qed

text \<open>Every packet that \<open>sendLoop\<close> chooses is truthful.\<close>

lemma side_ok_send:
  assumes ok: "side_ok out peer inp n s" and run: "sendStep g now s = (r, s')"
  shows "side_ok out peer inp n s' \<and> rxNext s' = rxNext s"
    and "net_ok out (unat (rxNext s)) (case r of Some (Inr (Some pk)) \<Rightarrow> {pk} | _ \<Rightarrow> {})"
proof -
  have sok: "sess_ok s" using ok by (simp add: side_ok_def)
  note st = sendStep_ok [OF sok run]
  show "side_ok out peer inp n s' \<and> rxNext s' = rxNext s"
    using side_ok_view [OF ok st(1-3) reply_sendStep [OF run]] st(2) by (simp add: rx_view_def)
  have data: "frag_of out q p" if q: "txBase s \<le> q" "unat q + length p \<le> unat (txNext s)"
      "p = part (txBuf s) (unat q - unat (txBase s)) (length p)" for q p
  proof -
    have "unat q + length p \<le> length out" using q(2) ok by (simp add: side_ok_def sends_def)
    moreover have "p = part out (unat q) (length p)"
      using q(1,3) ok by (simp add: side_ok_def sends_def part_drop word_le_nat_alt)
    ultimately show ?thesis by (simp add: frag_of_def)
  qed
  from st(5) show "net_ok out (unat (rxNext s)) (case r of Some (Inr (Some pk)) \<Rightarrow> {pk} | _ \<Rightarrow> {})"
  proof (elim disjE conjE exE)
    assume "helloReply s \<noteq> []" "r = Some (Inr (Some (helloReply s)))"
    then show ?thesis using ok helloAck_ok by (auto simp: side_ok_def reply_ok_def net_ok_insert)
  next
    assume "r = Some (Inr (Some ([packetAck] @ put_uint64 (rxNext s))))"
    then show ?thesis using ack_ok [of "rxNext s" "unat (rxNext s)" out] by (simp add: net_ok_insert)
  next
    fix q p
    assume r: "r = Some (Inr (Some (dataPacket q p)))" and d: "txBase s \<le> q" "unat q + length p \<le> unat (txNext s)"
      "p = part (txBuf s) (unat q - unat (txBase s)) (length p)"
    show ?thesis using r data_ok [OF data [OF d], of "unat (rxNext s)"] by (simp add: net_ok_insert)
  qed (use net_ok_plain [of packetPong] in \<open>simp_all add: net_ok_insert packet_types\<close>)
qed

section \<open>The system invariant\<close>

lemma sentBy_simps [simp]: "sentBy (e1 @ e2) = sentBy e1 \<union> sentBy e2"
  by (induction e1 rule: sentBy.induct) auto

lemma sentBy_fail: "failBinding g at reason s = (eff, s') \<Longrightarrow> sentBy eff = {}"
  by (auto simp: failBinding_def split: option.splits if_splits)

lemma sentBy_close: "closeWithError err s = (eff, s') \<Longrightarrow> sentBy eff = {}"
  by (auto simp: closeWithError_def split: option.splits if_splits)

lemma sentBy_attach: "attach conn mtu now s = (e, eff, s') \<Longrightarrow> sentBy eff = {}"
  by (auto simp: attach_def Let_def split: option.splits if_splits)

lemma sentBy_sendDone: "sendDone g pk t0 t1 err s = (go, eff, s') \<Longrightarrow> sentBy eff = {}"
  by (auto simp: sendDone_def Let_def dest: sentBy_fail split: option.splits prod.splits)

lemma sentBy_heartbeat: "heartbeatStep g now s = (r, eff, s') \<Longrightarrow> sentBy eff \<subseteq> {[packetPing]}"
  by (auto simp: heartbeatStep_def Let_def dest: sentBy_fail split: option.splits if_splits prod.splits)

lemma sentBy_BindServer:
  assumes "BindServer conn hello res now s = (e, eff, s')"
  shows "\<exists>cfg mtu. sentBy eff \<subseteq> {encodeHelloAck (rxNext s) cfg mtu}"
proof -
  obtain r s1 where rp: "reconcilePeerLocked (hello_ExpectedRemote hello) s = (r, s1)" by fastforce
  note rr = reply_reconcile [OF rp]
  show ?thesis
    using assms rp rr
    by (auto simp: BindServer_def Let_def reply_negotiate dest!: sentBy_attach
        split: if_splits option.splits prod.splits; blast)
qed

lemma sentBy_Close: "Close s = (eff, s') \<Longrightarrow> sentBy eff \<subseteq> {[packetClose]}"
  by (auto simp: Close_def Let_def dest: sentBy_close split: option.splits prod.splits)

lemma parseHello_expected: "parseHello h pk = Inr hello \<Longrightarrow> hello_ExpectedRemote hello = uint64_of (part pk 1 8)"
  by (auto simp: parseHello_def Let_def split: if_splits)

lemma net_ok_subset: "net_ok out n N \<Longrightarrow> M \<subseteq> N \<Longrightarrow> net_ok out n M"
  by (auto simp: net_ok_def)

text \<open>Every operation keeps what one side promises, and sends only truthful packets.\<close>

lemma link_op_ok:
  assumes op: "link_op P s wr rd N s'" and ok: "side_ok out peer inp n s" and P: "net_ok peer n P" and "length peer < 2 ^ 64"
  shows "side_ok (out @ wr) peer (inp @ rd) n s' \<and> unat (rxNext s) \<le> unat (rxNext s') \<and> net_ok (out @ wr) (unat (rxNext s')) N"
proof -
  have sok: "sess_ok s" using ok by (simp add: side_ok_def)
  have quiet: ?thesis if "wr = []" "rd = []" "sess_ok s'" "rx_view s' = rx_view s" "tx_view s' = tx_view s"
      "helloReply s' = helloReply s" "net_ok out (unat (rxNext s)) N"
    using side_ok_view [OF ok that(3-5) reply_keep [OF that(6)]] that by (simp add: rx_view_def)
  show ?thesis using op
  proof cases
    case (op_write p k out')
    then show ?thesis using side_ok_write [OF ok op_write(4)] by simp
  next
    case (op_read k r)
    then show ?thesis using side_ok_read [OF ok op_read(4)] by simp
  next
    case (op_send g now r)
    then show ?thesis using side_ok_send [OF ok op_send(4)] by simp
  next
    case (op_sent g pk t0 t1 err go eff)
    show ?thesis
      by (rule quiet [OF op_sent(1,2) sendDone_ok(1-3) [OF sok op_sent(4)] reply_sendDone [OF op_sent(4)]])
        (simp add: op_sent(3) sentBy_sendDone [OF op_sent(4)])
  next
    case (op_receive g ev now go eff)
    obtain s1 where s1: "sess_ok s1" "rx_view s' = rx_view s1" "tx_view s' = tx_view s1"
        "s1 = s \<or> (\<exists>packet. ev = RecvPacket packet \<and> packet_effect packet s s1)"
      using receiveStep_ok(2) [OF sok op_receive(4)] by blast
    have eff: "packet_effect packet s s'" if "packet_effect packet s s1" for packet
      using that s1(2,3) by (simp add: packet_effect_def reconciled_def tx_view_def)
    note rs = reply_receiveStep [OF op_receive(4)] and ok' = receiveStep_ok(1) [OF sok op_receive(4)]
    show ?thesis
    proof (cases "s1 = s")
      case True
      then show ?thesis using side_ok_view [OF ok ok' _ _ rs] s1(2,3) op_receive by (simp add: rx_view_def)
    next
      case False
      then obtain packet where pk: "ev = RecvPacket packet" "packet_effect packet s s1" using s1(4) by blast
      then have "packet \<in> P" using op_receive(5) by blast
      then show ?thesis
        using side_ok_packet [OF ok ok' eff [OF pk(2)] _ _ assms(4) rs] P op_receive by (simp add: net_ok_def)
    qed
  next
    case (op_heartbeat g now r eff)
    have "net_ok out (unat (rxNext s)) {[packetPing]}" using net_ok_plain [of packetPing] by (simp add: net_ok_insert packet_types)
    then have "net_ok out (unat (rxNext s)) N"
      using sentBy_heartbeat [OF op_heartbeat(4)] op_heartbeat(3) net_ok_subset by blast
    then show ?thesis
      by (rule quiet [OF op_heartbeat(1,2) heartbeatStep_ok(1-3) [OF sok op_heartbeat(4)] reply_heartbeatStep [OF op_heartbeat(4)]])
  next
    case (op_heartbeat_sent g t0 t1 err go eff)
    show ?thesis
      by (rule quiet [OF op_heartbeat_sent(1,2) heartbeatSent_ok(1-3) [OF sok op_heartbeat_sent(4)] reply_heartbeatSent [OF op_heartbeat_sent(4)]])
        (simp add: op_heartbeat_sent(3))
  next
    case (op_hello conn p1 p2 cfg)
    then have "net_ok out (unat (rxNext s)) N"
      using hello_ok [of "rxNext s" "unat (rxNext s)" "s_id s" "s_config s" "conn_MTU conn" p1 p2 out]
      by (auto simp: bindClientHello_def split: if_splits)
    then show ?thesis using ok op_hello by simp
  next
    case (op_reply pk reply cfg conn now e eff)
    obtain x pc m where r: "reply = (x, pc, m)" by (cases reply)
    have "unat x \<le> n" using P op_reply(4,5) r by (auto simp: net_ok_def announces_def)
    note b = bindClientReply_ok [OF sok op_reply(6) [unfolded r]]
    have "side_ok out peer inp n s'" using side_ok_bind [OF ok b \<open>unat x \<le> n\<close>] reply_bindClientReply [OF op_reply(6)] by blast
    moreover have "rxNext s' = rxNext s" using b(2) by (auto simp: bind_effect_def rx_view_def)
    ultimately show ?thesis using op_reply by simp
  next
    case (op_bind_server pk h hello conn res now e eff)
    have "announces n pk" using P op_bind_server(4) by (simp add: net_ok_def)
    then have x: "unat (hello_ExpectedRemote hello) \<le> n"
      using op_bind_server(5,6) parseHello_expected [OF op_bind_server(7)] by (simp add: announces_def)
    note b = BindServer_ok [OF sok op_bind_server(8)]
    have "side_ok out peer inp n s'" using side_ok_bind [OF ok b x reply_BindServer [OF op_bind_server(8)]] .
    moreover have rx: "rxNext s' = rxNext s" using b(2) by (auto simp: bind_effect_def rx_view_def)
    moreover obtain c m where sub: "sentBy eff \<subseteq> {encodeHelloAck (rxNext s) c m}"
      using sentBy_BindServer [OF op_bind_server(8)] by blast
    have "net_ok out (unat (rxNext s')) {encodeHelloAck (rxNext s) c m}"
      using rx helloAck_ok [of "rxNext s" "unat (rxNext s)" out c m] by (simp add: net_ok_insert)
    then have "net_ok out (unat (rxNext s')) N"
      unfolding op_bind_server(3) using sub by (rule net_ok_subset)
    ultimately show ?thesis using op_bind_server(1,2) by simp
  next
    case (op_close_err err eff)
    show ?thesis
      by (rule quiet [OF op_close_err(1,2) closeWithError_ok(1-3) [OF sok op_close_err(4)] reply_close [OF op_close_err(4)]])
        (simp add: op_close_err(3))
  next
    case (op_close eff)
    then obtain eff1 where c: "closeWithError (Sentinel EOF) s = (eff1, s')" by (auto simp: Close_def Let_def split: prod.splits)
    have "net_ok out (unat (rxNext s)) {[packetClose]}" using net_ok_plain [of packetClose] by (simp add: net_ok_insert packet_types)
    then have "net_ok out (unat (rxNext s)) N"
      using sentBy_Close [OF op_close(4)] op_close(3) net_ok_subset by blast
    then show ?thesis by (rule quiet [OF op_close(1,2) closeWithError_ok(1-3) [OF sok c] reply_close [OF c]])
  next
    case (op_expire at timeout now doneFirst eff)
    show ?thesis
      by (rule quiet [OF op_expire(1,2) expireAfter_ok(1-3) [OF sok op_expire(4)] reply_expire [OF op_expire(4)]])
        (simp add: op_expire(3))
  qed
qed

lemma other_other [simp]: "other (other a) = a" "other a \<noteq> a" "a \<noteq> other a"
  by (cases a; simp)+

lemma side_ok_mono:
  assumes "side_ok out peer inp n s" and "n \<le> m"
  shows "side_ok out (peer @ ext) inp m s"
  using assms frag_of_append by (fastforce simp: side_ok_def receives_def)

lemma world_step_ok:
  assumes "world_step w w'" and "world_ok w"
  shows "world_ok w'"
  using assms(1)
proof cases
  case (1 a wr rd N s')
  let ?b = "other a"
  have A: "side_ok (w_written w a) (w_written w ?b) (w_read w a) (unat (rxNext (w_sess w ?b))) (w_sess w a)"
    and NA: "net_ok (w_written w a) (unat (rxNext (w_sess w a))) (w_net w a)"
    and B: "side_ok (w_written w ?b) (w_written w a) (w_read w ?b) (unat (rxNext (w_sess w a))) (w_sess w ?b)"
    and NB: "net_ok (w_written w ?b) (unat (rxNext (w_sess w ?b))) (w_net w ?b)"
    using assms(2) spec [of _ ?b] spec [of _ a] unfolding world_ok_def by (metis other_other(1))+
  have "unat (txNext (w_sess w ?b)) = length (w_written w ?b)" using B by (simp add: side_ok_def sends_def)
  then have "length (w_written w ?b) < 2 ^ 64" using unat_less_pow [of "txNext (w_sess w ?b)"] by simp
  note op = link_op_ok [OF 1(2) A NB this]
  have A': "side_ok (w_written w' a) (w_written w' ?b) (w_read w' a) (unat (rxNext (w_sess w' ?b))) (w_sess w' a)"
    using op 1(1) by simp
  have NA': "net_ok (w_written w' a) (unat (rxNext (w_sess w' a))) (w_net w' a)"
    using op net_ok_mono [OF NA] 1(1) by (simp add: net_ok_union)
  have B': "side_ok (w_written w' ?b) (w_written w' a) (w_read w' ?b) (unat (rxNext (w_sess w' a))) (w_sess w' ?b)"
    using side_ok_mono [OF B] op 1(1) by simp
  have NB': "net_ok (w_written w' ?b) (unat (rxNext (w_sess w' ?b))) (w_net w' ?b)"
    using NB 1(1) by simp
  show ?thesis
    unfolding world_ok_def
  proof
    fix c
    have "c = a \<or> c = ?b" by (cases a; cases c) auto
    then show "side_ok (w_written w' c) (w_written w' (other c)) (w_read w' c) (unat (rxNext (w_sess w' (other c)))) (w_sess w' c)
      \<and> net_ok (w_written w' c) (unat (rxNext (w_sess w' c))) (w_net w' c)"
      using A' NA' B' NB' by auto
  qed
qed

lemma world_init_ok:
  assumes "ReplayWindow cfgC < 2 ^ 63" and "ReplayWindow cfgS < 2 ^ 63"
  shows "world_ok (world_init (NewSessionWithID sid cfgC) (NewSessionWithID sid cfgS))"
  using NewSessionWithID_ok [OF assms(1), of sid] NewSessionWithID_ok [OF assms(2), of sid]
  by (simp add: world_ok_def world_init_def side_ok_def sends_def receives_def reply_ok_def NewSessionWithID_def)

lemma reachable_ok:
  assumes "link_reachable sid cfgC cfgS w" and "ReplayWindow cfgC < 2 ^ 63" and "ReplayWindow cfgS < 2 ^ 63"
  shows "world_ok w"
  using assms(1) unfolding link_reachable_def
  by (induction rule: world_reach.induct) (use world_init_ok [OF assms(2,3)] world_step_ok in auto)

section \<open>A concrete run\<close>

text \<open>
  A client and a server bind, the client writes three bytes, one DATA packet crosses and the
  server reads. The states are used by the witnesses.
\<close>

definition demo_id :: SessionID where "demo_id = replicate 16 7"
definition demo_cfg :: Config where
  "demo_cfg = \<lparr>ResumeTimeout = 60000000000, ReplayWindow = 1048576, MaxConnections = 32, Compression = False\<rparr>"
definition demo_conn :: PacketConn where "demo_conn = \<lparr>conn_ref = 1, conn_MTU = 100\<rparr>"
definition demo_new :: Session where "demo_new = NewSessionWithID demo_id emptyConfig"
definition demo_binding :: binding where
  "demo_binding = \<lparr>b_conn = demo_conn, b_gen = 1, b_mtu = 100, b_lastRX = 1, b_lastTX = 1, b_lastHeartbeat = 0,
     b_heartbeatPending = False, b_heartbeatSentAt = 1, b_heartbeatFailures = 0, b_sendNext = 0,
     b_retransmitAt = 0, b_duplicateACK = 0, b_flightPackets = 8\<rparr>"
definition demo_bound :: Session where
  "demo_bound = demo_new\<lparr>bindGen := 1, current := Some demo_binding, s_notify := 1\<rparr>"
definition demo_hello :: Hello where
  "demo_hello = \<lparr>hello_ID = demo_id, hello_ExpectedRemote = 0, hello_ResumeTimeout = 60000000000,
     hello_MaxConnections = 32, hello_AdvertisedPacketMTU = 100, hello_Compression = False\<rparr>"
definition demo_ack :: bytes where "demo_ack = encodeHelloAck 0 demo_cfg 100"
definition demo_written :: Session where
  "demo_written = demo_bound\<lparr>txBuf := [1, 2, 3], txNext := 3, s_notify := 2\<rparr>"
definition demo_packet :: bytes where "demo_packet = dataPacket 0 [1, 2, 3]"

lemma demo_new_fields:
  "demo_new = \<lparr>s_id = demo_id, s_config = demo_cfg, txBase = 0, txNext = 0, txBuf = [], rxNext = 0,
      rxBuf = [], rxPending = [], rxPendingBytes = 0, current = None, bindGen = 0, detachedAt = 0,
      ackDirty = False, ackPackets = 0, ackDeadline = 0, pongDirty = False, helloReply = [],
      pendingHelloID = replicate 16 0, havePendingHello = False, s_stats = zeroStats,
      readDeadline = 0, writeDeadline = 0, s_notify = 0, s_done = False, s_closed = False,
      s_err = None, detachCount = 0, lastDetachReason = ''''\<rparr>"
  by (simp add: demo_new_def demo_cfg_def NewSessionWithID_def normalized_def emptyConfig_def DefaultReplayWindow_def
      DefaultResumeTimeout_def DefaultMaxConnections_def second_def millisecond_def Let_def)

lemmas demo_simps = demo_bound_def demo_written_def demo_binding_def demo_conn_def demo_new_fields demo_cfg_def

lemma demo_parse:
  "parseHello (emptyHello\<lparr>hello_ID := demo_id\<rparr>) (snd (encodeHello demo_id 0 demo_cfg 100)) = Inr demo_hello"
  by (simp add: demo_hello_def parseHello_encodeHello demo_cfg_def emptyHello_def normalizeMTU_def minimumPacketMTU_def
      durationMilliseconds_uint sdiv_millisecond millisecond_def)

lemma demo_decode: "decodeHelloAck demo_ack = Inr (0, demo_cfg\<lparr>ReplayWindow := 0\<rparr>, 100)"
  by (simp add: demo_ack_def decodeHelloAck_encodeHelloAck demo_cfg_def normalizeMTU_def minimumPacketMTU_def
      durationMilliseconds_uint sdiv_millisecond millisecond_def)

lemma demo_attach: "attach demo_conn 100 1 demo_new = (None, [StartLoops 1], demo_bound)"
  by (simp add: attach_def demo_simps signalLocked_def normalizeMTU_def minimumPacketMTU_def flight_consts Let_def)

lemma demo_negotiate:
  "negotiateLocked \<lparr>ResumeTimeout = 60000000000, ReplayWindow = 0, MaxConnections = 32, Compression = False\<rparr> demo_new = demo_new"
  by (simp add: negotiateLocked_def demo_simps emptyConfig_def Let_def)

lemma demo_reconcile: "reconcilePeerLocked 0 demo_new = (None, demo_new)"
  by (simp add: reconcilePeerLocked_def validatePeerExpected_def demo_simps)

lemma demo_facts:
  "s_id demo_new = demo_id" "s_closed demo_new = False" "rxNext demo_new = 0" "s_config demo_new = demo_cfg"
  "Compression demo_cfg = False" "conn_MTU demo_conn = 100" "normalizeMTU 100 = 100"
  by (simp_all add: demo_simps normalizeMTU_def minimumPacketMTU_def)

lemma demo_BindServer:
  "BindServer demo_conn demo_hello None 1 demo_new = (None, [ConnSend demo_conn demo_ack, StartLoops 1], demo_bound)"
  by (simp add: BindServer_def demo_hello_def Matches_def demo_facts demo_reconcile demo_negotiate demo_attach demo_ack_def
      emptyConfig_def Let_def)

lemma demo_bindClientReply:
  "bindClientReply demo_cfg demo_conn (0, demo_cfg\<lparr>ReplayWindow := 0\<rparr>, 100) 1 demo_new = (None, [StartLoops 1], demo_bound)"
proof -
  have "demo_cfg\<lparr>ReplayWindow := 0\<rparr>
    = \<lparr>ResumeTimeout = 60000000000, ReplayWindow = 0, MaxConnections = 32, Compression = False\<rparr>"
    by (simp add: demo_cfg_def)
  then show ?thesis
    by (simp add: bindClientReply_def demo_facts demo_reconcile demo_negotiate demo_attach)
qed

lemma demo_Write: "Write 0 [1, 2, 3] demo_bound = (3, WriteDone, demo_written)"
  by (simp add: Write.simps writeSpace_def demo_simps liveWriteWindow_def signalLocked_def Let_def)

lemma demo_sendStep: "\<exists>c. sendStep 1 2 demo_written = (Some (Inr (Some demo_packet)), c)"
  by (simp add: sendStep_def nextPacketLocked_def demo_simps resetCursor_def retransmitDue_def nextDataLocked_def
      flight_consts go_slice_int_def go_slice_def demo_packet_def dataPacket_def Let_def)

lemma demo_receiveStep: "\<exists>eff s. receiveStep 1 (RecvPacket demo_packet) 3 demo_bound = (True, eff, s) \<and> rxBuf s = [1, 2, 3]"
  by (simp add: receiveStep_def handlePacket_def dispatchPacket_def handleData_def acceptDataLocked_def deliverInOrder_def
      drainPending.simps demo_simps demo_packet_def dataPacket_def scheduleAck_def signalLocked_def part_def codec packet_types Let_def)

lemma reach_op:
  assumes "world_reach c s w" and "link_op (w_net w (other a)) (w_sess w a) wr rd N s'"
  shows "world_reach c s (w\<lparr>w_sess := (w_sess w)(a := s'), w_written := (w_written w)(a := w_written w a @ wr),
     w_read := (w_read w)(a := w_read w a @ rd), w_net := (w_net w)(a := w_net w a \<union> N)\<rparr>)"
  using assms by (intro reach_step [OF assms(1)] world_step.intros)

lemma demo_run_bound:
  "\<exists>w. link_reachable demo_id emptyConfig emptyConfig w \<and> w_sess w = (\<lambda>a. demo_bound) \<and> w_written w = (\<lambda>a. []) \<and> w_read w = (\<lambda>a. [])"
proof -
  let ?reach = "world_reach demo_new demo_new"
  define w0 where "w0 = world_init demo_new demo_new"
  have r0: "?reach w0" unfolding w0_def by (rule reach_init)
  obtain p1 p2 where h: "encodeHello demo_id 0 demo_cfg 100 = (p1, p2)" by fastforce
  have "bindClientHello demo_conn demo_new = Inr ((p1, p2), demo_cfg)"
    by (simp add: bindClientHello_def demo_facts h)
  note reach_op [OF r0, of ClientSide, simplified w0_def world_init_def, simplified, OF link_op.op_hello [OF this]]
  then obtain w1 where r1: "?reach w1" and w1: "w_sess w1 = (\<lambda>a. demo_new)" "w_written w1 = (\<lambda>a. [])" "w_read w1 = (\<lambda>a. [])"
      "p2 \<in> w_net w1 ClientSide"
    by (fastforce simp: fun_eq_iff)
  have p2: "p2 \<noteq> []" "p2 ! 0 = packetHello" "parseHello (emptyHello\<lparr>hello_ID := demo_id\<rparr>) p2 = Inr demo_hello"
    using h demo_parse by (auto simp: encodeHello_def)
  have "link_op (w_net w1 (other ServerSide)) (w_sess w1 ServerSide) [] [] (sentBy [ConnSend demo_conn demo_ack, StartLoops 1]) demo_bound"
    using w1 p2 demo_BindServer by (intro link_op.op_bind_server [of p2]) auto
  from reach_op [OF r1 this] obtain w2 where r2: "?reach w2" and w2: "w_sess w2 ServerSide = demo_bound" "w_sess w2 ClientSide = demo_new"
      "w_written w2 = (\<lambda>a. [])" "w_read w2 = (\<lambda>a. [])" "demo_ack \<in> w_net w2 ServerSide"
    using w1 by (fastforce simp: fun_eq_iff)
  have "link_op (w_net w2 (other ClientSide)) (w_sess w2 ClientSide) [] [] {} demo_bound"
    using w2 demo_decode demo_bindClientReply by (intro link_op.op_reply [of demo_ack]) auto
  from reach_op [OF r2 this] obtain w3 where r3: "?reach w3" and w3: "w_sess w3 ServerSide = demo_bound" "w_sess w3 ClientSide = demo_bound"
      "w_written w3 = (\<lambda>a. [])" "w_read w3 = (\<lambda>a. [])"
    using w2 by (fastforce simp: fun_eq_iff)
  have "w_sess w3 a = demo_bound" for a using w3(1,2) by (cases a) simp_all
  then show ?thesis using r3 w3(3,4) by (auto simp: link_reachable_def demo_new_def fun_eq_iff)
qed

lemma demo_run_written:
  "\<exists>w. link_reachable demo_id emptyConfig emptyConfig w \<and> w_sess w ServerSide = demo_bound
     \<and> w_sess w ClientSide = demo_written \<and> w_written w ClientSide = [1, 2, 3] \<and> w_read w ServerSide = []"
proof -
  obtain w3 where r3: "world_reach demo_new demo_new w3" and w3: "w_sess w3 ServerSide = demo_bound" "w_sess w3 ClientSide = demo_bound"
      "w_written w3 ClientSide = []" "w_read w3 = (\<lambda>a. [])"
    using demo_run_bound by (auto simp: link_reachable_def demo_new_def)
  let ?reach = "world_reach demo_new demo_new"
  have "link_op (w_net w3 (other ClientSide)) (w_sess w3 ClientSide) (take 3 [1, 2, 3]) [] {} demo_written"
    using w3 demo_Write by (intro link_op.op_write) auto
  from reach_op [OF r3 this] obtain w4 where r4: "?reach w4" and w4: "w_sess w4 ServerSide = demo_bound" "w_sess w4 ClientSide = demo_written"
      "w_written w4 ClientSide = [1, 2, 3]" "w_read w4 ServerSide = []"
    using w3 by fastforce
  then show ?thesis by (auto simp: link_reachable_def demo_new_def)
qed

lemma demo_run:
  "\<exists>w. link_reachable demo_id emptyConfig emptyConfig w \<and> w_sess w ServerSide = demo_bound
     \<and> w_written w ClientSide = [1, 2, 3] \<and> demo_packet \<in> w_net w ClientSide \<and> w_read w ServerSide = []"
proof -
  obtain w where w: "link_reachable demo_id emptyConfig emptyConfig w" "w_sess w ServerSide = demo_bound"
      "w_sess w ClientSide = demo_written" "w_written w ClientSide = [1, 2, 3]" "w_read w ServerSide = []"
    using demo_run_written by blast
  obtain c where c: "sendStep 1 2 demo_written = (Some (Inr (Some demo_packet)), c)" using demo_sendStep by blast
  have "link_op (w_net w (other ClientSide)) (w_sess w ClientSide) [] [] {demo_packet} c"
    using link_op.op_send [OF c, of "w_net w (other ClientSide)"] w by simp
  from reach_op [OF w(1) [unfolded link_reachable_def] this] show ?thesis
    using w by (fastforce simp: link_reachable_def)
qed

section \<open>Properties\<close>

lemma handleData_truthful:
  assumes ok: "side_ok out peer inp n s" and pk: "carries peer pk" "pk ! 0 = packetData" "9 < length pk"
    and "length peer < 2 ^ 64" and v: "rx_view s0 = rx_view s" and run: "handleData pk now s0 = (e, s')"
  shows "e = None"
proof -
  define s1 where "s1 = s0\<lparr>s_stats := (s_stats s0)\<lparr>st_dataRXPackets := st_dataRXPackets (s_stats s0) + 1\<rparr>\<rparr>"
  have v1: "rx_view s1 = rx_view s" using v by (simp add: s1_def rx_view_def)
  have rx1: "rx_ok s1" using ok rx_ok_view [OF v1] by (simp add: side_ok_def sess_ok_def)
  have long: "\<not> len pk \<le> 9" using pk(3) by simp
  obtain r s2 where acc: "acceptDataLocked (uint64_of (part pk 1 8)) (drop 9 pk) s1 = (r, s2)"
    by (cases "acceptDataLocked (uint64_of (part pk 1 8)) (drop 9 pk) s1")
  have "drop 9 pk \<noteq> []" "frag_of peer (uint64_of (part pk 1 8)) (drop 9 pk)"
    using pk by (auto simp: carries_def)
  moreover have "\<forall>(q, p) \<in> set (rxPending s1). frag_of peer q p"
    using ok v1 by (simp add: side_ok_def receives_def rx_view_def)
  ultimately obtain a b c where "r = Inr (a, b, c)"
    using acceptDataLocked_delivers(2) [OF rx1 _ acc] assms(5) by blast
  then show ?thesis using handleData_run [OF long, of now s0, folded s1_def, unfolded acc] run by simp
qed

lemma handleAck_truthful:
  assumes ok: "side_ok out peer inp n s" and pk: "announces n pk" "pk \<noteq> []" "pk ! 0 = packetAck" "length pk = 9"
    and "n \<le> length out" and v: "tx_view s0 = tx_view s" and b: "bind_ok s b" and run: "handleAck b pk now s0 = (e, s')"
  shows "e = None"
proof -
  let ?x = "uint64_of (part pk 1 8)"
  have "unat ?x \<le> length out" using pk assms(6) by (simp add: announces_def)
  then have "?x \<le> txNext s0" using ok v by (simp add: side_ok_def sends_def tx_view_def word_le_nat_alt)
  moreover have "tx_ok s0" "bind_ok s0 b"
    using ok b tx_ok_view [OF v] bind_ok_view [OF v] by (simp_all add: side_ok_def sess_ok_def)
  ultimately have "fst (handleAckLocked b ?x now s0) = None"
    using handleAckLocked_ok(4) [of s0 b ?x now] by (cases "handleAckLocked b ?x now s0") auto
  then show ?thesis using run pk(4) by (auto simp: handleAck_def split: option.splits prod.splits)
qed

lemma handlePacket_truthful:
  assumes ok: "side_ok out peer inp n s" and pk: "carries peer pk" "announces n pk"
    and ty: "pk ! 0 = packetData \<and> 9 < length pk \<or> pk ! 0 = packetAck \<and> length pk = 9"
    and "length peer < 2 ^ 64" and "n \<le> length out" and run: "handlePacket g pk now s = (e, eff, s')"
  shows "e = None"
proof (cases "isCurrent g s \<and> \<not> s_closed s")
  case False
  then show ?thesis using run by (auto simp: handlePacket_def isCurrent_def split: option.splits if_splits)
next
  case True
  then obtain b0 where b0: "current s = Some b0" "b_gen b0 = g" by (auto simp: isCurrent_def split: option.splits)
  have ne: "pk \<noteq> []" using ty by auto
  define b where "b = b0\<lparr>b_lastRX := now, b_heartbeatPending := False, b_heartbeatFailures := 0\<rparr>"
  define s0 where "s0 = s\<lparr>current := Some b\<rparr>"
  have v: "rx_view s0 = rx_view s" "tx_view s0 = tx_view s" by (simp_all add: s0_def rx_view_def tx_view_def)
  have bok: "bind_ok s b" using ok b0 by (simp add: b_def side_ok_def sess_ok_def life_ok_def)
  have run0: "dispatchPacket b pk now s0 = (e, eff, s')"
    using run True b0 ne by (simp add: handlePacket_def b_def s0_def Let_def)
  from ty show ?thesis
  proof
    assume d: "pk ! 0 = packetData \<and> 9 < length pk"
    then have "handleData pk now s0 = (e, s')"
      using run0 by (auto simp: dispatchPacket_def split: prod.splits)
    then show ?thesis using handleData_truthful [OF ok pk(1) _ _ assms(5) v(1)] d by blast
  next
    assume a: "pk ! 0 = packetAck \<and> length pk = 9"
    then have "handleAck b pk now s0 = (e, s')"
      using run0 by (auto simp: dispatchPacket_def packet_types split: prod.splits)
    then show ?thesis using handleAck_truthful [OF ok pk(2) ne _ _ assms(6) v(2) bok] a by blast
  qed
qed

text \<open>What the invariant says about side \<open>a\<close> of a reachable system.\<close>

lemma reachable_side:
  assumes "link_reachable sid cfgC cfgS w" and "ReplayWindow cfgC < 2 ^ 63" and "ReplayWindow cfgS < 2 ^ 63"
  shows "side_ok (w_written w a) (w_written w (other a)) (w_read w a) (unat (rxNext (w_sess w (other a)))) (w_sess w a)"
    and "net_ok (w_written w a) (unat (rxNext (w_sess w a))) (w_net w a)"
    and "length (w_written w a) < 2 ^ 64" and "unat (rxNext (w_sess w (other a))) \<le> length (w_written w a)"
proof -
  have ok: "side_ok (w_written w b) (w_written w (other b)) (w_read w b) (unat (rxNext (w_sess w (other b)))) (w_sess w b)
      \<and> net_ok (w_written w b) (unat (rxNext (w_sess w b))) (w_net w b)" for b
    using reachable_ok [OF assms] by (simp add: world_ok_def)
  then show s: "side_ok (w_written w a) (w_written w (other a)) (w_read w a) (unat (rxNext (w_sess w (other a)))) (w_sess w a)"
    "net_ok (w_written w a) (unat (rxNext (w_sess w a))) (w_net w a)" by blast+
  show "length (w_written w a) < 2 ^ 64"
    using s(1) unat_less_pow [of "txNext (w_sess w a)"] by (simp add: side_ok_def sends_def)
  show "unat (rxNext (w_sess w (other a))) \<le> length (w_written w a)"
    using ok [of "other a"] by (simp add: side_ok_def receives_def)
qed

text \<open>What has been read is what was written, up to what is still buffered or missing.\<close>

lemma read_prefix_written:
  assumes "link_reachable sid cfgC cfgS w" and "ReplayWindow cfgC < 2 ^ 63" and "ReplayWindow cfgS < 2 ^ 63"
  shows "\<exists>rest. w_written w (other a) = w_read w a @ rest"
proof -
  have "receives (w_written w (other a)) (w_sess w a) (w_read w a)"
    using reachable_side(1) [OF assms, of a] by (simp add: side_ok_def)
  then have "w_written w (other a) = w_read w a @ rxBuf (w_sess w a) @ drop (unat (rxNext (w_sess w a))) (w_written w (other a))"
    unfolding receives_def by (metis append.assoc append_take_drop_id)
  then show ?thesis by blast
qed

text \<open>
  C1: reliable ordered delivery. In every reachable state of two link sessions, whatever packets the
  network lost, repeated, reordered or carried over from an earlier binding and however often the
  sessions were rebound, the bytes a side has read are a prefix of the bytes the other side has
  written.
\<close>

theorem link_delivery_prefix:
  assumes "link_reachable sid cfgC cfgS w" and "ReplayWindow cfgC < 2 ^ 63" and "ReplayWindow cfgS < 2 ^ 63"
  shows "\<exists>rest. w_written w (other a) = w_read w a @ rest"
  by (rule read_prefix_written [OF assms])

theorem link_delivery_prefix_witness:
  "\<exists>w. link_reachable demo_id emptyConfig emptyConfig w \<and> w_read w ServerSide = [1, 2, 3]
     \<and> (\<exists>rest. w_written w (other ServerSide) = w_read w ServerSide @ rest)"
proof -
  obtain w where w: "link_reachable demo_id emptyConfig emptyConfig w" "w_sess w ServerSide = demo_bound"
      "demo_packet \<in> w_net w ClientSide" "w_read w ServerSide = []" using demo_run by blast
  obtain eff s where s: "receiveStep 1 (RecvPacket demo_packet) 3 demo_bound = (True, eff, s)" "rxBuf s = [1, 2, 3]"
    using demo_receiveStep by blast
  have "link_op (w_net w (other ServerSide)) (w_sess w ServerSide) [] [] {} s"
    using w s(1) by (intro link_op.op_receive [OF s(1) [folded w(2)]]) auto
  from reach_op [OF w(1) [unfolded link_reachable_def] this] obtain w1 where
    w1: "link_reachable demo_id emptyConfig emptyConfig w1" "w_sess w1 ServerSide = s" "w_read w1 ServerSide = []"
    using w by (fastforce simp: link_reachable_def)
  have "Read 10 s = (Some (Inr [1, 2, 3]), signalLocked (s\<lparr>rxBuf := []\<rparr>))"
    using s(2) by (simp add: Read_def)
  from link_op.op_read [OF this, of "w_net w1 (other ServerSide)", folded w1(2)]
  have "link_op (w_net w1 (other ServerSide)) (w_sess w1 ServerSide) [] [1, 2, 3] {} (signalLocked (s\<lparr>rxBuf := []\<rparr>))"
    by (simp add: w1(2))
  from reach_op [OF w1(1) [unfolded link_reachable_def] this] obtain w2 where
    w2: "link_reachable demo_id emptyConfig emptyConfig w2" "w_read w2 ServerSide = [1, 2, 3]"
    using w1 by (fastforce simp: link_reachable_def)
  have "\<exists>rest. w_written w2 (other ServerSide) = w_read w2 ServerSide @ rest"
    by (rule link_delivery_prefix [OF w2(1)]) (simp_all add: emptyConfig_def)
  then show ?thesis using w2 by blast
qed

text \<open>
  C2: nothing is discarded too early. What a side has written is what the peer has received up to the
  acknowledged offset, followed by the bytes the side still retains for replay: a byte leaves the
  replay buffer only after the peer has it.
\<close>

theorem link_no_loss:
  assumes "link_reachable sid cfgC cfgS w" and "ReplayWindow cfgC < 2 ^ 63" and "ReplayWindow cfgS < 2 ^ 63"
  shows "w_written w a = take (unat (txBase (w_sess w a))) (w_read w (other a) @ rxBuf (w_sess w (other a)))
    @ txBuf (w_sess w a)"
proof -
  let ?b = "other a"
  have s: "txBuf (w_sess w a) = drop (unat (txBase (w_sess w a))) (w_written w a)"
      "unat (txBase (w_sess w a)) \<le> unat (rxNext (w_sess w ?b))"
    using reachable_side(1) [OF assms, of a] by (simp_all add: side_ok_def sends_def)
  have "w_read w ?b @ rxBuf (w_sess w ?b) = take (unat (rxNext (w_sess w ?b))) (w_written w a)"
    using reachable_side(1) [OF assms, of ?b] by (simp add: side_ok_def receives_def)
  then show ?thesis using s by (simp add: min_def)
qed

theorem link_no_loss_witness:
  "\<exists>w. link_reachable demo_id emptyConfig emptyConfig w \<and> w_written w ClientSide = [1, 2, 3]
     \<and> w_written w ClientSide = take (unat (txBase (w_sess w ClientSide)))
         (w_read w (other ClientSide) @ rxBuf (w_sess w (other ClientSide))) @ txBuf (w_sess w ClientSide)"
proof -
  obtain w where w: "link_reachable demo_id emptyConfig emptyConfig w" "w_written w ClientSide = [1, 2, 3]"
    using demo_run by blast
  have "w_written w ClientSide = take (unat (txBase (w_sess w ClientSide)))
         (w_read w (other ClientSide) @ rxBuf (w_sess w (other ClientSide))) @ txBuf (w_sess w ClientSide)"
    by (rule link_no_loss [OF w(1)]) (simp_all add: emptyConfig_def)
  then show ?thesis using w by blast
qed



lemma handleData_progress:
  assumes ok: "side_ok out peer inp n s" and v: "rx_view s0 = rx_view s" and fr: "frag_of peer q p"
    and "length peer < 2 ^ 64" and q: "unat q \<le> unat (rxNext s)" "unat (rxNext s) < unat q + length p"
    and win: "int (unat q + length p) \<le> uint (rxNext s) + ReplayWindow (s_config s)" and "rxBuf s = []"
    and run: "handleData (dataPacket q p) now s0 = (e, s')"
  shows "e = None" and "unat q + length p \<le> unat (rxNext s')"
proof -
  define s1 where "s1 = s0\<lparr>s_stats := (s_stats s0)\<lparr>st_dataRXPackets := st_dataRXPackets (s_stats s0) + 1\<rparr>\<rparr>"
  have v1: "rx_view s1 = rx_view s" using v by (simp add: s1_def rx_view_def)
  then have e1: "rxNext s1 = rxNext s" "rxBuf s1 = rxBuf s" "rxPending s1 = rxPending s" "ReplayWindow (s_config s1) = ReplayWindow (s_config s)"
    by (simp_all add: rx_view_def)
  have rx1: "rx_ok s1" using ok rx_ok_view [OF v1] by (simp add: side_ok_def sess_ok_def)
  have long: "\<not> len (dataPacket q p) \<le> 9" using q by (auto simp: dataPacket_def codec)
  have hdr: "uint64_of (part (dataPacket q p) 1 8) = q" "drop 9 (dataPacket q p) = p"
    using part_head [of packetData q p] by (simp_all add: dataPacket_def codec)
  obtain r s2 where acc: "acceptDataLocked q p s1 = (r, s2)" by (cases "acceptDataLocked q p s1")
  have pend: "\<forall>(q, p) \<in> set (rxPending s1). frag_of peer q p" using ok e1 by (simp add: side_ok_def receives_def)
  have win1: "int (unat q + length p) \<le> uint (rxNext s1) + ReplayWindow (s_config s1)" using win e1 by simp
  note pr = acceptDataLocked_progress [OF rx1 acc fr pend assms(4) q [folded e1(1)] win1 assms(8) [folded e1(2)]]
  obtain adv where r: "r = Inr (adv, False, False)" using pr(2) by blast
  have "handleData (dataPacket q p) now s0 = (None, signalLocked (scheduleAck now adv False False s2))"
    using handleData_run [OF long, of now s0, folded s1_def, unfolded hdr acc r] by simp
  then have "e = None \<and> rx_view s' = rx_view s2" using run by auto
  then show "e = None" "unat q + length p \<le> unat (rxNext s')" using pr(1) by (auto simp: rx_view_def)
qed

lemma dataPacket_inj: "dataPacket q p = dataPacket q' p' \<longleftrightarrow> q = q' \<and> p = p'"
  by (auto simp: dataPacket_def codec append_eq_append_conv) (metis codec(6))

lemma dataPacket_hd: "hd (dataPacket q p) = packetData"
  by (simp add: dataPacket_def)

lemma sendStep_data:
  assumes ok: "side_ok out peer inp n s" and run: "sendStep g now s = (Some (Inr (Some (dataPacket q p))), s')"
  shows "frag_of out q p" and "p \<noteq> []" and "len p \<le> PacketMTU s - 9" and "txBase s \<le> q"
proof -
  have sok: "sess_ok s" using ok by (simp add: side_ok_def)
  have nr: "helloReply s \<noteq> dataPacket q p"
  proof
    assume "helloReply s = dataPacket q p"
    moreover from this obtain x c m where "helloReply s = encodeHelloAck x c m"
      using ok by (auto simp: side_ok_def reply_ok_def dataPacket_def)
    ultimately have "hd (encodeHelloAck x c m) = packetData" using dataPacket_hd by metis
    then show False by (simp add: encodeHelloAck_def packet_types)
  qed
  obtain q' p' where "dataPacket q p = dataPacket q' p'" "p' \<noteq> []" "txBase s \<le> q'" "len p' \<le> PacketMTU s - 9"
    using sendStep_ok(5) [OF sok run] nr dataPacket_hd [of q p] by (auto simp: packet_types)
  then show "p \<noteq> []" "len p \<le> PacketMTU s - 9" "txBase s \<le> q" by (auto simp: dataPacket_inj)
  have "carries out (dataPacket q p)" using side_ok_send(2) [OF ok run] by (simp add: net_ok_def)
  then show "frag_of out q p"
    using \<open>p \<noteq> []\<close> part_head [of packetData q p] by (auto simp: carries_def dataPacket_def codec)
qed

text \<open>
  C7: progress. When the sender emits a DATA packet that covers the receiver's next expected offset,
  and the receiver is bound and its reader has emptied the buffer, then receiving the packet keeps the
  binding and moves the contiguous offset to at least the end of the packet, whatever fragments
  were retained.
\<close>

theorem link_progress:
  assumes "link_reachable sid cfgC cfgS w" and "ReplayWindow cfgC < 2 ^ 63" and "ReplayWindow cfgS < 2 ^ 63"
    and snd: "sendStep g now (w_sess w a) = (Some (Inr (Some (dataPacket q p))), sa)"
    and rcv: "isCurrent h (w_sess w (other a))" "\<not> s_closed (w_sess w (other a))" "rxBuf (w_sess w (other a)) = []"
    and q: "q \<le> rxNext (w_sess w (other a))" "unat (rxNext (w_sess w (other a))) < unat q + length p"
    and mtu: "PacketMTU (w_sess w a) - 9 \<le> ReplayWindow (s_config (w_sess w (other a)))"
    and run: "receiveStep h (RecvPacket (dataPacket q p)) t (w_sess w (other a)) = (go, eff, sb)"
  shows "go \<and> unat q + length p \<le> unat (rxNext sb)"
proof -
  let ?s = "w_sess w (other a)" and ?pk = "dataPacket q p"
  note A = reachable_side [OF assms(1-3), of a] and B = reachable_side [OF assms(1-3), of "other a"]
  have okB: "side_ok (w_written w (other a)) (w_written w a) (w_read w (other a)) (unat (rxNext (w_sess w a))) ?s"
    using B(1) by simp
  note d = sendStep_data [OF A(1) snd]
  obtain b0 where b0: "current ?s = Some b0" "b_gen b0 = h" using rcv(1) by (auto simp: isCurrent_def split: option.splits)
  define b where "b = b0\<lparr>b_lastRX := t, b_heartbeatPending := False, b_heartbeatFailures := 0\<rparr>"
  define s0 where "s0 = ?s\<lparr>current := Some b\<rparr>"
  have v: "rx_view s0 = rx_view ?s" by (simp add: s0_def rx_view_def)
  obtain e s1 where hd: "handleData ?pk t s0 = (e, s1)" by fastforce
  have q1: "unat q \<le> unat (rxNext ?s)" using q(1) by (simp add: word_le_nat_alt)
  have "int (unat q) \<le> int (unat (rxNext ?s))" using q1 by (simp only: of_nat_le_iff)
  then have win: "int (unat q + length p) \<le> uint (rxNext ?s) + ReplayWindow (s_config ?s)"
    using d(3) mtu by simp
  note hp = handleData_progress [OF okB v d(1) A(3) q1 q(2) win rcv(3) hd]
  have "?pk ! 0 = packetData" "?pk \<noteq> []" by (simp_all add: dataPacket_def)
  then have "handlePacket h ?pk t ?s = (e, [], s1)"
    using b0 rcv(2) hd by (simp add: handlePacket_def dispatchPacket_def b_def s0_def Let_def)
  then show ?thesis using run hp by (simp add: receiveStep_def)
qed

theorem link_progress_witness:
  "\<exists>w sa go eff sb. link_reachable demo_id emptyConfig emptyConfig w
     \<and> sendStep 1 2 (w_sess w ClientSide) = (Some (Inr (Some (dataPacket 0 [1, 2, 3]))), sa)
     \<and> receiveStep 1 (RecvPacket (dataPacket 0 [1, 2, 3])) 3 (w_sess w (other ClientSide)) = (go, eff, sb)
     \<and> go \<and> unat (0 :: u64) + length [1, 2, 3 :: byte] \<le> unat (rxNext sb)"
proof -
  obtain w where w: "link_reachable demo_id emptyConfig emptyConfig w" "w_sess w ClientSide = demo_written" "w_sess w ServerSide = demo_bound"
    using demo_run_written by blast
  obtain sa where sa: "sendStep 1 2 (w_sess w ClientSide) = (Some (Inr (Some (dataPacket 0 [1, 2, 3]))), sa)"
    using demo_sendStep w(2) by (auto simp: demo_packet_def)
  obtain go eff sb where r: "receiveStep 1 (RecvPacket (dataPacket 0 [1, 2, 3])) 3 (w_sess w (other ClientSide)) = (go, eff, sb)"
    by (cases "receiveStep 1 (RecvPacket (dataPacket 0 [1, 2, 3])) 3 (w_sess w (other ClientSide))")
  have "go \<and> unat (0 :: u64) + length [1, 2, 3 :: byte] \<le> unat (rxNext sb)"
    by (rule link_progress [OF w(1) _ _ sa _ _ _ _ _ _ r])
      (simp_all add: w emptyConfig_def isCurrent_def PacketMTU_def demo_simps)
  then show ?thesis using w(1) sa r by blast
qed

text \<open>
  C9: bounded memory. In every reachable state the replay buffer and the receive buffer together with the
  retained fragments stay within the replay window, at most 128 fragments are retained, and the
  retained bytes are exactly the offsets between \<open>txBase\<close> and \<open>txNext\<close>.
\<close>

theorem link_memory_bound:
  assumes "link_reachable sid cfgC cfgS w" and "ReplayWindow cfgC < 2 ^ 63" and "ReplayWindow cfgS < 2 ^ 63"
  shows "len (txBuf (w_sess w a)) \<le> ReplayWindow (s_config (w_sess w a))
    \<and> len (rxBuf (w_sess w a)) + (\<Sum>f \<leftarrow> rxPending (w_sess w a). len (snd f)) \<le> ReplayWindow (s_config (w_sess w a))
    \<and> len (rxPending (w_sess w a)) \<le> maxFlightWindowPackets
    \<and> unat (txNext (w_sess w a)) - unat (txBase (w_sess w a)) = length (txBuf (w_sess w a))"
proof -
  have "rx_ok (w_sess w a)" "tx_ok (w_sess w a)"
    using reachable_side(1) [OF assms, of a] by (simp_all add: side_ok_def sess_ok_def)
  then show ?thesis by (simp add: rx_ok_def tx_ok_def pend_bytes_def)
qed

theorem link_memory_bound_witness:
  "\<exists>w. link_reachable demo_id emptyConfig emptyConfig w
     \<and> w_sess w ClientSide = demo_written \<and> len (txBuf (w_sess w ClientSide)) \<le> ReplayWindow (s_config (w_sess w ClientSide))"
proof -
  obtain w where w: "link_reachable demo_id emptyConfig emptyConfig w" "w_sess w ClientSide = demo_written"
    using demo_run_written by blast
  have "len (txBuf (w_sess w ClientSide)) \<le> ReplayWindow (s_config (w_sess w ClientSide))"
    using link_memory_bound [OF w(1), of ClientSide] by (simp add: emptyConfig_def)
  then show ?thesis using w by blast
qed

end
