(* ===== verification/Transition_System.thy ===== *)
theory Transition_System
  imports Main
begin

text \<open>
  Components whose operations interleave are step relations. The interface they share: initial states, steps,
  and an invariant that the first have and the second keep. The lemmas about runs are proved once here; every
  component that is a step relation interprets the locale with its own definitions.
\<close>

locale transition_system =
  fixes initial :: "'s \<Rightarrow> bool"
    and step :: "'s \<Rightarrow> 's \<Rightarrow> bool"
    and inv :: "'s \<Rightarrow> bool"
  assumes initial_inv: "initial s \<Longrightarrow> inv s"
    and step_inv: "inv s \<Longrightarrow> step s s' \<Longrightarrow> inv s'"
begin

lemma steps_inv: "step\<^sup>*\<^sup>* s s' \<Longrightarrow> inv s \<Longrightarrow> inv s'"
  by (induction rule: rtranclp_induct) (auto intro: step_inv)

lemma run_inv: "initial s \<Longrightarrow> step\<^sup>*\<^sup>* s s' \<Longrightarrow> inv s'"
  using steps_inv initial_inv by blast

lemma run_implies: "initial s \<Longrightarrow> step\<^sup>*\<^sup>* s s' \<Longrightarrow> (\<And>t. inv t \<Longrightarrow> P t) \<Longrightarrow> P s'"
  using run_inv by blast

end

text \<open>
  Refinement: what an implementation does is, through an abstraction function, a run of a specification. An
  invariant of the implementation may be used.
\<close>

locale simulation = transition_system +
  fixes spec_step :: "'t \<Rightarrow> 't \<Rightarrow> bool"
    and abs :: "'a \<Rightarrow> 't"
  assumes step_simulated: "inv s \<Longrightarrow> step s s' \<Longrightarrow> spec_step\<^sup>*\<^sup>* (abs s) (abs s')"
begin

lemma run_simulated:
  assumes "initial s" "step\<^sup>*\<^sup>* s s'"
  shows "spec_step\<^sup>*\<^sup>* (abs s) (abs s')"
  using assms(2)
proof (induction rule: rtranclp_induct)
  case (step t t')
  then show ?case using run_inv [OF assms(1) step.hyps(1)] step_simulated [of t t'] by auto
qed simp

end

end
