(* ===== verification/Link_Refinement.thy ===== *)
theory Link_Refinement
  imports Reliable Transition_System "HOL-Library.Sublist"
begin

text \<open>
  What the reliable link promises to the multiplexer above it, as an abstract machine: two byte pipes, one per
  direction. A pipe takes bytes at one end and yields them at the other, in order, each once. The two sessions with
  the network between them (\<open>world_step\<close>) refine it: packets, acknowledgements, retransmissions, rebinding and heartbeats are
  invisible.
\<close>

section \<open>The specification\<close>

record pipes =
  p_sent :: "side \<Rightarrow> bytes"
  p_got :: "side \<Rightarrow> bytes"

inductive pipe_step :: "pipes \<Rightarrow> pipes \<Rightarrow> bool" where
  pipe_send: "pipe_step p (p\<lparr>p_sent := (p_sent p)(a := p_sent p a @ bs)\<rparr>)"
| pipe_deliver: "prefix (p_got p a @ bs) (p_sent p (other a)) \<Longrightarrow> pipe_step p (p\<lparr>p_got := (p_got p)(a := p_got p a @ bs)\<rparr>)"

definition empty_pipes :: pipes where
  "empty_pipes = \<lparr>p_sent = (\<lambda>_. []), p_got = (\<lambda>_. [])\<rparr>"

text \<open>What a client of the pipes can rely on.\<close>

definition pipes_ok :: "pipes \<Rightarrow> bool" where
  "pipes_ok p \<longleftrightarrow> (\<forall>a. prefix (p_got p a) (p_sent p (other a)))"

lemma side_cases: "b = a \<or> b = other a"
  by (cases a; cases b) auto

lemma pipes_ok_send: "pipes_ok p \<Longrightarrow> pipes_ok (p\<lparr>p_sent := (p_sent p)(a := p_sent p a @ bs)\<rparr>)"
  unfolding pipes_ok_def by (auto intro: prefix_prefix)

lemma pipes_ok_deliver:
  "pipes_ok p \<Longrightarrow> prefix (p_got p a @ bs) (p_sent p (other a)) \<Longrightarrow> pipes_ok (p\<lparr>p_got := (p_got p)(a := p_got p a @ bs)\<rparr>)"
  unfolding pipes_ok_def by auto

interpretation pipe_runs: transition_system "\<lambda>p. p = empty_pipes" pipe_step pipes_ok
proof
  show "p = empty_pipes \<Longrightarrow> pipes_ok p" for p by (simp add: pipes_ok_def empty_pipes_def)
  show "pipes_ok p \<Longrightarrow> pipe_step p p' \<Longrightarrow> pipes_ok p'" for p p'
    by (erule pipe_step.cases) (auto intro: pipes_ok_send pipes_ok_deliver)
qed

section \<open>The refinement\<close>

definition world_abs :: "world \<Rightarrow> pipes" where
  "world_abs w = \<lparr>p_sent = w_written w, p_got = w_read w\<rparr>"

lemma world_abs_simps [simp]: "p_sent (world_abs w) = w_written w" "p_got (world_abs w) = w_read w"
  by (simp_all add: world_abs_def)

lemma world_ok_prefix: "world_ok w \<Longrightarrow> prefix (w_read w a) (w_written w (other a))"
proof -
  assume "world_ok w"
  then have "receives (w_written w (other a)) (w_sess w a) (w_read w a)" unfolding world_ok_def side_ok_def by blast
  then have "w_written w (other a) = w_read w a @ rxBuf (w_sess w a) @ drop (unat (rxNext (w_sess w a))) (w_written w (other a))"
    unfolding receives_def by (metis append.assoc append_take_drop_id)
  then show ?thesis unfolding prefix_def by blast
qed

text \<open>A step of one side writes bytes and yields bytes: it is a send followed by a delivery.\<close>

lemma world_step_simulated:
  assumes ok: "world_ok w" and step: "world_step w w'"
  shows "pipe_step\<^sup>*\<^sup>* (world_abs w) (world_abs w')"
  using step
proof cases
  case (1 a wr rd N s')
  let ?p = "(world_abs w)\<lparr>p_sent := (w_written w)(a := w_written w a @ wr)\<rparr>"
  have "pipe_step (world_abs w) ?p" using pipe_send [of "world_abs w" a wr] by simp
  moreover have "prefix (w_read w' a) (w_written w' (other a))" by (rule world_ok_prefix [OF world_step_ok [OF step ok]])
  then have "prefix (p_got ?p a @ rd) (p_sent ?p (other a))" using 1(1) by simp
  from pipe_deliver [OF this] have "pipe_step ?p (world_abs w')" using 1(1) by (simp add: world_abs_def)
  ultimately show ?thesis by (meson converse_rtranclp_into_rtranclp rtranclp.rtrancl_refl)
qed

text \<open>Two fresh sessions with replay windows below the sign bit.\<close>

definition link_start :: "world \<Rightarrow> bool" where
  "link_start w \<longleftrightarrow> (\<exists>sid cfgC cfgS. ReplayWindow cfgC < 2 ^ 63 \<and> ReplayWindow cfgS < 2 ^ 63
     \<and> w = world_init (NewSessionWithID sid cfgC) (NewSessionWithID sid cfgS))"

interpretation link_pipe: simulation link_start world_step world_ok pipe_step world_abs
proof
  show "link_start w \<Longrightarrow> world_ok w" for w by (auto simp: link_start_def world_init_ok)
qed (auto intro: world_step_ok world_step_simulated)

lemma world_abs_init [simp]: "world_abs (world_init c s) = empty_pipes"
  by (simp add: world_abs_def world_init_def empty_pipes_def)

lemma world_reach_steps: "world_reach c s w \<Longrightarrow> world_step\<^sup>*\<^sup>* (world_init c s) w"
  by (induction rule: world_reach.induct) auto

section \<open>Property\<close>



end
