(* ===== verification/Link_Rebind.thy ===== *)
theory Link_Rebind
  imports Reliable
begin

text \<open>
  The handshake when it is repeated. A client that waits for a reply sends its two HELLO packets again every
  \<open>retransmitInterval\<close>; the server answers each pair, the first in \<open>BindServer\<close>, every later one from its receive
  loop. The replies after the first reach a client that is already bound.
\<close>

text \<open>A bound server queues a reply for a repeated HELLO.\<close>

lemma renegotiate_replies: "\<exists>x cfg mtu. helloReply (renegotiate b packet c s) = encodeHelloAck x cfg mtu"
  unfolding renegotiate_def Let_def signalLocked_def by (intro exI) simp

lemma handleHello_replies:
  assumes "handleHello b packet s = (None, s')" and "length packet = 17 \<or> length packet = 18" and "havePendingHello s" and "pendingHelloID s = s_id s"
  shows "\<exists>x cfg mtu. helloReply s' = encodeHelloAck x cfg mtu"
proof -
  obtain c s1 where "s' = renegotiate b packet c s1"
    using assms by (auto simp: handleHello_def Let_def split: if_splits prod.splits option.splits)
  then show ?thesis using renegotiate_replies by blast
qed

lemma hello_ack_hd: "encodeHelloAck x cfg mtu \<noteq> [] \<and> encodeHelloAck x cfg mtu ! 0 = packetHelloAck"
  by (simp add: encodeHelloAck_def Let_def)

lemma hello_ack_refused:
  assumes "current s = Some b" and "b_gen b = g" and "\<not> s_closed s"
  shows "\<exists>eff s'. receiveStep g (RecvPacket (encodeHelloAck x cfg mtu)) now s = (False, eff, s')
     \<and> ConnClose (b_conn b) \<in> set eff \<and> current s' = None \<and> detachCount s' = detachCount s + 1"
proof -
  let ?b = "b\<lparr>b_lastRX := now, b_heartbeatPending := False, b_heartbeatFailures := 0\<rparr>"
  have "dispatchPacket ?b (encodeHelloAck x cfg mtu) now s1 = (Some (Sentinel ErrHandshake), [], s1)" for s1
    using hello_ack_hd [of x cfg mtu] by (simp add: dispatchPacket_def Let_def packet_types)
  then have "handlePacket g (encodeHelloAck x cfg mtu) now s = (Some (Sentinel ErrHandshake), [], s\<lparr>current := Some ?b\<rparr>)"
    using assms hello_ack_hd [of x cfg mtu] by (simp add: handlePacket_def Let_def)
  then show ?thesis using assms by (simp add: receiveStep_def failBinding_def signalLocked_def)
qed

text \<open>
  C30: a repeated HELLO costs the binding that it should make. When a client's HELLO arrives at the server a second time, which happens whenever the
  first reply takes longer than the client's retry interval, the server answers from its receive loop; that reply, read by the
  client's receive loop after it has bound on the first one, fails the fresh binding: the connection is
  closed and the session detached, although nothing was lost.
\<close>

theorem repeated_hello_detaches:
  assumes "handleHello bs packet srv = (None, srv')" and "length packet = 17 \<or> length packet = 18" and "havePendingHello srv" and "pendingHelloID srv = s_id srv"
    and "current s = Some b" and "b_gen b = g" and "\<not> s_closed s"
  shows "\<exists>eff s'. receiveStep g (RecvPacket (helloReply srv')) now s = (False, eff, s')
     \<and> ConnClose (b_conn b) \<in> set eff \<and> current s' = None \<and> detachCount s' = detachCount s + 1"
proof -
  obtain x cfg mtu where "helloReply srv' = encodeHelloAck x cfg mtu" using handleHello_replies [OF assms(1-4)] by blast
  then show ?thesis using hello_ack_refused [OF assms(5-7)] by simp
qed

theorem repeated_hello_detaches_witness:
  "\<exists>srv' eff s'. handleHello demo_binding (snd (encodeHello demo_id 0 demo_cfg 100)) (demo_bound\<lparr>pendingHelloID := demo_id, havePendingHello := True\<rparr>) = (None, srv')
     \<and> receiveStep 1 (RecvPacket (helloReply srv')) 4 demo_bound = (False, eff, s') \<and> current s' = None"
proof -
  let ?p = "snd (encodeHello demo_id 0 demo_cfg 100)" and ?srv = "demo_bound\<lparr>pendingHelloID := demo_id, havePendingHello := True\<rparr>"
  have len: "length ?p = 17" by (simp add: encodeHello_def codec demo_cfg_def)
  have "part ?p 1 8 = put_uint64 0" by (simp add: encodeHello_def codec part_def)
  then have exp: "uint64_of (part ?p 1 8) = 0" by (simp add: codec)
  have "fst (reconcilePeerLocked 0 ?srv) = None" by (simp add: reconcilePeerLocked_def demo_simps validatePeerExpected_def Let_def)
  then have "fst (handleHello demo_binding ?p ?srv) = None"
    using len exp by (auto simp: handleHello_def Let_def demo_simps split: prod.splits option.splits)
  then obtain srv' where run: "handleHello demo_binding ?p ?srv = (None, srv')" by (metis prod.collapse)
  have "havePendingHello ?srv" "pendingHelloID ?srv = s_id ?srv" "current demo_bound = Some demo_binding" "b_gen demo_binding = 1" "\<not> s_closed demo_bound"
    by (simp_all add: demo_simps)
  from repeated_hello_detaches [OF run _ this, of 4] len run show ?thesis by blast
qed

end
