(* ===== verification/Link_Resume.thy ===== *)
theory Link_Resume
  imports Reliable
begin

text \<open>
  Resuming a session: in every reachable state of a client's and a server's link session the handshake on a new connection
  succeeds, and each side goes on exactly where the other one stopped hearing it.
\<close>

section \<open>One side\<close>

text \<open>The offset a peer announces is in the range that is retained, so the session takes it and keeps what follows it.\<close>

lemma reconcile_reachable:
  assumes "side_ok out peer inp (unat x) s" and "unat x \<le> length out"
  obtains s1 where "reconcilePeerLocked x s = (None, s1)" and "txBase s1 = x" and "txBuf s1 = drop (unat x) out"
    and "s_closed s1 = s_closed s" and "s_config s1 = s_config s" and "rxNext s1 = rxNext s"
proof -
  have tx: "tx_ok s" and out: "unat (txNext s) = length out" "txBuf s = drop (unat (txBase s)) out" and base: "unat (txBase s) \<le> unat x"
    using assms(1) by (simp_all add: side_ok_def sess_ok_def sends_def)
  obtain r s1 where run: "reconcilePeerLocked x s = (r, s1)" by fastforce
  note ok = reconcilePeerLocked_ok [OF tx run]
  have r: "r = None" using ok(4) base assms(2) out(1) by (simp add: word_le_nat_alt)
  have "txBuf s1 = drop (unat x - unat (txBase s)) (drop (unat (txBase s)) out)" using ok(5) [OF r] out(2) by simp
  also have "\<dots> = drop (unat x) out" using base by (simp add: drop_drop)
  finally have buf: "txBuf s1 = drop (unat x) out" .
  have "s_closed s1 = s_closed s" "s_config s1 = s_config s" "rxNext s1 = rxNext s" by (subst ok(7), simp)+
  then show ?thesis using that run r ok(5) buf by blast
qed

lemma attach_at:
  assumes "\<not> s_closed s"
  obtains eff s' b where "attach conn mtu now s = (None, eff, s')" and "current s' = Some b" and "b_conn b = conn"
    and "b_sendNext b = txBase s" and "txBuf s' = txBuf s" and "\<not> s_closed s'"
  using assms that unfolding attach_def by (fastforce simp: signalLocked_def Let_def)

lemma negotiate_fields [simp]:
  "s_closed (negotiateLocked peer s) = s_closed s" "txBase (negotiateLocked peer s) = txBase s" "txBuf (negotiateLocked peer s) = txBuf s"
  "rxNext (negotiateLocked peer s) = rxNext s"
  by (simp_all add: negotiateLocked_def Let_def)

lemma negotiate_config:
  "Compression (s_config (negotiateLocked peer s)) = (Compression (s_config s) \<and> Compression peer)"
  "MaxConnections (s_config (negotiateLocked peer s)) =
     (if 0 < MaxConnections peer \<and> MaxConnections peer < MaxConnections (s_config s) then MaxConnections peer else MaxConnections (s_config s))"
  by (simp_all add: negotiateLocked_def Let_def)

text \<open>\<open>resumed conn at out s\<close>: bound to \<open>conn\<close>, and about to send what \<open>out\<close> has from \<open>at\<close> on.\<close>

definition resumed :: "PacketConn \<Rightarrow> u64 \<Rightarrow> bytes \<Rightarrow> Session \<Rightarrow> bool" where
  "resumed conn x out s \<longleftrightarrow> bound_to conn s \<and> txBuf s = drop (unat x) out \<and> (\<forall>b. current s = Some b \<longrightarrow> b_sendNext b = x)"

section \<open>The handshake\<close>

lemma server_accepts:
  assumes ok: "side_ok out peer inp (unat (hello_ExpectedRemote hello)) s" "unat (hello_ExpectedRemote hello) \<le> length out"
    and m: "hello_ID hello = s_id s" "hello_Compression hello = Compression (s_config s)" "\<not> s_closed s"
    and n: "0 < hello_MaxConnections hello" "hello_MaxConnections hello \<le> 65535" "0 < MaxConnections (s_config s)" "MaxConnections (s_config s) \<le> 65535"
  obtains cfg mtu eff s' where "BindServer conn hello None now s = (None, ConnSend conn (encodeHelloAck (rxNext s) cfg mtu) # eff, s')"
    and "resumed conn (hello_ExpectedRemote hello) out s'" and "Compression cfg = Compression (s_config s)"
    and "0 < MaxConnections cfg" and "MaxConnections cfg \<le> 65535"
proof -
  let ?x = "hello_ExpectedRemote hello"
  obtain s1 where s1: "reconcilePeerLocked ?x s = (None, s1)" "txBase s1 = ?x" "txBuf s1 = drop (unat ?x) out"
    "s_closed s1 = s_closed s" "s_config s1 = s_config s" "rxNext s1 = rxNext s" by (rule reconcile_reachable [OF ok])
  define peerCfg where "peerCfg = emptyConfig\<lparr>ResumeTimeout := hello_ResumeTimeout hello, MaxConnections := hello_MaxConnections hello, Compression := Compression (s_config s)\<rparr>"
  define mtu where "mtu = min (normalizeMTU (conn_MTU conn)) (normalizeMTU (hello_AdvertisedPacketMTU hello))"
  define s2 where "s2 = negotiateLocked peerCfg s1"
  have "\<not> s_closed s2" using s1(4) m(3) by (simp add: s2_def)
  then obtain eff s' b where at: "attach conn mtu now s2 = (None, eff, s')" "current s' = Some b" "b_conn b = conn" "b_sendNext b = txBase s2"
    "txBuf s' = txBuf s2" "\<not> s_closed s'" by (rule attach_at)
  have "BindServer conn hello None now s = (None, ConnSend conn (encodeHelloAck (rxNext s) (s_config s2) mtu) # eff, s')"
    using m s1(1,6) at(1) by (simp add: BindServer_def Matches_def Let_def peerCfg_def [symmetric] mtu_def [symmetric] s2_def [symmetric])
  moreover have "resumed conn ?x out s'" using at s1(2,3) by (simp add: resumed_def bound_to_def s2_def)
  moreover have "Compression (s_config s2) = Compression (s_config s)" "0 < MaxConnections (s_config s2)" "MaxConnections (s_config s2) \<le> 65535"
    using m(2) n s1(5) by (auto simp: s2_def negotiate_config peerCfg_def)
  ultimately show ?thesis using that by blast
qed

lemma client_accepts:
  assumes ok: "side_ok out peer inp (unat x) s" "unat x \<le> length out" and m: "\<not> s_closed s"
    and cfg: "Compression cfg = Compression (s_config s)" "0 < MaxConnections cfg" "MaxConnections cfg \<le> 65535"
  obtains eff s' where "BindClient (Some conn) [HsSend None, HsSend None, HsRecv (encodeHelloAck x cfg mtu)] now s = Some (None, eff, s')"
    and "resumed conn x out s'"
proof -
  obtain s1 where s1: "reconcilePeerLocked x s = (None, s1)" "txBase s1 = x" "txBuf s1 = drop (unat x) out"
    "s_closed s1 = s_closed s" by (rule reconcile_reachable [OF ok])
  define peerCfg where "peerCfg = \<lparr>ResumeTimeout = uint (durationMilliseconds (ResumeTimeout cfg)) * millisecond,
             ReplayWindow = 0, MaxConnections = MaxConnections cfg, Compression = Compression cfg\<rparr>"
  have "\<not> s_closed (negotiateLocked peerCfg s1)" using s1(4) m by simp
  then obtain eff s' b where at: "attach conn (min (normalizeMTU (conn_MTU conn)) (normalizeMTU mtu)) now (negotiateLocked peerCfg s1) = (None, eff, s')"
    "current s' = Some b" "b_conn b = conn" "b_sendNext b = txBase (negotiateLocked peerCfg s1)" "txBuf s' = txBuf (negotiateLocked peerCfg s1)" "\<not> s_closed s'"
    by (rule attach_at)
  have ack: "encodeHelloAck x cfg mtu \<noteq> []" "encodeHelloAck x cfg mtu ! 0 \<noteq> packetReject"
    "decodeHelloAck (encodeHelloAck x cfg mtu) = Inr (x, peerCfg, normalizeMTU mtu)"
    using decodeHelloAck_encodeHelloAck [OF cfg(2,3)] by (simp_all add: peerCfg_def helloAck_parts packet_types) (simp add: encodeHelloAck_def)
  have "bindClientReply (s_config s) conn (x, peerCfg, normalizeMTU mtu) now s = (None, eff, s')"
    using s1(1) at(1) cfg(1) by (simp add: bindClientReply_def peerCfg_def)
  then have "BindClient (Some conn) [HsSend None, HsSend None, HsRecv (encodeHelloAck x cfg mtu)] now s = Some (None, eff, s')"
    using m ack by (simp add: BindClient_def bindClientHello_def)
  moreover have "resumed conn x out s'" using at s1(2,3) by (simp add: resumed_def bound_to_def)
  ultimately show ?thesis using that by blast
qed

lemma server_reads_hello:
  assumes "length sid = 16" and "0 < MaxConnections cfg" and "MaxConnections cfg \<le> 65535"
  obtains hello where "ReadHello emptyHello False [RecvPacket (fst (encodeHello sid x cfg mtu)), RecvPacket (snd (encodeHello sid x cfg mtu))] = Some (Inr hello)"
    and "hello_ID hello = sid" and "hello_ExpectedRemote hello = x" and "hello_MaxConnections hello = MaxConnections cfg"
    and "hello_Compression hello = Compression cfg"
proof -
  let ?p1 = "fst (encodeHello sid x cfg mtu)" and ?p2 = "snd (encodeHello sid x cfg mtu)"
  have p1: "?p1 = [packetHelloID, Version] @ sid" by (simp add: encodeHello_def encodeHelloID_def)
  have "part ?p1 2 16 = sid" using assms(1) by (simp add: p1 part_def)
  moreover have "?p2 \<noteq> []" "?p2 ! 0 = packetHello" "length ?p2 = 17 \<or> length ?p2 = 18"
    by (simp_all add: hello_parts codec) (simp add: encodeHello_def)
  ultimately have "ReadHello emptyHello False [RecvPacket ?p1, RecvPacket ?p2] = Some (parseHello (emptyHello\<lparr>hello_ID := sid\<rparr>) ?p2)"
    using assms(1) p1 by (simp add: packet_types)
  then show ?thesis using that parseHello_encodeHello [OF assms(2,3), of "emptyHello\<lparr>hello_ID := sid\<rparr>" sid x mtu] by (simp add: emptyHello_def)
qed

section \<open>Properties\<close>

text \<open>
  C4: a session can always be resumed. In every reachable state of two link sessions of one identifier that are not closed and agree on compression, whatever
  was lost on the connection before, the HELLO of the client is accepted by the server, its HELLO_ACK is accepted by the client, and both are bound to
  the new connection; each side then holds exactly the bytes that it has written and the other has not received, and sends them from
  the first of them on.
\<close>

theorem resume_succeeds:
  assumes "link_reachable sid cfgC cfgS w" and "ReplayWindow cfgC < 2 ^ 63" and "ReplayWindow cfgS < 2 ^ 63"
    and "client = w_sess w ClientSide" and "server = w_sess w ServerSide" and "\<not> s_closed client" and "\<not> s_closed server"
    and "s_id server = s_id client" and "length (s_id client) = 16" and "Compression (s_config server) = Compression (s_config client)"
    and "MaxConnections (s_config client) \<in> {1..65535}" and "MaxConnections (s_config server) \<in> {1..65535}"
  shows "\<exists>p1 p2 hello ack effS server' effC client'.
    bindClientHello connC client = Inr ((p1, p2), s_config client)
    \<and> ReadHello emptyHello False [RecvPacket p1, RecvPacket p2] = Some (Inr hello)
    \<and> BindServer connS hello None nowS server = (None, ConnSend connS ack # effS, server')
    \<and> BindClient (Some connC) [HsSend None, HsSend None, HsRecv ack] nowC client = Some (None, effC, client')
    \<and> resumed connS (rxNext client) (w_written w ServerSide) server' \<and> resumed connC (rxNext server) (w_written w ClientSide) client'"
proof -
  note side = reachable_side [OF assms(1-3)]
  have S: "side_ok (w_written w ServerSide) (w_written w ClientSide) (w_read w ServerSide) (unat (rxNext client)) server"
    "unat (rxNext client) \<le> length (w_written w ServerSide)" using side(1,4) [of ServerSide] assms(4,5) by simp_all
  have C: "side_ok (w_written w ClientSide) (w_written w ServerSide) (w_read w ClientSide) (unat (rxNext server)) client"
    "unat (rxNext server) \<le> length (w_written w ClientSide)" using side(1,4) [of ClientSide] assms(4,5) by simp_all
  have n: "0 < MaxConnections (s_config client)" "MaxConnections (s_config client) \<le> 65535"
    "0 < MaxConnections (s_config server)" "MaxConnections (s_config server) \<le> 65535" using assms(11,12) by auto
  define p where "p = encodeHello (s_id client) (rxNext client) (s_config client) (conn_MTU connC)"
  obtain hello where hello: "ReadHello emptyHello False [RecvPacket (fst p), RecvPacket (snd p)] = Some (Inr hello)"
    "hello_ID hello = s_id client" "hello_ExpectedRemote hello = rxNext client" "hello_MaxConnections hello = MaxConnections (s_config client)"
    "hello_Compression hello = Compression (s_config client)"
    unfolding p_def by (rule server_reads_hello [OF assms(9) n(1,2)])
  obtain cfg mtu effS server' where bs: "BindServer connS hello None nowS server = (None, ConnSend connS (encodeHelloAck (rxNext server) cfg mtu) # effS, server')"
    "resumed connS (hello_ExpectedRemote hello) (w_written w ServerSide) server'" "Compression cfg = Compression (s_config server)"
    "0 < MaxConnections cfg" "MaxConnections cfg \<le> 65535"
    by (rule server_accepts [where hello = hello and conn = connS and now = nowS, OF S [folded hello(3)]])
      (use hello assms(7,8,10) n in simp_all)
  obtain effC client' where bc: "BindClient (Some connC) [HsSend None, HsSend None, HsRecv (encodeHelloAck (rxNext server) cfg mtu)] nowC client = Some (None, effC, client')"
    "resumed connC (rxNext server) (w_written w ClientSide) client'"
    by (rule client_accepts [where conn = connC and now = nowC and mtu = mtu, OF C assms(6)]) (use bs assms(10) in simp_all)
  have "bindClientHello connC client = Inr ((fst p, snd p), s_config client)" using assms(6) by (simp add: bindClientHello_def p_def)
  then show ?thesis using hello(1,3) bs bc by metis
qed

theorem resume_succeeds_witness:
  "\<exists>w hello ack effS server' effC client'. link_reachable demo_id emptyConfig emptyConfig w \<and> w_written w ClientSide = [1, 2, 3]
     \<and> BindServer demo_conn hello None 9 (w_sess w ServerSide) = (None, ConnSend demo_conn ack # effS, server')
     \<and> BindClient (Some demo_conn) [HsSend None, HsSend None, HsRecv ack] 9 (w_sess w ClientSide) = Some (None, effC, client')
     \<and> txBuf client' = [1, 2, 3]"
proof -
  obtain w where w: "link_reachable demo_id emptyConfig emptyConfig w" "w_sess w ServerSide = demo_bound" "w_sess w ClientSide = demo_written"
    "w_written w ClientSide = [1, 2, 3]" using demo_run_written by blast
  have r: "ReplayWindow emptyConfig < 2 ^ 63" by (simp add: emptyConfig_def)
  have f: "\<not> s_closed demo_written" "\<not> s_closed demo_bound" "s_id demo_bound = s_id demo_written" "length (s_id demo_written) = 16"
    "Compression (s_config demo_bound) = Compression (s_config demo_written)" "MaxConnections (s_config demo_written) \<in> {1..65535}"
    "MaxConnections (s_config demo_bound) \<in> {1..65535}" "rxNext demo_bound = 0" by (simp_all add: demo_simps demo_id_def)
  obtain hello ack effS server' effC client' where h: "BindServer demo_conn hello None 9 demo_bound = (None, ConnSend demo_conn ack # effS, server')"
    "BindClient (Some demo_conn) [HsSend None, HsSend None, HsRecv ack] 9 demo_written = Some (None, effC, client')"
    "resumed demo_conn (rxNext demo_bound) (w_written w ClientSide) client'"
    using resume_succeeds [OF w(1) r r w(3,2) [symmetric] f(1-7), of demo_conn demo_conn 9 9] by blast
  have "txBuf client' = [1, 2, 3]" using h(3) f(8) w(4) by (simp add: resumed_def)
  then show ?thesis using h(1,2) w by metis
qed

end
