(* ===== verification/Compression.thy ===== *)
theory Compression
  imports Frame
begin

text \<open>
  The DATA payload encoding of \<open>internal/mux/compression.go\<close>. The DEFLATE codec of \<open>compress/flate\<close>
  is a parameter: the bytes its writer produces for one payload, and the bytes and the error its
  reader yields, with the error of closing it. What the code relies on is that the reader returns
  what the writer was given; the locale states it.
\<close>

record flate =
  deflate :: "bytes \<Rightarrow> bytes"
  inflate :: "bytes \<Rightarrow> bytes \<times> go_error option"
  inflate_close :: "bytes \<Rightarrow> go_error option"

definition compressionRaw :: byte where "compressionRaw = 0"
definition compressionDeflate :: byte where "compressionDeflate = 1"
definition compressionMinimumSize :: nat where "compressionMinimumSize = 64"
definition InitialStreamWindow :: u32 where "InitialStreamWindow = 64 * 1024"
definition windowUpdateThreshold :: u32 where "windowUpdateThreshold = InitialStreamWindow div 8"

definition encodeCompressedPayload :: "flate \<Rightarrow> bytes \<Rightarrow> go_error + bytes" where
  "encodeCompressedPayload F data =
     (if length data = 0 \<or> length data > MaxDataPayload - 1 then
        Inl (ErrorText ''invalid uncompressed DATA size'')
      else if length data < compressionMinimumSize then Inr (compressionRaw # data)
      else
        let compressed = compressionDeflate # deflate F data in
        if length compressed \<ge> length data + 1 then Inr (compressionRaw # data)
        else Inr compressed)"

text \<open>\<open>io.ReadAll\<close> of a reader limited to \<open>n\<close> bytes: the limit hides what comes after it.\<close>

definition readAllLimited :: "nat \<Rightarrow> bytes \<times> go_error option \<Rightarrow> bytes \<times> go_error option" where
  "readAllLimited n r = (if length (fst r) \<ge> n then (take n (fst r), None) else r)"

definition decodeCompressedPayload :: "flate \<Rightarrow> bytes \<Rightarrow> go_error + bytes" where
  "decodeCompressedPayload F data =
     (if length data < 2 then Inl (ErrorText ''compressed DATA has no payload'')
      else if data ! 0 = compressionRaw then Inr (drop 1 data)
      else if data ! 0 = compressionDeflate then
        (case readAllLimited MaxDataPayload (inflate F (drop 1 data)) of
           (decoded, Some e) \<Rightarrow> Inl e
         | (decoded, None) \<Rightarrow>
             (case inflate_close F (drop 1 data) of
                Some e \<Rightarrow> Inl e
              | None \<Rightarrow>
                  if length decoded = 0 \<or> length decoded > MaxDataPayload - 1
                  then Inl (ErrorText (''invalid decompressed DATA size '' @ itoa (len decoded)))
                  else Inr decoded))
      else Inl (ErrorText (''unknown compression encoding '' @ itoa (uint (data ! 0)))))"

section \<open>Lemmas\<close>

text \<open>The contract of DEFLATE that the encoding needs.\<close>

locale flate_codec =
  fixes F :: flate
  assumes inflate_deflate: "inflate F (deflate F d) = (d, None)"
    and close_deflate: "inflate_close F (deflate F d) = None"
    and deflate_nonempty: "d \<noteq> [] \<Longrightarrow> deflate F d \<noteq> []"
begin

lemma decode_encode:
  assumes "encodeCompressedPayload F data = Inr payload"
  shows "decodeCompressedPayload F payload = Inr data"
  using assms deflate_nonempty [of data]
  by (auto simp: encodeCompressedPayload_def decodeCompressedPayload_def readAllLimited_def compressionRaw_def
      compressionDeflate_def compressionMinimumSize_def frame_consts inflate_deflate close_deflate Let_def Suc_le_eq
      split: if_splits)

end

text \<open>An encoded payload fits a DATA frame and costs at most one byte.\<close>

lemma encodeCompressedPayload_size:
  assumes "encodeCompressedPayload F data = Inr payload"
  shows "payload \<noteq> []" and "length payload \<le> length data + 1" and "length payload \<le> MaxDataPayload"
    and "data \<noteq> []" and "length data \<le> MaxDataPayload - 1"
  using assms by (auto simp: encodeCompressedPayload_def frame_consts Let_def split: if_splits)

lemma encodeCompressedPayload_Inr:
  "data \<noteq> [] \<Longrightarrow> length data \<le> MaxDataPayload - 1 \<Longrightarrow> \<exists>payload. encodeCompressedPayload F data = Inr payload"
  by (auto simp: encodeCompressedPayload_def Let_def)

text \<open>What a peer can make the receiver buffer for one DATA frame.\<close>

lemma decodeCompressedPayload_bound:
  assumes "decodeCompressedPayload F payload = Inr data" and "length payload \<le> MaxDataPayload"
  shows "data \<noteq> []" and "length data \<le> MaxDataPayload - 1"
  using assms
  by (auto simp: decodeCompressedPayload_def frame_consts split: if_splits prod.splits option.splits)

text \<open>Stored blocks: a codec that satisfies the contract.\<close>

definition stored :: flate where
  "stored = \<lparr>deflate = (\<lambda>d. d), inflate = (\<lambda>d. (d, None)), inflate_close = (\<lambda>d. None)\<rparr>"

interpretation stored: flate_codec stored
  by unfold_locales (simp_all add: stored_def)

text \<open>
  C23: the compression of a DATA payload loses nothing. For any DEFLATE codec whose reader returns
  what its writer was given and whose writer emits something, decoding an encoded payload gives the payload back, and the encoded
  form fits one DATA frame.
\<close>

theorem compression_round_trip:
  assumes "\<And>d. inflate F (deflate F d) = (d, None)" and "\<And>d. inflate_close F (deflate F d) = None"
    and "\<And>d. d \<noteq> [] \<Longrightarrow> deflate F d \<noteq> []" and "data \<noteq> []" and "length data \<le> MaxDataPayload - 1"
  shows "\<exists>payload. encodeCompressedPayload F data = Inr payload \<and> decodeCompressedPayload F payload = Inr data
    \<and> 0 < length payload \<and> length payload \<le> MaxDataPayload"
proof -
  obtain payload where p: "encodeCompressedPayload F data = Inr payload"
    using encodeCompressedPayload_Inr [OF assms(4,5)] by blast
  have "flate_codec F" using assms(1-3) by unfold_locales
  then show ?thesis
    using p flate_codec.decode_encode [OF _ p] encodeCompressedPayload_size [OF p] by auto
qed

theorem compression_round_trip_witness:
  "\<exists>payload. encodeCompressedPayload stored [1, 2, 3] = Inr payload \<and> decodeCompressedPayload stored payload = Inr [1, 2, 3]
    \<and> 0 < length payload \<and> length payload \<le> MaxDataPayload"
  by (rule compression_round_trip) (simp_all add: stored_def frame_consts)

end
