(* ===== verification/Codec.thy ===== *)
theory Codec
  imports Main
begin

text \<open>
  The interface of an encoding: what a decoder gives back for what an encoder made. The lemmas are proved once here; each
  encoding of the program interprets the locale it satisfies with its own definitions.
\<close>

locale wire_codec =
  fixes encode :: "'a \<Rightarrow> 'b"
    and decode :: "'b \<Rightarrow> 'e + 'a"
    and valid :: "'a \<Rightarrow> bool"
  assumes decode_encode: "valid x \<Longrightarrow> decode (encode x) = Inr x"
begin

lemma encode_inj: "valid x \<Longrightarrow> valid y \<Longrightarrow> encode x = encode y \<longleftrightarrow> x = y"
  using decode_encode by (metis sum.inject(2))

end

text \<open>A decoder that accepts nothing but encodings: each value has one encoding, and each accepted input one value.\<close>

locale exact_codec = wire_codec +
  assumes decode_exact: "decode b = Inr x \<Longrightarrow> valid x \<and> encode x = b"
begin

lemma decode_iff: "decode b = Inr x \<longleftrightarrow> valid x \<and> b = encode x"
  using decode_encode decode_exact by blast

lemma decode_fails: "(\<exists>e. decode b = Inl e) \<longleftrightarrow> b \<notin> encode ` {x. valid x}"
proof (cases "decode b")
  case (Inl e)
  then show ?thesis using decode_encode by auto
next
  case (Inr x)
  then show ?thesis using decode_exact by auto
qed

end

end
