(* ===== verification/Service_List.thy ===== *)
theory Service_List
  imports Frame Codec
begin

text \<open>
  The service list a server advertises, \<open>encodeServices\<close> and \<open>decodeServices\<close> of
  \<open>internal/mux/session.go\<close>. The decoder keeps the payload and an offset, as the code does; slices
  out of range are the error value \<open>Panic\<close>. The lemmas show that the decoder never panics, that it
  inverts the encoder, and that it accepts nothing but encodings.
\<close>

record Service =
  svc_Name :: string
  svc_Host :: string
  svc_Port :: int

definition maxServiceName :: nat where "maxServiceName = 64"

definition encodeService :: "Service \<Rightarrow> bytes" where
  "encodeService s =
     [of_nat (length (svc_Name s))] @ bytes_of (svc_Name s)
     @ put_uint16 (of_nat (length (svc_Host s))) @ bytes_of (svc_Host s)
     @ put_uint16 (word_of_int (svc_Port s))"

definition encodeServices :: "Service list \<Rightarrow> bytes" where
  "encodeServices services = put_uint16 (of_nat (length services)) @ concat (map encodeService services)"

abbreviation protocolError :: "string \<Rightarrow> go_error" where
  "protocolError text \<equiv> Wrapped '''' (Sentinel ErrProtocol) ('': '' @ text)"

text \<open>One turn of the decoding loop: the entry at \<open>offset\<close> and the offset behind it.\<close>

definition decodeService :: "bytes \<Rightarrow> nat \<Rightarrow> go_error + Service \<times> nat" where
  "decodeService payload offset =
     (if offset \<ge> length payload then Inl (protocolError ''truncated service name'')
      else
        let nameLength = unat (payload ! offset); o1 = offset + 1 in
        if nameLength > maxServiceName \<or> o1 + nameLength + 2 > length payload
        then Inl (protocolError ''invalid service entry'')
        else
          case go_slice payload o1 (o1 + nameLength) of
            None \<Rightarrow> raise Panic
          | Some name \<Rightarrow>
              let o2 = o1 + nameLength in
              if o2 + 2 > length payload then Inl (protocolError ''truncated service host'')
              else
                let hostLength = unat (uint16_of (part payload o2 2)); o3 = o2 + 2 in
                if o3 + hostLength + 2 > length payload then Inl (protocolError ''invalid service host'')
                else
                  case go_slice payload o3 (o3 + hostLength) of
                    None \<Rightarrow> raise Panic
                  | Some host \<Rightarrow>
                      let o4 = o3 + hostLength; port = uint (uint16_of (part payload o4 2)) in
                      if port < 1 \<or> port > 65535 then Inl (protocolError ''invalid service port'')
                      else Inr (\<lparr>svc_Name = string_of name, svc_Host = string_of host, svc_Port = port\<rparr>, o4 + 2))"

fun decodeLoop :: "nat \<Rightarrow> bytes \<Rightarrow> nat \<Rightarrow> Service list \<Rightarrow> go_error + Service list \<times> nat" where
  "decodeLoop 0 payload offset services = Inr (services, offset)"
| "decodeLoop (Suc n) payload offset services =
     (case decodeService payload offset of
        Inl e \<Rightarrow> Inl e
      | Inr (s, offset') \<Rightarrow> decodeLoop n payload offset' (services @ [s]))"

definition decodeServices :: "bytes \<Rightarrow> go_error + Service list" where
  "decodeServices payload =
     (if length payload < 2 then Inl (protocolError ''truncated service list'')
      else
        case decodeLoop (unat (uint16_of (part payload 0 2))) payload 2 [] of
          Inl e \<Rightarrow> Inl e
        | Inr (services, offset) \<Rightarrow>
            if offset \<noteq> length payload then Inl (protocolError ''trailing service list data'')
            else Inr services)"

section \<open>Lemmas\<close>

text \<open>The services that the encoding can represent.\<close>

definition service_ok :: "Service \<Rightarrow> bool" where
  "service_ok s \<longleftrightarrow> length (svc_Name s) \<le> maxServiceName \<and> length (svc_Host s) < 65536
     \<and> 1 \<le> svc_Port s \<and> svc_Port s \<le> 65535"

lemma unat_of_char: "unat (of_char c :: byte) = of_char c"
proof -
  have "(of_char c :: byte) = of_nat (of_char c)" by (simp add: of_nat_of_char)
  moreover have "(of_char c :: nat) < 256" by (rule nat_of_char_less_256)
  ultimately show ?thesis using unat_of_nat_less [of "of_char c :: nat", where 'a = 8] by simp
qed

lemma of_char_unat: "(of_char (char_of (unat b) :: char) :: byte) = b"
proof (rule word_eq_unatI)
  have "unat b < 256" using unat_less_pow [of b] by simp
  then show "unat (of_char (char_of (unat b) :: char) :: byte) = unat b" by (simp add: unat_of_char)
qed

lemma string_of_bytes_of [codec]: "string_of (bytes_of s) = s"
  by (induction s) (auto simp: string_of_def bytes_of_def unat_of_char)

lemma bytes_of_string_of [codec]: "bytes_of (string_of b) = b"
  by (induction b) (auto simp: string_of_def bytes_of_def of_char_unat)

lemma part_at:
  "length pre = i \<Longrightarrow> length x = n \<Longrightarrow> part (pre @ x @ rest) i n = x"
  by (simp add: part_def)

lemma decodeService_encode:
  assumes "service_ok s"
  shows "decodeService (pre @ encodeService s @ rest) (length pre) = Inr (s, length pre + length (encodeService s))"
proof -
  let ?n = "length (svc_Name s)" and ?h = "length (svc_Host s)" and ?k = "length pre"
  let ?payload = "pre @ encodeService s @ rest"
  have n: "unat (of_nat ?n :: byte) = ?n" using assms by (intro unat_of_nat_less) (simp add: service_ok_def maxServiceName_def)
  have h: "unat (of_nat ?h :: u16) = ?h" using assms by (intro unat_of_nat_less) (simp add: service_ok_def)
  have p: "uint (word_of_int (svc_Port s) :: u16) = svc_Port s"
    using assms by (intro uint_of_int_small) (simp_all add: service_ok_def)
  define P where "P = ?payload"
  have len: "length P = ?k + 1 + ?n + 2 + ?h + 2 + length rest" by (simp add: P_def encodeService_def codec)
  have name: "part P (?k + 1) ?n = bytes_of (svc_Name s)"
    using part_at [of "pre @ [of_nat ?n]" "?k + 1" "bytes_of (svc_Name s)" ?n] by (simp add: P_def encodeService_def)
  have hl: "part P (?k + 1 + ?n) 2 = put_uint16 (of_nat ?h)"
    using part_at [of "pre @ [of_nat ?n] @ bytes_of (svc_Name s)" "?k + 1 + ?n" "put_uint16 (of_nat ?h)" 2]
    by (simp add: P_def encodeService_def codec)
  have host: "part P (?k + 1 + ?n + 2) ?h = bytes_of (svc_Host s)"
    using part_at [of "pre @ [of_nat ?n] @ bytes_of (svc_Name s) @ put_uint16 (of_nat ?h)" "?k + 1 + ?n + 2" "bytes_of (svc_Host s)" ?h]
    by (simp add: P_def encodeService_def codec)
  have port: "part P (?k + 1 + ?n + 2 + ?h) 2 = put_uint16 (word_of_int (svc_Port s))"
    using part_at [of "pre @ [of_nat ?n] @ bytes_of (svc_Name s) @ put_uint16 (of_nat ?h) @ bytes_of (svc_Host s)"
        "?k + 1 + ?n + 2 + ?h" "put_uint16 (word_of_int (svc_Port s))" 2]
    by (simp add: P_def encodeService_def codec)
  have hd: "P ! ?k = of_nat ?n" by (simp add: P_def encodeService_def)
  have s1: "go_slice P (?k + 1) (?k + 1 + ?n) = Some (bytes_of (svc_Name s))"
    using len name by (subst go_slice_part) simp_all
  have s2: "go_slice P (?k + 1 + ?n + 2) (?k + 1 + ?n + 2 + ?h) = Some (bytes_of (svc_Host s))"
    using len host by (subst go_slice_part) simp_all
  have end': "?k + 1 + ?n + 2 + ?h + 2 = ?k + length (encodeService s)" by (simp add: encodeService_def codec)
  have "decodeService P ?k = Inr (s, ?k + 1 + ?n + 2 + ?h + 2)"
    using assms len
    by (simp add: decodeService_def Let_def hd n s1 [simplified] hl [simplified] h s2 [simplified] port [simplified] p service_ok_def codec)
  then show ?thesis by (simp only: end' P_def)
qed

lemma decodeLoop_encode:
  assumes "\<forall>s \<in> set services. service_ok s"
  shows "decodeLoop (length services) (pre @ concat (map encodeService services) @ rest) (length pre) acc
    = Inr (acc @ services, length pre + length (concat (map encodeService services)))"
  using assms
proof (induction services arbitrary: pre acc)
  case (Cons s services)
  have "decodeService (pre @ concat (map encodeService (s # services)) @ rest) (length pre)
      = Inr (s, length pre + length (encodeService s))"
    using decodeService_encode [of s pre "concat (map encodeService services) @ rest"] Cons.prems by simp
  moreover have "pre @ concat (map encodeService (s # services)) @ rest
      = (pre @ encodeService s) @ concat (map encodeService services) @ rest" by simp
  ultimately show ?case using Cons.IH [of "pre @ encodeService s" "acc @ [s]"] Cons.prems by (simp add: add.assoc)
qed simp

text \<open>Every accepted entry is the encoding of what it decodes to, and no slice is out of range.\<close>

lemma decodeService_sound:
  assumes "decodeService payload offset = Inr (s, offset')"
  shows "service_ok s" and "offset' = offset + length (encodeService s)"
    and "offset' \<le> length payload" and "part payload offset (offset' - offset) = encodeService s"
proof -
  define n where "n = unat (payload ! offset)"
  define h where "h = unat (uint16_of (part payload (offset + 1 + n) 2))"
  define port where "port = uint16_of (part payload (offset + 1 + n + 2 + h) 2)"
  have c: "\<not> offset \<ge> length payload" "\<not> (n > maxServiceName \<or> offset + 1 + n + 2 > length payload)"
      "\<not> offset + 1 + n + 2 + h + 2 > length payload" "\<not> (uint port < 1 \<or> uint port > 65535)"
      "offset' = offset + 1 + n + 2 + h + 2"
      "s = \<lparr>svc_Name = string_of (part payload (offset + 1) n), svc_Host = string_of (part payload (offset + 1 + n + 2) h),
             svc_Port = uint port\<rparr>"
    using assms unfolding decodeService_def Let_def n_def [symmetric] h_def [symmetric] port_def [symmetric]
    by (auto simp: go_slice_part split: if_splits option.splits)
  have n: "n \<le> 64" "offset < length payload" and le: "offset + 1 + n + 2 + h + 2 \<le> length payload"
    using c(1-3) by (auto simp: maxServiceName_def)
  have h: "h < 65536" using unat_less_pow [of "uint16_of (part payload (offset + 1 + n) 2)"] by (simp add: h_def)
  have len: "length (part payload (offset + 1) n) = n" "length (part payload (offset + 1 + n + 2) h) = h"
    using le by (simp_all add: length_part)
  show ok: "service_ok s" using c(4) n h len by (simp add: c(6) service_ok_def maxServiceName_def)
  have e: "encodeService s = [payload ! offset] @ part payload (offset + 1) n @ part payload (offset + 1 + n) 2
      @ part payload (offset + 1 + n + 2) h @ part payload (offset + 1 + n + 2 + h) 2"
  proof -
    have "put_uint16 (word_of_int (uint port)) = part payload (offset + 1 + n + 2 + h) 2"
      using put_uint_of_uint(1) [of "part payload (offset + 1 + n + 2 + h) 2"] le by (simp add: port_def length_part)
    moreover have "put_uint16 (of_nat h) = part payload (offset + 1 + n) 2"
      using put_uint_of_uint(1) [of "part payload (offset + 1 + n) 2"] le by (simp add: h_def length_part)
    moreover have "(of_nat n :: byte) = payload ! offset" by (simp add: n_def)
    ultimately show ?thesis using len by (simp add: encodeService_def c(6) codec)
  qed
  have one: "[payload ! offset] = part payload offset 1"
    using n(2) by (simp add: part_def take_Suc_conv_app_nth drop_Suc hd_drop_conv_nth [symmetric] take_Suc neq_Nil_conv)
  have "encodeService s = part payload offset (1 + (n + (2 + (h + 2))))"
    unfolding e one by (simp only: part_append_part)
  moreover have "offset' - offset = 1 + (n + (2 + (h + 2)))" using c(5) by simp
  ultimately show "part payload offset (offset' - offset) = encodeService s" by simp
  then show "offset' \<le> length payload" "offset' = offset + length (encodeService s)"
    using le c(5) by (auto simp: length_part simp flip: \<open>part payload offset (offset' - offset) = encodeService s\<close>)
qed

lemma decodeService_no_panic: "decodeService payload offset \<noteq> raise Panic"
  by (auto simp: decodeService_def go_slice_def Let_def split: if_splits option.splits)

lemma decodeLoop_no_panic: "decodeLoop n payload offset acc \<noteq> raise Panic"
  by (induction n arbitrary: offset acc) (auto simp: decodeService_no_panic split: sum.splits)

lemma decodeLoop_sound:
  assumes "decodeLoop n payload offset acc = Inr (services, offset')" and "offset \<le> length payload"
  shows "\<exists>new. services = acc @ new \<and> length new = n \<and> (\<forall>s \<in> set new. service_ok s)
    \<and> offset \<le> offset' \<and> offset' \<le> length payload
    \<and> part payload offset (offset' - offset) = concat (map encodeService new)"
  using assms
proof (induction n arbitrary: offset acc)
  case (Suc n)
  then obtain s o1 where d: "decodeService payload offset = Inr (s, o1)"
    and run: "decodeLoop n payload o1 (acc @ [s]) = Inr (services, offset')"
    by (auto split: sum.splits)
  note ds = decodeService_sound [OF d]
  obtain new where new: "services = (acc @ [s]) @ new" "length new = n" "\<forall>s \<in> set new. service_ok s"
      "o1 \<le> offset'" "offset' \<le> length payload" "part payload o1 (offset' - o1) = concat (map encodeService new)"
    using Suc.IH [OF run ds(3)] by blast
  have "part payload offset (offset' - offset) = part payload offset (o1 - offset) @ part payload o1 (offset' - o1)"
    using part_append_part [of payload offset "o1 - offset" "offset' - o1"] ds(2) new(4) by simp
  then show ?case using new ds by (intro exI [of _ "s # new"]) auto
qed simp

lemma services_decoded:
  assumes "\<forall>s \<in> set services. service_ok s" and "length services < 65536"
  shows "decodeServices (encodeServices services) = Inr services"
proof -
  have n: "unat (of_nat (length services) :: u16) = length services" using assms(2) by (intro unat_of_nat_less) simp
  have hd: "part (encodeServices services) 0 2 = put_uint16 (of_nat (length services))"
    by (simp add: encodeServices_def part_def codec)
  have len: "length (encodeServices services) = 2 + length (concat (map encodeService services))"
    by (simp add: encodeServices_def codec)
  have "decodeLoop (length services) (encodeServices services) 2 []
      = Inr (services, 2 + length (concat (map encodeService services)))"
    using decodeLoop_encode [OF assms(1), of "put_uint16 (of_nat (length services))" "[]" "[]"]
    by (simp add: encodeServices_def codec)
  then show ?thesis using len by (simp add: decodeServices_def hd n codec)
qed

lemma services_decoded_exact:
  assumes "decodeServices payload = Inr services"
  shows "list_all service_ok services \<and> length services < 65536 \<and> encodeServices services = payload"
proof -
  have two: "2 \<le> length payload"
    and run: "decodeLoop (unat (uint16_of (part payload 0 2))) payload 2 [] = Inr (services, length payload)"
    using assms by (auto simp: decodeServices_def split: sum.splits if_splits)
  from decodeLoop_sound [OF run two] have new: "length services = unat (uint16_of (part payload 0 2))"
      "\<forall>s \<in> set services. service_ok s" "part payload 2 (length payload - 2) = concat (map encodeService services)"
    by auto
  have "put_uint16 (of_nat (length services)) = part payload 0 2"
    using put_uint_of_uint(1) [of "part payload 0 2"] two by (simp add: new(1) length_part)
  moreover have "part payload 0 2 @ part payload 2 (length payload - 2) = payload"
    using two by (simp add: part_def)
  moreover have "length services < 65536"
    unfolding new(1) using unsigned_less [of "uint16_of (part payload 0 2)", where ?'a = nat] by simp
  ultimately show ?thesis using new(2,3) by (simp add: encodeServices_def list_all_iff)
qed

interpretation service_codec: exact_codec encodeServices decodeServices "\<lambda>ss. list_all service_ok ss \<and> length ss < 65536"
  by unfold_locales (auto simp: list_all_iff intro: services_decoded dest: services_decoded_exact)

section \<open>Properties\<close>

text \<open>
  C22: the encoding of a service list is exact. The decoder never panics, whatever the payload; it accepts a payload exactly when that is the
  encoding of a list a server can advertise (names, hosts and ports in range, fewer than 65536 services), and gives that list back;
  two such lists are never encoded alike.
\<close>

theorem services_codec_exact:
  "decodeServices payload \<noteq> raise Panic
   \<and> (decodeServices payload = Inr services \<longleftrightarrow> (list_all service_ok services \<and> length services < 65536) \<and> payload = encodeServices services)
   \<and> (list_all service_ok services \<and> length services < 65536 \<and> list_all service_ok others \<and> length others < 65536 \<longrightarrow>
        (encodeServices services = encodeServices others \<longleftrightarrow> services = others))"
proof (intro conjI)
  show "decodeServices payload \<noteq> raise Panic"
    by (auto simp: decodeServices_def dest: decodeLoop_no_panic [THEN notE] split: sum.splits if_splits)
qed (use service_codec.decode_iff service_codec.encode_inj in simp_all)

theorem services_codec_exact_witness:
  "decodeServices [0, 1, 1, 97, 0, 0, 0, 80] = Inr [\<lparr>svc_Name = ''a'', svc_Host = '''', svc_Port = 80\<rparr>]
   \<and> encodeServices [\<lparr>svc_Name = ''a'', svc_Host = '''', svc_Port = 80\<rparr>] = [0, 1, 1, 97, 0, 0, 0, 80]
   \<and> encodeServices [\<lparr>svc_Name = ''a'', svc_Host = '''', svc_Port = 80\<rparr>] \<noteq> encodeServices []"
proof -
  let ?a = "[\<lparr>svc_Name = ''a'', svc_Host = '''', svc_Port = 80\<rparr>]"
  have d: "decodeServices [0, 1, 1, 97, 0, 0, 0, 80] = Inr ?a" by code_simp
  then have "list_all service_ok ?a" "encodeServices ?a = [0, 1, 1, 97, 0, 0, 0, 80]"
    using services_codec_exact [of "[0, 1, 1, 97, 0, 0, 0, 80]" ?a "[]"] by simp_all
  then show ?thesis using d services_codec_exact [of "[0, 1, 1, 97, 0, 0, 0, 80]" ?a "[]"] by simp
qed

text \<open>
  A service list above 16 KiB is written but never read. \<open>Validate\<close> puts no upper bound on a
  SERVICE_LIST payload, so the writer emits the frame, and \<open>ReadFrame\<close> of the peer fails with
  \<open>ErrFrameTooLarge\<close>.
\<close>

theorem long_service_list_refused:
  assumes "length payload > MaxDataPayload" and "length payload < 2 ^ 32"
  defines "f \<equiv> \<lparr>FType = FrameServiceList, StreamID = 0, Payload = payload\<rparr>"
  shows "Validate f = None
    \<and> (\<exists>e r'. ReadFrame \<lparr>rd_data = encodeFrame f, rd_err = e0\<rparr> = (Inl e, r') \<and> errors_is e ErrFrameTooLarge)"
proof -
  have n: "unat (of_nat (length payload) :: u32) = length payload" using assms(2) by (intro unat_of_nat_less) simp
  have hdr: "take 9 (encodeFrame f) = [FrameServiceList] @ put_uint32 0 @ put_uint32 (of_nat (length payload))"
    by (simp add: f_def encodeFrame_def codec)
  have l: "9 \<le> length (encodeFrame f)" by (simp add: f_def encodeFrame_def codec)
  have p: "part ([FrameServiceList] @ put_uint32 0 @ put_uint32 (of_nat (length payload))) 5 4 = put_uint32 (of_nat (length payload))"
    by (simp add: part_def codec)
  have "Validate f = None" using assms(1) by (auto simp: f_def Validate_def frame_types Let_def)
  moreover have "\<exists>e r'. ReadFrame \<lparr>rd_data = encodeFrame f, rd_err = e0\<rparr> = (Inl e, r') \<and> errors_is e ErrFrameTooLarge"
    using l hdr p n assms(1) by (simp add: ReadFrame_def ReadFull_def HeaderSize_def Let_def codec)
  ultimately show ?thesis by blast
qed

theorem long_service_list_refused_witness:
  "Validate \<lparr>FType = FrameServiceList, StreamID = 0, Payload = replicate 20000 0\<rparr> = None
    \<and> (\<exists>e r'. ReadFrame \<lparr>rd_data = encodeFrame \<lparr>FType = FrameServiceList, StreamID = 0, Payload = replicate 20000 0\<rparr>,
                rd_err = Sentinel EOF\<rparr> = (Inl e, r') \<and> errors_is e ErrFrameTooLarge)"
  by (rule long_service_list_refused) (simp_all add: frame_consts)

end
