(* ===== verification/Traffic.thy ===== *)
theory Traffic
  imports Base
begin

text \<open>
  The traffic counters of \<open>internal/traffic/counter.go\<close> and the rates that
  \<open>internal/app/traffic.go\<close> derives from two snapshots. The atomics are 64-bit words that wrap; every
  method is one atomic step per counter.
\<close>

record Counter =
  c_tx :: u64
  c_rx :: u64
  c_compressionEnabled :: bool
  c_txUncompressed :: u64
  c_txCompressed :: u64
  c_rxUncompressed :: u64
  c_rxCompressed :: u64

record traffic_snapshot =
  sn_TX :: u64
  sn_RX :: u64
  sn_CompressionEnabled :: bool
  sn_TXUncompressed :: u64
  sn_TXCompressed :: u64
  sn_RXUncompressed :: u64
  sn_RXCompressed :: u64

definition zeroCounter :: Counter where
  "zeroCounter = \<lparr>c_tx = 0, c_rx = 0, c_compressionEnabled = False, c_txUncompressed = 0, c_txCompressed = 0,
     c_rxUncompressed = 0, c_rxCompressed = 0\<rparr>"

definition AddTX :: "u64 \<Rightarrow> Counter \<Rightarrow> Counter" where
  "AddTX n c = c\<lparr>c_tx := c_tx c + n\<rparr>"

definition AddRX :: "u64 \<Rightarrow> Counter \<Rightarrow> Counter" where
  "AddRX n c = c\<lparr>c_rx := c_rx c + n\<rparr>"

definition EnableCompression :: "Counter \<Rightarrow> Counter" where
  "EnableCompression c = c\<lparr>c_compressionEnabled := True\<rparr>"

definition AddCompressionTX :: "u64 \<Rightarrow> u64 \<Rightarrow> Counter \<Rightarrow> Counter" where
  "AddCompressionTX uncompressed compressed c =
     c\<lparr>c_txUncompressed := c_txUncompressed c + uncompressed, c_txCompressed := c_txCompressed c + compressed\<rparr>"

definition AddCompressionRX :: "u64 \<Rightarrow> u64 \<Rightarrow> Counter \<Rightarrow> Counter" where
  "AddCompressionRX uncompressed compressed c =
     c\<lparr>c_rxUncompressed := c_rxUncompressed c + uncompressed, c_rxCompressed := c_rxCompressed c + compressed\<rparr>"

definition Counter_Snapshot :: "Counter \<Rightarrow> traffic_snapshot" where
  "Counter_Snapshot c = \<lparr>sn_TX = c_tx c, sn_RX = c_rx c, sn_CompressionEnabled = c_compressionEnabled c,
     sn_TXUncompressed = c_txUncompressed c, sn_TXCompressed = c_txCompressed c,
     sn_RXUncompressed = c_rxUncompressed c, sn_RXCompressed = c_rxCompressed c\<rparr>"

end
