(* ===== verification/Mux.thy ===== *)
theory Mux
  imports Compression Service_List Traffic
begin

text \<open>
  The multiplexer of \<open>internal/mux/session.go\<close> and \<open>internal/mux/stream.go\<close>. Streams live in a heap:
  a pointer \<open>*Stream\<close> is an index into \<open>m_heap\<close>, since a stream that has left the session's map is
  still used by whoever holds it. The map \<open>streams\<close> is an association list from identifiers to
  pointers; the channels \<open>control\<close>, \<open>ready\<close> and \<open>accept\<close> are bounded queues. Each method runs to its end
  or to the point where it waits; a wait is the outcome \<open>None\<close> or \<open>WriteWaits\<close>. Where a \<open>select\<close> has
  several ready cases Go picks one at random: \<open>m_pick\<close> is the sequence of those choices.
\<close>

section \<open>State\<close>

record Stream =
  sm_id :: u32
  sm_service :: string
  sm_opened :: bool
  sm_openErr :: "go_error option"
  sm_closed :: bool
  sm_err :: "go_error option"
  sm_localWriteClosed :: bool
  sm_remoteWriteClosed :: bool
  sm_closeAfterDrain :: bool
  sm_sendWindow :: u32
  sm_receiveWindow :: u32
  sm_pendingWindowUpdate :: u32
  sm_inbound :: bytes
  sm_outbound :: "Frame list"
  sm_scheduled :: bool
  sm_readDeadline :: instant
  sm_writeDeadline :: instant
  sm_notify :: nat

record Mux =
  m_client :: bool
  m_maxStreams :: nat
  m_compression :: bool
  m_traffic :: "Counter option"
  m_services :: "Service list"
  m_heap :: "Stream list"
  m_streams :: "(u32 \<times> nat) list"
  m_nextID :: u32
  m_lastID :: u32
  m_closed :: bool
  m_err :: "go_error option"
  m_control :: "Frame list"
  m_ready :: "u32 list"
  m_accept :: "nat list"
  m_done :: bool
  m_connClosed :: bool
  m_servicesReady :: bool
  m_servicesErr :: "go_error option"
  m_pick :: "nat \<Rightarrow> bool"
  m_picks :: nat

definition acceptBacklogFactor :: nat where "acceptBacklogFactor = 2"

text \<open>The capacities of the channels.\<close>

definition controlCap :: "Mux \<Rightarrow> nat" where "controlCap m = m_maxStreams m * 8"
definition readyCap :: "Mux \<Rightarrow> nat" where "readyCap m = m_maxStreams m"
definition acceptCap :: "Mux \<Rightarrow> nat" where "acceptCap m = m_maxStreams m * acceptBacklogFactor"

definition pickCase :: "Mux \<Rightarrow> bool \<times> Mux" where
  "pickCase m = (m_pick m (m_picks m), m\<lparr>m_picks := m_picks m + 1\<rparr>)"

abbreviation at :: "Mux \<Rightarrow> nat \<Rightarrow> Stream" where
  "at m p \<equiv> m_heap m ! p"

definition upd :: "nat \<Rightarrow> (Stream \<Rightarrow> Stream) \<Rightarrow> Mux \<Rightarrow> Mux" where
  "upd p f m = m\<lparr>m_heap := (m_heap m)[p := f (at m p)]\<rparr>"

abbreviation mkFrame :: "byte \<Rightarrow> u32 \<Rightarrow> bytes \<Rightarrow> Frame" where
  "mkFrame ty sid payload \<equiv> \<lparr>FType = ty, StreamID = sid, Payload = payload\<rparr>"

section \<open>Sessions: construction, errors and shutdown\<close>

definition newStream :: "u32 \<Rightarrow> Stream" where
  "newStream sid =
     \<lparr>sm_id = sid, sm_service = '''', sm_opened = False, sm_openErr = None, sm_closed = False, sm_err = None,
      sm_localWriteClosed = False, sm_remoteWriteClosed = False, sm_closeAfterDrain = False,
      sm_sendWindow = InitialStreamWindow, sm_receiveWindow = InitialStreamWindow, sm_pendingWindowUpdate = 0,
      sm_inbound = [], sm_outbound = [], sm_scheduled = False, sm_readDeadline = 0, sm_writeDeadline = 0,
      sm_notify = 0\<rparr>"

definition newSession :: "bool \<Rightarrow> int \<Rightarrow> bool \<Rightarrow> Counter option \<Rightarrow> (nat \<Rightarrow> bool) \<Rightarrow> Mux" where
  "newSession client maxStreams0 compression counter pick =
     (let maxStreams = (if maxStreams0 \<le> 0 then 1 else nat maxStreams0) in
      \<lparr>m_client = client, m_maxStreams = maxStreams, m_compression = compression,
       m_traffic = (if compression then map_option EnableCompression counter else counter),
       m_services = [], m_heap = [], m_streams = [], m_nextID = (if client then 1 else 2), m_lastID = 0,
       m_closed = False, m_err = None, m_control = [], m_ready = [], m_accept = [], m_done = False,
       m_connClosed = False, m_servicesReady = False, m_servicesErr = None, m_pick = pick, m_picks = 0\<rparr>)"

definition newServerWithServices :: "int \<Rightarrow> bool \<Rightarrow> Counter option \<Rightarrow> Service list \<Rightarrow> (nat \<Rightarrow> bool) \<Rightarrow> Mux" where
  "newServerWithServices maxStreams compression counter services pick =
     (let s = newSession False maxStreams compression counter pick in
      s\<lparr>m_services := services, m_control := m_control s @ [mkFrame FrameServiceList 0 (encodeServices services)]\<rparr>)"

definition muxErrorLocked :: "Mux \<Rightarrow> go_error" where
  "muxErrorLocked m = (case m_err m of Some e \<Rightarrow> e | None \<Rightarrow> Sentinel ErrSessionClosed)"

definition streamSignal :: "Stream \<Rightarrow> Stream" where
  "streamSignal s = s\<lparr>sm_notify := sm_notify s + 1\<rparr>"

definition streamErrorLocked :: "Stream \<Rightarrow> go_error option" where
  "streamErrorLocked s =
     (if sm_err s \<noteq> None then sm_err s
      else if sm_openErr s \<noteq> None then sm_openErr s
      else if sm_closed s then Some (Sentinel ErrClosedPipe) else None)"

definition errorMessage :: "go_error option \<Rightarrow> string" where
  "errorMessage err =
     (case err of None \<Rightarrow> ''stream reset''
      | Some e \<Rightarrow> if length (err_text e) > MaxErrorPayload then take MaxErrorPayload (err_text e) else err_text e)"

definition receiveReset :: "nat \<Rightarrow> go_error option \<Rightarrow> Mux \<Rightarrow> Mux" where
  "receiveReset p err m =
     (if sm_closed (at m p) then m
      else upd p (\<lambda>s. streamSignal (s\<lparr>sm_closed := True,
             sm_err := Some (case err of None \<Rightarrow> Sentinel ErrClosedPipe | Some e \<Rightarrow> e)\<rparr>)) m)"

text \<open>The \<open>sync.Once\<close> of \<open>shutdown\<close> has run exactly when \<open>done\<close> is closed.\<close>

definition shutdown :: "go_error \<Rightarrow> Mux \<Rightarrow> Mux" where
  "shutdown err m =
     (if m_done m then m
      else
        let e = (if errors_is err EOF then Sentinel ErrSessionClosed else err) in
        fold (\<lambda>p. receiveReset p (Some e)) (map snd (m_streams m))
          (m\<lparr>m_closed := True, m_err := Some e, m_streams := [], m_done := True, m_connClosed := True\<rparr>))"

definition sendControl :: "Frame \<Rightarrow> Mux \<Rightarrow> go_error option \<times> Mux" where
  "sendControl frame m =
     (let room = length (m_control m) < controlCap m in
      if m_done m then
        (if room then
           (case pickCase m of (c, m1) \<Rightarrow>
              if c then (Some (muxErrorLocked m1), m1)
              else (None, m1\<lparr>m_control := m_control m1 @ [frame]\<rparr>))
         else (Some (muxErrorLocked m), m))
      else if room then (None, m\<lparr>m_control := m_control m @ [frame]\<rparr>)
      else
        let err = ErrorText ''multiplexing control queue full'' in (Some err, shutdown err m))"

section \<open>The scheduler queue\<close>

text \<open>The rotation of \<open>removeStream\<close>: every entry is taken out once, and put back unless it is \<open>sid\<close>.\<close>

fun rotate :: "nat \<Rightarrow> u32 \<Rightarrow> u32 list \<Rightarrow> u32 list" where
  "rotate 0 sid q = q"
| "rotate (Suc n) sid [] = rotate n sid []"
| "rotate (Suc n) sid (x # q) = rotate n sid (if x \<noteq> sid then q @ [x] else q)"

definition removeStream :: "u32 \<Rightarrow> Mux \<Rightarrow> Mux" where
  "removeStream sid m =
     m\<lparr>m_streams := gomap_del sid (m_streams m), m_ready := rotate (length (m_ready m)) sid (m_ready m)\<rparr>"

definition schedule :: "nat \<Rightarrow> Mux \<Rightarrow> go_error option \<times> Mux" where
  "schedule p m =
     (if map_of (m_streams m) (sm_id (at m p)) \<noteq> Some p then (None, m)
      else
        let room = length (m_ready m) < readyCap m in
        if m_done m then
          (if room then
             (case pickCase m of (c, m1) \<Rightarrow>
                if c then (Some (muxErrorLocked m1), m1)
                else (None, m1\<lparr>m_ready := m_ready m1 @ [sm_id (at m p)]\<rparr>))
           else (Some (muxErrorLocked m), m))
        else if room then (None, m\<lparr>m_ready := m_ready m @ [sm_id (at m p)]\<rparr>)
        else
          let err = ErrorText ''multiplexing scheduler queue full'' in (Some err, shutdown err m))"

text \<open>\<open>enqueueLocked\<close>: the flag says whether the stream has to be scheduled.\<close>

definition enqueueLocked :: "Frame \<Rightarrow> nat \<Rightarrow> Mux \<Rightarrow> bool \<times> Mux" where
  "enqueueLocked frame p m =
     (let m1 = upd p (\<lambda>s. s\<lparr>sm_outbound := sm_outbound s @ [frame]\<rparr>) m in
      if sm_scheduled (at m p) then (False, m1)
      else (True, upd p (\<lambda>s. s\<lparr>sm_scheduled := True\<rparr>) m1))"

definition enqueueAndSchedule :: "Frame \<Rightarrow> nat \<Rightarrow> Mux \<Rightarrow> go_error option \<times> Mux" where
  "enqueueAndSchedule frame p m =
     (case enqueueLocked frame p m of (needsSchedule, m1) \<Rightarrow> if needsSchedule then schedule p m1 else (None, m1))"

definition nextOutbound :: "nat \<Rightarrow> Mux \<Rightarrow> Frame option \<times> Mux" where
  "nextOutbound p m =
     (case sm_outbound (at m p) of
        [] \<Rightarrow> (None, upd p (\<lambda>s. s\<lparr>sm_scheduled := False\<rparr>) m)
      | frame # rest \<Rightarrow>
          let requeue = (rest \<noteq> []);
              m1 = upd p (\<lambda>s. s\<lparr>sm_outbound := rest, sm_scheduled := (if requeue then sm_scheduled s else False)\<rparr>) m in
          if requeue then (Some frame, snd (schedule p m1))
          else if sm_closeAfterDrain (at m p) then (Some frame, removeStream (sm_id (at m p)) m1)
          else (Some frame, m1))"

section \<open>Stream operations\<close>

definition Approve :: "nat \<Rightarrow> Mux \<Rightarrow> go_error option \<times> Mux" where
  "Approve p m =
     (if sm_closed (at m p) then (streamErrorLocked (at m p), m)
      else if sm_opened (at m p) then (None, m)
      else sendControl (mkFrame FrameOpenOK (sm_id (at m p)) []) (upd p (\<lambda>s. streamSignal (s\<lparr>sm_opened := True\<rparr>)) m))"

definition Reject :: "nat \<Rightarrow> go_error option \<Rightarrow> Mux \<Rightarrow> go_error option \<times> Mux" where
  "Reject p err m =
     (if sm_closed (at m p) then (None, m)
      else
        let m1 = upd p (\<lambda>s. streamSignal (s\<lparr>sm_closed := True, sm_err := Some (Sentinel ErrStreamRejected)\<rparr>)) m;
            m2 = removeStream (sm_id (at m p)) m1 in
        sendControl (mkFrame FrameOpenError (sm_id (at m p)) (bytes_of (errorMessage err))) m2)"

text \<open>One pass of \<open>waitOpened\<close>: \<open>None\<close> when it waits.\<close>

definition waitOpened :: "nat \<Rightarrow> Mux \<Rightarrow> go_error option option" where
  "waitOpened p m =
     (if sm_opened (at m p) then Some None
      else if sm_openErr (at m p) \<noteq> None \<or> sm_closed (at m p) then Some (streamErrorLocked (at m p))
      else None)"

definition markOpened :: "nat \<Rightarrow> go_error option \<Rightarrow> Mux \<Rightarrow> Mux" where
  "markOpened p err m =
     (if sm_closed (at m p) then m
      else upd p (\<lambda>s. streamSignal (
             if err = None then s\<lparr>sm_openErr := None, sm_opened := True\<rparr>
             else s\<lparr>sm_openErr := err, sm_opened := False, sm_closed := True, sm_err := err\<rparr>)) m)"

definition Stream_Read :: "nat \<Rightarrow> nat \<Rightarrow> Mux \<Rightarrow> (go_error + bytes) option \<times> Mux" where
  "Stream_Read n p m =
     (let s = at m p in
      if n = 0 then (Some (Inr []), m)
      else if sm_inbound s \<noteq> [] then
        (let data = take n (sm_inbound s);
             k = of_nat (length data);
             pending = sm_pendingWindowUpdate s + k;
             windowUpdate = (if pending \<ge> windowUpdateThreshold then pending else 0);
             m1 = upd p (\<lambda>s. s\<lparr>sm_inbound := drop n (sm_inbound s), sm_receiveWindow := sm_receiveWindow s + k,
                          sm_pendingWindowUpdate := (if pending \<ge> windowUpdateThreshold then 0 else pending)\<rparr>) m in
         (Some (Inr data),
          if windowUpdate > 0 then snd (sendControl (WindowUpdate (sm_id s) windowUpdate) m1) else m1))
      else if sm_remoteWriteClosed s then (Some (Inl (Sentinel EOF)), m)
      else if sm_closed s then
        (Some (Inl (case streamErrorLocked s of Some e \<Rightarrow> e | None \<Rightarrow> Sentinel ErrClosedPipe)), m)
      else (None, m))"

definition addCompressionTX :: "u64 \<Rightarrow> u64 \<Rightarrow> Mux \<Rightarrow> Mux" where
  "addCompressionTX n e m =
     (if m_compression m then m\<lparr>m_traffic := map_option (AddCompressionTX n e) (m_traffic m)\<rparr> else m)"

definition addCompressionRX :: "u64 \<Rightarrow> u64 \<Rightarrow> Mux \<Rightarrow> Mux" where
  "addCompressionRX n e m =
     (if m_compression m then m\<lparr>m_traffic := map_option (AddCompressionRX n e) (m_traffic m)\<rparr> else m)"

text \<open>The payload of one DATA frame: at most the frame, at most the window, encoded when negotiated.\<close>

definition writeChunk :: "bytes \<Rightarrow> nat \<Rightarrow> Mux \<Rightarrow> nat" where
  "writeChunk data p m =
     (let maxPayload = (if m_compression m then MaxDataPayload - 1 else MaxDataPayload) in
      min (length data) (min maxPayload (unat (sm_sendWindow (at m p)))))"

definition encodeChunk :: "flate \<Rightarrow> bytes \<Rightarrow> Mux \<Rightarrow> go_error + bytes" where
  "encodeChunk F chunk m = (if m_compression m then encodeCompressedPayload F chunk else Inr chunk)"

function (sequential) Stream_Write ::
  "flate \<Rightarrow> nat \<Rightarrow> bytes \<Rightarrow> nat \<Rightarrow> Mux \<Rightarrow> nat \<times> write_outcome \<times> Mux" where
  "Stream_Write F written [] p m = (written, WriteDone, m)"
| "Stream_Write F written data p m =
     (let s = at m p in
      if \<not> sm_opened s then
        (written, WriteFailed (case streamErrorLocked s of Some e \<Rightarrow> e | None \<Rightarrow> Sentinel ErrStreamRejected), m)
      else if sm_closed s \<or> sm_localWriteClosed s then
        (written, WriteFailed (case streamErrorLocked s of Some e \<Rightarrow> e | None \<Rightarrow> Sentinel ErrClosedPipe), m)
      else if sm_sendWindow s > 0 then
        (let n = writeChunk data p m in
         case encodeChunk F (take n data) m of
           Inl e \<Rightarrow> (written, WriteFailed e, m)
         | Inr payload \<Rightarrow>
             (case enqueueAndSchedule (mkFrame FrameData (sm_id s) payload) p
                     (upd p (\<lambda>s. s\<lparr>sm_sendWindow := sm_sendWindow s - of_nat n\<rparr>) m) of
                (Some e, m1) \<Rightarrow> (written, WriteFailed e, m1)
              | (None, m1) \<Rightarrow>
                  Stream_Write F (written + n) (drop n data) p
                    (addCompressionTX (of_nat n) (of_nat (length payload)) m1)))
      else (written, WriteWaits data, m))"
  by pat_completeness auto
termination
  by (relation "measure (\<lambda>(F, written, data, p, m). length data)")
    (auto simp: writeChunk_def frame_consts word_less_nat_alt)

declare Stream_Write.simps(2) [simp del]

definition receiveData :: "flate \<Rightarrow> bytes \<Rightarrow> nat \<Rightarrow> Mux \<Rightarrow> go_error option \<times> Mux" where
  "receiveData F data0 p m =
     (case (if m_compression m then decodeCompressedPayload F data0 else Inr data0) of
        Inl e \<Rightarrow> (Some (Wrapped '''' (Sentinel ErrProtocol) ('': compressed DATA: '' @ err_text e)), m)
      | Inr data \<Rightarrow>
          let s = at m p in
          if sm_closed s \<or> sm_remoteWriteClosed s \<or> \<not> sm_opened s then (Some (Sentinel ErrProtocol), m)
          else if of_nat (length data) > sm_receiveWindow s then
            (Some (ErrorText ''peer exceeded stream receive window''), m)
          else
            (None,
             addCompressionRX (of_nat (length data)) (of_nat (length data0))
               (upd p (\<lambda>s. streamSignal (s\<lparr>sm_receiveWindow := sm_receiveWindow s - of_nat (length data),
                  sm_inbound := sm_inbound s @ data\<rparr>)) m)))"

definition updateSendWindow :: "u32 \<Rightarrow> nat \<Rightarrow> Mux \<Rightarrow> go_error option \<times> Mux" where
  "updateSendWindow amount p m =
     (if amount = 0 \<or> amount > InitialStreamWindow - sm_sendWindow (at m p) then
        (Some (ErrorText ''invalid stream window update''), m)
      else (None, upd p (\<lambda>s. streamSignal (s\<lparr>sm_sendWindow := sm_sendWindow s + amount\<rparr>)) m))"

definition receiveFIN :: "nat \<Rightarrow> Mux \<Rightarrow> Mux" where
  "receiveFIN p m =
     (if sm_closed (at m p) then m else upd p (\<lambda>s. streamSignal (s\<lparr>sm_remoteWriteClosed := True\<rparr>)) m)"

definition CloseWrite :: "nat \<Rightarrow> Mux \<Rightarrow> go_error option \<times> Mux" where
  "CloseWrite p m =
     (if sm_localWriteClosed (at m p) \<or> sm_closed (at m p) then (None, m)
      else
        case enqueueLocked (mkFrame FrameFIN (sm_id (at m p)) []) p
               (upd p (\<lambda>s. s\<lparr>sm_localWriteClosed := True\<rparr>) m) of
          (needsSchedule, m1) \<Rightarrow>
            let m2 = upd p streamSignal m1 in
            if needsSchedule then schedule p m2 else (None, m2))"

definition CloseRead :: "nat \<Rightarrow> Mux \<Rightarrow> Mux" where
  "CloseRead p m = upd p (\<lambda>s. streamSignal (s\<lparr>sm_remoteWriteClosed := True, sm_inbound := []\<rparr>)) m"

definition Stream_Close :: "nat \<Rightarrow> Mux \<Rightarrow> go_error option \<times> Mux" where
  "Stream_Close p m =
     (let s = at m p; graceful = (sm_localWriteClosed s \<and> sm_remoteWriteClosed s) in
      if sm_closed s then (None, m)
      else
        let m1 = upd p (\<lambda>s. streamSignal (s\<lparr>sm_closed := True, sm_closeAfterDrain := graceful\<rparr>)) m in
        if graceful then (None, if sm_outbound s = [] then removeStream (sm_id s) m1 else m1)
        else sendControl (mkFrame FrameReset (sm_id s) (bytes_of ''stream closed'')) (removeStream (sm_id s) m1))"

definition Reset :: "nat \<Rightarrow> go_error \<Rightarrow> Mux \<Rightarrow> go_error option \<times> Mux" where
  "Reset p err m =
     (let s = at m p in
      if sm_closed s then (None, m)
      else
        let m1 = upd p (\<lambda>s. streamSignal (s\<lparr>sm_closed := True, sm_err := Some err, sm_outbound := [],
                    sm_scheduled := False\<rparr>)) m in
        sendControl (mkFrame FrameReset (sm_id s) (bytes_of (errorMessage (Some err)))) (removeStream (sm_id s) m1))"

definition Stream_SetDeadline :: "instant \<Rightarrow> nat \<Rightarrow> Mux \<Rightarrow> Mux" where
  "Stream_SetDeadline t p m = upd p (\<lambda>s. streamSignal (s\<lparr>sm_readDeadline := t, sm_writeDeadline := t\<rparr>)) m"

definition Stream_SetReadDeadline :: "instant \<Rightarrow> nat \<Rightarrow> Mux \<Rightarrow> Mux" where
  "Stream_SetReadDeadline t p m = upd p (\<lambda>s. streamSignal (s\<lparr>sm_readDeadline := t\<rparr>)) m"

definition Stream_SetWriteDeadline :: "instant \<Rightarrow> nat \<Rightarrow> Mux \<Rightarrow> Mux" where
  "Stream_SetWriteDeadline t p m = upd p (\<lambda>s. streamSignal (s\<lparr>sm_writeDeadline := t\<rparr>)) m"

definition waitStream :: "instant \<Rightarrow> instant \<Rightarrow> wait_event \<Rightarrow> go_error option" where
  "waitStream deadline now ev =
     (if \<not> IsZero deadline \<and> deadline - now \<le> 0 then Some (Sentinel IOTimeout)
      else case ev of
             Notified \<Rightarrow> None
           | DoneClosed \<Rightarrow> Some (Sentinel ErrSessionClosed)
           | TimerFired \<Rightarrow> if IsZero deadline then None else Some (Sentinel IOTimeout))"

section \<open>Session operations\<close>

text \<open>\<open>OpenService\<close> up to the wait for the peer's answer: the new stream, or the error.\<close>

definition openServiceBegin :: "string \<Rightarrow> Mux \<Rightarrow> (go_error + nat) \<times> Mux" where
  "openServiceBegin service m =
     (if \<not> m_client m then (Inl (ErrorText ''server sessions cannot open target streams''), m)
      else if length service > maxServiceName then (Inl (ErrorText ''service selector is too long''), m)
      else if m_closed m then (Inl (muxErrorLocked m), m)
      else if length (m_streams m) \<ge> m_maxStreams m then (raise ErrTooManyStreams, m)
      else
        let sid = m_nextID m in
        if sid = 0 then (Inl (ErrorText ''stream id space exhausted''), m)
        else
          let p = length (m_heap m);
              m1 = m\<lparr>m_nextID := (if sid = - 1 then 0 else sid + 2), m_lastID := sid,
                     m_heap := m_heap m @ [newStream sid], m_streams := gomap_put sid p (m_streams m)\<rparr> in
          case sendControl (mkFrame FrameOpen sid (bytes_of service)) m1 of
            (Some e, m2) \<Rightarrow> (Inl e, removeStream sid m2)
          | (None, m2) \<Rightarrow> (Inr p, m2))"

text \<open>What follows the wait, which ended with \<open>r\<close>.\<close>

definition openServiceEnd :: "nat \<Rightarrow> go_error option \<Rightarrow> Mux \<Rightarrow> (go_error + nat) \<times> Mux" where
  "openServiceEnd p r m =
     (case r of None \<Rightarrow> (Inr p, m) | Some e \<Rightarrow> (Inl e, snd (Reset p e m)))"

text \<open>One pass of \<open>Services\<close> and \<open>Accept\<close> while their context lasts; \<open>None\<close> when they wait.\<close>

definition Services :: "Mux \<Rightarrow> (go_error + Service list \<times> go_error option) option \<times> Mux" where
  "Services m =
     (case (m_servicesReady m, m_done m) of
        (True, True) \<Rightarrow>
          (case pickCase m of (c, m1) \<Rightarrow>
             (Some (if c then Inr (m_services m, m_servicesErr m) else Inl (muxErrorLocked m)), m1))
      | (True, False) \<Rightarrow> (Some (Inr (m_services m, m_servicesErr m)), m)
      | (False, True) \<Rightarrow> (Some (Inl (muxErrorLocked m)), m)
      | (False, False) \<Rightarrow> (None, m))"

definition Accept :: "Mux \<Rightarrow> (go_error + nat) option \<times> Mux" where
  "Accept m =
     (if m_client m then (Some (Inl (ErrorText ''client sessions cannot accept target streams'')), m)
      else
        case m_accept m of
          [] \<Rightarrow> (if m_done m then Some (Inl (muxErrorLocked m)) else None, m)
        | p # rest \<Rightarrow>
            if m_done m then
              (case pickCase m of (c, m1) \<Rightarrow>
                 if c then (Some (Inl (muxErrorLocked m1)), m1)
                 else (Some (Inr p), m1\<lparr>m_accept := rest\<rparr>))
            else (Some (Inr p), m\<lparr>m_accept := rest\<rparr>))"

definition NumStreams :: "Mux \<Rightarrow> nat" where
  "NumStreams m = length (m_streams m)"

text \<open>\<open>(Streams, PendingAccepts, OpeningStreams)\<close>.\<close>

definition Mux_Snapshot :: "Mux \<Rightarrow> nat \<times> nat \<times> nat" where
  "Mux_Snapshot m =
     (length (m_streams m), length (m_accept m),
      length (filter (\<lambda>(sid, p). \<not> sm_opened (at m p) \<and> sm_openErr (at m p) = None \<and> \<not> sm_closed (at m p)) (m_streams m)))"

definition Mux_Close :: "Mux \<Rightarrow> Mux" where
  "Mux_Close m = shutdown (Sentinel EOF) m"

section \<open>Received frames\<close>

definition handleServiceList :: "Frame \<Rightarrow> Mux \<Rightarrow> go_error option \<times> Mux" where
  "handleServiceList frame m =
     (if \<not> m_client m \<or> StreamID frame \<noteq> 0 then (Some (protocolError ''unexpected service list''), m)
      else
        case decodeServices (Payload frame) of
          Inl e \<Rightarrow> (Some e, m)
        | Inr services \<Rightarrow>
            (None, m\<lparr>m_services := services, m_servicesErr := None, m_servicesReady := True\<rparr>))"

definition handleOpen :: "Frame \<Rightarrow> Mux \<Rightarrow> go_error option \<times> Mux" where
  "handleOpen frame m =
     (let sid = StreamID frame in
      if m_client m \<or> even (uint sid) then
        (Some (protocolError (''invalid OPEN stream id '' @ itoa (uint sid))), m)
      else if m_closed m then (Some (Sentinel ErrSessionClosed), m)
      else if map_of (m_streams m) sid \<noteq> None then
        (Some (protocolError (''duplicate stream id '' @ itoa (uint sid))), m)
      else
        let m1 = m\<lparr>m_lastID := max (m_lastID m) sid\<rparr> in
        if length (m_streams m1) \<ge> m_maxStreams m1 then
          sendControl (mkFrame FrameOpenError sid (bytes_of ''server stream limit reached'')) m1
        else
          let p = length (m_heap m1);
              m2 = m1\<lparr>m_heap := m_heap m1 @ [(newStream sid)\<lparr>sm_service := string_of (Payload frame)\<rparr>],
                      m_streams := gomap_put sid p (m_streams m1)\<rparr>;
              room = length (m_accept m2) < acceptCap m2 in
          if m_done m2 then
            (if room then
               (case pickCase m2 of (c, m3) \<Rightarrow>
                  if c then (Some (Sentinel ErrSessionClosed), m3) else (None, m3\<lparr>m_accept := m_accept m3 @ [p]\<rparr>))
             else (Some (Sentinel ErrSessionClosed), m2))
          else if room then (None, m2\<lparr>m_accept := m_accept m2 @ [p]\<rparr>)
          else sendControl (mkFrame FrameOpenError sid (bytes_of ''server accept backlog full'')) (removeStream sid m2))"

text \<open>A frame of a stream that is in the map.\<close>

definition handleStreamFrame :: "flate \<Rightarrow> Frame \<Rightarrow> nat \<Rightarrow> Mux \<Rightarrow> go_error option \<times> Mux" where
  "handleStreamFrame F frame p m =
     (let ty = FType frame in
      if ty = FrameOpenOK then
        (if \<not> m_client m then (Some (protocolError ''server received OPEN_OK''), m)
         else (None, markOpened p None m))
      else if ty = FrameOpenError then
        (None, removeStream (StreamID frame)
           (markOpened p (Some (Wrapped '''' (Sentinel ErrStreamRejected) ('': '' @ string_of (Payload frame)))) m))
      else if ty = FrameData then
        (case receiveData F (Payload frame) p m of
           (Some e, m1) \<Rightarrow> Reset p e m1
         | (None, m1) \<Rightarrow> (None, m1))
      else if ty = FrameWindowUpdate then
        (case updateSendWindow (WindowAmount frame) p m of
           (Some e, m1) \<Rightarrow> Reset p e m1
         | (None, m1) \<Rightarrow> (None, m1))
      else if ty = FrameFIN then (None, receiveFIN p m)
      else if ty = FrameReset then
        (None, removeStream (StreamID frame) (receiveReset p (Some (ErrorText (string_of (Payload frame)))) m))
      else (Some (protocolError (''unexpected frame type '' @ itoa (uint ty))), m))"

definition handleFrame :: "flate \<Rightarrow> Frame \<Rightarrow> Mux \<Rightarrow> go_error option \<times> Mux" where
  "handleFrame F frame m =
     (if FType frame = FrameServiceList then handleServiceList frame m
      else if FType frame = FrameOpen then handleOpen frame m
      else
        let retired = (odd (uint (StreamID frame)) \<and> StreamID frame \<le> m_lastID m) in
        case map_of (m_streams m) (StreamID frame) of
          None \<Rightarrow>
            if retired \<or> FType frame = FrameReset \<or> FType frame = FrameOpenError then (None, m)
            else (None, snd (sendControl (mkFrame FrameReset (StreamID frame) (bytes_of ''unknown stream'')) m))
        | Some p \<Rightarrow> handleStreamFrame F frame p m)"

text \<open>One turn of \<open>readLoop\<close> on what the connection still yields; the flag says whether it goes on.\<close>

definition readLoopStep :: "flate \<Rightarrow> reader \<Rightarrow> Mux \<Rightarrow> bool \<times> reader \<times> Mux" where
  "readLoopStep F r m =
     (case ReadFrame r of
        (Inl e, r1) \<Rightarrow> (False, r1, shutdown e m)
      | (Inr frame, r1) \<Rightarrow>
          (case handleFrame F frame m of
             (Some e, m1) \<Rightarrow> (False, r1, shutdown e m1)
           | (None, m1) \<Rightarrow> (True, r1, m1)))"

section \<open>The writer\<close>

text \<open>
  What the two nested \<open>select\<close> statements of \<open>writeLoop\<close> decide: the loop ends, waits, goes round
  without a frame, or has a frame to write. Control frames come before DATA and FIN.
\<close>

datatype write_choice = WriterEnds | WriterWaits | WriterSkips | WriterEmits Frame

definition writeSelect :: "Mux \<Rightarrow> write_choice \<times> Mux" where
  "writeSelect m =
     (case m_control m of
        frame # rest \<Rightarrow>
          if m_done m then
            (case pickCase m of (c, m1) \<Rightarrow>
               if c then (WriterEnds, m1) else (WriterEmits frame, m1\<lparr>m_control := rest\<rparr>))
          else (WriterEmits frame, m\<lparr>m_control := rest\<rparr>)
      | [] \<Rightarrow>
          if m_done m then (WriterEnds, m)
          else
            case m_ready m of
              [] \<Rightarrow> (WriterWaits, m)
            | sid # rest \<Rightarrow>
                let m1 = m\<lparr>m_ready := rest\<rparr> in
                case map_of (m_streams m1) sid of
                  None \<Rightarrow> (WriterSkips, m1)
                | Some p \<Rightarrow>
                    (case nextOutbound p m1 of
                       (None, m2) \<Rightarrow> (WriterSkips, m2)
                     | (Some frame, m2) \<Rightarrow> (WriterEmits frame, m2)))"

text \<open>One turn of \<open>writeLoop\<close> over a connection \<open>w\<close>.\<close>

definition writeLoopStep :: "'w writer \<Rightarrow> 'w \<Rightarrow> Mux \<Rightarrow> write_choice \<times> 'w \<times> Mux" where
  "writeLoopStep write w m =
     (case writeSelect m of
        (WriterEmits frame, m1) \<Rightarrow>
          (case WriteFrame write w frame of
             (w1, None) \<Rightarrow> (WriterEmits frame, w1, m1)
           | (w1, Some e) \<Rightarrow> (WriterEnds, w1, shutdown e m1))
      | (c, m1) \<Rightarrow> (c, w, m1))"

end
