(* ===== verification/Mux_Inv.thy ===== *)
theory Mux_Inv
  imports Mux
begin

text \<open>
  The invariant of the multiplexer and its preservation by every operation of a session and of its
  streams, by every received frame and by the writer. The invariant carries the flow-control bounds,
  the consistency of the stream table, and the scheduling discipline: a stream with queued frames is in
  the scheduler queue, once, so its frames are not stranded and the queue cannot overflow.
\<close>


section \<open>Invariant\<close>

text \<open>
  A stream: its send window is at most the initial window; what it may still receive and what it
  holds unread fit in the initial window; the credit it has not announced is below the threshold;
  every queued frame is valid.
\<close>

definition stream_ok :: "Stream \<Rightarrow> bool" where
  "stream_ok s \<longleftrightarrow> sm_id s \<noteq> 0 \<and> sm_sendWindow s \<le> InitialStreamWindow
     \<and> unat (sm_receiveWindow s) + length (sm_inbound s) \<le> unat InitialStreamWindow
     \<and> sm_pendingWindowUpdate s < windowUpdateThreshold
     \<and> list_all (\<lambda>f. Validate f = None) (sm_outbound s)"

text \<open>
  The session: the map is consistent with the heap and within the limit; a stream of the map is in the
  scheduler queue exactly when it is marked, once, and it is marked when and only when it has frames; queued
  frames are valid and queues are within their capacity; a closed session has no streams; a client
  hands out odd identifiers in order.
\<close>

definition table_ok :: "Mux \<Rightarrow> bool" where
  "table_ok m \<longleftrightarrow> distinct (map fst (m_streams m)) \<and> length (m_streams m) \<le> m_maxStreams m \<and> 0 < m_maxStreams m
     \<and> (\<forall>x \<in> set (m_streams m). snd x < length (m_heap m) \<and> sm_id (at m (snd x)) = fst x)"

definition queued_ok :: "Mux \<Rightarrow> u32 \<times> nat \<Rightarrow> bool" where
  "queued_ok m x \<longleftrightarrow> (fst x \<in> set (m_ready m) \<longleftrightarrow> sm_scheduled (at m (snd x)))
     \<and> (sm_scheduled (at m (snd x)) \<longleftrightarrow> sm_outbound (at m (snd x)) \<noteq> [])"

definition queue_ok :: "Mux \<Rightarrow> bool" where
  "queue_ok m \<longleftrightarrow> m_done m \<or> distinct (m_ready m) \<and> set (m_ready m) \<subseteq> fst ` set (m_streams m)
     \<and> (\<forall>x \<in> set (m_streams m). queued_ok m x)"

definition chan_ok :: "Mux \<Rightarrow> bool" where
  "chan_ok m \<longleftrightarrow> list_all (\<lambda>f. Validate f = None) (m_control m) \<and> length (m_control m) \<le> controlCap m
     \<and> length (m_accept m) \<le> acceptCap m \<and> (\<forall>p \<in> set (m_accept m). p < length (m_heap m))"

definition ids_ok :: "Mux \<Rightarrow> bool" where
  "ids_ok m \<longleftrightarrow> m_closed m = m_done m \<and> (m_done m \<longrightarrow> m_streams m = [] \<and> m_err m \<noteq> None)
     \<and> (m_client m \<longrightarrow> (\<forall>sid \<in> fst ` set (m_streams m). sid \<le> m_lastID m)
          \<and> (m_nextID m = 0 \<or> m_lastID m < m_nextID m \<and> odd (uint (m_nextID m))))"

definition mux_ok :: "Mux \<Rightarrow> bool" where
  "mux_ok m \<longleftrightarrow> table_ok m \<and> queue_ok m \<and> chan_ok m \<and> ids_ok m \<and> list_all stream_ok (m_heap m)"

section \<open>Basic facts\<close>

lemma upd_simps [simp]:
  "length (m_heap (upd p f m)) = length (m_heap m)" "m_streams (upd p f m) = m_streams m"
  "m_ready (upd p f m) = m_ready m" "m_control (upd p f m) = m_control m" "m_accept (upd p f m) = m_accept m"
  "m_done (upd p f m) = m_done m" "m_closed (upd p f m) = m_closed m" "m_err (upd p f m) = m_err m"
  "m_client (upd p f m) = m_client m" "m_maxStreams (upd p f m) = m_maxStreams m" "m_nextID (upd p f m) = m_nextID m"
  "m_lastID (upd p f m) = m_lastID m" "m_compression (upd p f m) = m_compression m"
  "controlCap (upd p f m) = controlCap m" "readyCap (upd p f m) = readyCap m" "acceptCap (upd p f m) = acceptCap m"
  by (simp_all add: upd_def controlCap_def readyCap_def acceptCap_def)

lemma at_upd: "p < length (m_heap m) \<Longrightarrow> at (upd p f m) q = (if q = p then f (at m p) else at m q)"
  by (simp add: upd_def)

lemma rotate_filter: "rotate (length q) sid q = filter (\<lambda>x. x \<noteq> sid) q"
proof -
  have "rotate (length xs) sid (xs @ ys) = ys @ filter (\<lambda>x. x \<noteq> sid) xs" for xs ys
    by (induction xs arbitrary: ys) auto
  from this [of q "[]"] show ?thesis by simp
qed

lemma stream_at: "mux_ok m \<Longrightarrow> p < length (m_heap m) \<Longrightarrow> stream_ok (at m p)"
  by (simp add: mux_ok_def list_all_length)

lemma list_all_update: "list_all P xs \<Longrightarrow> P x \<Longrightarrow> list_all P (xs[i := x])"
  by (auto simp: list_all_iff dest: set_update_subset_insert [THEN subsetD])

text \<open>Changing one stream; its scheduler flag and its frames may change only when it is not in the map.\<close>

lemma queued_ok_upd:
  assumes "p < length (m_heap m)" and "sm_scheduled (f (at m p)) = sm_scheduled (at m p)"
    and "sm_outbound (f (at m p)) = sm_outbound (at m p)"
  shows "queued_ok (upd p f m) x = queued_ok m x"
  using assms by (cases "snd x = p") (simp_all add: queued_ok_def at_upd)

lemma table_ok_upd:
  assumes "table_ok m" and "p < length (m_heap m)" and "sm_id (f (at m p)) = sm_id (at m p)"
  shows "table_ok (upd p f m)"
proof -
  have "sm_id (at (upd p f m) q) = sm_id (at m q)" for q using assms(2,3) by (simp add: at_upd)
  then show ?thesis using assms(1) by (simp add: table_ok_def)
qed

lemma mux_ok_upd:
  assumes ok: "mux_ok m" and p: "p < length (m_heap m)" and s: "stream_ok (f (at m p))" and sid: "sm_id (f (at m p)) = sm_id (at m p)"
    and q: "sm_scheduled (f (at m p)) = sm_scheduled (at m p)" "sm_outbound (f (at m p)) = sm_outbound (at m p)"
  shows "mux_ok (upd p f m)"
proof -
  have "table_ok (upd p f m)" using ok p sid by (simp add: mux_ok_def table_ok_upd)
  moreover have "queue_ok (upd p f m)"
    using ok queued_ok_upd [where f = f, OF p q] by (simp add: mux_ok_def queue_ok_def)
  moreover have "list_all stream_ok (m_heap (upd p f m))"
    using ok s by (simp add: mux_ok_def upd_def list_all_update)
  ultimately show ?thesis using ok by (simp add: mux_ok_def chan_ok_def ids_ok_def)
qed

lemma queued_ok_cong: "m_ready m' = m_ready m \<Longrightarrow> m_heap m' = m_heap m \<Longrightarrow> queued_ok m' = queued_ok m"
  by (simp add: queued_ok_def fun_eq_iff)

lemma queue_ok_cong:
  "m_ready m' = m_ready m \<Longrightarrow> m_heap m' = m_heap m \<Longrightarrow> m_streams m' = m_streams m \<Longrightarrow> m_done m' = m_done m \<Longrightarrow>
   queue_ok m' = queue_ok m"
  using queued_ok_cong [of m' m] by (simp add: queue_ok_def)

lemma removeStream_simps [simp]:
  "m_heap (removeStream sid m) = m_heap m" "m_control (removeStream sid m) = m_control m"
  "m_accept (removeStream sid m) = m_accept m" "m_done (removeStream sid m) = m_done m"
  "m_client (removeStream sid m) = m_client m" "m_maxStreams (removeStream sid m) = m_maxStreams m"
  "m_compression (removeStream sid m) = m_compression m"
  by (simp_all add: removeStream_def)

lemma removeStream_fields:
  "m_streams (removeStream sid m) = gomap_del sid (m_streams m)"
  "m_ready (removeStream sid m) = filter (\<lambda>x. x \<noteq> sid) (m_ready m)"
  by (simp_all add: removeStream_def rotate_filter)

lemma table_ok_remove: "table_ok m \<Longrightarrow> table_ok (removeStream sid m)"
  by (auto simp: table_ok_def removeStream_fields gomap_del_def distinct_map_filter
      intro: le_trans [OF length_filter_le])

lemma chan_ids_remove: "chan_ok m \<Longrightarrow> chan_ok (removeStream sid m)" "ids_ok m \<Longrightarrow> ids_ok (removeStream sid m)"
  by (auto simp: chan_ok_def ids_ok_def removeStream_def controlCap_def acceptCap_def gomap_del_def)

text \<open>Only the streams that stay in the map matter for the queue.\<close>

lemma queue_ok_remove:
  assumes "m_done m \<or> distinct (m_ready m) \<and> set (m_ready m) \<subseteq> fst ` set (m_streams m)
     \<and> (\<forall>x \<in> set (m_streams m). fst x \<noteq> sid \<longrightarrow> queued_ok m x)"
  shows "queue_ok (removeStream sid m)"
proof (cases "m_done m")
  case False
  have "queued_ok (removeStream sid m) x" if "x \<in> set (m_streams m)" "fst x \<noteq> sid" for x
    using that assms False by (simp add: queued_ok_def removeStream_fields)
  moreover have "set (filter (\<lambda>x. x \<noteq> sid) (m_ready m)) \<subseteq> fst ` set (gomap_del sid (m_streams m))"
    using assms False by force
  ultimately show ?thesis using assms False by (simp add: queue_ok_def removeStream_fields)
qed (simp add: queue_ok_def)

text \<open>Changing a stream and removing its identifier from the map and the queue.\<close>

lemma mux_ok_upd_remove:
  assumes ok: "mux_ok m" and p: "p < length (m_heap m)" and s: "stream_ok (f (at m p))" and sid: "sm_id (f (at m p)) = sm_id (at m p)"
  shows "mux_ok (removeStream (sm_id (at m p)) (upd p f m))"
proof -
  have "snd x \<noteq> p" if "x \<in> set (m_streams m)" "fst x \<noteq> sm_id (at m p)" for x
    using ok that by (auto simp: mux_ok_def table_ok_def)
  then have "queued_ok (upd p f m) x" if "x \<in> set (m_streams m)" "fst x \<noteq> sm_id (at m p)" "\<not> m_done m" for x
    using ok p that by (simp add: queued_ok_def at_upd mux_ok_def queue_ok_def)
  then have "queue_ok (removeStream (sm_id (at m p)) (upd p f m))"
    using ok by (intro queue_ok_remove) (auto simp: mux_ok_def queue_ok_def)
  moreover have "list_all stream_ok (m_heap (upd p f m))"
    using ok s by (simp add: mux_ok_def upd_def list_all_update)
  moreover have "table_ok (upd p f m)" "chan_ok (upd p f m)" "ids_ok (upd p f m)"
    using ok table_ok_upd [where f = f, OF _ p sid] by (simp_all add: mux_ok_def chan_ok_def ids_ok_def)
  ultimately show ?thesis by (simp add: mux_ok_def table_ok_remove chan_ids_remove)
qed

lemma mux_ok_remove: "mux_ok m \<Longrightarrow> mux_ok (removeStream sid m)"
  using queue_ok_remove [of m sid] by (auto simp: mux_ok_def queue_ok_def table_ok_remove chan_ids_remove)

lemma receiveReset_simps [simp]:
  "m_streams (receiveReset p e m) = m_streams m" "m_ready (receiveReset p e m) = m_ready m"
  "length (m_heap (receiveReset p e m)) = length (m_heap m)"
  by (simp_all add: receiveReset_def)

lemma mux_ok_receiveReset:
  assumes "mux_ok m" and "p < length (m_heap m)"
  shows "mux_ok (receiveReset p e m)"
  using assms stream_at [OF assms]
  by (auto simp: receiveReset_def streamSignal_def stream_ok_def intro!: mux_ok_upd)


lemma shutdown_fold:
  assumes "\<forall>p \<in> set ps. p < length (m_heap m)" and "mux_ok m"
  shows "mux_ok (fold (\<lambda>p. receiveReset p e) ps m)"
  using assms by (induction ps arbitrary: m) (simp_all add: mux_ok_receiveReset)

lemma fold_receiveReset_simps [simp]:
  "m_done (fold (\<lambda>p. receiveReset p e) ps m) = m_done m"
  "m_streams (fold (\<lambda>p. receiveReset p e) ps m) = m_streams m"
  "m_client (fold (\<lambda>p. receiveReset p e) ps m) = m_client m"
  "length (m_heap (fold (\<lambda>p. receiveReset p e) ps m)) = length (m_heap m)"
  by (induction ps arbitrary: m) (simp_all add: receiveReset_def)

lemma mux_ok_shutdown:
  assumes "mux_ok m"
  shows "mux_ok (shutdown e m)"
proof (cases "m_done m")
  case False
  let ?m = "\<lambda>e'. m\<lparr>m_closed := True, m_err := Some e', m_streams := [], m_done := True, m_connClosed := True\<rparr>"
  have "mux_ok (?m e')" for e'
    using assms by (auto simp: mux_ok_def table_ok_def queue_ok_def chan_ok_def ids_ok_def controlCap_def acceptCap_def)
  moreover have "\<forall>p \<in> set (map snd (m_streams m)). p < length (m_heap m)"
    using assms by (auto simp: mux_ok_def table_ok_def)
  ultimately have "mux_ok (fold (\<lambda>p. receiveReset p (Some e')) (map snd (m_streams m)) (?m e'))" for e'
    by (intro shutdown_fold) auto
  then show ?thesis using False by (simp add: shutdown_def Let_def)
qed (simp add: assms shutdown_def)

lemma shutdown_simps [simp]:
  "m_done (shutdown e m)" "m_client (shutdown e m) = m_client m" "length (m_heap (shutdown e m)) = length (m_heap m)"
  by (simp_all add: shutdown_def Let_def)

lemma mux_ok_control:
  assumes "mux_ok m" and "Validate f = None" and "length (m_control m) < controlCap m"
  shows "mux_ok (m\<lparr>m_control := m_control m @ [f]\<rparr>)"
  using assms queue_ok_cong [of "m\<lparr>m_control := m_control m @ [f]\<rparr>" m] by (auto simp: mux_ok_def table_ok_def chan_ok_def ids_ok_def controlCap_def acceptCap_def)

lemma mux_ok_picks [simp]: "mux_ok (m\<lparr>m_picks := k\<rparr>) = mux_ok m"
  using queue_ok_cong [of "m\<lparr>m_picks := k\<rparr>" m]
  by (simp add: mux_ok_def table_ok_def chan_ok_def ids_ok_def controlCap_def acceptCap_def)

lemma cap_picks [simp]:
  "controlCap (m\<lparr>m_picks := k\<rparr>) = controlCap m" "readyCap (m\<lparr>m_picks := k\<rparr>) = readyCap m"
  "acceptCap (m\<lparr>m_picks := k\<rparr>) = acceptCap m"
  by (simp_all add: controlCap_def readyCap_def acceptCap_def)

lemma sendControl_ok:
  assumes "mux_ok m" and "Validate f = None" and "sendControl f m = (e, m')"
  shows "mux_ok m'" and "length (m_heap m') = length (m_heap m)"
proof -
  have "mux_ok m' \<and> length (m_heap m') = length (m_heap m)"
    using assms mux_ok_control [OF assms(1,2)] mux_ok_control [of "m\<lparr>m_picks := Suc (m_picks m)\<rparr>" f] mux_ok_shutdown [OF assms(1)]
    by (auto simp: sendControl_def pickCase_def Let_def split: if_splits)
  then show "mux_ok m'" "length (m_heap m') = length (m_heap m)" by blast+
qed

text \<open>The queue part of the invariant for every stream but \<open>p\<close>.\<close>

definition queue_ok_but :: "nat \<Rightarrow> Mux \<Rightarrow> bool" where
  "queue_ok_but p m \<longleftrightarrow> m_done m \<or> distinct (m_ready m) \<and> set (m_ready m) \<subseteq> fst ` set (m_streams m)
     \<and> (\<forall>x \<in> set (m_streams m). snd x \<noteq> p \<longrightarrow> queued_ok m x)"

lemma map_ptr_unique:
  assumes "table_ok m" and "(sid, p) \<in> set (m_streams m)" and "(sid', p) \<in> set (m_streams m)"
  shows "sid' = sid"
  using assms unfolding table_ok_def by (metis fst_conv snd_conv)

lemma map_of_streams:
  assumes "table_ok m"
  shows "map_of (m_streams m) sid = Some p \<longleftrightarrow> (sid, p) \<in> set (m_streams m)"
  using assms by (simp add: table_ok_def)

text \<open>
  \<open>schedule\<close> of a stream that is marked and, when it is in the map, not yet queued: the full-queue
  branch is never taken.
\<close>

lemma schedule_ok:
  assumes tab: "table_ok m" and q: "queue_ok_but p m" and rest: "chan_ok m" "ids_ok m" "list_all stream_ok (m_heap m)"
    and p: "p < length (m_heap m)" "sm_scheduled (at m p)" "sm_outbound (at m p) \<noteq> []" and new: "\<not> m_done m \<Longrightarrow> sm_id (at m p) \<notin> set (m_ready m) \<or> (sm_id (at m p), p) \<notin> set (m_streams m)"
    and run: "schedule p m = (e, m')"
  shows "mux_ok m'" and "e = None" and "m_heap m' = m_heap m" and "m_done m' = m_done m"
proof -
  let ?sid = "sm_id (at m p)"
  have "mux_ok m' \<and> e = None \<and> m_heap m' = m_heap m \<and> m_done m' = m_done m"
  proof (cases "(?sid, p) \<in> set (m_streams m) \<and> \<not> m_done m")
    case False
    then have "map_of (m_streams m) ?sid \<noteq> Some p"
      using rest(2) map_of_streams [OF tab] by (auto simp: ids_ok_def)
    then have "m' = m" "e = None" using run by (auto simp: schedule_def)
    moreover have "snd x \<noteq> p" if "x \<in> set (m_streams m)" for x
      using False tab rest(2) that by (cases x) (auto simp: table_ok_def ids_ok_def)
    then have "queue_ok m" using q unfolding queue_ok_but_def queue_ok_def by blast
    ultimately show ?thesis using tab rest by (simp add: mux_ok_def)
  next
    case True
    then have in_map: "(?sid, p) \<in> set (m_streams m)" and run1: "\<not> m_done m" by blast+
    have mo: "map_of (m_streams m) ?sid = Some p" using in_map map_of_streams [OF tab] by simp
    have fresh: "?sid \<notin> set (m_ready m)" using new run1 in_map by blast
    have sub: "set (m_ready m) \<subseteq> fst ` set (m_streams m)" "distinct (m_ready m)"
      using q run1 by (auto simp: queue_ok_but_def)
    have mem: "?sid \<in> fst ` set (m_streams m)" using in_map by force
    have room: "length (m_ready m) < readyCap m"
    proof -
      have "length (m_ready m) = card (set (m_ready m))" using sub(2) by (simp add: distinct_card)
      also have "\<dots> < card (fst ` set (m_streams m))" using sub(1) mem fresh by (intro psubset_card_mono) auto
      also have "\<dots> \<le> length (m_streams m)" by (metis card_length length_map set_map)
      also have "\<dots> \<le> m_maxStreams m" using tab by (simp add: table_ok_def)
      finally show ?thesis by (simp add: readyCap_def)
    qed
    have r: "e = None" "m' = m\<lparr>m_ready := m_ready m @ [?sid]\<rparr>"
      using run mo run1 room by (auto simp: schedule_def)
    have other: "sid \<noteq> ?sid" if "(sid, q) \<in> set (m_streams m)" "q \<noteq> p" for sid q
      using that in_map tab by (auto simp: table_ok_def dest: eq_key_imp_eq_value)
    have "queued_ok m' x" if x: "x \<in> set (m_streams m)" for x
    proof (cases "snd x = p")
      case True
      then have "fst x = ?sid" using tab x by (auto simp: table_ok_def)
      then show ?thesis using True p(2,3) by (simp add: queued_ok_def r(2))
    next
      case False
      then have "fst x \<noteq> ?sid" using other [of "fst x" "snd x"] x by simp
      then show ?thesis using False q run1 x by (simp add: queue_ok_but_def queued_ok_def r(2))
    qed
    then have "queue_ok m'"
      using sub fresh mem by (simp add: queue_ok_def r(2))
    then show ?thesis
      using tab rest r run1 by (simp add: mux_ok_def table_ok_def chan_ok_def ids_ok_def controlCap_def acceptCap_def)
  qed
  then show "mux_ok m'" "e = None" "m_heap m' = m_heap m" "m_done m' = m_done m" by blast+
qed

lemma queue_ok_but_upd:
  assumes "mux_ok m" and "p < length (m_heap m)"
  shows "queue_ok_but p (upd p f m)"
proof -
  have "queued_ok (upd p f m) x" if "x \<in> set (m_streams m)" "snd x \<noteq> p" "\<not> m_done m" for x
    using assms that by (simp add: queued_ok_def at_upd mux_ok_def queue_ok_def)
  then show ?thesis using assms(1) by (auto simp: queue_ok_but_def mux_ok_def queue_ok_def)
qed

lemma upd_parts:
  assumes "mux_ok m" and "p < length (m_heap m)" and "stream_ok (f (at m p))" and "sm_id (f (at m p)) = sm_id (at m p)"
  shows "table_ok (upd p f m)" "chan_ok (upd p f m)" "ids_ok (upd p f m)" "list_all stream_ok (m_heap (upd p f m))"
proof -
  show "table_ok (upd p f m)" "chan_ok (upd p f m)" "ids_ok (upd p f m)"
    using assms(1) table_ok_upd [where f = f, OF _ assms(2,4)] by (auto simp: mux_ok_def chan_ok_def ids_ok_def)
  show "list_all stream_ok (m_heap (upd p f m))"
    using assms(1,3) by (simp add: mux_ok_def upd_def list_all_update)
qed

lemma upd_upd: "upd p g (upd p f m) = upd p (\<lambda>s. g (f s)) m" if "p < length (m_heap m)"
  using that by (simp add: upd_def)

text \<open>Queueing a valid frame always succeeds and keeps the invariant.\<close>

lemma push_ok:
  assumes ok: "mux_ok m" and p: "p < length (m_heap m)"
    and g: "stream_ok (g (at m p))" "sm_id (g (at m p)) = sm_id (at m p)" "sm_scheduled (g (at m p))" "sm_outbound (g (at m p)) \<noteq> []"
    and run: "(if sm_scheduled (at m p) then (None, upd p g m) else schedule p (upd p g m)) = (e, m')"
  shows "mux_ok m'" and "e = None" and "m_done m' = m_done m" and "m_heap m' = (m_heap m)[p := g (at m p)]"
proof -
  note parts = upd_parts [where f = g, OF ok p g(1,2)]
  have heap: "m_heap (upd p g m) = (m_heap m)[p := g (at m p)]" by (simp add: upd_def)
  have "mux_ok m' \<and> e = None \<and> m_done m' = m_done m \<and> m_heap m' = (m_heap m)[p := g (at m p)]"
  proof (cases "sm_scheduled (at m p)")
    case True
    have "queued_ok (upd p g m) x" if "x \<in> set (m_streams m)" "\<not> m_done m" for x
      using ok p that True g(3,4) by (cases "snd x = p") (auto simp: queued_ok_def at_upd mux_ok_def queue_ok_def)
    then have "queue_ok (upd p g m)" using ok by (auto simp: queue_ok_def mux_ok_def)
    then show ?thesis using parts run True heap by (auto simp: mux_ok_def)
  next
    case False
    then have r: "schedule p (upd p g m) = (e, m')" using run by simp
    have "sm_id (at m p) \<notin> set (m_ready m) \<or> (sm_id (at m p), p) \<notin> set (m_streams m)" if "\<not> m_done m"
      using ok that False by (fastforce simp: mux_ok_def queue_ok_def queued_ok_def)
    then show ?thesis
      using schedule_ok [OF parts(1) queue_ok_but_upd [OF ok p] parts(2-4) _ _ _ _ r] p heap g by (simp add: at_upd)
  qed
  then show "mux_ok m'" "e = None" "m_done m' = m_done m" "m_heap m' = (m_heap m)[p := g (at m p)]" by blast+
qed

text \<open>The state \<open>enqueueLocked\<close> leaves, as one update.\<close>

lemma scheduled_already: "sm_scheduled s \<Longrightarrow> s\<lparr>sm_scheduled := True\<rparr> = s"
  by (cases s) simp

lemma enqueueLocked_upd:
  assumes "p < length (m_heap m)"
  shows "enqueueLocked frame p m = (\<not> sm_scheduled (at m p),
    upd p (\<lambda>s. s\<lparr>sm_outbound := sm_outbound s @ [frame], sm_scheduled := True\<rparr>) m)"
proof (cases "sm_scheduled (at m p)")
  case True
  then have "(at m p)\<lparr>sm_outbound := sm_outbound (at m p) @ [frame]\<rparr>
      = (at m p)\<lparr>sm_outbound := sm_outbound (at m p) @ [frame], sm_scheduled := True\<rparr>"
    using scheduled_already [of "(at m p)\<lparr>sm_outbound := sm_outbound (at m p) @ [frame]\<rparr>"] by simp
  then show ?thesis unfolding enqueueLocked_def upd_def Let_def using True by (simp only: if_True if_False not_True_eq_False)
qed (use assms in \<open>simp add: enqueueLocked_def upd_upd\<close>)

lemma enqueueAndSchedule_ok:
  assumes ok: "mux_ok m" and p: "p < length (m_heap m)" and v: "Validate frame = None"
    and run: "enqueueAndSchedule frame p m = (e, m')"
  shows "mux_ok m'" and "e = None" and "m_done m' = m_done m"
    and "m_heap m' = (m_heap m)[p := (at m p)\<lparr>sm_outbound := sm_outbound (at m p) @ [frame], sm_scheduled := True\<rparr>]"
proof -
  let ?g = "\<lambda>s. s\<lparr>sm_outbound := sm_outbound s @ [frame], sm_scheduled := True\<rparr>"
  have g: "stream_ok (?g (at m p))" "sm_id (?g (at m p)) = sm_id (at m p)" "sm_scheduled (?g (at m p))" "sm_outbound (?g (at m p)) \<noteq> []"
    using stream_at [OF ok p] v by (simp_all add: stream_ok_def)
  have "(if sm_scheduled (at m p) then (None, upd p ?g m) else schedule p (upd p ?g m)) = (e, m')"
    using run by (simp add: enqueueAndSchedule_def enqueueLocked_upd [OF p] split: if_splits)
  from push_ok [where g = ?g, OF ok p g this]
  show "mux_ok m'" "e = None" "m_done m' = m_done m"
    "m_heap m' = (m_heap m)[p := (at m p)\<lparr>sm_outbound := sm_outbound (at m p) @ [frame], sm_scheduled := True\<rparr>]" by blast+
qed

text \<open>The head of the scheduler queue leaves it, and its stream hands over one frame.\<close>

lemma nextOutbound_ok:
  assumes ok: "mux_ok m" and nd: "\<not> m_done m" and rd: "m_ready m = sid # rest"
    and p: "map_of (m_streams m) sid = Some p" and run: "nextOutbound p (m\<lparr>m_ready := rest\<rparr>) = (r, m')"
  shows "mux_ok m'" and "r = Some f \<Longrightarrow> Validate f = None" and "length (m_heap m') = length (m_heap m)"
proof -
  define m1 where "m1 = m\<lparr>m_ready := rest\<rparr>"
  have tab: "table_ok m" using ok by (simp add: mux_ok_def)
  have mem: "(sid, p) \<in> set (m_streams m)" using p map_of_streams [OF tab] by simp
  have pl: "p < length (m_heap m)" and sid: "sm_id (at m p) = sid" using tab mem by (auto simp: table_ok_def)
  have sok: "stream_ok (at m p)" by (rule stream_at [OF ok pl])
  have q: "distinct (m_ready m)" "set (m_ready m) \<subseteq> fst ` set (m_streams m)" "\<forall>x \<in> set (m_streams m). queued_ok m x"
    using ok nd by (auto simp: mux_ok_def queue_ok_def)
  have fresh: "sid \<notin> set rest" "distinct rest" "set rest \<subseteq> fst ` set (m_streams m)" using q rd by auto
  have sched: "sm_scheduled (at m p)" using q(3) mem rd by (fastforce simp: queued_ok_def)
  have uniq: "fst x = sid \<longleftrightarrow> snd x = p" if "x \<in> set (m_streams m)" for x
  proof
    assume "fst x = sid"
    then have "map_of (m_streams m) sid = Some (snd x)" using that map_of_streams [OF tab, of sid "snd x"] by auto
    then show "snd x = p" using p by simp
  next
    assume "snd x = p"
    then show "fst x = sid" using that tab sid by (auto simp: table_ok_def)
  qed
  have q1: "queued_ok (upd p f m1) x" if "x \<in> set (m_streams m)" "snd x \<noteq> p" for x f
    using bspec [OF q(3) that(1)] that(2) rd pl uniq [OF that(1)] by (simp add: queued_ok_def at_upd m1_def)
  have parts: "table_ok (upd p f m1)" "chan_ok (upd p f m1)" "ids_ok (upd p f m1)" "list_all stream_ok (m_heap (upd p f m1))"
    if "stream_ok (f (at m p))" "sm_id (f (at m p)) = sid" for f
    using upd_parts [where f = f, OF ok pl that(1)] that(2) sid
    by (simp_all add: m1_def table_ok_def chan_ok_def ids_ok_def controlCap_def acceptCap_def upd_def)
  have idle: "mux_ok (upd p f m1)"
    if i: "stream_ok (f (at m p))" "sm_id (f (at m p)) = sid" "\<not> sm_scheduled (f (at m p))" "sm_outbound (f (at m p)) = []" for f
  proof -
    have "queued_ok (upd p f m1) x" if "x \<in> set (m_streams m)" for x
    proof (cases "snd x = p")
      case True
      then show ?thesis using uniq [OF that] i(3,4) fresh(1) pl by (simp add: queued_ok_def at_upd m1_def)
    qed (rule q1 [OF that])
    then have "queue_ok (upd p f m1)" using fresh by (simp add: queue_ok_def m1_def)
    then show ?thesis using parts [where f = f, OF i(1,2)] by (simp add: mux_ok_def)
  qed
  have at1: "at m1 p = at m p" by (simp add: m1_def)
  have "mux_ok m' \<and> (r = Some f \<longrightarrow> Validate f = None) \<and> length (m_heap m') = length (m_heap m)"
  proof (cases "sm_outbound (at m p)")
    case Nil
    then have "m' = upd p (\<lambda>s. s\<lparr>sm_scheduled := False\<rparr>) m1" "r = None"
      using run by (simp_all add: nextOutbound_def m1_def)
    moreover have "mux_ok (upd p (\<lambda>s. s\<lparr>sm_scheduled := False\<rparr>) m1)"
      using sok sid Nil by (intro idle) (simp_all add: stream_ok_def)
    ultimately show ?thesis by (simp add: m1_def)
  next
    case (Cons g gs)
    have v: "Validate g = None" "list_all (\<lambda>f. Validate f = None) gs" using sok Cons by (simp_all add: stream_ok_def)
    let ?f = "\<lambda>s. s\<lparr>sm_outbound := gs, sm_scheduled := (if gs \<noteq> [] then sm_scheduled s else False)\<rparr>"
    have fok: "stream_ok (?f (at m p))" "sm_id (?f (at m p)) = sid" using sok sid v by (simp_all add: stream_ok_def)
    have run1: "(r, m') = (if gs \<noteq> [] then (Some g, snd (schedule p (upd p ?f m1)))
        else if sm_closeAfterDrain (at m p) then (Some g, removeStream sid (upd p ?f m1)) else (Some g, upd p ?f m1))"
      unfolding run [symmetric] m1_def [symmetric] by (simp only: nextOutbound_def Let_def at1 Cons sid list.case)
    show ?thesis
    proof (cases "gs = []")
      case True
      have "mux_ok (upd p ?f m1)" using idle [where f = ?f] fok True by simp
      then show ?thesis using run1 True v mux_ok_remove by (auto simp: m1_def split: if_splits)
    next
      case False
      obtain e m2 where sc: "schedule p (upd p ?f m1) = (e, m2)" by fastforce
      have "queue_ok_but p (upd p ?f m1)" using q1 fresh by (simp add: queue_ok_but_def m1_def)
      note so = schedule_ok [OF parts(1) [where f = ?f, OF fok] this parts(2-4) [where f = ?f, OF fok] _ _ _ _ sc]
      have "mux_ok m2" "m_heap m2 = m_heap (upd p ?f m1)"
        using so(1,3) pl sched sid fresh(1) False at1 by (auto simp: at_upd m1_def)
      then show ?thesis using run1 False v sc by (auto simp: m1_def)
    qed
  qed
  then show "mux_ok m'" "r = Some f \<Longrightarrow> Validate f = None" "length (m_heap m') = length (m_heap m)" by blast+
qed

lemma mux_ok_fields:
  assumes "mux_ok m" and "m_heap m' = m_heap m" "m_streams m' = m_streams m" "m_ready m' = m_ready m" "m_done m' = m_done m"
    "m_closed m' = m_closed m" "m_err m' = m_err m" "m_client m' = m_client m" "m_maxStreams m' = m_maxStreams m"
    "m_nextID m' = m_nextID m" "m_lastID m' = m_lastID m"
    and "chan_ok m'"
  shows "mux_ok m'"
  using assms queue_ok_cong [of m' m] by (simp add: mux_ok_def table_ok_def ids_ok_def)

lemma writeSelect_ok:
  assumes ok: "mux_ok m" and run: "writeSelect m = (c, m')"
  shows "mux_ok m'" and "c = WriterEmits f \<Longrightarrow> Validate f = None" and "length (m_heap m') = length (m_heap m)"
proof -
  have "mux_ok m' \<and> (c = WriterEmits f \<longrightarrow> Validate f = None) \<and> length (m_heap m') = length (m_heap m)"
  proof (cases "m_control m")
    case (Cons g rest)
    have v: "Validate g = None" using ok Cons by (simp add: mux_ok_def chan_ok_def)
    have "mux_ok (m\<lparr>m_control := rest\<rparr>)" "mux_ok (m\<lparr>m_picks := k, m_control := rest\<rparr>)" for k
      using mux_ok_fields [OF ok] ok Cons by (auto simp: mux_ok_def chan_ok_def controlCap_def acceptCap_def)
    then show ?thesis using run Cons v ok by (auto simp: writeSelect_def pickCase_def split: if_splits)
  next
    case Nil
    show ?thesis
    proof (cases "m_done m \<or> m_ready m = []")
      case True
      then show ?thesis using run Nil ok by (cases "m_done m") (auto simp: writeSelect_def)
    next
      case False
      then obtain sid rest where rd: "m_ready m = sid # rest" and nd: "\<not> m_done m" by (cases "m_ready m") auto
      have "sid \<in> fst ` set (m_streams m)" using ok nd rd by (auto simp: mux_ok_def queue_ok_def)
      then obtain p where p: "map_of (m_streams m) sid = Some p" by (metis map_of_eq_None_iff not_None_eq)
      obtain r m2 where no: "nextOutbound p (m\<lparr>m_ready := rest\<rparr>) = (r, m2)" by fastforce
      note n = nextOutbound_ok [OF ok nd rd p no]
      show ?thesis using run Nil nd rd p no n by (auto simp: writeSelect_def split: option.splits)
    qed
  qed
  then show "mux_ok m'" "c = WriterEmits f \<Longrightarrow> Validate f = None" "length (m_heap m') = length (m_heap m)" by blast+
qed

section \<open>Stream operations keep the invariant\<close>

lemma errorMessage_short: "length (errorMessage e) \<le> MaxErrorPayload"
  by (auto simp: errorMessage_def MaxErrorPayload_def split: option.splits)

lemma control_valid:
  assumes "sid \<noteq> 0"
  shows "Validate (mkFrame FrameOpenOK sid []) = None" "Validate (mkFrame FrameFIN sid []) = None"
    "length b \<le> MaxErrorPayload \<Longrightarrow> Validate (mkFrame FrameReset sid b) = None"
    "length b \<le> MaxErrorPayload \<Longrightarrow> Validate (mkFrame FrameOpenError sid b) = None"
    "length b \<le> maxServiceName \<Longrightarrow> Validate (mkFrame FrameOpen sid b) = None"
    "b \<noteq> [] \<Longrightarrow> length b \<le> MaxDataPayload \<Longrightarrow> Validate (mkFrame FrameData sid b) = None"
    "amount \<noteq> 0 \<Longrightarrow> Validate (WindowUpdate sid amount) = None"
  using assms by (auto simp: Validate_def frame_types WindowUpdate_def maxServiceName_def codec Let_def)

lemma stream_id_nonzero: "mux_ok m \<Longrightarrow> p < length (m_heap m) \<Longrightarrow> sm_id (at m p) \<noteq> 0"
  using stream_at [of m p] by (simp add: stream_ok_def)

lemma Approve_ok:
  assumes ok: "mux_ok m" and p: "p < length (m_heap m)" and run: "Approve p m = (e, m')"
  shows "mux_ok m'" and "length (m_heap m') = length (m_heap m)"
proof -
  have "mux_ok (upd p (\<lambda>s. streamSignal (s\<lparr>sm_opened := True\<rparr>)) m)"
    using stream_at [OF ok p] by (intro mux_ok_upd [OF ok p]) (simp_all add: streamSignal_def stream_ok_def)
  then have "mux_ok m' \<and> length (m_heap m') = length (m_heap m)"
    using run ok sendControl_ok control_valid(1) [OF stream_id_nonzero [OF ok p]]
    by (auto simp: Approve_def split: if_splits)
  then show "mux_ok m'" "length (m_heap m') = length (m_heap m)" by blast+
qed

text \<open>Marking a stream closed, taking it out of the map and telling the peer.\<close>

lemma close_and_tell:
  assumes ok: "mux_ok m" and p: "p < length (m_heap m)" and f: "stream_ok (f (at m p))" "sm_id (f (at m p)) = sm_id (at m p)"
    and v: "Validate frame = None"
    and run: "sendControl frame (removeStream (sm_id (at m p)) (upd p f m)) = (e, m')"
  shows "mux_ok m'" and "length (m_heap m') = length (m_heap m)"
  using sendControl_ok [OF mux_ok_upd_remove [where f = f, OF ok p f] v run] by simp_all

lemma Reject_ok:
  assumes ok: "mux_ok m" and p: "p < length (m_heap m)" and run: "Reject p err m = (e, m')"
  shows "mux_ok m'" and "length (m_heap m') = length (m_heap m)"
proof -
  let ?f = "\<lambda>s. streamSignal (s\<lparr>sm_closed := True, sm_err := Some (Sentinel ErrStreamRejected)\<rparr>)"
  have f: "stream_ok (?f (at m p))" "sm_id (?f (at m p)) = sm_id (at m p)"
    using stream_at [OF ok p] by (simp_all add: streamSignal_def stream_ok_def)
  have v: "Validate (mkFrame FrameOpenError (sm_id (at m p)) (bytes_of (errorMessage err))) = None"
    using control_valid(4) [OF stream_id_nonzero [OF ok p]] errorMessage_short by simp
  have "mux_ok m' \<and> length (m_heap m') = length (m_heap m)"
    using run ok close_and_tell [where f = ?f, OF ok p f v] by (auto simp: Reject_def Let_def split: if_splits)
  then show "mux_ok m'" "length (m_heap m') = length (m_heap m)" by blast+
qed

lemma Reset_ok:
  assumes ok: "mux_ok m" and p: "p < length (m_heap m)" and run: "Reset p err m = (e, m')"
  shows "mux_ok m'" and "length (m_heap m') = length (m_heap m)"
proof -
  let ?f = "\<lambda>s. streamSignal (s\<lparr>sm_closed := True, sm_err := Some err, sm_outbound := [], sm_scheduled := False\<rparr>)"
  have f: "stream_ok (?f (at m p))" "sm_id (?f (at m p)) = sm_id (at m p)"
    using stream_at [OF ok p] by (simp_all add: streamSignal_def stream_ok_def)
  have v: "Validate (mkFrame FrameReset (sm_id (at m p)) (bytes_of (errorMessage (Some err)))) = None"
    using control_valid(3) [OF stream_id_nonzero [OF ok p]] errorMessage_short by simp
  have "mux_ok m' \<and> length (m_heap m') = length (m_heap m)"
    using run ok close_and_tell [where f = ?f, OF ok p f v] by (auto simp: Reset_def Let_def split: if_splits)
  then show "mux_ok m'" "length (m_heap m') = length (m_heap m)" by blast+
qed

lemma Stream_Close_ok:
  assumes ok: "mux_ok m" and p: "p < length (m_heap m)" and run: "Stream_Close p m = (e, m')"
  shows "mux_ok m'" and "length (m_heap m') = length (m_heap m)"
proof -
  let ?g = "sm_localWriteClosed (at m p) \<and> sm_remoteWriteClosed (at m p)"
  let ?f = "\<lambda>s. streamSignal (s\<lparr>sm_closed := True, sm_closeAfterDrain := ?g\<rparr>)"
  have f: "stream_ok (?f (at m p))" "sm_id (?f (at m p)) = sm_id (at m p)"
    using stream_at [OF ok p] by (simp_all add: streamSignal_def stream_ok_def)
  have u: "mux_ok (upd p ?f m)" using f by (intro mux_ok_upd [OF ok p]) (simp_all add: streamSignal_def)
  have v: "Validate (mkFrame FrameReset (sm_id (at m p)) (bytes_of ''stream closed'')) = None"
    using control_valid(3) [OF stream_id_nonzero [OF ok p]] by (simp add: MaxErrorPayload_def)
  have "mux_ok m' \<and> length (m_heap m') = length (m_heap m)"
  proof (cases "sm_closed (at m p) \<or> ?g")
    case True
    then show ?thesis using run ok u mux_ok_remove [OF u] by (auto simp: Stream_Close_def Let_def split: if_splits)
  next
    case False
    then have g: "?g = False" "sm_closed (at m p) = False" by blast+
    have "sendControl (mkFrame FrameReset (sm_id (at m p)) (bytes_of ''stream closed''))
        (removeStream (sm_id (at m p)) (upd p ?f m)) = (e, m')"
      using run g(2) unfolding Stream_Close_def Let_def g(1) by (simp only: if_False g(1))
    then show ?thesis using close_and_tell [where f = ?f, OF ok p f v] by blast
  qed
  then show "mux_ok m'" "length (m_heap m') = length (m_heap m)" by blast+
qed

lemma CloseWrite_ok:
  assumes ok: "mux_ok m" and p: "p < length (m_heap m)" and run: "CloseWrite p m = (e, m')"
  shows "mux_ok m'" and "e = None" and "length (m_heap m') = length (m_heap m)"
proof -
  let ?fin = "mkFrame FrameFIN (sm_id (at m p)) []"
  let ?g = "\<lambda>s. streamSignal (s\<lparr>sm_localWriteClosed := True, sm_outbound := sm_outbound s @ [?fin], sm_scheduled := True\<rparr>)"
  have g: "stream_ok (?g (at m p))" "sm_id (?g (at m p)) = sm_id (at m p)" "sm_scheduled (?g (at m p))" "sm_outbound (?g (at m p)) \<noteq> []"
    using stream_at [OF ok p] control_valid(2) [OF stream_id_nonzero [OF ok p]] by (simp_all add: stream_ok_def streamSignal_def)
  have "mux_ok m' \<and> e = None \<and> length (m_heap m') = length (m_heap m)"
  proof (cases "sm_localWriteClosed (at m p) \<or> sm_closed (at m p)")
    case True
    then show ?thesis using run ok by (auto simp: CloseWrite_def)
  next
    case False
    have "(if sm_scheduled (at m p) then (None, upd p ?g m) else schedule p (upd p ?g m)) = (e, m')"
      using run p False by (simp add: CloseWrite_def enqueueLocked_upd at_upd upd_upd Let_def split: if_splits)
    from push_ok [where g = ?g, OF ok p g this] show ?thesis by simp
  qed
  then show "mux_ok m'" "e = None" "length (m_heap m') = length (m_heap m)" by blast+
qed

text \<open>Operations that only change one stream.\<close>

lemma CloseRead_ok:
  assumes ok: "mux_ok m" and p: "p < length (m_heap m)"
  shows "mux_ok (CloseRead p m)" and "length (m_heap (CloseRead p m)) = length (m_heap m)"
  unfolding CloseRead_def using stream_at [OF ok p] by (auto intro!: mux_ok_upd [OF ok p] simp: stream_ok_def streamSignal_def)

lemma markOpened_ok:
  assumes ok: "mux_ok m" and p: "p < length (m_heap m)"
  shows "mux_ok (markOpened p e m)" and "length (m_heap (markOpened p e m)) = length (m_heap m)"
  unfolding markOpened_def using ok stream_at [OF ok p]
  by (auto intro!: mux_ok_upd [OF ok p] simp: stream_ok_def streamSignal_def split: if_splits)

lemma receiveFIN_ok:
  assumes ok: "mux_ok m" and p: "p < length (m_heap m)"
  shows "mux_ok (receiveFIN p m)" and "length (m_heap (receiveFIN p m)) = length (m_heap m)"
  unfolding receiveFIN_def using ok stream_at [OF ok p]
  by (auto intro!: mux_ok_upd [OF ok p] simp: stream_ok_def streamSignal_def)

lemma mux_ok_traffic [simp]: "mux_ok (m\<lparr>m_traffic := c\<rparr>) = mux_ok m"
  using queue_ok_cong [of "m\<lparr>m_traffic := c\<rparr>" m]
  by (simp add: mux_ok_def table_ok_def chan_ok_def ids_ok_def controlCap_def acceptCap_def)

lemma addCompression_simps [simp]:
  "mux_ok (addCompressionTX a b m) = mux_ok m" "m_heap (addCompressionTX a b m) = m_heap m"
  "m_compression (addCompressionTX a b m) = m_compression m" "m_done (addCompressionTX a b m) = m_done m"
  "mux_ok (addCompressionRX a b m) = mux_ok m" "m_heap (addCompressionRX a b m) = m_heap m"
  by (simp_all add: addCompressionTX_def addCompressionRX_def)

lemma window_grows:
  fixes n w top :: u32
  assumes "w \<le> top" and "n \<le> top - w"
  shows "w + n \<le> top"
proof -
  have "unat w \<le> unat top" "unat n \<le> unat top - unat w" using assms by (simp_all add: word_le_nat_alt unat_sub)
  then have sum: "unat w + unat n \<le> unat top" by simp
  then have "unat (w + n) = unat w + unat n"
    using unat_less_pow [of top] by (simp add: unat_word_ariths)
  then show ?thesis using sum by (simp add: word_le_nat_alt)
qed

lemma updateSendWindow_ok:
  assumes ok: "mux_ok m" and p: "p < length (m_heap m)" and run: "updateSendWindow n p m = (e, m')"
  shows "mux_ok m'" and "length (m_heap m') = length (m_heap m)"
proof -
  let ?f = "\<lambda>s. streamSignal (s\<lparr>sm_sendWindow := sm_sendWindow s + n\<rparr>)"
  have s: "stream_ok (at m p)" by (rule stream_at [OF ok p])
  have "sm_sendWindow (at m p) + n \<le> InitialStreamWindow"
    if "\<not> n > InitialStreamWindow - sm_sendWindow (at m p)"
    using s that by (intro window_grows) (auto simp: stream_ok_def)
  then have "mux_ok (upd p ?f m)" if "\<not> n > InitialStreamWindow - sm_sendWindow (at m p)"
    using s that by (intro mux_ok_upd [OF ok p]) (simp_all add: stream_ok_def streamSignal_def)
  then have "mux_ok m' \<and> length (m_heap m') = length (m_heap m)"
    using run ok by (auto simp: updateSendWindow_def split: if_splits)
  then show "mux_ok m'" "length (m_heap m') = length (m_heap m)" by blast+
qed


text \<open>The two ways bytes move the receive window, on natural numbers.\<close>

lemma receive_window_shrinks:
  fixes w :: u32
  assumes "\<not> of_nat n > w" and "n \<le> unat InitialStreamWindow"
  shows "unat (w - of_nat n) = unat w - n" and "n \<le> unat w"
proof -
  have n: "unat (of_nat n :: u32) = n"
    using assms(2) by (simp add: unat_of_nat InitialStreamWindow_def)
  then show "n \<le> unat w" using assms(1) by (simp add: word_le_nat_alt not_less)
  show "unat (w - of_nat n) = unat w - n" using assms(1) n by (simp add: unat_sub not_less)
qed

lemma receive_window_grows:
  fixes w :: u32
  assumes "unat w + n \<le> unat InitialStreamWindow"
  shows "unat (w + of_nat n) = unat w + n"
  using assms by (simp add: unat_word_ariths unat_of_nat InitialStreamWindow_def)

lemma receiveData_ok:
  assumes ok: "mux_ok m" and p: "p < length (m_heap m)" and len: "length data0 \<le> MaxDataPayload"
    and run: "receiveData F data0 p m = (e, m')"
  shows "mux_ok m'" and "length (m_heap m') = length (m_heap m)" and "m_streams m' = m_streams m"
proof -
  define g :: "bytes \<Rightarrow> Stream \<Rightarrow> Stream" where
    "g = (\<lambda>data s. streamSignal (s\<lparr>sm_receiveWindow := sm_receiveWindow s - of_nat (length data), sm_inbound := sm_inbound s @ data\<rparr>))"
  have s: "stream_ok (at m p)" by (rule stream_at [OF ok p])
  have upd: "mux_ok (upd p (g data) m)"
    if "length data \<le> MaxDataPayload" "\<not> of_nat (length data) > sm_receiveWindow (at m p)" for data
  proof -
    have "length data \<le> unat InitialStreamWindow" using that(1) by (simp add: frame_consts InitialStreamWindow_def)
    note w = receive_window_shrinks [OF that(2) this]
    show ?thesis using s w by (intro mux_ok_upd [OF ok p]) (auto simp: stream_ok_def streamSignal_def g_def)
  qed
  have "mux_ok m' \<and> length (m_heap m') = length (m_heap m) \<and> m_streams m' = m_streams m"
  proof (cases "if m_compression m then decodeCompressedPayload F data0 else Inr data0")
    case (Inl a)
    then show ?thesis using run ok by (simp add: receiveData_def)
  next
    case (Inr data)
    have "length data \<le> MaxDataPayload"
      using Inr len decodeCompressedPayload_bound(2) [of F data0 data] by (auto split: if_splits)
    note u = upd [OF this]
    have "(e, m') = (if sm_closed (at m p) \<or> sm_remoteWriteClosed (at m p) \<or> \<not> sm_opened (at m p) then (Some (Sentinel ErrProtocol), m)
      else if of_nat (length data) > sm_receiveWindow (at m p) then (Some (ErrorText ''peer exceeded stream receive window''), m)
      else (None, addCompressionRX (of_nat (length data)) (of_nat (length data0)) (upd p (g data) m)))"
      unfolding run [symmetric] receiveData_def Inr Let_def g_def by simp
    then show ?thesis using ok u by (auto simp: addCompressionRX_def split: if_splits)
  qed
  then show "mux_ok m'" "length (m_heap m') = length (m_heap m)" "m_streams m' = m_streams m" by blast+
qed

lemma Stream_Read_ok:
  assumes ok: "mux_ok m" and p: "p < length (m_heap m)" and run: "Stream_Read n p m = (r, m')"
  shows "mux_ok m'" and "length (m_heap m') = length (m_heap m)"
proof -
  define data where "data = take n (sm_inbound (at m p))"
  define pending where "pending = sm_pendingWindowUpdate (at m p) + of_nat (length data)"
  define f :: "Stream \<Rightarrow> Stream" where "f = (\<lambda>s. s\<lparr>sm_inbound := drop n (sm_inbound s), sm_receiveWindow := sm_receiveWindow s + of_nat (length data),
      sm_pendingWindowUpdate := (if pending \<ge> windowUpdateThreshold then 0 else pending)\<rparr>)"
  have s: "stream_ok (at m p)" by (rule stream_at [OF ok p])
  have le: "length data + length (drop n (sm_inbound (at m p))) = length (sm_inbound (at m p))" by (simp add: data_def)
  then have "unat (sm_receiveWindow (at m p) + of_nat (length data)) = unat (sm_receiveWindow (at m p)) + length data"
    using s by (intro receive_window_grows) (simp add: stream_ok_def)
  then have "stream_ok (f (at m p))"
    using s le by (auto simp: stream_ok_def f_def windowUpdateThreshold_def InitialStreamWindow_def not_le)
  then have u: "mux_ok (upd p f m)" by (intro mux_ok_upd [OF ok p]) (simp_all add: f_def)
  have "m' = m \<or> m' = upd p f m \<or> pending \<noteq> 0 \<and> m' = snd (sendControl (WindowUpdate (sm_id (at m p)) pending) (upd p f m))"
    using run by (auto simp: Stream_Read_def Let_def f_def data_def pending_def word_gt_0 split: if_splits)
  moreover have "mux_ok (snd (sendControl (WindowUpdate (sm_id (at m p)) pending) (upd p f m)))
      \<and> length (m_heap (snd (sendControl (WindowUpdate (sm_id (at m p)) pending) (upd p f m)))) = length (m_heap m)"
    if "pending \<noteq> 0"
    using sendControl_ok [OF u control_valid(7) [OF stream_id_nonzero [OF ok p] that] prod.collapse [symmetric]] by simp
  ultimately have "mux_ok m' \<and> length (m_heap m') = length (m_heap m)" using ok u by fastforce
  then show "mux_ok m'" "length (m_heap m') = length (m_heap m)" by blast+
qed

text \<open>One chunk of a write: it consumes window, and its frame is valid.\<close>

lemma writeChunk_bounds:
  assumes "data \<noteq> []" and "0 < sm_sendWindow (at m p)"
  shows "0 < writeChunk data p m" "writeChunk data p m \<le> length data" "writeChunk data p m \<le> MaxDataPayload"
    "m_compression m \<Longrightarrow> writeChunk data p m \<le> MaxDataPayload - 1" "writeChunk data p m \<le> unat (sm_sendWindow (at m p))"
  using assms by (auto simp: writeChunk_def frame_consts word_less_nat_alt Let_def)

lemma encodeChunk_Inr:
  assumes "data \<noteq> []" and "0 < sm_sendWindow (at m p)"
  obtains payload where "encodeChunk F (take (writeChunk data p m) data) m = Inr payload"
    and "payload \<noteq> []" and "length payload \<le> MaxDataPayload"
proof (cases "m_compression m")
  case True
  note b = writeChunk_bounds [OF assms]
  have "take (writeChunk data p m) data \<noteq> []" "length (take (writeChunk data p m) data) \<le> MaxDataPayload - 1"
    using b(1,4) True assms(1) by auto
  then obtain payload where "encodeCompressedPayload F (take (writeChunk data p m) data) = Inr payload"
    using encodeCompressedPayload_Inr by blast
  then show ?thesis using that encodeCompressedPayload_size(1,3) True by (simp add: encodeChunk_def)
next
  case False
  then show ?thesis using that writeChunk_bounds(1-3) [OF assms] assms(1) by (auto simp: encodeChunk_def)
qed

text \<open>A DATA frame of stream \<open>sid\<close> that carries \<open>chunk\<close>, compressed or not.\<close>

definition carries :: "flate \<Rightarrow> bool \<Rightarrow> u32 \<Rightarrow> Frame \<Rightarrow> bytes \<Rightarrow> bool" where
  "carries F compressed sid f chunk \<longleftrightarrow>
     FType f = FrameData \<and> StreamID f = sid \<and> Validate f = None \<and> length chunk \<le> MaxDataPayload
     \<and> (if compressed then encodeCompressedPayload F chunk else Inr chunk) = Inr (Payload f)"

lemma receiveReset_compression [simp]: "m_compression (fold (\<lambda>p. receiveReset p e) ps m) = m_compression m"
  by (induction ps arbitrary: m) (simp_all add: receiveReset_def)

lemma schedule_compression [simp]: "m_compression (snd (schedule p m)) = m_compression m"
  by (simp add: schedule_def pickCase_def shutdown_def Let_def)

lemma enqueueAndSchedule_compression [simp]: "m_compression (snd (enqueueAndSchedule f p m)) = m_compression m"
  by (simp add: enqueueAndSchedule_def enqueueLocked_def Let_def)

definition writable :: "Stream \<Rightarrow> bool" where
  "writable s \<longleftrightarrow> sm_opened s \<and> \<not> sm_closed s \<and> \<not> sm_localWriteClosed s"

text \<open>One chunk of a write on a stream with window left: its frame is queued and the rest goes on.\<close>

lemma Stream_Write_chunk:
  assumes ok: "mux_ok m" and p: "p < length (m_heap m)" and wr: "writable (at m p)" and w: "0 < sm_sendWindow (at m p)" and ne: "data \<noteq> []"
  obtains k frame m2 where "Stream_Write F written data p m = Stream_Write F (written + k) (drop k data) p m2"
    and "0 < k" and "k \<le> length data" and "k \<le> unat (sm_sendWindow (at m p))"
    and "mux_ok m2" and "length (m_heap m2) = length (m_heap m)" and "m_compression m2 = m_compression m"
    and "at m2 p = (at m p)\<lparr>sm_sendWindow := sm_sendWindow (at m p) - of_nat k, sm_outbound := sm_outbound (at m p) @ [frame], sm_scheduled := True\<rparr>"
    and "unat (sm_sendWindow (at m p) - of_nat k) = unat (sm_sendWindow (at m p)) - k"
    and "carries F (m_compression m) (sm_id (at m p)) frame (take k data)"
    and "\<exists>a b. m2 = addCompressionTX a b (snd (enqueueAndSchedule frame p (upd p (\<lambda>s. s\<lparr>sm_sendWindow := sm_sendWindow s - of_nat k\<rparr>) m)))"
proof -
  define k where "k = writeChunk data p m"
  have s: "stream_ok (at m p)" by (rule stream_at [OF ok p])
  obtain payload where pl: "encodeChunk F (take k data) m = Inr payload" "payload \<noteq> []" "length payload \<le> MaxDataPayload"
    using encodeChunk_Inr [OF ne w, of F] unfolding k_def by blast
  note b = writeChunk_bounds [OF ne w, folded k_def]
  define f :: "Stream \<Rightarrow> Stream" where "f = (\<lambda>s. s\<lparr>sm_sendWindow := sm_sendWindow s - of_nat k\<rparr>)"
  define frame where "frame = mkFrame FrameData (sm_id (at m p)) payload"
  have kw: "unat (of_nat k :: u32) = k" using b(5) unat_less_pow [of "sm_sendWindow (at m p)"] by (simp add: unat_of_nat)
  then have le: "of_nat k \<le> sm_sendWindow (at m p)" using b(5) by (simp add: word_le_nat_alt)
  then have win: "unat (sm_sendWindow (at m p) - of_nat k) = unat (sm_sendWindow (at m p)) - k" using kw by (simp add: unat_sub)
  have "sm_sendWindow (at m p) - of_nat k \<le> InitialStreamWindow"
    using s le unfolding stream_ok_def by (meson order_trans word_sub_le)
  then have u: "mux_ok (upd p f m)" using s by (intro mux_ok_upd [OF ok p]) (simp_all add: stream_ok_def f_def)
  have v: "Validate frame = None" using control_valid(6) [OF stream_id_nonzero [OF ok p] pl(2,3)] by (simp add: frame_def)
  obtain e m1 where enq: "enqueueAndSchedule frame p (upd p f m) = (e, m1)" by fastforce
  have e: "e = None" "mux_ok m1" "length (m_heap m1) = length (m_heap m)"
    and h: "at m1 p = (f (at m p))\<lparr>sm_outbound := sm_outbound (at m p) @ [frame], sm_scheduled := True\<rparr>"
    using enqueueAndSchedule_ok [OF u _ v enq] p by (simp_all add: at_upd f_def)
  have c: "m_compression m1 = m_compression m" using enqueueAndSchedule_compression [of frame p "upd p f m"] enq by simp
  have run: "Stream_Write F written data p m
      = Stream_Write F (written + k) (drop k data) p (addCompressionTX (of_nat k) (of_nat (length payload)) m1)"
  proof (cases data)
    case (Cons d ds)
    note d = Cons [symmetric]
    show ?thesis
      using wr w unfolding Cons by (subst Stream_Write.simps(2))
        (simp add: d k_def [symmetric] f_def [symmetric] pl(1) frame_def [symmetric] enq e(1) writable_def)
  qed (use ne in simp)
  have "carries F (m_compression m) (sm_id (at m p)) frame (take k data)"
    using v pl(1) b(3) by (simp add: carries_def frame_def encodeChunk_def)
  note that [OF run b(1,2,5) _ _ _ _ win this]
  then show ?thesis using e(2,3) h c enq unfolding f_def by fastforce
qed

lemma Stream_Write_stops:
  assumes "\<not> (writable (at m p) \<and> 0 < sm_sendWindow (at m p))" and "Stream_Write F written data p m = (n, r, m')"
  shows "m' = m" and "n = written"
  using assms by (cases data; auto simp: Stream_Write.simps(2) Let_def writable_def split: if_splits)+

lemma Stream_Write_ok:
  assumes "mux_ok m" and "p < length (m_heap m)" and "Stream_Write F written data p m = (n, r, m')"
  shows "mux_ok m' \<and> length (m_heap m') = length (m_heap m)"
  using assms
proof (induction "length data" arbitrary: data written m rule: less_induct)
  case less
  show ?case
  proof (cases "data \<noteq> [] \<and> writable (at m p) \<and> 0 < sm_sendWindow (at m p)")
    case True
    obtain k frame m2 where k: "Stream_Write F written data p m = Stream_Write F (written + k) (drop k data) p m2"
      "0 < k" "mux_ok m2" "length (m_heap m2) = length (m_heap m)"
      using Stream_Write_chunk [OF less(2,3), of data F written] True by metis
    have "mux_ok m' \<and> length (m_heap m') = length (m_heap m2)"
      using less(1) [of "drop k data" m2 "written + k"] True k less(3,4) by simp
    then show ?thesis using k(4) by simp
  next
    case False
    have "m' = m" using False less(4) Stream_Write_stops(1) [OF _ less(4)] by (cases data) auto
    then show ?thesis using less(2) by simp
  qed
qed

text \<open>A new stream enters the heap and the map.\<close>

lemma add_stream_ok:
  assumes ok: "mux_ok m" and fresh: "sid \<notin> fst ` set (m_streams m)" and room: "length (m_streams m) < m_maxStreams m"
    and nd: "\<not> m_done m" and st: "stream_ok st" "sm_id st = sid" "sm_outbound st = []" "\<not> sm_scheduled st"
    and m': "m_heap m' = m_heap m @ [st]" "m_streams m' = gomap_put sid (length (m_heap m)) (m_streams m)"
      "m_ready m' = m_ready m" "m_control m' = m_control m" "m_accept m' = m_accept m" "m_maxStreams m' = m_maxStreams m"
      "m_done m' = m_done m"
    and ids: "ids_ok m'"
  shows "mux_ok m'"
proof -
  have str: "m_streams m' = (sid, length (m_heap m)) # m_streams m"
    using fresh by (simp add: m' gomap_put_def gomap_del_fresh)
  have at: "at m' q = (if q = length (m_heap m) then st else at m q)" if "q \<le> length (m_heap m)" for q
    using that by (simp add: m' nth_append)
  have tab: "\<forall>x \<in> set (m_streams m). snd x < length (m_heap m) \<and> sm_id (at m (snd x)) = fst x"
    using ok by (simp add: mux_ok_def table_ok_def)
  have "table_ok m'"
    using ok fresh room tab st(2) unfolding table_ok_def mux_ok_def str by (fastforce simp: m' nth_append)
  moreover have "queued_ok m' x" if "x \<in> set (m_streams m')" for x
  proof (cases "x = (sid, length (m_heap m))")
    case True
    have "sid \<notin> set (m_ready m)" using ok nd fresh by (auto simp: mux_ok_def queue_ok_def)
    then show ?thesis using True st by (simp add: queued_ok_def m')
  next
    case False
    then have x: "x \<in> set (m_streams m)" using that str by simp
    then have "queued_ok m x" "snd x < length (m_heap m)" using ok nd tab by (auto simp: mux_ok_def queue_ok_def)
    then show ?thesis by (simp add: queued_ok_def m' nth_append)
  qed
  then have "queue_ok m'" using ok nd str by (auto simp: queue_ok_def mux_ok_def m')
  moreover have "chan_ok m'" using ok by (auto simp: mux_ok_def chan_ok_def m' controlCap_def acceptCap_def less_Suc_eq)
  moreover have "list_all stream_ok (m_heap m')" using ok st(1) by (simp add: mux_ok_def m')
  ultimately show ?thesis using ids by (simp add: mux_ok_def)
qed

lemma stream_ok_new: "sid \<noteq> 0 \<Longrightarrow> stream_ok ((newStream sid)\<lparr>sm_service := x\<rparr>)" "sid \<noteq> 0 \<Longrightarrow> stream_ok (newStream sid)"
  by (simp_all add: stream_ok_def newStream_def windowUpdateThreshold_def InitialStreamWindow_def)

lemma newStream_simps [simp]:
  "sm_id (newStream sid) = sid" "sm_outbound (newStream sid) = []" "\<not> sm_scheduled (newStream sid)"
  by (simp_all add: newStream_def)

lemma next_id:
  fixes sid :: u32
  assumes "odd (uint sid)" and "sid \<noteq> - 1"
  shows "sid < sid + 2" and "odd (uint (sid + 2))"
proof -
  have lt: "uint sid < 2 ^ 32" using uint_bounded [of sid] by simp
  have "uint sid \<noteq> 2 ^ 32 - 1"
  proof
    assume "uint sid = 2 ^ 32 - 1"
    then have "uint sid = uint (- 1 :: u32)" by (simp add: uint_word_ariths)
    then show False using assms(2) by (simp add: word_uint_eq_iff)
  qed
  moreover have "uint sid \<noteq> 2 ^ 32 - 2" using assms(1) by auto
  ultimately have b: "uint sid + 2 < 2 ^ 32" using lt by linarith
  then have "uint (sid + 2) = uint sid + 2" using uint_nonnegative [of sid] by (simp add: uint_word_ariths)
  then show "sid < sid + 2" "odd (uint (sid + 2))" using assms(1) by (simp_all add: word_less_def)
qed

lemma openServiceBegin_ok:
  assumes ok: "mux_ok m" and run: "openServiceBegin service m = (r, m')"
  shows "mux_ok m'" and "r = Inr p \<Longrightarrow> p < length (m_heap m')"
proof -
  let ?sid = "m_nextID m" and ?p = "length (m_heap m)"
  let ?m1 = "m\<lparr>m_nextID := (if ?sid = - 1 then 0 else ?sid + 2), m_lastID := ?sid, m_heap := m_heap m @ [newStream ?sid], m_streams := gomap_put ?sid ?p (m_streams m)\<rparr>"
  have "mux_ok m' \<and> (r = Inr p \<longrightarrow> p < length (m_heap m'))"
  proof (cases "m_client m \<and> length service \<le> maxServiceName \<and> \<not> m_closed m \<and> length (m_streams m) < m_maxStreams m \<and> ?sid \<noteq> 0")
    case False
    then show ?thesis using run ok by (auto simp: openServiceBegin_def Let_def split: if_splits)
  next
    case True
    have ids: "ids_ok m" using ok by (simp add: mux_ok_def)
    then have sid: "m_lastID m < ?sid" "odd (uint ?sid)" "\<forall>s \<in> fst ` set (m_streams m). s \<le> m_lastID m" "\<not> m_done m"
      using True by (auto simp: ids_ok_def)
    have fresh: "?sid \<notin> fst ` set (m_streams m)" using sid(1,3) by (meson linorder_not_le)
    have "ids_ok ?m1"
      using ids sid True next_id [OF sid(2)] by (auto simp: ids_ok_def gomap_put_def order.strict_implies_order intro: order_trans [OF _ less_imp_le])
    then have m1: "mux_ok ?m1"
      using True by (intro add_stream_ok [OF ok fresh _ sid(4), of "newStream ?sid"]) (auto simp: stream_ok_new)
    have v: "Validate (mkFrame FrameOpen ?sid (bytes_of service)) = None"
      using control_valid(5) [of ?sid "bytes_of service"] True by simp
    obtain e m2 where sc: "sendControl (mkFrame FrameOpen ?sid (bytes_of service)) ?m1 = (e, m2)" by fastforce
    note s = sendControl_ok [OF m1 v sc]
    have "(r, m') = (case e of Some e \<Rightarrow> (Inl e, removeStream ?sid m2) | None \<Rightarrow> (Inr ?p, m2))"
      unfolding run [symmetric] openServiceBegin_def using True sc by (simp add: Let_def split: option.splits)
    then show ?thesis using s mux_ok_remove [OF s(1)] by (auto split: option.splits)
  qed
  then show "mux_ok m'" "r = Inr p \<Longrightarrow> p < length (m_heap m')" by blast+
qed

lemma openServiceEnd_ok:
  assumes "mux_ok m" and "p < length (m_heap m)" and "openServiceEnd p e m = (r, m')"
  shows "mux_ok m'" and "length (m_heap m') = length (m_heap m)"
  using assms Reset_ok [OF assms(1,2) prod.collapse [symmetric]] by (auto simp: openServiceEnd_def split: option.splits)

lemma Accept_ok:
  assumes ok: "mux_ok m" and run: "Accept m = (r, m')"
  shows "mux_ok m'" and "r = Some (Inr p) \<Longrightarrow> p < length (m_heap m')" and "m_heap m' = m_heap m"
proof -
  have drop: "mux_ok (m\<lparr>m_accept := rest\<rparr>)" "mux_ok (m\<lparr>m_picks := k, m_accept := rest\<rparr>)" "q < length (m_heap m)"
    if "m_accept m = q # rest" for q rest k
    using mux_ok_fields [OF ok] ok that by (auto simp: mux_ok_def chan_ok_def controlCap_def acceptCap_def)
  have "mux_ok m' \<and> (r = Some (Inr p) \<longrightarrow> p < length (m_heap m')) \<and> m_heap m' = m_heap m"
    using run ok drop by (auto simp: Accept_def pickCase_def split: list.splits if_splits)
  then show "mux_ok m'" "r = Some (Inr p) \<Longrightarrow> p < length (m_heap m')" "m_heap m' = m_heap m" by blast+
qed


text \<open>Received frames.\<close>

lemma handleServiceList_ok:
  assumes ok: "mux_ok m" and run: "handleServiceList f m = (e, m')"
  shows "mux_ok m'" and "length (m_heap m') = length (m_heap m)"
proof -
  have "mux_ok (m\<lparr>m_services := s, m_servicesErr := None, m_servicesReady := True\<rparr>)" for s
    using mux_ok_fields [OF ok] ok by (auto simp: mux_ok_def chan_ok_def controlCap_def acceptCap_def)
  then have "mux_ok m' \<and> length (m_heap m') = length (m_heap m)"
    using run ok by (auto simp: handleServiceList_def split: if_splits sum.splits)
  then show "mux_ok m'" "length (m_heap m') = length (m_heap m)" by blast+
qed

lemma mux_ok_server_lastID: "mux_ok m \<Longrightarrow> \<not> m_client m \<Longrightarrow> mux_ok (m\<lparr>m_lastID := l\<rparr>)"
  using queue_ok_cong [of "m\<lparr>m_lastID := l\<rparr>" m]
  by (simp add: mux_ok_def table_ok_def chan_ok_def ids_ok_def controlCap_def acceptCap_def)

lemma mux_ok_accept:
  assumes "mux_ok m" and "p < length (m_heap m)" and "length (m_accept m) < acceptCap m"
  shows "mux_ok (m\<lparr>m_accept := m_accept m @ [p]\<rparr>)"
  using mux_ok_fields [OF assms(1)] assms by (auto simp: mux_ok_def chan_ok_def controlCap_def acceptCap_def)

lemma handleOpen_refused:
  assumes "m_client m \<or> even (uint (StreamID f)) \<or> m_closed m \<or> map_of (m_streams m) (StreamID f) \<noteq> None"
  shows "snd (handleOpen f m) = m"
  using assms by (elim disjE) (simp_all add: handleOpen_def Let_def del: not_None_eq)

lemma handleOpen_ok:
  assumes ok: "mux_ok m" and v: "Validate f = None" "FType f = FrameOpen" and run: "handleOpen f m = (e, m')"
  shows "mux_ok m'" and "length (m_heap m) \<le> length (m_heap m')"
proof -
  let ?sid = "StreamID f" and ?p = "length (m_heap m)"
  let ?m1 = "m\<lparr>m_lastID := max (m_lastID m) ?sid\<rparr>"
  have sid: "?sid \<noteq> 0" using v by (auto simp: Validate_def Let_def frame_types split: if_splits)
  have "mux_ok m' \<and> length (m_heap m) \<le> length (m_heap m')"
  proof (cases "m_client m \<or> even (uint ?sid) \<or> m_closed m \<or> map_of (m_streams m) ?sid \<noteq> None")
    case True
    then have "snd (handleOpen f m) = m" by (rule handleOpen_refused)
    then show ?thesis using run ok by simp
  next
    case False
    then have nd: "\<not> m_done m" using ok by (simp add: mux_ok_def ids_ok_def)
    have m1: "mux_ok ?m1" using mux_ok_server_lastID [OF ok] False by simp
    show ?thesis
    proof (cases "length (m_streams m) \<ge> m_maxStreams m")
      case True
      then have "sendControl (mkFrame FrameOpenError ?sid (bytes_of ''server stream limit reached'')) ?m1 = (e, m')"
        using False unfolding run [symmetric] by (simp add: handleOpen_def Let_def)
      from sendControl_ok [OF m1 control_valid(4) [OF sid] this] show ?thesis by (simp add: MaxErrorPayload_def)
    next
      case notfull: False
      let ?st = "(newStream ?sid)\<lparr>sm_service := string_of (Payload f)\<rparr>"
      let ?m2 = "?m1\<lparr>m_heap := m_heap m @ [?st], m_streams := gomap_put ?sid ?p (m_streams m)\<rparr>"
      have fresh: "?sid \<notin> fst ` set (m_streams m)" using False by (simp add: map_of_eq_None_iff)
      have "ids_ok ?m2" using ok False by (simp add: mux_ok_def ids_ok_def)
      then have m2: "mux_ok ?m2"
        using notfull nd fresh sid by (intro add_stream_ok [OF ok fresh _ nd, of ?st]) (simp_all add: stream_ok_new)
      show ?thesis
      proof (cases "length (m_accept m) < acceptCap m")
        case True
        have "(e, m') = (None, ?m2\<lparr>m_accept := m_accept ?m2 @ [?p]\<rparr>)"
          using True False notfull nd unfolding run [symmetric] by (simp add: handleOpen_def Let_def acceptCap_def)
        then show ?thesis using mux_ok_accept [OF m2, of ?p] True by (simp add: acceptCap_def)
      next
        case full: False
        have "sendControl (mkFrame FrameOpenError ?sid (bytes_of ''server accept backlog full'')) (removeStream ?sid ?m2) = (e, m')"
          using False notfull nd full unfolding run [symmetric] by (simp add: handleOpen_def Let_def acceptCap_def)
        from sendControl_ok [OF mux_ok_remove [OF m2] control_valid(4) [OF sid] this]
        show ?thesis by (simp add: MaxErrorPayload_def)
      qed
    qed
  qed
  then show "mux_ok m'" "length (m_heap m) \<le> length (m_heap m')" by blast+
qed

lemma handleStreamFrame_ok:
  assumes ok: "mux_ok m" and p: "p < length (m_heap m)" and v: "Validate f = None"
    and run: "handleStreamFrame F f p m = (e, m')"
  shows "mux_ok m'" and "length (m_heap m') = length (m_heap m)"
proof -
  have data: "length (Payload f) \<le> MaxDataPayload" if "FType f = FrameData"
    using Validate_payload_bound [OF v] that by (simp add: frame_types)
  obtain e1 m1 where rd: "receiveData F (Payload f) p m = (e1, m1)" by fastforce
  obtain e2 m2 where wu: "updateSendWindow (WindowAmount f) p m = (e2, m2)" by fastforce
  note w = updateSendWindow_ok [OF ok p wu]
  have reset: "mux_ok n' \<and> length (m_heap n') = length (m_heap n)"
    if "Reset p x n = (e, n')" "mux_ok n" "length (m_heap n) = length (m_heap m)" for x n e n'
    using Reset_ok [OF that(2) _ that(1)] p that(3) by simp
  have d: "mux_ok m1 \<and> length (m_heap m1) = length (m_heap m)" if "FType f = FrameData"
    using receiveData_ok [OF ok p data [OF that] rd] by simp
  have op: "mux_ok (markOpened p x m)" "length (m_heap (markOpened p x m)) = length (m_heap m)" for x
    by (rule markOpened_ok [OF ok p])+
  have reset': "mux_ok m' \<and> length (m_heap m') = length (m_heap m)"
    if "(case x of None \<Rightarrow> (None, n) | Some y \<Rightarrow> Reset p y n) = (e, m')" "mux_ok n \<and> length (m_heap n) = length (m_heap m)" for x n
    using that reset [of _ n e m'] by (cases x) auto
  consider (ok) "FType f = FrameOpenOK" | (err) "FType f = FrameOpenError" | (data) "FType f = FrameData" | (wu) "FType f = FrameWindowUpdate"
    | (fin) "FType f = FrameFIN" | (reset) "FType f = FrameReset"
    | (other) "FType f \<notin> {FrameOpenOK, FrameOpenError, FrameData, FrameWindowUpdate, FrameFIN, FrameReset}" by blast
  then have "mux_ok m' \<and> length (m_heap m') = length (m_heap m)"
  proof cases
    case data
    have "(case e1 of None \<Rightarrow> (None, m1) | Some y \<Rightarrow> Reset p y m1) = (e, m')"
      using run rd data by (simp add: handleStreamFrame_def frame_types split: option.splits)
    then show ?thesis by (rule reset') (rule d [OF data])
  next
    case wu
    have "(case e2 of None \<Rightarrow> (None, m2) | Some y \<Rightarrow> Reset p y m2) = (e, m')"
      using run \<open>updateSendWindow _ p m = _\<close> wu by (simp add: handleStreamFrame_def frame_types split: option.splits)
    then show ?thesis by (rule reset') (use w in blast)
  next
    case ok
    then show ?thesis using run assms(1) op by (auto simp: handleStreamFrame_def split: if_splits)
  next
    case err
    then show ?thesis using run mux_ok_remove [OF op(1)] op(2) by (auto simp: handleStreamFrame_def frame_types)
  next
    case fin
    then show ?thesis using run receiveFIN_ok [OF assms(1) p] by (auto simp: handleStreamFrame_def frame_types)
  next
    case reset
    then show ?thesis
      using run mux_ok_remove [OF mux_ok_receiveReset [OF assms(1) p]] by (auto simp: handleStreamFrame_def frame_types)
  next
    case other
    then show ?thesis using run assms(1) by (simp add: handleStreamFrame_def)
  qed
  then show "mux_ok m'" "length (m_heap m') = length (m_heap m)" by blast+
qed

lemma handleFrame_ok:
  assumes ok: "mux_ok m" and v: "Validate f = None" and run: "handleFrame F f m = (e, m')"
  shows "mux_ok m'" and "length (m_heap m) \<le> length (m_heap m')"
proof -
  have "mux_ok m' \<and> length (m_heap m) \<le> length (m_heap m')"
  proof (cases "FType f = FrameServiceList \<or> FType f = FrameOpen")
    case True
    then show ?thesis
      using run handleServiceList_ok [OF ok, of f] handleOpen_ok [OF ok v, of e m']
      by (cases "FType f = FrameServiceList") (simp_all add: handleFrame_def)
  next
    case False
    then have sid: "StreamID f \<noteq> 0" using v by (auto simp: Validate_def Let_def frame_types split: if_splits)
    show ?thesis
    proof (cases "map_of (m_streams m) (StreamID f)")
      case None
      have "Validate (mkFrame FrameReset (StreamID f) (bytes_of ''unknown stream'')) = None"
        using control_valid(3) [OF sid] by (simp add: MaxErrorPayload_def)
      from sendControl_ok [OF ok this prod.collapse [symmetric]]
      show ?thesis using run ok None False by (simp add: handleFrame_def Let_def split: if_splits)
    next
      case (Some p)
      then have "p < length (m_heap m)" using ok map_of_streams by (fastforce simp: mux_ok_def table_ok_def)
      from handleStreamFrame_ok [OF ok this v] show ?thesis
        using run Some False by (simp add: handleFrame_def Let_def)
    qed
  qed
  then show "mux_ok m'" "length (m_heap m) \<le> length (m_heap m')" by blast+
qed

lemma readLoopStep_ok:
  assumes ok: "mux_ok m" and run: "readLoopStep F r m = (c, r', m')"
  shows "mux_ok m'" and "length (m_heap m) \<le> length (m_heap m')"
proof -
  have "mux_ok m' \<and> length (m_heap m) \<le> length (m_heap m')"
  proof (cases "ReadFrame r")
    case (Pair res r1)
    show ?thesis
    proof (cases res)
      case (Inl a)
      then show ?thesis using run Pair mux_ok_shutdown [OF ok] by (auto simp: readLoopStep_def)
    next
      case (Inr f)
      then have v: "Validate f = None" using ReadFrame_Inr Pair by blast
      obtain e m1 where h: "handleFrame F f m = (e, m1)" by fastforce
      note hf = handleFrame_ok [OF ok v h]
      show ?thesis using run Pair Inr h hf mux_ok_shutdown [OF hf(1)] by (auto simp: readLoopStep_def split: option.splits)
    qed
  qed
  then show "mux_ok m'" "length (m_heap m) \<le> length (m_heap m')" by blast+
qed

lemma writeLoopStep_ok:
  assumes ok: "mux_ok m" and run: "writeLoopStep write w m = (c, w', m')"
  shows "mux_ok m'" and "length (m_heap m') = length (m_heap m)"
proof -
  obtain c1 m1 where s: "writeSelect m = (c1, m1)" by fastforce
  note ws = writeSelect_ok(1,3) [OF ok s]
  have "mux_ok m' \<and> length (m_heap m') = length (m_heap m)"
    using run s ws mux_ok_shutdown [OF ws(1)]
    by (auto simp: writeLoopStep_def split: write_choice.splits prod.splits option.splits)
  then show "mux_ok m'" "length (m_heap m') = length (m_heap m)" by blast+
qed

lemma newSession_ok: "mux_ok (newSession client n c counter pick)"
  by (simp add: newSession_def mux_ok_def table_ok_def queue_ok_def chan_ok_def ids_ok_def Let_def)

end
