(* ===== verification/Mux_Run.thy ===== *)
theory Mux_Run
  imports Mux_Inv Transition_System
begin

text \<open>
  Runs of the multiplexer: the step relation of everything the goroutines of a session do, the states
  it reaches, the order in which the writer serves the streams, and the transfer of a write through
  frames, wire and reader to the peer's stream.
\<close>

section \<open>Runs of a session\<close>

text \<open>
  Whatever the goroutines do: streams are opened, accepted, approved, rejected, read, written, half
  closed, closed and reset, the reader handles what the connection yields, the writer turns.
\<close>

inductive mux_step :: "flate \<Rightarrow> Mux \<Rightarrow> Mux \<Rightarrow> bool" for F where
  st_open: "openServiceBegin service m = (r, m') \<Longrightarrow> mux_step F m m'"
| st_opened: "p < length (m_heap m) \<Longrightarrow> openServiceEnd p e m = (r, m') \<Longrightarrow> mux_step F m m'"
| st_accept: "Accept m = (r, m') \<Longrightarrow> mux_step F m m'"
| st_approve: "p < length (m_heap m) \<Longrightarrow> Approve p m = (e, m') \<Longrightarrow> mux_step F m m'"
| st_reject: "p < length (m_heap m) \<Longrightarrow> Reject p err m = (e, m') \<Longrightarrow> mux_step F m m'"
| st_read: "p < length (m_heap m) \<Longrightarrow> Stream_Read n p m = (r, m') \<Longrightarrow> mux_step F m m'"
| st_write: "p < length (m_heap m) \<Longrightarrow> Stream_Write F 0 data p m = (n, r, m') \<Longrightarrow> mux_step F m m'"
| st_closeWrite: "p < length (m_heap m) \<Longrightarrow> CloseWrite p m = (e, m') \<Longrightarrow> mux_step F m m'"
| st_closeRead: "p < length (m_heap m) \<Longrightarrow> mux_step F m (CloseRead p m)"
| st_streamClose: "p < length (m_heap m) \<Longrightarrow> Stream_Close p m = (e, m') \<Longrightarrow> mux_step F m m'"
| st_reset: "p < length (m_heap m) \<Longrightarrow> Reset p err m = (e, m') \<Longrightarrow> mux_step F m m'"
| st_deadline: "p < length (m_heap m) \<Longrightarrow> mux_step F m (Stream_SetDeadline t p m)"
| st_readDeadline: "p < length (m_heap m) \<Longrightarrow> mux_step F m (Stream_SetReadDeadline t p m)"
| st_writeDeadline: "p < length (m_heap m) \<Longrightarrow> mux_step F m (Stream_SetWriteDeadline t p m)"
| st_services: "Services m = (r, m') \<Longrightarrow> mux_step F m m'"
| st_close: "mux_step F m (Mux_Close m)"
| st_reader: "readLoopStep F rd m = (c, rd', m') \<Longrightarrow> mux_step F m m'"
| st_writer: "writeLoopStep (write :: bytes writer) w m = (c, w', m') \<Longrightarrow> mux_step F m m'"

definition mux_reach :: "flate \<Rightarrow> Mux \<Rightarrow> Mux \<Rightarrow> bool" where
  "mux_reach F = (mux_step F)\<^sup>*\<^sup>*"

lemma reach_refl: "mux_reach F m m"
  by (simp add: mux_reach_def)

lemma reach_step: "mux_reach F m m1 \<Longrightarrow> mux_step F m1 m2 \<Longrightarrow> mux_reach F m m2"
  by (simp add: mux_reach_def)

definition mux_started :: "Mux \<Rightarrow> bool" where
  "mux_started m \<longleftrightarrow> (\<exists>n c counter pick. m = newSession True n c counter pick)
     \<or> (\<exists>n c counter services pick. m = newServerWithServices n c counter services pick)"

lemma encodeServices_nonempty: "encodeServices s \<noteq> []"
proof -
  have "length (encodeServices s) > 0" by (simp add: encodeServices_def codec)
  then show ?thesis by auto
qed

lemma mux_started_ok: "mux_started m \<Longrightarrow> mux_ok m"
proof -
  have "mux_ok (newServerWithServices n c counter services pick)" for n c counter services pick
  proof -
    let ?s = "newSession False n c counter pick"
    have "m_control ?s = []" "0 < controlCap ?s" "m_accept ?s = []"
      by (simp_all add: newSession_def controlCap_def Let_def)
    then have "mux_ok (?s\<lparr>m_services := services, m_control := m_control ?s @ [mkFrame FrameServiceList 0 (encodeServices services)]\<rparr>)"
      using newSession_ok [of False n c counter pick] encodeServices_nonempty
      by (intro mux_ok_fields [OF newSession_ok [of False n c counter pick]])
        (auto simp: chan_ok_def controlCap_def Validate_def frame_types)
    then show ?thesis by (simp add: newServerWithServices_def Let_def)
  qed
  then show "mux_started m \<Longrightarrow> mux_ok m" using newSession_ok by (auto simp: mux_started_def)
qed

lemma setDeadline_ok:
  assumes "mux_ok m" and "p < length (m_heap m)"
  shows "mux_ok (Stream_SetDeadline t p m)" "mux_ok (Stream_SetReadDeadline t p m)" "mux_ok (Stream_SetWriteDeadline t p m)"
  unfolding Stream_SetDeadline_def Stream_SetReadDeadline_def Stream_SetWriteDeadline_def
  using stream_at [OF assms] by (auto intro!: mux_ok_upd [OF assms] simp: stream_ok_def streamSignal_def)

lemma mux_step_ok: "mux_step F m m' \<Longrightarrow> mux_ok m \<Longrightarrow> mux_ok m'"
proof (induction rule: mux_step.induct)
  case (st_services m r m')
  then show ?case by (auto simp: Services_def pickCase_def split: bool.splits)
next
  case st_open
  then show ?case by (blast intro: openServiceBegin_ok(1))
next
  case st_opened
  then show ?case by (blast intro: openServiceEnd_ok(1))
next
  case st_accept
  then show ?case by (blast intro: Accept_ok(1))
next
  case st_approve
  then show ?case by (blast intro: Approve_ok(1))
next
  case st_reject
  then show ?case by (blast intro: Reject_ok(1))
next
  case st_read
  then show ?case by (blast intro: Stream_Read_ok(1))
next
  case st_closeWrite
  then show ?case by (blast intro: CloseWrite_ok(1))
next
  case st_closeRead
  then show ?case by (blast intro: CloseRead_ok(1))
next
  case st_streamClose
  then show ?case by (blast intro: Stream_Close_ok(1))
next
  case st_reset
  then show ?case by (blast intro: Reset_ok(1))
next
  case st_deadline
  then show ?case by (blast intro: setDeadline_ok(1))
next
  case st_readDeadline
  then show ?case by (blast intro: setDeadline_ok(2))
next
  case st_writeDeadline
  then show ?case by (blast intro: setDeadline_ok(3))
next
  case st_reader
  then show ?case by (blast intro: readLoopStep_ok(1))
next
  case st_writer
  then show ?case by (blast intro: writeLoopStep_ok(1))
next
  case st_write
  then show ?case using Stream_Write_ok by blast
next
  case st_close
  then show ?case by (simp add: Mux_Close_def mux_ok_shutdown)
qed

interpretation mux_runs: transition_system mux_started "mux_step F" mux_ok for F
  by unfold_locales (rule mux_started_ok mux_step_ok, assumption+)+

lemma mux_reach_ok: "mux_reach F m m' \<Longrightarrow> mux_ok m \<Longrightarrow> mux_ok m'"
  unfolding mux_reach_def by (rule mux_runs.steps_inv)

section \<open>The writer serves the streams in turn\<close>

text \<open>A turn of the writer on a scheduled stream, when no control frame waits.\<close>

lemma writeSelect_ready:
  assumes ok: "mux_ok m" and nd: "\<not> m_done m" and ctl: "m_control m = []" and rd: "m_ready m = sid # rest"
  obtains p g gs m' where "map_of (m_streams m) sid = Some p" and "sm_outbound (at m p) = g # gs"
    and "writeSelect m = (WriterEmits g, m')" and "m_control m' = []" and "\<not> m_done m'"
    and "m_ready m' = rest @ (if gs = [] then [] else [sid])"
    and "\<forall>q. q \<noteq> p \<longrightarrow> at m' q = at m q" and "\<forall>i. i \<noteq> sid \<longrightarrow> map_of (m_streams m') i = map_of (m_streams m) i"
proof -
  have tab: "table_ok m" using ok by (simp add: mux_ok_def)
  have q: "distinct (m_ready m)" "set (m_ready m) \<subseteq> fst ` set (m_streams m)" "\<forall>x \<in> set (m_streams m). queued_ok m x"
    using ok nd by (auto simp: mux_ok_def queue_ok_def)
  obtain p where p: "(sid, p) \<in> set (m_streams m)" using q(2) rd by auto
  then have mo: "map_of (m_streams m) sid = Some p" using map_of_streams [OF tab] by simp
  have pl: "p < length (m_heap m)" and sid: "sm_id (at m p) = sid" using tab p by (auto simp: table_ok_def)
  obtain g gs where out: "sm_outbound (at m p) = g # gs"
    using bspec [OF q(3) p] rd by (cases "sm_outbound (at m p)") (auto simp: queued_ok_def)
  let ?f = "\<lambda>s. s\<lparr>sm_outbound := gs, sm_scheduled := (if gs \<noteq> [] then sm_scheduled s else False)\<rparr>"
  let ?m1 = "upd p ?f (m\<lparr>m_ready := rest\<rparr>)"
  have at: "at ?m1 q = at m q" if "q \<noteq> p" for q using that pl by (simp add: at_upd)
  obtain r m' where no: "nextOutbound p (m\<lparr>m_ready := rest\<rparr>) = (r, m')" by fastforce
  have ws: "writeSelect m = (case r of None \<Rightarrow> (WriterSkips, m') | Some g \<Rightarrow> (WriterEmits g, m'))"
    using ctl nd rd mo no by (simp add: writeSelect_def split: option.splits)
  have no': "(r, m') = (if gs \<noteq> [] then (Some g, snd (schedule p ?m1))
      else if sm_closeAfterDrain (at m p) then (Some g, removeStream sid ?m1) else (Some g, ?m1))"
    unfolding no [symmetric] nextOutbound_def Let_def using out sid by simp
  show ?thesis
  proof (cases "gs = []")
    case True
    have "sid \<notin> set rest" using q(1) rd by simp
    then have "filter (\<lambda>x. x \<noteq> sid) rest = rest" by (metis (mono_tags, lifting) filter_True)
    then show ?thesis
      using that [OF mo out, of m'] ws no' True at ctl nd by (simp add: removeStream_fields split: if_splits)
  next
    case False
    have "length rest < readyCap m"
    proof -
      have "length (m_ready m) = card (set (m_ready m))" using q(1) by (simp add: distinct_card)
      also have "\<dots> \<le> card (fst ` set (m_streams m))" using q(2) by (intro card_mono) auto
      also have "\<dots> \<le> length (m_streams m)" by (metis card_length length_map set_map)
      also have "\<dots> \<le> m_maxStreams m" using tab by (simp add: table_ok_def)
      finally show ?thesis using rd by (simp add: readyCap_def)
    qed
    then have "snd (schedule p ?m1) = ?m1\<lparr>m_ready := rest @ [sid]\<rparr>"
      using mo nd sid pl False by (simp add: schedule_def at_upd readyCap_def)
    then show ?thesis using that [OF mo out, of m'] ws no' False at ctl nd by simp
  qed
qed

text \<open>\<open>n\<close> turns of the writer with nothing else in between.\<close>

primrec writer_turns :: "nat \<Rightarrow> Mux \<Rightarrow> write_choice list \<times> Mux" where
  "writer_turns 0 m = ([], m)"
| "writer_turns (Suc n) m =
     (case writeSelect m of (c, m1) \<Rightarrow> case writer_turns n m1 of (cs, m2) \<Rightarrow> (c # cs, m2))"

lemma writer_turns_step:
  assumes "writeSelect m = (c, m')"
  shows "fst (writer_turns (Suc n) m) = c # fst (writer_turns n m')"
  using assms by (cases "writer_turns n m'") simp

lemma writer_turns_serve:
  assumes "mux_ok m" and "\<not> m_done m" and "m_control m = []" and "m_ready m = xs @ sid # ys"
    and "map_of (m_streams m) sid = Some p"
  shows "fst (writer_turns (Suc (length xs)) m) ! length xs = WriterEmits (hd (sm_outbound (at m p)))"
  using assms
proof (induction xs arbitrary: m ys)
  case Nil
  have rd: "m_ready m = sid # ys" using Nil.prems(4) by simp
  show ?case
  proof (rule writeSelect_ready [OF Nil.prems(1-3) rd])
    fix q g gs m'
    assume "map_of (m_streams m) sid = Some q" and "sm_outbound (at m q) = g # gs" and "writeSelect m = (WriterEmits g, m')"
    then show ?thesis using Nil.prems(5) by (simp add: writer_turns_step del: writer_turns.simps(2))
  qed
next
  case (Cons x xs)
  have rd: "m_ready m = x # (xs @ sid # ys)" using Cons.prems(4) by simp
  obtain q g gs m' where q: "map_of (m_streams m) x = Some q" "sm_outbound (at m q) = g # gs" "writeSelect m = (WriterEmits g, m')"
    "m_control m' = []" "\<not> m_done m'" "m_ready m' = (xs @ sid # ys) @ (if gs = [] then [] else [x])"
    "\<forall>i. i \<noteq> q \<longrightarrow> at m' i = at m i" "\<forall>i. i \<noteq> x \<longrightarrow> map_of (m_streams m') i = map_of (m_streams m) i"
    by (rule writeSelect_ready [OF Cons.prems(1-3) rd]) (rule that)
  have tab: "table_ok m" and "distinct (m_ready m)" using Cons.prems(1,2) by (auto simp: mux_ok_def queue_ok_def)
  then have "x \<noteq> sid" using Cons.prems(4) by auto
  then have "q \<noteq> p" using q(1) Cons.prems(5) map_of_streams [OF tab] map_ptr_unique [OF tab] by blast
  have ok': "mux_ok m'" by (rule writeSelect_ok(1) [OF Cons.prems(1) q(3)])
  have "m_ready m' = xs @ sid # (ys @ (if gs = [] then [] else [x]))" using q(6) by simp
  from Cons.IH [OF ok' q(5,4) this] have
    "fst (writer_turns (Suc (length xs)) m') ! length xs = WriterEmits (hd (sm_outbound (at m' p)))"
    using q(8) \<open>x \<noteq> sid\<close> Cons.prems(5) by simp
  then show ?case using q(7) \<open>q \<noteq> p\<close> by (simp add: writer_turns_step [OF q(3)] del: writer_turns.simps(2))
qed

section \<open>What a write queues\<close>

text \<open>
  What a write leaves: the bytes that fitted the window are queued, in order, in DATA frames; the rest waits.
\<close>

definition wrote :: "flate \<Rightarrow> nat \<Rightarrow> bytes \<Rightarrow> nat \<Rightarrow> Mux \<Rightarrow> Mux \<Rightarrow> bool" where
  "wrote F sent data p m m' \<longleftrightarrow>
     (\<exists>frames chunks. sm_outbound (at m' p) = sm_outbound (at m p) @ frames
        \<and> list_all2 (carries F (m_compression m) (sm_id (at m p))) frames chunks \<and> concat chunks = take sent data)
     \<and> unat (sm_sendWindow (at m' p)) + sent = unat (sm_sendWindow (at m p))"

lemma wrote_chunk:
  assumes "wrote F s (drop k data) p m2 m'" and "k \<le> unat (sm_sendWindow (at m p))" and "m_compression m2 = m_compression m"
    and "at m2 p = (at m p)\<lparr>sm_sendWindow := sm_sendWindow (at m p) - of_nat k, sm_outbound := sm_outbound (at m p) @ [frame], sm_scheduled := True\<rparr>"
    and "unat (sm_sendWindow (at m p) - of_nat k) = unat (sm_sendWindow (at m p)) - k"
    and "carries F (m_compression m) (sm_id (at m p)) frame (take k data)"
  shows "wrote F (k + s) data p m m'"
proof -
  obtain frames chunks where w: "sm_outbound (at m' p) = sm_outbound (at m2 p) @ frames"
    "list_all2 (carries F (m_compression m2) (sm_id (at m2 p))) frames chunks" "concat chunks = take s (drop k data)"
    "unat (sm_sendWindow (at m' p)) + s = unat (sm_sendWindow (at m2 p))"
    using assms(1) by (auto simp: wrote_def)
  have "list_all2 (carries F (m_compression m) (sm_id (at m p))) (frame # frames) (take k data # chunks)"
    using w(2) assms(3,4,6) by simp
  moreover have "concat (take k data # chunks) = take (k + s) data" using w(3) by (simp add: take_add)
  ultimately show ?thesis unfolding wrote_def using w(1,4) assms(2,4,5)
    by (intro conjI exI [of _ "frame # frames"] exI [of _ "take k data # chunks"]) simp_all
qed

lemma Stream_Write_exact:
  assumes "mux_ok m" and "p < length (m_heap m)" and "writable (at m p)" and "Stream_Write F written data p m = (n, r, m')"
    and "sent = min (length data) (unat (sm_sendWindow (at m p)))"
  shows "n = written + sent \<and> r = (if sent = length data then WriteDone else WriteWaits (drop sent data)) \<and> wrote F sent data p m m'"
  using assms
proof (induction "length data" arbitrary: data written m sent rule: less_induct)
  case less
  show ?case
  proof (cases "data \<noteq> [] \<and> 0 < sm_sendWindow (at m p)")
    case True
    obtain k frame m2 where k: "Stream_Write F written data p m = Stream_Write F (written + k) (drop k data) p m2"
      "0 < k" "k \<le> length data" "k \<le> unat (sm_sendWindow (at m p))" "mux_ok m2" "length (m_heap m2) = length (m_heap m)"
      and k': "m_compression m2 = m_compression m"
      "at m2 p = (at m p)\<lparr>sm_sendWindow := sm_sendWindow (at m p) - of_nat k, sm_outbound := sm_outbound (at m p) @ [frame], sm_scheduled := True\<rparr>"
      "unat (sm_sendWindow (at m p) - of_nat k) = unat (sm_sendWindow (at m p)) - k"
      "carries F (m_compression m) (sm_id (at m p)) frame (take k data)"
      by (rule Stream_Write_chunk [OF less(2,3), of data F written]) (use True less(4) in \<open>auto\<close>)
    let ?s = "min (length (drop k data)) (unat (sm_sendWindow (at m2 p)))"
    have s: "sent = k + ?s" using less(6) k(3,4) k'(2,3) by simp
    have w2: "writable (at m2 p)" using less(4) k'(2) by (simp add: writable_def)
    from less(1) [OF _ k(5) _ w2 _ refl, of "drop k data" "written + k"]
    have IH: "n = written + k + ?s" "r = (if ?s = length (drop k data) then WriteDone else WriteWaits (drop ?s (drop k data)))"
      "wrote F ?s (drop k data) p m2 m'"
      using True k(1,2,6) less(3,5) by auto
    have "r = (if sent = length data then WriteDone else WriteWaits (drop sent data))"
      using IH(2) k(3) unfolding s by (auto simp: add.commute)
    then show ?thesis using IH(1) s wrote_chunk [OF IH(3) k(4) k'] by simp
  next
    case False
    then have "sent = 0" "m' = m" "n = written" "r = (if sent = length data then WriteDone else WriteWaits (drop sent data))"
      using less(4-6) by (cases data; auto simp: Stream_Write.simps(2) Let_def writable_def word_gt_0)+
    then show ?thesis by (auto simp: wrote_def intro: exI [of _ "[]"])
  qed
qed

section \<open>What the peer delivers\<close>

definition readable :: "Stream \<Rightarrow> bool" where
  "readable s \<longleftrightarrow> sm_opened s \<and> \<not> sm_closed s \<and> \<not> sm_remoteWriteClosed s"

text \<open>\<open>n\<close> turns of the reader, which stop with the loop.\<close>

primrec reader_turns :: "flate \<Rightarrow> nat \<Rightarrow> reader \<Rightarrow> Mux \<Rightarrow> bool \<times> reader \<times> Mux" where
  "reader_turns F 0 r m = (True, r, m)"
| "reader_turns F (Suc n) r m =
     (case readLoopStep F r m of
        (True, r1, m1) \<Rightarrow> reader_turns F n r1 m1
      | (False, r1, m1) \<Rightarrow> (False, r1, m1))"

lemma carries_decode:
  assumes "flate_codec F" and "carries F c sid f chunk"
  shows "(if c then decodeCompressedPayload F (Payload f) else Inr (Payload f)) = Inr chunk"
  using assms flate_codec.decode_encode by (fastforce simp: carries_def split: if_splits)

lemma receive_chunk:
  assumes codec: "flate_codec F" and tab: "map_of (m_streams m) sid = Some q" "q < length (m_heap m)" and rd: "readable (at m q)"
    and f: "carries F (m_compression m) sid f chunk" and win: "length chunk \<le> unat (sm_receiveWindow (at m q))"
    and wire: "rd_data r = encodeFrame f @ rest"
  obtains m' where "readLoopStep F r m = (True, r\<lparr>rd_data := rest\<rparr>, m')" and "m_streams m' = m_streams m"
    and "length (m_heap m') = length (m_heap m)" and "m_compression m' = m_compression m" and "readable (at m' q)"
    and "sm_inbound (at m' q) = sm_inbound (at m q) @ chunk"
    and "unat (sm_receiveWindow (at m' q)) = unat (sm_receiveWindow (at m q)) - length chunk"
proof -
  have v: "Validate f = None" "FType f = FrameData" "StreamID f = sid" and len: "length chunk \<le> MaxDataPayload"
    using f by (simp_all add: carries_def)
  have "length (Payload f) \<le> MaxDataPayload" using Validate_Data_payload [OF v(1,2)] by simp
  note frame = ReadFrame_encodeFrame [OF v(1) this wire]
  have "length chunk \<le> unat InitialStreamWindow" using len by (simp add: frame_consts InitialStreamWindow_def)
  moreover have "\<not> of_nat (length chunk) > sm_receiveWindow (at m q)"
    using win by (auto simp: word_less_nat_alt unat_of_nat not_less intro: order_trans [OF mod_less_eq_dividend])
  ultimately have w: "unat (sm_receiveWindow (at m q) - of_nat (length chunk)) = unat (sm_receiveWindow (at m q)) - length chunk"
      "\<not> of_nat (length chunk) > sm_receiveWindow (at m q)" using receive_window_shrinks by blast+
  let ?m = "addCompressionRX (of_nat (length chunk)) (of_nat (length (Payload f)))
      (upd q (\<lambda>s. streamSignal (s\<lparr>sm_receiveWindow := sm_receiveWindow s - of_nat (length chunk), sm_inbound := sm_inbound s @ chunk\<rparr>)) m)"
  have "receiveData F (Payload f) q m = (None, ?m)"
    using carries_decode [OF codec f] rd w(2) by (simp add: receiveData_def readable_def)
  then have "handleFrame F f m = (None, ?m)"
    using v tab(1) by (simp add: handleFrame_def handleStreamFrame_def frame_types)
  then have "readLoopStep F r m = (True, r\<lparr>rd_data := rest\<rparr>, ?m)" using frame by (simp add: readLoopStep_def)
  then show ?thesis
    using that [of ?m] rd w(1) tab(2) by (simp add: at_upd addCompressionRX_def streamSignal_def readable_def)
qed

lemma receive_chunks:
  assumes codec: "flate_codec F" and "list_all2 (carries F c sid) frames chunks"
    and "map_of (m_streams m) sid = Some q" "q < length (m_heap m)" and "readable (at m q)" and "m_compression m = c"
    and "length (concat chunks) \<le> unat (sm_receiveWindow (at m q))" and "rd_data r = concat (map encodeFrame frames) @ rest"
  shows "\<exists>m'. reader_turns F (length frames) r m = (True, r\<lparr>rd_data := rest\<rparr>, m')
    \<and> sm_inbound (at m' q) = sm_inbound (at m q) @ concat chunks \<and> m_streams m' = m_streams m
    \<and> unat (sm_receiveWindow (at m' q)) + length (concat chunks) = unat (sm_receiveWindow (at m q))"
  using assms(2-8)
proof (induction frames chunks arbitrary: m r rule: list_all2_induct)
  case Nil
  then show ?case by simp
next
  case (Cons f frames chunk chunks)
  have win: "length chunk \<le> unat (sm_receiveWindow (at m q))" using Cons.prems(5) by simp
  have f: "carries F (m_compression m) sid f chunk" using Cons.hyps(1) Cons.prems(4) by simp
  have wire: "rd_data r = encodeFrame f @ (concat (map encodeFrame frames) @ rest)" using Cons.prems(6) by simp
  obtain m1 where m1: "readLoopStep F r m = (True, r\<lparr>rd_data := concat (map encodeFrame frames) @ rest\<rparr>, m1)"
    "m_streams m1 = m_streams m" "length (m_heap m1) = length (m_heap m)" "m_compression m1 = m_compression m" "readable (at m1 q)"
    "sm_inbound (at m1 q) = sm_inbound (at m q) @ chunk"
    "unat (sm_receiveWindow (at m1 q)) = unat (sm_receiveWindow (at m q)) - length chunk"
    by (rule receive_chunk [OF codec Cons.prems(1-3) f win wire])
  have "\<exists>m'. reader_turns F (length frames) (r\<lparr>rd_data := concat (map encodeFrame frames) @ rest\<rparr>) m1
      = (True, r\<lparr>rd_data := concat (map encodeFrame frames) @ rest\<rparr>\<lparr>rd_data := rest\<rparr>, m')
    \<and> sm_inbound (at m' q) = sm_inbound (at m1 q) @ concat chunks \<and> m_streams m' = m_streams m1
    \<and> unat (sm_receiveWindow (at m' q)) + length (concat chunks) = unat (sm_receiveWindow (at m1 q))"
    using Cons.prems m1 by (intro Cons.IH) auto
  then show ?case using m1 win by auto
qed

lemma window_value: "unat InitialStreamWindow = 64 * 1024"
  by (simp add: InitialStreamWindow_def)

section \<open>A session on concrete inputs\<close>

text \<open>A client that opens a stream and hears OPEN_OK; a server that hears OPEN and approves.\<close>

definition demo_wire :: "bytes \<Rightarrow> reader" where
  "demo_wire b = \<lparr>rd_data = b, rd_err = Sentinel EOF\<rparr>"

definition demo_client0 :: Mux where "demo_client0 = newSession True 4 False None (\<lambda>_. False)"
definition demo_client1 :: Mux where "demo_client1 = snd (openServiceBegin ''web'' demo_client0)"
definition demo_client :: Mux where
  "demo_client = snd (snd (readLoopStep stored (demo_wire (encodeFrame (mkFrame FrameOpenOK 1 []))) demo_client1))"

definition demo_server0 :: Mux where "demo_server0 = newServerWithServices 4 False None [] (\<lambda>_. False)"
definition demo_server1 :: Mux where
  "demo_server1 = snd (snd (readLoopStep stored (demo_wire (encodeFrame (mkFrame FrameOpen 1 (bytes_of ''web'')))) demo_server0))"
definition demo_server :: Mux where "demo_server = snd (Approve 0 demo_server1)"

lemma demo_client1_state:
  "m_heap demo_client1 = [newStream 1]" "m_streams demo_client1 = [(1, 0)]" "m_client demo_client1" "\<not> m_done demo_client1"
  "m_compression demo_client1 = False" "m_ready demo_client1 = []" "m_maxStreams demo_client1 = 4"
  by (simp_all add: demo_client1_def demo_client0_def openServiceBegin_def newSession_def sendControl_def controlCap_def
      gomap_put_def gomap_del_def maxServiceName_def Let_def)

lemma demo_readLoop:
  assumes "Validate f = None" and "length (Payload f) \<le> MaxDataPayload"
  shows "readLoopStep F (demo_wire (encodeFrame f)) m =
    (case handleFrame F f m of (Some e, m1) \<Rightarrow> (False, demo_wire [], shutdown e m1) | (None, m1) \<Rightarrow> (True, demo_wire [], m1))"
  using ReadFrame_encodeFrame [OF assms, of "demo_wire (encodeFrame f)" "[]"]
  by (simp add: readLoopStep_def demo_wire_def split: option.splits prod.splits)

lemma demo_client_eq: "demo_client = upd 0 (\<lambda>s. streamSignal (s\<lparr>sm_openErr := None, sm_opened := True\<rparr>)) demo_client1"
  using demo_client1_state
  by (simp add: demo_client_def demo_readLoop control_valid handleFrame_def handleStreamFrame_def markOpened_def newStream_def)
    (simp add: frame_types)

lemma demo_client_state:
  "m_heap demo_client = [streamSignal ((newStream 1)\<lparr>sm_opened := True\<rparr>)]" "m_streams demo_client = [(1, 0)]"
  "\<not> m_done demo_client" "m_compression demo_client = False" "m_ready demo_client = []" "m_maxStreams demo_client = 4"
  unfolding demo_client_eq using demo_client1_state by (simp_all add: upd_def newStream_def)

lemma demo_server1_state:
  "m_heap demo_server1 = [(newStream 1)\<lparr>sm_service := ''web''\<rparr>]" "m_streams demo_server1 = [(1, 0)]"
  "\<not> m_done demo_server1" "m_compression demo_server1 = False" "length (m_control demo_server1) = 1" "m_maxStreams demo_server1 = 4"
proof -
  have "Validate (mkFrame FrameOpen 1 (bytes_of ''web'')) = None" by (simp add: control_valid maxServiceName_def)
  moreover have "odd (uint (1 :: u32))" by simp
  moreover have "string_of (bytes_of ''web'') = ''web''" by (rule string_of_bytes_of)
  ultimately show "m_heap demo_server1 = [(newStream 1)\<lparr>sm_service := ''web''\<rparr>]" "m_streams demo_server1 = [(1, 0)]"
    "\<not> m_done demo_server1" "m_compression demo_server1 = False" "length (m_control demo_server1) = 1" "m_maxStreams demo_server1 = 4"
    by (simp_all add: demo_server1_def demo_readLoop handleFrame_def handleOpen_def demo_server0_def newServerWithServices_def
        newSession_def acceptCap_def acceptBacklogFactor_def frame_types frame_consts gomap_put_def gomap_del_def Let_def)
qed

lemma demo_server_state:
  "m_heap demo_server = [streamSignal ((newStream 1)\<lparr>sm_service := ''web'', sm_opened := True\<rparr>)]"
  "m_streams demo_server = [(1, 0)]" "m_compression demo_server = False" "\<not> m_done demo_server"
  "length (m_control demo_server) = 2" "m_maxStreams demo_server = 4"
  using demo_server1_state
  by (simp_all add: demo_server_def Approve_def sendControl_def controlCap_def upd_def newStream_def)

lemma reader_step: "mux_step F m (snd (snd (readLoopStep F r m)))"
  by (cases "readLoopStep F r m") (auto intro: st_reader)

lemma demo_reach:
  "mux_started demo_client0" "mux_reach stored demo_client0 demo_client"
  "mux_started demo_server0" "mux_reach stored demo_server0 demo_server"
proof -
  show "mux_started demo_client0" "mux_started demo_server0"
    unfolding mux_started_def demo_client0_def demo_server0_def by blast+
  have "mux_step stored demo_client0 demo_client1" unfolding demo_client1_def by (rule st_open) (rule prod.collapse [symmetric])
  moreover have "mux_step stored demo_client1 demo_client"
    unfolding demo_client_def by (rule reader_step)
  ultimately show "mux_reach stored demo_client0 demo_client" by (meson reach_refl reach_step)
  have "mux_step stored demo_server0 demo_server1" unfolding demo_server1_def by (rule reader_step)
  moreover have "mux_step stored demo_server1 demo_server"
  proof -
    have "0 < length (m_heap demo_server1)" using demo_server1_state(1) by simp
    then show ?thesis unfolding demo_server_def by (rule st_approve) (rule prod.collapse [symmetric])
  qed
  ultimately show "mux_reach stored demo_server0 demo_server" by (meson reach_refl reach_step)
qed


text \<open>The client writes its OPEN frame out, then queues three bytes.\<close>

definition demo_idle :: Mux where
  "demo_idle = snd (snd (writeLoopStep buffer_write [] demo_client))"
definition demo_written :: Mux where
  "demo_written = snd (snd (Stream_Write stored 0 [1, 2, 3] 0 demo_idle))"

lemma buffer_WriteFrame: "Validate f = None \<Longrightarrow> WriteFrame buffer_write w f = (w @ encodeFrame f, None)"
  using length_encodeFrame [of f]
  by (auto simp: WriteFrame_def writeAll.simps buffer_write_def HeaderSize_def)

lemma demo_idle_state:
  "m_heap demo_idle = [streamSignal ((newStream 1)\<lparr>sm_opened := True\<rparr>)]" "m_streams demo_idle = [(1, 0)]"
  "\<not> m_done demo_idle" "m_compression demo_idle = False" "m_ready demo_idle = []" "m_maxStreams demo_idle = 4" "m_control demo_idle = []"
proof -
  have v: "Validate (mkFrame FrameOpen 1 (bytes_of ''web'')) = None" by (simp add: control_valid maxServiceName_def)
  have c: "m_control demo_client = [mkFrame FrameOpen 1 (bytes_of ''web'')]"
    by (simp add: demo_client_eq demo_client1_def demo_client0_def openServiceBegin_def newSession_def sendControl_def controlCap_def maxServiceName_def)
  have i: "demo_idle = demo_client\<lparr>m_control := []\<rparr>"
    using v c demo_client_state(3) by (simp add: demo_idle_def writeLoopStep_def writeSelect_def buffer_WriteFrame)
  show "m_heap demo_idle = [streamSignal ((newStream 1)\<lparr>sm_opened := True\<rparr>)]" "m_streams demo_idle = [(1, 0)]"
    "\<not> m_done demo_idle" "m_compression demo_idle = False" "m_ready demo_idle = []" "m_maxStreams demo_idle = 4" "m_control demo_idle = []"
    unfolding i using demo_client_state by simp_all
qed

lemma demo_written_state:
  "m_streams demo_written = [(1, 0)]" "\<not> m_done demo_written" "m_control demo_written = []" "m_ready demo_written = [1]"
  "sm_outbound (at demo_written 0) = [mkFrame FrameData 1 [1, 2, 3]]" "m_maxStreams demo_written = 4"
  using demo_idle_state
  by (simp_all add: demo_written_def Stream_Write.simps(2) newStream_def streamSignal_def writeChunk_def encodeChunk_def
      enqueueAndSchedule_def enqueueLocked_def schedule_def upd_def readyCap_def frame_consts window_value word_less_nat_alt addCompressionTX_def)

section \<open>Properties\<close>

text \<open>
  C11: the resource limits of a multiplexing session hold in every state a run reaches, whatever the
  peer sends and whatever the program asks for: the number of streams, the queues of control frames and
  of pending accepts stay within their limits, and no stream buffers or may be sent more than 64 KiB.
\<close>

theorem mux_limits:
  assumes "mux_started m0" and "mux_reach F m0 m"
  shows "NumStreams m \<le> m_maxStreams m \<and> length (m_control m) \<le> controlCap m \<and> length (m_accept m) \<le> acceptCap m
    \<and> (\<forall>s \<in> set (m_heap m). unat (sm_receiveWindow s) + length (sm_inbound s) \<le> 64 * 1024 \<and> unat (sm_sendWindow s) \<le> 64 * 1024)"
proof -
  have ok: "mux_ok m" using mux_reach_ok [OF assms(2)] mux_started_ok [OF assms(1)] by blast
  then have "NumStreams m \<le> m_maxStreams m" "length (m_control m) \<le> controlCap m" "length (m_accept m) \<le> acceptCap m"
    by (simp_all add: mux_ok_def table_ok_def chan_ok_def NumStreams_def)
  moreover have "unat (sm_receiveWindow s) + length (sm_inbound s) \<le> 64 * 1024 \<and> unat (sm_sendWindow s) \<le> 64 * 1024"
    if "s \<in> set (m_heap m)" for s
  proof -
    have "stream_ok s" using ok that by (simp add: mux_ok_def list_all_iff)
    then show ?thesis by (simp add: stream_ok_def window_value word_le_nat_alt)
  qed
  ultimately show ?thesis by blast
qed

theorem mux_limits_witness:
  "NumStreams demo_client \<le> m_maxStreams demo_client
    \<and> unat (sm_receiveWindow (at demo_client 0)) + length (sm_inbound (at demo_client 0)) \<le> 64 * 1024"
  using mux_limits [OF demo_reach(1,2)] demo_client_state(1) by simp


lemma demo_written_reach: "mux_reach stored demo_client0 demo_written"
proof -
  have "mux_step stored demo_client demo_idle"
    unfolding demo_idle_def by (rule st_writer) (auto simp: prod_eq_iff)
  moreover have "mux_step stored demo_idle demo_written"
  proof -
    have "0 < length (m_heap demo_idle)" by (simp add: demo_idle_state)
    then show ?thesis
      unfolding demo_written_def by (rule st_write [where n = "fst (Stream_Write stored 0 [1, 2, 3] 0 demo_idle)"
        and r = "fst (snd (Stream_Write stored 0 [1, 2, 3] 0 demo_idle))"]) simp
  qed
  ultimately show ?thesis using demo_reach(2) by (meson reach_step)
qed




text \<open>
  A stream carries its bytes unchanged from one session to the other. In reachable states of two
  sessions that negotiated the same compression, a write on a stream that is open for writing takes exactly the
  bytes the send window admits, never fails and leaves the rest waiting; the frames it queues, encoded on the wire, are
  taken by the peer's reader without an error, and append exactly those bytes to the peer's
  stream when its receive window is at least the sender's window. With
  compression this needs a DEFLATE codec whose reader inverts its writer.
\<close>

theorem stream_transfer:
  assumes codec: "flate_codec F"
    and a: "mux_started a0" "mux_reach F a0 a" and p: "p < length (m_heap a)" "writable (at a p)"
    and b: "map_of (m_streams b) (sm_id (at a p)) = Some q" "q < length (m_heap b)" "readable (at b q)"
    and c: "m_compression b = m_compression a" and credit: "sm_sendWindow (at a p) \<le> sm_receiveWindow (at b q)"
    and run: "Stream_Write F 0 data p a = (n, r, a')"
  shows "n = min (length data) (unat (sm_sendWindow (at a p)))
    \<and> r = (if n = length data then WriteDone else WriteWaits (drop n data))
    \<and> (\<exists>frames. sm_outbound (at a' p) = sm_outbound (at a p) @ frames
         \<and> (\<forall>w rest. rd_data w = concat (map encodeFrame frames) @ rest \<longrightarrow>
              (\<exists>b'. reader_turns F (length frames) w b = (True, w\<lparr>rd_data := rest\<rparr>, b')
                 \<and> sm_inbound (at b' q) = sm_inbound (at b q) @ take n data)))"
proof -
  have ok: "mux_ok a" using mux_reach_ok [OF a(2)] mux_started_ok [OF a(1)] by blast
  note w = Stream_Write_exact [OF ok p run refl]
  then have n: "n = min (length data) (unat (sm_sendWindow (at a p)))" by simp
  obtain frames chunks where f: "sm_outbound (at a' p) = sm_outbound (at a p) @ frames"
    "list_all2 (carries F (m_compression a) (sm_id (at a p))) frames chunks" "concat chunks = take n data"
    using w n unfolding wrote_def by auto
  have "length (concat chunks) \<le> unat (sm_receiveWindow (at b q))"
    using f(3) n credit by (simp add: word_le_nat_alt min_def split: if_splits)
  note rc = receive_chunks [OF codec f(2) b c this]
  have "\<forall>w rest. rd_data w = concat (map encodeFrame frames) @ rest \<longrightarrow>
      (\<exists>b'. reader_turns F (length frames) w b = (True, w\<lparr>rd_data := rest\<rparr>, b')
         \<and> sm_inbound (at b' q) = sm_inbound (at b q) @ take n data)"
    using rc unfolding f(3) by blast
  then show ?thesis using w n f(1) by auto
qed

theorem stream_transfer_witness:
  "\<exists>frames b'. sm_outbound (at demo_written 0) = frames
     \<and> reader_turns stored (length frames) (demo_wire (concat (map encodeFrame frames))) demo_server = (True, demo_wire [], b')
     \<and> sm_inbound (at b' 0) = [1, 2, 3]"
proof -
  obtain n r where run: "Stream_Write stored 0 [1, 2, 3] 0 demo_idle = (n, r, demo_written)"
    unfolding demo_written_def by (metis prod.collapse)
  have reach: "mux_reach stored demo_client0 demo_idle"
    using demo_reach(2) unfolding demo_idle_def by (rule reach_step) (rule st_writer, auto simp: prod_eq_iff)
  from stream_transfer [OF stored.flate_codec_axioms demo_reach(1) reach, of 0 demo_server 0 "[1, 2, 3]" n r demo_written]
  have n: "n = 3" and "\<forall>w rest. rd_data w = concat (map encodeFrame (sm_outbound (at demo_written 0))) @ rest \<longrightarrow>
     (\<exists>b'. reader_turns stored (length (sm_outbound (at demo_written 0))) w demo_server = (True, w\<lparr>rd_data := rest\<rparr>, b')
       \<and> sm_inbound (at b' 0) = take n [1, 2, 3])"
    using run by (auto simp: demo_idle_state demo_server_state newStream_def streamSignal_def writable_def readable_def window_value)
  from this(2) [rule_format, of "demo_wire (concat (map encodeFrame (sm_outbound (at demo_written 0))))" "[]"] n
  show ?thesis by (auto simp: demo_wire_def)
qed

section \<open>Shutdown and misbehaving peers\<close>

lemma receiveReset_closed:
  "sm_closed (at m p) \<Longrightarrow> sm_closed (at (receiveReset q e m) p)"
  "p < length (m_heap m) \<Longrightarrow> sm_closed (at (receiveReset p e m) p)"
  by (cases "q = p"; cases "q < length (m_heap m)"; simp add: receiveReset_def streamSignal_def upd_def)
    (simp add: receiveReset_def streamSignal_def upd_def)

lemma fold_receiveReset_conn [simp]: "m_connClosed (fold (\<lambda>p. receiveReset p e) ps m) = m_connClosed m"
  by (induction ps arbitrary: m) (simp_all add: receiveReset_def upd_def)

lemma fold_receiveReset_closed:
  "sm_closed (at m p) \<Longrightarrow> sm_closed (at (fold (\<lambda>p. receiveReset p e) ps m) p)"
  by (induction ps arbitrary: m) (simp_all add: receiveReset_closed(1))

lemma fold_receiveReset_all:
  assumes "p \<in> set ps" and "\<forall>p \<in> set ps. p < length (m_heap m)"
  shows "sm_closed (at (fold (\<lambda>p. receiveReset p e) ps m) p)"
  using assms
proof (induction ps arbitrary: m)
  case (Cons q ps)
  show ?case
  proof (cases "p = q")
    case True
    then show ?thesis using Cons.prems by (simp add: fold_receiveReset_closed receiveReset_closed(2))
  next
    case False
    then show ?thesis using Cons.prems by (simp add: Cons.IH)
  qed
qed simp

lemma shutdown_closes:
  assumes "table_ok m" and "ids_ok m" and "(sid, p) \<in> set (m_streams m)"
  shows "sm_closed (at (shutdown e m) p)"
proof -
  have "\<not> m_done m" using assms(2,3) by (auto simp: ids_ok_def)
  moreover have "\<forall>p \<in> set (map snd (m_streams m)). p < length (m_heap m)" "p \<in> set (map snd (m_streams m))"
    using assms(1,3) by (force simp: table_ok_def)+
  ultimately show ?thesis
    using fold_receiveReset_all [of p "map snd (m_streams m)"] by (simp add: shutdown_def Let_def)
qed

text \<open>
  C13: closing a session, or losing its connection, leaves nobody waiting. After \<open>shutdown\<close> every read, write
  and wait for OPEN_OK on a stream the session had, and every \<open>Accept\<close> and \<open>Services\<close>, returns; the
  stream table is empty and the connection is closed.
\<close>

theorem mux_shutdown_wakes:
  assumes "mux_started m0" and "mux_reach F m0 m" and "(sid, p) \<in> set (m_streams m)"
  shows "fst (Stream_Read n p (shutdown e m)) \<noteq> None \<and> waitOpened p (shutdown e m) \<noteq> None
    \<and> fst (snd (Stream_Write F 0 data p (shutdown e m))) \<noteq> WriteWaits rest
    \<and> fst (Accept (shutdown e m)) \<noteq> None \<and> fst (Services (shutdown e m)) \<noteq> None
    \<and> m_streams (shutdown e m) = [] \<and> m_connClosed (shutdown e m)"
proof -
  have ok: "mux_ok m" using mux_reach_ok [OF assms(2)] mux_started_ok [OF assms(1)] by blast
  then have c: "sm_closed (at (shutdown e m) p)" using shutdown_closes assms(3) by (simp add: mux_ok_def)
  have nd: "\<not> m_done m" using ok assms(3) by (auto simp: mux_ok_def ids_ok_def)
  have "fst (Stream_Read n p (shutdown e m)) \<noteq> None" "waitOpened p (shutdown e m) \<noteq> None"
    using c by (simp_all add: Stream_Read_def waitOpened_def Let_def)
  moreover have "fst (snd (Stream_Write F 0 data p (shutdown e m))) \<noteq> WriteWaits rest"
    using c by (cases data) (simp_all add: Stream_Write.simps(2) Let_def)
  moreover have "fst (Accept (shutdown e m)) \<noteq> None" "fst (Services (shutdown e m)) \<noteq> None"
    by (simp_all add: Accept_def Services_def pickCase_def split: list.splits bool.splits)
  moreover have "m_streams (shutdown e m) = [] \<and> m_connClosed (shutdown e m)"
    using nd by (simp add: shutdown_def Let_def)
  ultimately show ?thesis by blast
qed

theorem mux_shutdown_wakes_witness:
  "fst (Stream_Read 1 0 (shutdown (Sentinel EOF) demo_client)) \<noteq> None
    \<and> m_streams (shutdown (Sentinel EOF) demo_client) = []"
proof -
  have "(1, 0) \<in> set (m_streams demo_client)" by (simp add: demo_client_state)
  from mux_shutdown_wakes [OF demo_reach(1,2) this] show ?thesis by blast
qed

text \<open>
  A peer that overruns a receive window loses that stream and nothing else. DATA beyond the window is not
  buffered; the stream is closed, leaves the table and the scheduler queue, and a RESET with the
  reason is queued; the session and its other streams go on.
\<close>

theorem window_violation_resets:
  assumes "map_of (m_streams m) (StreamID f) = Some q" and "q < length (m_heap m)" and "readable (at m q)"
    and "sm_id (at m q) = StreamID f" and "FType f = FrameData"
    and "\<not> m_compression m" and "of_nat (length (Payload f)) > sm_receiveWindow (at m q)"
    and "\<not> m_done m" and "length (m_control m) < controlCap m" and "handleFrame F f m = (e, m')"
  shows "e = None \<and> map_of (m_streams m') = (map_of (m_streams m))(StreamID f := None)
    \<and> sm_closed (at m' q) \<and> sm_inbound (at m' q) = sm_inbound (at m q) \<and> StreamID f \<notin> set (m_ready m') \<and> \<not> m_done m'
    \<and> m_control m' = m_control m @ [mkFrame FrameReset (StreamID f) (bytes_of ''peer exceeded stream receive window'')]
    \<and> (\<forall>p. p \<noteq> q \<longrightarrow> at m' p = at m p)"
proof -
  let ?e = "ErrorText ''peer exceeded stream receive window''"
  have "receiveData F (Payload f) q m = (Some ?e, m)"
    using assms(3,6,7) by (simp add: receiveData_def readable_def Let_def)
  then have "Reset q ?e m = (e, m')"
    using assms(1,5,10) by (simp add: handleFrame_def handleStreamFrame_def frame_types)
  moreover have "errorMessage (Some ?e) = ''peer exceeded stream receive window''"
    by (simp add: errorMessage_def MaxErrorPayload_def)
  ultimately show ?thesis
    using assms(2-4,8,9)
    by (auto simp: Reset_def readable_def sendControl_def controlCap_def at_upd streamSignal_def removeStream_fields Let_def)
qed

theorem window_violation_resets_witness:
  "\<exists>m'. handleFrame stored (mkFrame FrameData 1 [1, 2, 3]) (upd 0 (\<lambda>s. s\<lparr>sm_receiveWindow := 2\<rparr>) demo_server) = (None, m')
     \<and> map_of (m_streams m') 1 = None \<and> sm_closed (at m' 0)"
proof -
  let ?f = "mkFrame FrameData 1 [1, 2, 3]" and ?m = "upd 0 (\<lambda>s. s\<lparr>sm_receiveWindow := 2\<rparr>) demo_server"
  obtain e m' where h: "handleFrame stored ?f ?m = (e, m')" by fastforce
  have "length (m_control ?m) < controlCap ?m" by (simp add: demo_server_state controlCap_def)
  then show ?thesis
    using window_violation_resets [OF _ _ _ _ _ _ _ _ _ h, of 0] h
    by (simp add: demo_server_state at_upd newStream_def streamSignal_def readable_def)
qed

end
