(* ===== verification/Mux_Trace.thy ===== *)
theory Mux_Trace
  imports Mux_Run "HOL-Library.Sublist"
begin

text \<open>
  What one multiplexer session does as seen from outside: the frames it emits and handles, the bytes its
  streams accept from writers and hand to readers. The relation \<open>mux_act\<close> labels the steps of a session with these
  events, and an invariant ties the histories to the session's state: for every stream the DATA frames that were emitted or
  are queued carry what was written, and what was read or is buffered is what the handled DATA frames carried.
\<close>

section \<open>Stream frames and the bytes they carry\<close>

definition stream_type :: "Frame \<Rightarrow> bool" where
  "stream_type f \<longleftrightarrow> FType f = FrameData \<or> FType f = FrameFIN"

definition is_FIN :: "Frame \<Rightarrow> bool" where
  "is_FIN f \<longleftrightarrow> FType f = FrameFIN"

definition stream_frames :: "u32 \<Rightarrow> Frame list \<Rightarrow> Frame list" where
  "stream_frames sid fs = filter (\<lambda>f. stream_type f \<and> StreamID f = sid) fs"

definition frame_data :: "flate \<Rightarrow> bool \<Rightarrow> Frame \<Rightarrow> bytes" where
  "frame_data F compressed f =
     (if FType f \<noteq> FrameData then []
      else case (if compressed then decodeCompressedPayload F (Payload f) else Inr (Payload f)) of Inl e \<Rightarrow> [] | Inr d \<Rightarrow> d)"

definition data_of :: "flate \<Rightarrow> bool \<Rightarrow> Frame list \<Rightarrow> bytes" where
  "data_of F compressed fs = concat (map (frame_data F compressed) fs)"

definition opens :: "Frame list \<Rightarrow> u32 list" where
  "opens fs = map StreamID (filter (\<lambda>f. FType f = FrameOpen) fs)"

text \<open>Every frame but a service list is short when it is valid; of a service list it has to be known.\<close>

definition fits :: "Frame \<Rightarrow> bool" where
  "fits f \<longleftrightarrow> FType f = FrameServiceList \<longrightarrow> length (Payload f) \<le> MaxDataPayload"

text \<open>A FIN ends its stream.\<close>

definition fin_last :: "Frame list \<Rightarrow> bool" where
  "fin_last fs \<longleftrightarrow> list_all (\<lambda>f. \<not> is_FIN f) (butlast fs)"

lemma stream_frames_simps [simp]:
  "stream_frames sid [] = []" "stream_frames sid (xs @ ys) = stream_frames sid xs @ stream_frames sid ys"
  "stream_frames sid (f # fs) = (if stream_type f \<and> StreamID f = sid then [f] else []) @ stream_frames sid fs"
  by (simp_all add: stream_frames_def)

lemma data_of_simps [simp]:
  "data_of F c [] = []" "data_of F c (xs @ ys) = data_of F c xs @ data_of F c ys"
  "data_of F c (f # fs) = frame_data F c f @ data_of F c fs"
  by (simp_all add: data_of_def)

lemma opens_simps [simp]:
  "opens [] = []" "opens (xs @ ys) = opens xs @ opens ys"
  "opens (f # fs) = (if FType f = FrameOpen then [StreamID f] else []) @ opens fs"
  by (simp_all add: opens_def)

lemma fin_last_snoc: "fin_last (fs @ [f]) \<longleftrightarrow> list_all (\<lambda>f. \<not> is_FIN f) fs"
  by (simp add: fin_last_def)

lemma fin_last_Nil [simp]: "fin_last []"
  by (simp add: fin_last_def)

lemma fin_last_no_FIN: "list_all (\<lambda>f. \<not> is_FIN f) fs \<Longrightarrow> fin_last fs"
  by (auto simp: fin_last_def list_all_iff dest: in_set_butlastD)

lemma fin_prefix:
  assumes "prefix xs fs" and "fin_last fs" and "f \<in> set xs" and "is_FIN f"
  shows "xs = fs"
proof -
  obtain ys where "fs = xs @ ys" using assms(1) by (auto elim: prefixE)
  then show ?thesis using assms(2-4) by (cases "ys = []") (auto simp: fin_last_def list_all_iff butlast_append)
qed

lemma prefix_no_FIN:
  assumes "prefix (xs @ [f]) fs" and "fin_last fs"
  shows "list_all (\<lambda>f. \<not> is_FIN f) xs"
proof -
  have "prefix xs fs" "length (xs @ [f]) \<le> length fs" using assms(1) by (auto dest: append_prefixD prefix_length_le)
  then have "\<not> is_FIN g" if "g \<in> set xs" for g using fin_prefix [OF _ assms(2) that] by fastforce
  then show ?thesis by (simp add: list_all_iff)
qed

lemma prefix_data_of: "prefix xs ys \<Longrightarrow> prefix (data_of F c xs) (data_of F c ys)"
  by (auto elim!: prefixE)

lemma prefix_stream_frames: "prefix xs ys \<Longrightarrow> prefix (stream_frames sid xs) (stream_frames sid ys)"
  by (auto elim!: prefixE)

section \<open>Steps that move no data\<close>

text \<open>
  Most of what a session does changes no stream's data: a stream may be closed, dropped from the table or lose its queue when it is
  closed, control frames other than OPEN may be queued, the session may end.
\<close>

definition stream_quiet :: "Stream \<Rightarrow> Stream \<Rightarrow> bool" where
  "stream_quiet s s' \<longleftrightarrow> sm_id s' = sm_id s \<and> (sm_closed s \<longrightarrow> sm_closed s')
     \<and> sm_localWriteClosed s' = sm_localWriteClosed s \<and> sm_remoteWriteClosed s' = sm_remoteWriteClosed s
     \<and> sm_inbound s' = sm_inbound s \<and> (sm_outbound s' = sm_outbound s \<or> sm_outbound s' = [] \<and> sm_closed s')"

definition plain :: "Frame \<Rightarrow> bool" where
  "plain f \<longleftrightarrow> FType f \<in> {FrameOpenOK, FrameOpenError, FrameWindowUpdate, FrameReset}"

definition mux_quiet :: "Mux \<Rightarrow> Mux \<Rightarrow> bool" where
  "mux_quiet m m' \<longleftrightarrow> length (m_heap m') = length (m_heap m)
     \<and> (\<forall>p < length (m_heap m). stream_quiet (at m p) (at m' p))
     \<and> m_client m' = m_client m \<and> m_compression m' = m_compression m \<and> (m_done m \<longrightarrow> m_done m')
     \<and> (m_client m \<longrightarrow> m_lastID m' = m_lastID m)
     \<and> (\<forall>sid p. map_of (m_streams m') sid = Some p \<longrightarrow> map_of (m_streams m) sid = Some p)
     \<and> (\<exists>fs. m_control m' = m_control m @ fs \<and> list_all plain fs)"

lemma stream_quiet_refl [simp]: "stream_quiet s s"
  by (simp add: stream_quiet_def)

lemma stream_quiet_trans: "stream_quiet s t \<Longrightarrow> stream_quiet t u \<Longrightarrow> stream_quiet s u"
  by (auto simp: stream_quiet_def)

lemma quiet_refl [simp]: "mux_quiet m m"
  by (auto simp: mux_quiet_def intro: exI [of _ "[]"])

lemma quiet_trans [trans]:
  assumes "mux_quiet m m1" and "mux_quiet m1 m2"
  shows "mux_quiet m m2"
proof -
  obtain fs gs where "m_control m1 = m_control m @ fs" "m_control m2 = m_control m1 @ gs" "list_all plain (fs @ gs)"
    using assms by (auto simp: mux_quiet_def)
  then have "\<exists>hs. m_control m2 = m_control m @ hs \<and> list_all plain hs" by (metis append.assoc)
  then show ?thesis using assms by (auto simp: mux_quiet_def intro: stream_quiet_trans)
qed

text \<open>The same heap and a table that has lost entries at most.\<close>

lemma quiet_fields:
  assumes "m_heap m' = m_heap m" and "m_client m' = m_client m" and "m_compression m' = m_compression m"
    and "m_done m \<longrightarrow> m_done m'" and "m_client m \<longrightarrow> m_lastID m' = m_lastID m"
    and "\<And>sid p. map_of (m_streams m') sid = Some p \<Longrightarrow> map_of (m_streams m) sid = Some p"
    and "m_control m' = m_control m \<or> (\<exists>f. m_control m' = m_control m @ [f] \<and> plain f)"
  shows "mux_quiet m m'"
  using assms unfolding mux_quiet_def by (auto intro: exI [of _ "[]"])

lemma quiet_upd:
  assumes "p < length (m_heap m)" and "stream_quiet (at m p) (f (at m p))"
  shows "mux_quiet m (upd p f m)"
  using assms by (auto simp: mux_quiet_def at_upd intro: exI [of _ "[]"])

lemma quiet_remove: "mux_quiet m (removeStream sid m)"
  by (rule quiet_fields) (auto simp: removeStream_def split: if_splits)

lemma quiet_pick: "pickCase m = (c, m') \<Longrightarrow> mux_quiet m m'"
  by (auto simp: pickCase_def intro: quiet_fields)

lemma quiet_receiveReset: "p < length (m_heap m) \<Longrightarrow> mux_quiet m (receiveReset p e m)"
  by (auto simp: receiveReset_def streamSignal_def stream_quiet_def intro!: quiet_upd)

lemma quiet_resets: "\<forall>p \<in> set ps. p < length (m_heap m) \<Longrightarrow> mux_quiet m (fold (\<lambda>p. receiveReset p e) ps m)"
proof (induction ps arbitrary: m)
  case (Cons p ps)
  then have "mux_quiet m (receiveReset p e m)" by (simp add: quiet_receiveReset)
  also have "mux_quiet \<dots> (fold (\<lambda>p. receiveReset p e) ps (receiveReset p e m))" using Cons by simp
  finally show ?case by simp
qed simp

lemma quiet_shutdown:
  assumes "\<And>sid p. (sid, p) \<in> set (m_streams m) \<Longrightarrow> p < length (m_heap m)"
  shows "mux_quiet m (shutdown e m)"
proof (cases "m_done m")
  case False
  let ?e = "if errors_is e EOF then Sentinel ErrSessionClosed else e"
  let ?m = "m\<lparr>m_closed := True, m_err := Some ?e, m_streams := [], m_done := True, m_connClosed := True\<rparr>"
  have "mux_quiet m ?m" by (rule quiet_fields) auto
  also have "mux_quiet ?m (fold (\<lambda>p. receiveReset p (Some ?e)) (map snd (m_streams m)) ?m)"
    using assms by (intro quiet_resets) auto
  finally show ?thesis using False by (simp add: shutdown_def Let_def)
qed (simp add: shutdown_def)

abbreviation in_heap :: "Mux \<Rightarrow> bool" where
  "in_heap m \<equiv> \<forall>x \<in> set (m_streams m). snd x < length (m_heap m)"

lemma in_heap_ok: "table_ok m \<Longrightarrow> in_heap m"
  by (simp add: table_ok_def)

lemma quiet_sendControl:
  assumes "in_heap m" and "plain f"
  shows "mux_quiet m (snd (sendControl f m))"
proof -
  have "mux_quiet m (m\<lparr>m_control := m_control m @ [f]\<rparr>)" "mux_quiet m (m\<lparr>m_picks := k\<rparr>)"
    "mux_quiet m (m\<lparr>m_picks := k, m_control := m_control m @ [f]\<rparr>)" for k
    using assms(2) by (auto intro!: quiet_fields)
  moreover have "mux_quiet m (shutdown e m)" for e using assms(1) by (intro quiet_shutdown) auto
  ultimately show ?thesis by (simp add: sendControl_def pickCase_def Let_def)
qed

lemma quiet_schedule:
  assumes "in_heap m"
  shows "mux_quiet m (snd (schedule p m))"
proof -
  have "mux_quiet m (m\<lparr>m_ready := r\<rparr>)" "mux_quiet m (m\<lparr>m_picks := k\<rparr>)" "mux_quiet m (m\<lparr>m_picks := k, m_ready := r\<rparr>)" for k r
    by (auto intro!: quiet_fields)
  moreover have "mux_quiet m (shutdown e m)" for e using assms by (intro quiet_shutdown) auto
  ultimately show ?thesis by (simp add: schedule_def pickCase_def Let_def)
qed

section \<open>Quiet operations\<close>

lemma quiet_upd_then:
  assumes "p < length (m_heap m)" and "stream_quiet (at m p) (f (at m p))" and "mux_quiet (upd p f m) m'"
  shows "mux_quiet m m'"
  by (rule quiet_trans [OF quiet_upd [where f = f, OF assms(1,2)] assms(3)])

lemma plain_control [simp]:
  "plain (mkFrame FrameOpenOK sid b)" "plain (mkFrame FrameOpenError sid b)" "plain (mkFrame FrameReset sid b)"
  "plain (WindowUpdate sid n)"
  by (simp_all add: plain_def WindowUpdate_def)

lemma in_heap_upd: "in_heap m \<Longrightarrow> in_heap (upd p f m)"
  by simp

lemma in_heap_remove: "in_heap m \<Longrightarrow> in_heap (removeStream sid m)"
  by (simp add: removeStream_def)

lemma quiet_control_of: "sendControl f m = (e, m') \<Longrightarrow> in_heap m \<Longrightarrow> plain f \<Longrightarrow> mux_quiet m m'"
  using quiet_sendControl [of m f] by simp

lemma quiet_drop_and_tell:
  assumes "p < length (m_heap m)" and "in_heap m" and "stream_quiet (at m p) (f (at m p))" and "plain g"
  shows "mux_quiet m (snd (sendControl g (removeStream sid (upd p f m))))"
proof -
  have "mux_quiet (removeStream sid (upd p f m)) (snd (sendControl g (removeStream sid (upd p f m))))"
    using assms(2,4) by (intro quiet_sendControl in_heap_remove in_heap_upd)
  then show ?thesis using quiet_trans [OF quiet_remove] quiet_upd_then [where f = f, OF assms(1,3)] by blast
qed

lemma Approve_quiet:
  assumes "p < length (m_heap m)" and "in_heap m" and "Approve p m = (e, m')"
  shows "mux_quiet m m'"
proof -
  let ?f = "\<lambda>s. streamSignal (s\<lparr>sm_opened := True\<rparr>)"
  have "mux_quiet m (snd (sendControl (mkFrame FrameOpenOK (sm_id (at m p)) []) (upd p ?f m)))"
    using assms(1,2) by (intro quiet_upd_then [OF assms(1) _ quiet_sendControl]) (auto simp: stream_quiet_def streamSignal_def)
  then show ?thesis using assms(3) by (auto simp: Approve_def split: if_splits dest: arg_cong [of _ _ snd])
qed

lemma Reject_quiet:
  assumes "p < length (m_heap m)" and "in_heap m" and "Reject p err m = (e, m')"
  shows "mux_quiet m m'"
proof -
  let ?f = "\<lambda>s. streamSignal (s\<lparr>sm_closed := True, sm_err := Some (Sentinel ErrStreamRejected)\<rparr>)"
  have "mux_quiet m (snd (sendControl (mkFrame FrameOpenError (sm_id (at m p)) (bytes_of (errorMessage err)))
      (removeStream (sm_id (at m p)) (upd p ?f m))))"
    by (rule quiet_drop_and_tell [OF assms(1,2)]) (auto simp: stream_quiet_def streamSignal_def)
  then show ?thesis using assms(1,3)
    by (auto simp: Reject_def Let_def at_upd streamSignal_def split: if_splits dest: arg_cong [of _ _ snd])
qed

lemma Reset_quiet:
  assumes "p < length (m_heap m)" and "in_heap m" and "Reset p err m = (e, m')"
  shows "mux_quiet m m' \<and> sm_closed (at m' p)"
proof (cases "sm_closed (at m p)")
  case False
  let ?f = "\<lambda>s. streamSignal (s\<lparr>sm_closed := True, sm_err := Some err, sm_outbound := [], sm_scheduled := False\<rparr>)"
  let ?g = "mkFrame FrameReset (sm_id (at m p)) (bytes_of (errorMessage (Some err)))"
  have m': "m' = snd (sendControl ?g (removeStream (sm_id (at m p)) (upd p ?f m)))"
    using assms(3) False by (simp add: Reset_def Let_def)
  have "mux_quiet (upd p ?f m) m'" unfolding m' using assms(2)
    by (intro quiet_trans [OF quiet_remove quiet_sendControl] in_heap_remove in_heap_upd) simp_all
  then have "sm_closed (at m' p)" using assms(1) by (auto simp: mux_quiet_def stream_quiet_def at_upd streamSignal_def)
  moreover have "mux_quiet m m'" unfolding m'
    by (rule quiet_drop_and_tell [OF assms(1,2)]) (auto simp: stream_quiet_def streamSignal_def)
  ultimately show ?thesis by blast
qed (use assms(3) in \<open>simp add: Reset_def\<close>)

lemma Stream_Close_quiet:
  assumes "p < length (m_heap m)" and "in_heap m" and "Stream_Close p m = (e, m')"
  shows "mux_quiet m m'"
proof -
  let ?f = "\<lambda>g s. streamSignal (s\<lparr>sm_closed := True, sm_closeAfterDrain := g\<rparr>)"
  have q: "stream_quiet (at m p) (?f g (at m p))" for g by (auto simp: stream_quiet_def streamSignal_def)
  have "mux_quiet m (snd (sendControl (mkFrame FrameReset sid b) (removeStream sid (upd p (?f g) m))))" for sid b g
    by (rule quiet_drop_and_tell [where f = "?f g", OF assms(1,2) q]) simp
  moreover have "mux_quiet m (upd p (?f g) m)" "mux_quiet m (removeStream sid (upd p (?f g) m))" for g sid
    using quiet_upd [where f = "?f g", OF assms(1) q] quiet_trans [OF _ quiet_remove] by blast+
  ultimately have "mux_quiet m (snd (Stream_Close p m))" by (simp add: Stream_Close_def Let_def)
  then show ?thesis using assms(3) by simp
qed

lemma markOpened_quiet:
  assumes "p < length (m_heap m)"
  shows "mux_quiet m (markOpened p err m)"
  using assms by (auto simp: markOpened_def stream_quiet_def streamSignal_def intro!: quiet_upd)

lemma updateSendWindow_quiet:
  assumes "p < length (m_heap m)" and "updateSendWindow n p m = (e, m')"
  shows "mux_quiet m m'"
  using assms by (auto simp: updateSendWindow_def stream_quiet_def streamSignal_def intro!: quiet_upd split: if_splits)

lemma setDeadline_quiet:
  assumes "p < length (m_heap m)"
  shows "mux_quiet m (Stream_SetDeadline t p m)" "mux_quiet m (Stream_SetReadDeadline t p m)" "mux_quiet m (Stream_SetWriteDeadline t p m)"
  using assms by (auto simp: Stream_SetDeadline_def Stream_SetReadDeadline_def Stream_SetWriteDeadline_def stream_quiet_def
      streamSignal_def intro!: quiet_upd)

lemma Services_quiet: "Services m = (r, m') \<Longrightarrow> mux_quiet m m'"
  by (auto simp: Services_def pickCase_def split: bool.splits intro!: quiet_fields)

lemma Accept_quiet: "Accept m = (r, m') \<Longrightarrow> mux_quiet m m'"
  by (auto simp: Accept_def pickCase_def split: if_splits list.splits intro!: quiet_fields)

lemma addCompression_quiet: "mux_quiet m (addCompressionTX a b m)" "mux_quiet m (addCompressionRX a b m)"
  by (auto simp: addCompressionTX_def addCompressionRX_def intro!: quiet_fields)

lemma handleServiceList_quiet: "handleServiceList f m = (e, m') \<Longrightarrow> mux_quiet m m'"
  by (auto simp: handleServiceList_def split: if_splits sum.splits intro!: quiet_fields)

section \<open>Histories of a session\<close>

text \<open>
  A session with its histories: the frames emitted and handled, and for each stream, named by its place in the
  heap, the bytes its writers handed over and its readers got, and the streams whose reading side was closed here.
\<close>

record Endpoint =
  ep_mux :: Mux
  ep_client :: bool
  ep_out :: "Frame list"
  ep_in :: "Frame list"
  ep_wrote :: "nat \<Rightarrow> bytes"
  ep_got :: "nat \<Rightarrow> bytes"
  ep_stopped :: "nat set"

definition sender_ok :: "flate \<Rightarrow> bool \<Rightarrow> Stream \<Rightarrow> Frame list \<Rightarrow> bytes \<Rightarrow> bool" where
  "sender_ok F c s E w \<longleftrightarrow>
     (\<exists>Q. prefix (stream_frames (sm_id s) E @ sm_outbound s) Q
        \<and> (\<not> sm_closed s \<longrightarrow> Q = stream_frames (sm_id s) E @ sm_outbound s)
        \<and> list_all (\<lambda>f. stream_type f \<and> StreamID f = sm_id s) Q \<and> fin_last Q
        \<and> (\<not> sm_localWriteClosed s \<longrightarrow> list_all (\<lambda>f. \<not> is_FIN f) Q) \<and> data_of F c Q = w)"

definition receiver_ok :: "flate \<Rightarrow> bool \<Rightarrow> bool \<Rightarrow> bool \<Rightarrow> Stream \<Rightarrow> Frame list \<Rightarrow> bytes \<Rightarrow> bool" where
  "receiver_ok F c mapped stopped s H got \<longleftrightarrow>
     (let D = data_of F c (stream_frames (sm_id s) H) in
      prefix (got @ sm_inbound s) D
      \<and> (mapped \<and> \<not> sm_closed s \<and> \<not> sm_remoteWriteClosed s \<longrightarrow> got @ sm_inbound s = D)
      \<and> (sm_remoteWriteClosed s \<and> \<not> stopped \<longrightarrow> got @ sm_inbound s = D \<and> list_ex is_FIN (stream_frames (sm_id s) H)))"

text \<open>The identifiers of all streams the session ever had.\<close>

definition heap_ids :: "Mux \<Rightarrow> u32 set" where
  "heap_ids m = sm_id ` set (m_heap m)"

definition opened_first :: "Frame list \<Rightarrow> bool" where
  "opened_first E \<longleftrightarrow> (\<forall>i < length E. stream_type (E ! i) \<longrightarrow> StreamID (E ! i) \<in> set (opens (take i E)))"

definition role_ok :: "Mux \<Rightarrow> Frame list \<Rightarrow> Frame list \<Rightarrow> bool" where
  "role_ok m E H \<longleftrightarrow>
     (if m_client m then
        (\<forall>i \<in> heap_ids m. i \<le> m_lastID m) \<and> distinct (opens (E @ m_control m)) \<and> set (opens (E @ m_control m)) \<subseteq> heap_ids m
        \<and> (\<not> m_done m \<longrightarrow> heap_ids m \<subseteq> set (opens (E @ m_control m))) \<and> opened_first E
        \<and> (\<forall>f \<in> set H. stream_type f \<longrightarrow> StreamID f \<in> heap_ids m)
      else opens (E @ m_control m) = [] \<and> heap_ids m \<subseteq> set (opens H))"

definition mapped :: "Mux \<Rightarrow> nat \<Rightarrow> bool" where
  "mapped m p \<longleftrightarrow> map_of (m_streams m) (sm_id (at m p)) = Some p"

definition ep_inv :: "flate \<Rightarrow> bool \<Rightarrow> Endpoint \<Rightarrow> bool" where
  "ep_inv F c e \<longleftrightarrow>
     (let m = ep_mux e in
      m_compression m = c \<and> m_client m = ep_client e \<and> distinct (map sm_id (m_heap m)) \<and> ep_stopped e \<subseteq> {..<length (m_heap m)}
      \<and> list_all (\<lambda>f. \<not> stream_type f \<and> fits f) (m_control m)
      \<and> (\<forall>f \<in> set (ep_out e). fits f \<and> (stream_type f \<longrightarrow> StreamID f \<in> heap_ids m))
      \<and> (\<forall>p < length (m_heap m). sender_ok F c (at m p) (ep_out e) (ep_wrote e p)
           \<and> receiver_ok F c (mapped m p) (p \<in> ep_stopped e) (at m p) (ep_in e) (ep_got e p))
      \<and> (\<forall>p \<ge> length (m_heap m). ep_wrote e p = [] \<and> ep_got e p = [])
      \<and> role_ok m (ep_out e) (ep_in e))"

section \<open>The invariant under quiet steps\<close>

lemma sender_quiet: "sender_ok F c s E w \<Longrightarrow> stream_quiet s s' \<Longrightarrow> sender_ok F c s' E w"
  unfolding sender_ok_def stream_quiet_def by (elim exE conjE disjE) (rule exI, auto dest: append_prefixD)+

lemma receiver_quiet:
  "receiver_ok F c b stopped s H got \<Longrightarrow> stream_quiet s s' \<Longrightarrow> (b' \<Longrightarrow> b) \<Longrightarrow> receiver_ok F c b' stopped s' H got"
  by (auto simp: receiver_ok_def stream_quiet_def Let_def)

lemma plain_not [simp]: "plain f \<Longrightarrow> \<not> stream_type f" "plain f \<Longrightarrow> FType f \<noteq> FrameOpen" "plain f \<Longrightarrow> fits f"
  by (auto simp: plain_def stream_type_def frame_types fits_def)

lemma opens_plain: "list_all plain fs \<Longrightarrow> opens fs = []"
  by (auto simp: opens_def list_all_iff filter_empty_conv plain_def frame_types)

lemma heap_ids_same:
  assumes "length (m_heap m') = length (m_heap m)" and "\<And>p. p < length (m_heap m) \<Longrightarrow> sm_id (at m' p) = sm_id (at m p)"
  shows "map sm_id (m_heap m') = map sm_id (m_heap m)" and "heap_ids m' = heap_ids m"
proof -
  show e: "map sm_id (m_heap m') = map sm_id (m_heap m)" using assms by (intro nth_equalityI) auto
  show "heap_ids m' = heap_ids m" unfolding heap_ids_def by (metis e list.set_map)
qed

lemma quiet_ids:
  assumes "mux_quiet m m'"
  shows "map sm_id (m_heap m') = map sm_id (m_heap m)" and "heap_ids m' = heap_ids m"
  using heap_ids_same [of m' m] assms by (auto simp: mux_quiet_def stream_quiet_def)

lemma quiet_mapped:
  assumes "mux_quiet m m'" and "p < length (m_heap m)" and "mapped m' p"
  shows "mapped m p"
proof -
  have "sm_id (at m' p) = sm_id (at m p)" using assms(1,2) by (auto simp: mux_quiet_def stream_quiet_def)
  then show ?thesis using assms(1,3) by (auto simp: mux_quiet_def mapped_def)
qed

lemma quiet_role:
  assumes "role_ok m E H" and "mux_quiet m m'"
  shows "role_ok m' E H"
proof -
  obtain fs where fs: "m_control m' = m_control m @ fs" "list_all plain fs" using assms(2) by (auto simp: mux_quiet_def)
  have "opens (E @ m_control m') = opens (E @ m_control m)" using opens_plain [OF fs(2)] by (simp add: fs(1))
  moreover have "m_client m' = m_client m" "m_client m \<Longrightarrow> m_lastID m' = m_lastID m" "m_done m \<Longrightarrow> m_done m'"
    using assms(2) by (auto simp: mux_quiet_def)
  ultimately show ?thesis using assms(1) quiet_ids(2) [OF assms(2)] unfolding role_ok_def
    by (cases "m_client m") auto
qed

lemma quiet_inv:
  assumes inv: "ep_inv F c e" and q: "mux_quiet (ep_mux e) m'"
  shows "ep_inv F c (e\<lparr>ep_mux := m'\<rparr>)"
proof -
  have len: "length (m_heap m') = length (m_heap (ep_mux e))" and c: "m_compression m' = m_compression (ep_mux e)" "m_client m' = m_client (ep_mux e)"
    and st: "\<And>p. p < length (m_heap (ep_mux e)) \<Longrightarrow> stream_quiet (at (ep_mux e) p) (at m' p)"
    using q by (auto simp: mux_quiet_def)
  obtain fs where fs: "m_control m' = m_control (ep_mux e) @ fs" "list_all plain fs" using q by (auto simp: mux_quiet_def)
  have "list_all (\<lambda>f. \<not> stream_type f \<and> fits f) fs" using fs(2) by (auto simp: list_all_iff)
  then show ?thesis using inv quiet_role [OF _ q] quiet_ids [OF q] fs len c
    unfolding ep_inv_def Let_def by (auto intro: sender_quiet [OF _ st] receiver_quiet [OF _ st quiet_mapped [OF q]])
qed

lemma quiet_got:
  "ep_inv F c (e\<lparr>ep_mux := m1, ep_got := g\<rparr>) \<Longrightarrow> mux_quiet m1 m' \<Longrightarrow> ep_inv F c (e\<lparr>ep_mux := m', ep_got := g\<rparr>)"
  by (cases e) (auto dest: quiet_inv)

lemma quiet_wrote:
  "ep_inv F c (e\<lparr>ep_mux := m1, ep_wrote := w\<rparr>) \<Longrightarrow> mux_quiet m1 m' \<Longrightarrow> ep_inv F c (e\<lparr>ep_mux := m', ep_wrote := w\<rparr>)"
  by (cases e) (auto dest: quiet_inv)

lemma quiet_out:
  "ep_inv F c (e\<lparr>ep_mux := m1, ep_out := w\<rparr>) \<Longrightarrow> mux_quiet m1 m' \<Longrightarrow> ep_inv F c (e\<lparr>ep_mux := m', ep_out := w\<rparr>)"
  by (cases e) (auto dest: quiet_inv)

lemma quiet_in:
  "ep_inv F c (e\<lparr>ep_mux := m1, ep_in := w\<rparr>) \<Longrightarrow> mux_quiet m1 m' \<Longrightarrow> ep_inv F c (e\<lparr>ep_mux := m', ep_in := w\<rparr>)"
  by (cases e) (auto dest: quiet_inv)

section \<open>Steps on one stream\<close>

lemma mapped_upd: "p < length (m_heap m) \<Longrightarrow> sm_id (f (at m p)) = sm_id (at m p) \<Longrightarrow> mapped (upd p f m) q = mapped m q"
  by (simp add: mapped_def at_upd)

lemma upd_inv:
  assumes inv: "ep_inv F c e" and p: "p < length (m_heap (ep_mux e))"
    and sid: "sm_id (f (at (ep_mux e) p)) = sm_id (at (ep_mux e) p)"
    and s: "sender_ok F c (f (at (ep_mux e) p)) (ep_out e) w"
    and r: "receiver_ok F c (mapped (ep_mux e) p) (p \<in> S) (f (at (ep_mux e) p)) (ep_in e) g"
    and S: "S = ep_stopped e \<or> S = insert p (ep_stopped e)"
  shows "ep_inv F c (e\<lparr>ep_mux := upd p f (ep_mux e), ep_wrote := (ep_wrote e)(p := w), ep_got := (ep_got e)(p := g), ep_stopped := S\<rparr>)"
proof -
  let ?m = "ep_mux e" and ?m' = "upd p f (ep_mux e)"
  have len: "length (m_heap ?m') = length (m_heap ?m)" by simp
  have ids: "sm_id (at ?m' q) = sm_id (at ?m q)" for q using p sid by (simp add: at_upd)
  note same = heap_ids_same [OF len ids]
  have "role_ok ?m (ep_out e) (ep_in e)" using inv by (simp add: ep_inv_def Let_def)
  then have role: "role_ok ?m' (ep_out e) (ep_in e)" unfolding role_ok_def by (simp only: upd_simps same(2))
  have "sender_ok F c (at ?m' q) (ep_out e) (((ep_wrote e)(p := w)) q)
      \<and> receiver_ok F c (mapped ?m' q) (q \<in> S) (at ?m' q) (ep_in e) (((ep_got e)(p := g)) q)" if "q < length (m_heap ?m)" for q
  proof (cases "q = p")
    case True
    then show ?thesis using s r p mapped_upd [where f = f, OF p sid] by (simp add: at_upd)
  next
    case False
    then have "(q \<in> S) = (q \<in> ep_stopped e)" using S by auto
    then show ?thesis using inv that p False mapped_upd [where f = f, OF p sid] by (auto simp: ep_inv_def Let_def at_upd)
  qed
  moreover have "S \<subseteq> {..<length (m_heap ?m)}" using inv S p by (auto simp: ep_inv_def Let_def)
  ultimately show ?thesis using inv same role p len unfolding ep_inv_def Let_def by simp
qed

lemma inv_parts:
  assumes "ep_inv F c e" and "p < length (m_heap (ep_mux e))"
  shows "sender_ok F c (at (ep_mux e) p) (ep_out e) (ep_wrote e p)"
    and "receiver_ok F c (mapped (ep_mux e) p) (p \<in> ep_stopped e) (at (ep_mux e) p) (ep_in e) (ep_got e p)"
  using assms by (auto simp: ep_inv_def Let_def)

text \<open>A writer queues a DATA frame or the FIN.\<close>

lemma sender_push:
  assumes "sender_ok F c s E w" and "\<not> sm_closed s" and "\<not> sm_localWriteClosed s"
    and "stream_type g" and "StreamID g = sm_id s" and "is_FIN g \<longrightarrow> sm_localWriteClosed s'"
    and "sm_id s' = sm_id s" and "sm_outbound s' = sm_outbound s @ [g]" and "d = frame_data F c g"
  shows "sender_ok F c s' E (w @ d)"
proof -
  let ?Q = "stream_frames (sm_id s) E @ sm_outbound s"
  have Q: "list_all (\<lambda>f. stream_type f \<and> StreamID f = sm_id s) ?Q" "list_all (\<lambda>f. \<not> is_FIN f) ?Q" "data_of F c ?Q = w"
    using assms(1-3) unfolding sender_ok_def by blast+
  show ?thesis unfolding sender_ok_def
    by (rule exI [of _ "?Q @ [g]"]) (use Q assms fin_last_snoc [of ?Q g] in auto)
qed

lemma receiver_same:
  assumes "receiver_ok F c b stopped s H got" and "sm_id s' = sm_id s" and "sm_inbound s' = sm_inbound s"
    and "sm_remoteWriteClosed s' = sm_remoteWriteClosed s" and "sm_closed s' = sm_closed s"
  shows "receiver_ok F c b stopped s' H got"
  using assms by (simp add: receiver_ok_def Let_def)

lemma push_inv:
  assumes inv: "ep_inv F c e" and p: "p < length (m_heap (ep_mux e))" and s: "s = at (ep_mux e) p" "\<not> sm_closed s" "\<not> sm_localWriteClosed s"
    and g: "stream_type g" "StreamID g = sm_id s" "is_FIN g \<longrightarrow> sm_localWriteClosed (f s)"
    and f: "sm_id (f s) = sm_id s" "sm_outbound (f s) = sm_outbound s @ [g]" "sm_inbound (f s) = sm_inbound s"
      "sm_remoteWriteClosed (f s) = sm_remoteWriteClosed s" "sm_closed (f s) = sm_closed s"
  shows "ep_inv F c (e\<lparr>ep_mux := upd p f (ep_mux e), ep_wrote := (ep_wrote e)(p := ep_wrote e p @ frame_data F c g)\<rparr>)"
proof -
  have "sender_ok F c (f s) (ep_out e) (ep_wrote e p @ frame_data F c g)"
    using sender_push [OF inv_parts(1) [OF inv p, folded s(1)] s(2,3) g f(1,2) refl] .
  moreover have "receiver_ok F c (mapped (ep_mux e) p) (p \<in> ep_stopped e) (f s) (ep_in e) (ep_got e p)"
    using receiver_same [OF inv_parts(2) [OF inv p, folded s(1)] f(1,3-5)] .
  ultimately show ?thesis
    using upd_inv [where f = f and S = "ep_stopped e" and g = "ep_got e p", OF inv p] s(1) f(1) by simp
qed

lemma push_FIN_inv:
  assumes "ep_inv F c e" and "p < length (m_heap (ep_mux e))" and "s = at (ep_mux e) p" "\<not> sm_closed s" "\<not> sm_localWriteClosed s"
    and "g = mkFrame FrameFIN (sm_id s) b" "sm_localWriteClosed (f s)"
    and "sm_id (f s) = sm_id s" "sm_outbound (f s) = sm_outbound s @ [g]" "sm_inbound (f s) = sm_inbound s"
      "sm_remoteWriteClosed (f s) = sm_remoteWriteClosed s" "sm_closed (f s) = sm_closed s"
  shows "ep_inv F c (e\<lparr>ep_mux := upd p f (ep_mux e)\<rparr>)"
proof -
  have "frame_data F c g = []" using assms(6) by (simp add: frame_data_def frame_types)
  then show ?thesis using push_inv [where f = f and g = g, OF assms(1-5)] assms(6-) by (simp add: stream_type_def)
qed

text \<open>A reader takes bytes from the buffer; the reading side is closed.\<close>

lemma read_inv:
  assumes inv: "ep_inv F c e" and p: "p < length (m_heap (ep_mux e))" and s: "s = at (ep_mux e) p"
    and f: "sm_id (f s) = sm_id s" "sm_outbound (f s) = sm_outbound s" "sm_inbound s = d @ sm_inbound (f s)"
      "sm_remoteWriteClosed (f s) = sm_remoteWriteClosed s" "sm_localWriteClosed (f s) = sm_localWriteClosed s" "sm_closed (f s) = sm_closed s"
  shows "ep_inv F c (e\<lparr>ep_mux := upd p f (ep_mux e), ep_got := (ep_got e)(p := ep_got e p @ d)\<rparr>)"
proof -
  have "sender_ok F c (f s) (ep_out e) (ep_wrote e p)"
    using inv_parts(1) [OF inv p, folded s] f by (simp add: sender_ok_def)
  moreover have "receiver_ok F c (mapped (ep_mux e) p) (p \<in> ep_stopped e) (f s) (ep_in e) (ep_got e p @ d)"
    using inv_parts(2) [OF inv p, folded s] f by (simp add: receiver_ok_def Let_def)
  ultimately show ?thesis
    using upd_inv [where f = f and S = "ep_stopped e" and w = "ep_wrote e p", OF inv p] s f(1) by simp
qed

lemma stop_inv:
  assumes inv: "ep_inv F c e" and p: "p < length (m_heap (ep_mux e))"
  shows "ep_inv F c (e\<lparr>ep_mux := CloseRead p (ep_mux e), ep_stopped := insert p (ep_stopped e)\<rparr>)"
proof -
  let ?f = "\<lambda>s. streamSignal (s\<lparr>sm_remoteWriteClosed := True, sm_inbound := []\<rparr>)" and ?s = "at (ep_mux e) p"
  have "sender_ok F c (?f ?s) (ep_out e) (ep_wrote e p)"
    using inv_parts(1) [OF inv p] by (simp add: sender_ok_def streamSignal_def)
  moreover have "receiver_ok F c (mapped (ep_mux e) p) True (?f ?s) (ep_in e) (ep_got e p)"
    using inv_parts(2) [OF inv p] by (auto simp: receiver_ok_def Let_def streamSignal_def dest: append_prefixD)
  ultimately show ?thesis
    using upd_inv [where f = ?f and S = "insert p (ep_stopped e)" and w = "ep_wrote e p" and g = "ep_got e p", OF inv p]
    by (simp add: CloseRead_def streamSignal_def)
qed

section \<open>Writing, reading and closing\<close>

lemma enqueueAndSchedule_quiet:
  assumes "p < length (m_heap m)" and "in_heap m"
  shows "mux_quiet (upd p (\<lambda>s. s\<lparr>sm_outbound := sm_outbound s @ [frame], sm_scheduled := True\<rparr>) m) (snd (enqueueAndSchedule frame p m))"
  using assms(2) enqueueLocked_upd [OF assms(1), of frame]
  by (simp add: enqueueAndSchedule_def quiet_schedule in_heap_upd)

lemma carries_data:
  assumes "flate_codec F" and "carries F c sid f chunk"
  shows "frame_data F c f = chunk" and "stream_type f" and "StreamID f = sid" and "\<not> is_FIN f"
  using assms(2) carries_decode [OF assms] by (auto simp: carries_def frame_data_def stream_type_def is_FIN_def frame_types split: if_splits)

lemma write_inv:
  assumes "flate_codec F" and "Stream_Write F written data p m = (n, r, m')" and "mux_ok m" and "p < length (m_heap m)"
    and "ep_inv F c e" and "ep_mux e = m"
  shows "\<exists>k \<le> length data. n = written + k
    \<and> ep_inv F c (e\<lparr>ep_mux := m', ep_wrote := (ep_wrote e)(p := ep_wrote e p @ take k data)\<rparr>)"
  using assms(2-)
proof (induction "length data" arbitrary: data written m e rule: less_induct)
  case less
  show ?case
  proof (cases "data \<noteq> [] \<and> writable (at m p) \<and> 0 < sm_sendWindow (at m p)")
    case True
    obtain k frame m2 where k: "Stream_Write F written data p m = Stream_Write F (written + k) (drop k data) p m2"
      "0 < k" "k \<le> length data" "mux_ok m2" "length (m_heap m2) = length (m_heap m)"
      and g: "carries F (m_compression m) (sm_id (at m p)) frame (take k data)"
      and m2: "\<exists>a b. m2 = addCompressionTX a b (snd (enqueueAndSchedule frame p (upd p (\<lambda>s. s\<lparr>sm_sendWindow := sm_sendWindow s - of_nat k\<rparr>) m)))"
      by (rule Stream_Write_chunk [OF less(3,4), of data F written]) (use True in auto)
    have c: "m_compression m = c" using less(5,6) by (simp add: ep_inv_def Let_def)
    define f :: "Stream \<Rightarrow> Stream" where "f = (\<lambda>s. s\<lparr>sm_sendWindow := sm_sendWindow s - of_nat k, sm_outbound := sm_outbound s @ [frame], sm_scheduled := True\<rparr>)"
    define w where "w = (ep_wrote e)(p := ep_wrote e p @ take k data)"
    note d = carries_data [OF assms(1) g]
    have e2: "ep_inv F c (e\<lparr>ep_mux := upd p f m, ep_wrote := w\<rparr>)"
      using push_inv [where f = f and g = frame, OF less(5) _ refl] less(4,6) True d c unfolding w_def f_def by (simp add: writable_def)
    have "upd p (\<lambda>s. s\<lparr>sm_outbound := sm_outbound s @ [frame], sm_scheduled := True\<rparr>)
        (upd p (\<lambda>s. s\<lparr>sm_sendWindow := sm_sendWindow s - of_nat k\<rparr>) m) = upd p f m"
      unfolding f_def using less(4) by (simp add: upd_upd)
    then have "mux_quiet (upd p f m) (snd (enqueueAndSchedule frame p (upd p (\<lambda>s. s\<lparr>sm_sendWindow := sm_sendWindow s - of_nat k\<rparr>) m)))"
      using enqueueAndSchedule_quiet [of p "upd p (\<lambda>s. s\<lparr>sm_sendWindow := sm_sendWindow s - of_nat k\<rparr>) m" frame]
        less(3,4) by (simp add: mux_ok_def in_heap_ok)
    then have "mux_quiet (upd p f m) m2" using m2 quiet_trans addCompression_quiet(1) by blast
    then have e3: "ep_inv F c (e\<lparr>ep_mux := m2, ep_wrote := w\<rparr>)" by (rule quiet_wrote [OF e2])
    have h: "length (drop k data) < length data" "Stream_Write F (written + k) (drop k data) p m2 = (n, r, m')"
      "p < length (m_heap m2)" "ep_mux (e\<lparr>ep_mux := m2, ep_wrote := w\<rparr>) = m2"
      subgoal using k(2) True by simp
      subgoal using k(1) less(2) by metis
      subgoal using k(5) less(4) by simp
      subgoal by simp
      done
    obtain j where j: "j \<le> length (drop k data)" "n = written + k + j"
      "ep_inv F c ((e\<lparr>ep_mux := m2, ep_wrote := w\<rparr>)\<lparr>ep_mux := m', ep_wrote := w(p := w p @ take j (drop k data))\<rparr>)"
      using less(1) [OF h(1,2) k(4) h(3) e3 h(4)] by auto
    have "w(p := w p @ take j (drop k data)) = (ep_wrote e)(p := ep_wrote e p @ take (k + j) data)"
      by (simp add: w_def take_add)
    then have "ep_inv F c (e\<lparr>ep_mux := m', ep_wrote := (ep_wrote e)(p := ep_wrote e p @ take (k + j) data)\<rparr>)"
      using j(3) by (cases e) simp
    then show ?thesis using j(1,2) k(3) by (intro exI [of _ "k + j"]) simp
  next
    case False
    have "m' = m \<and> n = written"
    proof (cases "data = []")
      case True
      then show ?thesis using less(2) by simp
    next
      case ne: False
      then have "\<not> (writable (at m p) \<and> 0 < sm_sendWindow (at m p))" using False by blast
      then show ?thesis using Stream_Write_stops [OF _ less(2)] by blast
    qed
    then show ?thesis using less(5,6) by (intro exI [of _ 0]) (cases e, simp)
  qed
qed

lemma readStream_inv:
  assumes inv: "ep_inv F c e" and p: "p < length (m_heap (ep_mux e))" "in_heap (ep_mux e)" and run: "Stream_Read n p (ep_mux e) = (Some (Inr d), m')"
  shows "ep_inv F c (e\<lparr>ep_mux := m', ep_got := (ep_got e)(p := ep_got e p @ d)\<rparr>)"
proof (cases "n = 0")
  case False
  let ?m = "ep_mux e" let ?s = "at ?m p"
  have ne: "sm_inbound ?s \<noteq> []" using run False by (auto simp: Stream_Read_def Let_def split: if_splits)
  define k :: u32 where "k = of_nat (length (take n (sm_inbound ?s)))"
  define P where "P = (if sm_pendingWindowUpdate ?s + k \<ge> windowUpdateThreshold then 0 else sm_pendingWindowUpdate ?s + k)"
  define f :: "Stream \<Rightarrow> Stream" where
    "f = (\<lambda>s. s\<lparr>sm_inbound := drop n (sm_inbound s), sm_receiveWindow := sm_receiveWindow s + k, sm_pendingWindowUpdate := P\<rparr>)"
  have d: "d = take n (sm_inbound ?s)" and m': "m' = upd p f ?m \<or> (\<exists>a. m' = snd (sendControl (WindowUpdate (sm_id ?s) a) (upd p f ?m)))"
    using run False ne unfolding Stream_Read_def Let_def k_def [symmetric] P_def [symmetric] f_def [symmetric]
    by (auto split: if_splits)
  have "mux_quiet (upd p f ?m) m'" using m' quiet_upd quiet_sendControl [OF in_heap_upd [OF p(2)] plain_control(4)]
    by (elim disjE exE) simp_all
  moreover have "ep_inv F c (e\<lparr>ep_mux := upd p f ?m, ep_got := (ep_got e)(p := ep_got e p @ d)\<rparr>)"
    by (rule read_inv [OF inv p(1) refl]) (simp_all add: f_def d)
  ultimately show ?thesis by (rule quiet_got [rotated])
qed (use inv run in \<open>cases e, simp add: Stream_Read_def\<close>)

lemma readStream_quiet:
  assumes "Stream_Read n p m = (r, m')" and "\<And>d. r \<noteq> Some (Inr d)"
  shows "m' = m"
  using assms by (auto simp: Stream_Read_def Let_def split: if_splits)

lemma CloseWrite_inv:
  assumes inv: "ep_inv F c e" and p: "p < length (m_heap (ep_mux e))" "in_heap (ep_mux e)" and run: "CloseWrite p (ep_mux e) = (r, m')"
  shows "ep_inv F c (e\<lparr>ep_mux := m'\<rparr>)"
proof (cases "sm_localWriteClosed (at (ep_mux e) p) \<or> sm_closed (at (ep_mux e) p)")
  case False
  let ?m = "ep_mux e" let ?s = "at ?m p" let ?g = "mkFrame FrameFIN (sm_id ?s) []"
  let ?f = "\<lambda>s. streamSignal (s\<lparr>sm_localWriteClosed := True, sm_outbound := sm_outbound s @ [?g], sm_scheduled := True\<rparr>)"
  have "enqueueLocked ?g p (upd p (\<lambda>s. s\<lparr>sm_localWriteClosed := True\<rparr>) ?m)
      = (\<not> sm_scheduled ?s, upd p (\<lambda>s. s\<lparr>sm_localWriteClosed := True, sm_outbound := sm_outbound s @ [?g], sm_scheduled := True\<rparr>) ?m)"
    using p(1) by (simp add: enqueueLocked_upd at_upd upd_upd)
  then have "m' = upd p ?f ?m \<or> m' = snd (schedule p (upd p ?f ?m))"
    using run False p(1) by (auto simp: CloseWrite_def upd_upd Let_def split: if_splits)
  then have "mux_quiet (upd p ?f ?m) m'" using quiet_schedule [OF in_heap_upd [OF p(2)]] by (elim disjE) simp_all
  moreover have "ep_inv F c (e\<lparr>ep_mux := upd p ?f ?m\<rparr>)"
    by (rule push_FIN_inv [OF inv p(1) refl _ _ refl]) (use False in \<open>simp_all add: streamSignal_def\<close>)
  ultimately show ?thesis using quiet_inv by fastforce
qed (use inv run in \<open>auto simp: CloseWrite_def\<close>)

section \<open>The writer's turn\<close>

lemma opened_first_snoc:
  "opened_first (E @ [g]) \<longleftrightarrow> opened_first E \<and> (stream_type g \<longrightarrow> StreamID g \<in> set (opens E))"
  by (auto simp: opened_first_def nth_append less_Suc_eq all_conj_distrib)

lemma sender_out_same:
  "stream_frames (sm_id s) E' = stream_frames (sm_id s) E \<Longrightarrow> sender_ok F c s E' w = sender_ok F c s E w"
  by (simp add: sender_ok_def)

lemma emit_control_inv:
  assumes inv: "ep_inv F c e" and m': "m_control (ep_mux e) = g # fs" "m_control m' = fs" "m_heap m' = m_heap (ep_mux e)"
    "m_streams m' = m_streams (ep_mux e)" "m_client m' = m_client (ep_mux e)" "m_compression m' = m_compression (ep_mux e)"
    "m_done m' = m_done (ep_mux e)" "m_lastID m' = m_lastID (ep_mux e)"
  shows "ep_inv F c (e\<lparr>ep_mux := m', ep_out := ep_out e @ [g]\<rparr>)"
proof -
  have g: "\<not> stream_type g" "fits g" "list_all (\<lambda>f. \<not> stream_type f \<and> fits f) fs" using inv m'(1) by (auto simp: ep_inv_def Let_def)
  have ids: "heap_ids m' = heap_ids (ep_mux e)" and mp: "mapped m' = mapped (ep_mux e)"
    using m' by (simp_all add: heap_ids_def mapped_def fun_eq_iff)
  have "role_ok (ep_mux e) (ep_out e) (ep_in e)" using inv by (simp add: ep_inv_def Let_def)
  moreover have "(ep_out e @ [g]) @ m_control m' = ep_out e @ m_control (ep_mux e)" using m' by simp
  ultimately have "role_ok m' (ep_out e @ [g]) (ep_in e)"
    unfolding role_ok_def opened_first_snoc using g(1) by (simp only: m'(5,7,8) ids simp_thms)
  moreover have "sender_ok F c s (ep_out e @ [g]) w = sender_ok F c s (ep_out e) w" for s w
    using g(1) by (intro sender_out_same) simp
  ultimately show ?thesis using inv g ids mp m'(2-6) unfolding ep_inv_def Let_def by auto
qed

lemma pop_inv:
  assumes inv: "ep_inv F c e" and p: "p < length (m_heap (ep_mux e))" and s: "s = at (ep_mux e) p" "sm_outbound s = g # gs"
    and idle: "m_control (ep_mux e) = []" "\<not> m_done (ep_mux e)"
    and f: "sm_id (f s) = sm_id s" "sm_outbound (f s) = gs" "sm_inbound (f s) = sm_inbound s"
      "sm_remoteWriteClosed (f s) = sm_remoteWriteClosed s" "sm_localWriteClosed (f s) = sm_localWriteClosed s" "sm_closed (f s) = sm_closed s"
  shows "ep_inv F c (e\<lparr>ep_mux := upd p f (ep_mux e), ep_out := ep_out e @ [g]\<rparr>)"
proof -
  let ?m = "ep_mux e" let ?m' = "upd p f ?m"
  have sp: "sender_ok F c s (ep_out e) (ep_wrote e p)" using inv_parts(1) [OF inv p] s(1) by simp
  then have g: "stream_type g" "StreamID g = sm_id s" using s(2) by (auto simp: sender_ok_def dest: prefix_length_le elim!: prefixE)
  have ids: "sm_id (at ?m' q) = sm_id (at ?m q)" for q using p f(1) s(1) by (simp add: at_upd)
  note same = heap_ids_same [of ?m' ?m, OF _ ids, simplified]
  have in_ids: "StreamID g \<in> heap_ids ?m" using g(2) s(1) p by (simp add: heap_ids_def)
  have "role_ok ?m (ep_out e) (ep_in e)" using inv by (simp add: ep_inv_def Let_def)
  moreover have "FType g \<noteq> FrameOpen" using g(1) by (auto simp: stream_type_def frame_types)
  ultimately have role: "role_ok ?m' (ep_out e @ [g]) (ep_in e)"
    using idle in_ids unfolding role_ok_def opened_first_snoc by (auto simp: same(2))
  have "sender_ok F c (f s) (ep_out e @ [g]) (ep_wrote e p)"
    using sp s(2) f g by (simp add: sender_ok_def)
  moreover have "sender_ok F c (at ?m q) (ep_out e @ [g]) (ep_wrote e q)" if "q < length (m_heap ?m)" "q \<noteq> p" for q
  proof -
    have "sm_id (at ?m q) \<noteq> sm_id s"
      using inv that p s(1) by (auto simp: ep_inv_def Let_def distinct_conv_nth)
    then show ?thesis using inv_parts(1) [OF inv that(1)] g(2) by (subst sender_out_same) auto
  qed
  ultimately have "\<forall>q < length (m_heap ?m). sender_ok F c (at ?m' q) (ep_out e @ [g]) (ep_wrote e q)"
    using p s(1) by (simp add: at_upd)
  moreover have "receiver_ok F c (mapped ?m' q) (q \<in> ep_stopped e) (at ?m' q) (ep_in e) (ep_got e q)" if "q < length (m_heap ?m)" for q
  proof (cases "q = p")
    case True
    then show ?thesis using receiver_same [OF inv_parts(2) [OF inv p], of "f s"] p s(1) f mapped_upd [of p ?m f q]
      by (simp add: at_upd)
  next
    case False
    then show ?thesis using inv_parts(2) [OF inv that] p s(1) f(1) mapped_upd [of p ?m f q] by (simp add: at_upd)
  qed
  moreover have "fits g" using g(1) by (auto simp: fits_def stream_type_def frame_types)
  ultimately show ?thesis using inv same role in_ids unfolding ep_inv_def Let_def by simp
qed

lemma writeSelect_control:
  assumes "m_control m = h # fs" and "writeSelect m = (WriterEmits g, m')"
  shows "g = h" "m_control m' = fs" "m_heap m' = m_heap m" "m_streams m' = m_streams m" "m_client m' = m_client m"
    "m_compression m' = m_compression m" "m_done m' = m_done m" "m_lastID m' = m_lastID m"
proof -
  have "g = h \<and> (\<exists>k. m' = m\<lparr>m_picks := k, m_control := fs\<rparr>)"
  proof (cases "m_done m")
    case False
    then have "m' = m\<lparr>m_picks := m_picks m, m_control := fs\<rparr>" "g = h" using assms by (auto simp: writeSelect_def)
    then show ?thesis by blast
  qed (use assms in \<open>auto simp: writeSelect_def pickCase_def split: if_splits\<close>)
  then obtain k where k: "g = h" "m' = m\<lparr>m_picks := k, m_control := fs\<rparr>" by blast
  show "g = h" "m_control m' = fs" "m_heap m' = m_heap m" "m_streams m' = m_streams m" "m_client m' = m_client m"
    "m_compression m' = m_compression m" "m_done m' = m_done m" "m_lastID m' = m_lastID m"
    unfolding k by simp_all
qed

lemma writeSelect_emit_inv:
  assumes inv: "ep_inv F c e" and ok: "mux_ok (ep_mux e)" and run: "writeSelect (ep_mux e) = (WriterEmits g, m')"
  shows "ep_inv F c (e\<lparr>ep_mux := m', ep_out := ep_out e @ [g]\<rparr>)"
proof (cases "m_control (ep_mux e)")
  case (Cons h fs)
  note m' = writeSelect_control [OF Cons run]
  show ?thesis using emit_control_inv [OF inv _ m'(2-)] Cons m'(1) by simp
next
  case Nil
  let ?m = "ep_mux e"
  obtain sid rest p where rd: "\<not> m_done ?m" "m_ready ?m = sid # rest" "map_of (m_streams ?m) sid = Some p"
    and no: "nextOutbound p (?m\<lparr>m_ready := rest\<rparr>) = (Some g, m')"
    using run Nil by (auto simp: writeSelect_def Let_def split: if_splits list.splits option.splits prod.splits)
  have tab: "table_ok ?m" using ok by (simp add: mux_ok_def)
  then have mem: "(sid, p) \<in> set (m_streams ?m)" using rd(3) map_of_streams by simp
  then have p: "p < length (m_heap ?m)" "in_heap ?m" using tab by (auto simp: table_ok_def)
  define m1 where "m1 = ?m\<lparr>m_ready := rest\<rparr>"
  have q1: "mux_quiet ?m m1" unfolding m1_def by (rule quiet_fields) auto
  obtain gs where out: "sm_outbound (at m1 p) = g # gs"
    using no by (auto simp: nextOutbound_def m1_def Let_def split: list.splits if_splits)
  define f :: "Stream \<Rightarrow> Stream" where "f = (\<lambda>s. s\<lparr>sm_outbound := gs, sm_scheduled := (if gs \<noteq> [] then sm_scheduled s else False)\<rparr>)"
  have "m' = (if gs \<noteq> [] then snd (schedule p (upd p f m1))
      else if sm_closeAfterDrain (at m1 p) then removeStream (sm_id (at m1 p)) (upd p f m1) else upd p f m1)"
    using no [folded m1_def] out unfolding nextOutbound_def f_def by (cases "gs = []") (simp_all add: Let_def split: if_splits)
  moreover have "in_heap (upd p f m1)" using p(2) by (simp add: m1_def)
  ultimately have "mux_quiet (upd p f m1) m'" using quiet_schedule quiet_remove by simp
  moreover have "ep_inv F c ((e\<lparr>ep_mux := m1\<rparr>)\<lparr>ep_mux := upd p f m1, ep_out := ep_out e @ [g]\<rparr>)"
    using pop_inv [where f = f, OF quiet_inv [OF inv q1] _ refl] p out rd Nil by (simp add: m1_def f_def)
  then have "ep_inv F c (e\<lparr>ep_mux := upd p f m1, ep_out := ep_out e @ [g]\<rparr>)" by (cases e) simp
  ultimately show ?thesis by (rule quiet_out [rotated])
qed

lemma quiet_ready: "mux_quiet m (m\<lparr>m_ready := r\<rparr>)"
  by (rule quiet_fields) auto

lemma writeSelect_idle_quiet:
  assumes ok: "mux_ok m" and run: "writeSelect m = (c, m')" and idle: "\<And>g. c \<noteq> WriterEmits g"
  shows "mux_quiet m m'"
proof (cases "\<exists>sid rest p. m_control m = [] \<and> \<not> m_done m \<and> m_ready m = sid # rest \<and> map_of (m_streams m) sid = Some p")
  case True
  then obtain sid rest p where rd: "m_control m = []" "\<not> m_done m" "m_ready m = sid # rest" "map_of (m_streams m) sid = Some p" by blast
  have tab: "table_ok m" using ok by (simp add: mux_ok_def)
  then have p: "p < length (m_heap m)" using rd(4) map_of_streams [OF tab] by (auto simp: table_ok_def)
  have "m' = upd p (\<lambda>s. s\<lparr>sm_scheduled := False\<rparr>) (m\<lparr>m_ready := rest\<rparr>)"
    using run rd idle by (auto simp: writeSelect_def nextOutbound_def Let_def split: list.splits if_splits)
  moreover have "mux_quiet (m\<lparr>m_ready := rest\<rparr>) (upd p (\<lambda>s. s\<lparr>sm_scheduled := False\<rparr>) (m\<lparr>m_ready := rest\<rparr>))"
    using p by (intro quiet_upd) (simp_all add: stream_quiet_def)
  ultimately show ?thesis using quiet_trans [OF quiet_ready] by blast
next
  case False
  have pick: "mux_quiet m (m\<lparr>m_picks := k\<rparr>)" for k by (rule quiet_fields) auto
  show ?thesis
  proof (cases "m_control m")
    case (Cons h fs)
    then have "m_done m \<and> m' = m\<lparr>m_picks := m_picks m + 1\<rparr>"
      using run idle by (cases "m_done m") (auto simp: writeSelect_def pickCase_def split: if_splits)
    then show ?thesis using pick by simp
  next
    case Nil
    show ?thesis
    proof (cases "m_done m \<or> m_ready m = []")
      case True
      then have "m' = m" using run Nil by (auto simp: writeSelect_def split: if_splits)
      then show ?thesis by simp
    next
      case nd: False
      then obtain sid rest where rd: "m_ready m = sid # rest" by (cases "m_ready m") auto
      then have "map_of (m_streams m) sid = None" using False Nil nd by (cases "map_of (m_streams m) sid") auto
      then have "m' = m\<lparr>m_ready := rest\<rparr>" using run Nil nd rd by (auto simp: writeSelect_def)
      then show ?thesis using quiet_ready by simp
    qed
  qed
qed

section \<open>New streams\<close>

lemma add_inv:
  assumes inv: "ep_inv F c e" and s: "sm_outbound s = []" "sm_inbound s = []" "\<not> sm_closed s" "\<not> sm_remoteWriteClosed s"
    and fresh: "sm_id s \<notin> heap_ids (ep_mux e)" "stream_frames (sm_id s) (ep_in e) = []"
    and m': "m_heap m' = m_heap (ep_mux e) @ [s]" "m_streams m' = gomap_put (sm_id s) (length (m_heap (ep_mux e))) (m_streams (ep_mux e))"
      "m_compression m' = m_compression (ep_mux e)" "m_client m' = m_client (ep_mux e)" "list_all (\<lambda>f. \<not> stream_type f \<and> fits f) (m_control m')"
    and role: "role_ok m' (ep_out e) (ep_in e)"
  shows "ep_inv F c (e\<lparr>ep_mux := m'\<rparr>)"
proof -
  let ?m = "ep_mux e" let ?n = "length (m_heap ?m)"
  have ids: "heap_ids m' = insert (sm_id s) (heap_ids ?m)" using m'(1) by (auto simp: heap_ids_def)
  have out: "stream_frames (sm_id s) (ep_out e) = []"
    using inv fresh(1) by (auto simp: ep_inv_def Let_def stream_frames_def filter_empty_conv)
  have w: "ep_wrote e ?n = []" "ep_got e ?n = []" and st: "ep_stopped e \<subseteq> {..<?n}" using inv by (auto simp: ep_inv_def Let_def)
  have old: "at m' p = at ?m p \<and> mapped m' p = mapped ?m p" if "p < ?n" for p
  proof -
    have "sm_id (at ?m p) \<in> heap_ids ?m" using that by (simp add: heap_ids_def)
    then have "sm_id (at ?m p) \<noteq> sm_id s" using fresh(1) by auto
    then show ?thesis using that m'(1,2) by (simp add: mapped_def nth_append)
  qed
  have "sender_ok F c s (ep_out e) []" unfolding sender_ok_def by (rule exI [of _ "[]"]) (simp add: s(1) out)
  moreover have "receiver_ok F c b st s (ep_in e) []" for b st using s fresh(2) by (simp add: receiver_ok_def Let_def)
  ultimately have "sender_ok F c (at m' p) (ep_out e) (ep_wrote e p)
      \<and> receiver_ok F c (mapped m' p) (p \<in> ep_stopped e) (at m' p) (ep_in e) (ep_got e p)" if "p < Suc ?n" for p
  proof (cases "p = ?n")
    case True
    then show ?thesis using m'(1) w \<open>sender_ok F c s (ep_out e) []\<close> \<open>\<And>b st. receiver_ok F c b st s (ep_in e) []\<close> by simp
  next
    case False
    then show ?thesis using old [of p] inv_parts [OF inv, of p] that by simp
  qed
  moreover have "distinct (map sm_id (m_heap m'))" using inv m'(1) fresh(1) by (auto simp: ep_inv_def Let_def heap_ids_def)
  ultimately show ?thesis using inv m' ids role st unfolding ep_inv_def Let_def by auto
qed

lemma role_new:
  assumes "role_ok m E H" and "m_client m" and "\<forall>i \<in> heap_ids m. i \<le> sid" and "sid \<notin> heap_ids m"
    and m': "m_client m'" "heap_ids m' = insert sid (heap_ids m)" "m_lastID m' = sid"
    and c: "m_control m' = m_control m \<and> m_done m' \<or> m_control m' = m_control m @ [f] \<and> (\<not> m_done m)" "FType f = FrameOpen" "StreamID f = sid"
  shows "role_ok m' E H"
proof -
  have r: "distinct (opens (E @ m_control m))" "set (opens (E @ m_control m)) \<subseteq> heap_ids m"
    "\<not> m_done m \<longrightarrow> heap_ids m \<subseteq> set (opens (E @ m_control m))" "opened_first E"
    "\<forall>f \<in> set H. stream_type f \<longrightarrow> StreamID f \<in> heap_ids m"
    using assms(1,2) by (simp_all add: role_ok_def)
  have o: "m_done m' \<and> opens (E @ m_control m') = opens (E @ m_control m) \<or> \<not> m_done m \<and> opens (E @ m_control m') = opens (E @ m_control m) @ [sid]"
    using c by auto
  then have "distinct (opens (E @ m_control m'))" using r(1,2) assms(4) by (elim disjE conjE) (simp_all only: distinct_append, auto)
  moreover have "set (opens (E @ m_control m')) \<subseteq> heap_ids m'" using o r(2) m'(2) by (elim disjE conjE) (simp_all only:, auto)
  moreover have "\<not> m_done m' \<longrightarrow> heap_ids m' \<subseteq> set (opens (E @ m_control m'))"
    using o r(3) m'(2) by (elim disjE conjE) (simp_all only:, auto)
  ultimately show ?thesis using m' r(4,5) assms(3) unfolding role_ok_def by simp
qed

lemma openServiceBegin_inv:
  assumes inv: "ep_inv F c e" and ok: "mux_ok (ep_mux e)" and run: "openServiceBegin service (ep_mux e) = (r, m')"
  shows "ep_inv F c (e\<lparr>ep_mux := m'\<rparr>)"
proof -
  define m where "m = ep_mux e"
  define sid where "sid = m_nextID m"
  define f where "f = mkFrame FrameOpen sid (bytes_of service)"
  define m1 where "m1 = m\<lparr>m_nextID := (if sid = - 1 then 0 else sid + 2), m_lastID := sid,
                     m_heap := m_heap m @ [newStream sid], m_streams := gomap_put sid (length (m_heap m)) (m_streams m)\<rparr>"
  show ?thesis
  proof (cases "\<not> m_client m \<or> length service > maxServiceName \<or> m_closed m \<or> length (m_streams m) \<ge> m_maxStreams m \<or> sid = 0")
    case True
    then have "m' = m" using run by (auto simp: openServiceBegin_def m_def [symmetric] sid_def [symmetric] Let_def split: if_splits)
    then show ?thesis using inv by (cases e) (simp add: m_def)
  next
    case False
    then have nd: "\<not> m_done m" using ok by (simp add: mux_ok_def ids_ok_def m_def)
    have role: "role_ok m (ep_out e) (ep_in e)" using inv by (simp add: ep_inv_def Let_def m_def)
    have "m_lastID m < sid" using ok False by (auto simp: mux_ok_def ids_ok_def m_def [symmetric] sid_def [symmetric])
    then have fresh: "sid \<notin> heap_ids m" and le: "\<forall>i \<in> heap_ids m. i \<le> sid"
      using role False by (auto simp: role_ok_def)
    have no_in: "stream_frames sid (ep_in e) = []"
      using role False fresh by (auto simp: role_ok_def stream_frames_def filter_empty_conv)
    have ctl: "list_all (\<lambda>f. \<not> stream_type f \<and> fits f) (m_control m)" using inv by (simp add: ep_inv_def Let_def m_def)
    have fs: "FType f = FrameOpen" "StreamID f = sid" "\<not> stream_type f \<and> fits f" by (simp_all add: f_def stream_type_def fits_def frame_types)
    have ids: "heap_ids x = insert sid (heap_ids m)" if "m_heap x = m_heap m1" for x using that by (auto simp: heap_ids_def m1_def)
    have add: "ep_inv F c (e\<lparr>ep_mux := x\<rparr>)" if "m_heap x = m_heap m1" "m_streams x = m_streams m1" "m_compression x = m_compression m1" "m_client x = m_client m1"
      "m_control x = m_control m \<or> m_control x = m_control m @ [f]" "role_ok x (ep_out e) (ep_in e)" for x
      using that fresh no_in ctl fs by (intro add_inv [OF inv, of "newStream sid"]) (auto simp: m_def [symmetric] m1_def newStream_def)
    have run': "(r, m') = (case sendControl f m1 of (Some e, m2) \<Rightarrow> (Inl e, removeStream sid m2) | (None, m2) \<Rightarrow> (Inr (length (m_heap m)), m2))"
      using run False unfolding m_def [symmetric] openServiceBegin_def Let_def sid_def [symmetric] f_def [symmetric] m1_def [symmetric]
      by (simp del: not_less)
    show ?thesis
    proof (cases "length (m_control m1) < controlCap m1")
      case True
      have "m' = m1\<lparr>m_control := m_control m1 @ [f]\<rparr>"
        using run' True nd by (simp add: sendControl_def m1_def)
      moreover have "role_ok (m1\<lparr>m_control := m_control m1 @ [f]\<rparr>) (ep_out e) (ep_in e)"
        using False fs nd by (intro role_new [OF role _ le fresh, where f = f]) (simp_all add: ids m1_def)
      ultimately show ?thesis using add [of m'] by (simp add: m1_def)
    next
      case full: False
      let ?err = "ErrorText ''multiplexing control queue full''"
      let ?e = "if errors_is ?err EOF then Sentinel ErrSessionClosed else ?err"
      define m2 where "m2 = m1\<lparr>m_done := True\<rparr>"
      have m'_def: "m' = removeStream sid (shutdown ?err m1)"
        using run' full nd by (simp add: sendControl_def Let_def m1_def)
      have "in_heap m1" using ok by (force simp: mux_ok_def table_ok_def m_def [symmetric] m1_def gomap_put_def)
      let ?m3 = "m1\<lparr>m_closed := True, m_err := Some ?e, m_streams := [], m_done := True, m_connClosed := True\<rparr>"
      have q1: "mux_quiet m2 ?m3" unfolding m2_def by (rule quiet_fields) auto
      have q2: "mux_quiet ?m3 (fold (\<lambda>p. receiveReset p (Some ?e)) (map snd (m_streams m1)) ?m3)"
        using \<open>in_heap m1\<close> by (intro quiet_resets) auto
      have eq: "shutdown ?err m1 = fold (\<lambda>p. receiveReset p (Some ?e)) (map snd (m_streams m1)) ?m3"
        using nd by (simp add: shutdown_def m1_def Let_def)
      have "mux_quiet m2 (shutdown ?err m1)" unfolding eq by (rule quiet_trans [OF q1 q2])
      then have q: "mux_quiet m2 m'" unfolding m'_def by (rule quiet_trans [OF _ quiet_remove])
      have "role_ok m2 (ep_out e) (ep_in e)"
        using False fs by (intro role_new [OF role _ le fresh, where f = f]) (simp_all add: m2_def ids m1_def)
      then have "ep_inv F c (e\<lparr>ep_mux := m2\<rparr>)" by (intro add) (simp_all add: m2_def m1_def)
      from quiet_inv [OF this, of m'] q show ?thesis by (cases e) simp
    qed
  qed
qed

section \<open>Handled frames\<close>

text \<open>
  What the peer guarantees of the next frame: nothing follows a FIN of its stream, an OPEN is the first the server hears of its
  stream, and the client hears only of streams it opened.
\<close>

definition input_ok :: "Mux \<Rightarrow> Frame list \<Rightarrow> Frame \<Rightarrow> bool" where
  "input_ok m H f \<longleftrightarrow>
     (stream_type f \<longrightarrow> list_all (\<lambda>g. \<not> is_FIN g) (stream_frames (StreamID f) H) \<and> (m_client m \<longrightarrow> StreamID f \<in> heap_ids m))
     \<and> (FType f = FrameOpen \<and> \<not> m_client m \<longrightarrow> StreamID f \<notin> heap_ids m \<and> stream_frames (StreamID f) H = [])"

lemma receiver_grow:
  assumes "receiver_ok F c b st s H got"
    and "stream_type f \<and> StreamID f = sm_id s \<Longrightarrow> (b \<longrightarrow> sm_closed s \<or> sm_remoteWriteClosed s) \<and> list_all (\<lambda>g. \<not> is_FIN g) (stream_frames (sm_id s) H)"
  shows "receiver_ok F c b st s (H @ [f]) got"
proof (cases "stream_type f \<and> StreamID f = sm_id s")
  case True
  then show ?thesis using assms by (auto simp: receiver_ok_def Let_def list_all_iff list_ex_iff)
qed (use assms(1) in \<open>auto simp: receiver_ok_def\<close>)

lemma role_in:
  assumes "role_ok m E H" and "stream_type f \<Longrightarrow> m_client m \<Longrightarrow> StreamID f \<in> heap_ids m"
  shows "role_ok m E (H @ [f])"
  using assms by (auto simp: role_ok_def)

text \<open>A frame that changes nothing: it is not for a stream, or its stream takes no data any more.\<close>

lemma in_inv:
  assumes inv: "ep_inv F c e" and input: "input_ok (ep_mux e) (ep_in e) f"
    and dead: "\<And>p. stream_type f \<Longrightarrow> p < length (m_heap (ep_mux e)) \<Longrightarrow> mapped (ep_mux e) p \<Longrightarrow> sm_id (at (ep_mux e) p) = StreamID f \<Longrightarrow>
        sm_closed (at (ep_mux e) p) \<or> sm_remoteWriteClosed (at (ep_mux e) p)"
  shows "ep_inv F c (e\<lparr>ep_in := ep_in e @ [f]\<rparr>)"
proof -
  have "receiver_ok F c (mapped (ep_mux e) p) (p \<in> ep_stopped e) (at (ep_mux e) p) (ep_in e @ [f]) (ep_got e p)"
    if "p < length (m_heap (ep_mux e))" for p
    by (rule receiver_grow [OF inv_parts(2) [OF inv that]]) (use input dead [OF _ that] in \<open>auto simp: input_ok_def\<close>)
  moreover have "role_ok (ep_mux e) (ep_out e) (ep_in e @ [f])"
    using inv input by (intro role_in) (auto simp: ep_inv_def Let_def input_ok_def)
  ultimately show ?thesis using inv unfolding ep_inv_def Let_def by simp
qed

lemma input_ok_same:
  assumes "mux_quiet m m'" and "input_ok m H f"
  shows "input_ok m' H f"
  using assms quiet_ids(2) [OF assms(1)] by (simp add: input_ok_def mux_quiet_def)

lemma in_quiet:
  assumes inv: "ep_inv F c e" and input: "input_ok (ep_mux e) (ep_in e) f" and q: "mux_quiet (ep_mux e) m'"
    and dead: "\<And>p. stream_type f \<Longrightarrow> p < length (m_heap m') \<Longrightarrow> mapped m' p \<Longrightarrow> sm_id (at m' p) = StreamID f \<Longrightarrow>
        sm_closed (at m' p) \<or> sm_remoteWriteClosed (at m' p)"
  shows "ep_inv F c (e\<lparr>ep_mux := m', ep_in := ep_in e @ [f]\<rparr>)"
  using in_inv [OF quiet_inv [OF inv q], of f] input_ok_same [OF q input] dead by (cases e) simp

text \<open>DATA and FIN of a stream that takes them.\<close>

lemma in_stream:
  assumes inv: "ep_inv F c e" and p: "p < length (m_heap (ep_mux e))" and s: "s = at (ep_mux e) p"
    and f: "stream_type f" "StreamID f = sm_id s" and input: "input_ok (ep_mux e) (ep_in e) f"
    and g: "sm_id (g s) = sm_id s" "sm_outbound (g s) = sm_outbound s" "sm_localWriteClosed (g s) = sm_localWriteClosed s" "sm_closed (g s) = sm_closed s"
    and r: "receiver_ok F c (mapped (ep_mux e) p) (p \<in> ep_stopped e) (g s) (ep_in e @ [f]) (ep_got e p)"
  shows "ep_inv F c (e\<lparr>ep_mux := upd p g (ep_mux e), ep_in := ep_in e @ [f]\<rparr>)"
proof -
  let ?m = "ep_mux e" let ?m' = "upd p g ?m"
  have ids: "sm_id (at ?m' q) = sm_id (at ?m q)" for q using p g(1) s(1) by (simp add: at_upd)
  note same = heap_ids_same [of ?m' ?m, OF _ ids, simplified]
  have "role_ok ?m (ep_out e) (ep_in e @ [f])"
    using inv input by (intro role_in) (auto simp: ep_inv_def Let_def input_ok_def)
  then have role: "role_ok ?m' (ep_out e) (ep_in e @ [f])" unfolding role_ok_def by (simp only: upd_simps same(2))
  have "sender_ok F c (at ?m' q) (ep_out e) (ep_wrote e q)
      \<and> receiver_ok F c (mapped ?m' q) (q \<in> ep_stopped e) (at ?m' q) (ep_in e @ [f]) (ep_got e q)" if q: "q < length (m_heap ?m)" for q
  proof (cases "q = p")
    case True
    have "sender_ok F c (g s) (ep_out e) (ep_wrote e p)" using inv_parts(1) [OF inv p] g s by (simp add: sender_ok_def)
    then show ?thesis using True r p s g(1) mapped_upd [of p ?m g q] by (simp add: at_upd)
  next
    case False
    have "sm_id (at ?m q) \<noteq> StreamID f" using inv False q p s f(2) by (auto simp: ep_inv_def Let_def distinct_conv_nth)
    then have "receiver_ok F c (mapped ?m q) (q \<in> ep_stopped e) (at ?m q) (ep_in e @ [f]) (ep_got e q)"
      using receiver_grow [OF inv_parts(2) [OF inv q], of f] by simp
    then show ?thesis using inv_parts(1) [OF inv q] False p s g(1) mapped_upd [of p ?m g q] by (simp add: at_upd)
  qed
  then show ?thesis using inv role same unfolding ep_inv_def Let_def by simp
qed

lemma mapped_of: "mapped m p \<Longrightarrow> sm_id (at m p) = sid \<Longrightarrow> map_of (m_streams m) sid = Some p"
  by (simp add: mapped_def)

lemma receiveData_inv:
  assumes inv: "ep_inv F c e" and ok: "mux_ok (ep_mux e)" and input: "input_ok (ep_mux e) (ep_in e) f"
    and f: "FType f = FrameData" and p: "map_of (m_streams (ep_mux e)) (StreamID f) = Some p"
    and run: "receiveData F (Payload f) p (ep_mux e) = (None, m')"
  shows "ep_inv F c (e\<lparr>ep_mux := m', ep_in := ep_in e @ [f]\<rparr>)"
proof -
  let ?m = "ep_mux e" let ?s = "at ?m p"
  have tab: "table_ok ?m" using ok by (simp add: mux_ok_def)
  then have mem: "p < length (m_heap ?m)" "sm_id ?s = StreamID f"
    using p map_of_streams [OF tab] by (auto simp: table_ok_def)
  have c: "m_compression ?m = c" using inv by (simp add: ep_inv_def Let_def)
  obtain d where d: "(if c then decodeCompressedPayload F (Payload f) else Inr (Payload f)) = Inr d" "\<not> sm_closed ?s" "\<not> sm_remoteWriteClosed ?s"
    and m': "m' = addCompressionRX (of_nat (length d)) (of_nat (length (Payload f)))
      (upd p (\<lambda>s. streamSignal (s\<lparr>sm_receiveWindow := sm_receiveWindow s - of_nat (length d), sm_inbound := sm_inbound s @ d\<rparr>)) ?m)"
    using run unfolding receiveData_def c by (auto simp: Let_def split: sum.splits if_splits)
  let ?g = "\<lambda>s. streamSignal (s\<lparr>sm_receiveWindow := sm_receiveWindow s - of_nat (length d), sm_inbound := sm_inbound s @ d\<rparr>)"
  have fd: "frame_data F c f = d" using f d(1) by (auto simp: frame_data_def)
  have st: "stream_type f" using f by (simp add: stream_type_def)
  have mp: "mapped ?m p" using p mem by (simp add: mapped_def)
  have "data_of F c (stream_frames (StreamID f) (ep_in e)) = ep_got e p @ sm_inbound ?s"
    using inv_parts(2) [OF inv mem(1)] d(2,3) mem(2) mp by (simp add: receiver_ok_def Let_def)
  then have "receiver_ok F c (mapped ?m p) (p \<in> ep_stopped e) (?g ?s) (ep_in e @ [f]) (ep_got e p)"
    using d(2,3) fd st mem(2) by (simp add: receiver_ok_def Let_def streamSignal_def)
  then have "ep_inv F c (e\<lparr>ep_mux := upd p ?g ?m, ep_in := ep_in e @ [f]\<rparr>)"
    using st mem by (intro in_stream [OF inv mem(1) refl _ _ input]) (simp_all add: streamSignal_def)
  then show ?thesis unfolding m' by (rule quiet_in) (rule addCompression_quiet)
qed

lemma receiveFIN_inv:
  assumes inv: "ep_inv F c e" and ok: "mux_ok (ep_mux e)" and input: "input_ok (ep_mux e) (ep_in e) f"
    and f: "FType f = FrameFIN" and p: "map_of (m_streams (ep_mux e)) (StreamID f) = Some p"
  shows "ep_inv F c (e\<lparr>ep_mux := receiveFIN p (ep_mux e), ep_in := ep_in e @ [f]\<rparr>)"
proof -
  let ?m = "ep_mux e" let ?s = "at ?m p"
  have tab: "table_ok ?m" using ok by (simp add: mux_ok_def)
  then have mem: "p < length (m_heap ?m)" "sm_id ?s = StreamID f"
    using p map_of_streams [OF tab] by (auto simp: table_ok_def)
  have st: "stream_type f" "is_FIN f" "frame_data F c f = []" using f by (simp_all add: stream_type_def is_FIN_def frame_data_def frame_types)
  have mp: "mapped ?m p" using p mem by (simp add: mapped_def)
  show ?thesis
  proof (cases "sm_closed ?s")
    case True
    then show ?thesis
      using in_quiet [OF inv input, of ?m] p mapped_of [of ?m] by (cases e) (fastforce simp: receiveFIN_def)
  next
    case False
    let ?g = "\<lambda>s. streamSignal (s\<lparr>sm_remoteWriteClosed := True\<rparr>)"
    have "list_all (\<lambda>g. \<not> is_FIN g) (stream_frames (StreamID f) (ep_in e))" using input st(1) by (simp add: input_ok_def)
    then have "receiver_ok F c (mapped ?m p) (p \<in> ep_stopped e) (?g ?s) (ep_in e @ [f]) (ep_got e p)"
      using inv_parts(2) [OF inv mem(1)] False st mem(2) mp
      by (auto simp: receiver_ok_def Let_def streamSignal_def list_all_iff list_ex_iff)
    then have "ep_inv F c (e\<lparr>ep_mux := upd p ?g ?m, ep_in := ep_in e @ [f]\<rparr>)"
      using st mem by (intro in_stream [OF inv mem(1) refl _ _ input]) (simp_all add: streamSignal_def)
    then show ?thesis using False by (simp add: receiveFIN_def)
  qed
qed

lemma handleStreamFrame_inv:
  assumes inv: "ep_inv F c e" and ok: "mux_ok (ep_mux e)" and input: "input_ok (ep_mux e) (ep_in e) f"
    and p: "map_of (m_streams (ep_mux e)) (StreamID f) = Some p" and run: "handleStreamFrame F f p (ep_mux e) = (r, m')"
  shows "ep_inv F c (e\<lparr>ep_mux := m', ep_in := ep_in e @ [f]\<rparr>)"
proof -
  let ?m = "ep_mux e"
  have tab: "table_ok ?m" using ok by (simp add: mux_ok_def)
  then have pl: "p < length (m_heap ?m)" "in_heap ?m" using p map_of_streams [OF tab] by (auto simp: table_ok_def)
  have other: ?thesis if "\<not> stream_type f" "mux_quiet ?m m'" using in_quiet [OF inv input that(2)] that(1) by blast
  have reset: ?thesis if "Reset p err ?m = (r, m')" for err
  proof -
    have q: "mux_quiet ?m m'" "sm_closed (at m' p)" using Reset_quiet [OF pl that] by blast+
    show ?thesis
    proof (rule in_quiet [OF inv input q(1)])
      fix i assume "mapped m' i" "sm_id (at m' i) = StreamID f"
      then have "map_of (m_streams m') (StreamID f) = Some i" by (simp add: mapped_def)
      then have "map_of (m_streams ?m) (StreamID f) = Some i" using q(1) by (auto simp: mux_quiet_def)
      then show "sm_closed (at m' i) \<or> sm_remoteWriteClosed (at m' i)" using p q(2) by simp
    qed
  qed
  consider (data) "FType f = FrameData" | (window) "FType f = FrameWindowUpdate" | (fin) "FType f = FrameFIN"
    | (else) "\<not> stream_type f" "FType f \<noteq> FrameWindowUpdate" by (auto simp: stream_type_def)
  then show ?thesis
  proof cases
    case data
    obtain o1 m1 where rd: "receiveData F (Payload f) p ?m = (o1, m1)" by fastforce
    have same: "m1 = ?m" if "o1 = Some err" for err
      using rd that by (auto simp: receiveData_def Let_def split: sum.splits if_splits)
    show ?thesis
    proof (cases o1)
      case None
      then have "m' = m1" using run data rd by (simp add: handleStreamFrame_def frame_types)
      then show ?thesis using receiveData_inv [OF inv ok input data p] rd None by simp
    next
      case (Some err)
      then have "Reset p err ?m = (r, m')" using run data rd same by (simp add: handleStreamFrame_def frame_types)
      then show ?thesis by (rule reset)
    qed
  next
    case window
    obtain o1 m1 where uw: "updateSendWindow (WindowAmount f) p ?m = (o1, m1)" by fastforce
    show ?thesis
    proof (cases o1)
      case None
      then have "m' = m1" using run window uw by (simp add: handleStreamFrame_def frame_types)
      then show ?thesis using other updateSendWindow_quiet [OF pl(1) uw] window by (simp add: stream_type_def frame_types)
    next
      case (Some err)
      then have "m1 = ?m" using uw by (simp add: updateSendWindow_def split: if_splits)
      then have "Reset p err ?m = (r, m')" using run window uw Some by (simp add: handleStreamFrame_def frame_types)
      then show ?thesis by (rule reset)
    qed
  next
    case fin
    then have "m' = receiveFIN p ?m" using run by (simp add: handleStreamFrame_def frame_types)
    then show ?thesis using receiveFIN_inv [OF inv ok input fin p] by simp
  next
    case else
    have "mux_quiet ?m m'"
      using run else markOpened_quiet [OF pl(1)] quiet_receiveReset [OF pl(1)] quiet_trans [OF _ quiet_remove]
      by (auto simp: handleStreamFrame_def stream_type_def Let_def split: if_splits)
    then show ?thesis using other else(1) by blast
  qed
qed

lemma handleOpen_inv:
  assumes inv: "ep_inv F c e" and ok: "mux_ok (ep_mux e)" and input: "input_ok (ep_mux e) (ep_in e) f"
    and f: "FType f = FrameOpen" and run: "handleOpen f (ep_mux e) = (r, m')"
  shows "ep_inv F c (e\<lparr>ep_mux := m', ep_in := ep_in e @ [f]\<rparr>)"
proof -
  define m where "m = ep_mux e"
  define sid where "sid = StreamID f"
  have st: "\<not> stream_type f" using f by (simp add: stream_type_def frame_types)
  have heap: "in_heap m" using ok by (simp add: mux_ok_def in_heap_ok m_def)
  have quiet: ?thesis if "mux_quiet m m'" using in_quiet [OF inv input, of m'] that st by (simp add: m_def)
  show ?thesis
  proof (cases "m_client m \<or> even (uint sid) \<or> m_closed m \<or> map_of (m_streams m) sid \<noteq> None")
    case True
    then have "m' = m" using run by (auto simp: handleOpen_def m_def [symmetric] sid_def [symmetric] Let_def split: if_splits)
    then show ?thesis using quiet by simp
  next
    case False
    then have nd: "\<not> m_done m" and srv: "\<not> m_client m" using ok by (auto simp: mux_ok_def ids_ok_def m_def)
    define m1 where "m1 = m\<lparr>m_lastID := max (m_lastID m) sid\<rparr>"
    have q1: "mux_quiet m m1" unfolding m1_def by (rule quiet_fields) (use srv in auto)
    have h1: "in_heap m1" using heap by (simp add: m1_def)
    show ?thesis
    proof (cases "length (m_streams m1) \<ge> m_maxStreams m1")
      case True
      then have "sendControl (mkFrame FrameOpenError sid (bytes_of ''server stream limit reached'')) m1 = (r, m')"
        using run False by (simp add: handleOpen_def m_def [symmetric] sid_def [symmetric] m1_def [symmetric] Let_def)
      then show ?thesis using quiet quiet_trans [OF q1 quiet_control_of [OF _ h1]] by simp
    next
      case few: False
      define p where "p = length (m_heap m1)"
      define s where "s = (newStream sid)\<lparr>sm_service := string_of (Payload f)\<rparr>"
      define m2 where "m2 = m1\<lparr>m_heap := m_heap m1 @ [s], m_streams := gomap_put sid p (m_streams m1)\<rparr>"
      have s: "sm_id s = sid" "sm_outbound s = []" "sm_inbound s = []" "\<not> sm_closed s" "\<not> sm_remoteWriteClosed s"
        by (simp_all add: s_def newStream_def)
      have q2: "mux_quiet m2 m'"
      proof (cases "length (m_accept m2) < acceptCap m2")
        case True
        then have "m' = m2\<lparr>m_accept := m_accept m2 @ [p]\<rparr>"
          using run False few nd by (simp add: handleOpen_def m_def [symmetric] sid_def [symmetric] m1_def [symmetric] p_def [symmetric]
              s_def [symmetric] m2_def [symmetric] Let_def) (simp add: m2_def m1_def)
        then show ?thesis by (auto intro: quiet_fields)
      next
        case full: False
        then have "sendControl (mkFrame FrameOpenError sid (bytes_of ''server accept backlog full'')) (removeStream sid m2) = (r, m')"
          using run False few nd by (simp add: handleOpen_def m_def [symmetric] sid_def [symmetric] m1_def [symmetric] p_def [symmetric]
              s_def [symmetric] m2_def [symmetric] Let_def) (simp add: m2_def m1_def)
        moreover have "in_heap (removeStream sid m2)" using h1 by (force simp: m2_def p_def removeStream_def gomap_put_def)
        ultimately show ?thesis using quiet_trans [OF quiet_remove quiet_control_of] by simp
      qed
      have e1: "ep_inv F c (e\<lparr>ep_mux := m1, ep_in := ep_in e @ [f]\<rparr>)"
        using in_quiet [OF inv input, of m1] q1 st by (simp add: m_def)
      have ids: "heap_ids m1 = heap_ids m" "heap_ids m2 = insert sid (heap_ids m1)"
        using s(1) by (auto simp: heap_ids_def m2_def m1_def)
      have fresh: "sid \<notin> heap_ids m1" "stream_frames sid (ep_in e) = []"
        using input f srv ids(1) by (auto simp: input_ok_def m_def sid_def)
      have "role_ok m1 (ep_out e) (ep_in e @ [f])" using e1 by (simp add: ep_inv_def Let_def)
      then have "role_ok m2 (ep_out e) (ep_in e @ [f])"
        using srv ids(2) f by (auto simp: role_ok_def m2_def m1_def sid_def)
      moreover have "list_all (\<lambda>f. \<not> stream_type f \<and> fits f) (m_control m2)" "m_compression m2 = m_compression m1" "m_client m2 = m_client m1"
        using e1 by (auto simp: ep_inv_def Let_def m2_def)
      ultimately have "ep_inv F c ((e\<lparr>ep_mux := m1, ep_in := ep_in e @ [f]\<rparr>)\<lparr>ep_mux := m2\<rparr>)"
        using s fresh st by (intro add_inv [OF e1, of s]) (simp_all add: m2_def p_def)
      then have "ep_inv F c (e\<lparr>ep_mux := m2, ep_in := ep_in e @ [f]\<rparr>)" by (cases e) simp
      then show ?thesis by (rule quiet_in) (rule q2)
    qed
  qed
qed

lemma handleFrame_inv:
  assumes inv: "ep_inv F c e" and ok: "mux_ok (ep_mux e)" and input: "input_ok (ep_mux e) (ep_in e) f"
    and run: "handleFrame F f (ep_mux e) = (r, m')"
  shows "ep_inv F c (e\<lparr>ep_mux := m', ep_in := ep_in e @ [f]\<rparr>)"
proof -
  let ?m = "ep_mux e"
  have heap: "in_heap ?m" using ok by (simp add: mux_ok_def in_heap_ok)
  consider (list) "FType f = FrameServiceList" | (opn) "FType f = FrameOpen"
    | (unknown) "FType f \<noteq> FrameServiceList" "FType f \<noteq> FrameOpen" "map_of (m_streams ?m) (StreamID f) = None"
    | (known) p where "FType f \<noteq> FrameServiceList" "FType f \<noteq> FrameOpen" "map_of (m_streams ?m) (StreamID f) = Some p"
    by (cases "map_of (m_streams ?m) (StreamID f)") auto
  then show ?thesis
  proof cases
    case list
    then have "handleServiceList f ?m = (r, m')" using run by (simp add: handleFrame_def)
    then have q: "mux_quiet ?m m'" by (rule handleServiceList_quiet)
    have "\<not> stream_type f" using list by (simp add: stream_type_def frame_types)
    then show ?thesis by (intro in_quiet [OF inv input q]) simp
  next
    case opn
    then have "handleOpen f ?m = (r, m')" using run by (simp add: handleFrame_def frame_types)
    then show ?thesis using handleOpen_inv [OF inv ok input opn] by simp
  next
    case unknown
    have q: "mux_quiet ?m m'"
      using run unknown quiet_sendControl [OF heap plain_control(3)]
      by (auto simp: handleFrame_def Let_def split: if_splits)
    have "map_of (m_streams m') (StreamID f) = None"
      using q unknown(3) by (cases "map_of (m_streams m') (StreamID f)") (auto simp: mux_quiet_def)
    then show ?thesis by (intro in_quiet [OF inv input q]) (auto simp: mapped_def)
  next
    case known
    then have "handleStreamFrame F f p ?m = (r, m')" using run by (simp add: handleFrame_def Let_def)
    then show ?thesis using handleStreamFrame_inv [OF inv ok input known(3)] by simp
  qed
qed

section \<open>Events of a session\<close>

datatype mux_event = Silent | Wrote nat bytes | Got nat bytes | Stops nat | Emits Frame | Handles Frame

text \<open>
  The steps of \<open>mux_step\<close> with what they show outside; the writer's step ends with the frame it is about to write, the reader's begins with
  the frame it has read, and a failed read or write ends the session.
\<close>

inductive mux_act :: "flate \<Rightarrow> Mux \<Rightarrow> mux_event \<Rightarrow> Mux \<Rightarrow> bool" for F where
  ac_open: "openServiceBegin service m = (r, m') \<Longrightarrow> mux_act F m Silent m'"
| ac_opened: "p < length (m_heap m) \<Longrightarrow> openServiceEnd p e m = (r, m') \<Longrightarrow> mux_act F m Silent m'"
| ac_accept: "Accept m = (r, m') \<Longrightarrow> mux_act F m Silent m'"
| ac_approve: "p < length (m_heap m) \<Longrightarrow> Approve p m = (e, m') \<Longrightarrow> mux_act F m Silent m'"
| ac_reject: "p < length (m_heap m) \<Longrightarrow> Reject p err m = (e, m') \<Longrightarrow> mux_act F m Silent m'"
| ac_read: "p < length (m_heap m) \<Longrightarrow> Stream_Read n p m = (r, m') \<Longrightarrow>
     mux_act F m (case r of Some (Inr d) \<Rightarrow> Got p d | _ \<Rightarrow> Silent) m'"
| ac_write: "p < length (m_heap m) \<Longrightarrow> Stream_Write F 0 data p m = (n, r, m') \<Longrightarrow> mux_act F m (Wrote p (take n data)) m'"
| ac_closeWrite: "p < length (m_heap m) \<Longrightarrow> CloseWrite p m = (e, m') \<Longrightarrow> mux_act F m Silent m'"
| ac_closeRead: "p < length (m_heap m) \<Longrightarrow> mux_act F m (Stops p) (CloseRead p m)"
| ac_streamClose: "p < length (m_heap m) \<Longrightarrow> Stream_Close p m = (e, m') \<Longrightarrow> mux_act F m Silent m'"
| ac_reset: "p < length (m_heap m) \<Longrightarrow> Reset p err m = (e, m') \<Longrightarrow> mux_act F m Silent m'"
| ac_deadline: "p < length (m_heap m) \<Longrightarrow> mux_act F m Silent (Stream_SetDeadline t p m)"
| ac_readDeadline: "p < length (m_heap m) \<Longrightarrow> mux_act F m Silent (Stream_SetReadDeadline t p m)"
| ac_writeDeadline: "p < length (m_heap m) \<Longrightarrow> mux_act F m Silent (Stream_SetWriteDeadline t p m)"
| ac_services: "Services m = (r, m') \<Longrightarrow> mux_act F m Silent m'"
| ac_close: "mux_act F m Silent (Mux_Close m)"
| ac_fails: "mux_act F m Silent (shutdown e m)"
| ac_writer: "writeSelect m = (w, m') \<Longrightarrow> mux_act F m (case w of WriterEmits f \<Rightarrow> Emits f | _ \<Rightarrow> Silent) m'"
| ac_reader: "Validate f = None \<Longrightarrow> handleFrame F f m = (r, m') \<Longrightarrow>
     mux_act F m (Handles f) (case r of Some e \<Rightarrow> shutdown e m' | None \<Rightarrow> m')"

fun record_event :: "mux_event \<Rightarrow> Mux \<Rightarrow> Endpoint \<Rightarrow> Endpoint" where
  "record_event Silent m e = e\<lparr>ep_mux := m\<rparr>"
| "record_event (Wrote p d) m e = e\<lparr>ep_mux := m, ep_wrote := (ep_wrote e)(p := ep_wrote e p @ d)\<rparr>"
| "record_event (Got p d) m e = e\<lparr>ep_mux := m, ep_got := (ep_got e)(p := ep_got e p @ d)\<rparr>"
| "record_event (Stops p) m e = e\<lparr>ep_mux := m, ep_stopped := insert p (ep_stopped e)\<rparr>"
| "record_event (Emits f) m e = e\<lparr>ep_mux := m, ep_out := ep_out e @ [f]\<rparr>"
| "record_event (Handles f) m e = e\<lparr>ep_mux := m, ep_in := ep_in e @ [f]\<rparr>"

lemma mux_act_ok: "mux_act F m ev m' \<Longrightarrow> mux_ok m \<Longrightarrow> mux_ok m'"
proof (induction rule: mux_act.induct)
  case (ac_fails m e)
  then show ?case by (rule mux_ok_shutdown)
next
  case (ac_writer m w m')
  then show ?case using writeSelect_ok(1) by blast
next
  case (ac_reader f m r m')
  then have "mux_ok m'" using handleFrame_ok(1) by blast
  then show ?case using mux_ok_shutdown by (auto split: option.splits)
qed (auto intro: mux_step_ok mux_step.intros)

lemma mux_act_inv:
  assumes codec: "flate_codec F" and act: "mux_act F m ev m'" and inv: "ep_inv F c e" and m: "ep_mux e = m" and ok: "mux_ok m"
    and input: "\<And>f. ev = Handles f \<Longrightarrow> input_ok m (ep_in e) f"
  shows "ep_inv F c (record_event ev m' e)"
proof -
  have heap: "in_heap m" using ok by (simp add: mux_ok_def in_heap_ok)
  have quiet: "ep_inv F c (e\<lparr>ep_mux := x\<rparr>)" if "mux_quiet m x" for x using quiet_inv [OF inv, of x] that m by simp
  have sd: "mux_quiet m (shutdown x m)" for x using heap by (intro quiet_shutdown) auto
  show ?thesis using act
  proof cases
    case (ac_open service r)
    then show ?thesis using openServiceBegin_inv [OF inv, of service r m'] m ok by simp
  next
    case (ac_opened p err r)
    then have "m' = m \<or> (\<exists>x. m' = snd (Reset p x m))" by (auto simp: openServiceEnd_def split: option.splits)
    then have "mux_quiet m m'" using Reset_quiet [OF ac_opened(2) heap prod.collapse [symmetric]] by auto
    then show ?thesis using quiet ac_opened(1) by simp
  next
    case (ac_read p n r)
    show ?thesis
    proof (cases "\<exists>d. r = Some (Inr d)")
      case True
      then show ?thesis using ac_read readStream_inv [OF inv, of p n] m heap by auto
    next
      case False
      then have "m' = m" using readStream_quiet [OF ac_read(3)] by blast
      moreover have "ev = Silent" using False ac_read(1) by (auto split: option.splits sum.splits)
      ultimately show ?thesis using quiet by simp
    qed
  next
    case (ac_write p data n r)
    then show ?thesis using write_inv [OF codec ac_write(3) ok ac_write(2) inv m] by auto
  next
    case (ac_closeWrite p r)
    then show ?thesis using CloseWrite_inv [OF inv, of p r m'] m heap by simp
  next
    case (ac_closeRead p)
    then show ?thesis using stop_inv [OF inv, of p] m by simp
  next
    case (ac_writer w)
    show ?thesis
    proof (cases w)
      case (WriterEmits f)
      then show ?thesis using ac_writer writeSelect_emit_inv [OF inv, of f m'] m ok by simp
    qed (use ac_writer quiet writeSelect_idle_quiet [OF ok ac_writer(2)] in simp_all)
  next
    case (ac_reader f r m1)
    have h: "ep_inv F c (e\<lparr>ep_mux := m1, ep_in := ep_in e @ [f]\<rparr>)"
      using handleFrame_inv [OF inv, of f r m1] m ok input ac_reader by simp
    have "mux_ok m1" using handleFrame_ok(1) [OF ok] ac_reader by blast
    then have "in_heap m1" by (simp add: mux_ok_def in_heap_ok)
    then have "mux_quiet m1 (shutdown x m1)" for x by (intro quiet_shutdown) auto
    then have "mux_quiet m1 m'" using ac_reader(2) by (cases r) simp_all
    then show ?thesis using quiet_in [OF h] ac_reader(1) by simp
  qed (use quiet sd Accept_quiet Approve_quiet [OF _ heap] Reject_quiet [OF _ heap] Stream_Close_quiet [OF _ heap] Reset_quiet [OF _ heap]
      setDeadline_quiet Services_quiet in \<open>auto simp: Mux_Close_def\<close>)
qed

end
