(* ===== verification/Tunnel.thy ===== *)
theory Tunnel
  imports Mux_Trace Link_Rebind
begin

text \<open>
  The tunnel: two multiplexer sessions, each writing its frames to its link session and reading its peer's frames from
  it, over a network that loses, repeats and reorders packets. The state and the steps of the composition, and the invariant
  from which the transport of a stream's bytes from end to end follows.
\<close>

section \<open>Frames in the byte stream\<close>

definition sendable :: "Frame \<Rightarrow> bool" where
  "sendable f \<longleftrightarrow> Validate f = None \<and> length (Payload f) \<le> MaxDataPayload"

lemma encodeFrame_nonempty: "encodeFrame f \<noteq> []"
  by (simp add: encodeFrame_def)

lemma read_first_frame:
  assumes "ReadFrame r = (Inr f, r')" and "rd_data r @ rest = concat (map encodeFrame frames)" and "list_all sendable frames"
  obtains gs where "frames = f # gs" and "rd_data r' @ rest = concat (map encodeFrame gs)"
proof (cases frames)
  case Nil
  then show ?thesis using assms(2) ReadFrame_Inr [OF assms(1)] encodeFrame_nonempty by auto
next
  case (Cons g gs)
  note got = ReadFrame_Inr [OF assms(1)]
  let ?w = "\<lparr>rd_data = rd_data r @ rest, rd_err = Sentinel EOF\<rparr>"
  have "ReadFrame ?w = (Inr f, ?w\<lparr>rd_data := rd_data r' @ rest\<rparr>)"
    using got by (intro ReadFrame_encodeFrame) auto
  moreover have "ReadFrame ?w = (Inr g, ?w\<lparr>rd_data := concat (map encodeFrame gs)\<rparr>)"
    using assms(2,3) Cons by (intro ReadFrame_encodeFrame) (auto simp: sendable_def)
  ultimately have "f = g" "rd_data r' @ rest = concat (map encodeFrame gs)" by auto
  then show ?thesis using that Cons by blast
qed

section \<open>State and steps\<close>

text \<open>
  \<open>tn_pending\<close> is what the writer has still to write of the frame it is sending, \<open>tn_unread\<close> what the reader has
  taken from the link and not yet decoded.
\<close>

record Tunnel =
  tn_end :: "side \<Rightarrow> Endpoint"
  tn_link :: world
  tn_pending :: "side \<Rightarrow> bytes"
  tn_unread :: "side \<Rightarrow> bytes"

abbreviation tn_mux :: "Tunnel \<Rightarrow> side \<Rightarrow> Mux" where
  "tn_mux t a \<equiv> ep_mux (tn_end t a)"

definition fresh_end :: "Mux \<Rightarrow> Endpoint" where
  "fresh_end m = \<lparr>ep_mux = m, ep_client = m_client m, ep_out = [], ep_in = [], ep_wrote = (\<lambda>p. []), ep_got = (\<lambda>p. []), ep_stopped = {}\<rparr>"

definition tunnel_start :: "world \<Rightarrow> Mux \<Rightarrow> Mux \<Rightarrow> Tunnel" where
  "tunnel_start w client server =
     \<lparr>tn_end = (\<lambda>a. fresh_end (if a = ClientSide then client else server)), tn_link = w,
      tn_pending = (\<lambda>a. []), tn_unread = (\<lambda>a. [])\<rparr>"

text \<open>
  A step of one multiplexer; the writer takes a frame; one critical section of a link session, which may accept bytes of the frame
  being written or hand over received bytes; the reader decodes a frame and handles it.
\<close>

inductive tunnel_step :: "flate \<Rightarrow> Tunnel \<Rightarrow> Tunnel \<Rightarrow> bool" for F where
  tn_local: "mux_act F (tn_mux t a) ev m' \<Longrightarrow> (\<And>f. ev \<noteq> Emits f \<and> ev \<noteq> Handles f) \<Longrightarrow>
     tunnel_step F t (t\<lparr>tn_end := (tn_end t)(a := record_event ev m' (tn_end t a))\<rparr>)"
| tn_send: "tn_pending t a = [] \<Longrightarrow> writeSelect (tn_mux t a) = (WriterEmits f, m') \<Longrightarrow>
     tunnel_step F t (t\<lparr>tn_end := (tn_end t)(a := record_event (Emits f) m' (tn_end t a)),
       tn_pending := (tn_pending t)(a := encodeFrame f)\<rparr>)"
| tn_carry: "link_op (w_net (tn_link t) (other a)) (w_sess (tn_link t) a) wr rd N s' \<Longrightarrow> tn_pending t a = wr @ rest \<Longrightarrow>
     tunnel_step F t (t\<lparr>tn_link := (tn_link t)\<lparr>w_sess := (w_sess (tn_link t))(a := s'),
         w_written := (w_written (tn_link t))(a := w_written (tn_link t) a @ wr),
         w_read := (w_read (tn_link t))(a := w_read (tn_link t) a @ rd),
         w_net := (w_net (tn_link t))(a := w_net (tn_link t) a \<union> N)\<rparr>,
       tn_pending := (tn_pending t)(a := rest), tn_unread := (tn_unread t)(a := tn_unread t a @ rd)\<rparr>)"
| tn_receive: "ReadFrame \<lparr>rd_data = tn_unread t a, rd_err = e\<rparr> = (Inr f, r') \<Longrightarrow> mux_act F (tn_mux t a) (Handles f) m' \<Longrightarrow>
     tunnel_step F t (t\<lparr>tn_end := (tn_end t)(a := record_event (Handles f) m' (tn_end t a)),
       tn_unread := (tn_unread t)(a := rd_data r')\<rparr>)"

definition tunnel_reach :: "flate \<Rightarrow> Tunnel \<Rightarrow> Tunnel \<Rightarrow> bool" where
  "tunnel_reach F = (tunnel_step F)\<^sup>*\<^sup>*"

section \<open>Invariant\<close>

text \<open>What the two ends agree on: each has handled the first frames the other emitted.\<close>

definition ends_ok :: "flate \<Rightarrow> bool \<Rightarrow> (side \<Rightarrow> Endpoint) \<Rightarrow> bool" where
  "ends_ok F c E \<longleftrightarrow>
     (\<forall>a. mux_ok (ep_mux (E a)) \<and> ep_inv F c (E a) \<and> m_client (ep_mux (E a)) = (a = ClientSide)
        \<and> prefix (ep_in (E a)) (ep_out (E (other a))) \<and> list_all (\<lambda>f. Validate f = None) (ep_out (E a)))"

text \<open>The byte streams of the link are the encoded frames.\<close>

definition bytes_ok :: "Tunnel \<Rightarrow> bool" where
  "bytes_ok t \<longleftrightarrow>
     (\<forall>a. w_written (tn_link t) a @ tn_pending t a = concat (map encodeFrame (ep_out (tn_end t a)))
        \<and> w_read (tn_link t) a = concat (map encodeFrame (ep_in (tn_end t a))) @ tn_unread t a)"

definition links_ok :: "world \<Rightarrow> bool" where
  "links_ok w \<longleftrightarrow> (\<exists>sid cfgC cfgS. link_reachable sid cfgC cfgS w \<and> ReplayWindow cfgC < 2 ^ 63 \<and> ReplayWindow cfgS < 2 ^ 63)"

definition tunnel_ok :: "flate \<Rightarrow> bool \<Rightarrow> Tunnel \<Rightarrow> bool" where
  "tunnel_ok F c t \<longleftrightarrow> ends_ok F c (tn_end t) \<and> bytes_ok t \<and> links_ok (tn_link t)"

lemma stream_of_id:
  assumes "i \<in> heap_ids m"
  obtains p where "p < length (m_heap m)" and "sm_id (at m p) = i"
  using assms that by (auto simp: heap_ids_def in_set_conv_nth)

text \<open>The next frame of the peer is one an endpoint may rely on.\<close>

lemma next_input:
  assumes ok: "ends_ok F c E" and n: "prefix (ep_in (E a) @ [f]) (ep_out (E (other a)))"
  shows "input_ok (ep_mux (E a)) (ep_in (E a)) f"
proof -
  let ?b = "other a" let ?m = "ep_mux (E a)" and ?n = "ep_mux (E (other a))" let ?H = "ep_in (E a)"
  have A: "ep_inv F c (E a)" "m_client ?m = (a = ClientSide)"
    and B: "ep_inv F c (E ?b)" "m_client ?n = (?b = ClientSide)" "prefix (ep_in (E ?b)) (ep_out (E a))"
    using ok unfolding ends_ok_def by (metis other_other(1))+
  have f: "f \<in> set (ep_out (E ?b))" using n by (auto elim: prefixE)
  have roleA: "role_ok ?m (ep_out (E a)) ?H" and roleB: "role_ok ?n (ep_out (E ?b)) (ep_in (E ?b))"
    using A(1) B(1) by (simp_all add: ep_inv_def Let_def)
  have fin: "list_all (\<lambda>g. \<not> is_FIN g) (stream_frames (StreamID f) ?H)" if "stream_type f"
  proof -
    have "StreamID f \<in> heap_ids ?n" using B(1) f that by (auto simp: ep_inv_def Let_def)
    then obtain p where p: "p < length (m_heap ?n)" "sm_id (at ?n p) = StreamID f" by (rule stream_of_id)
    obtain Q where Q: "prefix (stream_frames (StreamID f) (ep_out (E ?b))) Q" "fin_last Q"
      using inv_parts(1) [OF B(1) p(1)] p(2) by (auto simp: sender_ok_def dest: append_prefixD)
    have "prefix (stream_frames (StreamID f) ?H @ [f]) Q"
      using prefix_stream_frames [OF n, of "StreamID f"] Q(1) that by (auto intro: prefix_order.trans)
    then show ?thesis using prefix_no_FIN Q(2) by blast
  qed
  have known: "StreamID f \<in> heap_ids ?m" if "stream_type f" "m_client ?m"
  proof -
    have "StreamID f \<in> heap_ids ?n" using B(1) f that(1) by (auto simp: ep_inv_def Let_def)
    moreover have "\<not> m_client ?n" using that(2) A(2) B(2) by (cases a) auto
    ultimately have "StreamID f \<in> set (opens (ep_in (E ?b)))" using roleB by (auto simp: role_ok_def)
    then have "StreamID f \<in> set (opens (ep_out (E a)))" using B(3) by (auto elim!: prefixE)
    then show ?thesis using roleA that(2) by (auto simp: role_ok_def)
  qed
  have first: "StreamID f \<notin> heap_ids ?m \<and> stream_frames (StreamID f) ?H = []" if "FType f = FrameOpen" "\<not> m_client ?m"
  proof -
    obtain rest where out: "ep_out (E ?b) = ?H @ f # rest" using n by (auto elim: prefixE)
    have "m_client ?n" using that(2) A(2) B(2) by (cases a) auto
    then have d: "distinct (opens (ep_out (E ?b)))" and o: "opened_first (ep_out (E ?b))" using roleB by (auto simp: role_ok_def)
    have new: "StreamID f \<notin> set (opens ?H)" using d that(1) by (auto simp: out)
    have "StreamID g \<noteq> StreamID f" if "g \<in> set ?H" "stream_type g" for g
    proof -
      obtain i where i: "i < length ?H" "?H ! i = g" using \<open>g \<in> set ?H\<close> by (auto simp: in_set_conv_nth)
      then have "StreamID g \<in> set (opens (take i ?H))"
        using o that(2) unfolding opened_first_def out by (auto simp: nth_append dest!: spec [of _ i])
      then have "StreamID g \<in> set (opens ?H)" by (auto simp: opens_def dest: in_set_takeD)
      then show ?thesis using new by auto
    qed
    then have "stream_frames (StreamID f) ?H = []" by (auto simp: stream_frames_def filter_empty_conv)
    moreover have "heap_ids ?m \<subseteq> set (opens ?H)" using roleA that(2) by (simp add: role_ok_def)
    ultimately show ?thesis using new by auto
  qed
  show ?thesis unfolding input_ok_def using fin known first by blast
qed

lemma record_event_mux [simp]: "ep_mux (record_event ev m e) = m"
  by (cases ev) simp_all

lemma record_event_frames [simp]:
  "ep_out (record_event ev m e) = ep_out e @ (case ev of Emits f \<Rightarrow> [f] | _ \<Rightarrow> [])"
  "ep_in (record_event ev m e) = ep_in e @ (case ev of Handles f \<Rightarrow> [f] | _ \<Rightarrow> [])"
  by (cases ev; simp)+

lemma record_event_client [simp]: "ep_client (record_event ev m e) = ep_client e"
  by (cases ev) simp_all

lemma ends_event:
  assumes codec: "flate_codec F" and ok: "ends_ok F c E" and act: "mux_act F (ep_mux (E a)) ev m'"
    and emits: "\<And>f. ev = Emits f \<Longrightarrow> Validate f = None"
    and handles: "\<And>f. ev = Handles f \<Longrightarrow> prefix (ep_in (E a) @ [f]) (ep_out (E (other a)))"
  shows "ends_ok F c (E(a := record_event ev m' (E a)))"
proof -
  have A: "mux_ok (ep_mux (E a))" "ep_inv F c (E a)" "m_client (ep_mux (E a)) = (a = ClientSide)"
    using ok by (auto simp: ends_ok_def)
  have inv: "ep_inv F c (record_event ev m' (E a))"
    using mux_act_inv [OF codec act A(2) refl A(1)] next_input [OF ok handles] by blast
  have "m_client m' = m_client (ep_mux (E a))" using inv A(2) by (simp add: ep_inv_def Let_def)
  then have m: "mux_ok m'" "m_client m' = (a = ClientSide)" using mux_act_ok [OF act A(1)] A(3) by simp_all
  show ?thesis unfolding ends_ok_def
  proof (intro allI)
    fix b
    have O: "mux_ok (ep_mux (E b))" "ep_inv F c (E b)" "m_client (ep_mux (E b)) = (b = ClientSide)"
      "prefix (ep_in (E b)) (ep_out (E (other b)))" "list_all (\<lambda>f. Validate f = None) (ep_out (E b))"
      using ok by (auto simp: ends_ok_def)
    show "mux_ok (ep_mux ((E(a := record_event ev m' (E a))) b)) \<and> ep_inv F c ((E(a := record_event ev m' (E a))) b)
      \<and> m_client (ep_mux ((E(a := record_event ev m' (E a))) b)) = (b = ClientSide)
      \<and> prefix (ep_in ((E(a := record_event ev m' (E a))) b)) (ep_out ((E(a := record_event ev m' (E a))) (other b)))
      \<and> list_all (\<lambda>f. Validate f = None) (ep_out ((E(a := record_event ev m' (E a))) b))"
    proof (cases "b = a")
      case True
      have "other a \<noteq> a" by (cases a) simp_all
      then show ?thesis using True O m inv emits handles by (cases ev) auto
    next
      case False
      then have "other b = a" by (cases a; cases b) simp_all
      then show ?thesis using False O by auto
    qed
  qed
qed

lemma other_neq [simp]: "other a \<noteq> a" "a \<noteq> other a"
  by (cases a; simp)+

lemma emitted_sendable:
  assumes "ends_ok F c E"
  shows "list_all sendable (ep_out (E a))"
proof -
  have "\<forall>f \<in> set (ep_out (E a)). fits f \<and> Validate f = None"
    using assms by (auto simp: ends_ok_def ep_inv_def Let_def list_all_iff)
  then show ?thesis using Validate_payload_bound by (auto simp: list_all_iff sendable_def fits_def)
qed

text \<open>The frame the reader decodes is the next one the peer emitted.\<close>

lemma decoded_next:
  assumes ok: "tunnel_ok F c t" and run: "ReadFrame \<lparr>rd_data = tn_unread t a, rd_err = e\<rparr> = (Inr f, r')"
  shows "prefix (ep_in (tn_end t a) @ [f]) (ep_out (tn_end t (other a)))"
    and "tn_unread t a = encodeFrame f @ rd_data r'" and "Validate f = None"
proof -
  let ?b = "other a"
  have ends: "ends_ok F c (tn_end t)" using ok by (simp add: tunnel_ok_def)
  obtain gs where gs: "ep_out (tn_end t ?b) = ep_in (tn_end t a) @ gs" using ends by (auto simp: ends_ok_def elim: prefixE)
  obtain rest where rest: "w_written (tn_link t) ?b = w_read (tn_link t) a @ rest"
    using ok read_prefix_written unfolding tunnel_ok_def links_ok_def by blast
  have "w_written (tn_link t) ?b @ tn_pending t ?b = concat (map encodeFrame (ep_out (tn_end t ?b)))"
    "w_read (tn_link t) a = concat (map encodeFrame (ep_in (tn_end t a))) @ tn_unread t a"
    using ok by (simp_all add: tunnel_ok_def bytes_ok_def)
  then have "tn_unread t a @ (rest @ tn_pending t ?b) = concat (map encodeFrame gs)" using rest gs by simp
  moreover have gsok: "list_all sendable gs" using emitted_sendable [OF ends, of ?b] gs by simp
  ultimately obtain hs where "gs = f # hs"
    using read_first_frame [OF run, of "rest @ tn_pending t ?b" gs] by (auto simp del: append_assoc)
  then show "prefix (ep_in (tn_end t a) @ [f]) (ep_out (tn_end t ?b))" "Validate f = None"
    using gs gsok by (auto simp: sendable_def)
  show "tn_unread t a = encodeFrame f @ rd_data r'" using ReadFrame_Inr [OF run] by simp
qed

lemma bytes_step:
  assumes "bytes_ok t"
    and "\<And>b. w_written (tn_link t') b @ tn_pending t' b
       = w_written (tn_link t) b @ tn_pending t b @ concat (map encodeFrame (out b))"
    and "\<And>b. ep_out (tn_end t' b) = ep_out (tn_end t b) @ out b"
    and "\<And>b. w_read (tn_link t') b = w_read (tn_link t) b @ rd b"
    and "\<And>b. ep_in (tn_end t' b) = ep_in (tn_end t b) @ inp b"
    and "\<And>b. tn_unread t b @ rd b = concat (map encodeFrame (inp b)) @ tn_unread t' b"
  shows "bytes_ok t'"
  using assms unfolding bytes_ok_def by (metis (no_types, lifting) append.assoc concat_append map_append)

lemma links_step:
  assumes "links_ok w" and "link_op (w_net w (other a)) (w_sess w a) wr rd N s'"
  shows "links_ok (w\<lparr>w_sess := (w_sess w)(a := s'), w_written := (w_written w)(a := w_written w a @ wr),
     w_read := (w_read w)(a := w_read w a @ rd), w_net := (w_net w)(a := w_net w a \<union> N)\<rparr>)"
  using assms(1) reach_op [OF _ assms(2)] unfolding links_ok_def link_reachable_def by blast

lemma tunnel_step_ok:
  assumes codec: "flate_codec F" and ok: "tunnel_ok F c t" and step: "tunnel_step F t t'"
  shows "tunnel_ok F c t'"
  using step
proof cases
  case (tn_local a ev m')
  have "ends_ok F c (tn_end t')" using ok ends_event [where E = "tn_end t" and a = a, OF codec _ tn_local(2)] tn_local(1,3) by (auto simp: tunnel_ok_def)
  moreover have "bytes_ok t'"
    using ok tn_local(1,3) by (intro bytes_step [of t t' "\<lambda>b. []" "\<lambda>b. []" "\<lambda>b. []"]) (auto simp: tunnel_ok_def split: mux_event.splits)
  ultimately show ?thesis using ok tn_local(1) by (simp add: tunnel_ok_def)
next
  case (tn_send a f m')
  have act: "mux_act F (tn_mux t a) (Emits f) m'" using ac_writer [OF tn_send(3), of F] by simp
  have "Validate f = None" using ok writeSelect_ok(2) [OF _ tn_send(3)] by (auto simp: tunnel_ok_def ends_ok_def)
  then have "ends_ok F c (tn_end t')" using ok ends_event [where E = "tn_end t" and a = a, OF codec _ act] tn_send(1) by (auto simp: tunnel_ok_def)
  moreover have "bytes_ok t'"
    using ok tn_send(1,2) by (intro bytes_step [of t t' "\<lambda>b. if b = a then [f] else []" "\<lambda>b. []" "\<lambda>b. []"]) (auto simp: tunnel_ok_def)
  ultimately show ?thesis using ok tn_send(1) by (simp add: tunnel_ok_def)
next
  case (tn_carry a wr rd N s' rest)
  have "links_ok (tn_link t')" using ok links_step [OF _ tn_carry(2)] tn_carry(1) by (simp add: tunnel_ok_def)
  moreover have "bytes_ok t'"
    using ok tn_carry(1,3) by (intro bytes_step [of t t' "\<lambda>b. []" "\<lambda>b. if b = a then rd else []" "\<lambda>b. []"]) (auto simp: tunnel_ok_def)
  ultimately show ?thesis using ok tn_carry(1) by (simp add: tunnel_ok_def)
next
  case (tn_receive a e f r' m')
  note next_frame = decoded_next [OF ok tn_receive(2)]
  have "ends_ok F c (tn_end t')" using ok ends_event [where E = "tn_end t" and a = a, OF codec _ tn_receive(3)] next_frame(1) tn_receive(1) by (auto simp: tunnel_ok_def)
  moreover have "bytes_ok t'"
    using ok tn_receive(1) next_frame(2)
    by (intro bytes_step [of t t' "\<lambda>b. []" "\<lambda>b. []" "\<lambda>b. if b = a then [f] else []"]) (auto simp: tunnel_ok_def)
  ultimately show ?thesis using ok tn_receive(1) by (simp add: tunnel_ok_def)
qed

lemma fresh_inv:
  assumes "m_heap m = []" and "m_compression m = c" and "opens (m_control m) = []"
    and "list_all (\<lambda>f. \<not> stream_type f \<and> fits f) (m_control m)"
  shows "ep_inv F c (fresh_end m)"
  using assms by (auto simp: ep_inv_def Let_def fresh_end_def role_ok_def heap_ids_def opened_first_def)

definition tunnel_started :: "flate \<Rightarrow> bool \<Rightarrow> Tunnel \<Rightarrow> bool" where
  "tunnel_started F c t \<longleftrightarrow>
     (\<exists>w nc counterC pickC ns counterS services pickS. links_ok w \<and> w_written w = (\<lambda>a. []) \<and> w_read w = (\<lambda>a. [])
        \<and> length (encodeServices services) \<le> MaxDataPayload
        \<and> t = tunnel_start w (newSession True nc c counterC pickC) (newServerWithServices ns c counterS services pickS))"

lemma tunnel_started_ok:
  assumes "tunnel_started F c t"
  shows "tunnel_ok F c t"
proof -
  obtain w nc counterC pickC ns counterS services pickS where w: "links_ok w" "w_written w = (\<lambda>a. [])" "w_read w = (\<lambda>a. [])"
    and len: "length (encodeServices services) \<le> MaxDataPayload"
    and t: "t = tunnel_start w (newSession True nc c counterC pickC) (newServerWithServices ns c counterS services pickS)"
    using assms by (auto simp: tunnel_started_def)
  let ?c = "newSession True nc c counterC pickC" and ?s = "newServerWithServices ns c counterS services pickS"
  have "mux_ok ?c" "mux_ok ?s" by (rule mux_started_ok, unfold mux_started_def, blast)+
  moreover have "ep_inv F c (fresh_end ?c)" by (rule fresh_inv) (simp_all add: newSession_def Let_def)
  moreover have "ep_inv F c (fresh_end ?s)"
    using len by (intro fresh_inv) (simp_all add: newSession_def newServerWithServices_def Let_def stream_type_def fits_def frame_types)
  moreover have "m_client ?c" "\<not> m_client ?s" by (simp_all add: newSession_def newServerWithServices_def Let_def)
  moreover have "a = ClientSide \<or> a = ServerSide" for a by (cases a) simp_all
  ultimately have "ends_ok F c (tn_end t)" by (auto simp: ends_ok_def t tunnel_start_def fresh_end_def)
  then show ?thesis using w by (simp add: tunnel_ok_def bytes_ok_def t tunnel_start_def fresh_end_def)
qed

lemma tunnel_reach_ok:
  assumes "flate_codec F" and "tunnel_started F c t0" and "tunnel_reach F t0 t"
  shows "tunnel_ok F c t"
  using assms(3) unfolding tunnel_reach_def
  by (induction rule: rtranclp_induct) (use tunnel_started_ok [OF assms(2)] tunnel_step_ok [OF assms(1)] in auto)

text \<open>The two ends of one stream.\<close>

lemma stream_ends:
  assumes ok: "ends_ok F c E" and p: "p < length (m_heap (ep_mux (E a)))" and q: "q < length (m_heap (ep_mux (E (other a))))"
    and sid: "sm_id (at (ep_mux (E a)) p) = sm_id (at (ep_mux (E (other a))) q)"
  shows "prefix (ep_got (E (other a)) q @ sm_inbound (at (ep_mux (E (other a))) q)) (ep_wrote (E a) p)"
    and "sm_remoteWriteClosed (at (ep_mux (E (other a))) q) \<Longrightarrow> q \<notin> ep_stopped (E (other a)) \<Longrightarrow>
      ep_got (E (other a)) q @ sm_inbound (at (ep_mux (E (other a))) q) = ep_wrote (E a) p"
proof -
  let ?b = "other a" let ?s = "at (ep_mux (E a)) p" and ?r = "at (ep_mux (E (other a))) q"
  let ?out = "stream_frames (sm_id ?s) (ep_out (E a))" and ?in = "stream_frames (sm_id ?s) (ep_in (E ?b))"
  have A: "ep_inv F c (E a)" and B: "ep_inv F c (E ?b)" and pre: "prefix (ep_in (E ?b)) (ep_out (E a))"
    using ok unfolding ends_ok_def by (metis other_other(1))+
  obtain Q where Q: "prefix (?out @ sm_outbound ?s) Q" "fin_last Q" "data_of F c Q = ep_wrote (E a) p"
    using inv_parts(1) [OF A p] by (auto simp: sender_ok_def)
  have R: "receiver_ok F c (mapped (ep_mux (E ?b)) q) (q \<in> ep_stopped (E ?b)) ?r (ep_in (E ?b)) (ep_got (E ?b) q)"
    by (rule inv_parts(2) [OF B q])
  have io: "prefix ?in Q" using prefix_stream_frames [OF pre] Q(1) by (auto intro: prefix_order.trans dest: append_prefixD)
  have "prefix (ep_got (E ?b) q @ sm_inbound ?r) (data_of F c ?in)" using R sid by (simp add: receiver_ok_def Let_def)
  then show "prefix (ep_got (E ?b) q @ sm_inbound ?r) (ep_wrote (E a) p)"
    using prefix_data_of [OF io, of F c] Q(3) by (auto intro: prefix_order.trans)
  show "ep_got (E ?b) q @ sm_inbound ?r = ep_wrote (E a) p" if "sm_remoteWriteClosed ?r" "q \<notin> ep_stopped (E ?b)"
  proof -
    have "ep_got (E ?b) q @ sm_inbound ?r = data_of F c ?in" "list_ex is_FIN ?in"
      using R sid that by (simp_all add: receiver_ok_def Let_def)
    moreover have "?in = Q" using fin_prefix [OF io Q(2)] calculation(2) by (auto simp: list_ex_iff)
    ultimately show ?thesis using Q(3) by simp
  qed
qed

end
