(* ===== verification/Tunnel_Run.thy ===== *)
theory Tunnel_Run
  imports Tunnel
begin

text \<open>
  One run of the tunnel, from the first OPEN to the end of a stream: the client opens a stream, the server approves it,
  writes three bytes and closes its half, the frames cross the link in two packets, the client reads. The run shows that
  the states the theorems about the tunnel speak of are reached.
\<close>

section \<open>Steps\<close>

definition tn_view :: "Tunnel \<Rightarrow> (side \<Rightarrow> Endpoint) \<times> (side \<Rightarrow> Session) \<times> (side \<Rightarrow> bytes) \<times> (side \<Rightarrow> bytes)" where
  "tn_view t = (tn_end t, w_sess (tn_link t), tn_pending t, tn_unread t)"

lemma step_reach: "tunnel_reach F t0 t \<Longrightarrow> tunnel_step F t t' \<Longrightarrow> tunnel_reach F t0 t'"
  by (simp add: tunnel_reach_def)

lemma run_local:
  assumes "tunnel_reach F t0 t" and "tn_view t = (E, S, P, U)" and "mux_act F (ep_mux (E a)) ev m'"
    and "\<And>f. ev \<noteq> Emits f \<and> ev \<noteq> Handles f"
  obtains t' where "tunnel_reach F t0 t'" and "tn_view t' = (E(a := record_event ev m' (E a)), S, P, U)"
proof -
  have "mux_act F (tn_mux t a) ev m'" using assms(2,3) by (auto simp: tn_view_def)
  from that [OF step_reach [OF assms(1) tn_local [OF this assms(4)]]] show ?thesis using assms(2) by (simp add: tn_view_def)
qed

lemma run_emit:
  assumes "tunnel_reach F t0 t" and "tn_view t = (E, S, P, U)" and "P a = []"
    and "writeSelect (ep_mux (E a)) = (WriterEmits f, m')"
    and "Write 0 (encodeFrame f) (S a) = (length (encodeFrame f), WriteDone, s')"
  obtains t' where "tunnel_reach F t0 t'" and "tn_view t' = (E(a := record_event (Emits f) m' (E a)), S(a := s'), P, U)"
proof -
  have v: "tn_end t = E" "w_sess (tn_link t) = S" "tn_pending t = P" "tn_unread t = U" using assms(2) by (simp_all add: tn_view_def)
  define t1 where "t1 = t\<lparr>tn_end := (tn_end t)(a := record_event (Emits f) m' (tn_end t a)), tn_pending := (tn_pending t)(a := encodeFrame f)\<rparr>"
  have r1: "tunnel_reach F t0 t1" unfolding t1_def by (rule step_reach [OF assms(1) tn_send]) (use assms(3,4) v in simp_all)
  have "link_op (w_net (tn_link t1) (other a)) (w_sess (tn_link t1) a) (take (length (encodeFrame f)) (encodeFrame f)) [] {} s'"
    by (rule link_op.op_write) (use assms(5) v in \<open>simp add: t1_def\<close>)
  from step_reach [OF r1 tn_carry [OF this, of "[]"]] that show ?thesis
    using v assms(3) by (auto simp: t1_def tn_view_def fun_upd_idem)
qed

lemma run_cross:
  assumes "tunnel_reach F t0 t" and "tn_view t = (E, S, P, U)"
    and "sendStep g now (S a) = (Some (Inr (Some pk)), s1)" and "receiveStep g' (RecvPacket pk) now' (S (other a)) = (True, eff, s2)"
    and "Read n s2 = (Some (Inr bs), s3)"
  obtains t' where "tunnel_reach F t0 t'" and "tn_view t' = (E, S(a := s1, other a := s3), P, U(other a := U (other a) @ bs))"
proof -
  let ?b = "other a"
  have v: "tn_end t = E" "w_sess (tn_link t) = S" "tn_pending t = P" "tn_unread t = U" using assms(2) by (simp_all add: tn_view_def)
  have "link_op (w_net (tn_link t) ?b) (w_sess (tn_link t) a) [] [] {pk} s1"
    using link_op.op_send [OF assms(3)] v by simp
  from step_reach [OF assms(1) tn_carry [OF this]]
  obtain t1 where t1: "tunnel_reach F t0 t1" "tn_view t1 = (E, S(a := s1), P, U)" "pk \<in> w_net (tn_link t1) a"
    using v by (fastforce simp: tn_view_def)
  have "link_op (w_net (tn_link t1) (other ?b)) (w_sess (tn_link t1) ?b) [] [] {} s2"
    by (rule link_op.op_receive [where ev = "RecvPacket pk"]) (use assms(4) t1 in \<open>auto simp: tn_view_def\<close>)
  from step_reach [OF t1(1) tn_carry [OF this]]
  obtain t2 where t2: "tunnel_reach F t0 t2" "tn_view t2 = (E, S(a := s1, ?b := s2), P, U)"
    using t1(2) by (fastforce simp: tn_view_def)
  have "link_op (w_net (tn_link t2) (other ?b)) (w_sess (tn_link t2) ?b) [] bs {} s3"
    using link_op.op_read [of n s2 _ s3] assms(5) t2(2) by (fastforce simp: tn_view_def)
  from step_reach [OF t2(1) tn_carry [OF this, of "tn_pending t2 ?b"]] that show ?thesis
    using t2(2) by (auto simp: tn_view_def)
qed

lemma run_decode:
  assumes "tunnel_reach F t0 t" and "tn_view t = (E, S, P, U)" and "U a = encodeFrame f @ rest"
    and "sendable f" and "handleFrame F f (ep_mux (E a)) = (None, m')"
  obtains t' where "tunnel_reach F t0 t'" and "tn_view t' = (E(a := record_event (Handles f) m' (E a)), S, P, U(a := rest))"
proof -
  let ?r = "\<lparr>rd_data = U a, rd_err = Sentinel EOF\<rparr>"
  have v: "tn_end t = E" "w_sess (tn_link t) = S" "tn_pending t = P" "tn_unread t = U" using assms(2) by (simp_all add: tn_view_def)
  have f: "Validate f = None" "length (Payload f) \<le> MaxDataPayload" using assms(4) by (simp_all add: sendable_def)
  have read: "ReadFrame \<lparr>rd_data = tn_unread t a, rd_err = Sentinel EOF\<rparr> = (Inr f, ?r\<lparr>rd_data := rest\<rparr>)"
    using ReadFrame_encodeFrame [OF f, of ?r rest] assms(3) v by simp
  have "mux_act F (tn_mux t a) (Handles f) m'" using ac_reader [OF f(1) assms(5)] v by simp
  from step_reach [OF assms(1) tn_receive [OF read this]] that show ?thesis using v by (auto simp: tn_view_def)
qed

section \<open>The link sessions\<close>

text \<open>The client has sent \<open>tx\<close>; the server has received twelve bytes and written \<open>tx\<close>.\<close>

definition run_client :: "bytes \<Rightarrow> Session" where
  "run_client tx = demo_bound\<lparr>txBuf := tx, txNext := 12, s_notify := 2,
     current := Some (demo_binding\<lparr>b_sendNext := 12, b_retransmitAt := 2 + retransmitInterval\<rparr>)\<rparr>"

definition run_server :: "bytes \<Rightarrow> bytes \<Rightarrow> nat \<Rightarrow> Session" where
  "run_server rx tx k = demo_bound\<lparr>rxBuf := rx, rxNext := 12, txBuf := tx, txNext := of_nat (length tx),
     current := Some (demo_binding\<lparr>b_lastRX := 3\<rparr>), ackDirty := True, ackPackets := 1, ackDeadline := 3 + ackMaxDelay, s_notify := k,
     s_stats := zeroStats\<lparr>st_dataRXPackets := st_dataRXPackets zeroStats + 1, st_dataRXBytes := st_dataRXBytes zeroStats + 12\<rparr>\<rparr>"

lemma client_Write: "length u = 12 \<Longrightarrow> Write 0 u demo_bound = (12, WriteDone, demo_bound\<lparr>txBuf := u, txNext := 12, s_notify := 2\<rparr>)"
  by (cases u) (auto simp: Write.simps writeSpace_def demo_simps liveWriteWindow_def signalLocked_def Let_def)

lemma client_sendStep:
  "length u = 12 \<Longrightarrow> sendStep 1 2 (demo_bound\<lparr>txBuf := u, txNext := 12, s_notify := 2\<rparr>) = (Some (Inr (Some (dataPacket 0 u))), run_client u)"
  by (simp add: sendStep_def nextPacketLocked_def demo_simps resetCursor_def retransmitDue_def nextDataLocked_def run_client_def
      flight_consts go_slice_int_def go_slice_def dataPacket_def Let_def)

lemma server_receiveStep: "length u = 12 \<Longrightarrow> receiveStep 1 (RecvPacket (dataPacket 0 u)) 3 demo_bound = (True, [], run_server u [] 3)"
  by (simp add: receiveStep_def handlePacket_def dispatchPacket_def handleData_def acceptDataLocked_def deliverInOrder_def run_server_def
      drainPending.simps demo_simps dataPacket_def scheduleAck_def signalLocked_def part_def codec packet_types Let_def)

lemma server_Read: "length u = 12 \<Longrightarrow> Read 12 (run_server u [] 3) = (Some (Inr u), run_server [] [] 4)"
  by (cases u) (auto simp: Read_def run_server_def signalLocked_def)

lemma server_Write:
  assumes "bs \<noteq> []" and "length tx + length bs \<le> 64"
  shows "Write 0 bs (run_server [] tx k) = (length bs, WriteDone, run_server [] (tx @ bs) (k + 1))"
proof -
  have "uint (of_nat (length tx) :: u64) = int (length tx)" using assms(2) by (simp add: unsigned_of_nat take_bit_nat_eq_self)
  then show ?thesis using assms
    by (cases bs) (auto simp: Write.simps writeSpace_def demo_simps run_server_def liveWriteWindow_def signalLocked_def Let_def)
qed

lemma server_sendStep:
  "length tx = 41 \<Longrightarrow> \<exists>s. sendStep 1 4 (run_server [] tx k) = (Some (Inr (Some (dataPacket 0 tx))), s)"
  by (simp add: sendStep_def nextPacketLocked_def demo_simps resetCursor_def retransmitDue_def nextDataLocked_def run_server_def
      flight_consts go_slice_int_def go_slice_def dataPacket_def ackMaxDelay_def ackBatchPackets_def millisecond_def Let_def)

lemma client_receiveStep:
  "length tx = 41 \<Longrightarrow> \<exists>eff s s'. receiveStep 1 (RecvPacket (dataPacket 0 tx)) 5 (run_client u) = (True, eff, s) \<and> Read 41 s = (Some (Inr tx), s')"
  by (simp add: receiveStep_def handlePacket_def dispatchPacket_def handleData_def acceptDataLocked_def deliverInOrder_def run_client_def
      drainPending.simps demo_simps dataPacket_def scheduleAck_def signalLocked_def part_def codec packet_types Read_def Let_def) auto

section \<open>The multiplexers\<close>

definition fOpen :: Frame where "fOpen = mkFrame FrameOpen 1 (bytes_of ''web'')"
definition fList :: Frame where "fList = mkFrame FrameServiceList 0 (encodeServices [])"
definition fOK :: Frame where "fOK = mkFrame FrameOpenOK 1 []"
definition fData :: Frame where "fData = mkFrame FrameData 1 [1, 2, 3]"
definition fFIN :: Frame where "fFIN = mkFrame FrameFIN 1 []"

lemma frame_lengths:
  "length (encodeFrame fOpen) = 12" "length (encodeFrame fList) = 11" "length (encodeFrame fOK) = 9"
  "length (encodeFrame fData) = 12" "length (encodeFrame fFIN) = 9"
  by (simp_all add: fOpen_def fList_def fOK_def fData_def fFIN_def length_encodeFrame HeaderSize_def encodeServices_def codec)

lemma frames_sendable: "sendable fOpen" "sendable fList" "sendable fOK" "sendable fData" "sendable fFIN"
  by (simp_all add: sendable_def fOpen_def fList_def fOK_def fData_def fFIN_def Validate_def frame_types frame_consts encodeServices_def
      bytes_of_def maxServiceName_def codec)

definition run_c0 :: Mux where "run_c0 = newSession True 4 False None (\<lambda>_. False)"
definition run_c1 :: Mux where "run_c1 = snd (openServiceBegin ''web'' run_c0)"
definition run_c2 :: Mux where "run_c2 = snd (writeSelect run_c1)"
definition run_c3 :: Mux where "run_c3 = snd (handleFrame stored fList run_c2)"
definition run_c4 :: Mux where "run_c4 = snd (handleFrame stored fOK run_c3)"
definition run_c5 :: Mux where "run_c5 = snd (handleFrame stored fData run_c4)"
definition run_c6 :: Mux where "run_c6 = snd (handleFrame stored fFIN run_c5)"
definition run_c7 :: Mux where "run_c7 = snd (Stream_Read 10 0 run_c6)"

definition run_s0 :: Mux where "run_s0 = newServerWithServices 4 False None [] (\<lambda>_. False)"
definition run_s1 :: Mux where "run_s1 = snd (handleFrame stored fOpen run_s0)"
definition run_s2 :: Mux where "run_s2 = snd (Approve 0 run_s1)"
definition run_s3 :: Mux where "run_s3 = snd (snd (Stream_Write stored 0 [1, 2, 3] 0 run_s2))"
definition run_s4 :: Mux where "run_s4 = snd (CloseWrite 0 run_s3)"
definition run_s5 :: Mux where "run_s5 = snd (writeSelect run_s4)"
definition run_s6 :: Mux where "run_s6 = snd (writeSelect run_s5)"
definition run_s7 :: Mux where "run_s7 = snd (writeSelect run_s6)"
definition run_s8 :: Mux where "run_s8 = snd (writeSelect run_s7)"

lemmas mux_run_simps = newSession_def newStream_def streamSignal_def upd_def controlCap_def readyCap_def acceptCap_def acceptBacklogFactor_def
  gomap_put_def gomap_del_def frame_consts window_value sendControl_def schedule_def Let_def

lemma run_c1_eq:
  "openServiceBegin ''web'' run_c0 = (Inr 0, run_c1)"
  "run_c1 = run_c0\<lparr>m_nextID := 3, m_lastID := 1, m_heap := [newStream 1], m_streams := [(1, 0)], m_control := [fOpen]\<rparr>"
  by (simp_all add: run_c1_def run_c0_def openServiceBegin_def maxServiceName_def fOpen_def mux_run_simps)

lemma run_c2_eq: "writeSelect run_c1 = (WriterEmits fOpen, run_c2)" "run_c2 = run_c1\<lparr>m_control := []\<rparr>"
  by (simp_all add: run_c2_def run_c1_eq(2) run_c0_def newSession_def writeSelect_def)

lemma run_s1_eq:
  "handleFrame stored fOpen run_s0 = (None, run_s1)"
  "run_s1 = run_s0\<lparr>m_lastID := 1, m_heap := [(newStream 1)\<lparr>sm_service := ''web''\<rparr>], m_streams := [(1, 0)], m_accept := [0]\<rparr>"
  using string_of_bytes_of [of "''web''"]
  by (simp_all add: run_s1_def run_s0_def newServerWithServices_def handleFrame_def handleOpen_def fOpen_def frame_types mux_run_simps)

lemma run_s2_eq:
  "Approve 0 run_s1 = (None, run_s2)"
  "run_s2 = run_s1\<lparr>m_heap := [(newStream 1)\<lparr>sm_service := ''web'', sm_opened := True, sm_notify := 1\<rparr>], m_control := [fList, fOK]\<rparr>"
  by (simp_all add: run_s2_def run_s1_eq(2) run_s0_def newServerWithServices_def Approve_def fList_def fOK_def mux_run_simps)

text \<open>The server's stream after the write and the half close, with the frames it still queues.\<close>

definition run_stream :: "nat \<Rightarrow> bool \<Rightarrow> Frame list \<Rightarrow> Stream" where
  "run_stream k closed fs = (newStream 1)\<lparr>sm_service := ''web'', sm_opened := True, sm_sendWindow := InitialStreamWindow - 3,
     sm_localWriteClosed := closed, sm_outbound := fs, sm_scheduled := (fs \<noteq> []), sm_notify := k\<rparr>"

lemma run_s3_eq:
  "Stream_Write stored 0 [1, 2, 3] 0 run_s2 = (3, WriteDone, run_s3)"
  "run_s3 = run_s2\<lparr>m_heap := [run_stream 1 False [fData]], m_ready := [1]\<rparr>"
  by (simp_all add: run_s3_def run_s2_eq(2) run_s1_eq(2) run_s0_def newServerWithServices_def Stream_Write.simps(2) writeChunk_def encodeChunk_def
      enqueueAndSchedule_def enqueueLocked_def addCompressionTX_def word_less_nat_alt run_stream_def fData_def mux_run_simps)

lemma run_s4_eq:
  "CloseWrite 0 run_s3 = (None, run_s4)"
  "run_s4 = run_s3\<lparr>m_heap := [run_stream 2 True [fData, fFIN]]\<rparr>"
  by (simp_all add: run_s4_def run_s3_eq(2) run_s2_eq(2) run_s1_eq(2) run_s0_def newServerWithServices_def CloseWrite_def
      enqueueLocked_def run_stream_def fFIN_def mux_run_simps)

lemma run_s5_eq: "writeSelect run_s4 = (WriterEmits fList, run_s5)" "run_s5 = run_s4\<lparr>m_control := [fOK]\<rparr>"
  by (simp_all add: run_s5_def run_s4_eq(2) run_s3_eq(2) run_s2_eq(2) run_s1_eq(2) run_s0_def newServerWithServices_def newSession_def writeSelect_def Let_def)

lemma run_s6_eq: "writeSelect run_s5 = (WriterEmits fOK, run_s6)" "run_s6 = run_s5\<lparr>m_control := []\<rparr>"
  by (simp_all add: run_s6_def run_s5_eq(2) run_s4_eq(2) run_s3_eq(2) run_s2_eq(2) run_s1_eq(2) run_s0_def newServerWithServices_def newSession_def writeSelect_def Let_def)

lemma run_s7_eq:
  "writeSelect run_s6 = (WriterEmits fData, run_s7)" "run_s7 = run_s6\<lparr>m_heap := [run_stream 2 True [fFIN]]\<rparr>"
  by (simp_all add: run_s7_def run_s6_eq(2) run_s5_eq(2) run_s4_eq(2) run_s3_eq(2) run_s2_eq(2) run_s1_eq(2) run_s0_def newServerWithServices_def
      writeSelect_def nextOutbound_def run_stream_def mux_run_simps)

lemma run_s8_eq:
  "writeSelect run_s7 = (WriterEmits fFIN, run_s8)" "run_s8 = run_s7\<lparr>m_heap := [run_stream 2 True []], m_ready := []\<rparr>"
  by (simp_all add: run_s8_def run_s7_eq(2) run_s6_eq(2) run_s5_eq(2) run_s4_eq(2) run_s3_eq(2) run_s2_eq(2) run_s1_eq(2) run_s0_def
      newServerWithServices_def writeSelect_def nextOutbound_def run_stream_def mux_run_simps)

definition run_reader :: "nat \<Rightarrow> u32 \<Rightarrow> bool \<Rightarrow> bytes \<Rightarrow> Stream" where
  "run_reader k window fin bs = (newStream 1)\<lparr>sm_opened := True, sm_receiveWindow := window, sm_remoteWriteClosed := fin,
     sm_inbound := bs, sm_notify := k\<rparr>"

lemma run_c3_eq:
  "handleFrame stored fList run_c2 = (None, run_c3)" "run_c3 = run_c2\<lparr>m_servicesReady := True\<rparr>"
  using services_decoded [of "[]"]
  by (simp_all add: run_c3_def run_c2_eq(2) run_c1_eq(2) run_c0_def handleFrame_def handleServiceList_def fList_def frame_types mux_run_simps)

lemma run_c4_eq:
  "handleFrame stored fOK run_c3 = (None, run_c4)" "run_c4 = run_c3\<lparr>m_heap := [run_reader 1 InitialStreamWindow False []]\<rparr>"
  by (simp_all add: run_c4_def run_c3_eq(2) run_c2_eq(2) run_c1_eq(2) run_c0_def handleFrame_def handleStreamFrame_def markOpened_def fOK_def frame_types
      run_reader_def mux_run_simps)

lemma run_c5_eq:
  "handleFrame stored fData run_c4 = (None, run_c5)" "run_c5 = run_c4\<lparr>m_heap := [run_reader 2 (InitialStreamWindow - 3) False [1, 2, 3]]\<rparr>"
  by (simp_all add: run_c5_def run_c4_eq(2) run_c3_eq(2) run_c2_eq(2) run_c1_eq(2) run_c0_def handleFrame_def handleStreamFrame_def receiveData_def
      fData_def frame_types run_reader_def addCompressionRX_def InitialStreamWindow_def mux_run_simps)

lemma run_c6_eq:
  "handleFrame stored fFIN run_c5 = (None, run_c6)" "run_c6 = run_c5\<lparr>m_heap := [run_reader 3 (InitialStreamWindow - 3) True [1, 2, 3]]\<rparr>"
  by (simp_all add: run_c6_def run_c5_eq(2) run_c4_eq(2) run_c3_eq(2) run_c2_eq(2) run_c1_eq(2) run_c0_def handleFrame_def handleStreamFrame_def receiveFIN_def
      fFIN_def frame_types run_reader_def mux_run_simps)

lemma run_c7_eq:
  "Stream_Read 10 0 run_c6 = (Some (Inr [1, 2, 3]), run_c7)"
  "sm_id (at run_c7 0) = 1" "m_heap run_c7 = [at run_c7 0]" "fst (Stream_Read 10 0 run_c7) = Some (Inl (Sentinel EOF))" "\<not> sm_closed (at run_c7 0)"
  by (simp_all add: run_c7_def run_c6_eq(2) run_c5_eq(2) run_c4_eq(2) run_c3_eq(2) run_c2_eq(2) run_c1_eq(2) run_c0_def Stream_Read_def
      run_reader_def windowUpdateThreshold_def InitialStreamWindow_def mux_run_simps)

section \<open>The run\<close>

lemma run_up:
  assumes "w_sess w = (\<lambda>a. demo_bound)" and "t0 = tunnel_start w run_c0 run_s0"
  obtains t E S where "tunnel_reach stored t0 t" and "tn_view t = (E, S, \<lambda>a. [], \<lambda>a. [])"
    and "ep_mux (E ClientSide) = run_c2" and "ep_mux (E ServerSide) = run_s1" and "S ClientSide = run_client (encodeFrame fOpen)"
    and "S ServerSide = run_server [] [] 4" and "ep_wrote (E ServerSide) 0 = []" and "ep_got (E ClientSide) 0 = []" and "ep_stopped (E ClientSide) = {}"
proof -
  let ?a = ClientSide and ?F = stored
  let ?E0 = "\<lambda>a. fresh_end (if a = ClientSide then run_c0 else run_s0)"
  have r0: "tunnel_reach ?F t0 t0" by (simp add: tunnel_reach_def)
  have v0: "tn_view t0 = (?E0, \<lambda>a. demo_bound, \<lambda>a. [], \<lambda>a. [])" using assms by (simp add: tn_view_def tunnel_start_def)
  have "mux_act ?F (ep_mux (?E0 ?a)) Silent run_c1" using ac_open [OF run_c1_eq(1)] by (simp add: fresh_end_def)
  from run_local [OF r0 v0 this] obtain t1 where t1: "tunnel_reach ?F t0 t1"
    "tn_view t1 = (?E0(?a := record_event Silent run_c1 (?E0 ?a)), \<lambda>a. demo_bound, \<lambda>a. [], \<lambda>a. [])" by auto
  define E1 where "E1 = ?E0(?a := record_event Silent run_c1 (?E0 ?a))"
  define E2 where "E2 = E1(?a := record_event (Emits fOpen) run_c2 (E1 ?a))"
  have "Write 0 (encodeFrame fOpen) demo_bound
      = (length (encodeFrame fOpen), WriteDone, demo_bound\<lparr>txBuf := encodeFrame fOpen, txNext := 12, s_notify := 2\<rparr>)"
    using client_Write [OF frame_lengths(1)] frame_lengths(1) by simp
  from run_emit [where a = ?a and m' = run_c2, OF t1 [folded E1_def] _ _ this] run_c2_eq(1) obtain t2 where t2: "tunnel_reach ?F t0 t2"
    "tn_view t2 = (E2, (\<lambda>a. demo_bound)(?a := demo_bound\<lparr>txBuf := encodeFrame fOpen, txNext := 12, s_notify := 2\<rparr>), \<lambda>a. [], \<lambda>a. [])"
    unfolding E2_def by (auto simp: E1_def)
  define S3 where "S3 = (\<lambda>a. demo_bound)(ClientSide := run_client (encodeFrame fOpen), ServerSide := run_server [] [] 4)"
  note link = client_sendStep [OF frame_lengths(1)] server_receiveStep [OF frame_lengths(1)] server_Read [OF frame_lengths(1)]
  from run_cross [OF t2, of 1 2 ?a "dataPacket 0 (encodeFrame fOpen)" "run_client (encodeFrame fOpen)" 1 3 "[]" "run_server (encodeFrame fOpen) [] 3" 12
      "encodeFrame fOpen" "run_server [] [] 4"] link
  obtain t3 where t3: "tunnel_reach ?F t0 t3"
    "tn_view t3 = (E2, S3, \<lambda>a. [], (\<lambda>a. [])(ServerSide := encodeFrame fOpen))" unfolding S3_def by auto
  have "handleFrame stored fOpen (ep_mux (E2 ServerSide)) = (None, run_s1)" using run_s1_eq(1) by (simp add: E2_def E1_def fresh_end_def)
  from run_decode [OF t3 _ frames_sendable(1) this, of "[]"] obtain t4 where t4: "tunnel_reach ?F t0 t4"
    "tn_view t4 = (E2(ServerSide := record_event (Handles fOpen) run_s1 (E2 ServerSide)), S3, \<lambda>a. [], (\<lambda>a. [])(ServerSide := encodeFrame fOpen, ServerSide := []))"
    by auto
  moreover have "(\<lambda>a. [])(ServerSide := encodeFrame fOpen, ServerSide := []) = (\<lambda>a. [])" by auto
  ultimately show ?thesis
    by (intro that [OF t4(1), of "E2(ServerSide := record_event (Handles fOpen) run_s1 (E2 ServerSide))" S3])
      (simp_all add: E2_def E1_def S3_def fresh_end_def)
qed

lemma run_emit_server:
  assumes "tunnel_reach stored t0 t" and "tn_view t = (E, S, \<lambda>a. [], \<lambda>a. [])" and "S ServerSide = run_server [] tx k"
    and "ep_mux (E ServerSide) = m" and "writeSelect m = (WriterEmits f, m')" and "length tx + length (encodeFrame f) \<le> 64"
  obtains t' where "tunnel_reach stored t0 t'"
    and "tn_view t' = (E(ServerSide := record_event (Emits f) m' (E ServerSide)), S(ServerSide := run_server [] (tx @ encodeFrame f) (k + 1)), \<lambda>a. [], \<lambda>a. [])"
proof -
  have "Write 0 (encodeFrame f) (S ServerSide) = (length (encodeFrame f), WriteDone, run_server [] (tx @ encodeFrame f) (k + 1))"
    unfolding assms(3) using assms(6) by (intro server_Write) (simp_all add: encodeFrame_nonempty)
  from run_emit [where a = ServerSide and m' = m', OF assms(1,2) _ _ this] assms(4,5) that show ?thesis by auto
qed

lemma run_reply:
  assumes w: "w_sess w = (\<lambda>a. demo_bound)" and t0: "t0 = tunnel_start w run_c0 run_s0"
  obtains t E S where "tunnel_reach stored t0 t" and "tn_view t = (E, S, \<lambda>a. [], \<lambda>a. [])" and "S ClientSide = run_client (encodeFrame fOpen)"
    and "S ServerSide = run_server [] (encodeFrame fList @ encodeFrame fOK @ encodeFrame fData @ encodeFrame fFIN) 8"
    and "ep_mux (E ServerSide) = run_s8" and "ep_wrote (E ServerSide) 0 = [1, 2, 3]" and "ep_mux (E ClientSide) = run_c2"
    and "ep_got (E ClientSide) 0 = []" and "ep_stopped (E ClientSide) = {}"
proof -
  let ?s = ServerSide and ?c = ClientSide
  obtain t E S where up: "tunnel_reach stored t0 t" "tn_view t = (E, S, \<lambda>a. [], \<lambda>a. [])"
    and E: "ep_mux (E ?c) = run_c2" "ep_mux (E ?s) = run_s1" "ep_wrote (E ?s) 0 = []" "ep_got (E ?c) 0 = []" "ep_stopped (E ?c) = {}"
    and S: "S ?c = run_client (encodeFrame fOpen)" "S ?s = run_server [] [] 4"
    by (rule run_up [OF w t0])
  have heap: "0 < length (m_heap run_s1)" "0 < length (m_heap run_s2)" "0 < length (m_heap run_s3)"
    by (simp_all add: run_s1_eq(2) run_s2_eq(2) run_s3_eq(2))
  define E1 where "E1 = E(?s := record_event Silent run_s2 (E ?s))"
  have "mux_act stored (ep_mux (E ?s)) Silent run_s2" using ac_approve [OF heap(1) run_s2_eq(1)] E(2) by simp
  from run_local [OF up this] obtain t1 where t1: "tunnel_reach stored t0 t1" "tn_view t1 = (E1, S, \<lambda>a. [], \<lambda>a. [])"
    by (auto simp: E1_def)
  define E2 where "E2 = E1(?s := record_event (Wrote 0 [1, 2, 3]) run_s3 (E1 ?s))"
  have "mux_act stored (ep_mux (E1 ?s)) (Wrote 0 [1, 2, 3]) run_s3" using ac_write [OF heap(2) run_s3_eq(1)] by (simp add: E1_def)
  from run_local [OF t1 this] obtain t2 where t2: "tunnel_reach stored t0 t2" "tn_view t2 = (E2, S, \<lambda>a. [], \<lambda>a. [])"
    by (auto simp: E2_def)
  define E3 where "E3 = E2(?s := record_event Silent run_s4 (E2 ?s))"
  have "mux_act stored (ep_mux (E2 ?s)) Silent run_s4" using ac_closeWrite [OF heap(3) run_s4_eq(1)] by (simp add: E2_def)
  from run_local [OF t2 this] obtain t3 where t3: "tunnel_reach stored t0 t3" "tn_view t3 = (E3, S, \<lambda>a. [], \<lambda>a. [])"
    by (auto simp: E3_def)
  define E4 where "E4 = E3(?s := record_event (Emits fList) run_s5 (E3 ?s))"
  have "ep_mux (E3 ?s) = run_s4" by (simp add: E3_def)
  from run_emit_server [OF t3 S(2) this run_s5_eq(1)] obtain t4 where t4: "tunnel_reach stored t0 t4"
    "tn_view t4 = (E4, S(?s := run_server [] (encodeFrame fList) 5), \<lambda>a. [], \<lambda>a. [])"
    by (auto simp: E4_def frame_lengths)
  define E5 where "E5 = E4(?s := record_event (Emits fOK) run_s6 (E4 ?s))"
  have "ep_mux (E4 ?s) = run_s5" by (simp add: E4_def)
  from run_emit_server [where tx = "encodeFrame fList" and k = 5, OF t4 _ this run_s6_eq(1)] obtain t5 where t5: "tunnel_reach stored t0 t5"
    "tn_view t5 = (E5, S(?s := run_server [] (encodeFrame fList @ encodeFrame fOK) 6), \<lambda>a. [], \<lambda>a. [])"
    by (auto simp: E5_def frame_lengths)
  define E6 where "E6 = E5(?s := record_event (Emits fData) run_s7 (E5 ?s))"
  have "ep_mux (E5 ?s) = run_s6" by (simp add: E5_def)
  from run_emit_server [where tx = "encodeFrame fList @ encodeFrame fOK" and k = 6, OF t5 _ this run_s7_eq(1)] obtain t6 where t6: "tunnel_reach stored t0 t6"
    "tn_view t6 = (E6, S(?s := run_server [] (encodeFrame fList @ encodeFrame fOK @ encodeFrame fData) 7), \<lambda>a. [], \<lambda>a. [])"
    by (auto simp: E6_def frame_lengths)
  define E7 where "E7 = E6(?s := record_event (Emits fFIN) run_s8 (E6 ?s))"
  have "ep_mux (E6 ?s) = run_s7" by (simp add: E6_def)
  from run_emit_server [where tx = "encodeFrame fList @ encodeFrame fOK @ encodeFrame fData" and k = 7, OF t6 _ this run_s8_eq(1)] obtain t7 where t7: "tunnel_reach stored t0 t7"
    "tn_view t7 = (E7, S(?s := run_server [] (encodeFrame fList @ encodeFrame fOK @ encodeFrame fData @ encodeFrame fFIN) 8), \<lambda>a. [], \<lambda>a. [])"
    by (auto simp: E7_def frame_lengths)
  show ?thesis
    by (rule that [OF t7]) (use E S in \<open>simp_all add: E7_def E6_def E5_def E4_def E3_def E2_def E1_def\<close>)
qed

lemma run_down:
  assumes w: "w_sess w = (\<lambda>a. demo_bound)" and t0: "t0 = tunnel_start w run_c0 run_s0"
  obtains t where "tunnel_reach stored t0 t" and "tn_mux t ClientSide = run_c7" and "tn_mux t ServerSide = run_s8"
    and "ep_wrote (tn_end t ServerSide) 0 = [1, 2, 3]" and "ep_got (tn_end t ClientSide) 0 = [1, 2, 3]" and "ep_stopped (tn_end t ClientSide) = {}"
proof -
  let ?s = ServerSide and ?c = ClientSide
  define tx where "tx = encodeFrame fList @ encodeFrame fOK @ encodeFrame fData @ encodeFrame fFIN"
  obtain t7 E7 S where t7: "tunnel_reach stored t0 t7" "tn_view t7 = (E7, S, \<lambda>a. [], \<lambda>a. [])"
    and S: "S ?c = run_client (encodeFrame fOpen)" "S ?s = run_server [] tx 8"
    and E: "ep_mux (E7 ?s) = run_s8" "ep_wrote (E7 ?s) 0 = [1, 2, 3]" "ep_mux (E7 ?c) = run_c2" "ep_got (E7 ?c) 0 = []" "ep_stopped (E7 ?c) = {}"
    using run_reply [OF w t0] unfolding tx_def by metis
  have len: "length tx = 41" by (simp add: tx_def frame_lengths)
  obtain s1 eff s2 s3 where x: "sendStep 1 4 (run_server [] tx 8) = (Some (Inr (Some (dataPacket 0 tx))), s1)"
    "receiveStep 1 (RecvPacket (dataPacket 0 tx)) 5 (run_client (encodeFrame fOpen)) = (True, eff, s2)" "Read 41 s2 = (Some (Inr tx), s3)"
    using server_sendStep [OF len] client_receiveStep [OF len] by metis
  define S8 where "S8 = S(?s := s1, ?c := s3)"
  from run_cross [where a = ?s and g = 1 and now = 4 and pk = "dataPacket 0 tx" and g' = 1 and now' = 5 and eff = eff, OF t7 _ _ x(3)] x(1,2) S obtain t8 where t8: "tunnel_reach stored t0 t8"
    "tn_view t8 = (E7, S8, \<lambda>a. [], (\<lambda>a. [])(?c := tx))" unfolding S8_def by auto
  define E8 where "E8 = E7(?c := record_event (Handles fList) run_c3 (E7 ?c))"
  from run_decode [OF t8 _ frames_sendable(2), of ?c "encodeFrame fOK @ encodeFrame fData @ encodeFrame fFIN" run_c3] run_c3_eq(1) E(3)
  obtain t9 where t9: "tunnel_reach stored t0 t9"
    "tn_view t9 = (E8, S8, \<lambda>a. [], (\<lambda>a. [])(?c := encodeFrame fOK @ encodeFrame fData @ encodeFrame fFIN))"
    by (auto simp: E8_def tx_def)
  define E9 where "E9 = E8(?c := record_event (Handles fOK) run_c4 (E8 ?c))"
  from run_decode [OF t9 _ frames_sendable(3), of ?c "encodeFrame fData @ encodeFrame fFIN" run_c4] run_c4_eq(1)
  obtain t10 where t10: "tunnel_reach stored t0 t10" "tn_view t10 = (E9, S8, \<lambda>a. [], (\<lambda>a. [])(?c := encodeFrame fData @ encodeFrame fFIN))"
    by (auto simp: E9_def E8_def)
  define E10 where "E10 = E9(?c := record_event (Handles fData) run_c5 (E9 ?c))"
  from run_decode [OF t10 _ frames_sendable(4), of ?c "encodeFrame fFIN" run_c5] run_c5_eq(1)
  obtain t11 where t11: "tunnel_reach stored t0 t11" "tn_view t11 = (E10, S8, \<lambda>a. [], (\<lambda>a. [])(?c := encodeFrame fFIN))"
    by (auto simp: E10_def E9_def)
  define E11 where "E11 = E10(?c := record_event (Handles fFIN) run_c6 (E10 ?c))"
  from run_decode [OF t11 _ frames_sendable(5), of ?c "[]" run_c6] run_c6_eq(1)
  obtain t12 where t12: "tunnel_reach stored t0 t12" "tn_view t12 = (E11, S8, \<lambda>a. [], (\<lambda>a. [])(?c := []))"
    by (auto simp: E11_def E10_def)
  have "0 < length (m_heap run_c6)" by (simp add: run_c6_eq(2))
  from ac_read [OF this run_c7_eq(1)] have "mux_act stored (ep_mux (E11 ?c)) (Got 0 [1, 2, 3]) run_c7" by (simp add: E11_def)
  from run_local [OF t12 this] obtain t13 where t13: "tunnel_reach stored t0 t13"
    "tn_view t13 = (E11(?c := record_event (Got 0 [1, 2, 3]) run_c7 (E11 ?c)), S8, \<lambda>a. [], (\<lambda>a. [])(?c := []))" by auto
  then have "tn_end t13 = E11(?c := record_event (Got 0 [1, 2, 3]) run_c7 (E11 ?c))" by (simp add: tn_view_def)
  with that [OF t13(1)] E show ?thesis
    by (simp add: E11_def E10_def E9_def E8_def)
qed

end
