(* ===== verification/Go_Strings.thy ===== *)
theory Go_Strings
  imports Base
begin

text \<open>
  What the program uses of Go's \<open>strings\<close>, \<open>strconv\<close> and \<open>net\<close> on strings: \<open>TrimSpace\<close> (with every rune
  \<open>unicode.IsSpace\<close> accepts, in UTF-8), \<open>Cut\<close>, \<open>Atoi\<close>, \<open>SplitHostPort\<close> and \<open>JoinHostPort\<close>. The lemmas show
  what trimming keeps and that \<open>Atoi\<close> reads what \<open>Itoa\<close> prints.
\<close>


section \<open>strings\<close>

text \<open>The UTF-8 encodings of the runes \<open>unicode.IsSpace\<close> accepts.\<close>

definition spaceRunes :: "string list" where
  "spaceRunes = map (map char_of)
     ([[9], [10], [11], [12], [13], [32], [0xC2, 0x85], [0xC2, 0xA0], [0xE1, 0x9A, 0x80]]
      @ map (\<lambda>k. [0xE2, 0x80, 0x80 + k]) [0 ..< 11]
      @ [[0xE2, 0x80, 0xA8], [0xE2, 0x80, 0xA9], [0xE2, 0x80, 0xAF], [0xE2, 0x81, 0x9F], [0xE3, 0x80, 0x80 :: nat]])"

definition leadingSpace :: "string \<Rightarrow> string option" where
  "leadingSpace s = find (\<lambda>r. take (length r) s = r) spaceRunes"

lemma spaceRunes_pos: "r \<in> set spaceRunes \<Longrightarrow> r \<noteq> []"
  by (auto simp: spaceRunes_def)

lemma find_SomeD: "find P xs = Some x \<Longrightarrow> x \<in> set xs \<and> P x"
  by (auto simp: find_Some_iff)

lemma leadingSpace_bound:
  assumes "leadingSpace s = Some r"
  shows "0 < length r" and "length r \<le> length s"
proof -
  have r: "r \<in> set spaceRunes" "take (length r) s = r"
    using assms by (auto simp: leadingSpace_def find_Some_iff)
  then show "0 < length r" using spaceRunes_pos by auto
  show "length r \<le> length s" using r(2) by (metis length_take min.cobounded1)
qed

function trimLeft :: "string \<Rightarrow> string" where
  "trimLeft s = (case leadingSpace s of None \<Rightarrow> s | Some r \<Rightarrow> trimLeft (drop (length r) s))"
  by pat_completeness auto
termination
proof (relation "measure length")
  fix s r assume "leadingSpace s = Some r"
  from leadingSpace_bound [OF this] have "0 < length r" "0 < length s" by linarith+
  then show "(drop (length r) s, s) \<in> measure length" by (simp add: diff_less)
qed simp

declare trimLeft.simps [simp del]

definition trailingSpace :: "string \<Rightarrow> string option" where
  "trailingSpace s = find (\<lambda>r. drop (length s - length r) s = r) spaceRunes"

lemma trailingSpace_bound:
  assumes "trailingSpace s = Some r"
  shows "0 < length r" and "length r \<le> length s"
proof -
  have r: "r \<in> set spaceRunes" "drop (length s - length r) s = r"
    using assms by (auto simp: trailingSpace_def find_Some_iff)
  then show "0 < length r" using spaceRunes_pos by auto
  show "length r \<le> length s" using r(2) by (metis length_drop diff_le_self)
qed

function trimRight :: "string \<Rightarrow> string" where
  "trimRight s = (case trailingSpace s of None \<Rightarrow> s | Some r \<Rightarrow> trimRight (take (length s - length r) s))"
  by pat_completeness auto
termination
proof (relation "measure length")
  fix s r assume "trailingSpace s = Some r"
  from trailingSpace_bound [OF this] have "0 < length r" "0 < length s" by linarith+
  then show "(take (length s - length r) s, s) \<in> measure length" by (simp add: diff_less)
qed simp

declare trimRight.simps [simp del]

definition TrimSpace :: "string \<Rightarrow> string" where
  "TrimSpace s = trimRight (trimLeft s)"

text \<open>\<open>strings.Cut\<close> at a one-byte separator, \<open>strings.Contains\<close> of one byte.\<close>

definition Cut :: "string \<Rightarrow> char \<Rightarrow> string \<times> string \<times> bool" where
  "Cut s c = (if c \<in> set s then (takeWhile (\<lambda>x. x \<noteq> c) s, tl (dropWhile (\<lambda>x. x \<noteq> c) s), True) else (s, '''', False))"

section \<open>strconv and net\<close>

definition is_digit :: "char \<Rightarrow> bool" where
  "is_digit c \<longleftrightarrow> 48 \<le> (of_char c :: nat) \<and> (of_char c :: nat) \<le> 57"

definition decimal :: "string \<Rightarrow> nat" where
  "decimal s = foldl (\<lambda>n c. 10 * n + (of_char c - 48)) 0 s"

definition Atoi :: "string \<Rightarrow> int option" where
  "Atoi s =
     (let (neg, ds) = (case s of [] \<Rightarrow> (False, []) | c # r \<Rightarrow>
            if c = CHR ''-'' then (True, r) else if c = CHR ''+'' then (False, r) else (False, s));
          v = (if neg then - int (decimal ds) else int (decimal ds)) in
      if ds = [] \<or> \<not> list_all is_digit ds then None
      else if - (2 ^ 63) \<le> v \<and> v < 2 ^ 63 then Some v else None)"

fun lastIndex :: "char \<Rightarrow> string \<Rightarrow> nat option" where
  "lastIndex c [] = None"
| "lastIndex c (x # xs) = (case lastIndex c xs of Some i \<Rightarrow> Some (Suc i) | None \<Rightarrow> if x = c then Some 0 else None)"

fun firstIndex :: "char \<Rightarrow> string \<Rightarrow> nat option" where
  "firstIndex c [] = None"
| "firstIndex c (x # xs) = (if x = c then Some 0 else map_option Suc (firstIndex c xs))"

text \<open>\<open>net.SplitHostPort\<close>; every failure is an address error.\<close>

definition SplitHostPort :: "string \<Rightarrow> (string \<times> string) option" where
  "SplitHostPort hostport =
     (case lastIndex CHR '':'' hostport of
        None \<Rightarrow> None
      | Some i \<Rightarrow>
          let finish = (\<lambda>host j k.
                if CHR ''['' \<in> set (drop j hostport) \<or> CHR '']'' \<in> set (drop k hostport) then None
                else Some (host, drop (i + 1) hostport)) in
          if hostport ! 0 = CHR ''['' then
            (case firstIndex CHR '']'' hostport of
               None \<Rightarrow> None
             | Some e \<Rightarrow> if e + 1 = i then finish (take (e - 1) (drop 1 hostport)) 1 (e + 1) else None)
          else if CHR '':'' \<in> set (take i hostport) then None
          else finish (take i hostport) 0 0)"

definition JoinHostPort :: "string \<Rightarrow> string \<Rightarrow> string" where
  "JoinHostPort host port =
     (if CHR '':'' \<in> set host then ''['' @ host @ '']:'' @ port else host @ '':'' @ port)"


section \<open>Lemmas\<close>

text \<open>A visible ASCII character is no part of a space.\<close>

definition visible :: "char \<Rightarrow> bool" where
  "visible c \<longleftrightarrow> 33 \<le> (of_char c :: nat) \<and> (of_char c :: nat) < 127"

lemma spaceRunes_visible: "r \<in> set spaceRunes \<Longrightarrow> \<not> visible (hd r) \<and> \<not> visible (last r)"
  by (auto simp: spaceRunes_def visible_def)

lemma trimLeft_visible:
  assumes "s = [] \<or> visible (hd s)"
  shows "trimLeft s = s"
proof -
  have "leadingSpace s = None"
  proof (rule ccontr)
    assume "leadingSpace s \<noteq> None"
    then obtain r where r: "r \<in> set spaceRunes" "take (length r) s = r"
      unfolding leadingSpace_def by (auto dest: find_SomeD)
    have "r \<noteq> []" by (rule spaceRunes_pos [OF r(1)])
    then have "s \<noteq> []" "hd r = hd s" using r(2) by (metis take_Nil, metis hd_take length_greater_0_conv)
    then show False using assms spaceRunes_visible [OF r(1)] by simp
  qed
  then show ?thesis by (simp add: trimLeft.simps)
qed

lemma trimRight_visible:
  assumes "s = [] \<or> visible (last s)"
  shows "trimRight s = s"
proof -
  have "trailingSpace s = None"
  proof (rule ccontr)
    assume "trailingSpace s \<noteq> None"
    then obtain r where r: "r \<in> set spaceRunes" "drop (length s - length r) s = r"
      unfolding trailingSpace_def by (auto dest: find_SomeD)
    then have "s \<noteq> []" "last r = last s" using spaceRunes_pos [OF r(1)] by (metis drop_Nil, metis last_drop drop_eq_Nil2 leI)
    then show False using assms spaceRunes_visible [OF r(1)] by simp
  qed
  then show ?thesis by (simp add: trimRight.simps)
qed

lemma TrimSpace_visible: "s = [] \<or> visible (hd s) \<and> visible (last s) \<Longrightarrow> TrimSpace s = s"
  by (auto simp: TrimSpace_def trimLeft_visible trimRight_visible)

text \<open>\<open>TrimSpace\<close> keeps a contiguous part of its argument, and trims once and for all.\<close>

lemma trimLeft_drop: "\<exists>k. trimLeft s = drop k s"
proof (induction s rule: trimLeft.induct)
  case (1 s)
  show ?case
  proof (cases "leadingSpace s")
    case None
    then show ?thesis by (intro exI [of _ 0]) (simp add: trimLeft.simps)
  next
    case (Some r)
    then show ?thesis using 1 [OF Some] by (auto simp: trimLeft.simps [of s])
  qed
qed

lemma trimRight_take: "\<exists>k. trimRight s = take k s"
proof (induction s rule: trimRight.induct)
  case (1 s)
  show ?case
  proof (cases "trailingSpace s")
    case None
    then show ?thesis by (intro exI [of _ "length s"]) (simp add: trimRight.simps)
  next
    case (Some r)
    then show ?thesis using 1 [OF Some] by (auto simp: trimRight.simps [of s])
  qed
qed

lemma set_TrimSpace: "set (TrimSpace s) \<subseteq> set s" and length_TrimSpace: "length (TrimSpace s) \<le> length s"
proof -
  obtain i j where "TrimSpace s = take j (drop i s)" using trimLeft_drop trimRight_take by (metis TrimSpace_def)
  then show "set (TrimSpace s) \<subseteq> set s" "length (TrimSpace s) \<le> length s"
    by (auto dest: in_set_takeD in_set_dropD)
qed

lemma trimLeft_none: "leadingSpace (trimLeft s) = None"
proof (induction s rule: trimLeft.induct)
  case (1 s)
  show ?case by (cases "leadingSpace s") (auto simp: trimLeft.simps [of s] 1)
qed

lemma trimRight_none: "trailingSpace (trimRight s) = None"
proof (induction s rule: trimRight.induct)
  case (1 s)
  show ?case by (cases "trailingSpace s") (auto simp: trimRight.simps [of s] 1)
qed

lemma leadingSpace_take:
  assumes "leadingSpace s = None"
  shows "leadingSpace (take k s) = None"
proof (rule ccontr)
  assume "leadingSpace (take k s) \<noteq> None"
  then obtain r where r: "r \<in> set spaceRunes" "take (length r) (take k s) = r"
    unfolding leadingSpace_def by (auto dest: find_SomeD)
  then have "length r = min (length r) k \<or> length s \<le> length r" by (metis length_take min.absorb_iff2 min.commute nle_le take_take)
  moreover have "take (length r) s \<noteq> r" using assms r(1) by (auto simp: leadingSpace_def find_None_iff)
  ultimately show False using r(2) by (metis length_take min.commute min_def take_all take_take)
qed

lemma TrimSpace_idem: "TrimSpace (TrimSpace s) = TrimSpace s"
proof -
  obtain k where "trimRight (trimLeft s) = take k (trimLeft s)" using trimRight_take by blast
  then have "leadingSpace (TrimSpace s) = None"
    using leadingSpace_take [OF trimLeft_none] by (simp add: TrimSpace_def)
  then have "trimLeft (TrimSpace s) = TrimSpace s" by (simp add: trimLeft.simps [of "TrimSpace s"])
  then show ?thesis
    using trimRight_none [of "trimLeft s"] by (simp add: TrimSpace_def trimRight.simps [of "trimRight (trimLeft s)"])
qed

text \<open>\<open>Atoi\<close> reads what \<open>Itoa\<close> prints.\<close>

lemma digit_char: "k < 10 \<Longrightarrow> of_char (char_of (48 + k :: nat) :: char) = (48 + k :: nat)"
  by simp

lemma digits_of_props: "digits_of n \<noteq> [] \<and> list_all is_digit (digits_of n) \<and> decimal (digits_of n) = n"
proof (induction n rule: digits_of.induct)
  case (1 n)
  show ?case
  proof (cases "n < 10")
    case True
    then show ?thesis by (simp add: digits_of.simps [of n] is_digit_def decimal_def digit_char)
  next
    case False
    then have "digits_of n = digits_of (n div 10) @ [char_of (48 + n mod 10)]" by (simp add: digits_of.simps [of n])
    then show ?thesis using 1 [OF False] by (simp add: is_digit_def decimal_def)
  qed
qed

lemma digit_no_sign: "is_digit c \<Longrightarrow> c \<noteq> CHR ''-'' \<and> c \<noteq> CHR ''+''"
  by (auto simp: is_digit_def)

lemma Atoi_itoa:
  assumes "0 \<le> i" and "i < 2 ^ 63"
  shows "Atoi (itoa i) = Some i"
proof -
  have d: "itoa i = digits_of (nat i)" using assms(1) by (simp add: itoa_def)
  obtain c r where cr: "digits_of (nat i) = c # r" using digits_of_props by (cases "digits_of (nat i)") auto
  then have "is_digit c" using digits_of_props [of "nat i"] by simp
  then show ?thesis
    using assms digits_of_props [of "nat i"] digit_no_sign [of c] unfolding d cr by (simp add: Atoi_def)
qed

lemma itoa_digits: "0 \<le> i \<Longrightarrow> itoa i \<noteq> [] \<and> list_all is_digit (itoa i)"
  using digits_of_props [of "nat i"] by (simp add: itoa_def)

end
