(* ===== verification/Identity.thy ===== *)
theory Identity
  imports Go_Strings Codec
begin

text \<open>
  The stable identity of a server: \<open>internal/ble/identity.go\<close> (the identity, its textual form) and
  \<open>loadOrCreateServerID\<close> of \<open>internal/app/server_id.go\<close> (the file that keeps it). Random bytes and the results of
  file operations are arguments. The lemmas show that the textual form is read back, and that an
  identity once returned is returned by every later start.
\<close>


section \<open>encoding/hex\<close>

definition hexDigit :: "nat \<Rightarrow> char" where
  "hexDigit k = char_of (if k < 10 then 48 + k else 87 + k)"

definition EncodeToString :: "bytes \<Rightarrow> string" where
  "EncodeToString bs = concat (map (\<lambda>b. [hexDigit (unat b div 16), hexDigit (unat b mod 16)]) bs)"

definition fromHexChar :: "char \<Rightarrow> nat option" where
  "fromHexChar c =
     (let n = of_char c :: nat in
      if 48 \<le> n \<and> n \<le> 57 then Some (n - 48)
      else if 97 \<le> n \<and> n \<le> 102 then Some (n - 87)
      else if 65 \<le> n \<and> n \<le> 70 then Some (n - 55)
      else None)"

text \<open>\<open>hex.DecodeString\<close>: the bytes, or the first byte that is no digit (\<open>None\<close> for \<open>hex.ErrLength\<close>).\<close>

fun DecodeString :: "string \<Rightarrow> char option + bytes" where
  "DecodeString [] = Inr []"
| "DecodeString [c] = Inl (if fromHexChar c = None then Some c else None)"
| "DecodeString (a # b # s) =
     (case fromHexChar a of
        None \<Rightarrow> Inl (Some a)
      | Some x \<Rightarrow>
          case fromHexChar b of
            None \<Rightarrow> Inl (Some b)
          | Some y \<Rightarrow>
              case DecodeString s of Inl e \<Rightarrow> Inl e | Inr bs \<Rightarrow> Inr (of_nat (16 * x + y) # bs))"

section \<open>Server identities\<close>

type_synonym ServerID = bytes

datatype id_error = IDPrefix | IDLength | IDHex "char option"

definition serverIDPrefix :: string where "serverIDPrefix = ''lbnb:''"

text \<open>\<open>rand.Read\<close> is an argument: the 16 bytes, or the error.\<close>

definition NewServerID :: "go_error + bytes \<Rightarrow> go_error + ServerID" where
  "NewServerID r =
     (case r of
        Inl e \<Rightarrow> Inl e
      | Inr b \<Rightarrow> Inr (b[6 := b ! 6 AND 0x0f OR 0x40, 8 := b ! 8 AND 0x3f OR 0x80]))"

definition lower :: "char \<Rightarrow> char" where
  "lower c = (let n = of_char c :: nat in if 65 \<le> n \<and> n \<le> 90 then char_of (n + 32) else c)"

text \<open>
  \<open>strings.HasPrefix(strings.ToLower(v), p)\<close> for an ASCII prefix: no rune outside ASCII is lowered to a
  letter of \<open>serverIDPrefix\<close>.
\<close>

definition hasPrefixFold :: "string \<Rightarrow> string \<Rightarrow> bool" where
  "hasPrefixFold v p \<longleftrightarrow> map lower (take (length p) v) = p"

definition ParseServerID :: "string \<Rightarrow> id_error + ServerID" where
  "ParseServerID val =
     (if \<not> hasPrefixFold val serverIDPrefix then Inl IDPrefix
      else
        let compact = filter (\<lambda>c. c \<noteq> CHR ''-'') (drop (length serverIDPrefix) val) in
        if length compact \<noteq> 32 then Inl IDLength
        else case DecodeString compact of
               Inl e \<Rightarrow> Inl (IDHex e)
             | Inr decoded \<Rightarrow> Inr decoded)"

definition ServerID_String :: "ServerID \<Rightarrow> string" where
  "ServerID_String sid =
     (let encoded = EncodeToString sid in
      serverIDPrefix @ part encoded 0 8 @ ''-'' @ part encoded 8 4 @ ''-'' @ part encoded 12 4 @ ''-''
        @ part encoded 16 4 @ ''-'' @ part encoded 20 12)"


section \<open>The identity file\<close>

text \<open>
  The file system is a map from paths to contents. What else \<open>loadOrCreateServerID\<close> meets in one call is its
  environment: an error reading the file other than its absence, the errors of the later operations, the
  random bytes, and the contents another process may have given the file between the read and the creation.
\<close>

record id_env =
  env_readErr :: "go_error option"
  env_mkdirErr :: "go_error option"
  env_rand :: "go_error + bytes"
  env_race :: "string option"
  env_openErr :: "go_error option"
  env_writeErr :: "go_error option"
  env_closeErr :: "go_error option"

datatype id_file_error =
    LocateConfigDir go_error
  | ParseIDFile string id_error
  | ReadIDFile string go_error
  | CreateIDDir go_error
  | GenerateID go_error
  | CreateIDFile string go_error
  | WriteIDFile string go_error
  | CloseIDFile string go_error

type_synonym files = "string \<rightharpoonup> string"

text \<open>The call with the path it resolved; \<open>None\<close> when the environments run out before the recursion ends.\<close>

fun loadOrCreateAt :: "id_env list \<Rightarrow> string \<Rightarrow> files \<Rightarrow> (id_file_error + ServerID) option \<times> files" where
  "loadOrCreateAt [] path fs = (None, fs)"
| "loadOrCreateAt (env # envs) path fs =
     (case env_readErr env of
        Some e \<Rightarrow> (Some (Inl (ReadIDFile path e)), fs)
      | None \<Rightarrow>
          case fs path of
            Some data \<Rightarrow>
              (case ParseServerID (TrimSpace data) of
                 Inl e \<Rightarrow> (Some (Inl (ParseIDFile path e)), fs)
               | Inr sid \<Rightarrow> (Some (Inr sid), fs))
          | None \<Rightarrow>
              case env_mkdirErr env of
                Some e \<Rightarrow> (Some (Inl (CreateIDDir e)), fs)
              | None \<Rightarrow>
                  case NewServerID (env_rand env) of
                    Inl e \<Rightarrow> (Some (Inl (GenerateID e)), fs)
                  | Inr sid \<Rightarrow>
                      case env_race env of
                        Some data \<Rightarrow> loadOrCreateAt envs path (fs(path \<mapsto> data))
                      | None \<Rightarrow>
                          case env_openErr env of
                            Some e \<Rightarrow> (Some (Inl (CreateIDFile path e)), fs)
                          | None \<Rightarrow>
                              case env_writeErr env of
                                Some e \<Rightarrow> (Some (Inl (WriteIDFile path e)), fs(path := None))
                              | None \<Rightarrow>
                                  case env_closeErr env of
                                    Some e \<Rightarrow> (Some (Inl (CloseIDFile path e)), fs(path \<mapsto> ServerID_String sid @ [CHR 0x0A]))
                                  | None \<Rightarrow> (Some (Inr sid), fs(path \<mapsto> ServerID_String sid @ [CHR 0x0A])))"

definition loadOrCreateServerID ::
  "go_error + string \<Rightarrow> id_env list \<Rightarrow> string \<Rightarrow> files \<Rightarrow> (id_file_error + ServerID \<times> string) option \<times> files" where
  "loadOrCreateServerID defaultPath envs configuredPath fs =
     (case (if configuredPath = '''' then defaultPath else Inr configuredPath) of
        Inl e \<Rightarrow> (Some (Inl (LocateConfigDir e)), fs)
      | Inr path \<Rightarrow>
          (case loadOrCreateAt envs path fs of
             (None, fs') \<Rightarrow> (None, fs')
           | (Some (Inl e), fs') \<Rightarrow> (Some (Inl e), fs')
           | (Some (Inr sid), fs') \<Rightarrow> (Some (Inr (sid, path)), fs')))"


section \<open>Lemmas\<close>

lemma hexDigit_code: "k < 16 \<Longrightarrow> of_char (hexDigit k) = (if k < 10 then 48 + k else 87 + k :: nat)"
  by (simp add: hexDigit_def)

lemma fromHexChar_hexDigit: "k < 16 \<Longrightarrow> fromHexChar (hexDigit k) = Some k"
  by (simp add: fromHexChar_def hexDigit_code)

lemma hexDigit_props: "k < 16 \<Longrightarrow> hexDigit k \<noteq> CHR ''-'' \<and> visible (hexDigit k)"
proof -
  assume k: "k < 16"
  have "(of_char (hexDigit k) :: nat) \<noteq> of_char CHR ''-''" using k by (simp add: hexDigit_code)
  then have "hexDigit k \<noteq> CHR ''-''" by metis
  then show ?thesis using k by (simp add: visible_def hexDigit_code)
qed

lemma byte_nibbles: "unat (b :: byte) div 16 < 16"
proof -
  have "unat b < 256" using unat_less_pow [of b] by simp
  then show ?thesis by (simp add: less_mult_imp_div_less)
qed

lemma DecodeString_EncodeToString: "DecodeString (EncodeToString bs) = Inr bs"
proof (induction bs)
  case (Cons b bs)
  have "(of_nat (16 * (unat b div 16) + unat b mod 16) :: byte) = b" by simp
  then show ?case
    using Cons byte_nibbles [of b] by (simp add: EncodeToString_def fromHexChar_hexDigit)
qed (simp add: EncodeToString_def)

lemma length_EncodeToString [simp]: "length (EncodeToString bs) = 2 * length bs"
  by (induction bs) (simp_all add: EncodeToString_def)

lemma EncodeToString_chars: "c \<in> set (EncodeToString bs) \<Longrightarrow> c \<noteq> CHR ''-'' \<and> visible c"
  using hexDigit_props byte_nibbles by (induction bs) (auto simp: EncodeToString_def)

lemma DecodeString_length: "DecodeString s = Inr bs \<Longrightarrow> length s = 2 * length bs"
  by (induction s arbitrary: bs rule: DecodeString.induct) (auto split: option.splits sum.splits)

text \<open>The groups of the printed form are the encoding again once the dashes are gone.\<close>

lemma filter_no_dash: "CHR ''-'' \<notin> set s \<Longrightarrow> filter (\<lambda>c. c \<noteq> CHR ''-'') s = s"
  by (induction s) auto

lemma parts_join:
  assumes "length xs = 32"
  shows "part xs 0 8 @ part xs 8 4 @ part xs 12 4 @ part xs 16 4 @ part xs 20 12 = xs"
proof -
  have "take 12 xs = take 8 xs @ part xs 8 4" "take 16 xs = take 12 xs @ part xs 12 4"
    "take 20 xs = take 16 xs @ part xs 16 4" "take 32 xs = take 20 xs @ part xs 20 12"
    using take_add [of 8 4 xs] take_add [of 12 4 xs] take_add [of 16 4 xs] take_add [of 20 12 xs] by (simp_all add: part_def)
  then show ?thesis using assms by (simp add: part_def)
qed

lemma part_chars: "CHR ''-'' \<notin> set s \<Longrightarrow> CHR ''-'' \<notin> set (part s i n)"
  by (auto simp: part_def dest: in_set_takeD in_set_dropD)

lemma ParseServerID_String:
  assumes "length sid = 16"
  shows "ParseServerID (ServerID_String sid) = Inr sid"
proof -
  let ?e = "EncodeToString sid"
  have nd: "CHR ''-'' \<notin> set ?e" using EncodeToString_chars by blast
  have "filter (\<lambda>c. c \<noteq> CHR ''-'') (drop (length serverIDPrefix) (ServerID_String sid)) = ?e"
    using parts_join [of ?e] assms part_chars [OF nd]
    by (simp add: ServerID_String_def serverIDPrefix_def Let_def filter_no_dash)
  moreover have "hasPrefixFold (ServerID_String sid) serverIDPrefix"
    by (simp add: hasPrefixFold_def ServerID_String_def serverIDPrefix_def Let_def lower_def)
  ultimately show ?thesis
    using assms DecodeString_EncodeToString [of sid] by (simp add: ParseServerID_def)
qed

interpretation id_codec: wire_codec ServerID_String ParseServerID "\<lambda>sid. length sid = 16"
  by unfold_locales (rule ParseServerID_String)

lemma ServerID_String_visible:
  assumes "length sid = 16"
  shows "visible (hd (ServerID_String sid))" "visible (last (ServerID_String sid))" "ServerID_String sid \<noteq> []"
proof -
  let ?e = "EncodeToString sid"
  have "part ?e 20 12 \<noteq> []" using assms by (simp add: part_def)
  then have "last (ServerID_String sid) = last (part ?e 20 12)" by (simp add: ServerID_String_def Let_def)
  moreover have "last (part ?e 20 12) \<in> set ?e"
    using last_in_set [OF \<open>part ?e 20 12 \<noteq> []\<close>] by (auto simp: part_def dest: in_set_takeD in_set_dropD)
  ultimately have "last (ServerID_String sid) \<in> set ?e" by simp
  then show "visible (last (ServerID_String sid))" using EncodeToString_chars by blast
  show "visible (hd (ServerID_String sid))" "ServerID_String sid \<noteq> []"
    by (simp_all add: ServerID_String_def serverIDPrefix_def visible_def Let_def)
qed

lemma newline_chars: "(char_of (10 :: nat) :: char) = CHR 0x0A" "CHR 0x0A \<noteq> (char_of (9 :: nat) :: char)"
  by code_simp+

lemma trim_newline:
  assumes "visible (hd s)" and "visible (last s)" and "s \<noteq> []"
  shows "TrimSpace (s @ [CHR 0x0A]) = s"
proof -
  have "visible (hd (s @ [CHR 0x0A]))" using assms(1,3) by simp
  then have l: "trimLeft (s @ [CHR 0x0A]) = s @ [CHR 0x0A]" by (intro trimLeft_visible) blast
  have "trailingSpace (s @ [CHR 0x0A]) = Some [CHR 0x0A]"
    by (simp add: trailingSpace_def spaceRunes_def newline_chars)
  then have "trimRight (s @ [CHR 0x0A]) = trimRight s" by (simp add: trimRight.simps [of "s @ [CHR 0x0A]"])
  then show ?thesis using l trimRight_visible [of s] assms(2) by (simp add: TrimSpace_def)
qed


lemma NewServerID_length: "NewServerID r = Inr sid \<Longrightarrow> (\<And>b. r = Inr b \<Longrightarrow> length b = 16) \<Longrightarrow> length sid = 16"
  by (auto simp: NewServerID_def split: sum.splits)

text \<open>What a call leaves when it returns an identity: a file that holds it.\<close>

lemma loadOrCreateAt_stores:
  assumes "loadOrCreateAt envs path fs = (Some (Inr sid), fs')" and "\<forall>env \<in> set envs. \<forall>b. env_rand env = Inr b \<longrightarrow> length b = 16"
  shows "\<exists>data. fs' path = Some data \<and> ParseServerID (TrimSpace data) = Inr sid"
  using assms
proof (induction envs path fs rule: loadOrCreateAt.induct)
  case (2 env envs path fs)
  note stored = trim_newline [OF ServerID_String_visible] ParseServerID_String NewServerID_length
  show ?case
  proof (cases "fs path")
    case (Some data)
    then show ?thesis using "2.prems"(1) by (auto split: option.splits sum.splits)
  next
    case None
    then obtain new where new: "NewServerID (env_rand env) = Inr new" and e: "env_readErr env = None" "env_mkdirErr env = None"
      using "2.prems"(1) by (auto split: option.splits sum.splits)
    have len: "length new = 16" using NewServerID_length [OF new] "2.prems"(2) by auto
    show ?thesis
    proof (cases "env_race env")
      case (Some data)
      then have "loadOrCreateAt envs path (fs(path \<mapsto> data)) = (Some (Inr sid), fs')" using "2.prems"(1) None e new by simp
      then show ?thesis using "2.prems"(2) by (intro "2.IH" [OF e(1) None e(2) new Some]) (simp_all add: fun_upd_def)
    next
      case no_race: None
      then have "sid = new" "fs' path = Some (ServerID_String new @ [CHR 0x0A])"
        using "2.prems"(1) None e new by (auto split: option.splits)
      then show ?thesis using trim_newline [OF ServerID_String_visible [OF len]] ParseServerID_String [OF len] by simp
    qed
  qed
qed simp

section \<open>Properties\<close>

text \<open>
  The printed form of a server identity is read back as the same identity, for every 128-bit identity, so that two identities are
  never printed alike; what \<open>NewServerID\<close> makes of 16 random bytes is a version 4, variant 1 UUID.
\<close>

theorem server_id_round_trip:
  assumes "length b = 16" and "NewServerID (Inr b) = Inr sid"
  shows "ParseServerID (ServerID_String b) = Inr b \<and> ParseServerID (ServerID_String sid) = Inr sid
    \<and> (ServerID_String sid = ServerID_String b \<longleftrightarrow> sid = b)
    \<and> sid ! 6 AND 0xf0 = 0x40 \<and> sid ! 8 AND 0xc0 = 0x80"
proof -
  have s: "sid = b[6 := b ! 6 AND 0x0f OR 0x40, 8 := b ! 8 AND 0x3f OR 0x80]" using assms(2) by (simp add: NewServerID_def)
  have bits: "(x AND 0x0f OR 0x40) AND 0xf0 = (0x40 :: byte)" "(x AND 0x3f OR 0x80) AND 0xc0 = (0x80 :: byte)" for x
    by (simp_all add: bit.conj_disj_distrib2 and.assoc)
  have "length sid = 16" using s assms(1) by simp
  then show ?thesis using id_codec.decode_encode id_codec.encode_inj [of sid b] assms(1) s bits by simp
qed

theorem server_id_round_trip_witness:
  "ParseServerID (ServerID_String (replicate 16 255)) = Inr (replicate 16 255)
    \<and> (replicate 16 255)[6 := 79, 8 := 191 :: byte] ! 6 AND 0xf0 = 0x40"
  using server_id_round_trip [of "replicate 16 255" "(replicate 16 255)[6 := 79, 8 := 191]"]
  by (simp add: NewServerID_def)

text \<open>
  A server keeps its identity. Once a start has returned an identity, every later start that finds the file as
  it was left and can read it returns the same identity, whatever its random bytes and its
  other errors would be; this covers a start that lost the race to create the file to another process.
\<close>

theorem server_id_stable:
  assumes "loadOrCreateServerID dir envs configured fs = (Some (Inr (sid, path)), fs')"
    and "\<forall>env \<in> set envs. \<forall>b. env_rand env = Inr b \<longrightarrow> length b = 16" and "env_readErr env' = None"
  shows "loadOrCreateServerID dir (env' # envs') configured fs' = (Some (Inr (sid, path)), fs')"
proof -
  have p: "(if configured = '''' then dir else Inr configured) = Inr path" "loadOrCreateAt envs path fs = (Some (Inr sid), fs')"
    using assms(1) by (auto simp: loadOrCreateServerID_def split: sum.splits option.splits prod.splits)
  obtain data where "fs' path = Some data" "ParseServerID (TrimSpace data) = Inr sid"
    using loadOrCreateAt_stores [OF p(2) assms(2)] by blast
  then show ?thesis using p(1) assms(3) by (simp add: loadOrCreateServerID_def)
qed

definition demo_env :: id_env where
  "demo_env = \<lparr>env_readErr = None, env_mkdirErr = None, env_rand = Inr (replicate 16 0), env_race = None, env_openErr = None,
     env_writeErr = None, env_closeErr = None\<rparr>"

theorem server_id_stable_witness:
  "\<exists>sid fs'. loadOrCreateServerID (Inr ''d'') [demo_env] ''id'' Map.empty = (Some (Inr (sid, ''id'')), fs')
     \<and> loadOrCreateServerID (Inr ''d'') [demo_env\<lparr>env_rand := Inr (replicate 16 7)\<rparr>] ''id'' fs' = (Some (Inr (sid, ''id'')), fs')"
proof -
  obtain sid fs' where l: "loadOrCreateServerID (Inr ''d'') [demo_env] ''id'' Map.empty = (Some (Inr (sid, ''id'')), fs')"
    by (simp add: loadOrCreateServerID_def demo_env_def NewServerID_def)
  have "loadOrCreateServerID (Inr ''d'') (demo_env\<lparr>env_rand := Inr (replicate 16 7)\<rparr> # []) ''id'' fs' = (Some (Inr (sid, ''id'')), fs')"
    by (rule server_id_stable [OF l]) (auto simp: demo_env_def)
  then show ?thesis using l by blast
qed

end
