(* ===== verification/Send_Lock.thy ===== *)
theory Send_Lock
  imports Base Transition_System
begin

text \<open>
  The send lock of a packet connection, \<open>internal/ble/send_lock.go\<close>: a channel that holds one token. The two
  \<open>select\<close> statements of \<open>lockPacketSend\<close> are two operations, since other senders run in between; where
  several cases are ready Go picks one at random, and the argument \<open>pick\<close> is that choice. A step relation
  runs any number of senders; the properties are mutual exclusion and that no token is lost.
\<close>

section \<open>Model\<close>

record packetSendLock =
  psl_init :: bool
  psl_token :: nat

definition zeroLock :: packetSendLock where
  "zeroLock = \<lparr>psl_init = False, psl_token = 0\<rparr>"

definition lockInit :: "packetSendLock \<Rightarrow> packetSendLock" where
  "lockInit mu = (if psl_init mu then mu else \<lparr>psl_init = True, psl_token = 1\<rparr>)"

definition Unlock :: "packetSendLock \<Rightarrow> packetSendLock" where
  "Unlock mu = mu\<lparr>psl_token := psl_token mu + 1\<rparr>"

text \<open>The ready cases for a context (with its error when it is done) and the \<open>done\<close> channel.\<close>

definition cancelled :: "go_error option \<Rightarrow> bool \<Rightarrow> go_error list" where
  "cancelled ctx closed =
     (case ctx of Some e \<Rightarrow> [e] | None \<Rightarrow> []) @ (if closed then [Sentinel ErrPacketSendClosed] else [])"

definition pickFrom :: "nat \<Rightarrow> 'a list \<Rightarrow> 'a" where
  "pickFrom pick xs = xs ! (pick mod length xs)"

datatype lock_wait = LockWaits | LockFails go_error | LockTaken

definition lockSelect :: "go_error option \<Rightarrow> bool \<Rightarrow> nat \<Rightarrow> packetSendLock \<Rightarrow> lock_wait \<times> packetSendLock" where
  "lockSelect ctx closed pick mu0 =
     (let mu = lockInit mu0;
          ready = map LockFails (cancelled ctx closed) @ (if psl_token mu > 0 then [LockTaken] else []) in
      if ready = [] then (LockWaits, mu)
      else if pickFrom pick ready = LockTaken then (LockTaken, mu\<lparr>psl_token := psl_token mu - 1\<rparr>)
      else (pickFrom pick ready, mu))"

definition lockRecheck :: "go_error option \<Rightarrow> bool \<Rightarrow> nat \<Rightarrow> packetSendLock \<Rightarrow> go_error option \<times> packetSendLock" where
  "lockRecheck ctx closed pick mu =
     (let ready = cancelled ctx closed in
      if ready = [] then (None, mu) else (Some (pickFrom pick ready), Unlock mu))"

text \<open>The call as a whole when no other sender runs in between; \<open>None\<close> when it waits.\<close>

definition lockPacketSend ::
  "go_error option \<Rightarrow> bool \<Rightarrow> nat \<Rightarrow> packetSendLock \<Rightarrow> go_error option option \<times> packetSendLock" where
  "lockPacketSend ctx closed pick mu =
     (case lockSelect ctx closed pick mu of
        (LockWaits, mu1) \<Rightarrow> (None, mu1)
      | (LockFails e, mu1) \<Rightarrow> (Some (Some e), mu1)
      | (LockTaken, mu1) \<Rightarrow> (case lockRecheck ctx closed pick mu1 of (r, mu2) \<Rightarrow> (Some r, mu2)))"

section \<open>Senders\<close>

datatype phase = Idle | Acquiring | Checking | Sending

record senders =
  sd_lock :: packetSendLock
  sd_phase :: "nat \<Rightarrow> phase"

definition enter :: "nat \<Rightarrow> phase \<Rightarrow> packetSendLock \<Rightarrow> senders \<Rightarrow> senders" where
  "enter i ph mu s = s\<lparr>sd_lock := mu, sd_phase := (sd_phase s)(i := ph)\<rparr>"

inductive sender_step :: "senders \<Rightarrow> senders \<Rightarrow> bool" where
  begin_send: "sd_phase s i = Idle \<Longrightarrow> sender_step s (enter i Acquiring (lockInit (sd_lock s)) s)"
| acquire: "sd_phase s i = Acquiring \<Longrightarrow> lockSelect ctx closed pick (sd_lock s) = (LockTaken, mu) \<Longrightarrow>
    sender_step s (enter i Checking mu s)"
| give_up: "sd_phase s i = Acquiring \<Longrightarrow> lockSelect ctx closed pick (sd_lock s) = (LockFails e, mu) \<Longrightarrow>
    sender_step s (enter i Idle mu s)"
| granted: "sd_phase s i = Checking \<Longrightarrow> lockRecheck ctx closed pick (sd_lock s) = (None, mu) \<Longrightarrow>
    sender_step s (enter i Sending mu s)"
| withdrawn: "sd_phase s i = Checking \<Longrightarrow> lockRecheck ctx closed pick (sd_lock s) = (Some e, mu) \<Longrightarrow>
    sender_step s (enter i Idle mu s)"
| release: "sd_phase s i = Sending \<Longrightarrow> sender_step s (enter i Idle (Unlock (sd_lock s)) s)"

definition idle_senders :: senders where
  "idle_senders = \<lparr>sd_lock = zeroLock, sd_phase = (\<lambda>_. Idle)\<rparr>"

definition senders_reach :: "senders \<Rightarrow> bool" where
  "senders_reach = sender_step\<^sup>*\<^sup>* idle_senders"

lemma senders_start: "senders_reach idle_senders"
  by (simp add: senders_reach_def)

lemma senders_next: "senders_reach s \<Longrightarrow> sender_step s s' \<Longrightarrow> senders_reach s'"
  by (simp add: senders_reach_def)

inductive_cases sender_stepE: "sender_step s s'"

section \<open>Invariant\<close>

definition holds :: "senders \<Rightarrow> nat \<Rightarrow> bool" where
  "holds s i \<longleftrightarrow> sd_phase s i = Checking \<or> sd_phase s i = Sending"

text \<open>The token is in the channel, or exactly one sender has it.\<close>

definition token_ok :: "senders \<Rightarrow> bool" where
  "token_ok s \<longleftrightarrow>
     (if psl_init (sd_lock s) then
        psl_token (sd_lock s) = 1 \<and> (\<forall>i. \<not> holds s i)
        \<or> psl_token (sd_lock s) = 0 \<and> (\<exists>i. holds s i \<and> (\<forall>j. holds s j \<longrightarrow> j = i))
      else (\<forall>i. sd_phase s i = Idle))"

lemma lockInit_simps [simp]:
  "psl_init (lockInit mu)" "psl_init mu \<Longrightarrow> lockInit mu = mu" "\<not> psl_init mu \<Longrightarrow> psl_token (lockInit mu) = 1"
  by (simp_all add: lockInit_def)

lemma lockSelect_taken:
  assumes "lockSelect ctx closed pick mu0 = (LockTaken, mu)"
  shows "mu = (lockInit mu0)\<lparr>psl_token := psl_token (lockInit mu0) - 1\<rparr>" and "0 < psl_token (lockInit mu0)"
proof -
  let ?fails = "map LockFails (cancelled ctx closed)"
  have no: "pickFrom pick ?fails \<noteq> LockTaken" if "?fails \<noteq> []"
    using that by (auto simp: pickFrom_def)
  show "mu = (lockInit mu0)\<lparr>psl_token := psl_token (lockInit mu0) - 1\<rparr>"
    using assms by (auto simp: lockSelect_def Let_def split: if_splits)
  show "0 < psl_token (lockInit mu0)"
    using assms no by (auto simp: lockSelect_def Let_def split: if_splits)
qed

lemma lockSelect_fails: "lockSelect ctx closed pick mu0 = (LockFails e, mu) \<Longrightarrow> mu = lockInit mu0"
  by (auto simp: lockSelect_def Let_def split: if_splits)

lemma lockRecheck_result:
  "lockRecheck ctx closed pick mu = (None, mu') \<Longrightarrow> mu' = mu"
  "lockRecheck ctx closed pick mu = (Some e, mu') \<Longrightarrow> mu' = Unlock mu"
  by (auto simp: lockRecheck_def Let_def split: if_splits)

lemma holds_enter: "holds (enter i ph mu s) j \<longleftrightarrow> (if j = i then ph = Checking \<or> ph = Sending else holds s j)"
  by (simp add: holds_def enter_def)

lemma lock_enter [simp]: "sd_lock (enter i ph mu s) = mu"
  by (simp add: enter_def)

lemma token_ok_init: "token_ok s \<Longrightarrow> sd_phase s i \<noteq> Idle \<Longrightarrow> psl_init (sd_lock s)"
  by (auto simp: token_ok_def split: if_splits)

lemma token_ok_free: "psl_init (sd_lock s) \<Longrightarrow> psl_token (sd_lock s) = 1 \<Longrightarrow> (\<And>i. \<not> holds s i) \<Longrightarrow> token_ok s"
  by (simp add: token_ok_def)

lemma token_ok_held:
  "psl_init (sd_lock s) \<Longrightarrow> psl_token (sd_lock s) = 0 \<Longrightarrow> holds s i \<Longrightarrow> (\<And>j. holds s j \<Longrightarrow> j = i) \<Longrightarrow> token_ok s"
  by (auto simp: token_ok_def)

lemma token_ok_holder:
  assumes "token_ok s" and "holds s i"
  shows "psl_init (sd_lock s)" and "psl_token (sd_lock s) = 0" and "holds s j \<Longrightarrow> j = i"
proof -
  show i: "psl_init (sd_lock s)" using assms by (intro token_ok_init [of s i]) (auto simp: holds_def)
  then show "psl_token (sd_lock s) = 0" "holds s j \<Longrightarrow> j = i" using assms by (auto simp: token_ok_def)
qed

lemma token_ok_same:
  assumes "token_ok s" and "psl_init (sd_lock s)" and "sd_lock s' = sd_lock s" and "\<And>j. holds s' j = holds s j"
  shows "token_ok s'"
  using assms by (simp add: token_ok_def)

lemma token_ok_step:
  assumes "sender_step s s'" and "token_ok s"
  shows "token_ok s'"
  using assms(1)
proof (cases rule: sender_step.cases)
  case (begin_send i)
  have h: "holds s' j = holds s j" for j using begin_send by (auto simp: holds_def enter_def)
  show ?thesis
  proof (cases "psl_init (sd_lock s)")
    case True
    then show ?thesis using begin_send(1) h by (intro token_ok_same [OF assms(2)]) simp_all
  next
    case False
    then have "\<not> holds s j" for j using assms(2) by (simp add: token_ok_def holds_def)
    then show ?thesis using False begin_send(1) h by (intro token_ok_free) simp_all
  qed
next
  case (acquire i ctx closed pick mu)
  have i: "psl_init (sd_lock s)" using token_ok_init [OF assms(2), of i] acquire(2) by simp
  note t = lockSelect_taken [OF acquire(3)]
  have tok: "psl_token (sd_lock s) = 1" "\<not> holds s j" for j
    using assms(2) i t(2) by (auto simp: token_ok_def)
  show ?thesis
  proof (rule token_ok_held)
    show "holds s' i" using acquire(1) by (simp add: holds_enter)
    show "j = i" if "holds s' j" for j using that tok(2) acquire(1) by (simp add: holds_enter split: if_splits)
  qed (use i t(1) tok(1) acquire(1) in simp_all)
next
  case (give_up i ctx closed pick e mu)
  have i: "psl_init (sd_lock s)" using token_ok_init [OF assms(2), of i] give_up(2) by simp
  have "holds s' j = holds s j" for j using give_up by (auto simp: holds_def enter_def)
  then show ?thesis using i lockSelect_fails [OF give_up(3)] give_up(1) by (intro token_ok_same [OF assms(2)]) simp_all
next
  case (granted i ctx closed pick mu)
  have i: "psl_init (sd_lock s)" using token_ok_init [OF assms(2), of i] granted(2) by simp
  have "holds s' j = holds s j" for j using granted by (auto simp: holds_def enter_def)
  then show ?thesis using i lockRecheck_result(1) [OF granted(3)] granted(1) by (intro token_ok_same [OF assms(2)]) simp_all
next
  case (withdrawn i ctx closed pick e mu)
  then have "holds s i" by (simp add: holds_def)
  note h = token_ok_holder [OF assms(2) this]
  have "\<not> holds s' j" for j using h(3) withdrawn(1) by (auto simp: holds_enter)
  then show ?thesis using h(1,2) lockRecheck_result(2) [OF withdrawn(3)] withdrawn(1) by (intro token_ok_free) (simp_all add: Unlock_def)
next
  case (release i)
  then have "holds s i" by (simp add: holds_def)
  note h = token_ok_holder [OF assms(2) this]
  have "\<not> holds s' j" for j using h(3) release(1) by (auto simp: holds_enter)
  then show ?thesis using h(1,2) release(1) by (intro token_ok_free) (simp_all add: Unlock_def)
qed

interpretation sender_runs: transition_system "\<lambda>s. s = idle_senders" sender_step token_ok
proof
  show "token_ok s" if "s = idle_senders" for s using that by (simp add: token_ok_def idle_senders_def zeroLock_def)
qed (rule token_ok_step)

lemma senders_ok: "senders_reach s \<Longrightarrow> token_ok s"
  unfolding senders_reach_def by (rule sender_runs.run_inv [OF refl])

section \<open>Property\<close>

text \<open>
  C25: at most one sender writes to a connection at a time, and no token is lost: in every state any number of
  senders can reach, whatever contexts expire and connections close in between, two senders are never both past the lock,
  and when none is past it a sender that asks for the lock gets it or gives up, but does not wait.
\<close>

theorem send_lock_exclusive:
  assumes "senders_reach s"
  shows "(sd_phase s i = Sending \<and> sd_phase s j = Sending \<longrightarrow> i = j)
    \<and> ((\<forall>k. \<not> holds s k) \<longrightarrow> fst (lockSelect ctx closed pick (sd_lock s)) \<noteq> LockWaits)"
proof -
  have ok: "token_ok s" by (rule senders_ok [OF assms])
  have "i = j" if "sd_phase s i = Sending" "sd_phase s j = Sending"
  proof -
    have "holds s i" "holds s j" using that by (simp_all add: holds_def)
    moreover have "psl_init (sd_lock s)" using token_ok_init [OF ok, of i] that(1) by simp
    ultimately show ?thesis using ok by (auto simp: token_ok_def)
  qed
  moreover have "0 < psl_token (lockInit (sd_lock s))" if "\<forall>k. \<not> holds s k"
    using ok that by (cases "psl_init (sd_lock s)") (auto simp: token_ok_def)
  then have "fst (lockSelect ctx closed pick (sd_lock s)) \<noteq> LockWaits" if "\<forall>k. \<not> holds s k"
    using that by (auto simp: lockSelect_def Let_def pickFrom_def nth_append)
  ultimately show ?thesis by blast
qed


theorem send_lock_exclusive_witness:
  "\<exists>s. senders_reach s \<and> sd_phase s 1 = Sending \<and> (sd_phase s 1 = Sending \<and> sd_phase s 2 = Sending \<longrightarrow> (1 :: nat) = 2)"
proof -
  define s0 where "s0 = idle_senders"
  define s1 where "s1 = enter 1 Acquiring (lockInit (sd_lock s0)) s0"
  define s2 where "s2 = enter 1 Checking \<lparr>psl_init = True, psl_token = 0\<rparr> s1"
  define s3 where "s3 = enter 1 Sending (sd_lock s2) s2"
  have "senders_reach s1"
    using senders_next [OF senders_start begin_send [of _ 1]] by (simp add: s0_def s1_def idle_senders_def)
  moreover have "lockSelect None False 0 (sd_lock s1) = (LockTaken, \<lparr>psl_init = True, psl_token = 0\<rparr>)"
    by (simp add: s1_def s0_def idle_senders_def zeroLock_def lockInit_def lockSelect_def cancelled_def pickFrom_def)
  then have "sender_step s1 s2" unfolding s2_def by (rule acquire [rotated]) (simp add: s1_def enter_def)
  moreover have "lockRecheck None False 0 (sd_lock s2) = (None, sd_lock s2)" by (simp add: lockRecheck_def cancelled_def)
  then have "sender_step s2 s3" unfolding s3_def by (rule granted [rotated]) (simp add: s2_def enter_def)
  ultimately have "senders_reach s3" by (blast intro: senders_next)
  then show ?thesis
    using send_lock_exclusive [of s3 1 2] by (intro exI [of _ s3]) (simp add: s3_def enter_def)
qed

end
