(* ===== verification/Packet_Conn.thy ===== *)
theory Packet_Conn
  imports Send_Lock "HOL-Library.Sublist"
begin

text \<open>
  The packet connections over GATT characteristics: \<open>clientPacketConn\<close> of \<open>internal/ble/client_conn.go\<close>, and
  \<open>serverPacketConn\<close> with the listener \<open>peripheralServer\<close> of \<open>internal/ble/server_supported.go\<close>. What the
  Bluetooth stack returns (the results of writes, whether the device is connected) is an argument of the
  operations. Both connections pass packets through the same two bounded queues with a goroutine in between.
\<close>

section \<open>The two queues\<close>

record packetQueue =
  pq_incoming :: "bytes list"
  pq_held :: "bytes option"
  pq_receive :: "bytes list"
  pq_receiveClosed :: bool
  pq_done :: bool

definition queueCap :: nat where "queueCap = 128"

definition newQueue :: packetQueue where
  "newQueue = \<lparr>pq_incoming = [], pq_held = None, pq_receive = [], pq_receiveClosed = False, pq_done = False\<rparr>"

text \<open>The notification callback: a packet for which there is no room is dropped.\<close>

definition pushPacket :: "bool \<Rightarrow> bytes \<Rightarrow> packetQueue \<Rightarrow> packetQueue" where
  "pushPacket pick packet q =
     (if length (pq_incoming q) < queueCap \<and> (\<not> pq_done q \<or> pick)
      then q\<lparr>pq_incoming := pq_incoming q @ [packet]\<rparr> else q)"

text \<open>One step of \<open>forward\<close>, which holds at most one packet; the flag \<open>pick\<close> prefers \<open>done\<close> where both are ready.\<close>

definition forwardStep :: "bool \<Rightarrow> packetQueue \<Rightarrow> packetQueue" where
  "forwardStep pick q =
     (if pq_receiveClosed q then q
      else
        case pq_held q of
          None \<Rightarrow>
            if pq_done q \<and> (pick \<or> pq_incoming q = []) then q\<lparr>pq_receiveClosed := True\<rparr>
            else (case pq_incoming q of
                    [] \<Rightarrow> q
                  | packet # rest \<Rightarrow> q\<lparr>pq_incoming := rest, pq_held := Some packet\<rparr>)
        | Some packet \<Rightarrow>
            if pq_done q \<and> (pick \<or> length (pq_receive q) \<ge> queueCap)
            then q\<lparr>pq_held := None, pq_receiveClosed := True\<rparr>
            else if length (pq_receive q) < queueCap
            then q\<lparr>pq_held := None, pq_receive := pq_receive q @ [packet]\<rparr>
            else q)"

text \<open>The reader of \<open>Receive()\<close>: the next packet, if one waits.\<close>

definition receivePacket :: "packetQueue \<Rightarrow> bytes option \<times> packetQueue" where
  "receivePacket q =
     (case pq_receive q of [] \<Rightarrow> (None, q) | packet # rest \<Rightarrow> (Some packet, q\<lparr>pq_receive := rest\<rparr>))"

section \<open>Client connections\<close>

record clientPacketConn =
  cc_mtu :: int
  cc_serverID :: string
  cc_queue :: packetQueue
  cc_withACK :: bool
  cc_notifying :: bool
  cc_disconnects :: nat
  cc_onCloses :: nat

definition maxPacketMTU :: int where "maxPacketMTU = 244"

text \<open>\<open>GetMTU\<close> of a characteristic: a 16-bit value or an error.\<close>

definition packetMTU :: "go_error + u16 \<Rightarrow> int" where
  "packetMTU r =
     (case r of Inl e \<Rightarrow> 20 | Inr mtu \<Rightarrow> if mtu \<le> 3 then 20 else min (uint mtu - 3) maxPacketMTU)"

definition newClientPacketConn :: "string \<Rightarrow> go_error + u16 \<Rightarrow> go_error + u16 \<Rightarrow> clientPacketConn" where
  "newClientPacketConn serverID rx tx =
     \<lparr>cc_mtu = min (packetMTU rx) (packetMTU tx), cc_serverID = serverID, cc_queue = newQueue, cc_withACK = False,
      cc_notifying = False, cc_disconnects = 0, cc_onCloses = 0\<rparr>"

text \<open>\<open>once\<close> has run exactly when \<open>done\<close> is closed.\<close>

definition clientClose :: "bool \<Rightarrow> clientPacketConn \<Rightarrow> clientPacketConn" where
  "clientClose disconnect c =
     (if pq_done (cc_queue c) then c
      else c\<lparr>cc_queue := (cc_queue c)\<lparr>pq_done := True\<rparr>, cc_notifying := False,
             cc_disconnects := cc_disconnects c + (if disconnect then 1 else 0), cc_onCloses := cc_onCloses c + 1\<rparr>)"

definition clientStart :: "go_error option \<Rightarrow> clientPacketConn \<Rightarrow> go_error option \<times> clientPacketConn" where
  "clientStart enableErr c = (case enableErr of Some e \<Rightarrow> (Some e, c) | None \<Rightarrow> (None, c\<lparr>cc_notifying := True\<rparr>))"

definition monitorTick :: "go_error + bool \<Rightarrow> clientPacketConn \<Rightarrow> clientPacketConn" where
  "monitorTick connected c =
     (if pq_done (cc_queue c) then c
      else case connected of Inl e \<Rightarrow> clientClose False c | Inr b \<Rightarrow> if b then c else clientClose False c)"

text \<open>
  The checks before the lock; \<open>ctx\<close> is the context's error when it is done, \<open>pick\<close> the choice when both are
  ready. Then the write under the lock, with the results of the two GATT writes.
\<close>

definition sendGuard :: "go_error option \<Rightarrow> bool \<Rightarrow> bool \<Rightarrow> go_error option" where
  "sendGuard ctx closed pick =
     (case ctx of
        Some e \<Rightarrow> if closed \<and> pick then Some (Sentinel ErrClosedPipe) else Some e
      | None \<Rightarrow> if closed then Some (Sentinel ErrClosedPipe) else None)"

definition clientWrite :: "go_error option \<Rightarrow> go_error option \<Rightarrow> clientPacketConn \<Rightarrow> go_error option \<times> clientPacketConn" where
  "clientWrite withoutResponse withResponse c =
     (let (err, c1) =
        (if cc_withACK c then (withResponse, c)
         else case withoutResponse of
                None \<Rightarrow> (None, c)
              | Some e \<Rightarrow> (case withResponse of None \<Rightarrow> (None, c\<lparr>cc_withACK := True\<rparr>) | Some e2 \<Rightarrow> (Some e2, c))) in
      (err, if err \<noteq> None then clientClose False c1 else c1))"

definition clientSend ::
  "go_error option \<Rightarrow> bool \<Rightarrow> go_error option \<Rightarrow> go_error option \<Rightarrow> go_error option \<Rightarrow> bytes \<Rightarrow> clientPacketConn
   \<Rightarrow> go_error option \<times> clientPacketConn" where
  "clientSend ctx pick lockErr withoutResponse withResponse packet c =
     (if len packet > cc_mtu c then (Some (ErrorText ''BLE packet exceeds negotiated MTU''), c)
      else case sendGuard ctx (pq_done (cc_queue c)) pick of
             Some e \<Rightarrow> (Some e, c)
           | None \<Rightarrow> (case lockErr of Some e \<Rightarrow> (Some e, c) | None \<Rightarrow> clientWrite withoutResponse withResponse c))"

section \<open>Server connections\<close>

text \<open>\<open>Send\<close> of a server connection: the checks are repeated under the lock.\<close>

definition serverSend ::
  "go_error option \<Rightarrow> bool \<Rightarrow> go_error option \<Rightarrow> go_error option \<Rightarrow> bool \<Rightarrow> go_error option \<Rightarrow> bytes \<Rightarrow> packetQueue
   \<Rightarrow> go_error option" where
  "serverSend ctx pick lockErr ctx2 closed2 writeErr packet q =
     (if len packet > maxPacketMTU then Some (ErrorText ''BLE packet exceeds maximum MTU'')
      else case sendGuard ctx (pq_done q) pick of
             Some e \<Rightarrow> Some e
           | None \<Rightarrow>
               case lockErr of
                 Some e \<Rightarrow> Some e
               | None \<Rightarrow> (case sendGuard ctx2 closed2 pick of Some e \<Rightarrow> Some e | None \<Rightarrow> writeErr))"

section \<open>The listener\<close>

text \<open>
  Connections live in a heap, \<open>ps_conns\<close>; a pointer is an index. \<open>ps_connections\<close> is the channel of connections
  that wait for \<open>Accept\<close>, with room for one.
\<close>

record peripheralServer =
  ps_conns :: "packetQueue list"
  ps_current :: "nat option"
  ps_connections :: "nat list"
  ps_done :: bool
  ps_advertising :: bool
  ps_registered :: bool
  ps_restartable :: bool
  ps_restarting :: bool

definition newPeripheralServer :: "bool \<Rightarrow> peripheralServer" where
  "newPeripheralServer advertising =
     \<lparr>ps_conns = [], ps_current = None, ps_connections = [], ps_done = False, ps_advertising = advertising,
      ps_registered = True, ps_restartable = True, ps_restarting = False\<rparr>"

definition isClosed :: "nat \<Rightarrow> peripheralServer \<Rightarrow> bool" where
  "isClosed p s = pq_done (ps_conns s ! p)"

text \<open>\<open>close\<close> of a connection with its \<open>onClose\<close>, which forgets it when it is still the current one.\<close>

definition serverConnClose :: "nat \<Rightarrow> peripheralServer \<Rightarrow> peripheralServer" where
  "serverConnClose p s =
     (if isClosed p s then s
      else s\<lparr>ps_conns := (ps_conns s)[p := (ps_conns s ! p)\<lparr>pq_done := True\<rparr>],
             ps_current := (if ps_current s = Some p then None else ps_current s)\<rparr>)"

definition closeCurrent :: "peripheralServer \<Rightarrow> peripheralServer" where
  "closeCurrent s =
     (case ps_current s of None \<Rightarrow> s | Some p \<Rightarrow> serverConnClose p (s\<lparr>ps_current := None\<rparr>))"

definition ensureConnection :: "bool \<Rightarrow> peripheralServer \<Rightarrow> nat \<times> peripheralServer" where
  "ensureConnection pick s =
     (let fresh = (let p = length (ps_conns s);
                       s1 = s\<lparr>ps_conns := ps_conns s @ [newQueue], ps_current := Some p\<rparr>;
                       room = ps_connections s1 = [] in
                   if room \<and> (\<not> ps_done s1 \<or> pick) then (p, s1\<lparr>ps_connections := ps_connections s1 @ [p]\<rparr>)
                   else (p, serverConnClose p s1)) in
      case ps_current s of
        Some p \<Rightarrow> if \<not> isClosed p s then (p, s) else fresh
      | None \<Rightarrow> fresh)"

text \<open>A GATT write of the central: the packet goes to the current connection.\<close>

definition onWrite :: "bool \<Rightarrow> bool \<Rightarrow> bytes \<Rightarrow> peripheralServer \<Rightarrow> peripheralServer" where
  "onWrite pick1 pick2 packet s =
     (case ensureConnection pick1 s of (p, s1) \<Rightarrow>
        s1\<lparr>ps_conns := (ps_conns s1)[p := pushPacket pick2 packet (ps_conns s1 ! p)]\<rparr>)"

text \<open>\<open>Accept\<close>, with the error of its context when that is done; \<open>None\<close> when it waits.\<close>

definition listenerAccept :: "go_error option \<Rightarrow> nat \<Rightarrow> peripheralServer \<Rightarrow> (go_error + nat) option \<times> peripheralServer" where
  "listenerAccept ctx pick s =
     (let ready = (case ctx of Some e \<Rightarrow> [Inl e] | None \<Rightarrow> []) @ (if ps_done s then [Inl (Sentinel ErrClosedPipe)] else [])
                    @ map Inr (take 1 (ps_connections s)) in
      if ready = [] then (None, s)
      else case pickFrom pick ready of
             Inl e \<Rightarrow> (Some (Inl e), s)
           | Inr p \<Rightarrow> (Some (Inr p), s\<lparr>ps_connections := tl (ps_connections s)\<rparr>))"

definition listenerClose :: "go_error option \<Rightarrow> go_error option \<Rightarrow> peripheralServer \<Rightarrow> go_error option \<times> peripheralServer" where
  "listenerClose stopErr removeErr s =
     (if ps_done s then (None, s)
      else
        let s1 = closeCurrent (s\<lparr>ps_done := True\<rparr>);
            e1 = (if ps_advertising s1 then stopErr else None) in
        (if e1 = None then removeErr else e1, s1\<lparr>ps_advertising := False, ps_registered := False\<rparr>))"

text \<open>
  The connect handler: a disconnected central ends the current connection, and on Windows the advertisement is restarted.
  \<open>scheduleAdvertisementRestart\<close>: at most one restart runs at a time, and it tries three times. The results of
  the attempts and, before each attempt, whether the server is closed, are arguments.
\<close>

definition restartBegin :: "peripheralServer \<Rightarrow> bool \<times> peripheralServer" where
  "restartBegin s = (if \<not> ps_restartable s \<or> ps_restarting s then (False, s) else (True, s\<lparr>ps_restarting := True\<rparr>))"

definition centralDisconnected :: "string \<Rightarrow> peripheralServer \<Rightarrow> peripheralServer" where
  "centralDisconnected goos s = (let s1 = closeCurrent s in if goos = ''windows'' then snd (restartBegin s1) else s1)"

fun restartAttempts :: "nat \<Rightarrow> (bool \<times> go_error option) list \<Rightarrow> nat \<times> bool" where
  "restartAttempts attempt [] = (attempt - 1, False)"
| "restartAttempts attempt ((closed, r) # rest) =
     (if attempt > 3 \<or> closed then (attempt - 1, False)
      else if r = None then (attempt, True)
      else restartAttempts (attempt + 1) rest)"

definition restartEnd :: "peripheralServer \<Rightarrow> peripheralServer" where
  "restartEnd s = s\<lparr>ps_restarting := False\<rparr>"


section \<open>Starting the listener\<close>

text \<open>
  \<open>StartServerWithOptions\<close>: the calls into the Bluetooth stack, in order, with the result of each as an
  argument. The generic advertisement is used everywhere but on Windows.
\<close>

datatype ble_call =
    EnableAdapter | CheckAdapter | AddService | ConfigureAdvertisement | StartAdvertisement
  | StopAdvertisement | RemoveService

record start_results =
  sr_enable :: "go_error option"
  sr_check :: "go_error option"
  sr_addService :: "go_error option"
  sr_configure :: "go_error option"
  sr_start :: "go_error option"

definition genericAdvertisement :: "string \<Rightarrow> bool" where
  "genericAdvertisement goos \<longleftrightarrow> goos \<noteq> ''windows''"

definition startAdvertisement :: "string \<Rightarrow> start_results \<Rightarrow> ble_call list \<times> (go_error + peripheralServer)" where
  "startAdvertisement goos r =
     (if \<not> genericAdvertisement goos then ([], Inr (newPeripheralServer False))
      else
        case sr_configure r of
          Some e \<Rightarrow> ([ConfigureAdvertisement, StopAdvertisement, RemoveService], Inl e)
        | None \<Rightarrow>
            case sr_start r of
              Some e \<Rightarrow> ([ConfigureAdvertisement, StartAdvertisement, StopAdvertisement, RemoveService], Inl e)
            | None \<Rightarrow> ([ConfigureAdvertisement, StartAdvertisement], Inr (newPeripheralServer True)))"

definition StartServerWithOptions :: "string \<Rightarrow> bool \<Rightarrow> start_results \<Rightarrow> ble_call list \<times> (go_error + peripheralServer)" where
  "StartServerWithOptions goos skipChecks r =
     (case sr_enable r of
        Some e \<Rightarrow> ([EnableAdapter], Inl e)
      | None \<Rightarrow>
          let checks = (if skipChecks then [] else [CheckAdapter]) in
          case (if skipChecks then None else sr_check r) of
            Some e \<Rightarrow> (EnableAdapter # checks, Inl e)
          | None \<Rightarrow>
              case sr_addService r of
                Some e \<Rightarrow> (EnableAdapter # checks @ [AddService], Inl e)
              | None \<Rightarrow>
                  (case startAdvertisement goos r of (calls, res) \<Rightarrow> (EnableAdapter # checks @ [AddService] @ calls, res)))"

section \<open>Queues: order and bounds\<close>

datatype queue_event = Pushed bool bytes | Forwarded bool | Received | Ended

fun queueStep :: "queue_event \<Rightarrow> bytes list \<times> packetQueue \<Rightarrow> bytes list \<times> packetQueue" where
  "queueStep (Pushed pick packet) (got, q) = (got, pushPacket pick packet q)"
| "queueStep (Forwarded pick) (got, q) = (got, forwardStep pick q)"
| "queueStep Received (got, q) =
     (case receivePacket q of (None, q1) \<Rightarrow> (got, q1) | (Some packet, q1) \<Rightarrow> (got @ [packet], q1))"
| "queueStep Ended (got, q) = (got, q\<lparr>pq_done := True\<rparr>)"

definition packetsOf :: "queue_event \<Rightarrow> bytes list" where
  "packetsOf e = (case e of Pushed pick packet \<Rightarrow> [packet] | _ \<Rightarrow> [])"

text \<open>Everything on its way, oldest first.\<close>

definition contents :: "bytes list \<times> packetQueue \<Rightarrow> bytes list" where
  "contents st = fst st @ pq_receive (snd st) @ (case pq_held (snd st) of Some p \<Rightarrow> [p] | None \<Rightarrow> []) @ pq_incoming (snd st)"

definition queue_bounded :: "packetQueue \<Rightarrow> bool" where
  "queue_bounded q \<longleftrightarrow> length (pq_incoming q) \<le> queueCap \<and> length (pq_receive q) \<le> queueCap"

lemma queueStep_bounded: "queue_bounded (snd st) \<Longrightarrow> queue_bounded (snd (queueStep e st))"
  by (cases e; cases st)
    (auto simp: queue_bounded_def pushPacket_def forwardStep_def receivePacket_def split: option.splits list.splits)

lemma queueStep_contents: "subseq (contents (queueStep e st)) (contents st @ packetsOf e)"
proof (cases e)
  case (Pushed pick packet)
  then have "contents (queueStep e st) = contents st \<or> contents (queueStep e st) = contents st @ packetsOf e"
    by (cases st) (simp add: contents_def packetsOf_def pushPacket_def split: option.splits)
  moreover have "subseq (contents st) (contents st @ packetsOf e)" by (rule prefix_imp_subseq) simp
  ultimately show ?thesis by auto
next
  case (Forwarded pick)
  have "subseq (a @ b @ c) (a @ b @ x # c)" for a b c and x :: bytes
    by (intro list_emb_append_mono) (auto intro: list_emb_Cons)
  then show ?thesis
    using Forwarded by (cases st) (auto simp: contents_def packetsOf_def forwardStep_def split: option.splits list.splits)
next
  case Received
  then show ?thesis
    by (cases st) (auto simp: contents_def packetsOf_def receivePacket_def split: option.splits list.splits)
next
  case Ended
  then show ?thesis by (cases st) (simp add: contents_def packetsOf_def)
qed

lemma queue_run:
  assumes "subseq (contents st) sent" and "queue_bounded (snd st)"
  shows "subseq (contents (fold queueStep es st)) (sent @ concat (map packetsOf es)) \<and> queue_bounded (snd (fold queueStep es st))"
  using assms
proof (induction es arbitrary: st sent)
  case (Cons e es)
  have "subseq (contents (queueStep e st)) (sent @ packetsOf e)"
    using queueStep_contents [of e st] Cons.prems(1) by (meson list_emb_append_mono subseq_order.order_trans subseq_order.order_refl)
  then show ?case
    using Cons.IH [of "queueStep e st" "sent @ packetsOf e"] queueStep_bounded [OF Cons.prems(2)] by simp
qed simp


section \<open>The listener has one open connection\<close>

definition one_open :: "packetQueue list \<Rightarrow> nat option \<Rightarrow> bool" where
  "one_open conns current \<longleftrightarrow> (\<forall>p < length conns. pq_done (conns ! p) \<or> current = Some p)
     \<and> (case current of None \<Rightarrow> True | Some p \<Rightarrow> p < length conns)"

definition listener_ok :: "peripheralServer \<Rightarrow> bool" where
  "listener_ok s \<longleftrightarrow> one_open (ps_conns s) (ps_current s)
     \<and> length (ps_connections s) \<le> 1 \<and> list_all (\<lambda>p. p < length (ps_conns s)) (ps_connections s)"

lemma one_open_close:
  assumes "one_open conns current" and "p < length conns"
  shows "one_open (conns[p := (conns ! p)\<lparr>pq_done := True\<rparr>]) (if current = Some p then None else current)"
    and "current = Some p \<Longrightarrow> one_open (conns[p := (conns ! p)\<lparr>pq_done := True\<rparr>]) None"
  using assms by (simp_all add: one_open_def nth_list_update split: option.splits) blast+

lemma one_open_forget: "one_open conns (Some p) \<Longrightarrow> pq_done (conns ! p) \<Longrightarrow> one_open conns None"
  by (auto simp: one_open_def)

lemma one_open_same:
  assumes "one_open conns current" and "p < length conns" and "pq_done c = pq_done (conns ! p)"
  shows "one_open (conns[p := c]) current"
  using assms by (simp add: one_open_def nth_list_update split: option.splits)

lemma one_open_new: "one_open conns current \<Longrightarrow> list_all pq_done conns \<Longrightarrow> one_open (conns @ [q]) (Some (length conns))"
  by (simp add: one_open_def list_all_length nth_append less_Suc_eq)

lemma one_open_all_done:
  assumes "one_open conns current" and "current = None \<or> pq_done (conns ! the current)"
  shows "list_all pq_done conns"
  using assms by (auto simp: one_open_def list_all_length)

lemma serverConnClose_ok:
  assumes "listener_ok s" and "p < length (ps_conns s)"
  shows "listener_ok (serverConnClose p s)" and "length (ps_conns (serverConnClose p s)) = length (ps_conns s)"
  using assms one_open_close(1) [of "ps_conns s" "ps_current s" p] by (simp_all add: listener_ok_def serverConnClose_def)

lemma closeCurrent_ok:
  assumes "listener_ok s"
  shows "listener_ok (closeCurrent s)"
proof (cases "ps_current s")
  case (Some p)
  have o: "one_open (ps_conns s) (Some p)" and p: "p < length (ps_conns s)"
    using assms Some by (simp_all add: listener_ok_def one_open_def)
  show ?thesis
    using assms Some one_open_close(2) [OF o p refl] one_open_forget [OF o]
    by (simp add: closeCurrent_def serverConnClose_def listener_ok_def isClosed_def)
qed (simp add: assms closeCurrent_def)

lemma ensureConnection_ok:
  assumes ok: "listener_ok s" and run: "ensureConnection pick s = (p, s')"
  shows "listener_ok s'" and "p < length (ps_conns s')"
proof -
  let ?n = "length (ps_conns s)"
  let ?s1 = "s\<lparr>ps_conns := ps_conns s @ [newQueue], ps_current := Some ?n\<rparr>"
  have o: "one_open (ps_conns s) (ps_current s)" using ok by (simp add: listener_ok_def)
  have "listener_ok s' \<and> p < length (ps_conns s')"
  proof (cases "\<exists>q. ps_current s = Some q \<and> \<not> isClosed q s")
    case True
    then show ?thesis using run ok o by (auto simp: ensureConnection_def one_open_def)
  next
    case False
    then have "list_all pq_done (ps_conns s)"
      using one_open_all_done [OF o] by (cases "ps_current s") (simp_all add: isClosed_def)
    then have s1: "listener_ok ?s1"
      using ok one_open_new [OF o] by (auto simp: listener_ok_def list_all_iff less_SucI)
    have eq: "(p, s') = (if ps_connections s = [] \<and> (\<not> ps_done s \<or> pick) then (?n, ?s1\<lparr>ps_connections := ps_connections s @ [?n]\<rparr>)
        else (?n, serverConnClose ?n ?s1))"
      unfolding run [symmetric] using False by (cases "ps_current s") (auto simp: ensureConnection_def Let_def)
    show ?thesis
    proof (cases "ps_connections s = [] \<and> (\<not> ps_done s \<or> pick)")
      case True
      then show ?thesis using eq s1 by (simp add: listener_ok_def)
    next
      case False
      then have "p = ?n" "s' = serverConnClose ?n ?s1" using eq by (auto split: if_splits)
      then show ?thesis using serverConnClose_ok [OF s1, of ?n] by simp
    qed
  qed
  then show "listener_ok s'" "p < length (ps_conns s')" by blast+
qed

lemma pushPacket_done [simp]: "pq_done (pushPacket pick packet q) = pq_done q"
  by (simp add: pushPacket_def)

lemma onWrite_ok:
  assumes "listener_ok s"
  shows "listener_ok (onWrite pick1 pick2 packet s)"
proof -
  obtain p s1 where e: "ensureConnection pick1 s = (p, s1)" by fastforce
  note k = ensureConnection_ok [OF assms e]
  then show ?thesis
    using one_open_same [of "ps_conns s1" "ps_current s1" p "pushPacket pick2 packet (ps_conns s1 ! p)"]
    by (simp add: onWrite_def e listener_ok_def)
qed

inductive listener_step :: "peripheralServer \<Rightarrow> peripheralServer \<Rightarrow> bool" where
  lr_write: "listener_step s (onWrite pick1 pick2 packet s)"
| lr_gone: "listener_step s (centralDisconnected goos s)"
| lr_accept: "listener_step s (snd (listenerAccept ctx pick s))"
| lr_connClose: "p < length (ps_conns s) \<Longrightarrow> listener_step s (serverConnClose p s)"
| lr_close: "listener_step s (snd (listenerClose e1 e2 s))"

lemma listener_step_ok: "listener_step s s' \<Longrightarrow> listener_ok s \<Longrightarrow> listener_ok s'"
proof (induction rule: listener_step.induct)
  case (lr_write s pick1 pick2 packet)
  then show ?case by (simp add: onWrite_ok)
next
  case (lr_gone s goos)
  then show ?case using closeCurrent_ok [of s] by (auto simp: centralDisconnected_def restartBegin_def Let_def listener_ok_def)
next
  case (lr_accept s ctx pick)
  then have "listener_ok (s\<lparr>ps_connections := tl (ps_connections s)\<rparr>)"
    by (cases "ps_connections s") (simp_all add: listener_ok_def)
  then show ?case using lr_accept by (simp add: listenerAccept_def Let_def split: sum.split)
next
  case (lr_connClose s p)
  then show ?case by (simp add: serverConnClose_ok)
next
  case (lr_close s e1 e2)
  then have "listener_ok (s\<lparr>ps_done := True\<rparr>)" by (simp add: listener_ok_def)
  from closeCurrent_ok [OF this] show ?case
    using lr_close by (simp add: listenerClose_def Let_def listener_ok_def)
qed

interpretation listener_runs: transition_system "\<lambda>s. \<exists>adv. s = newPeripheralServer adv" listener_step listener_ok
proof
  show "listener_ok s" if "\<exists>adv. s = newPeripheralServer adv" for s
    using that by (auto simp: listener_ok_def one_open_def newPeripheralServer_def)
qed (rule listener_step_ok)

section \<open>Properties\<close>

text \<open>
  A packet connection delivers in order and without duplicates, and bounds what it buffers. Whatever notifications arrive and
  however the forwarding goroutine, the reader and the end of the connection interleave, the packets the
  reader got are a subsequence of the packets that arrived, and each of the two queues holds at most 128.
\<close>

theorem packet_queue_in_order:
  assumes "fold queueStep es ([], newQueue) = (got, q)"
  shows "subseq got (concat (map packetsOf es)) \<and> length (pq_incoming q) \<le> 128 \<and> length (pq_receive q) \<le> 128"
proof -
  have "subseq (contents ([], newQueue)) []" "queue_bounded (snd ([], newQueue))"
    by (simp_all add: contents_def newQueue_def queue_bounded_def)
  from queue_run [OF this, of es] have "subseq (contents (got, q)) (concat (map packetsOf es))" "queue_bounded q"
    using assms by simp_all
  moreover have "subseq got (contents (got, q))" unfolding contents_def by (rule prefix_imp_subseq) simp
  ultimately show ?thesis by (auto simp: queue_bounded_def queueCap_def dest: subseq_order.order_trans)
qed

theorem packet_queue_in_order_witness:
  "subseq [[1 :: byte]] (concat (map packetsOf [Pushed False [1], Pushed False [2], Forwarded False, Forwarded False, Received]))"
proof -
  have "fold queueStep [Pushed False [1], Pushed False [2], Forwarded False, Forwarded False, Received] ([], newQueue)
      = ([[1]], newQueue\<lparr>pq_incoming := [[2]]\<rparr>)"
    by (simp add: newQueue_def pushPacket_def forwardStep_def receivePacket_def queueCap_def)
  from packet_queue_in_order [OF this] show ?thesis by blast
qed



text \<open>
  A listener that fails to start leaves nothing behind: whenever the start fails after
  the GATT service was added, the calls into the Bluetooth stack end with stopping the advertisement and removing the service.
\<close>

theorem start_failure_cleans_up:
  assumes "StartServerWithOptions goos skip r = (calls, Inl e)" and "AddService \<in> set calls" and "sr_addService r = None"
  shows "\<exists>pre. calls = pre @ [StopAdvertisement, RemoveService]"
  using assms
  by (auto simp: StartServerWithOptions_def startAdvertisement_def Let_def split: option.splits if_splits prod.splits)

theorem start_failure_cleans_up_witness:
  "\<exists>pre. [EnableAdapter, AddService, ConfigureAdvertisement, StartAdvertisement, StopAdvertisement, RemoveService]
     = pre @ [StopAdvertisement, RemoveService]"
  by (rule start_failure_cleans_up [of "''linux''" True
        "\<lparr>sr_enable = None, sr_check = None, sr_addService = None, sr_configure = None, sr_start = Some (ErrorText ''x'')\<rparr>" _ "ErrorText ''x''"])
    (simp_all add: StartServerWithOptions_def startAdvertisement_def genericAdvertisement_def)

text \<open>
  What a send of the client does to its connection. It never hands the stack a packet above the negotiated MTU; a
  failed write closes the connection; a connection that fell back to writes with response stays in that mode.
\<close>

theorem client_send_effect:
  assumes "clientSend ctx pick lockErr w1 w2 packet c = (err, c')"
  shows "(len packet > cc_mtu c \<longrightarrow> err \<noteq> None \<and> c' = c)
    \<and> (err \<noteq> None \<longrightarrow> c' = c \<or> pq_done (cc_queue c')) \<and> (cc_withACK c \<longrightarrow> cc_withACK c')
    \<and> (err = None \<longrightarrow> \<not> pq_done (cc_queue c) \<and> (if cc_withACK c' then w2 = None else w1 = None))"
  using assms
  by (auto simp: clientSend_def clientWrite_def clientClose_def sendGuard_def Let_def split: if_splits option.splits)

theorem client_send_effect_witness:
  "\<exists>c'. clientSend None False None (Some (Sentinel IOTimeout)) None [1] (newClientPacketConn '''' (Inr 23) (Inr 23)) = (None, c')
     \<and> cc_withACK c' \<and> \<not> pq_done (cc_queue (newClientPacketConn '''' (Inr 23) (Inr 23)))"
proof -
  let ?c = "newClientPacketConn '''' (Inr 23) (Inr 23)"
  have run: "clientSend None False None (Some (Sentinel IOTimeout)) None [1] ?c = (None, ?c\<lparr>cc_withACK := True\<rparr>)"
    by (simp add: newClientPacketConn_def clientSend_def clientWrite_def sendGuard_def newQueue_def packetMTU_def maxPacketMTU_def)
  show ?thesis using client_send_effect [OF run] run by simp
qed

end
