(* ===== verification/Discovery.thy ===== *)
theory Discovery
  imports Identity Packet_Conn
begin

text \<open>
  Discovery and connection of servers, \<open>internal/ble/ble.go\<close>. The Bluetooth stack is outside: an advertisement is the data its
  payload yields, a native device is a number, and the results of scans, probes, discoveries and reads are
  arguments. The model keeps which native connections are given up, so that the lemmas can say that none leaks.
\<close>

section \<open>Advertisements\<close>

record Payload =
  ad_serviceUUIDs :: "string list"
  ad_serviceData :: "(string \<times> bytes) list"
  ad_manufacturerData :: "(u16 \<times> bytes) list"

record Device =
  dev_ID :: string
  dev_ServerID :: string
  dev_Name :: string
  dev_RSSI :: int
  dev_LightningBNB :: bool
  dev_ServiceUUIDs :: "string list"
  dev_ServiceData :: "string list"
  dev_ManufacturerData :: "string list"
  dev_connection :: "nat option"

definition ServiceUUIDString :: string where "ServiceUUIDString = ''13f0b6a0-4746-4c42-8e2f-1f62e4a0b1a0''"
definition RXUUIDString :: string where "RXUUIDString = ''13f0b6a1-4746-4c42-8e2f-1f62e4a0b1a0''"
definition TXUUIDString :: string where "TXUUIDString = ''13f0b6a2-4746-4c42-8e2f-1f62e4a0b1a0''"
definition IdentityUUIDString :: string where "IdentityUUIDString = ''13f0b6a3-4746-4c42-8e2f-1f62e4a0b1a0''"
definition TestCompanyID :: u16 where "TestCompanyID = 0xffff"
definition marker :: bytes where "marker = bytes_of ''LBNB1''"

fun appendUnique :: "string list \<Rightarrow> string list \<Rightarrow> string list" where
  "appendUnique vals [] = vals"
| "appendUnique vals (a # as) = appendUnique (if a \<in> set vals then vals else vals @ [a]) as"

definition hasMarker :: "u16 \<times> bytes \<Rightarrow> bool" where
  "hasMarker item \<longleftrightarrow> fst item = TestCompanyID \<and> take (length marker) (snd item) = marker"

definition isLightningBNB :: "Payload option \<Rightarrow> bool" where
  "isLightningBNB payload =
     (case payload of None \<Rightarrow> False
      | Some p \<Rightarrow> ServiceUUIDString \<in> set (ad_serviceUUIDs p) \<or> list_ex hasMarker (ad_manufacturerData p))"

definition advertisedMarkerName :: "Payload option \<Rightarrow> string" where
  "advertisedMarkerName payload =
     (case payload of None \<Rightarrow> ''''
      | Some p \<Rightarrow>
          (case find hasMarker (ad_manufacturerData p) of
             None \<Rightarrow> '''' | Some item \<Rightarrow> TrimSpace (string_of (drop (length marker) (snd item)))))"

definition advertisementDetails :: "Payload option \<Rightarrow> string list \<times> string list \<times> string list" where
  "advertisementDetails payload =
     (case payload of None \<Rightarrow> ([], [], [])
      | Some p \<Rightarrow>
          (appendUnique [] (ad_serviceUUIDs p),
           appendUnique [] (map (\<lambda>(uuid, d). uuid @ ''='' @ EncodeToString d) (ad_serviceData p)),
           appendUnique [] (map (\<lambda>(company, d). EncodeToString (put_uint16 company) @ ''='' @ EncodeToString d) (ad_manufacturerData p))))"

definition mergeDevice :: "Device \<Rightarrow> Device \<Rightarrow> Device" where
  "mergeDevice previous new =
     new\<lparr>dev_Name := (if dev_Name new = '''' then dev_Name previous else dev_Name new),
         dev_LightningBNB := dev_LightningBNB previous \<or> dev_LightningBNB new,
         dev_ServiceUUIDs := appendUnique (dev_ServiceUUIDs new) (dev_ServiceUUIDs previous),
         dev_ServiceData := appendUnique (dev_ServiceData new) (dev_ServiceData previous),
         dev_ManufacturerData := appendUnique (dev_ManufacturerData new) (dev_ManufacturerData previous)\<rparr>"

section \<open>Scanning\<close>

record ScanResult =
  res_address :: string
  res_localName :: string
  res_RSSI :: int
  res_payload :: "Payload option"

definition scannedDevice :: "ScanResult \<Rightarrow> Device" where
  "scannedDevice r =
     (case advertisementDetails (res_payload r) of (uuids, sdata, mdata) \<Rightarrow>
        \<lparr>dev_ID = res_address r, dev_ServerID = '''',
         dev_Name = (if advertisedMarkerName (res_payload r) \<noteq> '''' then advertisedMarkerName (res_payload r) else res_localName r),
         dev_RSSI = res_RSSI r, dev_LightningBNB = isLightningBNB (res_payload r),
         dev_ServiceUUIDs = uuids, dev_ServiceData = sdata, dev_ManufacturerData = mdata, dev_connection = None\<rparr>)"

text \<open>The scan callback: the devices seen so far, by address, and the devices reported to \<open>onDevice\<close>, where the caller gave one.\<close>

definition onScanResult :: "bool \<Rightarrow> bool \<Rightarrow> ScanResult \<Rightarrow> (string \<times> Device) list \<times> Device list \<Rightarrow> (string \<times> Device) list \<times> Device list" where
  "onScanResult onDevice onlyLightningBNB r st =
     (case st of (devices, reported) \<Rightarrow>
        let device0 = scannedDevice r;
            previous = map_of devices (dev_ID device0);
            device = (case previous of Some d \<Rightarrow> mergeDevice d device0 | None \<Rightarrow> device0);
            before = (case previous of Some d \<Rightarrow> dev_LightningBNB d | None \<Rightarrow> False);
            report = onDevice \<and> (if onlyLightningBNB then dev_LightningBNB device \<and> \<not> before
                                  else previous = None \<or> (\<not> before \<and> dev_LightningBNB device)) in
        (gomap_put (dev_ID device) device devices, if report then reported @ [device] else reported))"

definition scanDevices :: "bool \<Rightarrow> (string \<times> Device) list \<Rightarrow> Device list" where
  "scanDevices onlyLightningBNB devices =
     filter (\<lambda>d. \<not> onlyLightningBNB \<or> dev_LightningBNB d) (map snd devices)"

text \<open>
  How a scan ends: the native scan returned \<open>scanErr\<close> before the deadline, or the deadline came, after which
  the native scan returned, or did not stop.
\<close>

datatype scan_end = ScanReturned "go_error option" | ScanStopped "go_error option" | ScanStuck

definition scan :: "go_error option \<Rightarrow> bool \<Rightarrow> bool \<Rightarrow> ScanResult list \<Rightarrow> scan_end \<Rightarrow> (go_error + Device list) \<times> Device list" where
  "scan enableErr onDevice onlyLightningBNB results ending =
     (case enableErr of
        Some e \<Rightarrow> (Inl (Wrapped ''enable Bluetooth: '' e ''''), [])
      | None \<Rightarrow>
          (case fold (onScanResult onDevice onlyLightningBNB) results ([], []) of (devices, reported) \<Rightarrow>
             (case ending of
                ScanReturned (Some e) \<Rightarrow> (Inl e, reported)
              | ScanReturned None \<Rightarrow> (Inr (scanDevices onlyLightningBNB devices), reported)
              | ScanStopped (Some e) \<Rightarrow>
                  (if errors_is e ContextCanceled then (Inr (scanDevices onlyLightningBNB devices), reported)
                   else (Inl e, reported))
              | ScanStopped None \<Rightarrow> (Inr (scanDevices onlyLightningBNB devices), reported)
              | ScanStuck \<Rightarrow> (Inl (ErrorText ''Bluetooth scan did not stop''), reported))))"

section \<open>Identification\<close>

text \<open>\<open>readServerID\<close> on what the native device yields: services found, characteristics found, the bytes read.\<close>

definition readServerID :: "go_error + nat \<Rightarrow> go_error + string list \<Rightarrow> go_error + bytes \<Rightarrow> go_error + ServerID" where
  "readServerID services characteristics readResult =
     (case services of
        Inl e \<Rightarrow> Inl e
      | Inr n \<Rightarrow>
          if n \<noteq> 1 then Inl (ErrorText ''LightningBNB service was not found'')
          else case characteristics of
                 Inl e \<Rightarrow> Inl e
               | Inr uuids \<Rightarrow>
                   if uuids \<noteq> [IdentityUUIDString] then Inl (ErrorText ''LightningBNB server identity characteristic was not found'')
                   else case readResult of
                          Inl e \<Rightarrow> Inl e
                        | Inr b \<Rightarrow>
                            if length b \<noteq> 16 then Inl (ErrorText (''invalid LightningBNB server identity length '' @ itoa (len b)))
                            else Inr b)"

text \<open>
  \<open>connectNative\<close>: either the context is done first, and a connection that opens later is given up, or the native
  call returns. A native device is its number and its address, an address the text of its \<open>String()\<close>. The list holds
  the native connections given up with \<open>Disconnect\<close>.
\<close>

datatype native_connect = ConnectCtx go_error "go_error + nat" | ConnectDone "go_error + nat \<times> string"

definition errInvalidConnectedDevice :: go_error where
  "errInvalidConnectedDevice = ErrorText ''bluetooth backend returned an invalid device''"

definition validateConnectedDevice :: "string \<Rightarrow> string \<Rightarrow> go_error option" where
  "validateConnectedDevice address expectedAddress = (if address \<noteq> expectedAddress then Some errInvalidConnectedDevice else None)"

definition connectNative :: "Device \<Rightarrow> native_connect \<Rightarrow> (go_error + nat) \<times> nat list" where
  "connectNative device c =
     (case c of
        ConnectCtx e late \<Rightarrow> (Inl e, case late of Inr native \<Rightarrow> [native] | Inl _ \<Rightarrow> [])
      | ConnectDone (Inl e) \<Rightarrow> (Inl (Wrapped (''connect to '' @ dev_ID device @ '': '') e ''''), [])
      | ConnectDone (Inr (native, address)) \<Rightarrow>
          (case validateConnectedDevice address (dev_ID device) of
             Some e \<Rightarrow> (Inl (Wrapped (''connect to '' @ dev_ID device @ '': '') e ''''), [])
           | None \<Rightarrow> (Inr native, [])))"

text \<open>What one probe meets: the connection, then the end of the context or the read; and the context's error when \<open>Find\<close> asks.\<close>

datatype read_race = ReadCtx go_error | ReadDone "go_error + ServerID"

record probe =
  pr_connect :: native_connect
  pr_read :: read_race
  pr_ctx :: "go_error option"

definition identifyConnected :: "Device \<Rightarrow> probe \<Rightarrow> (nat option \<times> (go_error + ServerID)) \<times> nat list" where
  "identifyConnected device pr =
     (case connectNative device (pr_connect pr) of
        (Inl e, dropped) \<Rightarrow> ((None, Inl e), dropped)
      | (Inr native, dropped) \<Rightarrow>
          (case pr_read pr of
             ReadCtx e \<Rightarrow> ((None, Inl e), dropped @ [native])
           | ReadDone r \<Rightarrow> ((Some native, r), dropped)))"

definition natives :: "nat option \<Rightarrow> nat list" where
  "natives native = (case native of Some n \<Rightarrow> [n] | None \<Rightarrow> [])"

definition identify :: "Device \<Rightarrow> probe \<Rightarrow> (go_error + ServerID) \<times> nat list" where
  "identify device pr = (case identifyConnected device pr of ((native, r), dropped) \<Rightarrow> (r, dropped @ natives native))"

text \<open>\<open>Scan\<close>: every device found is identified, and keeps an empty identity where that fails.\<close>

fun identifyAll :: "(Device \<times> probe) list \<Rightarrow> Device list \<times> nat list" where
  "identifyAll [] = ([], [])"
| "identifyAll ((device, pr) # rest) =
     (case identify device pr of (r, dropped) \<Rightarrow>
        (case identifyAll rest of (devices, dropped') \<Rightarrow>
           ((case r of Inr sid \<Rightarrow> device\<lparr>dev_ServerID := ServerID_String sid\<rparr> | Inl e \<Rightarrow> device) # devices,
            dropped @ dropped')))"

definition Scan :: "go_error + (Device \<times> probe) list \<Rightarrow> (go_error + Device list) \<times> nat list" where
  "Scan scanned =
     (case scanned of
        Inl e \<Rightarrow> (Inl e, [])
      | Inr devices \<Rightarrow> (case identifyAll devices of (ds, dropped) \<Rightarrow> (Inr ds, dropped)))"

datatype find_error = FindFailed go_error | ServerNotFound string

text \<open>\<open>Find\<close> for a platform identifier: the matching device with its probe.\<close>

definition findPlatform :: "Device \<Rightarrow> probe \<Rightarrow> (find_error + Device) \<times> nat list" where
  "findPlatform device pr =
     (case identifyConnected device pr of ((found, r), dropped) \<Rightarrow>
        (case found of
           None \<Rightarrow> (Inr device, dropped)
         | Some native \<Rightarrow>
             (case r of
                Inr sid \<Rightarrow> (Inr (device\<lparr>dev_ServerID := ServerID_String sid, dev_connection := Some native\<rparr>), dropped)
              | Inl e \<Rightarrow>
                  (case pr_ctx pr of
                     Some c \<Rightarrow> (Inl (FindFailed c), dropped @ [native])
                   | None \<Rightarrow> (Inr (device\<lparr>dev_connection := Some native\<rparr>), dropped)))))"

text \<open>\<open>Find\<close> for a stable identity: the devices are probed in turn.\<close>

fun findIdentity :: "string \<Rightarrow> ServerID \<Rightarrow> (Device \<times> probe) list \<Rightarrow> (find_error + Device) \<times> nat list" where
  "findIdentity wanted requested [] = (Inl (ServerNotFound wanted), [])"
| "findIdentity wanted requested ((device, pr) # rest) =
     (case identifyConnected device pr of ((found, r), dropped) \<Rightarrow>
        (case r of
           Inl e \<Rightarrow>
             (case pr_ctx pr of
                Some c \<Rightarrow> (Inl (FindFailed c), dropped @ natives found)
              | None \<Rightarrow>
                  (case findIdentity wanted requested rest of (res, dropped') \<Rightarrow> (res, (dropped @ natives found) @ dropped')))
         | Inr sid \<Rightarrow>
             if sid = requested
             then (Inr (device\<lparr>dev_ServerID := ServerID_String sid, dev_connection := found\<rparr>), dropped)
             else
               (case findIdentity wanted requested rest of (res, dropped') \<Rightarrow> (res, (dropped @ natives found) @ dropped'))))"

text \<open>
  \<open>strings.ToLower\<close> on the identifier is \<open>lower\<close> on its ASCII letters: a letter outside ASCII is no digit of an identity
  before or after it is lowered, so that \<open>ParseServerID\<close> fails on both.
\<close>

definition Find :: "string \<Rightarrow> go_error + (Device \<times> probe) list \<Rightarrow> (find_error + Device) \<times> nat list" where
  "Find wanted scanned =
     (case scanned of
        Inl e \<Rightarrow> (Inl (FindFailed e), [])
      | Inr devices \<Rightarrow>
          (case find (\<lambda>(d, pr). dev_ID d = wanted) devices of
             Some (d, pr) \<Rightarrow> findPlatform d pr
           | None \<Rightarrow>
               (case ParseServerID (map lower wanted) of
                  Inl e \<Rightarrow> (Inl (ServerNotFound wanted), [])
                | Inr requested \<Rightarrow> findIdentity wanted requested devices)))"

section \<open>Connecting\<close>

text \<open>The last characteristic of each kind, by position.\<close>

definition lastOf :: "string \<Rightarrow> string list \<Rightarrow> nat option" where
  "lastOf uuid uuids = (let is = filter (\<lambda>i. uuids ! i = uuid) [0 ..< length uuids] in if is = [] then None else Some (last is))"

record connect_results =
  cr_settle :: "go_error option"
  cr_connect :: native_connect
  cr_services :: "go_error + nat"
  cr_characteristics :: "go_error + string list"
  cr_identity :: "go_error + bytes"
  cr_rxMTU :: "go_error + u16"
  cr_txMTU :: "go_error + u16"
  cr_enable :: "go_error option"

text \<open>
  The adapter: the packet connections made so far with the identifier of their device, and the table
  \<open>connections\<close>, whose entries are positions in that list.
\<close>

record Adapter =
  ad_conns :: "(string \<times> clientPacketConn) list"
  ad_connections :: "string \<rightharpoonup> nat"

definition NewAdapter :: Adapter where
  "NewAdapter = \<lparr>ad_conns = [], ad_connections = Map.empty\<rparr>"

text \<open>\<open>close\<close> of a connection of the adapter, with the \<open>onClose\<close> that \<open>Connect\<close> gave it.\<close>

definition onClose :: "string \<Rightarrow> nat \<Rightarrow> Adapter \<Rightarrow> Adapter" where
  "onClose devID k a =
     (if ad_connections a devID = Some k then a\<lparr>ad_connections := (ad_connections a)(devID := None)\<rparr> else a)"

definition closeConn :: "bool \<Rightarrow> nat \<Rightarrow> Adapter \<Rightarrow> Adapter" where
  "closeConn disconnect k a =
     (if k < length (ad_conns a) then
        (case ad_conns a ! k of (devID, c) \<Rightarrow>
           if pq_done (cc_queue c) then a
           else onClose devID k (a\<lparr>ad_conns := (ad_conns a)[k := (devID, clientClose disconnect c)]\<rparr>))
      else a)"

definition connectionChanged :: "string \<Rightarrow> bool \<Rightarrow> Adapter \<Rightarrow> Adapter" where
  "connectionChanged devID connected a =
     (if connected then a
      else case ad_connections a devID of None \<Rightarrow> a | Some k \<Rightarrow> closeConn False k a)"

text \<open>\<open>Connect\<close> from the registration of the new connection on.\<close>

definition registerAndStart :: "string \<Rightarrow> clientPacketConn \<Rightarrow> go_error option \<Rightarrow> Adapter \<Rightarrow> (go_error + nat) \<times> Adapter" where
  "registerAndStart devID conn enableErr a =
     (let k = length (ad_conns a);
          a1 = a\<lparr>ad_conns := ad_conns a @ [(devID, conn)], ad_connections := (ad_connections a)(devID \<mapsto> k)\<rparr> in
      case clientStart enableErr conn of
        (Some e, c) \<Rightarrow> (Inl (Wrapped ''subscribe to LightningBNB transport: '' e ''''), closeConn True k a1)
      | (None, c) \<Rightarrow> (Inr k, a1\<lparr>ad_conns := (ad_conns a1)[k := (devID, c)]\<rparr>))"

text \<open>\<open>Connect\<close> on an open native connection.\<close>

definition connectTransport :: "string \<Rightarrow> nat \<Rightarrow> connect_results \<Rightarrow> Adapter \<Rightarrow> ((go_error + nat) \<times> Adapter) \<times> nat list" where
  "connectTransport devID native r a =
     (case cr_services r of
        Inl e \<Rightarrow> ((Inl (Wrapped ''discover LightningBNB service: '' e ''''), a), [native])
      | Inr n \<Rightarrow>
          if n \<noteq> 1 then ((Inl (ErrorText ''LightningBNB service was not found on the selected device''), a), [native])
          else case cr_characteristics r of
                 Inl e \<Rightarrow> ((Inl (Wrapped ''discover LightningBNB characteristics: '' e ''''), a), [native])
               | Inr uuids \<Rightarrow>
                   if lastOf RXUUIDString uuids = None \<or> lastOf TXUUIDString uuids = None
                   then ((Inl (ErrorText ''selected device does not expose the complete LightningBNB transport''), a), [native])
                   else
                     let serverID = (if lastOf IdentityUUIDString uuids = None then ''''
                                     else case cr_identity r of
                                            Inr b \<Rightarrow> if length b = 16 then ServerID_String b else ''''
                                          | Inl e \<Rightarrow> '''');
                         res = registerAndStart devID (newClientPacketConn serverID (cr_rxMTU r) (cr_txMTU r)) (cr_enable r) a in
                     (res, case fst res of Inl e \<Rightarrow> [native] | Inr k \<Rightarrow> []))"

text \<open>A pending connection is handed out once: its cell is emptied.\<close>

definition takePending :: "nat option \<Rightarrow> nat option \<times> nat option" where
  "takePending cell = (cell, None)"

text \<open>
  \<open>Connect\<close>: \<open>cell\<close> is what the pending connection of the device holds, \<open>None\<close> where there is none or it was taken; the second
  component of the result is the cell afterwards.
\<close>

definition Connect ::
  "go_error option \<Rightarrow> Device \<Rightarrow> nat option \<Rightarrow> connect_results \<Rightarrow> Adapter
   \<Rightarrow> ((go_error + nat) \<times> Adapter) \<times> nat option \<times> nat list" where
  "Connect enableErr device cell r a =
     (case enableErr of
        Some e \<Rightarrow> ((Inl (Wrapped ''enable Bluetooth: '' e ''''), a), cell, [])
      | None \<Rightarrow>
          (case takePending cell of
             (Some native, cell') \<Rightarrow>
               (case connectTransport (dev_ID device) native r a of (res, dropped) \<Rightarrow> (res, cell', dropped))
           | (None, cell') \<Rightarrow>
               (case cr_settle r of
                  Some e \<Rightarrow> ((Inl e, a), cell', [])
                | None \<Rightarrow>
                    (case connectNative device (cr_connect r) of
                       (Inl e, dropped) \<Rightarrow> ((Inl e, a), cell', dropped)
                     | (Inr native, dropped) \<Rightarrow>
                         (case connectTransport (dev_ID device) native r a of
                            (res, dropped') \<Rightarrow> (res, cell', dropped @ dropped'))))))"

text \<open>\<open>None\<close> stands for a transport that is no client connection.\<close>

definition ConnectedServerID :: "clientPacketConn option \<Rightarrow> string" where
  "ConnectedServerID conn = (case conn of Some c \<Rightarrow> cc_serverID c | None \<Rightarrow> '''')"

section \<open>Lemmas\<close>

lemma set_appendUnique: "set (appendUnique vals as) = set vals \<union> set as"
  by (induction vals as rule: appendUnique.induct) auto

lemma distinct_appendUnique: "distinct vals \<Longrightarrow> distinct (appendUnique vals as)"
  by (induction vals as rule: appendUnique.induct) auto

lemma mergeDevice_simps [simp]:
  "dev_ID (mergeDevice p d) = dev_ID d" "dev_LightningBNB (mergeDevice p d) \<longleftrightarrow> dev_LightningBNB p \<or> dev_LightningBNB d"
  by (simp_all add: mergeDevice_def)

lemma scannedDevice_ID [simp]: "dev_ID (scannedDevice r) = res_address r"
  by (simp add: scannedDevice_def split: prod.splits)

text \<open>The table is keyed by address, and what was reported is what the table says.\<close>

definition scan_ok :: "(string \<times> Device) list \<times> Device list \<Rightarrow> bool" where
  "scan_ok st \<longleftrightarrow> distinct (map fst (fst st)) \<and> (\<forall>x \<in> set (fst st). dev_ID (snd x) = fst x)
     \<and> distinct (map dev_ID (snd st))
     \<and> (\<forall>i. i \<in> dev_ID ` set (snd st) \<longleftrightarrow> (\<exists>d. map_of (fst st) i = Some d \<and> dev_LightningBNB d))"

lemma onScanResult_ok: "scan_ok st \<Longrightarrow> scan_ok (onScanResult True True r st)"
proof -
  assume ok: "scan_ok st"
  obtain devices reported where st: "st = (devices, reported)" by fastforce
  define prev where "prev = map_of devices (res_address r)"
  define d where "d = (case prev of Some p \<Rightarrow> mergeDevice p (scannedDevice r) | None \<Rightarrow> scannedDevice r)"
  define was where "was = (case prev of Some p \<Rightarrow> dev_LightningBNB p | None \<Rightarrow> False)"
  have d_id: "dev_ID d = res_address r" by (simp add: d_def split: option.splits)
  have was: "was \<longleftrightarrow> res_address r \<in> dev_ID ` set reported"
    using ok by (simp add: scan_ok_def st was_def prev_def del: map_of_eq_Some_iff split: option.split)
  have keeps: "was \<Longrightarrow> dev_LightningBNB d" by (auto simp: was_def d_def split: option.splits)
  have run: "onScanResult True True r st
      = (gomap_put (res_address r) d devices, if dev_LightningBNB d \<and> \<not> was then reported @ [d] else reported)"
    using d_id by (simp add: onScanResult_def st Let_def d_def was_def prev_def)
  have "\<forall>x \<in> set (gomap_put (res_address r) d devices). dev_ID (snd x) = fst x"
    using ok d_id by (auto simp: scan_ok_def st gomap_put_def)
  moreover have "distinct (map dev_ID (if dev_LightningBNB d \<and> \<not> was then reported @ [d] else reported))"
    using ok was d_id by (auto simp: scan_ok_def st)
  moreover have "i \<in> dev_ID ` set (if dev_LightningBNB d \<and> \<not> was then reported @ [d] else reported)
      \<longleftrightarrow> (\<exists>e. map_of (gomap_put (res_address r) d devices) i = Some e \<and> dev_LightningBNB e)" for i
    using ok was keeps d_id by (cases "i = res_address r") (auto simp: scan_ok_def st)
  ultimately show ?thesis using ok unfolding run by (simp add: scan_ok_def st)
qed

lemma scan_fold_ok: "scan_ok st \<Longrightarrow> scan_ok (fold (onScanResult True True) rs st)"
  by (induction rs arbitrary: st) (simp_all add: onScanResult_ok)

text \<open>A scan for servers that succeeds, however it ended: what it reported and what it returns are the same servers.\<close>

lemma scan_lists:
  assumes "scan enableErr True True results ending = (Inr devices, reported)"
  shows "distinct (map dev_ID reported) \<and> distinct (map dev_ID devices) \<and> dev_ID ` set reported = dev_ID ` set devices
     \<and> (\<forall>d \<in> set devices. dev_LightningBNB d)"
proof -
  obtain tab rep where run: "fold (onScanResult True True) results ([], []) = (tab, rep)" by fastforce
  have ok: "scan_ok (tab, rep)" using scan_fold_ok [of "([], [])" results] by (simp add: run scan_ok_def)
  then have keys: "distinct (map fst tab)" "\<forall>x \<in> set tab. dev_ID (snd x) = fst x"
    and rep: "distinct (map dev_ID rep)" "\<And>i. i \<in> dev_ID ` set rep \<longleftrightarrow> (\<exists>d. map_of tab i = Some d \<and> dev_LightningBNB d)"
    by (auto simp: scan_ok_def simp del: map_of_eq_Some_iff)
  have eqs: "devices = scanDevices True tab" "reported = rep" using assms by (auto simp: scan_def run split: option.splits scan_end.splits if_splits)
  have ids: "map dev_ID (map snd tab) = map fst tab" using keys(2) by (induction tab) auto
  have "distinct (map dev_ID (map snd tab))" unfolding ids by (rule keys(1))
  then have "distinct (map dev_ID devices)" unfolding eqs(1) scanDevices_def by (rule distinct_map_filter)
  moreover have "dev_ID ` set reported = dev_ID ` set devices"
  proof (intro set_eqI)
    fix i
    have "i \<in> dev_ID ` set devices \<longleftrightarrow> (\<exists>d. (i, d) \<in> set tab \<and> dev_LightningBNB d)"
      using keys(2) by (force simp: eqs scanDevices_def)
    then show "i \<in> dev_ID ` set reported \<longleftrightarrow> i \<in> dev_ID ` set devices"
      using rep(2) [of i] keys(1) by (simp add: eqs)
  qed
  ultimately show ?thesis using rep(1) by (auto simp: eqs scanDevices_def)
qed

section \<open>Connections that probes open\<close>

definition opened :: "Device \<Rightarrow> native_connect \<Rightarrow> nat list" where
  "opened device c =
     (case c of
        ConnectCtx e (Inr native) \<Rightarrow> [native]
      | ConnectDone (Inr (native, address)) \<Rightarrow> if address = dev_ID device then [native] else []
      | _ \<Rightarrow> [])"

abbreviation probed :: "(Device \<times> probe) list \<Rightarrow> nat list" where
  "probed xs \<equiv> concat (map (\<lambda>(d, pr). opened d (pr_connect pr)) xs)"

lemma natives_simps [simp]: "natives None = []" "natives (Some n) = [n]"
  by (simp_all add: natives_def)

lemma connectNative_account:
  "connectNative d c = (r, dropped) \<Longrightarrow> dropped @ (case r of Inr n \<Rightarrow> [n] | Inl e \<Rightarrow> []) = opened d c"
  by (auto simp: connectNative_def opened_def validateConnectedDevice_def
      split: native_connect.splits sum.splits prod.splits option.splits if_splits)

lemma identifyConnected_account:
  "identifyConnected d pr = ((found, r), dropped) \<Longrightarrow> dropped @ natives found = opened d (pr_connect pr)"
  using connectNative_account [of d "pr_connect pr"]
  by (auto simp: identifyConnected_def split: prod.splits sum.splits read_race.splits)

lemma identifyConnected_found:
  "identifyConnected d pr = ((found, Inr sid), dropped) \<Longrightarrow> found \<noteq> None"
  by (auto simp: identifyConnected_def split: prod.splits sum.splits read_race.splits)

lemma identify_account: "identify d pr = (r, dropped) \<Longrightarrow> dropped = opened d (pr_connect pr)"
  using identifyConnected_account [of d pr] by (auto simp: identify_def split: prod.splits)

lemma identifyAll_account: "snd (identifyAll xs) = probed xs"
  by (induction xs rule: identifyAll.induct) (auto simp: identify_account split: prod.splits)

lemma length_identifyAll: "length (fst (identifyAll xs)) = length xs"
  by (induction xs rule: identifyAll.induct) (auto split: prod.splits)

definition kept :: "find_error + Device \<Rightarrow> nat list" where
  "kept r = (case r of Inr d \<Rightarrow> natives (dev_connection d) | Inl e \<Rightarrow> [])"

lemma findPlatform_account:
  "dev_connection d = None \<Longrightarrow> findPlatform d pr = (r, dropped) \<Longrightarrow> dropped @ kept r = opened d (pr_connect pr)"
  using identifyConnected_account [of d pr]
  by (auto simp: findPlatform_def kept_def split: prod.splits option.splits sum.splits)

lemma findIdentity_account:
  "findIdentity wanted requested xs = (r, dropped) \<Longrightarrow> \<exists>k. dropped @ kept r = probed (take k xs)"
proof (induction xs arbitrary: r dropped)
  case Nil
  then show ?case by (auto simp: kept_def)
next
  case (Cons x rest)
  obtain d pr where x: "x = (d, pr)" by fastforce
  obtain found q dr where run: "identifyConnected d pr = ((found, q), dr)" by (metis surj_pair)
  have acc: "dr @ natives found = opened d (pr_connect pr)" by (rule identifyConnected_account [OF run])
  have stop: ?case if "dropped @ kept r = dr @ natives found"
    using that acc by (intro exI [of _ 1]) (simp add: x)
  have more_: ?case if on: "findIdentity wanted requested rest = (r, dr')" "dropped = (dr @ natives found) @ dr'" for dr'
  proof -
    obtain k where "dr' @ kept r = probed (take k rest)" using Cons.IH [OF on(1)] by blast
    then show ?thesis using acc on(2) by (intro exI [of _ "Suc k"]) (simp add: x)
  qed
  show ?case
  proof (cases q)
    case (Inl e)
    show ?thesis
    proof (cases "pr_ctx pr")
      case None
      then show ?thesis using Cons.prems by (intro more_ [of "snd (findIdentity wanted requested rest)"]) (auto simp: x run Inl split: prod.splits)
    next
      case (Some c)
      then show ?thesis using Cons.prems by (intro stop) (auto simp: x run Inl kept_def)
    qed
  next
    case (Inr sid)
    show ?thesis
    proof (cases "sid = requested")
      case True
      then show ?thesis using Cons.prems by (intro stop) (auto simp: x run Inr kept_def)
    next
      case False
      then show ?thesis using Cons.prems by (intro more_ [of "snd (findIdentity wanted requested rest)"]) (auto simp: x run Inr split: prod.splits)
    qed
  qed
qed

lemma findIdentity_found:
  "findIdentity wanted requested xs = (Inr d, dropped)
   \<Longrightarrow> dev_ServerID d = ServerID_String requested \<and> dev_connection d \<noteq> None"
proof (induction wanted requested xs arbitrary: dropped rule: findIdentity.induct)
  case (2 wanted requested device pr rest)
  obtain found q dr where run: "identifyConnected device pr = ((found, q), dr)" by (metis surj_pair)
  show ?case
  proof (cases "q = Inr requested")
    case True
    then show ?thesis using "2.prems" identifyConnected_found [of device pr] by (auto simp: run)
  next
    case False
    then obtain dr' where "findIdentity wanted requested rest = (Inr d, dr')"
      using "2.prems" by (cases q) (auto simp: run split: prod.splits option.splits)
    moreover have "(\<exists>e. q = Inl e \<and> pr_ctx pr = None) \<or> (\<exists>sid. q = Inr sid \<and> sid \<noteq> requested)"
      using False "2.prems" by (cases q) (auto simp: run split: prod.splits option.splits)
    ultimately show ?thesis using "2.IH" run by metis
  qed
qed simp

section \<open>The table of connections\<close>

text \<open>Every entry is an open connection to the device it is filed under.\<close>

definition adapter_ok :: "Adapter \<Rightarrow> bool" where
  "adapter_ok a \<longleftrightarrow> (\<forall>devID k. ad_connections a devID = Some k \<longrightarrow>
     k < length (ad_conns a) \<and> fst (ad_conns a ! k) = devID \<and> \<not> pq_done (cc_queue (snd (ad_conns a ! k))))"

lemma adapter_okI:
  "(\<And>devID k. ad_connections a devID = Some k \<Longrightarrow>
     k < length (ad_conns a) \<and> fst (ad_conns a ! k) = devID \<and> \<not> pq_done (cc_queue (snd (ad_conns a ! k)))) \<Longrightarrow> adapter_ok a"
  by (simp add: adapter_ok_def)

lemma adapter_okD:
  "adapter_ok a \<Longrightarrow> ad_connections a devID = Some k \<Longrightarrow>
     k < length (ad_conns a) \<and> fst (ad_conns a ! k) = devID \<and> \<not> pq_done (cc_queue (snd (ad_conns a ! k)))"
  by (simp add: adapter_ok_def)

lemma NewAdapter_ok: "adapter_ok NewAdapter"
  by (simp add: adapter_ok_def NewAdapter_def)

lemma closeConn_ok: "adapter_ok a \<Longrightarrow> adapter_ok (closeConn disconnect k a)"
proof (rule adapter_okI)
  fix devID j
  assume ok: "adapter_ok a" and j: "ad_connections (closeConn disconnect k a) devID = Some j"
  show "j < length (ad_conns (closeConn disconnect k a)) \<and> fst (ad_conns (closeConn disconnect k a) ! j) = devID
      \<and> \<not> pq_done (cc_queue (snd (ad_conns (closeConn disconnect k a) ! j)))"
    using adapter_okD [OF ok, of devID j] j
    by (cases "j = k") (auto simp: closeConn_def onClose_def split: if_splits prod.splits)
qed

lemma connectionChanged_ok: "adapter_ok a \<Longrightarrow> adapter_ok (connectionChanged devID connected a)"
  by (simp add: connectionChanged_def closeConn_ok split: option.split)

lemma registered_ok:
  assumes "adapter_ok a" "\<not> pq_done (cc_queue c)"
  shows "adapter_ok (a\<lparr>ad_conns := ad_conns a @ [(devID, c)], ad_connections := (ad_connections a)(devID \<mapsto> length (ad_conns a))\<rparr>)"
  using assms by (fastforce intro: adapter_okI dest: adapter_okD simp: nth_append split: if_splits)

lemma registerAndStart_ok:
  assumes "adapter_ok a" "\<not> pq_done (cc_queue c)"
  shows "adapter_ok (snd (registerAndStart devID c e a))"
proof (cases e)
  case None
  then show ?thesis using registered_ok [OF assms(1), of "c\<lparr>cc_notifying := True\<rparr>" devID] assms(2)
    by (simp add: registerAndStart_def clientStart_def Let_def adapter_ok_def)
next
  case (Some x)
  then show ?thesis using registered_ok [OF assms] by (simp add: registerAndStart_def clientStart_def Let_def closeConn_ok)
qed

lemma newClientPacketConn_open [simp]: "\<not> pq_done (cc_queue (newClientPacketConn sid rx tx))"
  by (simp add: newClientPacketConn_def newQueue_def)

lemma connectTransport_ok:
  "adapter_ok a \<Longrightarrow> adapter_ok (snd (fst (connectTransport devID native r a)))"
  by (simp add: connectTransport_def Let_def registerAndStart_ok split: sum.split)

lemma Connect_ok: "adapter_ok a \<Longrightarrow> adapter_ok (snd (fst (Connect e d cell r a)))"
  using connectTransport_ok [of a "dev_ID d"]
  by (auto simp: Connect_def split: option.split prod.split sum.split) (metis fst_conv snd_conv)+

lemma connectTransport_account:
  "connectTransport devID native r a = (res, dropped) \<Longrightarrow> dropped = (case fst res of Inl e \<Rightarrow> [native] | Inr k \<Rightarrow> [])"
  by (auto simp: connectTransport_def Let_def split: sum.splits if_splits)

lemma connectTransport_registered:
  "connectTransport devID native r a = ((Inr k, a'), dropped)
   \<Longrightarrow> k = length (ad_conns a) \<and> ad_connections a' devID = Some k \<and> cc_notifying (snd (ad_conns a' ! k))"
  by (auto simp: connectTransport_def Let_def registerAndStart_def clientStart_def split: sum.splits if_splits option.splits)

section \<open>Properties\<close>

text \<open>
  A scan for LightningBNB servers reports each server once, when its advertisements first identify it, and at the end the servers
  reported are exactly those in the result, whatever the order and the contents of the advertisements and however the scan ended.
\<close>

theorem scan_reports_once:
  assumes "scan enableErr True True results ending = (Inr devices, reported)"
  shows "distinct (map dev_ID reported) \<and> distinct (map dev_ID devices) \<and> dev_ID ` set reported = dev_ID ` set devices
     \<and> (\<forall>d \<in> set devices. dev_LightningBNB d)"
  by (rule scan_lists [OF assms])




subsection \<open>Witnesses\<close>

text \<open>A server that is named in its scan response only, after a first advertisement without the marker.\<close>

definition sample_adverts :: "ScanResult list" where
  "sample_adverts =
     [\<lparr>res_address = ''aa'', res_localName = ''srv'', res_RSSI = -40, res_payload = None\<rparr>,
      \<lparr>res_address = ''bb'', res_localName = '''', res_RSSI = -60, res_payload = None\<rparr>,
      \<lparr>res_address = ''aa'', res_localName = '''', res_RSSI = -41,
       res_payload = Some \<lparr>ad_serviceUUIDs = [ServiceUUIDString], ad_serviceData = [], ad_manufacturerData = []\<rparr>\<rparr>]"

definition sample_device :: Device where
  "sample_device = \<lparr>dev_ID = ''aa'', dev_ServerID = '''', dev_Name = ''srv'', dev_RSSI = -41, dev_LightningBNB = True,
     dev_ServiceUUIDs = [ServiceUUIDString], dev_ServiceData = [], dev_ManufacturerData = [], dev_connection = None\<rparr>"

lemma sample_scan:
  "scan None True True sample_adverts (ScanReturned None) = (Inr [sample_device], [sample_device])"
  by (simp add: scan_def sample_adverts_def sample_device_def onScanResult_def scannedDevice_def Let_def gomap_put_def gomap_del_def
      isLightningBNB_def advertisedMarkerName_def advertisementDetails_def mergeDevice_def scanDevices_def)

theorem scan_reports_once_witness:
  "scan None True True sample_adverts (ScanReturned None) = (Inr [sample_device], [sample_device])
   \<and> distinct (map dev_ID [sample_device]) \<and> dev_ID ` set [sample_device] = {''aa''}"
  using scan_reports_once [OF sample_scan] sample_scan by (simp add: sample_device_def)

definition sample_probe :: probe where
  "sample_probe = \<lparr>pr_connect = ConnectDone (Inr (7, ''aa'')), pr_read = ReadDone (Inl (Sentinel IOTimeout)), pr_ctx = None\<rparr>"

lemma sample_find:
  "Find ''aa'' (Inr [(sample_device, sample_probe)]) = (Inr (sample_device\<lparr>dev_connection := Some 7\<rparr>), [])"
  by (simp add: Find_def findPlatform_def identifyConnected_def connectNative_def validateConnectedDevice_def sample_probe_def
      sample_device_def)



definition sample_connect :: connect_results where
  "sample_connect = \<lparr>cr_settle = None, cr_connect = ConnectDone (Inr (7, ''aa'')), cr_services = Inr 1,
     cr_characteristics = Inr [RXUUIDString, TXUUIDString], cr_identity = Inr [], cr_rxMTU = Inr 185, cr_txMTU = Inr 100, cr_enable = None\<rparr>"

lemma sample_uuids: "lastOf RXUUIDString [RXUUIDString, TXUUIDString] = Some 0" "lastOf TXUUIDString [RXUUIDString, TXUUIDString] = Some 1"
  by (simp_all add: lastOf_def RXUUIDString_def TXUUIDString_def Let_def upt_rec)

lemma sample_connected:
  "fst (fst (Connect None sample_device None sample_connect NewAdapter)) = Inr 0"
  by (simp add: Connect_def takePending_def connectNative_def validateConnectedDevice_def connectTransport_def Let_def sample_uuids
      registerAndStart_def clientStart_def NewAdapter_def sample_connect_def sample_device_def)


end
