(* ===== verification/Gatt_Table.thy ===== *)
theory Gatt_Table
  imports "HOL-Library.Multiset" Discovery
begin

text \<open>
  The GATT service table that the server registers and the advertisement it starts, \<open>internal/ble/server_config.go\<close>, and
  what a client makes of them. The table is data handed to the Bluetooth stack. What the stack shows to a client of a
  registered service (its UUID in the advertisement, its characteristics, the value of a readable one) is a hypothesis
  of the lemmas, which then say that the client finds, identifies and connects to the server that registered the table.
\<close>

section \<open>The table\<close>

text \<open>The permission bits of \<open>gatts.go\<close>.\<close>

definition CharacteristicReadPermission :: byte where "CharacteristicReadPermission = 2"
definition CharacteristicWriteWithoutResponsePermission :: byte where "CharacteristicWriteWithoutResponsePermission = 4"
definition CharacteristicWritePermission :: byte where "CharacteristicWritePermission = 8"
definition CharacteristicNotifyPermission :: byte where "CharacteristicNotifyPermission = 16"

text \<open>A handle is the cell of \<open>peripheralServer\<close> that the stack fills in, a write event the callback for the packets written. Fields that the
  program never sets are left out.\<close>

record ('h, 'e) CharacteristicConfig =
  ch_Handle :: 'h
  ch_UUID :: string
  ch_Value :: bytes
  ch_Flags :: byte
  ch_WriteEvent :: "'e option"

record ('h, 'e) BLEService =
  svc_UUID :: string
  svc_Characteristics :: "('h, 'e) CharacteristicConfig list"

definition transportService :: "'h \<Rightarrow> 'h \<Rightarrow> 'h \<Rightarrow> ServerID \<Rightarrow> 'e \<Rightarrow> ('h, 'e) BLEService" where
  "transportService rx tx identity serverID event =
     \<lparr>svc_UUID = ServiceUUIDString,
      svc_Characteristics =
        [\<lparr>ch_Handle = rx, ch_UUID = RXUUIDString, ch_Value = [],
          ch_Flags = CharacteristicWritePermission OR CharacteristicWriteWithoutResponsePermission, ch_WriteEvent = Some event\<rparr>,
         \<lparr>ch_Handle = tx, ch_UUID = TXUUIDString, ch_Value = [],
          ch_Flags = CharacteristicNotifyPermission, ch_WriteEvent = None\<rparr>,
         \<lparr>ch_Handle = identity, ch_UUID = IdentityUUIDString, ch_Value = serverID,
          ch_Flags = CharacteristicReadPermission, ch_WriteEvent = None\<rparr>]\<rparr>"

section \<open>The advertisement\<close>

datatype AdvertisingType = AdvertisingTypeInd | AdvertisingTypeDirectInd | AdvertisingTypeScanInd | AdvertisingTypeNonConnInd

record AdvertisementOptions =
  ao_AdvertisementType :: AdvertisingType
  ao_LocalName :: string
  ao_ServiceUUIDs :: "string list"

text \<open>\<open>None\<close> where the code returns \<open>false\<close>: on Windows the service provider advertises the service itself.\<close>

definition genericAdvertisementOptions :: "string \<Rightarrow> string \<Rightarrow> AdvertisementOptions option" where
  "genericAdvertisementOptions goos name =
     (if goos = ''windows'' then None
      else Some \<lparr>ao_AdvertisementType = AdvertisingTypeInd, ao_LocalName = name, ao_ServiceUUIDs = [ServiceUUIDString]\<rparr>)"

text \<open>The service UUIDs a server advertises, by its own advertisement or by that of the provider of the service.\<close>

definition advertisedUUIDs :: "string \<Rightarrow> string \<Rightarrow> ('h, 'e) BLEService \<Rightarrow> string list" where
  "advertisedUUIDs goos name svc =
     (case genericAdvertisementOptions goos name of Some options \<Rightarrow> ao_ServiceUUIDs options | None \<Rightarrow> [svc_UUID svc])"

section \<open>Lemmas\<close>

lemma genericAdvertisement_options: "genericAdvertisement goos \<longleftrightarrow> genericAdvertisementOptions goos name \<noteq> None"
  by (simp add: genericAdvertisement_def genericAdvertisementOptions_def)

lemma advertisedUUIDs_transport [simp]:
  "advertisedUUIDs goos name (transportService rx tx identity sid event) = [ServiceUUIDString]"
  by (simp add: advertisedUUIDs_def genericAdvertisementOptions_def transportService_def)

lemma uuids_distinct [simp]:
  "RXUUIDString \<noteq> TXUUIDString" "RXUUIDString \<noteq> IdentityUUIDString" "TXUUIDString \<noteq> IdentityUUIDString"
  "TXUUIDString \<noteq> RXUUIDString" "IdentityUUIDString \<noteq> RXUUIDString" "IdentityUUIDString \<noteq> TXUUIDString"
  by (simp_all add: RXUUIDString_def TXUUIDString_def IdentityUUIDString_def)

lemma transport_uuids [simp]:
  "map ch_UUID (svc_Characteristics (transportService rx tx identity sid event)) = [RXUUIDString, TXUUIDString, IdentityUUIDString]"
  by (simp add: transportService_def)

text \<open>The client may write with and without response to RX, is notified on TX and reads the identity; only RX takes writes.\<close>

lemma transport_permissions:
  assumes "c \<in> set (svc_Characteristics (transportService rx tx identity sid event))"
  shows "ch_Flags c AND CharacteristicWritePermission \<noteq> 0 \<longleftrightarrow> ch_UUID c = RXUUIDString"
    and "ch_Flags c AND CharacteristicWriteWithoutResponsePermission \<noteq> 0 \<longleftrightarrow> ch_UUID c = RXUUIDString"
    and "ch_Flags c AND CharacteristicNotifyPermission \<noteq> 0 \<longleftrightarrow> ch_UUID c = TXUUIDString"
    and "ch_Flags c AND CharacteristicReadPermission \<noteq> 0 \<longleftrightarrow> ch_UUID c = IdentityUUIDString"
    and "ch_WriteEvent c \<noteq> None \<longleftrightarrow> ch_UUID c = RXUUIDString"
  using assms
  by (auto simp: transportService_def CharacteristicWritePermission_def CharacteristicWriteWithoutResponsePermission_def
      CharacteristicNotifyPermission_def CharacteristicReadPermission_def)

lemma identity_readable:
  "\<exists>c \<in> set (svc_Characteristics (transportService rx tx identity sid event)).
     ch_UUID c = IdentityUUIDString \<and> ch_Flags c AND CharacteristicReadPermission \<noteq> 0 \<and> ch_Value c = sid"
  by (simp add: transportService_def CharacteristicReadPermission_def)

lemma lastOf_mem: "uuid \<in> set uuids \<Longrightarrow> lastOf uuid uuids \<noteq> None"
  by (auto simp: lastOf_def Let_def filter_empty_conv in_set_conv_nth)

lemma isLightningBNB_advertised: "ServiceUUIDString \<in> set (ad_serviceUUIDs p) \<Longrightarrow> isLightningBNB (Some p)"
  by (simp add: isLightningBNB_def)

text \<open>An identity is printed in lower case, so that \<open>Find\<close> asks for it as it is printed.\<close>

lemma lower_hexDigit: "k < 16 \<Longrightarrow> lower (hexDigit k) = hexDigit k"
  by (simp add: lower_def Let_def hexDigit_code)

lemma lower_EncodeToString: "map lower (EncodeToString bs) = EncodeToString bs"
  by (induction bs) (simp_all add: EncodeToString_def lower_hexDigit byte_nibbles)

lemma map_part: "map f (part s i n) = part (map f s) i n"
  by (simp add: part_def take_map drop_map)

lemma lower_ServerID_String: "map lower (ServerID_String sid) = ServerID_String sid"
  by (simp add: ServerID_String_def Let_def map_part lower_EncodeToString serverIDPrefix_def) (simp add: lower_def)

text \<open>A probe that does not end the search for \<open>sid\<close>: it fails while the caller still waits, or it reads another identity.\<close>

definition misses :: "ServerID \<Rightarrow> Device \<times> probe \<Rightarrow> bool" where
  "misses sid x =
     (case identifyConnected (fst x) (snd x) of
        ((found, Inl e), dropped) \<Rightarrow> pr_ctx (snd x) = None
      | ((found, Inr other), dropped) \<Rightarrow> other \<noteq> sid)"

lemma findIdentity_skips:
  assumes "list_all (misses sid) pre"
    and "identifyConnected d pr = ((Some native, Inr sid), [])"
  shows "\<exists>dropped. findIdentity wanted sid (pre @ (d, pr) # post)
           = (Inr (d\<lparr>dev_ServerID := ServerID_String sid, dev_connection := Some native\<rparr>), dropped)"
  using assms(1)
proof (induction pre)
  case Nil
  then show ?case by (simp add: assms(2))
next
  case (Cons x pre)
  obtain e q where x: "x = (e, q)" by fastforce
  obtain found r dr where run: "identifyConnected e q = ((found, r), dr)" by (metis surj_pair)
  obtain dropped where "findIdentity wanted sid (pre @ (d, pr) # post)
      = (Inr (d\<lparr>dev_ServerID := ServerID_String sid, dev_connection := Some native\<rparr>), dropped)"
    using Cons by auto
  then show ?case using Cons.prems by (auto simp: x run misses_def split: sum.splits)
qed

lemma connect_pending:
  assumes "cr_services r = Inr 1" and "cr_characteristics r = Inr uuids"
    and "RXUUIDString \<in> set uuids" and "TXUUIDString \<in> set uuids" and "IdentityUUIDString \<in> set uuids"
    and "cr_identity r = Inr sid" and "length sid = 16" and "cr_enable r = None"
  shows "\<exists>a'. Connect None d (Some native) r a = ((Inr (length (ad_conns a)), a'), None, [])
    \<and> ad_connections a' (dev_ID d) = Some (length (ad_conns a))
    \<and> ConnectedServerID (Some (snd (ad_conns a' ! length (ad_conns a)))) = ServerID_String sid"
  using assms lastOf_mem [of RXUUIDString uuids] lastOf_mem [of TXUUIDString uuids] lastOf_mem [of IdentityUUIDString uuids]
  by (auto simp: Connect_def takePending_def connectTransport_def Let_def registerAndStart_def clientStart_def ConnectedServerID_def
      newClientPacketConn_def)

section \<open>Properties\<close>

text \<open>
  C26: a client reaches the server by the identity the server prints. Let the stack advertise what the server asked for, show the
  characteristics of the registered table in some order and yield the value of the identity characteristic if its permissions
  allow reading. Then the scan marks the server as LightningBNB; \<open>Find\<close> with the printed identity, whatever servers it probes
  first, ends at it with its connection kept; and \<open>Connect\<close> on that device uses this connection, registers
  it, and knows the same identity, which is read back as the one the server registered.
\<close>

theorem client_reaches_server:
  assumes "length sid = 16" and svc: "svc = transportService rx tx identity sid event"
    and adv: "res_payload res = Some p" "set (advertisedUUIDs goos name svc) \<subseteq> set (ad_serviceUUIDs p)"
    and uuids: "mset uuids = mset (map ch_UUID (svc_Characteristics svc))"
    and reads: "\<forall>c \<in> set (svc_Characteristics svc). ch_UUID c = IdentityUUIDString \<and> ch_Flags c AND CharacteristicReadPermission \<noteq> 0
                  \<longrightarrow> read = Inr (ch_Value c)"
    and d: "d = scannedDevice res" "dev_ID d \<noteq> ServerID_String sid"
    and others: "list_all (misses sid) pre" "\<forall>x \<in> set (pre @ post). dev_ID (fst x) \<noteq> ServerID_String sid"
    and probe: "pr_connect pr = ConnectDone (Inr (native, dev_ID d))"
      "pr_read pr = ReadDone (readServerID (Inr 1) (Inr (filter (\<lambda>u. u = IdentityUUIDString) uuids)) read)"
    and conn: "cr_services r = Inr 1" "cr_characteristics r = Inr uuids" "cr_identity r = read" "cr_enable r = None"
  shows "dev_LightningBNB d
    \<and> (\<exists>d' dropped a'. Find (ServerID_String sid) (Inr (pre @ (d, pr) # post)) = (Inr d', dropped)
         \<and> dev_ID d' = dev_ID d \<and> dev_connection d' = Some native
         \<and> Connect None d' (dev_connection d') r a = ((Inr (length (ad_conns a)), a'), None, [])
         \<and> ad_connections a' (dev_ID d) = Some (length (ad_conns a))
         \<and> ConnectedServerID (Some (snd (ad_conns a' ! length (ad_conns a)))) = dev_ServerID d'
         \<and> ParseServerID (dev_ServerID d') = Inr sid)"
proof -
  have m: "mset uuids = {#RXUUIDString, TXUUIDString, IdentityUUIDString#}" using uuids by (simp add: svc)
  then have mem: "RXUUIDString \<in> set uuids" "TXUUIDString \<in> set uuids" "IdentityUUIDString \<in> set uuids"
    by (simp_all flip: set_mset_mset)
  have "mset (filter (\<lambda>u. u = IdentityUUIDString) uuids) = {#IdentityUUIDString#}" by (simp add: m)
  then have one: "filter (\<lambda>u. u = IdentityUUIDString) uuids = [IdentityUUIDString]" by (simp only: mset_single_iff)
  have rd: "read = Inr sid" using reads identity_readable [of rx tx identity sid event] unfolding svc by blast
  have ident: "identifyConnected d pr = ((Some native, Inr sid), [])"
    using assms(1) by (simp add: identifyConnected_def connectNative_def validateConnectedDevice_def probe one rd readServerID_def)
  obtain dropped where found: "findIdentity (ServerID_String sid) sid (pre @ (d, pr) # post)
      = (Inr (d\<lparr>dev_ServerID := ServerID_String sid, dev_connection := Some native\<rparr>), dropped)"
    using findIdentity_skips [OF others(1) ident] by blast
  have parsed: "ParseServerID (ServerID_String sid) = Inr sid" by (rule ParseServerID_String [OF assms(1)])
  have ids: "dev_ID (fst x) \<noteq> ServerID_String sid" if "x \<in> set (pre @ (d, pr) # post)" for x
    using that others(2) d(2) by auto
  have none: "find (\<lambda>(d, pr). dev_ID d = ServerID_String sid) (pre @ (d, pr) # post) = None"
    unfolding find_None_iff case_prod_unfold using ids by blast
  have light: "dev_LightningBNB d" using adv by (simp add: d(1) scannedDevice_def isLightningBNB_advertised svc split: prod.split)
  define d' where "d' = d\<lparr>dev_ServerID := ServerID_String sid, dev_connection := Some native\<rparr>"
  have "Find (ServerID_String sid) (Inr (pre @ (d, pr) # post)) = (Inr d', dropped)"
    using found by (simp add: Find_def none lower_ServerID_String parsed d'_def)
  moreover obtain a' where "Connect None d' (Some native) r a = ((Inr (length (ad_conns a)), a'), None, [])"
      "ad_connections a' (dev_ID d') = Some (length (ad_conns a))"
      "ConnectedServerID (Some (snd (ad_conns a' ! length (ad_conns a)))) = ServerID_String sid"
    using connect_pending [OF conn(1,2) mem _ assms(1) conn(4), of d' native a] conn(3) rd by auto
  ultimately show ?thesis using light parsed by (intro conjI exI [of _ d'] exI [of _ dropped] exI [of _ a']) (simp_all add: d'_def)
qed

text \<open>A Linux server with the all-zero identity, the only one in reach; its characteristics are found in another order.\<close>

definition gatt_advert :: ScanResult where
  "gatt_advert = \<lparr>res_address = ''aa'', res_localName = ''srv'', res_RSSI = -40,
     res_payload = Some \<lparr>ad_serviceUUIDs = [ServiceUUIDString], ad_serviceData = [], ad_manufacturerData = []\<rparr>\<rparr>"

definition gatt_uuids :: "string list" where
  "gatt_uuids = [IdentityUUIDString, RXUUIDString, TXUUIDString]"

definition gatt_probe :: probe where
  "gatt_probe = \<lparr>pr_connect = ConnectDone (Inr (7, ''aa'')),
     pr_read = ReadDone (readServerID (Inr 1) (Inr (filter (\<lambda>u. u = IdentityUUIDString) gatt_uuids)) (Inr (replicate 16 0))), pr_ctx = None\<rparr>"

definition gatt_connect :: connect_results where
  "gatt_connect = \<lparr>cr_settle = None, cr_connect = ConnectDone (Inr (8, ''aa'')), cr_services = Inr 1,
     cr_characteristics = Inr gatt_uuids, cr_identity = Inr (replicate 16 0), cr_rxMTU = Inr 185, cr_txMTU = Inr 100, cr_enable = None\<rparr>"

theorem client_reaches_server_witness:
  "\<exists>d' dropped a'. Find (ServerID_String (replicate 16 0)) (Inr [(scannedDevice gatt_advert, gatt_probe)]) = (Inr d', dropped)
     \<and> Connect None d' (dev_connection d') gatt_connect NewAdapter = ((Inr 0, a'), None, [])
     \<and> ParseServerID (dev_ServerID d') = Inr (replicate 16 0)"
proof -
  have "dev_LightningBNB (scannedDevice gatt_advert)
    \<and> (\<exists>d' dropped a'. Find (ServerID_String (replicate 16 0)) (Inr ([] @ (scannedDevice gatt_advert, gatt_probe) # [])) = (Inr d', dropped)
         \<and> dev_ID d' = dev_ID (scannedDevice gatt_advert) \<and> dev_connection d' = Some 7
         \<and> Connect None d' (dev_connection d') gatt_connect NewAdapter = ((Inr (length (ad_conns NewAdapter)), a'), None, [])
         \<and> ad_connections a' (dev_ID (scannedDevice gatt_advert)) = Some (length (ad_conns NewAdapter))
         \<and> ConnectedServerID (Some (snd (ad_conns a' ! length (ad_conns NewAdapter)))) = dev_ServerID d'
         \<and> ParseServerID (dev_ServerID d') = Inr (replicate 16 0))"
    by (rule client_reaches_server [where svc = "transportService () () () (replicate 16 0) ()" and goos = "''linux''" and name = "''srv''"
          and res = gatt_advert and uuids = gatt_uuids and read = "Inr (replicate 16 0)"
          and p = "\<lparr>ad_serviceUUIDs = [ServiceUUIDString], ad_serviceData = [], ad_manufacturerData = []\<rparr>"])
      (simp_all add: gatt_advert_def gatt_uuids_def gatt_probe_def gatt_connect_def transportService_def
        advertisedUUIDs_def genericAdvertisementOptions_def ServerID_String_def serverIDPrefix_def Let_def)
  then show ?thesis by (auto simp: NewAdapter_def)
qed

end
