(* ===== verification/Service_Config.thy ===== *)
theory Service_Config
  imports Service_List Go_Strings
begin

text \<open>
  The configuration of services: \<open>ParseServerServices\<close>, \<open>ValidateClientServices\<close> and
  \<open>ClientServicesForAdvertised\<close> of \<open>internal/app/services.go\<close>, and the target a server connects a stream
  to, the resolver of \<open>ServeServerWithServicesWithTraffic\<close> in \<open>internal/bridge/server.go\<close>. Each error message of
  the code is a constructor with the values it prints.
\<close>


datatype config_error =
    InvalidService string
  | ServiceNameTooLong string
  | ServicePortRange string
  | NumericServiceName string
  | DuplicateServerService string
  | LocalPortRange int
  | TargetNotAlias string
  | TargetTooLong string
  | TargetPortRange int
  | DuplicateLocalPort int
  | AdvertisedPortRange string int
  | AdvertisedDuplicatePort int

section \<open>The server's --service values\<close>

definition parseTarget :: "string \<Rightarrow> string \<Rightarrow> config_error + string \<times> string" where
  "parseTarget val target =
     (if CHR '':'' \<in> set target then
        (case SplitHostPort target of
           None \<Rightarrow> Inl (InvalidService val)
         | Some (host, portText) \<Rightarrow>
             if TrimSpace host = '''' then Inl (InvalidService val) else Inr (TrimSpace host, portText))
      else Inr ('''', target))"

definition parseService :: "string \<Rightarrow> config_error + Service" where
  "parseService val =
     (case Cut val CHR '':'' of (name0, target0, ok) \<Rightarrow>
        let name = TrimSpace name0; target = TrimSpace target0 in
        if \<not> ok \<or> name = '''' \<or> target = '''' then Inl (InvalidService val)
        else if length name > 64 then Inl (ServiceNameTooLong val)
        else
          case parseTarget val target of
            Inl e \<Rightarrow> Inl e
          | Inr (host, portText) \<Rightarrow>
              (case Atoi (TrimSpace portText) of
                 None \<Rightarrow> Inl (ServicePortRange val)
               | Some port \<Rightarrow>
                   if port < 1 \<or> port > 65535 then Inl (ServicePortRange val)
                   else if Atoi name \<noteq> None then Inl (NumericServiceName val)
                   else Inr \<lparr>svc_Name = name, svc_Host = host, svc_Port = port\<rparr>))"

fun parseServicesLoop :: "string list \<Rightarrow> Service list \<Rightarrow> config_error + Service list" where
  "parseServicesLoop [] services = Inr services"
| "parseServicesLoop (val # vals) services =
     (case parseService val of
        Inl e \<Rightarrow> Inl e
      | Inr s \<Rightarrow>
          if svc_Name s \<in> svc_Name ` set services then Inl (DuplicateServerService (svc_Name s))
          else parseServicesLoop vals (services @ [s]))"

definition ParseServerServices :: "string list \<Rightarrow> config_error + Service list" where
  "ParseServerServices vals = parseServicesLoop vals []"

section \<open>The client's mappings\<close>

record ClientService =
  LocalPort :: int
  Remote :: string

definition validateClientService :: "ClientService \<Rightarrow> config_error option" where
  "validateClientService s =
     (if LocalPort s < 1 \<or> LocalPort s > 65535 then Some (LocalPortRange (LocalPort s))
      else if TrimSpace (Remote s) = '''' \<or> CHR '':'' \<in> set (Remote s) then Some (TargetNotAlias (Remote s))
      else if length (Remote s) > 64 then Some (TargetTooLong (Remote s))
      else case Atoi (Remote s) of
             Some port \<Rightarrow> if port < 1 \<or> port > 65535 then Some (TargetPortRange port) else None
           | None \<Rightarrow> None)"

fun validateLoop :: "ClientService list \<Rightarrow> int list \<Rightarrow> config_error option" where
  "validateLoop [] seen = None"
| "validateLoop (s # ss) seen =
     (case validateClientService s of
        Some e \<Rightarrow> Some e
      | None \<Rightarrow> if LocalPort s \<in> set seen then Some (DuplicateLocalPort (LocalPort s))
                else validateLoop ss (LocalPort s # seen))"

definition ValidateClientServices :: "ClientService list \<Rightarrow> config_error option" where
  "ValidateClientServices vals = validateLoop vals []"

definition serviceSelector :: "Service \<Rightarrow> string" where
  "serviceSelector s = (if svc_Name s = '''' then itoa (svc_Port s) else svc_Name s)"

fun advertisedLoop :: "Service list \<Rightarrow> int list \<Rightarrow> ClientService list \<Rightarrow> config_error + ClientService list" where
  "advertisedLoop [] seen services = Inr services"
| "advertisedLoop (s # ss) seen services =
     (if svc_Port s < 1 \<or> svc_Port s > 65535 then Inl (AdvertisedPortRange (svc_Name s) (svc_Port s))
      else if svc_Port s \<in> set seen then Inl (AdvertisedDuplicatePort (svc_Port s))
      else advertisedLoop ss (svc_Port s # seen) (services @ [\<lparr>LocalPort = svc_Port s, Remote = serviceSelector s\<rparr>]))"

definition ClientServicesForAdvertised :: "Service list \<Rightarrow> config_error + ClientService list" where
  "ClientServicesForAdvertised vals = advertisedLoop vals [] []"

section \<open>The server's choice of a target\<close>

definition serviceTarget :: "string \<Rightarrow> Service \<Rightarrow> string" where
  "serviceTarget host s = JoinHostPort (if svc_Host s \<noteq> '''' then svc_Host s else host) (itoa (svc_Port s))"

fun resolveService :: "string \<Rightarrow> Service list \<Rightarrow> string \<Rightarrow> string option" where
  "resolveService host [] selector = None"
| "resolveService host (s # ss) selector =
     (if selector = svc_Name s \<or> (selector = '''' \<and> svc_Name s = '''') \<or> selector = itoa (svc_Port s)
      then Some (serviceTarget host s) else resolveService host ss selector)"

section \<open>Lemmas\<close>

text \<open>The address of a stream is that of a configured service whose name or port number its selector is.\<close>

lemma resolveService_advertised:
  assumes "resolveService host services selector = Some target"
  shows "\<exists>s \<in> set services. target = serviceTarget host s \<and> (selector = svc_Name s \<or> selector = itoa (svc_Port s))"
  using assms by (induction host services selector rule: resolveService.induct) (auto split: if_splits)

text \<open>A service the command line accepts.\<close>

definition configured_ok :: "Service \<Rightarrow> bool" where
  "configured_ok s \<longleftrightarrow> svc_Name s \<noteq> '''' \<and> length (svc_Name s) \<le> 64 \<and> CHR '':'' \<notin> set (svc_Name s)
     \<and> TrimSpace (svc_Name s) \<noteq> '''' \<and> 1 \<le> svc_Port s \<and> svc_Port s \<le> 65535 \<and> Atoi (svc_Name s) = None"


lemma SplitHostPort_host: "SplitHostPort t = Some (h, p) \<Longrightarrow> length h \<le> length t"
  by (auto simp: SplitHostPort_def Let_def split: if_splits option.splits)

lemma parseTarget_host: "parseTarget v t = Inr (h, p) \<Longrightarrow> length h \<le> length t"
  using SplitHostPort_host length_TrimSpace by (fastforce simp: parseTarget_def intro: le_trans split: if_splits option.splits)

lemma Cut_parts:
  assumes "Cut v c = (a, b, True)"
  shows "c \<notin> set a" and "length b \<le> length v"
proof -
  have ab: "a = takeWhile (\<lambda>x. x \<noteq> c) v" "b = tl (dropWhile (\<lambda>x. x \<noteq> c) v)"
    using assms by (simp_all add: Cut_def split: if_splits)
  show "c \<notin> set a" unfolding ab using set_takeWhileD by fast
  show "length b \<le> length v" unfolding ab using length_dropWhile_le [of "\<lambda>x. x \<noteq> c" v] by simp
qed

lemma parseService_ok:
  assumes "parseService val = Inr s"
  shows "configured_ok s" and "length (svc_Host s) \<le> length val"
proof -
  obtain name0 target0 ok where cut: "Cut val CHR '':'' = (name0, target0, ok)" by (metis prod_cases3)
  define name where "name = TrimSpace name0"
  define target where "target = TrimSpace target0"
  have run: "ok" "name \<noteq> ''''" "\<not> length name > 64" "\<exists>host portText port. parseTarget val target = Inr (host, portText)
      \<and> 1 \<le> port \<and> port \<le> 65535 \<and> Atoi name = None \<and> s = \<lparr>svc_Name = name, svc_Host = host, svc_Port = port\<rparr>"
    using assms cut unfolding parseService_def by (auto simp: Let_def name_def target_def split: if_splits sum.splits option.splits)
  then obtain host portText port where h: "parseTarget val target = Inr (host, portText)" "1 \<le> port" "port \<le> 65535" "Atoi name = None"
    "s = \<lparr>svc_Name = name, svc_Host = host, svc_Port = port\<rparr>" by blast
  have parts: "CHR '':'' \<notin> set name0" "length target0 \<le> length val"
    using Cut_parts cut run(1) by simp_all
  have "CHR '':'' \<notin> set name" using parts(1) set_TrimSpace unfolding name_def by blast
  moreover have "TrimSpace name \<noteq> ''''" using run(2) by (simp add: name_def TrimSpace_idem)
  ultimately show "configured_ok s" using run(2,3) h by (simp add: configured_ok_def)
  have "length host \<le> length target"
    by (rule parseTarget_host [OF h(1)])
  then show "length (svc_Host s) \<le> length val"
    using h(5) parts(2) length_TrimSpace [of target0] by (simp add: target_def)
qed

lemma parseServicesLoop_ok:
  assumes "parseServicesLoop vals acc = Inr services" and "list_all configured_ok acc" and "distinct (map svc_Name acc)"
    and "\<forall>s \<in> set acc. length (svc_Host s) < n" and "\<forall>v \<in> set vals. length v < n"
  shows "list_all configured_ok services \<and> distinct (map svc_Name services) \<and> (\<forall>s \<in> set services. length (svc_Host s) < n)
    \<and> length services = length acc + length vals"
  using assms
proof (induction vals acc rule: parseServicesLoop.induct)
  case (2 val vals acc)
  then obtain s where s: "parseService val = Inr s" "svc_Name s \<notin> svc_Name ` set acc" "parseServicesLoop vals (acc @ [s]) = Inr services"
    by (auto split: sum.splits if_splits)
  have "length (svc_Host s) < n" using parseService_ok(2) [OF s(1)] 2(6) by simp
  then have "list_all configured_ok services \<and> distinct (map svc_Name services) \<and> (\<forall>s \<in> set services. length (svc_Host s) < n)
    \<and> length services = length (acc @ [s]) + length vals"
    using 2(3-6) s parseService_ok(1) [OF s(1)] by (intro "2.IH" [OF s(1)]) auto
  then show ?case by simp
qed simp

lemma advertisedLoop_ok:
  assumes "advertisedLoop ss seen acc = Inr cs" and "distinct seen"
  shows "cs = acc @ map (\<lambda>s. \<lparr>LocalPort = svc_Port s, Remote = serviceSelector s\<rparr>) ss
    \<and> distinct (map svc_Port ss) \<and> set (map svc_Port ss) \<inter> set seen = {} \<and> (\<forall>s \<in> set ss. 1 \<le> svc_Port s \<and> svc_Port s \<le> 65535)"
  using assms by (induction ss seen acc rule: advertisedLoop.induct) (auto split: if_splits)

lemma validateLoop_None:
  assumes "\<forall>s \<in> set ss. validateClientService s = None" and "distinct (map LocalPort ss)" and "LocalPort ` set ss \<inter> set seen = {}"
  shows "validateLoop ss seen = None"
  using assms by (induction ss arbitrary: seen) auto

text \<open>Names that are no numbers are never mistaken for ports.\<close>

lemma resolve_name:
  assumes "list_all configured_ok services" and "distinct (map svc_Name services)" and "s \<in> set services"
  shows "resolveService host services (svc_Name s) = Some (serviceTarget host s)"
  using assms
proof (induction services)
  case (Cons x xs)
  have num: "svc_Name s \<noteq> itoa (svc_Port x)"
    using Cons.prems(1,3) Atoi_itoa [of "svc_Port x"] by (auto simp: configured_ok_def list_all_iff)
  show ?case
  proof (cases "s = x")
    case False
    then have "s \<in> set xs" "svc_Name s \<noteq> svc_Name x" using Cons.prems(2,3) by (auto, metis image_eqI)
    then show ?thesis using Cons num by (auto simp: configured_ok_def)
  qed simp
qed simp

lemma parsed_ok:
  assumes "ParseServerServices vals = Inr services"
  shows "list_all configured_ok services" and "distinct (map svc_Name services)"
proof -
  have "finite (length ` set vals)" by simp
  then obtain n where "\<forall>v \<in> set vals. length v < n" unfolding finite_nat_set_iff_bounded by blast
  then show "list_all configured_ok services" "distinct (map svc_Name services)"
    using parseServicesLoop_ok [of vals "[]" services n] assms by (simp_all add: ParseServerServices_def)
qed

section \<open>Properties\<close>

text \<open>
  What the command line accepts can be advertised. Every list of services \<open>ParseServerServices\<close> accepts
  has distinct, non-empty, non-numeric names of at most 64 bytes without a colon and ports from 1 to 65535, and a client decodes the
  server's encoding of it to the same list.
\<close>

theorem parsed_services_advertised:
  assumes "ParseServerServices vals = Inr services" and "\<forall>v \<in> set vals. length v < 65536" and "length vals < 65536"
  shows "distinct (map svc_Name services) \<and> list_all configured_ok services \<and> length services = length vals
    \<and> decodeServices (encodeServices services) = Inr services"
proof -
  have ok: "list_all configured_ok services" "distinct (map svc_Name services)" "\<forall>s \<in> set services. length (svc_Host s) < 65536"
    "length services = length vals"
    using parseServicesLoop_ok [of vals "[]" services 65536] assms by (auto simp: ParseServerServices_def)
  then have "\<forall>s \<in> set services. service_ok s"
    by (auto simp: list_all_iff configured_ok_def service_ok_def maxServiceName_def)
  then show ?thesis using ok assms(3) service_codec.decode_encode [of services] by (simp add: list_all_iff)
qed

text \<open>Two services given on a command line.\<close>

definition demo_values :: "string list" where "demo_values = [''ssh:22'', ''web:nas:80'']"

definition demo_services :: "Service list" where
  "demo_services = [\<lparr>svc_Name = ''ssh'', svc_Host = '''', svc_Port = 22\<rparr>, \<lparr>svc_Name = ''web'', svc_Host = ''nas'', svc_Port = 80\<rparr>]"

lemma demo_itoa: "itoa 22 = ''22''" "itoa 80 = ''80''"
  by code_simp+

lemma demo_services_parse: "ParseServerServices demo_values = Inr demo_services"
  by (simp add: demo_values_def demo_services_def ParseServerServices_def parseService_def Cut_def TrimSpace_visible visible_def
      parseTarget_def SplitHostPort_def Atoi_def is_digit_def decimal_def)

theorem parsed_services_advertised_witness:
  "distinct (map svc_Name demo_services) \<and> decodeServices (encodeServices demo_services) = Inr demo_services"
  using parsed_services_advertised [OF demo_services_parse] by (simp add: demo_values_def)

text \<open>
  The all-services mode reaches every service. For the services a server was configured with, the
  mappings the client derives from the advertised list pass the client's own validation, use each
  service's port as the local port, and carry a selector that the server resolves to exactly that service's address.
\<close>

theorem all_services_mode:
  assumes "ParseServerServices vals = Inr services" and "ClientServicesForAdvertised services = Inr mappings"
  shows "ValidateClientServices mappings = None \<and> map LocalPort mappings = map svc_Port services
    \<and> (\<forall>i < length services. resolveService host services (Remote (mappings ! i)) = Some (serviceTarget host (services ! i)))"
proof -
  have ok: "list_all configured_ok services" "distinct (map svc_Name services)"
    using parsed_ok assms(1) by blast+
  have m: "mappings = map (\<lambda>s. \<lparr>LocalPort = svc_Port s, Remote = serviceSelector s\<rparr>) services" "distinct (map svc_Port services)"
    using advertisedLoop_ok [of services "[]" "[]" mappings] assms(2) by (simp_all add: ClientServicesForAdvertised_def)
  have sel: "serviceSelector s = svc_Name s" if "s \<in> set services" for s
    using ok(1) that by (auto simp: list_all_iff configured_ok_def serviceSelector_def)
  have "validateLoop mappings [] = None"
  proof (rule validateLoop_None)
    show "\<forall>s \<in> set mappings. validateClientService s = None"
      using ok(1) sel by (auto simp: m(1) validateClientService_def configured_ok_def list_all_iff)
    show "distinct (map LocalPort mappings)" using m by (simp add: comp_def)
  qed simp
  then show ?thesis using m(1) sel resolve_name [OF ok] by (simp add: ValidateClientServices_def comp_def)
qed

theorem all_services_mode_witness:
  "resolveService ''localhost'' demo_services ''web'' = Some ''nas:80''"
proof -
  let ?m = "[\<lparr>LocalPort = 22, Remote = ''ssh''\<rparr>, \<lparr>LocalPort = 80, Remote = ''web''\<rparr>]"
  have "ClientServicesForAdvertised demo_services = Inr ?m"
    by (simp add: ClientServicesForAdvertised_def demo_services_def serviceSelector_def)
  from all_services_mode [OF demo_services_parse this, of "''localhost''"]
  have "\<forall>i < length demo_services. resolveService ''localhost'' demo_services (Remote (?m ! i)) = Some (serviceTarget ''localhost'' (demo_services ! i))"
    by blast
  from this [rule_format, of 1] have "resolveService ''localhost'' demo_services (Remote (?m ! 1)) = Some (serviceTarget ''localhost'' (demo_services ! 1))"
    by (simp add: demo_services_def del: resolveService.simps)
  then show ?thesis by (simp add: demo_services_def serviceTarget_def JoinHostPort_def demo_itoa)
qed

end
