(* ===== verification/Bridge.thy ===== *)
theory Bridge
  imports Mux_Run Service_Config Transition_System "HOL-Library.Multiset" "HOL-Library.Sublist"
begin

text \<open>
  The bridge between TCP connections and multiplexed streams: \<open>internal/bridge/client.go\<close> (admission of local
  connections, the wait for an endpoint, opening a stream), \<open>internal/bridge/server.go\<close> (serving the streams the peer
  opens), \<open>internal/bridge/proxy.go\<close> (copying both ways). Sockets, dials and timers are arguments; streams are those of the
  multiplexer's model. The handlers of the client are a step relation, for any number of them.
\<close>

section \<open>The client\<close>

record bridgeClient =
  bc_resumeTimeout :: duration
  bc_cap :: nat
  bc_active :: nat
  bc_waiting :: int
  bc_opening :: int
  bc_endpoint :: "nat option"
  bc_notify :: nat

record bridgeSnapshot =
  bs_ActiveConnections :: int
  bs_WaitingConnections :: int
  bs_OpeningConnections :: int

text \<open>\<open>bc_active\<close> is the number of elements in the channel \<open>limit\<close>, whose capacity is \<open>bc_cap\<close>; an endpoint is its number.\<close>

definition NewClientWithTraffic :: "duration \<Rightarrow> int \<Rightarrow> bridgeClient" where
  "NewClientWithTraffic resumeTimeout maxConnections =
     \<lparr>bc_resumeTimeout = (if resumeTimeout \<le> 0 then 60 * Base.second else resumeTimeout),
      bc_cap = nat (if maxConnections \<le> 0 then 32 else maxConnections),
      bc_active = 0, bc_waiting = 0, bc_opening = 0, bc_endpoint = None, bc_notify = 0\<rparr>"

definition bridgeSignal :: "bridgeClient \<Rightarrow> bridgeClient" where
  "bridgeSignal c = c\<lparr>bc_notify := bc_notify c + 1\<rparr>"

definition SetEndpoint :: "nat option \<Rightarrow> bridgeClient \<Rightarrow> bridgeClient" where
  "SetEndpoint endpoint c = bridgeSignal (c\<lparr>bc_endpoint := endpoint\<rparr>)"

text \<open>The goroutine of \<open>SetEndpoint\<close>, when the multiplexer of \<open>endpoint\<close> has ended and its session was reset.\<close>

definition endpointEnded :: "nat \<Rightarrow> bridgeClient \<Rightarrow> bridgeClient" where
  "endpointEnded endpoint c =
     (if bc_endpoint c = Some endpoint then bridgeSignal (c\<lparr>bc_endpoint := None\<rparr>) else c)"

definition bridge_Snapshot :: "bridgeClient \<Rightarrow> bridgeSnapshot" where
  "bridge_Snapshot c = \<lparr>bs_ActiveConnections = int (bc_active c), bs_WaitingConnections = bc_waiting c, bs_OpeningConnections = bc_opening c\<rparr>"

text \<open>
  \<open>ServeServices\<close>: its error, the loops it starts, each for a service and a listener, and the listeners it closes when its context ends.
\<close>

definition ServeServices :: "(string \<times> nat list) list \<Rightarrow> go_error option \<times> (string \<times> nat) list \<times> nat list" where
  "ServeServices listeners =
     (if listeners = [] then (Some (ErrorText ''no local service listeners configured''), [], [])
      else (None, concat (map (\<lambda>(service, ls). map (\<lambda>l. (service, l)) ls) listeners), concat (map snd listeners)))"

text \<open>One turn of \<open>serveListener\<close>: the result of \<open>Accept\<close>, the context's error; then the attempt to take a slot.\<close>

datatype serve_turn = ServeEnds "go_error option" | ServeHandles | ServeTurnsAway

definition serveListenerTurn :: "go_error option \<Rightarrow> go_error option \<Rightarrow> bridgeClient \<Rightarrow> serve_turn \<times> bridgeClient" where
  "serveListenerTurn acceptErr ctx c =
     (case acceptErr of
        Some e \<Rightarrow>
          (ServeEnds (if ctx \<noteq> None \<or> errors_is e ErrNetClosed then None
                      else Some (Wrapped ''accept local TCP connection: '' e '''')), c)
      | None \<Rightarrow>
          if bc_active c < bc_cap c then (ServeHandles, c\<lparr>bc_active := bc_active c + 1\<rparr>)
          else (ServeTurnsAway, c))"

text \<open>One pass of \<open>waitReady\<close>: the endpoint that can be used now. The arguments say whether a link is bound and whether a multiplexer has ended.\<close>

definition waitReadyPass :: "(nat \<Rightarrow> bool) \<Rightarrow> (nat \<Rightarrow> bool) \<Rightarrow> bridgeClient \<Rightarrow> nat option" where
  "waitReadyPass isBound muxDone c =
     (case bc_endpoint c of
        None \<Rightarrow> None
      | Some endpoint \<Rightarrow> if isBound endpoint \<and> \<not> muxDone endpoint then Some endpoint else None)"

text \<open>The critical sections of \<open>handle\<close>, and the release of the slot.\<close>

definition waitBegin :: "bridgeClient \<Rightarrow> bridgeClient" where "waitBegin c = c\<lparr>bc_waiting := bc_waiting c + 1\<rparr>"
definition waitEnd :: "bridgeClient \<Rightarrow> bridgeClient" where "waitEnd c = c\<lparr>bc_waiting := bc_waiting c - 1\<rparr>"
definition openBegin :: "bridgeClient \<Rightarrow> bridgeClient" where "openBegin c = c\<lparr>bc_opening := bc_opening c + 1\<rparr>"
definition openEnd :: "bridgeClient \<Rightarrow> bridgeClient" where "openEnd c = c\<lparr>bc_opening := bc_opening c - 1\<rparr>"
definition releaseSlot :: "bridgeClient \<Rightarrow> bridgeClient" where "releaseSlot c = c\<lparr>bc_active := bc_active c - 1\<rparr>"

text \<open>
  Where a handler stands: before the first section, waiting for an endpoint, with an endpoint, opening a stream on it, copying, or
  about to close its connection and release its slot. Handlers are a multiset: they differ in nothing else the bridge keeps.
\<close>

datatype handler = Admitted | Waiting | Chosen nat | Opening nat | Copying nat | Leaving

record bridge =
  br_client :: bridgeClient
  br_handlers :: "handler multiset"
  br_accepted :: nat
  br_closed :: nat

definition moveTo :: "handler \<Rightarrow> handler \<Rightarrow> (bridgeClient \<Rightarrow> bridgeClient) \<Rightarrow> bridge \<Rightarrow> bridge" where
  "moveTo h h' f b = b\<lparr>br_client := f (br_client b), br_handlers := br_handlers b - {#h#} + {#h'#}\<rparr>"

inductive bridge_step :: "bridge \<Rightarrow> bridge \<Rightarrow> bool" where
  admit: "serveListenerTurn None ctx (br_client b) = (ServeHandles, c) \<Longrightarrow>
    bridge_step b (b\<lparr>br_client := c, br_handlers := br_handlers b + {#Admitted#}, br_accepted := br_accepted b + 1\<rparr>)"
| turn_away: "serveListenerTurn None ctx (br_client b) = (ServeTurnsAway, c) \<Longrightarrow>
    bridge_step b (b\<lparr>br_client := c, br_accepted := br_accepted b + 1, br_closed := br_closed b + 1\<rparr>)"
| wait: "Admitted \<in># br_handlers b \<Longrightarrow> bridge_step b (moveTo Admitted Waiting waitBegin b)"
| ready: "Waiting \<in># br_handlers b \<Longrightarrow> waitReadyPass isBound muxDone (br_client b) = Some endpoint \<Longrightarrow>
    bridge_step b (moveTo Waiting (Chosen endpoint) waitEnd b)"
| expired: "Waiting \<in># br_handlers b \<Longrightarrow> bridge_step b (moveTo Waiting Leaving waitEnd b)"
| open_stream: "Chosen endpoint \<in># br_handlers b \<Longrightarrow> bridge_step b (moveTo (Chosen endpoint) (Opening endpoint) openBegin b)"
| opened_stream: "Opening endpoint \<in># br_handlers b \<Longrightarrow> bridge_step b (moveTo (Opening endpoint) (Copying endpoint) openEnd b)"
| open_failed: "Opening endpoint \<in># br_handlers b \<Longrightarrow> bridge_step b (moveTo (Opening endpoint) Leaving openEnd b)"
| copied: "Copying endpoint \<in># br_handlers b \<Longrightarrow> bridge_step b (moveTo (Copying endpoint) Leaving id b)"
| leave: "Leaving \<in># br_handlers b \<Longrightarrow>
    bridge_step b (b\<lparr>br_client := releaseSlot (br_client b), br_handlers := br_handlers b - {#Leaving#}, br_closed := br_closed b + 1\<rparr>)"
| set_endpoint: "bridge_step b (b\<lparr>br_client := SetEndpoint endpoint (br_client b)\<rparr>)"
| ended_endpoint: "bridge_step b (b\<lparr>br_client := endpointEnded endpoint' (br_client b)\<rparr>)"

inductive_cases bridge_stepE: "bridge_step b b'"

definition bridge_start :: "duration \<Rightarrow> int \<Rightarrow> bridge" where
  "bridge_start resumeTimeout maxConnections =
     \<lparr>br_client = NewClientWithTraffic resumeTimeout maxConnections, br_handlers = {#}, br_accepted = 0, br_closed = 0\<rparr>"

text \<open>The counters are the numbers of handlers in each phase.\<close>

definition isOpening :: "handler \<Rightarrow> bool" where
  "isOpening h = (case h of Opening e \<Rightarrow> True | _ \<Rightarrow> False)"

lemma isOpening_simps [simp]:
  "isOpening (Opening e)" "\<not> isOpening Admitted" "\<not> isOpening Waiting" "\<not> isOpening (Chosen e)" "\<not> isOpening (Copying e)" "\<not> isOpening Leaving"
  by (simp_all add: isOpening_def)

definition bridge_ok :: "bridge \<Rightarrow> bool" where
  "bridge_ok b \<longleftrightarrow> bc_active (br_client b) = size (br_handlers b) \<and> bc_active (br_client b) \<le> bc_cap (br_client b)
     \<and> bc_waiting (br_client b) = int (count (br_handlers b) Waiting)
     \<and> bc_opening (br_client b) = int (size (filter_mset isOpening (br_handlers b)))
     \<and> br_accepted b = br_closed b + size (br_handlers b)"

lemma bridge_ok_client:
  assumes "bridge_ok b" "bc_active c = bc_active (br_client b)" "bc_cap c = bc_cap (br_client b)"
    "bc_waiting c = bc_waiting (br_client b)" "bc_opening c = bc_opening (br_client b)"
  shows "bridge_ok (b\<lparr>br_client := c\<rparr>)"
  using assms by (simp add: bridge_ok_def)

text \<open>A handler that moves between two phases takes its part in the counters along.\<close>

lemma moveTo_ok:
  assumes ok: "bridge_ok b" and h: "h \<in># br_handlers b"
    and f: "bc_active (f (br_client b)) = bc_active (br_client b)" "bc_cap (f (br_client b)) = bc_cap (br_client b)"
      "bc_waiting (f (br_client b)) = bc_waiting (br_client b) - (if h = Waiting then 1 else 0) + (if h' = Waiting then 1 else 0)"
      "bc_opening (f (br_client b)) = bc_opening (br_client b) - (if isOpening h then 1 else 0) + (if isOpening h' then 1 else 0)"
  shows "bridge_ok (moveTo h h' f b)"
proof -
  obtain H where H: "br_handlers b = add_mset h H" using h by (metis mset_add)
  show ?thesis using ok f by (auto simp: bridge_ok_def moveTo_def H)
qed

lemma bridge_step_ok: "bridge_ok b \<Longrightarrow> bridge_step b b' \<Longrightarrow> bridge_ok b'"
proof (erule bridge_stepE, goal_cases)
  case (1 ctx c)
  then show ?case by (auto simp: bridge_ok_def serveListenerTurn_def split: if_splits)
next
  case (2 ctx c)
  then show ?case by (auto simp: bridge_ok_def serveListenerTurn_def split: if_splits)
next
  case 10
  then obtain H where H: "br_handlers b = add_mset Leaving H" by (metis mset_add)
  show ?case using 10 by (auto simp: bridge_ok_def H releaseSlot_def)
next
  case (11 endpoint)
  then show ?case by (auto intro!: bridge_ok_client simp: SetEndpoint_def bridgeSignal_def)
next
  case (12 endpoint)
  then show ?case by (auto intro!: bridge_ok_client simp: endpointEnded_def bridgeSignal_def)
qed (auto intro!: moveTo_ok simp: waitBegin_def waitEnd_def openBegin_def openEnd_def)

interpretation bridge_runs: transition_system "\<lambda>b. \<exists>t n. b = bridge_start t n" bridge_step bridge_ok
proof
  show "\<exists>t n. s = bridge_start t n \<Longrightarrow> bridge_ok s" for s by (auto simp: bridge_ok_def bridge_start_def NewClientWithTraffic_def)
qed (rule bridge_step_ok)

section \<open>The server\<close>

text \<open>
  The goroutine that serves an accepted stream, up to the copying. \<open>resolve\<close> is the resolver the caller chose, \<open>dial\<close> the
  result of dialling a target; a TCP connection is its number.
\<close>

datatype served = StreamRejected | ConnDropped nat | ProxyStarted nat

definition serveStream ::
  "(string \<Rightarrow> string option) \<Rightarrow> (string \<Rightarrow> go_error + nat) \<Rightarrow> nat \<Rightarrow> Mux \<Rightarrow> served \<times> Mux" where
  "serveStream resolve dial p m =
     (case resolve (sm_service (at m p)) of
        None \<Rightarrow> (StreamRejected, snd (Reject p (Some (ErrorText (''service unavailable: '' @ sm_service (at m p)))) m))
      | Some target \<Rightarrow>
          (case dial target of
             Inl e \<Rightarrow> (StreamRejected, snd (Reject p (Some (Wrapped ''target unavailable: '' e '''')) m))
           | Inr conn \<Rightarrow>
               (case Approve p m of
                  (Some e, m1) \<Rightarrow> (ConnDropped conn, m1)
                | (None, m1) \<Rightarrow> (ProxyStarted conn, m1))))"

text \<open>One turn of \<open>serveServer\<close>: \<open>None\<close> when \<open>Accept\<close> waits; the error it ends with; or the stream to serve.\<close>

definition serveServerTurn :: "bool \<Rightarrow> Mux \<Rightarrow> (go_error option + nat) option \<times> Mux" where
  "serveServerTurn ctxDone m =
     (case Accept m of
        (None, m1) \<Rightarrow> (None, m1)
      | (Some (Inl e), m1) \<Rightarrow> (Some (Inl (if ctxDone then None else Some e)), m1)
      | (Some (Inr p), m1) \<Rightarrow> (Some (Inr p), m1))"

section \<open>The proxy\<close>

definition cleanCopyError :: "go_error option \<Rightarrow> go_error option" where
  "cleanCopyError err =
     (case err of None \<Rightarrow> None | Some e \<Rightarrow> if errors_is e EOF \<or> errors_is e ErrNetClosed then None else Some e)"

text \<open>The three errors are the platform's constants for an aborted connection, a reset connection and a broken pipe.\<close>

definition isExpectedNetworkClose :: "go_error \<Rightarrow> bool" where
  "isExpectedNetworkClose e \<longleftrightarrow> errors_is e ConnAborted \<or> errors_is e ConnReset \<or> errors_is e BrokenPipe"

definition cleanProxyError :: "go_error option \<Rightarrow> go_error option" where
  "cleanProxyError err =
     (case cleanCopyError err of None \<Rightarrow> None | Some e \<Rightarrow> if isExpectedNetworkClose e then None else Some e)"

text \<open>\<open>countingWriter.Write\<close> on what the writer behind it returned: the count grows by the bytes it accepted.\<close>

definition countWrite :: "(u64 \<Rightarrow> Counter \<Rightarrow> Counter) \<Rightarrow> nat \<Rightarrow> Counter option \<Rightarrow> Counter option" where
  "countWrite add n counter = (if n > 0 then map_option (add (of_nat n)) counter else counter)"

text \<open>
  \<open>io.Copy\<close> into a \<open>countingWriter\<close>: the results of the reads and of the writes, in order. By the contract of \<open>io.Writer\<close> a write accepts
  a prefix of the data. \<open>None\<close>: the copy waits in a read or a write. The result keeps the counter and the bytes the writer accepted.
\<close>

fun copyLoop ::
  "(u64 \<Rightarrow> Counter \<Rightarrow> Counter) \<Rightarrow> (bytes \<times> go_error option) list \<Rightarrow> (nat \<times> go_error option) list \<Rightarrow> Counter option \<Rightarrow> bytes
   \<Rightarrow> go_error option option \<times> Counter option \<times> bytes" where
  "copyLoop add [] ws counter out = (None, counter, out)"
| "copyLoop add ((data, er) # rs) ws counter out =
     (if data = [] then
        (case er of
           None \<Rightarrow> copyLoop add rs ws counter out
         | Some e \<Rightarrow> (Some (if e = Sentinel EOF then None else Some e), counter, out))
      else
        case ws of
          [] \<Rightarrow> (None, counter, out)
        | (n, ew) # ws' \<Rightarrow>
            let k = min n (length data); counter' = countWrite add k counter; out' = out @ take k data in
            if ew \<noteq> None then (Some ew, counter', out')
            else if k \<noteq> length data then (Some (Some (Sentinel ErrShortWrite)), counter', out')
            else case er of
                   None \<Rightarrow> copyLoop add rs ws' counter' out'
                 | Some e \<Rightarrow> (Some (if e = Sentinel EOF then None else Some e), counter', out'))"

text \<open>What one direction sends to \<open>errorsCh\<close>: the error of the copy, or else that of the half close after it.\<close>

definition directionError :: "go_error option \<Rightarrow> go_error option \<Rightarrow> go_error option" where
  "directionError copyErr closeWriteErr = cleanCopyError (if copyErr = None then closeWriteErr else copyErr)"

text \<open>
  The end of \<open>ProxyWithTraffic\<close> for the stream at \<open>p\<close>: the results of the directions in the order they come, the first error, how often the TCP
  connection was closed, and the multiplexer.
\<close>

definition joinStep :: "nat \<Rightarrow> go_error option \<Rightarrow> go_error option \<times> nat \<times> Mux \<Rightarrow> go_error option \<times> nat \<times> Mux" where
  "joinStep p err st =
     (case st of (firstErr, closes, m) \<Rightarrow>
        (case (err, firstErr) of
           (Some e, None) \<Rightarrow> (Some e, closes + 1, snd (Reset p e m))
         | _ \<Rightarrow> st))"

definition proxyEnd :: "nat \<Rightarrow> go_error option \<Rightarrow> go_error option \<Rightarrow> Mux \<Rightarrow> go_error option \<times> nat \<times> Mux" where
  "proxyEnd p err1 err2 m =
     (case joinStep p err2 (joinStep p err1 (None, 0, m)) of (firstErr, closes, m1) \<Rightarrow>
        (cleanProxyError firstErr, closes + 1, snd (Stream_Close p m1)))"

section \<open>Lemmas\<close>

lemma heap_shutdown: "sm_closed (at m p) \<Longrightarrow> sm_closed (at (fold (\<lambda>q. receiveReset q e) ps m) p)"
proof (induction ps arbitrary: m)
  case (Cons q ps)
  have "sm_closed (at (receiveReset q e m) p)"
    using Cons.prems by (cases "q < length (m_heap m)"; cases "q = p") (auto simp: receiveReset_def upd_def streamSignal_def)
  then show ?case using Cons.IH by simp
qed simp

lemma sendControl_closed: "sm_closed (at m p) \<Longrightarrow> sendControl f m = (e, m') \<Longrightarrow> sm_closed (at m' p)"
  by (auto simp: sendControl_def Let_def pickCase_def shutdown_def heap_shutdown split: if_splits)

lemma Reset_closed: "p < length (m_heap m) \<Longrightarrow> sm_closed (at (snd (Reset p err m)) p)"
  by (cases "sm_closed (at m p)")
    (auto simp: Reset_def Let_def at_upd streamSignal_def intro!: sendControl_closed [OF _ surjective_pairing])

lemma Stream_Close_closed: "p < length (m_heap m) \<Longrightarrow> sm_closed (at (snd (Stream_Close p m)) p)"
  by (cases "sm_closed (at m p)")
    (auto simp: Stream_Close_def Let_def at_upd streamSignal_def intro!: sendControl_closed [OF _ surjective_pairing])

lemma sendControl_room:
  "\<not> m_done m \<Longrightarrow> length (m_control m) < controlCap m \<Longrightarrow> sendControl f m = (None, m\<lparr>m_control := m_control m @ [f]\<rparr>)"
  by (simp add: sendControl_def Let_def)

lemma Reject_open:
  assumes "\<not> sm_closed (at m p)" "p < length (m_heap m)" "\<not> m_done m" "length (m_control m) < controlCap m" "table_ok m"
  shows "sm_closed (at (snd (Reject p err m)) p) \<and> map_of (m_streams (snd (Reject p err m))) (sm_id (at m p)) = None
    \<and> m_control (snd (Reject p err m)) = m_control m @ [mkFrame FrameOpenError (sm_id (at m p)) (bytes_of (errorMessage err))]"
proof -
  let ?m = "removeStream (sm_id (at m p)) (upd p (\<lambda>s. streamSignal (s\<lparr>sm_closed := True, sm_err := Some (Sentinel ErrStreamRejected)\<rparr>)) m)"
  have "controlCap ?m = controlCap m" by (simp add: controlCap_def)
  then have "sendControl f ?m = (None, ?m\<lparr>m_control := m_control ?m @ [f]\<rparr>)" for f
    using assms by (intro sendControl_room) simp_all
  then show ?thesis using assms by (simp add: Reject_def Let_def at_upd streamSignal_def removeStream_fields)
qed

lemma Approve_open:
  assumes "\<not> sm_closed (at m p)" "\<not> sm_opened (at m p)" "p < length (m_heap m)" "\<not> m_done m" "length (m_control m) < controlCap m"
  shows "fst (Approve p m) = None \<and> sm_opened (at (snd (Approve p m)) p)
    \<and> m_control (snd (Approve p m)) = m_control m @ [mkFrame FrameOpenOK (sm_id (at m p)) []]"
proof -
  let ?m = "upd p (\<lambda>s. streamSignal (s\<lparr>sm_opened := True\<rparr>)) m"
  have "controlCap ?m = controlCap m" by (simp add: controlCap_def)
  then have "sendControl f ?m = (None, ?m\<lparr>m_control := m_control ?m @ [f]\<rparr>)" for f
    using assms by (intro sendControl_room) simp_all
  then show ?thesis using assms by (simp add: Approve_def at_upd streamSignal_def)
qed

lemma countWrite_TX: "countWrite AddTX n (Some c) = Some (c\<lparr>c_tx := c_tx c + of_nat n\<rparr>)"
  by (simp add: countWrite_def AddTX_def)

text \<open>What a copy has done to the counter and to the writer after the reads \<open>rs\<close>.\<close>

definition copied_ok :: "(bytes \<times> go_error option) list \<Rightarrow> Counter \<Rightarrow> bytes \<Rightarrow> go_error option option \<times> Counter option \<times> bytes \<Rightarrow> bool" where
  "copied_ok rs c out r \<longleftrightarrow> (\<exists>new. snd (snd r) = out @ new \<and> fst (snd r) = Some (c\<lparr>c_tx := c_tx c + of_nat (length new)\<rparr>)
     \<and> prefix new (concat (map fst rs))
     \<and> (fst r = Some None \<longrightarrow> (\<exists>k. k < length rs \<and> snd (rs ! k) = Some (Sentinel EOF) \<and> new = concat (map fst (take (Suc k) rs)))))"

lemma copied_okI:
  assumes "r = (res, Some (c\<lparr>c_tx := c_tx c + of_nat (length new)\<rparr>), out @ new)" "prefix new (concat (map fst rs))"
    "res = Some None \<Longrightarrow> \<exists>k. k < length rs \<and> snd (rs ! k) = Some (Sentinel EOF) \<and> new = concat (map fst (take (Suc k) rs))"
  shows "copied_ok rs c out r"
  using assms by (auto simp: copied_ok_def)

text \<open>A copy that goes on after a read it wrote completely.\<close>

lemma copied_ok_step:
  assumes "copied_ok rs (c\<lparr>c_tx := c_tx c + of_nat (length data)\<rparr>) (out @ data) r"
  shows "copied_ok ((data, er) # rs) c out r"
proof -
  obtain new where new: "snd (snd r) = (out @ data) @ new"
    "fst (snd r) = Some (c\<lparr>c_tx := (c_tx c + of_nat (length data)) + of_nat (length new)\<rparr>)" "prefix new (concat (map fst rs))"
    and eof: "fst r = Some None \<Longrightarrow> \<exists>k. k < length rs \<and> snd (rs ! k) = Some (Sentinel EOF) \<and> new = concat (map fst (take (Suc k) rs))"
    using assms unfolding copied_ok_def by (auto simp: add.assoc)
  show ?thesis
  proof (rule copied_okI [of _ "fst r" _ "data @ new"])
    show "r = (fst r, Some (c\<lparr>c_tx := c_tx c + of_nat (length (data @ new))\<rparr>), out @ data @ new)"
      using new(1,2) by (simp add: prod_eq_iff add.assoc)
    show "prefix (data @ new) (concat (map fst ((data, er) # rs)))" using new(3) by simp
    assume "fst r = Some None"
    then obtain k where "k < length rs" "snd (rs ! k) = Some (Sentinel EOF)" "new = concat (map fst (take (Suc k) rs))" using eof by blast
    then show "\<exists>k. k < length ((data, er) # rs) \<and> snd (((data, er) # rs) ! k) = Some (Sentinel EOF)
        \<and> data @ new = concat (map fst (take (Suc k) ((data, er) # rs)))"
      by (intro exI [of _ "Suc k"]) simp
  qed
qed

lemma copied_ok_last:
  assumes "r = (res, Some (c\<lparr>c_tx := c_tx c + of_nat (length new)\<rparr>), out @ new)" "prefix new data"
    "res = Some None \<Longrightarrow> er = Some (Sentinel EOF) \<and> new = data"
  shows "copied_ok ((data, er) # rs) c out r"
proof (rule copied_okI [OF assms(1)])
  show "prefix new (concat (map fst ((data, er) # rs)))" using assms(2) by (simp add: prefix_order.order_trans)
  assume "res = Some None"
  then show "\<exists>k. k < length ((data, er) # rs) \<and> snd (((data, er) # rs) ! k) = Some (Sentinel EOF) \<and> new = concat (map fst (take (Suc k) ((data, er) # rs)))"
    using assms(3) by (intro exI [of _ 0]) simp
qed

lemma copyLoop_counts: "copied_ok rs c out (copyLoop AddTX rs ws (Some c) out)"
proof (induction rs arbitrary: ws c out)
  case Nil
  show ?case by (rule copied_okI [of _ None _ "[]"]) simp_all
next
  case (Cons x rs)
  obtain data er where x: "x = (data, er)" by fastforce
  show ?case
  proof (cases "data = []")
    case True
    show ?thesis
    proof (cases er)
      case None
      then show ?thesis using copied_ok_step [of rs c "[]" out _ er] Cons.IH by (simp add: x True)
    next
      case (Some e)
      then show ?thesis by (auto simp: x True intro!: copied_ok_last [of _ _ _ "[]"])
    qed
  next
    case False
    show ?thesis
    proof (cases ws)
      case Nil
      then show ?thesis using False by (auto simp: x intro!: copied_ok_last [of _ None _ "[]"])
    next
      case (Cons w ws')
      obtain n ew where w: "w = (n, ew)" by fastforce
      let ?k = "min n (length data)"
      show ?thesis
      proof (cases "ew = None \<and> ?k = length data \<and> er = None")
        case True
        then have "copyLoop AddTX (x # rs) ws (Some c) out = copyLoop AddTX rs ws' (Some (c\<lparr>c_tx := c_tx c + of_nat (length data)\<rparr>)) (out @ data)"
          using False by (simp add: x w Cons Let_def countWrite_TX)
        then show ?thesis using copied_ok_step [OF Cons.IH] by (simp add: x)
      next
        case stop: False
        have "copied_ok (x # rs) c out (copyLoop AddTX (x # rs) ws (Some c) out)"
          unfolding x
        proof (rule copied_ok_last [of _ "fst (copyLoop AddTX ((data, er) # rs) ws (Some c) out)" _ "take ?k data"])
          show "copyLoop AddTX ((data, er) # rs) ws (Some c) out
              = (fst (copyLoop AddTX ((data, er) # rs) ws (Some c) out), Some (c\<lparr>c_tx := c_tx c + of_nat (length (take ?k data))\<rparr>), out @ take ?k data)"
            using False stop by (auto simp: w Cons Let_def countWrite_TX min_def split: option.split)
          show "prefix (take ?k data) data" by (rule take_is_prefix)
          show "fst (copyLoop AddTX ((data, er) # rs) ws (Some c) out) = Some None \<Longrightarrow> er = Some (Sentinel EOF) \<and> take ?k data = data"
            using False stop by (auto simp: w Cons Let_def split: option.splits if_splits)
        qed
        then show ?thesis .
      qed
    qed
  qed
qed

lemma joinStep_ok:
  assumes "mux_ok m" "p < length (m_heap m)" "joinStep p err (firstErr, closes, m) = (firstErr', closes', m')"
  shows "mux_ok m' \<and> p < length (m_heap m') \<and> firstErr' = (if firstErr = None then err else firstErr)"
  using assms Reset_ok [OF assms(1,2)]
  by (auto simp: joinStep_def split: option.splits) (metis prod.collapse)+

section \<open>Properties\<close>


text \<open>
  C15: the server answers a stream the peer opened, on the same stream, and connects it only to a target of an advertised service. With
  room in the control queue either OPEN_OK is queued, the stream is open and the connection is the dialled target of
  an advertised service, or OPEN_ERROR is queued and the stream is closed and out of the table.
\<close>

theorem server_answers_stream:
  assumes "serveStream (resolveService host services) dial p m = (r, m')" and "mux_ok m" and "p < length (m_heap m)"
    and "\<not> sm_closed (at m p)" and "\<not> sm_opened (at m p)" and "\<not> m_done m" and "length (m_control m) < controlCap m"
  shows "mux_ok m' \<and> (case r of
       ProxyStarted conn \<Rightarrow> sm_opened (at m' p) \<and> m_control m' = m_control m @ [mkFrame FrameOpenOK (sm_id (at m p)) []]
         \<and> (\<exists>s \<in> set services. dial (serviceTarget host s) = Inr conn
               \<and> (sm_service (at m p) = svc_Name s \<or> sm_service (at m p) = itoa (svc_Port s)))
     | StreamRejected \<Rightarrow> sm_closed (at m' p) \<and> map_of (m_streams m') (sm_id (at m p)) = None
         \<and> (\<exists>msg. m_control m' = m_control m @ [mkFrame FrameOpenError (sm_id (at m p)) msg])
     | ConnDropped conn \<Rightarrow> False)"
proof -
  note open_ = assms(4) assms(3) assms(6,7)
  have tab: "table_ok m" using assms(2) by (simp add: mux_ok_def)
  have rejected: ?thesis if "r = StreamRejected" "m' = snd (Reject p (Some e) m)" for e
  proof -
    have "mux_ok m'" using Reject_ok(1) [OF assms(2,3), of "Some e" "fst (Reject p (Some e) m)" m'] that by simp
    then show ?thesis using Reject_open [OF open_ tab, of "Some e"] that by auto
  qed
  show ?thesis
  proof (cases "resolveService host services (sm_service (at m p))")
    case None
    then show ?thesis using assms(1) by (intro rejected) (auto simp: serveStream_def)
  next
    case (Some target)
    obtain s where s: "s \<in> set services" "target = serviceTarget host s" "sm_service (at m p) = svc_Name s \<or> sm_service (at m p) = itoa (svc_Port s)"
      using resolveService_advertised [OF Some] by blast
    show ?thesis
    proof (cases "dial target")
      case (Inl e)
      then show ?thesis using assms(1) Some by (intro rejected) (auto simp: serveStream_def)
    next
      case (Inr conn)
      obtain m1 where run: "Approve p m = (None, m1)" using Approve_open [OF assms(4,5,3,6,7)] by (metis prod.collapse)
      then have "r = ProxyStarted conn" "m' = m1" using assms(1) Some Inr by (auto simp: serveStream_def)
      then show ?thesis
        using Approve_open [OF assms(4,5,3,6,7)] Approve_ok(1) [OF assms(2,3) run] s Inr by (auto simp: run)
    qed
  qed
qed


text \<open>
  The proxy counts what it forwards. In whatever pieces the source yields data and the writer takes it, the bytes accepted are a prefix of the
  bytes read, the transmit counter has grown by exactly their number (modulo the 64 bits it has), and a copy that ends without
  error has forwarded everything up to the end of the data.
\<close>

theorem proxy_copy_counts:
  assumes "copyLoop AddTX rs ws (Some c) [] = (res, Some c', out)"
  shows "c_tx c' = c_tx c + of_nat (length out) \<and> prefix out (concat (map fst rs))
     \<and> (res = Some None \<longrightarrow> (\<exists>k < length rs. snd (rs ! k) = Some (Sentinel EOF) \<and> out = concat (map fst (take (Suc k) rs))))"
  using copyLoop_counts [of rs c "[]" ws] unfolding assms copied_ok_def by auto

subsection \<open>Witnesses\<close>


text \<open>A server session with one stream that the peer has opened for the service \<open>web\<close>.\<close>

definition sample_session :: Mux where
  "sample_session = snd (handleOpen (mkFrame FrameOpen 1 (bytes_of ''web'')) (newSession False 4 False None (\<lambda>_. False)))"

lemma sample_session_stream:
  "m_heap sample_session = [(newStream 1)\<lparr>sm_service := ''web''\<rparr>]" "\<not> m_done sample_session"
  "m_control sample_session = []" "controlCap sample_session = 32"
proof -
  have "string_of (bytes_of ''web'') = ''web''" by (rule string_of_bytes_of)
  moreover have "uint (1 :: u32) = 1" by simp
  ultimately show "m_heap sample_session = [(newStream 1)\<lparr>sm_service := ''web''\<rparr>]" "\<not> m_done sample_session"
    "m_control sample_session = []" "controlCap sample_session = 32"
    by (simp_all add: sample_session_def handleOpen_def newSession_def Let_def acceptCap_def acceptBacklogFactor_def controlCap_def)
qed

lemma sample_session_ok: "mux_ok sample_session"
proof -
  let ?m = "newSession False 4 False None (\<lambda>_. False)" and ?f = "mkFrame FrameOpen 1 (bytes_of ''web'')"
  have "Validate ?f = None" by (simp add: Validate_def frame_types Let_def maxServiceName_def bytes_of_def)
  then show ?thesis
    using handleOpen_ok(1) [OF newSession_ok, of ?f False 4 False None "\<lambda>_. False" "fst (handleOpen ?f ?m)" "snd (handleOpen ?f ?m)"]
    by (simp add: sample_session_def)
qed

definition sample_dial :: "string \<Rightarrow> go_error + nat" where
  "sample_dial target = (if target = ''nas:80'' then Inr 5 else Inl (Sentinel IOTimeout))"

theorem server_answers_stream_witness:
  "\<exists>m'. serveStream (resolveService ''localhost'' demo_services) sample_dial 0 sample_session = (ProxyStarted 5, m')
     \<and> sm_opened (at m' 0) \<and> m_control m' = [mkFrame FrameOpenOK 1 []]"
proof -
  obtain r m' where run: "serveStream (resolveService ''localhost'' demo_services) sample_dial 0 sample_session = (r, m')" by (metis surj_pair)
  have open_: "\<not> sm_closed (at sample_session 0)" "\<not> sm_opened (at sample_session 0)" "sm_id (at sample_session 0) = 1" "sm_service (at sample_session 0) = ''web''"
    by (simp_all add: sample_session_stream newStream_def)
  have "resolveService ''localhost'' demo_services ''web'' = Some ''nas:80''"
    by (simp add: demo_services_def serviceTarget_def JoinHostPort_def demo_itoa)
  moreover have "fst (Approve 0 sample_session) = None"
    using Approve_open [of sample_session 0] by (simp add: sample_session_stream newStream_def)
  ultimately have "r = ProxyStarted 5" using run by (auto simp: serveStream_def open_ sample_dial_def split: prod.splits)
  then show ?thesis
    using server_answers_stream [OF run sample_session_ok _ open_(1,2)] run by (auto simp: sample_session_stream open_)
qed


theorem proxy_copy_counts_witness:
  "copyLoop AddTX [([1, 2], None), ([3], Some (Sentinel EOF))] [(2, None), (1, None)] (Some zeroCounter) []
     = (Some None, Some (zeroCounter\<lparr>c_tx := 3\<rparr>), [1, 2, 3]) \<and> prefix [1, 2, 3 :: byte] [1, 2, 3]"
proof -
  have run: "copyLoop AddTX [([1, 2], None), ([3], Some (Sentinel EOF))] [(2, None), (1, None)] (Some zeroCounter) []
     = (Some None, Some (zeroCounter\<lparr>c_tx := 3\<rparr>), [1, 2, 3])"
    by (simp add: Let_def countWrite_TX) (simp add: zeroCounter_def)
  show ?thesis using proxy_copy_counts [OF run] run by simp
qed

end
