(* ===== verification/Picker.thy ===== *)
theory Picker
  imports Discovery Service_List
begin

text \<open>
  The interactive server picker of \<open>internal/app/picker.go\<close>: its model, \<open>Update\<close> on every message, the probe of the
  selected server's services, the layout and the result. Contexts are numbers: the probe of request \<open>r\<close> runs in context \<open>r\<close>, and the model keeps which
  contexts were cancelled. Commands are values. The view is in \<open>Picker_View\<close>.
\<close>

section \<open>Model\<close>

record pickerServicesState =
  pss_loading :: bool
  pss_request :: u64
  pss_services :: "Service list"
  pss_err :: "go_error option"

record pickerModel =
  pk_orderedIDs :: "string list"
  pk_devices :: "string \<rightharpoonup> Device"
  pk_selected :: int
  pk_serviceState :: "string \<rightharpoonup> pickerServicesState"
  pk_probeCancel :: "u64 option"
  pk_probeID :: string
  pk_probeRequest :: u64
  pk_windowWidth :: int
  pk_frame :: nat
  pk_scanning :: bool
  pk_scanErr :: "go_error option"
  pk_selectionErr :: "go_error option"
  pk_canceled :: bool
  pk_result :: "Device option"
  pk_cancelledProbes :: "u64 list"
  pk_scanCancelled :: bool

definition newPickerModel :: pickerModel where
  "newPickerModel =
     \<lparr>pk_orderedIDs = [], pk_devices = Map.empty, pk_selected = 0, pk_serviceState = Map.empty, pk_probeCancel = None, pk_probeID = '''',
      pk_probeRequest = 0, pk_windowWidth = 0, pk_frame = 0, pk_scanning = True, pk_scanErr = None, pk_selectionErr = None,
      pk_canceled = False, pk_result = None, pk_cancelledProbes = [], pk_scanCancelled = False\<rparr>"

text \<open>The messages, and the commands \<open>Update\<close> returns; \<open>CmdPanic\<close> is an index out of range.\<close>

record pickerScanEvent =
  ev_device :: "Device option"
  ev_devices :: "Device list"
  ev_err :: "go_error option"
  ev_done :: bool

datatype picker_msg =
    ScanEvent pickerScanEvent
  | ScanTick
  | WindowSize int
  | ContextMsg go_error
  | ServicesEvent string u64 "Service list" "go_error option"
  | MouseMsg bool int
  | KeyMsg string

datatype picker_cmd = CmdQuit | CmdNextScanEvent | CmdNextScanTick | CmdProbe string u64 Device | CmdPanic

definition pickerSpinnerFrames :: nat where "pickerSpinnerFrames = 10"
definition pickerDeviceFirstRowY :: int where "pickerDeviceFirstRowY = 11"

definition zeroDevice :: Device where
  "zeroDevice = \<lparr>dev_ID = '''', dev_ServerID = '''', dev_Name = '''', dev_RSSI = 0, dev_LightningBNB = False, dev_ServiceUUIDs = [],
     dev_ServiceData = [], dev_ManufacturerData = [], dev_connection = None\<rparr>"

definition lookupDevice :: "string \<Rightarrow> pickerModel \<Rightarrow> Device" where
  "lookupDevice devID m = (case pk_devices m devID of Some d \<Rightarrow> d | None \<Rightarrow> zeroDevice)"

definition pickerDeviceIndexAtY :: "int \<Rightarrow> int option" where
  "pickerDeviceIndexAtY y = (if y < pickerDeviceFirstRowY then None else Some ((y - pickerDeviceFirstRowY) div 2))"

definition cancelServiceProbe :: "pickerModel \<Rightarrow> pickerModel" where
  "cancelServiceProbe m =
     m\<lparr>pk_cancelledProbes := pk_cancelledProbes m @ (case pk_probeCancel m of Some r \<Rightarrow> [r] | None \<Rightarrow> []), pk_probeCancel := None, pk_probeID := ''''\<rparr>"

definition ensureSelectedServices :: "pickerModel \<Rightarrow> pickerModel \<times> picker_cmd list" where
  "ensureSelectedServices m =
     (if pk_orderedIDs m = [] \<or> pk_selected m < 0 \<or> pk_selected m \<ge> len (pk_orderedIDs m) then (m, [])
      else
        let deviceID = pk_orderedIDs m ! nat (pk_selected m) in
        if (case pk_serviceState m deviceID of Some state \<Rightarrow> \<not> pss_loading state | None \<Rightarrow> False) then (m, [])
        else if pk_probeID m = deviceID \<and> pk_probeCancel m \<noteq> None then (m, [])
        else
          let m1 = cancelServiceProbe m;
              device = lookupDevice deviceID m1;
              request = pk_probeRequest m1 + 1 in
          (m1\<lparr>pk_probeCancel := Some request, pk_probeID := deviceID, pk_probeRequest := request,
              pk_serviceState := (pk_serviceState m1)(deviceID \<mapsto> \<lparr>pss_loading = True, pss_request = request, pss_services = [], pss_err = None\<rparr>)\<rparr>,
           [CmdProbe deviceID request device]))"

definition addDevice :: "Device \<Rightarrow> pickerModel \<Rightarrow> pickerModel" where
  "addDevice d m =
     m\<lparr>pk_orderedIDs := (if pk_devices m (dev_ID d) = None then pk_orderedIDs m @ [dev_ID d] else pk_orderedIDs m),
       pk_devices := (pk_devices m)(dev_ID d \<mapsto> d)\<rparr>"

definition updateScan :: "pickerScanEvent \<Rightarrow> pickerModel \<Rightarrow> pickerModel \<times> picker_cmd list" where
  "updateScan ev m0 =
     (let m = (case ev_device ev of Some d \<Rightarrow> addDevice d m0 | None \<Rightarrow> m0) in
      if ev_done ev then
        let m1 = fold addDevice (ev_devices ev) (m\<lparr>pk_scanning := False, pk_scanErr := ev_err ev\<rparr>) in
        if (case pk_scanErr m1 of Some e \<Rightarrow> \<not> errors_is e ContextCanceled | None \<Rightarrow> False) then (m1, [CmdQuit])
        else ensureSelectedServices m1
      else
        let m1 = (if pk_selected m \<ge> len (pk_orderedIDs m) then m\<lparr>pk_selected := len (pk_orderedIDs m) - 1\<rparr> else m) in
        case ensureSelectedServices m1 of (m2, cmds) \<Rightarrow> (m2, CmdNextScanEvent # cmds))"

definition updateServices :: "string \<Rightarrow> u64 \<Rightarrow> Service list \<Rightarrow> go_error option \<Rightarrow> pickerModel \<Rightarrow> pickerModel" where
  "updateServices deviceID request services err m =
     (case pk_serviceState m deviceID of
        None \<Rightarrow> m
      | Some state \<Rightarrow>
          if pss_request state \<noteq> request then m
          else
            let m1 = m\<lparr>pk_serviceState := (pk_serviceState m)(deviceID \<mapsto> state\<lparr>pss_loading := False, pss_services := services, pss_err := err\<rparr>)\<rparr> in
            if pk_probeRequest m1 = request then cancelServiceProbe m1 else m1)"

definition moveSelection :: "int \<Rightarrow> pickerModel \<Rightarrow> pickerModel \<times> picker_cmd list" where
  "moveSelection delta m =
     (if pk_orderedIDs m = [] then (m, [])
      else ensureSelectedServices (m\<lparr>pk_selected := (pk_selected m + delta) mod len (pk_orderedIDs m)\<rparr>))"

definition updateKey :: "string \<Rightarrow> pickerModel \<Rightarrow> pickerModel \<times> picker_cmd list" where
  "updateKey key m =
     (if key \<in> set [''ctrl+c'', ''esc'', ''q'', ''Q''] then (m\<lparr>pk_canceled := True, pk_scanCancelled := True\<rparr>, [CmdQuit])
      else if key \<in> set [''up'', ''k''] then moveSelection (len (pk_orderedIDs m) - 1) m
      else if key \<in> set [''down'', ''j''] then moveSelection 1 m
      else if key = ''enter'' then
        (if pk_orderedIDs m = [] then
           (if \<not> pk_scanning m then (m\<lparr>pk_selectionErr := Some (ErrorText ''no LightningBNB servers found'')\<rparr>, [CmdQuit]) else (m, []))
         else if pk_selected m < 0 \<or> pk_selected m \<ge> len (pk_orderedIDs m) then (m, [CmdPanic])
         else
           let device = lookupDevice (pk_orderedIDs m ! nat (pk_selected m)) m in
           ((cancelServiceProbe (m\<lparr>pk_result := Some device\<rparr>))\<lparr>pk_scanCancelled := True\<rparr>, [CmdQuit]))
      else (m, []))"

definition updateMouse :: "bool \<Rightarrow> int \<Rightarrow> pickerModel \<Rightarrow> pickerModel \<times> picker_cmd list" where
  "updateMouse motion y m =
     (if \<not> motion then (m, [])
      else case pickerDeviceIndexAtY y of
             None \<Rightarrow> (m, [])
           | Some index \<Rightarrow>
               if index \<ge> len (pk_orderedIDs m) \<or> index = pk_selected m then (m, [])
               else ensureSelectedServices (m\<lparr>pk_selected := index\<rparr>))"

definition Update :: "picker_msg \<Rightarrow> pickerModel \<Rightarrow> pickerModel \<times> picker_cmd list" where
  "Update msg m =
     (case msg of
        ScanEvent ev \<Rightarrow> updateScan ev m
      | ScanTick \<Rightarrow>
          if \<not> pk_scanning m then (m, [])
          else (m\<lparr>pk_frame := (pk_frame m + 1) mod pickerSpinnerFrames\<rparr>, [CmdNextScanTick])
      | WindowSize w \<Rightarrow> (m\<lparr>pk_windowWidth := w\<rparr>, [])
      | ContextMsg e \<Rightarrow> (m\<lparr>pk_selectionErr := Some e\<rparr>, [CmdQuit])
      | ServicesEvent deviceID request services err \<Rightarrow> (updateServices deviceID request services err m, [])
      | MouseMsg motion y \<Rightarrow> updateMouse motion y m
      | KeyMsg key \<Rightarrow> updateKey key m)"

text \<open>What \<open>chooseDeviceTUI\<close> makes of the final model.\<close>

definition pickerOutcome :: "go_error option \<Rightarrow> pickerModel \<Rightarrow> go_error + Device" where
  "pickerOutcome runErr m =
     (case runErr of
        Some e \<Rightarrow> Inl e
      | None \<Rightarrow>
          if (case pk_scanErr m of Some e \<Rightarrow> \<not> errors_is e ContextCanceled | None \<Rightarrow> False) then Inl (the (pk_scanErr m))
          else if pk_selectionErr m \<noteq> None then Inl (the (pk_selectionErr m))
          else case pk_result m of
                 Some d \<Rightarrow> if pk_canceled m then Inl (ErrorText ''server selection canceled'') else Inr d
               | None \<Rightarrow> Inl (ErrorText ''server selection canceled''))"

record pickerLayout =
  pl_frameWidth :: int
  pl_leftWidth :: int
  pl_rightWidth :: int
  pl_split :: bool

text \<open>Go's division truncates; the dividend is positive here.\<close>

definition pickerLayoutFor :: "int \<Rightarrow> pickerLayout" where
  "pickerLayoutFor windowWidth0 =
     (let windowWidth = (if windowWidth0 \<le> 0 then 120 else windowWidth0);
          frameWidth1 = (if windowWidth - 10 > 110 then 110 else windowWidth - 10);
          frameWidth = (if frameWidth1 < 40 then 40 else frameWidth1) in
      if frameWidth < 82 then \<lparr>pl_frameWidth = frameWidth, pl_leftWidth = frameWidth - 6, pl_rightWidth = 0, pl_split = False\<rparr>
      else
        let panelContentWidth = frameWidth - 13; leftWidth = panelContentWidth * 3 div 5 in
        \<lparr>pl_frameWidth = frameWidth, pl_leftWidth = leftWidth, pl_rightWidth = panelContentWidth - leftWidth, pl_split = True\<rparr>)"

section \<open>Invariant\<close>

definition picker_ok :: "pickerModel \<Rightarrow> bool" where
  "picker_ok m \<longleftrightarrow> distinct (pk_orderedIDs m) \<and> set (pk_orderedIDs m) = dom (pk_devices m)
     \<and> (\<forall>i d. pk_devices m i = Some d \<longrightarrow> dev_ID d = i)
     \<and> 0 \<le> pk_selected m \<and> pk_selected m < max 1 (len (pk_orderedIDs m)) \<and> pk_frame m < pickerSpinnerFrames
     \<and> (\<forall>d. pk_result m = Some d \<longrightarrow> dev_ID d \<in> dom (pk_devices m))"

text \<open>Changes outside the list of servers and the selection.\<close>

lemma picker_ok_cong:
  assumes "picker_ok m" "pk_orderedIDs m' = pk_orderedIDs m" "pk_devices m' = pk_devices m" "pk_selected m' = pk_selected m"
    "pk_frame m' = pk_frame m" "pk_result m' = pk_result m"
  shows "picker_ok m'"
  using assms by (simp add: picker_ok_def)

lemma cancelServiceProbe_ok: "picker_ok m \<Longrightarrow> picker_ok (cancelServiceProbe m)"
  by (erule picker_ok_cong) (simp_all add: cancelServiceProbe_def)

lemma ensureSelectedServices_ok: "picker_ok m \<Longrightarrow> picker_ok (fst (ensureSelectedServices m))"
  by (erule picker_ok_cong) (simp_all add: ensureSelectedServices_def Let_def cancelServiceProbe_def)

lemma picker_ok_select:
  "picker_ok m \<Longrightarrow> 0 \<le> i \<Longrightarrow> i < max 1 (len (pk_orderedIDs m)) \<Longrightarrow> picker_ok (m\<lparr>pk_selected := i\<rparr>)"
  by (simp add: picker_ok_def)

lemma addDevice_ok: "picker_ok m \<Longrightarrow> picker_ok (addDevice d m)"
proof (cases "pk_devices m (dev_ID d) = None")
  case True
  then have "dev_ID d \<notin> dom (pk_devices m)" by blast
  moreover assume "picker_ok m"
  ultimately show ?thesis using True by (auto simp: picker_ok_def addDevice_def dom_fun_upd)
next
  case False
  moreover assume "picker_ok m"
  ultimately show ?thesis by (auto simp: picker_ok_def addDevice_def dom_fun_upd)
qed

lemma addDevices_ok: "picker_ok m \<Longrightarrow> picker_ok (fold addDevice ds m)"
  by (induction ds arbitrary: m) (simp_all add: addDevice_ok)

lemma addDevice_nonempty: "picker_ok m \<Longrightarrow> pk_orderedIDs (addDevice d m) \<noteq> []"
  by (auto simp: picker_ok_def addDevice_def)

definition msg_ok :: "picker_msg \<Rightarrow> bool" where
  "msg_ok msg = (case msg of ScanEvent ev \<Rightarrow> ev_device ev \<noteq> None \<or> ev_done ev | _ \<Rightarrow> True)"

lemma updateScan_ok:
  assumes ok: "picker_ok m0" and ev: "ev_device ev \<noteq> None \<or> ev_done ev"
  shows "picker_ok (fst (updateScan ev m0))"
proof -
  define m where "m = (case ev_device ev of Some d \<Rightarrow> addDevice d m0 | None \<Rightarrow> m0)"
  have m: "picker_ok m" using ok by (simp add: m_def addDevice_ok split: option.split)
  show ?thesis
  proof (cases "ev_done ev")
    case True
    have "picker_ok (m\<lparr>pk_scanning := False, pk_scanErr := ev_err ev\<rparr>)" using m by (rule picker_ok_cong) simp_all
    then have "picker_ok (fold addDevice (ev_devices ev) (m\<lparr>pk_scanning := False, pk_scanErr := ev_err ev\<rparr>))" by (rule addDevices_ok)
    then show ?thesis using True by (simp add: updateScan_def m_def [symmetric] Let_def ensureSelectedServices_ok)
  next
    case False
    then obtain d where "m = addDevice d m0" using ev by (auto simp: m_def)
    then have "pk_orderedIDs m \<noteq> []" using addDevice_nonempty [OF ok] by simp
    then have "\<not> pk_selected m \<ge> len (pk_orderedIDs m)" using m by (cases "pk_orderedIDs m") (auto simp: picker_ok_def)
    then show ?thesis
      using False ensureSelectedServices_ok [OF m] by (cases "ensureSelectedServices m") (simp add: updateScan_def m_def [symmetric] Let_def)
  qed
qed

lemma updateServices_ok: "picker_ok m \<Longrightarrow> picker_ok (updateServices i r ss e m)"
  by (erule picker_ok_cong) (simp_all add: updateServices_def Let_def cancelServiceProbe_def split: option.split)

lemma moveSelection_ok: "picker_ok m \<Longrightarrow> picker_ok (fst (moveSelection delta m))"
proof (cases "pk_orderedIDs m = []")
  case False
  assume ok: "picker_ok m"
  then have "0 < len (pk_orderedIDs m)" using False by simp
  then have "0 \<le> (pk_selected m + delta) mod len (pk_orderedIDs m)" "(pk_selected m + delta) mod len (pk_orderedIDs m) < len (pk_orderedIDs m)"
    by simp_all
  then show ?thesis using False ok by (auto simp: moveSelection_def intro!: ensureSelectedServices_ok picker_ok_select less_max_iff_disj [THEN iffD2])
qed (simp add: moveSelection_def)

lemma updateMouse_ok: "picker_ok m \<Longrightarrow> picker_ok (fst (updateMouse motion y m))"
  by (auto simp: updateMouse_def pickerDeviceIndexAtY_def intro!: ensureSelectedServices_ok picker_ok_select split: option.split)

lemma lookup_selected:
  assumes "picker_ok m" "pk_orderedIDs m \<noteq> []"
  shows "pk_selected m < len (pk_orderedIDs m)" "pk_devices m (pk_orderedIDs m ! nat (pk_selected m)) = Some (lookupDevice (pk_orderedIDs m ! nat (pk_selected m)) m)"
    "dev_ID (lookupDevice (pk_orderedIDs m ! nat (pk_selected m)) m) \<in> set (pk_orderedIDs m)"
proof -
  show lt: "pk_selected m < len (pk_orderedIDs m)" using assms by (cases "pk_orderedIDs m") (auto simp: picker_ok_def)
  let ?i = "pk_orderedIDs m ! nat (pk_selected m)"
  have "nat (pk_selected m) < length (pk_orderedIDs m)" using lt assms(1) by (auto simp: picker_ok_def)
  then have "?i \<in> set (pk_orderedIDs m)" by (rule nth_mem)
  then show "pk_devices m ?i = Some (lookupDevice ?i m)" "dev_ID (lookupDevice ?i m) \<in> set (pk_orderedIDs m)"
    using assms(1) by (auto simp: picker_ok_def lookupDevice_def)
qed

lemma updateKey_ok:
  assumes ok: "picker_ok m"
  shows "picker_ok (fst (updateKey key m)) \<and> CmdPanic \<notin> set (snd (updateKey key m))"
proof -
  have e: "CmdPanic \<notin> set (snd (ensureSelectedServices n))" for n by (simp add: ensureSelectedServices_def Let_def)
  then have mv: "CmdPanic \<notin> set (snd (moveSelection d m))" for d by (simp add: moveSelection_def)
  have "picker_ok (m\<lparr>pk_canceled := True, pk_scanCancelled := True\<rparr>)" "picker_ok (m\<lparr>pk_selectionErr := x\<rparr>)" for x
    by (rule picker_ok_cong [OF ok]; simp)+
  moreover have "pk_orderedIDs m \<noteq> [] \<Longrightarrow>
      picker_ok ((cancelServiceProbe (m\<lparr>pk_result := Some (lookupDevice (pk_orderedIDs m ! nat (pk_selected m)) m)\<rparr>))\<lparr>pk_scanCancelled := True\<rparr>)"
    using ok lookup_selected [OF ok] by (auto simp: picker_ok_def cancelServiceProbe_def)
  moreover have "\<not> pk_selected m < 0" using ok by (simp add: picker_ok_def)
  ultimately show ?thesis
    using ok mv moveSelection_ok [OF ok] lookup_selected(1) [OF ok] by (auto simp: updateKey_def Let_def not_le)
qed

lemma picker_ok_frame: "picker_ok m \<Longrightarrow> picker_ok (m\<lparr>pk_frame := k mod pickerSpinnerFrames\<rparr>)"
  by (simp add: picker_ok_def pickerSpinnerFrames_def)

lemma Update_ok:
  assumes "picker_ok m" "msg_ok msg"
  shows "picker_ok (fst (Update msg m))"
  using assms
  by (cases msg)
    (auto simp: Update_def msg_ok_def updateScan_ok updateServices_ok updateMouse_ok updateKey_ok picker_ok_frame intro: picker_ok_cong)

section \<open>Probes\<close>

definition probes :: "picker_cmd list \<Rightarrow> u64 list" where
  "probes cmds = concat (map (\<lambda>c. case c of CmdProbe i r d \<Rightarrow> [r] | _ \<Rightarrow> []) cmds)"

lemma probes_simps [simp]:
  "probes [] = []" "probes (cs @ cs') = probes cs @ probes cs'" "probes (CmdProbe i r d # cs) = r # probes cs"
  "probes (CmdQuit # cs) = probes cs" "probes (CmdNextScanEvent # cs) = probes cs" "probes (CmdNextScanTick # cs) = probes cs" "probes (CmdPanic # cs) = probes cs"
  by (simp_all add: probes_def)

text \<open>The requests cancelled so far, then the one that may still run.\<close>

definition requests :: "pickerModel \<Rightarrow> u64 list" where
  "requests m = pk_cancelledProbes m @ (case pk_probeCancel m of Some r \<Rightarrow> [r] | None \<Rightarrow> [])"

lemma requests_ensure: "requests (fst (ensureSelectedServices m)) = requests m @ probes (snd (ensureSelectedServices m))"
  by (simp add: ensureSelectedServices_def Let_def requests_def cancelServiceProbe_def)

lemma requests_cancel [simp]: "requests (cancelServiceProbe m) = requests m"
  by (simp add: requests_def cancelServiceProbe_def)

lemma requests_cong: "pk_cancelledProbes m' = pk_cancelledProbes m \<Longrightarrow> pk_probeCancel m' = pk_probeCancel m \<Longrightarrow> requests m' = requests m"
  by (simp add: requests_def)

lemma requests_simps [simp]:
  "requests (m\<lparr>pk_selected := i\<rparr>) = requests m" "requests (m\<lparr>pk_canceled := b\<rparr>) = requests m"
  "requests (m\<lparr>pk_selectionErr := x\<rparr>) = requests m" "requests (m\<lparr>pk_scanCancelled := c\<rparr>) = requests m" "requests (m\<lparr>pk_result := y\<rparr>) = requests m"
  "requests (m\<lparr>pk_frame := k\<rparr>) = requests m" "requests (m\<lparr>pk_windowWidth := w\<rparr>) = requests m" "requests (m\<lparr>pk_serviceState := f\<rparr>) = requests m"
  "requests (m\<lparr>pk_scanning := b\<rparr>) = requests m" "requests (m\<lparr>pk_scanErr := x\<rparr>) = requests m" "requests (addDevice d m) = requests m"
  by (simp_all add: requests_def addDevice_def)

lemma requests_addDevices [simp]: "requests (fold addDevice ds m) = requests m"
  by (induction ds arbitrary: m) simp_all

lemma requests_scan: "requests (fst (updateScan ev m)) = requests m @ probes (snd (updateScan ev m))"
  using requests_ensure by (auto simp: updateScan_def Let_def split: option.split prod.split) (metis fst_conv snd_conv requests_simps(1,11))+

lemma requests_Update: "requests (fst (Update msg m)) = requests m @ probes (snd (Update msg m))"
proof (cases msg)
  case (MouseMsg motion y)
  then show ?thesis by (simp add: Update_def updateMouse_def requests_ensure split: option.split)
next
  case (KeyMsg key)
  have "requests (fst (moveSelection d m)) = requests m @ probes (snd (moveSelection d m))" for d by (simp add: moveSelection_def requests_ensure)
  then show ?thesis by (simp add: KeyMsg Update_def updateKey_def Let_def)
qed (simp_all add: Update_def requests_scan updateServices_def Let_def split: option.split)

lemma Update_no_panic: "picker_ok m \<Longrightarrow> msg_ok msg \<Longrightarrow> CmdPanic \<notin> set (snd (Update msg m))"
proof -
  assume ok: "picker_ok m" "msg_ok msg"
  have e: "CmdPanic \<notin> set (snd (ensureSelectedServices n))" for n by (simp add: ensureSelectedServices_def Let_def)
  show ?thesis
  proof (cases msg)
    case (ScanEvent ev)
    then show ?thesis using e by (auto simp: Update_def updateScan_def Let_def split: option.splits prod.splits) (metis snd_conv)+
  qed (use e updateKey_ok [OF ok(1)] in \<open>auto simp: Update_def updateMouse_def split: option.split\<close>)
qed

section \<open>Properties\<close>

definition pickerRun :: "picker_msg list \<Rightarrow> pickerModel \<times> picker_cmd list" where
  "pickerRun msgs = fold (\<lambda>msg (m, cmds). case Update msg m of (m1, new) \<Rightarrow> (m1, cmds @ new)) msgs (newPickerModel, [])"

lemma pickerRun_snoc:
  "pickerRun (msgs @ [msg]) = (case pickerRun msgs of (m, cmds) \<Rightarrow> (fst (Update msg m), cmds @ snd (Update msg m)))"
  by (simp add: pickerRun_def split: prod.split)

lemma pickerRun_ok:
  assumes "list_all msg_ok msgs"
  shows "picker_ok (fst (pickerRun msgs)) \<and> CmdPanic \<notin> set (snd (pickerRun msgs)) \<and> probes (snd (pickerRun msgs)) = requests (fst (pickerRun msgs))"
  using assms
proof (induction msgs rule: rev_induct)
  case Nil
  show ?case by (simp add: pickerRun_def picker_ok_def newPickerModel_def pickerSpinnerFrames_def requests_def)
next
  case (snoc msg msgs)
  then show ?case
    using Update_ok [of "fst (pickerRun msgs)" msg] Update_no_panic [of "fst (pickerRun msgs)" msg] requests_Update [of msg "fst (pickerRun msgs)"]
    by (simp add: pickerRun_snoc split: prod.split) (metis fst_conv snd_conv)
qed

text \<open>
  C32: the picker's model is well formed under every sequence of messages its event sources can produce: the servers listed are distinct and are exactly the
  devices known, the selection is one of them, no message makes \<open>Update\<close> index out of range, a result is a listed server, and at most one
  probe of services runs: every probe started but the last has been cancelled.
\<close>

theorem picker_well_formed:
  assumes "pickerRun msgs = (m, cmds)" and "list_all msg_ok msgs"
  shows "distinct (pk_orderedIDs m) \<and> set (pk_orderedIDs m) = dom (pk_devices m) \<and> CmdPanic \<notin> set cmds
     \<and> (pk_orderedIDs m \<noteq> [] \<longrightarrow> 0 \<le> pk_selected m \<and> pk_selected m < len (pk_orderedIDs m))
     \<and> (\<forall>d. pk_result m = Some d \<longrightarrow> dev_ID d \<in> set (pk_orderedIDs m))
     \<and> probes cmds = pk_cancelledProbes m @ (case pk_probeCancel m of Some r \<Rightarrow> [r] | None \<Rightarrow> [])"
  using pickerRun_ok [OF assms(2)] lookup_selected(1) [of m] unfolding assms(1) by (auto simp: picker_ok_def requests_def)


definition sample_scan_event :: "string \<Rightarrow> picker_msg" where
  "sample_scan_event i = ScanEvent \<lparr>ev_device = Some (zeroDevice\<lparr>dev_ID := i\<rparr>), ev_devices = [], ev_err = None, ev_done = False\<rparr>"

text \<open>Two servers appear, the selection moves down, and the first probe ends cancelled.\<close>

definition sample_msgs :: "picker_msg list" where
  "sample_msgs = [sample_scan_event ''a'', sample_scan_event ''b'', KeyMsg ''down'', ServicesEvent ''a'' 1 [] (Some (Sentinel ContextCanceled)), KeyMsg ''up'']"

lemmas picker_eval = pickerRun_def Update_def updateScan_def updateKey_def moveSelection_def updateServices_def
  ensureSelectedServices_def cancelServiceProbe_def addDevice_def lookupDevice_def newPickerModel_def zeroDevice_def Let_def

theorem picker_well_formed_witness:
  "probes (snd (pickerRun sample_msgs)) = [1, 2] \<and> pk_cancelledProbes (fst (pickerRun sample_msgs)) = [1] \<and> pk_probeCancel (fst (pickerRun sample_msgs)) = Some 2"
proof -
  obtain m cmds where run: "pickerRun sample_msgs = (m, cmds)" by fastforce
  have "list_all msg_ok sample_msgs" by (simp add: sample_msgs_def sample_scan_event_def msg_ok_def)
  then have "probes cmds = pk_cancelledProbes m @ (case pk_probeCancel m of Some r \<Rightarrow> [r] | None \<Rightarrow> [])"
    using picker_well_formed [OF run] by blast
  moreover have "pk_cancelledProbes (fst (pickerRun sample_msgs)) = [1]" "pk_probeCancel (fst (pickerRun sample_msgs)) = Some 2"
    by (simp_all add: sample_msgs_def sample_scan_event_def picker_eval)
  ultimately show ?thesis by (simp add: run)
qed


text \<open>The panels fit into the frame.\<close>

lemma pickerLayout_fits:
  "40 \<le> pl_frameWidth (pickerLayoutFor w) \<and> pl_frameWidth (pickerLayoutFor w) \<le> 110 \<and> 0 < pl_leftWidth (pickerLayoutFor w)
   \<and> pl_leftWidth (pickerLayoutFor w) + pl_rightWidth (pickerLayoutFor w) < pl_frameWidth (pickerLayoutFor w)
   \<and> (pl_split (pickerLayoutFor w) \<longrightarrow> 0 < pl_rightWidth (pickerLayoutFor w))"
  unfolding pickerLayoutFor_def Let_def by auto

end
