(* ===== verification/Benchmark.thy ===== *)
theory Benchmark
  imports Mux_Run Go_Strings Identity Transition_System
begin

text \<open>
  The throughput benchmark, \<open>internal/app/benchmark.go\<close>: the stream header and its check, the directions of a run, and the two
  pumps with their cumulative acknowledgements. The connection is the stream of the multiplexer or a socket; here it is two queues of
  bytes. The pumps are a step relation of the sender's two goroutines and the receiver.
\<close>

section \<open>Directions and the header\<close>

definition benchmarkMagic :: string where "benchmarkMagic = ''LBNBBEN1''"
definition benchmarkBlockSize :: nat where "benchmarkBlockSize = 16 * 1024"
definition benchmarkOutstandingWindow :: nat where "benchmarkOutstandingWindow = 256 * 1024"
definition benchmarkReady :: byte where "benchmarkReady = 1"
definition benchmarkStart :: byte where "benchmarkStart = 1"

datatype benchmarkDirection = benchmarkUpload | benchmarkDownload | benchmarkBoth

primrec directionByte :: "benchmarkDirection \<Rightarrow> byte" where
  "directionByte benchmarkUpload = 1"
| "directionByte benchmarkDownload = 2"
| "directionByte benchmarkBoth = 3"

text \<open>
  \<open>strings.ToLower\<close> as far as the words below can tell: besides the ASCII letters, it lowers U+0130 to \<open>i\<close>; the Kelvin sign becomes \<open>k\<close>, which
  none of them contains, and every other letter outside ASCII stays outside.
\<close>

fun toLower :: "string \<Rightarrow> string" where
  "toLower [] = []"
| "toLower [a] = [lower a]"
| "toLower (a # b # rest) = (if a = CHR 0xC4 \<and> b = CHR 0xB0 then CHR ''i'' # toLower rest else lower a # toLower (b # rest))"

definition parseBenchmarkDirection :: "string \<Rightarrow> go_error + benchmarkDirection" where
  "parseBenchmarkDirection val =
     (let v = toLower (TrimSpace val) in
      if v = ''upload'' \<or> v = ''tx'' then Inr benchmarkUpload
      else if v = ''download'' \<or> v = ''rx'' then Inr benchmarkDownload
      else if v = ''both'' \<or> v = ''bidirectional'' then Inr benchmarkBoth
      else Inl (ErrorText ''--direction must be upload, download, or both''))"

definition benchmarkDirectionName :: "benchmarkDirection \<Rightarrow> string" where
  "benchmarkDirectionName d =
     (case d of benchmarkUpload \<Rightarrow> ''upload'' | benchmarkDownload \<Rightarrow> ''download'' | benchmarkBoth \<Rightarrow> ''both'')"

definition benchmarkDirections :: "string \<Rightarrow> int \<Rightarrow> go_error + benchmarkDirection list" where
  "benchmarkDirections val connections =
     (if connections \<le> 0 \<or> connections > 32 then Inl (ErrorText ''benchmark connections must be between 1 and 32'')
      else case parseBenchmarkDirection val of
             Inl e \<Rightarrow> Inl e
           | Inr direction \<Rightarrow>
               let streamCount = (if direction = benchmarkBoth then connections * 2 else connections) in
               if streamCount > 32 then Inl (ErrorText ''bidirectional benchmarks support at most 16 streams per direction'')
               else Inr (concat (replicate (nat connections)
                      ((if direction = benchmarkUpload \<or> direction = benchmarkBoth then [benchmarkUpload] else [])
                       @ (if direction = benchmarkDownload \<or> direction = benchmarkBoth then [benchmarkDownload] else [])))))"

definition ValidateBenchmarkDirection :: "string \<Rightarrow> go_error option" where
  "ValidateBenchmarkDirection val = (case parseBenchmarkDirection val of Inl e \<Rightarrow> Some e | Inr d \<Rightarrow> None)"

definition ValidateBenchmarkConnections :: "string \<Rightarrow> int \<Rightarrow> go_error option" where
  "ValidateBenchmarkConnections direction connections =
     (case benchmarkDirections direction connections of Inl e \<Rightarrow> Some e | Inr ds \<Rightarrow> None)"

definition benchmarkHeader :: "benchmarkDirection \<Rightarrow> bytes" where
  "benchmarkHeader d = bytes_of benchmarkMagic @ [directionByte d]"

text \<open>
  The handshake of \<open>handleBenchmarkConnection\<close>: the header read, the result of writing the readiness marker, the start marker read. The
  result is the direction of the stream as its client named it.
\<close>

definition benchmarkHandshake ::
  "go_error + bytes \<Rightarrow> go_error option \<Rightarrow> go_error + byte \<Rightarrow> go_error + benchmarkDirection" where
  "benchmarkHandshake headerRead readyErr startRead =
     (case headerRead of
        Inl e \<Rightarrow> Inl (Wrapped ''read benchmark handshake: '' e '''')
      | Inr header \<Rightarrow>
          if string_of (take (length benchmarkMagic) header) \<noteq> benchmarkMagic then Inl (ErrorText ''invalid benchmark handshake'')
          else
            let direction = header ! length benchmarkMagic in
            if direction \<noteq> 1 \<and> direction \<noteq> 2 then Inl (ErrorText ''invalid benchmark stream direction'')
            else case readyErr of
                   Some e \<Rightarrow> Inl (Wrapped ''confirm benchmark readiness: '' e '''')
                 | None \<Rightarrow>
                     (case startRead of
                        Inl e \<Rightarrow> Inl (Wrapped ''wait for benchmark start: '' e '''')
                      | Inr start \<Rightarrow>
                          if start \<noteq> benchmarkStart then Inl (ErrorText ''invalid benchmark start marker'')
                          else Inr (if direction = 1 then benchmarkUpload else benchmarkDownload)))"

definition cleanBenchmarkServerError :: "go_error option \<Rightarrow> go_error option" where
  "cleanBenchmarkServerError err =
     (case err of
        None \<Rightarrow> None
      | Some e \<Rightarrow>
          if errors_is e EOF \<or> errors_is e ErrUnexpectedEOF \<or> errors_is e ErrNetClosed \<or> errors_is e ErrClosedPipe \<or> errors_is e ErrSessionClosed
          then None else if err_text e = ''stream closed'' then None else Some e)"

definition cleanBenchmarkSessionError :: "go_error \<Rightarrow> bool" where
  "cleanBenchmarkSessionError e \<longleftrightarrow>
     errors_is e EOF \<or> errors_is e ErrUnexpectedEOF \<or> errors_is e ErrClosedPipe \<or> errors_is e ErrNetClosed \<or> errors_is e ErrSessionClosed"

text \<open>One turn of \<open>ServeBenchmarkStreams\<close>: it ends, or a stream is approved (and closed where that fails).\<close>

definition serveBenchmarkTurn :: "bool \<Rightarrow> Mux \<Rightarrow> (go_error option + nat \<times> bool) option \<times> Mux" where
  "serveBenchmarkTurn ctxDone m =
     (case Accept m of
        (None, m1) \<Rightarrow> (None, m1)
      | (Some (Inl e), m1) \<Rightarrow> (Some (Inl (if ctxDone \<or> cleanBenchmarkSessionError e then None else Some e)), m1)
      | (Some (Inr p), m1) \<Rightarrow>
          (case Approve p m1 of
             (Some e, m2) \<Rightarrow> (Some (Inr (p, False)), snd (Stream_Close p m2))
           | (None, m2) \<Rightarrow> (Some (Inr (p, True)), m2)))"

text \<open>\<open>writeFull\<close> on the results of the writes it makes; \<open>None\<close> while it waits for one.\<close>

fun writeFull :: "(nat \<times> go_error option) list \<Rightarrow> bytes \<Rightarrow> go_error option option \<times> bytes" where
  "writeFull ws [] = (Some None, [])"
| "writeFull [] (b # bs) = (None, [])"
| "writeFull ((n, err) # ws) (b # bs) =
     (let k = min n (length (b # bs)) in
      case err of
        Some e \<Rightarrow> (Some (Some e), take k (b # bs))
      | None \<Rightarrow> if n = 0 then (Some (Some (Sentinel ErrNoProgress)), [])
                else (case writeFull ws (drop k (b # bs)) of (r, out) \<Rightarrow> (r, take k (b # bs) @ out)))"

text \<open>The xorshift generator of \<open>fillBenchmarkPayload\<close>.\<close>

definition xorshift :: "u64 \<Rightarrow> u64" where
  "xorshift x0 = (let x1 = x0 XOR push_bit 13 x0; x2 = x1 XOR drop_bit 7 x1 in x2 XOR push_bit 17 x2)"

fun fillPayload :: "nat \<Rightarrow> u64 \<Rightarrow> bytes" where
  "fillPayload 0 state = []"
| "fillPayload (Suc n) state = (let state' = xorshift state in ucast state' # fillPayload n state')"

definition fillBenchmarkPayload :: "nat \<Rightarrow> bytes" where
  "fillBenchmarkPayload n = fillPayload n 0x9e3779b97f4a7c15"

section \<open>Setting up a run\<close>

record BenchmarkClientConfig =
  bcc_Address :: string
  bcc_Direction :: string
  bcc_Duration :: duration
  bcc_DialTimeout :: duration
  bcc_Connections :: int
  bcc_StatsInterval :: duration
  bcc_StatsTUI :: bool

definition benchmarkChecks :: "BenchmarkClientConfig \<Rightarrow> go_error + benchmarkDirection list" where
  "benchmarkChecks cfg =
     (if bcc_Duration cfg \<le> 0 \<or> bcc_DialTimeout cfg \<le> 0
      then Inl (ErrorText ''benchmark duration and setup timeout must be greater than zero'')
      else case benchmarkDirections (bcc_Direction cfg) (bcc_Connections cfg) of
             Inl e \<Rightarrow> Inl e
           | Inr directions \<Rightarrow>
               if bcc_StatsInterval cfg < 0 then Inl (ErrorText ''benchmark stats interval must not be negative'') else Inr directions)"

text \<open>
  Opening the streams of a run: for each direction the stream or the error of \<open>open\<close>, and the result of writing the header. The
  result holds the error, the peers, and the stream that was closed at once.
\<close>

fun openPeers ::
  "(benchmarkDirection \<times> (go_error + nat) \<times> go_error option) list \<Rightarrow> (nat \<times> benchmarkDirection) list
   \<Rightarrow> go_error option \<times> (nat \<times> benchmarkDirection) list \<times> nat list" where
  "openPeers [] peers = (None, peers, [])"
| "openPeers ((d, Inl e, w) # rest) peers = (Some (Wrapped ''open benchmark stream: '' e ''''), peers, [])"
| "openPeers ((d, Inr conn, Some e) # rest) peers = (Some (Wrapped ''start benchmark stream: '' e ''''), peers, [conn])"
| "openPeers ((d, Inr conn, None) # rest) peers = openPeers rest (peers @ [(conn, d)])"

fun awaitReady :: "(go_error + byte) list \<Rightarrow> go_error option" where
  "awaitReady [] = None"
| "awaitReady (Inl e # rest) = Some (Wrapped ''wait for benchmark responder: '' e '''')"
| "awaitReady (Inr b # rest) = (if b \<noteq> benchmarkReady then Some (ErrorText ''invalid benchmark readiness marker'') else awaitReady rest)"

fun releasePeers :: "go_error option list \<Rightarrow> go_error option" where
  "releasePeers [] = None"
| "releasePeers (Some e # rest) = Some (Wrapped ''release benchmark stream: '' e '''')"
| "releasePeers (None # rest) = releasePeers rest"

text \<open>The peers to pump, or the error with every stream that was closed: the deferred call closes the peers.\<close>

definition benchmarkSetup ::
  "(benchmarkDirection \<times> (go_error + nat) \<times> go_error option) list \<Rightarrow> (go_error + byte) list \<Rightarrow> go_error option list
   \<Rightarrow> (go_error \<times> nat list) + (nat \<times> benchmarkDirection) list" where
  "benchmarkSetup opens readies starts =
     (case openPeers opens [] of (err, peers, closed) \<Rightarrow>
        (case err of
           Some e \<Rightarrow> Inl (e, closed @ map fst peers)
         | None \<Rightarrow>
             (case awaitReady readies of
                Some e \<Rightarrow> Inl (e, map fst peers)
              | None \<Rightarrow>
                  (case releasePeers starts of Some e \<Rightarrow> Inl (e, map fst peers) | None \<Rightarrow> Inr peers))))"

text \<open>How a run ends: the context is done, the time is over, or a pump returned; all streams are closed first.\<close>

datatype benchmark_end = RunCancelled | RunOver | PumpReturned "go_error option"

definition benchmarkResult :: "string \<Rightarrow> bool \<Rightarrow> benchmark_end \<Rightarrow> go_error option" where
  "benchmarkResult duration ctxDone ending =
     (case ending of
        RunCancelled \<Rightarrow> None
      | RunOver \<Rightarrow> None
      | PumpReturned err \<Rightarrow>
          if ctxDone then None
          else Some (case err of
                       Some e \<Rightarrow> Wrapped (''benchmark stream ended before '' @ duration @ '': '') e ''''
                     | None \<Rightarrow> ErrorText (''benchmark stream ended before '' @ duration @ '': %!w(<nil>)'')))"

section \<open>The pumps\<close>

text \<open>The state that the two goroutines of \<open>pumpBenchmarkSend\<close> share, and the counter of confirmed bytes.\<close>

record sendState =
  ss_sent :: u64
  ss_confirmed :: u64
  ss_err :: "go_error option"
  ss_counter :: Counter

definition newSendState :: "Counter \<Rightarrow> sendState" where
  "newSendState c = \<lparr>ss_sent = 0, ss_confirmed = 0, ss_err = None, ss_counter = c\<rparr>"

text \<open>The reader on one acknowledgement, or on the error of its read; the flag says that it goes on.\<close>

definition ackRead :: "go_error + bytes \<Rightarrow> sendState \<Rightarrow> bool \<times> sendState" where
  "ackRead r s =
     (case r of
        Inl e \<Rightarrow> (False, s\<lparr>ss_err := Some e\<rparr>)
      | Inr encoded \<Rightarrow>
          let total = uint64_of encoded in
          if total < ss_confirmed s \<or> total > ss_sent s then (False, s\<lparr>ss_err := Some (ErrorText ''invalid benchmark acknowledgement'')\<rparr>)
          else
            let delta = total - ss_confirmed s in
            (True, s\<lparr>ss_confirmed := total, ss_counter := (if delta > 0 then AddTX delta (ss_counter s) else ss_counter s)\<rparr>))"

text \<open>The critical section of the writer: it ends with the error, waits, or reserves the bytes it then writes.\<close>

datatype reserve = SendFails go_error | SendWaits | SendBlock nat

definition reserveBlock :: "sendState \<Rightarrow> reserve \<times> sendState" where
  "reserveBlock s =
     (case ss_err s of
        Some e \<Rightarrow> (SendFails e, s)
      | None \<Rightarrow>
          let outstanding = ss_sent s - ss_confirmed s in
          if outstanding \<ge> of_nat benchmarkOutstandingWindow then (SendWaits, s)
          else
            let remaining = of_nat benchmarkOutstandingWindow - outstanding;
                block = min (of_nat benchmarkBlockSize) remaining in
            (SendBlock (unat block), s\<lparr>ss_sent := ss_sent s + block\<rparr>))"

text \<open>\<open>pumpBenchmarkReceive\<close>: one read of \<open>n\<close> bytes; the acknowledgement to send, if any.\<close>

record receiveState =
  rs_total :: u64
  rs_acknowledged :: u64
  rs_counter :: Counter

definition newReceiveState :: "Counter \<Rightarrow> receiveState" where
  "newReceiveState c = \<lparr>rs_total = 0, rs_acknowledged = 0, rs_counter = c\<rparr>"

definition receiveChunk :: "nat \<Rightarrow> receiveState \<Rightarrow> bytes option \<times> receiveState" where
  "receiveChunk n s =
     (if n = 0 then (None, s)
      else
        let total = rs_total s + of_nat n;
            s1 = s\<lparr>rs_total := total, rs_counter := AddRX (of_nat n) (rs_counter s)\<rparr> in
        if total - rs_acknowledged s1 \<ge> of_nat benchmarkBlockSize
        then (Some (put_uint64 total), s1\<lparr>rs_acknowledged := total\<rparr>)
        else (None, s1))"

text \<open>
  Sender, receiver and the connection between them: the bytes reserved and not yet received, and the acknowledgements on their way. The
  totals are 64-bit; the relation covers the first \<open>2 ^ 64\<close> bytes less a window.
\<close>

record pump =
  pu_send :: sendState
  pu_reading :: bool
  pu_recv :: receiveState
  pu_wire :: nat
  pu_acks :: "bytes list"

inductive pump_step :: "pump \<Rightarrow> pump \<Rightarrow> bool" where
  reserve: "reserveBlock (pu_send p) = (SendBlock n, s) \<Longrightarrow> unat (ss_sent (pu_send p)) + benchmarkOutstandingWindow < 2 ^ 64 \<Longrightarrow>
    pump_step p (p\<lparr>pu_send := s, pu_wire := pu_wire p + n\<rparr>)"
| receive: "n \<le> pu_wire p \<Longrightarrow> n \<le> benchmarkBlockSize \<Longrightarrow> receiveChunk n (pu_recv p) = (ack, r) \<Longrightarrow>
    pump_step p (p\<lparr>pu_recv := r, pu_wire := pu_wire p - n, pu_acks := pu_acks p @ (case ack of None \<Rightarrow> [] | Some a \<Rightarrow> [a])\<rparr>)"
| acknowledge: "pu_reading p \<Longrightarrow> pu_acks p = a # rest \<Longrightarrow> ackRead (Inr a) (pu_send p) = (go, s) \<Longrightarrow>
    pump_step p (p\<lparr>pu_send := s, pu_reading := go, pu_acks := rest\<rparr>)"
| read_fails: "pu_reading p \<Longrightarrow> ackRead (Inl e) (pu_send p) = (go, s) \<Longrightarrow> pump_step p (p\<lparr>pu_send := s, pu_reading := go\<rparr>)"

definition pump_start :: "Counter \<Rightarrow> Counter \<Rightarrow> pump" where
  "pump_start cs cr = \<lparr>pu_send = newSendState cs, pu_reading = True, pu_recv = newReceiveState cr, pu_wire = 0, pu_acks = []\<rparr>"

text \<open>The acknowledgements on their way continue the confirmed total up to the one acknowledged last.\<close>

definition acks_ok :: "u64 \<Rightarrow> bytes list \<Rightarrow> u64 \<Rightarrow> bool" where
  "acks_ok confirmed acks acknowledged \<longleftrightarrow>
     (\<exists>vs. acks = map put_uint64 vs \<and> sorted (map unat (confirmed # vs)) \<and> last (confirmed # vs) = acknowledged)"

definition pump_ok :: "Counter \<Rightarrow> Counter \<Rightarrow> pump \<Rightarrow> bool" where
  "pump_ok cs cr p \<longleftrightarrow>
     unat (ss_sent (pu_send p)) = unat (rs_total (pu_recv p)) + pu_wire p
     \<and> unat (rs_acknowledged (pu_recv p)) \<le> unat (rs_total (pu_recv p))
     \<and> unat (rs_total (pu_recv p)) - unat (rs_acknowledged (pu_recv p)) < benchmarkBlockSize
     \<and> unat (ss_confirmed (pu_send p)) \<le> unat (ss_sent (pu_send p))
     \<and> unat (ss_sent (pu_send p)) - unat (ss_confirmed (pu_send p)) \<le> benchmarkOutstandingWindow
     \<and> acks_ok (ss_confirmed (pu_send p)) (pu_acks p) (rs_acknowledged (pu_recv p))
     \<and> ss_counter (pu_send p) = cs\<lparr>c_tx := c_tx cs + ss_confirmed (pu_send p)\<rparr>
     \<and> rs_counter (pu_recv p) = cr\<lparr>c_rx := c_rx cr + rs_total (pu_recv p)\<rparr>
     \<and> (pu_reading p \<longrightarrow> ss_err (pu_send p) = None)"

lemma unat_consts: "unat (of_nat benchmarkOutstandingWindow :: u64) = benchmarkOutstandingWindow" "unat (of_nat benchmarkBlockSize :: u64) = benchmarkBlockSize"
  by (simp_all add: benchmarkOutstandingWindow_def benchmarkBlockSize_def)

lemma block_less_window: "benchmarkBlockSize < benchmarkOutstandingWindow" "0 < benchmarkBlockSize" "benchmarkOutstandingWindow < 2 ^ 64"
  by (simp_all add: benchmarkOutstandingWindow_def benchmarkBlockSize_def)

lemma sorted_le_last: "sorted (xs :: nat list) \<Longrightarrow> x \<in> set xs \<Longrightarrow> x \<le> last xs"
  by (induction xs) auto

lemma acks_ok_le: "acks_ok c acks a \<Longrightarrow> unat c \<le> unat a"
proof -
  assume "acks_ok c acks a"
  then obtain vs where vs: "sorted (map unat (c # vs))" "last (c # vs) = a" unfolding acks_ok_def by blast
  then have "unat c \<le> last (map unat (c # vs))" by (intro sorted_le_last) simp_all
  then show ?thesis using vs(2) by (simp only: last_map list.distinct not_False_eq_True)
qed

lemma acks_ok_push: "acks_ok c acks a \<Longrightarrow> unat a \<le> unat b \<Longrightarrow> acks_ok c (acks @ [put_uint64 b]) b"
proof -
  assume "acks_ok c acks a" and ab: "unat a \<le> unat b"
  then obtain vs where vs: "acks = map put_uint64 vs" "sorted (map unat (c # vs))" "last (c # vs) = a" unfolding acks_ok_def by blast
  have le: "x \<le> unat a" if "x \<in> set (map unat (c # vs))" for x
  proof -
    have "x \<le> last (map unat (c # vs))" using vs(2) that by (rule sorted_le_last)
    then show ?thesis using vs(3) by (simp only: last_map list.distinct not_False_eq_True)
  qed
  have "\<forall>x \<in> set (map unat (c # vs)). \<forall>y \<in> set [unat b]. x \<le> y" using le ab order_trans by auto
  then have "sorted (map unat (c # vs) @ [unat b])" unfolding sorted_append using vs(2) by simp
  then show ?thesis unfolding acks_ok_def using vs(1) by (intro exI [of _ "vs @ [b]"]) simp
qed

lemma acks_ok_pop:
  assumes "acks_ok c (x # rest) a"
  shows "acks_ok (uint64_of x) rest a" and "unat c \<le> unat (uint64_of x)"
proof -
  obtain v vs where v: "x = put_uint64 v" "rest = map put_uint64 vs" "sorted (map unat (c # v # vs))" "last (c # v # vs) = a"
    using assms unfolding acks_ok_def by (auto simp: Cons_eq_map_conv)
  have "uint64_of x = v" by (simp add: v(1) codec)
  then show "acks_ok (uint64_of x) rest a" "unat c \<le> unat (uint64_of x)" using v unfolding acks_ok_def by auto
qed

lemma reserveBlock_effect:
  assumes run: "reserveBlock s = (SendBlock n, s')" and le: "unat (ss_confirmed s) \<le> unat (ss_sent s)"
    and room: "unat (ss_sent s) + benchmarkOutstandingWindow < 2 ^ 64"
  shows "unat (ss_sent s') = unat (ss_sent s) + n \<and> 0 < n \<and> n \<le> benchmarkBlockSize
     \<and> unat (ss_sent s') - unat (ss_confirmed s) \<le> benchmarkOutstandingWindow
     \<and> ss_confirmed s' = ss_confirmed s \<and> ss_counter s' = ss_counter s \<and> ss_err s' = ss_err s"
proof -
  let ?W = "of_nat benchmarkOutstandingWindow :: u64" and ?B = "of_nat benchmarkBlockSize :: u64"
  let ?o = "ss_sent s - ss_confirmed s"
  have o: "unat ?o = unat (ss_sent s) - unat (ss_confirmed s)" using le by (simp add: unat_sub_le word_le_nat_alt)
  have lt: "\<not> ?o \<ge> ?W" "n = unat (min ?B (?W - ?o))" "s' = s\<lparr>ss_sent := ss_sent s + min ?B (?W - ?o)\<rparr>"
    using run by (auto simp: reserveBlock_def Let_def split: option.splits if_splits)
  have "unat ?o < benchmarkOutstandingWindow" using lt(1) by (simp add: word_less_nat_alt unat_consts not_le)
  moreover then have "unat (?W - ?o) = benchmarkOutstandingWindow - unat ?o"
    using lt(1) by (simp add: unat_sub_le word_le_nat_alt unat_consts)
  ultimately have n: "n = min benchmarkBlockSize (benchmarkOutstandingWindow - unat ?o)"
    using lt(2) by (auto simp: min_def word_le_nat_alt unat_consts)
  have "unat (ss_sent s + of_nat n) = unat (ss_sent s) + n" using room n by (intro unat_add_of_nat) simp
  moreover have "of_nat n = min ?B (?W - ?o)" by (simp add: lt(2))
  ultimately have sent: "unat (ss_sent s') = unat (ss_sent s) + n" "ss_confirmed s' = ss_confirmed s" "ss_counter s' = ss_counter s" "ss_err s' = ss_err s" using lt(3) by simp_all
  have "0 < n" "n \<le> benchmarkBlockSize" "n + unat ?o \<le> benchmarkOutstandingWindow"
    using n \<open>unat ?o < benchmarkOutstandingWindow\<close> block_less_window by simp_all
  then show ?thesis using sent o le by simp
qed

lemma receiveChunk_effect:
  assumes run: "receiveChunk n r = (ack, r')" and room: "unat (rs_total r) + n < 2 ^ 64"
    and le: "unat (rs_acknowledged r) \<le> unat (rs_total r)" and lt: "unat (rs_total r) - unat (rs_acknowledged r) < benchmarkBlockSize"
    and counter: "rs_counter r = cr\<lparr>c_rx := c_rx cr + rs_total r\<rparr>"
  shows "unat (rs_total r') = unat (rs_total r) + n \<and> rs_counter r' = cr\<lparr>c_rx := c_rx cr + rs_total r'\<rparr>
     \<and> unat (rs_acknowledged r') \<le> unat (rs_total r') \<and> unat (rs_total r') - unat (rs_acknowledged r') < benchmarkBlockSize
     \<and> (ack = None \<and> rs_acknowledged r' = rs_acknowledged r \<or> ack = Some (put_uint64 (rs_acknowledged r')) \<and> unat (rs_acknowledged r) \<le> unat (rs_acknowledged r'))"
proof (cases "n = 0")
  case True
  then show ?thesis using run le lt counter by (simp add: receiveChunk_def)
next
  case False
  let ?t = "rs_total r + of_nat n"
  have t: "unat ?t = unat (rs_total r) + n" using room by (intro unat_add_of_nat) simp
  have c: "AddRX (of_nat n) (rs_counter r) = cr\<lparr>c_rx := c_rx cr + ?t\<rparr>" using counter by (simp add: AddRX_def add.assoc)
  have d: "unat (?t - rs_acknowledged r) = unat ?t - unat (rs_acknowledged r)" using t le by (simp add: unat_sub_le word_le_nat_alt)
  show ?thesis
  proof (cases "?t - rs_acknowledged r \<ge> of_nat benchmarkBlockSize")
    case True
    then have "ack = Some (put_uint64 ?t)" "r' = r\<lparr>rs_total := ?t, rs_counter := cr\<lparr>c_rx := c_rx cr + ?t\<rparr>, rs_acknowledged := ?t\<rparr>"
      using run False c by (auto simp: receiveChunk_def Let_def)
    then show ?thesis using t le block_less_window by simp
  next
    case False
    then have "unat ?t - unat (rs_acknowledged r) < benchmarkBlockSize" using d by (simp add: word_le_nat_alt unat_consts not_le)
    moreover have "ack = None" "r' = r\<lparr>rs_total := ?t, rs_counter := cr\<lparr>c_rx := c_rx cr + ?t\<rparr>\<rparr>"
      using run False \<open>n \<noteq> 0\<close> c by (auto simp: receiveChunk_def Let_def)
    ultimately show ?thesis using t le by simp
  qed
qed

lemma ackRead_effect:
  assumes run: "ackRead (Inr a) s = (go, s')" and le: "unat (ss_confirmed s) \<le> unat (uint64_of a)" "unat (uint64_of a) \<le> unat (ss_sent s)"
    and counter: "ss_counter s = cs\<lparr>c_tx := c_tx cs + ss_confirmed s\<rparr>"
  shows "go \<and> s' = s\<lparr>ss_confirmed := uint64_of a, ss_counter := cs\<lparr>c_tx := c_tx cs + uint64_of a\<rparr>\<rparr>"
proof -
  have ok: "\<not> (uint64_of a < ss_confirmed s \<or> uint64_of a > ss_sent s)" using le by (simp add: word_less_nat_alt not_less)
  have d: "AddTX (uint64_of a - ss_confirmed s) (ss_counter s) = cs\<lparr>c_tx := c_tx cs + uint64_of a\<rparr>" using counter by (simp add: AddTX_def)
  have "\<not> uint64_of a - ss_confirmed s > 0 \<Longrightarrow> uint64_of a = ss_confirmed s" by (simp add: word_neq_0_conv [symmetric])
  then have "(if uint64_of a - ss_confirmed s > 0 then AddTX (uint64_of a - ss_confirmed s) (ss_counter s) else ss_counter s)
      = cs\<lparr>c_tx := c_tx cs + uint64_of a\<rparr>" using d counter by auto
  then show ?thesis using run ok unfolding ackRead_def Let_def by simp
qed

lemma pump_step_ok:
  assumes ok: "pump_ok cs cr p" and step: "pump_step p p'"
  shows "pump_ok cs cr p'"
  using step
proof cases
  case (reserve n s)
  have le: "unat (ss_confirmed (pu_send p)) \<le> unat (ss_sent (pu_send p))" using ok by (simp add: pump_ok_def)
  note eff = reserveBlock_effect [OF reserve(2) le reserve(3)]
  then have "unat (ss_sent s) = unat (rs_total (pu_recv p)) + (pu_wire p + n)" "unat (ss_confirmed s) \<le> unat (ss_sent s)"
    using ok le eff by (auto simp: pump_ok_def)
  then show ?thesis using ok eff by (auto simp: pump_ok_def reserve(1))
next
  case (receive n ack r)
  have "unat (rs_total (pu_recv p)) + n < 2 ^ 64"
    using ok receive(2) unat_less_pow [of "ss_sent (pu_send p)"] by (simp add: pump_ok_def)
  note eff = receiveChunk_effect [OF receive(4) this, of cr]
  have acks: "acks_ok (ss_confirmed (pu_send p)) (pu_acks p @ (case ack of None \<Rightarrow> [] | Some a \<Rightarrow> [a])) (rs_acknowledged r)"
    using ok eff acks_ok_push [of "ss_confirmed (pu_send p)" "pu_acks p" "rs_acknowledged (pu_recv p)" "rs_acknowledged r"] by (auto simp: pump_ok_def)
  show ?thesis using ok eff acks receive(2) by (auto simp: pump_ok_def receive(1))
next
  case (acknowledge a rest go s)
  have acks: "acks_ok (ss_confirmed (pu_send p)) (a # rest) (rs_acknowledged (pu_recv p))" using ok acknowledge(3) by (simp add: pump_ok_def)
  have le: "unat (ss_confirmed (pu_send p)) \<le> unat (uint64_of a)" "unat (uint64_of a) \<le> unat (ss_sent (pu_send p))"
    using acks_ok_pop [OF acks] acks_ok_le [OF acks_ok_pop(1) [OF acks]] ok by (auto simp: pump_ok_def)
  have "ss_counter (pu_send p) = cs\<lparr>c_tx := c_tx cs + ss_confirmed (pu_send p)\<rparr>" using ok by (simp add: pump_ok_def)
  from ackRead_effect [OF acknowledge(4) le this] show ?thesis using ok le acks_ok_pop(1) [OF acks] acknowledge(2) by (auto simp: pump_ok_def acknowledge(1))
next
  case (read_fails e go s)
  then show ?thesis using ok by (auto simp: pump_ok_def ackRead_def)
qed

interpretation pump_runs: transition_system "\<lambda>p. p = pump_start cs cr" pump_step "pump_ok cs cr" for cs cr
proof
  show "p = pump_start cs cr \<Longrightarrow> pump_ok cs cr p" for p
    using block_less_window
    by (auto simp: pump_ok_def pump_start_def newSendState_def newReceiveState_def acks_ok_def)
qed (rule pump_step_ok)

lemma pump_not_stuck:
  assumes ok: "pump_ok cs cr p" and "pu_reading p" "pu_wire p = 0" "pu_acks p = []"
  shows "\<exists>n s. reserveBlock (pu_send p) = (SendBlock n, s)"
proof -
  have "acks_ok (ss_confirmed (pu_send p)) [] (rs_acknowledged (pu_recv p))" using ok assms(4) by (simp add: pump_ok_def)
  then have "rs_acknowledged (pu_recv p) = ss_confirmed (pu_send p)" by (auto simp: acks_ok_def)
  then have "unat (ss_sent (pu_send p)) - unat (ss_confirmed (pu_send p)) < benchmarkBlockSize"
    "ss_confirmed (pu_send p) \<le> ss_sent (pu_send p)"
    using ok assms(3) by (auto simp: pump_ok_def word_le_nat_alt)
  then have "\<not> ss_sent (pu_send p) - ss_confirmed (pu_send p) \<ge> of_nat benchmarkOutstandingWindow"
    using block_less_window by (simp add: word_le_nat_alt unat_consts unat_sub_le)
  moreover have "ss_err (pu_send p) = None" using ok assms(2) by (simp add: pump_ok_def)
  ultimately show ?thesis by (simp add: reserveBlock_def Let_def)
qed

section \<open>Properties\<close>



text \<open>The responder accepts the header the client sends, in the direction the client chose.\<close>

lemma benchmark_header_accepted:
  "d \<noteq> benchmarkBoth \<Longrightarrow> benchmarkHandshake (Inr (benchmarkHeader d)) None (Inr benchmarkStart) = Inr d"
  by (cases d) (simp_all add: benchmarkHandshake_def benchmarkHeader_def codec nth_append Let_def)

lemma length_fillPayload: "length (fillPayload n x) = n"
  by (induction n arbitrary: x) (simp_all add: Let_def)

lemma writeFull_all: "writeFull ws data = (Some None, out) \<Longrightarrow> out = data"
proof (induction ws data arbitrary: out rule: writeFull.induct)
  case (3 n err ws b bs)
  then show ?case by (auto simp: Let_def split: option.splits if_splits prod.splits)
qed auto

text \<open>A setup that fails has closed every stream it opened.\<close>

lemma openPeers_account:
  assumes "openPeers opens peers = (err, peers', closed)"
  shows "\<exists>k. map fst peers' @ closed = map fst peers @ concat (map (\<lambda>(d, r, w). case r of Inr conn \<Rightarrow> [conn] | Inl e \<Rightarrow> []) (take k opens))"
  using assms
proof (induction opens peers rule: openPeers.induct)
  case (1 peers)
  then show ?case by auto
next
  case (2 d e w rest peers)
  then show ?case by (intro exI [of _ 0]) auto
next
  case (3 d conn e rest peers)
  then show ?case by (intro exI [of _ 1]) auto
next
  case (4 d conn rest peers)
  then obtain k where "map fst peers' @ closed = map fst (peers @ [(conn, d)]) @ concat (map (\<lambda>(d, r, w). case r of Inr conn \<Rightarrow> [conn] | Inl e \<Rightarrow> []) (take k rest))"
    by auto
  then show ?case by (intro exI [of _ "Suc k"]) simp
qed

end
