(* ===== verification/Client_App.thy ===== *)
theory Client_App
  imports Link_Session Mux_Run Service_Config Picker Bridge Benchmark Transition_System
begin

text \<open>
  The client command, \<open>internal/app/client.go\<close>: the checks of its configuration, its TCP listeners, the choice of a server on a
  line-oriented terminal, and the loop of \<open>RunClient\<close> that keeps one session with the server alive, reconnecting it and
  replacing it when it has ended. It composes discovery, the link session, the multiplexer and the service
  mappings. What the network and the Bluetooth stack answer are arguments; logging and the
  reporters are not part of the model.
\<close>

section \<open>Configuration and listeners\<close>

record ClientConfig =
  cl_ListenHost :: string
  cl_ListenPort :: int
  cl_Services :: "ClientService list"
  cl_AllServices :: bool
  cl_DeviceID :: string
  cl_ScanTimeout :: duration
  cl_ResumeTimeout :: duration
  cl_MaxConnections :: int
  cl_StatsInterval :: duration
  cl_StatsTUI :: bool
  cl_Compression :: bool
  cl_TransportDebug :: bool
  cl_Benchmark :: "BenchmarkClientConfig option"
  cl_SuppressListenAddr :: bool
  cl_Interactive :: bool

datatype client_error = BadConfig config_error | ListenFailed string go_error | ClientFailed go_error

definition clientChecks :: "ClientConfig \<Rightarrow> client_error option" where
  "clientChecks cfg =
     (case ValidateClientServices (cl_Services cfg) of
        Some e \<Rightarrow> Some (BadConfig e)
      | None \<Rightarrow>
          if cl_AllServices cfg \<and> cl_Services cfg \<noteq> [] then Some (ClientFailed (ErrorText ''--all-services cannot be combined with --service''))
          else if cl_AllServices cfg \<and> cl_ListenPort cfg \<noteq> 0
          then Some (ClientFailed (ErrorText ''--listen-port cannot be combined with --all-services''))
          else None)"

text \<open>The listeners by the remote service they serve, and all of them in the order they were opened.\<close>

record listeners =
  ls_byRemote :: "(string \<times> nat list) list"
  ls_all :: "nat list"

definition noListeners :: listeners where
  "noListeners = \<lparr>ls_byRemote = [], ls_all = []\<rparr>"

definition listenersFor :: "string \<Rightarrow> listeners \<Rightarrow> nat list" where
  "listenersFor remote l = (case map_of (ls_byRemote l) remote of Some ls \<Rightarrow> ls | None \<Rightarrow> [])"

definition addListener :: "string \<Rightarrow> nat \<Rightarrow> listeners \<Rightarrow> listeners" where
  "addListener remote n l =
     \<lparr>ls_byRemote = gomap_put remote (listenersFor remote l @ [n]) (ls_byRemote l), ls_all = ls_all l @ [n]\<rparr>"

text \<open>Each service comes with what \<open>net.Listen\<close> returns for its local port.\<close>

fun openListeners :: "(ClientService \<times> (go_error + nat)) list \<Rightarrow> listeners \<Rightarrow> client_error option \<times> listeners" where
  "openListeners [] l = (None, l)"
| "openListeners ((service, Inl e) # rest) l = (Some (ListenFailed (Remote service) e), l)"
| "openListeners ((service, Inr n) # rest) l = openListeners rest (addListener (Remote service) n l)"

definition clientServices :: "ClientConfig \<Rightarrow> ClientService list" where
  "clientServices cfg = (if cl_Services cfg = [] then [\<lparr>LocalPort = cl_ListenPort cfg, Remote = ''''\<rparr>] else cl_Services cfg)"

text \<open>The listeners open before a server is known, or the error with the listeners closed again.\<close>

definition clientListen :: "ClientConfig \<Rightarrow> (go_error + nat) list \<Rightarrow> (client_error \<times> nat list) + listeners" where
  "clientListen cfg results =
     (if cl_AllServices cfg then Inr noListeners
      else case openListeners (zip (clientServices cfg) results) noListeners of
             (Some e, l) \<Rightarrow> Inl (e, ls_all l)
           | (None, l) \<Rightarrow> Inr l)"

text \<open>The lines printed as the listeners open, given their addresses; none after the first that fails.\<close>

fun listenLines :: "ClientConfig \<Rightarrow> (ClientService \<times> (go_error + string)) list \<Rightarrow> string list" where
  "listenLines cfg [] = []"
| "listenLines cfg ((service, Inl e) # rest) = []"
| "listenLines cfg ((service, Inr addr) # rest) =
     (if cl_SuppressListenAddr cfg then []
      else [if Remote service = '''' then ''LISTEN_ADDR='' @ addr @ [CHR 0x0A] else ''LISTEN_ADDR['' @ Remote service @ '']='' @ addr @ [CHR 0x0A]])
     @ listenLines cfg rest"

section \<open>Choosing a server\<close>

definition deviceDisplayName :: "Device \<Rightarrow> string" where
  "deviceDisplayName device =
     (if TrimSpace (dev_Name device) \<noteq> '''' then TrimSpace (dev_Name device)
      else if dev_ServerID device \<noteq> '''' then dev_ServerID device else ''(unnamed)'')"

text \<open>The lines printed while servers are found: number, name, RSSI, identifier, platform identifier.\<close>

definition choiceLine :: "nat \<Rightarrow> Device \<Rightarrow> string" where
  "choiceLine n device =
     ''  '' @ itoa (int n) @ '') '' @ deviceDisplayName device @ ''  RSSI='' @ itoa (dev_RSSI device)
       @ ''  ID='' @ (if dev_ServerID device = '''' then dev_ID device else dev_ServerID device) @ ''  PLATFORM_ID='' @ dev_ID device"

text \<open>
  \<open>found\<close> is what the discovery scan returned and the servers it reported while it ran; the input is a line, or its end with
  the scanner's error.
\<close>

definition chooseDeviceLine :: "(go_error + Device list) \<times> Device list \<Rightarrow> go_error option + string \<Rightarrow> go_error + Device" where
  "chooseDeviceLine found input =
     (case found of
        (Inl e, reported) \<Rightarrow> Inl e
      | (Inr devices, reported) \<Rightarrow>
          let discoveredIDs = map dev_ID reported in
          if discoveredIDs = [] then Inl (ErrorText ''no LightningBNB servers found'')
          else
            let devicesByID = fold (\<lambda>d m. m(dev_ID d \<mapsto> d)) devices Map.empty;
                orderedDevices = map (\<lambda>i. case devicesByID i of Some d \<Rightarrow> d | None \<Rightarrow> zeroDevice) discoveredIDs in
            case input of
              Inl (Some e) \<Rightarrow> Inl e
            | Inl None \<Rightarrow> Inl (ErrorText ''no server selection provided'')
            | Inr text \<Rightarrow>
                (case Atoi (TrimSpace text) of
                   None \<Rightarrow> Inl (ErrorText ''invalid server selection'')
                 | Some selection \<Rightarrow>
                     if selection < 1 \<or> selection > len orderedDevices then Inl (ErrorText ''invalid server selection'')
                     else Inr (orderedDevices ! nat (selection - 1))))"

text \<open>The identifier to look for and the device to try first.\<close>

definition clientDevice :: "ClientConfig \<Rightarrow> go_error + Device \<Rightarrow> client_error + string \<times> Device option" where
  "clientDevice cfg chosen =
     (if cl_DeviceID cfg \<noteq> '''' then Inr (cl_DeviceID cfg, None)
      else if \<not> cl_Interactive cfg
      then Inl (ClientFailed (ErrorText ''--device is required when stdin is not an interactive terminal''))
      else case chosen of
             Inl e \<Rightarrow> Inl (ClientFailed e)
           | Inr d \<Rightarrow> Inr (if dev_ServerID d = '''' then dev_ID d else dev_ServerID d, Some d))"

section \<open>The loop\<close>

record clientRun =
  cr_deviceID :: string
  cr_selectedDevice :: "Device option"
  cr_lastDevice :: "Device option"
  cr_linkSession :: Session
  cr_muxSession :: Mux
  cr_listeners :: listeners
  cr_bridgeStarted :: bool
  cr_allServicesStarted :: bool
  cr_benchmarkStarted :: bool

definition clientSessionConfig :: "ClientConfig \<Rightarrow> Config" where
  "clientSessionConfig cfg =
     emptyConfig\<lparr>ResumeTimeout := cl_ResumeTimeout cfg, ReplayWindow := DefaultReplayWindow, MaxConnections := cl_MaxConnections cfg,
                 Compression := cl_Compression cfg\<rparr>"

definition clientMux :: "ClientConfig \<Rightarrow> Counter option \<Rightarrow> (nat \<Rightarrow> bool) \<Rightarrow> Mux" where
  "clientMux cfg counter pick = newSession True (cl_MaxConnections cfg) (cl_Compression cfg) counter pick"

text \<open>
  What one turn of the inner loop meets: whether the context is over; the benchmark's result, if it is there, and the choice
  of the select when the session has ended too; the results of \<open>Find\<close>, of \<open>Connect\<close> (the connection and its server's
  identifier), the events of the handshake, the advertised services, the results of listening, and whether a wait of a
  second passes before the context ends.
\<close>

record client_turn =
  ti_ctxDone :: bool
  ti_benchmark :: "go_error option option"
  ti_pick :: bool
  ti_find :: "find_error + Device"
  ti_connect :: "go_error + PacketConn \<times> string"
  ti_handshake :: "hs_event list"
  ti_now :: instant
  ti_services :: "go_error + Service list"
  ti_listen :: "(go_error + nat) list"
  ti_waited :: bool

datatype turn_end = NextTurn | NextSession | LeaveLoop | Return "client_error option" | InHandshake

datatype client_effect = OnLink link_effect | Connected PacketConn | ListenerClose nat

definition closeSessions :: "clientRun \<Rightarrow> client_effect list \<times> clientRun" where
  "closeSessions st =
     (case Close (cr_linkSession st) of (eff, s) \<Rightarrow>
        (map OnLink eff, st\<lparr>cr_muxSession := Mux_Close (cr_muxSession st), cr_linkSession := s\<rparr>))"

text \<open>Leaving for good: the deferred call closes every listener.\<close>

definition leave :: "turn_end \<Rightarrow> client_effect list \<Rightarrow> clientRun \<Rightarrow> turn_end \<times> client_effect list \<times> clientRun" where
  "leave r eff st =
     (case closeSessions st of (eff1, st1) \<Rightarrow> (r, eff @ eff1 @ map ListenerClose (ls_all (cr_listeners st1)), st1))"

definition nextDevice :: "client_turn \<Rightarrow> clientRun \<Rightarrow> (find_error + Device) \<times> clientRun" where
  "nextDevice t st =
     (case cr_selectedDevice st of
        Some d \<Rightarrow> (Inr d, st\<lparr>cr_selectedDevice := None\<rparr>)
      | None \<Rightarrow>
          (case cr_lastDevice st of
             Some d \<Rightarrow> (Inr d, st\<lparr>cr_lastDevice := None\<rparr>)
           | None \<Rightarrow> (ti_find t, st)))"

definition learnID :: "string \<Rightarrow> clientRun \<Rightarrow> clientRun" where
  "learnID sid st = (if sid \<noteq> '''' \<and> cr_deviceID st \<noteq> sid then st\<lparr>cr_deviceID := sid\<rparr> else st)"

text \<open>A failed connection is retried after a second, with a fresh session where the server has forgotten this one.\<close>

definition connectFailed :: "client_turn \<Rightarrow> go_error \<Rightarrow> client_effect list \<Rightarrow> clientRun \<Rightarrow> turn_end \<times> client_effect list \<times> clientRun" where
  "connectFailed t e eff st =
     (if RejectionReason e = ''resume failed'' then (case closeSessions st of (eff1, st1) \<Rightarrow> (NextSession, eff @ eff1, st1))
      else if ti_waited t then (NextTurn, eff, st)
      else leave LeaveLoop eff st)"

text \<open>Forwarding every advertised service, once.\<close>

definition startAllServices :: "ClientConfig \<Rightarrow> client_turn \<Rightarrow> clientRun \<Rightarrow> client_error option \<times> clientRun" where
  "startAllServices cfg t st =
     (if \<not> cl_AllServices cfg \<or> cr_allServicesStarted st then (None, st)
      else case ti_services t of
             Inl e \<Rightarrow> (Some (ClientFailed (Wrapped ''discover advertised services: '' e '''')), st)
           | Inr advertised \<Rightarrow>
               (case ClientServicesForAdvertised advertised of
                  Inl e \<Rightarrow> (Some (BadConfig e), st)
                | Inr services \<Rightarrow>
                    if services = [] then (Some (ClientFailed (ErrorText ''server advertised no services'')), st)
                    else case openListeners (zip services (ti_listen t)) (cr_listeners st) of
                           (Some e, l) \<Rightarrow> (Some e, st\<lparr>cr_listeners := l\<rparr>)
                         | (None, l) \<Rightarrow> (None, st\<lparr>cr_listeners := l, cr_bridgeStarted := True, cr_allServicesStarted := True\<rparr>)))"

definition startBenchmark :: "ClientConfig \<Rightarrow> clientRun \<Rightarrow> clientRun" where
  "startBenchmark cfg st = (if cl_Benchmark cfg \<noteq> None \<and> \<not> cr_benchmarkStarted st then st\<lparr>cr_benchmarkStarted := True\<rparr> else st)"

definition connectTurn :: "ClientConfig \<Rightarrow> client_turn \<Rightarrow> Device \<Rightarrow> clientRun \<Rightarrow> turn_end \<times> client_effect list \<times> clientRun" where
  "connectTurn cfg t device st0 =
     (let st = learnID (dev_ServerID device) st0 in
      case ti_connect t of
        Inl e \<Rightarrow> connectFailed t e [] st
      | Inr (conn, connectedID) \<Rightarrow>
          let st1 = learnID connectedID st in
          (case BindClient (Some conn) (ti_handshake t) (ti_now t) (cr_linkSession st1) of
             None \<Rightarrow> (InHandshake, [Connected conn], st1)
           | Some (Some e, eff, s) \<Rightarrow>
               connectFailed t e (Connected conn # map OnLink eff @ [OnLink (ConnClose conn)]) (st1\<lparr>cr_linkSession := s\<rparr>)
           | Some (None, eff, s) \<Rightarrow>
               (case startAllServices cfg t (st1\<lparr>cr_linkSession := s, cr_lastDevice := Some device\<rparr>) of
                  (Some e, st2) \<Rightarrow> leave (Return (Some e)) (Connected conn # map OnLink eff) st2
                | (None, st2) \<Rightarrow> (NextTurn, Connected conn # map OnLink eff, startBenchmark cfg st2))))"

definition benchmarkEnded :: "client_turn \<Rightarrow> clientRun \<Rightarrow> bool" where
  "benchmarkEnded t st \<longleftrightarrow> cr_benchmarkStarted st \<and> ti_benchmark t \<noteq> None \<and> (s_done (cr_linkSession st) \<longrightarrow> ti_pick t)"

definition clientTurn :: "ClientConfig \<Rightarrow> client_turn \<Rightarrow> clientRun \<Rightarrow> turn_end \<times> client_effect list \<times> clientRun" where
  "clientTurn cfg t st =
     (if ti_ctxDone t then leave LeaveLoop [] st
      else if benchmarkEnded t st then
        leave (Return (map_option (\<lambda>e. ClientFailed (Wrapped ''benchmark failed: '' e '''')) (the (ti_benchmark t)))) [] st
      else if s_done (cr_linkSession st) then
        let st1 = st\<lparr>cr_muxSession := Mux_Close (cr_muxSession st)\<rparr> in
        if cl_Benchmark cfg \<noteq> None then
          (Return (Some (ClientFailed (case s_err (cr_linkSession st) of
              Some e \<Rightarrow> Wrapped ''benchmark BLE session ended: '' e ''''
            | None \<Rightarrow> ErrorText ''benchmark BLE session ended: %!w(<nil>)''))),
           map ListenerClose (ls_all (cr_listeners st1)), st1)
        else (NextSession, [], st1)
      else if IsBound (cr_linkSession st) then (NextTurn, [], st)
      else
        case nextDevice t st of
          (Inl e, st1) \<Rightarrow> if ti_waited t then (NextTurn, [], st1) else leave LeaveLoop [] st1
        | (Inr device, st1) \<Rightarrow> connectTurn cfg t device st1)"

section \<open>Lemmas\<close>

definition live_ok :: "Session \<Rightarrow> bool" where
  "live_ok s \<longleftrightarrow> s_closed s = s_done s"

lemma Close_done: "live_ok s \<Longrightarrow> s_done (snd (Close s)) \<and> live_ok (snd (Close s))"
  by (simp add: Close_def closeWithError_def live_ok_def signalLocked_def Let_def split: option.splits)

lemma Mux_Close_done [simp]: "m_done (Mux_Close m)"
  by (simp add: Mux_Close_def)

lemma closeSessions_done:
  assumes "closeSessions st = (eff, st')" and "live_ok (cr_linkSession st)"
  shows "s_done (cr_linkSession st') \<and> m_done (cr_muxSession st') \<and> live_ok (cr_linkSession st')"
  using assms Close_done [of "cr_linkSession st"] by (auto simp: closeSessions_def split: prod.splits)

text \<open>What the steps of a turn leave alone.\<close>

lemma learnID_frame [simp]:
  "cr_linkSession (learnID sid st) = cr_linkSession st" "cr_muxSession (learnID sid st) = cr_muxSession st" "cr_listeners (learnID sid st) = cr_listeners st"
  by (simp_all add: learnID_def)

lemma startBenchmark_frame [simp]:
  "cr_linkSession (startBenchmark cfg st) = cr_linkSession st" "cr_muxSession (startBenchmark cfg st) = cr_muxSession st"
  by (simp_all add: startBenchmark_def)

lemma startAllServices_frame:
  "startAllServices cfg t st = (e, st') \<Longrightarrow> cr_linkSession st' = cr_linkSession st \<and> cr_muxSession st' = cr_muxSession st"
  by (auto simp: startAllServices_def split: if_splits sum.splits prod.splits option.splits)

lemma nextDevice_frame:
  "nextDevice t st = (r, st') \<Longrightarrow> cr_linkSession st' = cr_linkSession st \<and> cr_muxSession st' = cr_muxSession st"
  by (auto simp: nextDevice_def split: option.splits)

text \<open>How a turn ends: sessions that are left are closed.\<close>

definition turn_ok :: "turn_end \<Rightarrow> clientRun \<Rightarrow> bool" where
  "turn_ok r st \<longleftrightarrow> live_ok (cr_linkSession st)
     \<and> (r \<in> {NextTurn, InHandshake} \<or> s_done (cr_linkSession st) \<and> m_done (cr_muxSession st))"

lemma leave_ok: "leave r eff st = (r', eff', st') \<Longrightarrow> live_ok (cr_linkSession st) \<Longrightarrow> turn_ok r' st'"
  using closeSessions_done [of st] by (auto simp: leave_def turn_ok_def split: prod.splits)

lemma connectFailed_ok:
  "connectFailed t e eff st = (r, eff', st') \<Longrightarrow> live_ok (cr_linkSession st) \<Longrightarrow> turn_ok r st'"
  using closeSessions_done [of st]
  by (auto simp: connectFailed_def turn_ok_def split: if_splits prod.splits dest: leave_ok)

lemma connectTurn_ok:
  assumes "connectTurn cfg t device st = (r, eff, st')" and live: "live_ok (cr_linkSession st)"
  shows "turn_ok r st'"
proof (cases "ti_connect t")
  case (Inl e)
  then show ?thesis using assms by (auto simp: connectTurn_def Let_def intro: connectFailed_ok)
next
  case (Inr c)
  obtain conn sid where c: "ti_connect t = Inr (conn, sid)" using Inr by (cases c) auto
  show ?thesis
  proof (cases "BindClient (Some conn) (ti_handshake t) (ti_now t) (cr_linkSession st)")
    case None
    then show ?thesis using assms c by (auto simp: connectTurn_def Let_def turn_ok_def)
  next
    case (Some b)
    obtain e eff1 s where b: "BindClient (Some conn) (ti_handshake t) (ti_now t) (cr_linkSession st) = Some (e, eff1, s)"
      using Some by (cases b) auto
    have s: "live_ok s" using BindClient_keeps [OF b] live by (simp add: live_ok_def same_stream_def)
    show ?thesis
    proof (cases e)
      case (Some x)
      then show ?thesis using assms(1) c b s by (auto simp: connectTurn_def Let_def intro: connectFailed_ok)
    next
      case None
      then show ?thesis using assms(1) c b s
        by (auto simp: connectTurn_def Let_def turn_ok_def split: prod.splits option.splits dest!: startAllServices_frame dest: leave_ok)
    qed
  qed
qed

lemma clientTurn_ok:
  assumes "clientTurn cfg t st = (r, eff, st')" and "live_ok (cr_linkSession st)"
  shows "turn_ok r st'"
  using assms
  by (auto simp: clientTurn_def turn_ok_def [of NextTurn] turn_ok_def [of NextSession] turn_ok_def [of "Return x" for x] Let_def
      split: if_splits prod.splits sum.splits dest: leave_ok connectTurn_ok dest!: nextDevice_frame)

text \<open>What happens to the connection a turn got.\<close>

definition conn_kept :: "turn_end \<Rightarrow> client_effect list \<Rightarrow> clientRun \<Rightarrow> bool" where
  "conn_kept r eff st \<longleftrightarrow>
     (\<forall>conn. Connected conn \<in> set eff \<longrightarrow> r = InHandshake \<or> OnLink (ConnClose conn) \<in> set eff \<or> r = NextTurn \<and> bound_to conn (cr_linkSession st))"

lemma closeSessions_effects: "closeSessions st = (eff, st') \<Longrightarrow> eff = map OnLink (fst (Close (cr_linkSession st)))"
  by (auto simp: closeSessions_def split: prod.splits)

lemma leave_effects:
  "leave r eff st = (r', eff', st') \<Longrightarrow>
   r' = r \<and> eff' = eff @ map OnLink (fst (Close (cr_linkSession st))) @ map ListenerClose (ls_all (cr_listeners st'))"
  by (auto simp: leave_def dest: closeSessions_effects split: prod.splits)

lemma connectFailed_kept:
  assumes "connectFailed t e eff st = (r, eff', st')" and "\<And>conn. Connected conn \<in> set eff \<Longrightarrow> OnLink (ConnClose conn) \<in> set eff"
  shows "conn_kept r eff' st'"
  using assms
  by (auto simp: connectFailed_def conn_kept_def dest!: leave_effects closeSessions_effects split: if_splits prod.splits)

lemma connectTurn_kept:
  assumes "connectTurn cfg t device st = (r, eff, st')"
  shows "conn_kept r eff st'"
proof (cases "ti_connect t")
  case (Inl e)
  then show ?thesis using assms by (auto simp: connectTurn_def Let_def intro: connectFailed_kept)
next
  case (Inr c)
  obtain conn sid where c: "ti_connect t = Inr (conn, sid)" using Inr by (cases c) auto
  show ?thesis
  proof (cases "BindClient (Some conn) (ti_handshake t) (ti_now t) (cr_linkSession st)")
    case None
    then show ?thesis using assms c by (auto simp: connectTurn_def Let_def conn_kept_def)
  next
    case (Some b)
    obtain e eff1 s where b: "BindClient (Some conn) (ti_handshake t) (ti_now t) (cr_linkSession st) = Some (e, eff1, s)"
      using Some by (cases b) auto
    show ?thesis
    proof (cases e)
      case (Some x)
      then show ?thesis using assms(1) c b by (auto simp: connectTurn_def Let_def intro!: connectFailed_kept)
    next
      case None
      have bound: "bound_to conn s" using BindClient_keeps [OF b] None by simp
      define st1 where "st1 = (learnID sid (learnID (dev_ServerID device) st))\<lparr>cr_linkSession := s, cr_lastDevice := Some device\<rparr>"
      obtain err st2 where all: "startAllServices cfg t st1 = (err, st2)" by fastforce
      have link: "cr_linkSession st2 = s" using startAllServices_frame [OF all] by (simp add: st1_def)
      have "(r, eff, st') = (case err of
          Some e \<Rightarrow> leave (Return (Some e)) (Connected conn # map OnLink eff1) st2
        | None \<Rightarrow> (NextTurn, Connected conn # map OnLink eff1, startBenchmark cfg st2))"
        using assms c b None all by (simp add: connectTurn_def st1_def)
      then show ?thesis using bound link Close_conn [OF bound]
        by (auto simp: conn_kept_def split: option.splits dest!: leave_effects [OF sym])
    qed
  qed
qed

lemma clientTurn_kept:
  assumes "clientTurn cfg t st = (r, eff, st')"
  shows "conn_kept r eff st'"
proof (cases "ti_ctxDone t \<or> benchmarkEnded t st \<or> s_done (cr_linkSession st) \<or> IsBound (cr_linkSession st)")
  case True
  then have "Connected conn \<notin> set eff" for conn
    using assms by (auto simp: clientTurn_def Let_def dest!: leave_effects split: if_splits)
  then show ?thesis by (simp add: conn_kept_def)
next
  case False
  obtain d st1 where n: "nextDevice t st = (d, st1)" by fastforce
  show ?thesis
  proof (cases d)
    case (Inl e)
    then have "Connected conn \<notin> set eff" for conn
      using assms False n by (auto simp: clientTurn_def dest!: leave_effects split: if_splits)
    then show ?thesis by (simp add: conn_kept_def)
  next
    case (Inr device)
    then show ?thesis using assms False n by (auto simp: clientTurn_def intro: connectTurn_kept)
  qed
qed

section \<open>Runs\<close>

text \<open>
  A run of the client: its state, the sessions it has left, and its result once it has returned. Between its turns other
  goroutines work on the session; what matters here is that they do not reopen it.
\<close>

record clientWorld =
  cw_run :: clientRun
  cw_past :: "(Session \<times> Mux) list"
  cw_result :: "client_error option option"

definition leaveSession :: "clientRun \<Rightarrow> clientWorld \<Rightarrow> clientWorld" where
  "leaveSession st w = w\<lparr>cw_run := st, cw_past := (cr_linkSession st, cr_muxSession st) # cw_past w\<rparr>"

inductive client_step :: "ClientConfig \<Rightarrow> clientWorld \<Rightarrow> clientWorld \<Rightarrow> bool" for cfg where
  turn: "cw_result w = None \<Longrightarrow> clientTurn cfg t (cw_run w) = (r, eff, st) \<Longrightarrow> r \<in> {NextTurn, InHandshake} \<Longrightarrow>
    client_step cfg w (w\<lparr>cw_run := st\<rparr>)"
| fresh: "cw_result w = None \<Longrightarrow> clientTurn cfg t (cw_run w) = (NextSession, eff, st) \<Longrightarrow> NewSession random (clientSessionConfig cfg) = Inr s \<Longrightarrow>
    client_step cfg w ((leaveSession st w)\<lparr>cw_run := st\<lparr>cr_linkSession := s, cr_muxSession := clientMux cfg counter pick\<rparr>\<rparr>)"
| no_random: "cw_result w = None \<Longrightarrow> clientTurn cfg t (cw_run w) = (NextSession, eff, st) \<Longrightarrow> NewSession random (clientSessionConfig cfg) = Inl e \<Longrightarrow>
    client_step cfg w ((leaveSession st w)\<lparr>cw_result := Some (Some (ClientFailed e))\<rparr>)"
| cancelled: "cw_result w = None \<Longrightarrow> clientTurn cfg t (cw_run w) = (r, eff, st) \<Longrightarrow> r \<in> {NextSession, LeaveLoop} \<Longrightarrow>
    client_step cfg w ((leaveSession st w)\<lparr>cw_result := Some bridgeErr\<rparr>)"
| returns: "cw_result w = None \<Longrightarrow> clientTurn cfg t (cw_run w) = (Return r, eff, st) \<Longrightarrow>
    client_step cfg w ((leaveSession st w)\<lparr>cw_result := Some r\<rparr>)"
| others: "live_ok s \<Longrightarrow> (s_done (cr_linkSession (cw_run w)) \<longrightarrow> s_done s) \<Longrightarrow> (m_done (cr_muxSession (cw_run w)) \<longrightarrow> m_done m) \<Longrightarrow>
    client_step cfg w (w\<lparr>cw_run := (cw_run w)\<lparr>cr_linkSession := s, cr_muxSession := m\<rparr>\<rparr>)"

definition clientBegin :: "ClientConfig \<Rightarrow> listeners \<Rightarrow> string \<Rightarrow> Device option \<Rightarrow> Session \<Rightarrow> Counter option \<Rightarrow> (nat \<Rightarrow> bool) \<Rightarrow> clientWorld" where
  "clientBegin cfg l deviceID selected s counter pick =
     \<lparr>cw_run = \<lparr>cr_deviceID = deviceID, cr_selectedDevice = selected, cr_lastDevice = None, cr_linkSession = s,
        cr_muxSession = clientMux cfg counter pick, cr_listeners = l, cr_bridgeStarted = (\<not> cl_AllServices cfg),
        cr_allServicesStarted = False, cr_benchmarkStarted = False\<rparr>,
      cw_past = [], cw_result = None\<rparr>"

definition client_initial :: "ClientConfig \<Rightarrow> clientWorld \<Rightarrow> bool" where
  "client_initial cfg w \<longleftrightarrow>
     (\<exists>l deviceID selected random s counter pick. NewSession random (clientSessionConfig cfg) = Inr s \<and> w = clientBegin cfg l deviceID selected s counter pick)"

definition client_ok :: "clientWorld \<Rightarrow> bool" where
  "client_ok w \<longleftrightarrow> live_ok (cr_linkSession (cw_run w)) \<and> (\<forall>(s, m) \<in> set (cw_past w). s_done s \<and> m_done m)
     \<and> (cw_result w \<noteq> None \<longrightarrow> s_done (cr_linkSession (cw_run w)) \<and> m_done (cr_muxSession (cw_run w)))"

lemma NewSession_live: "NewSession random cfg = Inr s \<Longrightarrow> live_ok s"
  by (auto simp: NewSession_def NewSessionWithID_def live_ok_def split: sum.splits)

lemma client_step_ok:
  assumes "client_ok w" and "client_step cfg w w'"
  shows "client_ok w'"
  using assms(2)
proof cases
  case (turn t r eff st)
  then show ?thesis using assms(1) clientTurn_ok [OF turn(3)] by (auto simp: client_ok_def turn_ok_def)
next
  case (fresh t eff st random s counter pick)
  then show ?thesis using assms(1) clientTurn_ok [OF fresh(3)] NewSession_live [OF fresh(4)]
    by (auto simp: client_ok_def turn_ok_def leaveSession_def)
next
  case (no_random t eff st random e)
  then show ?thesis using assms(1) clientTurn_ok [OF no_random(3)] by (auto simp: client_ok_def turn_ok_def leaveSession_def)
next
  case (cancelled t r eff st bridgeErr)
  then show ?thesis using assms(1) clientTurn_ok [OF cancelled(3)] by (auto simp: client_ok_def turn_ok_def leaveSession_def)
next
  case (returns t r eff st)
  then show ?thesis using assms(1) clientTurn_ok [OF returns(3)] by (auto simp: client_ok_def turn_ok_def leaveSession_def)
next
  case (others s m)
  then show ?thesis using assms(1) by (auto simp: client_ok_def)
qed

interpretation client_runs: transition_system "client_initial cfg" "client_step cfg" client_ok for cfg
proof
  show "client_ok w" if "client_initial cfg w" for w
    using that NewSession_live by (auto simp: client_initial_def clientBegin_def client_ok_def)
qed (rule client_step_ok)

text \<open>A listener is found under the service it was opened for, and no listener is lost when opening fails.\<close>

lemma listenersFor_add: "listenersFor r (addListener r' n l) = (if r = r' then listenersFor r l @ [n] else listenersFor r l)"
  by (simp add: addListener_def listenersFor_def map_of_gomap_put)

lemma listenersFor_open: "openListeners pairs l = (e, l') \<Longrightarrow> \<exists>new. listenersFor r l' = listenersFor r l @ new"
  by (induction pairs l rule: openListeners.induct) (auto simp: listenersFor_add split: if_splits)

lemma openListeners_all:
  "openListeners pairs l = (None, l') \<Longrightarrow> (s, Inr n) \<in> set pairs \<Longrightarrow> n \<in> set (listenersFor (Remote s) l')"
proof (induction pairs l rule: openListeners.induct)
  case (3 service n' rest l)
  then show ?case
    using listenersFor_open [of rest "addListener (Remote service) n' l" None l' "Remote s"] by (auto simp: listenersFor_add)
qed auto

text \<open>The bridge serves each listener for the service it was opened for.\<close>

lemma opened_listener_served:
  assumes "openListeners pairs l = (None, l')" and "(s, Inr n) \<in> set pairs"
  shows "(Remote s, n) \<in> set (fst (snd (ServeServices (ls_byRemote l')))) \<and> fst (ServeServices (ls_byRemote l')) = None"
proof -
  have "n \<in> set (listenersFor (Remote s) l')" by (rule openListeners_all [OF assms])
  then obtain ls where "map_of (ls_byRemote l') (Remote s) = Some ls" "n \<in> set ls"
    by (cases "map_of (ls_byRemote l') (Remote s)") (auto simp: listenersFor_def)
  then have "(Remote s, ls) \<in> set (ls_byRemote l')" "n \<in> set ls" by (auto dest: map_of_SomeD)
  then show ?thesis by (force simp: ServeServices_def)
qed

text \<open>Leaving for good closes every listener.\<close>

lemma connectFailed_listeners:
  "connectFailed t e eff st = (r, eff', st') \<Longrightarrow> r = LeaveLoop \<or> r = Return x \<Longrightarrow> ListenerClose ` set (ls_all (cr_listeners st')) \<subseteq> set eff'"
  by (auto simp: connectFailed_def dest!: leave_effects split: if_splits prod.splits)

lemma connectTurn_listeners:
  "connectTurn cfg t device st = (r, eff, st') \<Longrightarrow> r = LeaveLoop \<or> r = Return x \<Longrightarrow> ListenerClose ` set (ls_all (cr_listeners st')) \<subseteq> set eff"
  by (auto simp: connectTurn_def Let_def dest!: leave_effects dest: connectFailed_listeners split: sum.splits prod.splits option.splits)

lemma clientTurn_listeners:
  "clientTurn cfg t st = (r, eff, st') \<Longrightarrow> r = LeaveLoop \<or> r = Return x \<Longrightarrow> ListenerClose ` set (ls_all (cr_listeners st')) \<subseteq> set eff"
  by (auto simp: clientTurn_def Let_def dest!: leave_effects dest: connectTurn_listeners split: if_splits sum.splits prod.splits)

text \<open>The table of devices built from a list with distinct identifiers.\<close>

lemma fold_devices_other: "i \<notin> dev_ID ` set ds \<Longrightarrow> fold (\<lambda>d m. m(dev_ID d \<mapsto> d)) ds m i = m i"
  by (induction ds arbitrary: m) auto

lemma fold_devices: "distinct (map dev_ID ds) \<Longrightarrow> d \<in> set ds \<Longrightarrow> fold (\<lambda>d m. m(dev_ID d \<mapsto> d)) ds m (dev_ID d) = Some d"
  by (induction ds arbitrary: m) (auto simp: fold_devices_other)

lemma chosen_device:
  assumes "scan enableErr True True results ending = (Inr devices, reported)" and "k < length reported" and "Atoi (TrimSpace line) = Some (int k + 1)"
  shows "\<exists>d \<in> set devices. dev_ID d = dev_ID (reported ! k) \<and> chooseDeviceLine (Inr devices, reported) (Inr line) = Inr d"
proof -
  note lists = scan_lists [OF assms(1)]
  have "dev_ID (reported ! k) \<in> dev_ID ` set reported" using assms(2) by simp
  then obtain d where d: "d \<in> set devices" "dev_ID d = dev_ID (reported ! k)" using lists by auto
  have "fold (\<lambda>d m. m(dev_ID d \<mapsto> d)) devices Map.empty (dev_ID (reported ! k)) = Some d"
    using fold_devices [of devices d Map.empty] lists d by simp
  then have "chooseDeviceLine (Inr devices, reported) (Inr line) = Inr d"
    using assms(2,3) by (auto simp: chooseDeviceLine_def)
  then show ?thesis using d by blast
qed

lemma chosen_number:
  assumes "chooseDeviceLine (Inr devices, reported) (Inr line) = Inr d"
  shows "\<exists>k < length reported. Atoi (TrimSpace line) = Some (int k + 1)"
proof -
  obtain n where n: "Atoi (TrimSpace line) = Some n" "1 \<le> n" "n \<le> len reported"
    using assms by (auto simp: chooseDeviceLine_def Let_def split: if_splits option.splits)
  then show ?thesis by (intro exI [of _ "nat (n - 1)"]) auto
qed

section \<open>Properties\<close>

text \<open>
  C17: the client has one session at a time and leaves none open. In every reachable state of a run, every session the client has left for
  another, or left for good, has its link and its multiplexer closed; once the client has returned, that holds for the last one too. This covers
  ended links, forgotten sessions, cancelled contexts, failing benchmarks and failing service discovery.
\<close>

theorem client_one_session:
  assumes "client_initial cfg w0" and "(client_step cfg)\<^sup>*\<^sup>* w0 w"
  shows "(\<forall>(s, m) \<in> set (cw_past w). s_done s \<and> m_done m)
     \<and> (cw_result w \<noteq> None \<longrightarrow> s_done (cr_linkSession (cw_run w)) \<and> m_done (cr_muxSession (cw_run w)))"
  using client_runs.run_inv [OF assms] by (simp add: client_ok_def)

text \<open>
  A turn of the client accounts for what it opened. A connection it got is bound to the link session, and the loop goes on with it, or it is
  closed, unless the handshake is still under way; and when the turn leaves the loop or returns, every TCP listener is closed.
\<close>

theorem client_turn_accounts:
  assumes "clientTurn cfg t st = (r, eff, st')" and "r \<noteq> InHandshake"
  shows "(\<forall>conn. Connected conn \<in> set eff \<longrightarrow>
            OnLink (ConnClose conn) \<in> set eff \<or> r = NextTurn \<and> (\<exists>b. current (cr_linkSession st') = Some b \<and> b_conn b = conn))
     \<and> (r = LeaveLoop \<or> (\<exists>e. r = Return e) \<longrightarrow> (\<forall>n \<in> set (ls_all (cr_listeners st')). ListenerClose n \<in> set eff))"
  using clientTurn_kept [OF assms(1)] clientTurn_listeners [OF assms(1)] assms(2) by (auto simp: conn_kept_def bound_to_def)

text \<open>
  Choosing a server by its number gives the server shown under that number. After a scan, however it ended, entering the number of a
  line selects a device of the scan's result with the identifier printed on that line, and every line that selects anything is
  such a number.
\<close>

theorem line_choice_is_shown:
  assumes "scan enableErr True True results ending = (Inr devices, reported)"
  shows "(\<forall>k line. k < length reported \<and> Atoi (TrimSpace line) = Some (int k + 1) \<longrightarrow>
            (\<exists>d \<in> set devices. dev_ID d = dev_ID (reported ! k) \<and> dev_LightningBNB d \<and> chooseDeviceLine (Inr devices, reported) (Inr line) = Inr d))
     \<and> (\<forall>line d. chooseDeviceLine (Inr devices, reported) (Inr line) = Inr d \<longrightarrow> (\<exists>k < length reported. Atoi (TrimSpace line) = Some (int k + 1)))"
proof (intro conjI allI impI)
  fix k line assume "k < length reported \<and> Atoi (TrimSpace line) = Some (int k + 1)"
  then obtain d where "d \<in> set devices" "dev_ID d = dev_ID (reported ! k)" "chooseDeviceLine (Inr devices, reported) (Inr line) = Inr d"
    using chosen_device [OF assms] by blast
  then show "\<exists>d \<in> set devices. dev_ID d = dev_ID (reported ! k) \<and> dev_LightningBNB d \<and> chooseDeviceLine (Inr devices, reported) (Inr line) = Inr d"
    using scan_lists [OF assms] by auto
qed (rule chosen_number)

subsection \<open>Witnesses\<close>

definition sample_client :: ClientConfig where
  "sample_client = \<lparr>cl_ListenHost = ''127.0.0.1'', cl_ListenPort = 8022, cl_Services = [], cl_AllServices = False, cl_DeviceID = ''LBNB-1'',
     cl_ScanTimeout = 0, cl_ResumeTimeout = 0, cl_MaxConnections = 4, cl_StatsInterval = 0, cl_StatsTUI = False, cl_Compression = False,
     cl_TransportDebug = False, cl_Benchmark = None, cl_SuppressListenAddr = False, cl_Interactive = False\<rparr>"

definition sample_start :: clientWorld where
  "sample_start = clientBegin sample_client (addListener '''' 5 noListeners) ''LBNB-1'' (Some sample_device)
     (NewSessionWithID (replicate 16 7) (clientSessionConfig sample_client)) None (\<lambda>_. False)"

definition sample_turn :: client_turn where
  "sample_turn = \<lparr>ti_ctxDone = False, ti_benchmark = None, ti_pick = False, ti_find = Inl (ServerNotFound ''LBNB-1''),
     ti_connect = Inr (\<lparr>conn_ref = 3, conn_MTU = 100\<rparr>, ''LBNB-1''), ti_handshake = [HsSend (Some (Sentinel IOTimeout))], ti_now = 9,
     ti_services = Inr [], ti_listen = [], ti_waited = True\<rparr>"

lemma sample_initial: "client_initial sample_client sample_start"
proof -
  have "NewSession (Inr (replicate 16 7)) (clientSessionConfig sample_client) = Inr (NewSessionWithID (replicate 16 7) (clientSessionConfig sample_client))"
    by (simp add: NewSession_def)
  then show ?thesis unfolding client_initial_def sample_start_def by blast
qed

lemma sample_leaves:
  "clientTurn sample_client (sample_turn\<lparr>ti_ctxDone := True\<rparr>) (cw_run sample_start) = leave LeaveLoop [] (cw_run sample_start)"
  by (simp add: clientTurn_def)

theorem client_one_session_witness:
  "\<exists>w. (client_step sample_client)\<^sup>*\<^sup>* sample_start w \<and> cw_result w = Some None \<and> s_done (cr_linkSession (cw_run w)) \<and> m_done (cr_muxSession (cw_run w))"
proof -
  obtain eff st where run: "clientTurn sample_client (sample_turn\<lparr>ti_ctxDone := True\<rparr>) (cw_run sample_start) = (LeaveLoop, eff, st)"
    unfolding sample_leaves using leave_effects [of LeaveLoop "[]"] by (metis surj_pair)
  let ?w = "(leaveSession st sample_start)\<lparr>cw_result := Some None\<rparr>"
  have "client_step sample_client sample_start ?w"
    by (rule client_step.cancelled [OF _ run]) (simp_all add: sample_start_def clientBegin_def)
  then have "(client_step sample_client)\<^sup>*\<^sup>* sample_start ?w" by (rule r_into_rtranclp)
  then show ?thesis using client_one_session [OF sample_initial, of ?w] by (intro exI [of _ ?w]) simp
qed

lemmas client_eval = clientTurn_def connectTurn_def nextDevice_def learnID_def benchmarkEnded_def connectFailed_def
  BindClient_def bindClientHello_def IsBound_def NewSessionWithID_def clientBegin_def sample_start_def sample_turn_def sample_client_def sample_device_def

theorem client_turn_accounts_witness:
  "OnLink (ConnClose \<lparr>conn_ref = 3, conn_MTU = 100\<rparr>) \<in> set (fst (snd (clientTurn sample_client sample_turn (cw_run sample_start))))"
proof -
  obtain r eff st where run: "clientTurn sample_client sample_turn (cw_run sample_start) = (r, eff, st)" by (metis surj_pair)
  have "r = NextTurn" "Connected \<lparr>conn_ref = 3, conn_MTU = 100\<rparr> \<in> set eff" "current (cr_linkSession st) = None"
    using run by (auto simp: client_eval)
  then show ?thesis using client_turn_accounts [OF run] run by auto
qed

theorem line_choice_is_shown_witness:
  "scan None True True sample_adverts (ScanReturned None) = (Inr [sample_device], [sample_device])
   \<and> chooseDeviceLine (Inr [sample_device], [sample_device]) (Inr ''1'') = Inr sample_device"
proof -
  have "Atoi (TrimSpace ''1'') = Some (int 0 + 1)"
    using TrimSpace_visible [of "''1''"] by (simp add: visible_def Atoi_def is_digit_def decimal_def)
  then show ?thesis using line_choice_is_shown [OF sample_scan] sample_scan by fastforce
qed

end
