(* ===== verification/Queries.thy ===== *)
theory Queries
  imports Client_App "HOL-Library.Product_Lexorder" "HOL-Library.List_Lexorder" "HOL-Library.Char_ord" "HOL-Library.Multiset"
begin

text \<open>
  The commands that only ask: \<open>scan\<close> with the order in which it lists devices (\<open>internal/app/scan.go\<close>), \<open>services\<close>
  (\<open>internal/app/list_services.go\<close>) and the probe of the server picker (\<open>discoverPickerServices\<close> in \<open>internal/app/picker.go\<close>). The two
  latter connect, bind a session of their own, ask its multiplexer for the service list and give everything up again.
\<close>

section \<open>Listing devices\<close>

definition devicesLess :: "Device \<Rightarrow> Device \<Rightarrow> bool" where
  "devicesLess a b = (if dev_RSSI a \<noteq> dev_RSSI b then dev_RSSI a > dev_RSSI b else dev_ID a < dev_ID b)"

text \<open>
  \<open>sort.Slice\<close> with that order: the strongest signal first, then by identifier. Go compares strings by their bytes.
\<close>

definition sortDevices :: "Device list \<Rightarrow> Device list" where
  "sortDevices devices = sort_key (\<lambda>d. (- dev_RSSI d, dev_ID d)) devices"

definition scanLine :: "Device \<Rightarrow> string" where
  "scanLine device =
     (if dev_ServerID device = '''' then ''(unavailable)'' else dev_ServerID device) @ [CHR 0x09] @ dev_ID device @ [CHR 0x09]
       @ itoa (dev_RSSI device) @ [CHR 0x09] @ deviceDisplayName device"

fun joinComma :: "string list \<Rightarrow> string" where
  "joinComma [] = ''''"
| "joinComma [s] = s"
| "joinComma (s # rest) = s @ '','' @ joinComma rest"

definition advertisementLine :: "Device \<Rightarrow> string" where
  "advertisementLine device =
     (let name0 = map (\<lambda>c. if c = CHR 0x09 then CHR '' '' else c) (dev_Name device);
          name = (if name0 = '''' then ''(unnamed)'' else name0) in
      dev_ID device @ [CHR 0x09] @ itoa (dev_RSSI device) @ [CHR 0x09] @ (if dev_LightningBNB device then ''true'' else ''false'') @ [CHR 0x09]
        @ name @ [CHR 0x09] @ joinComma (dev_ServiceUUIDs device) @ [CHR 0x09] @ joinComma (dev_ServiceData device) @ [CHR 0x09]
        @ joinComma (dev_ManufacturerData device))"

text \<open>
  The lines of \<open>Scan\<close>: \<open>found\<close> is the result of the scan and what it reported on the way, which is printed only with \<open>all\<close>.
\<close>

definition scanOutput :: "bool \<Rightarrow> (go_error + Device list) \<times> Device list \<Rightarrow> string list \<times> go_error option" where
  "scanOutput all found =
     (case found of (result, reported) \<Rightarrow>
        let shown = (if all then
              (''ID'' @ [CHR 0x09] @ ''RSSI'' @ [CHR 0x09] @ ''LIGHTNINGBNB'' @ [CHR 0x09] @ ''NAME'' @ [CHR 0x09] @ ''SERVICE_UUIDS'' @ [CHR 0x09]
                 @ ''SERVICE_DATA'' @ [CHR 0x09] @ ''MANUFACTURER_DATA'') # map advertisementLine reported else []) in
        case result of
          Inl e \<Rightarrow> (shown, Some e)
        | Inr devices0 \<Rightarrow>
            let devices = sortDevices devices0 in
            if devices = [] then (shown @ [if all then ''No BLE advertisements found.'' else ''No LightningBNB servers found.''], None)
            else if all then (shown, None)
            else ((''SERVER_ID'' @ [CHR 0x09] @ ''PLATFORM_ID'' @ [CHR 0x09] @ ''RSSI'' @ [CHR 0x09] @ ''NAME'') # map scanLine devices, None))"

section \<open>Asking for services\<close>

text \<open>
  What a query meets: \<open>Connect\<close> (the connection and its server's identifier), the random session identifier, the events of the handshake,
  and the result of \<open>Services\<close>.
\<close>

record query =
  qu_connect :: "go_error + PacketConn \<times> string"
  qu_random :: "go_error + SessionID"
  qu_handshake :: "hs_event list"
  qu_now :: instant
  qu_services :: "go_error + Service list"

definition queryConfig :: "duration \<Rightarrow> Config" where
  "queryConfig resumeTimeout =
     emptyConfig\<lparr>ResumeTimeout := resumeTimeout, ReplayWindow := DefaultReplayWindow, MaxConnections := DefaultMaxConnections\<rparr>"

text \<open>
  The common course of both queries, with the messages each puts before an error: connecting, handshake, service list. The deferred
  calls close the multiplexer with its link, and the connection. \<open>None\<close> while the handshake is under way.
\<close>

definition queryServices :: "string \<times> string \<times> string \<Rightarrow> duration \<Rightarrow> query \<Rightarrow> (go_error + Service list) option \<times> link_effect list" where
  "queryServices texts resumeTimeout q =
     (case texts of (connectText, handshakeText, servicesText) \<Rightarrow>
        (case qu_connect q of
           Inl e \<Rightarrow> (Some (Inl (Wrapped connectText e '''')), [])
         | Inr (conn, connectedID) \<Rightarrow>
             (case NewSession (qu_random q) (queryConfig resumeTimeout) of
                Inl e \<Rightarrow> (Some (Inl e), [ConnClose conn])
              | Inr s \<Rightarrow>
                  (case BindClient (Some conn) (qu_handshake q) (qu_now q) s of
                     None \<Rightarrow> (None, [])
                   | Some (Some e, eff, s1) \<Rightarrow> (Some (Inl (Wrapped handshakeText e '''')), eff @ fst (Close s1) @ [ConnClose conn])
                   | Some (None, eff, s1) \<Rightarrow>
                       (Some (case qu_services q of Inl e \<Rightarrow> Inl (Wrapped servicesText e '''') | Inr services \<Rightarrow> Inr services),
                        eff @ fst (Close s1) @ [ConnClose conn])))))"

definition discoverPickerServices :: "query \<Rightarrow> (go_error + Service list) option \<times> link_effect list" where
  "discoverPickerServices q = queryServices (''connect: '', ''handshake: '', ''read service list: '') DefaultResumeTimeout q"

definition serviceLine :: "Service \<Rightarrow> string" where
  "serviceLine service =
     (let target = itoa (svc_Port service) in
      (if svc_Name service = '''' then ''(default)'' else svc_Name service) @ [CHR 0x09]
        @ (if svc_Host service \<noteq> '''' then JoinHostPort (svc_Host service) target else target))"

text \<open>
  \<open>ListServices\<close> after the device is known, from a choice or from \<open>Find\<close>: the error, or the lines printed.
\<close>

definition listDevice :: "string \<Rightarrow> bool \<Rightarrow> go_error + Device \<Rightarrow> go_error + Device \<Rightarrow> go_error + string \<times> Device" where
  "listDevice deviceID interactive chosen found =
     (if deviceID = '''' then
        (if \<not> interactive then Inl (ErrorText ''--device is required when stdin is not an interactive terminal'')
         else case chosen of
                Inl e \<Rightarrow> Inl e
              | Inr d \<Rightarrow> Inr (if dev_ServerID d = '''' then dev_ID d else dev_ServerID d, d))
      else case found of Inl e \<Rightarrow> Inl (Wrapped ''discover server: '' e '''') | Inr d \<Rightarrow> Inr (deviceID, d))"

definition ListServices :: "string \<Rightarrow> bool \<Rightarrow> go_error + Device \<Rightarrow> go_error + Device \<Rightarrow> query \<Rightarrow> (go_error + string list) option \<times> link_effect list" where
  "ListServices deviceID0 interactive chosen found q =
     (case listDevice deviceID0 interactive chosen found of
        Inl e \<Rightarrow> (Some (Inl e), [])
      | Inr (deviceID1, device) \<Rightarrow>
          let deviceID = (case qu_connect q of Inr (conn, connectedID) \<Rightarrow> if connectedID \<noteq> '''' then connectedID else deviceID1 | Inl e \<Rightarrow> deviceID1) in
          case queryServices (''connect to server: '', ''connect session: '', ''read services: '') (60 * Base.second) q of
            (r, eff) \<Rightarrow>
              (map_option (\<lambda>r. case r of
                   Inl e \<Rightarrow> Inl e
                 | Inr services \<Rightarrow> Inr ((''SERVER_ID='' @ deviceID) # (''NAME'' @ [CHR 0x09] @ ''TARGET'') # map serviceLine services)) r, eff))"

section \<open>Lemmas\<close>

lemma devicesLess_key: "devicesLess a b \<longleftrightarrow> (- dev_RSSI a, dev_ID a) < (- dev_RSSI b, dev_ID b)"
  by (auto simp: devicesLess_def less_prod_def)

lemma sortDevices_mset: "mset (sortDevices ds) = mset ds"
  by (simp add: sortDevices_def)

lemma key_inj: "distinct (map dev_ID ds) \<Longrightarrow> inj_on (\<lambda>d. (- dev_RSSI d, dev_ID d)) (set ds)"
  by (auto simp: distinct_map inj_on_def)

lemma not_less_sorted: "sorted_wrt (\<lambda>a b. \<not> devicesLess b a) ds \<Longrightarrow> sorted (map (\<lambda>d. (- dev_RSSI d, dev_ID d)) ds)"
  by (rule sorted_wrt_mono_rel [where P = "\<lambda>a b. \<not> devicesLess b a", THEN sorted_map [THEN iffD2]]) (auto simp: devicesLess_key not_less)

text \<open>A query that is over has closed its connection.\<close>

lemma query_closes:
  assumes "queryServices texts timeout q = (Some r, eff)" and "qu_connect q = Inr (conn, sid)"
  shows "ConnClose conn \<in> set eff"
  using assms by (auto simp: queryServices_def split: prod.splits sum.splits option.splits)

lemma query_before_connect: "queryServices texts timeout q = (r, eff) \<Longrightarrow> qu_connect q = Inl e \<Longrightarrow> eff = [] \<and> (\<exists>x. r = Some (Inl x))"
  by (auto simp: queryServices_def split: prod.splits)

section \<open>Properties\<close>

text \<open>
  C34: the order in which \<open>scan\<close> lists devices is determined by the comparison alone. Whatever algorithm \<open>sort.Slice\<close> uses, a list
  with the same devices in which no later device is less than an earlier one is \<open>sortDevices\<close>, as the devices of a scan have distinct
  identifiers.
\<close>

theorem sort_devices_unique:
  assumes "distinct (map dev_ID devices)" and "mset sorted_devices = mset devices"
    and "sorted_wrt (\<lambda>a b. \<not> devicesLess b a) sorted_devices"
  shows "sorted_devices = sortDevices devices"
proof -
  let ?key = "\<lambda>d. (- dev_RSSI d, dev_ID d)"
  have set: "set sorted_devices = set devices" using assms(2) by (rule mset_eq_setD)
  have "sort (map ?key devices) = map ?key sorted_devices"
    using not_less_sorted [OF assms(3)] by (intro properties_for_sort) (simp_all only: mset_map assms(2))
  moreover have "sort (map ?key devices) = map ?key (sortDevices devices)"
    by (intro properties_for_sort) (simp_all only: mset_map sortDevices_mset, simp add: sortDevices_def)
  ultimately have "map ?key sorted_devices = map ?key (sortDevices devices)" by simp
  then show ?thesis
    by (rule map_inj_on) (use key_inj [OF assms(1)] in \<open>simp add: set sortDevices_def\<close>)
qed

text \<open>
  Asking a server for its services leaves nothing behind. A query of the picker or of the \<open>services\<close> command that has returned, with a list or
  with an error, has closed the connection it opened; one that could not connect has nothing to close.
\<close>

theorem queries_leave_nothing:
  assumes "qu_connect q = Inr (conn, sid)" and "discoverPickerServices q = (Some r, eff)"
    and "ListServices deviceID interactive chosen found q = (Some r', eff')"
  shows "ConnClose conn \<in> set eff \<and> (eff' = [] \<and> (\<exists>e. r' = Inl e) \<or> ConnClose conn \<in> set eff')"
proof
  show "ConnClose conn \<in> set eff" using query_closes assms(1,2) by (auto simp: discoverPickerServices_def)
  show "eff' = [] \<and> (\<exists>e. r' = Inl e) \<or> ConnClose conn \<in> set eff'"
  proof (cases "listDevice deviceID interactive chosen found")
    case (Inl e)
    then show ?thesis using assms(3) by (auto simp: ListServices_def)
  next
    case (Inr d)
    then obtain x where "queryServices (''connect to server: '', ''connect session: '', ''read services: '') (60 * Base.second) q = (Some x, eff')"
      using assms(3) by (auto simp: ListServices_def Let_def split: prod.splits)
    then show ?thesis using query_closes assms(1) by blast
  qed
qed

subsection \<open>Witnesses\<close>

theorem sort_devices_unique_witness:
  "sortDevices [sample_device, sample_device\<lparr>dev_ID := ''bb'', dev_RSSI := -30\<rparr>]
     = [sample_device\<lparr>dev_ID := ''bb'', dev_RSSI := -30\<rparr>, sample_device]"
  using sort_devices_unique [of "[sample_device, sample_device\<lparr>dev_ID := ''bb'', dev_RSSI := -30\<rparr>]"
      "[sample_device\<lparr>dev_ID := ''bb'', dev_RSSI := -30\<rparr>, sample_device]"]
  by (simp add: sample_device_def devicesLess_def add_mset_commute)

definition sample_query :: query where
  "sample_query = \<lparr>qu_connect = Inr (\<lparr>conn_ref = 3, conn_MTU = 100\<rparr>, ''''), qu_random = Inr (replicate 16 7),
     qu_handshake = [HsSend None, HsSend None, HsRecvClosed], qu_now = 9, qu_services = Inr []\<rparr>"

lemma sample_query_fails:
  "BindClient (Some \<lparr>conn_ref = 3, conn_MTU = 100\<rparr>) (qu_handshake sample_query) 9 (NewSessionWithID sid cfg)
     = Some (Some (ErrorText ''BLE connection closed during handshake''), [], NewSessionWithID sid cfg)"
  by (simp add: BindClient_def bindClientHello_def sample_query_def NewSessionWithID_def)

theorem queries_leave_nothing_witness:
  "ConnClose \<lparr>conn_ref = 3, conn_MTU = 100\<rparr> \<in> set (snd (discoverPickerServices sample_query))"
proof -
  obtain r eff r' eff' where run: "discoverPickerServices sample_query = (Some r, eff)"
      "ListServices ''x'' False (Inr sample_device) (Inr sample_device) sample_query = (Some r', eff')"
    using sample_query_fails [of "replicate 16 7"]
    by (simp add: discoverPickerServices_def ListServices_def listDevice_def queryServices_def NewSession_def sample_query_def)
  have "qu_connect sample_query = Inr (\<lparr>conn_ref = 3, conn_MTU = 100\<rparr>, '''')" by (simp add: sample_query_def)
  from queries_leave_nothing [OF this run] show ?thesis using run by simp
qed

end
