(* ===== verification/Server_App.thy ===== *)
theory Server_App
  imports Reliable Mux_Run Go_Strings
begin

text \<open>
  The server command, \<open>internal/app/server.go\<close>: starting the Bluetooth server with its retries and recoveries, and the loop of
  \<open>RunServer\<close> that gives a connection to the one resumable session. It composes the handshake, the link session and the
  multiplexer. The results of the Bluetooth stack are arguments; the reporters are those of \<open>Monitoring\<close> and \<open>Console\<close>. \<open>Server_Run\<close> puts
  the whole of \<open>RunServer\<close> together.
\<close>

section \<open>Configuration\<close>

text \<open>The output is not part of the record: what is written is a result.\<close>

record ServerConfig =
  sc_TargetHost :: string
  sc_TargetPort :: int
  sc_Services :: "Service list"
  sc_Name :: string
  sc_DialTimeout :: duration
  sc_ResumeTimeout :: duration
  sc_MaxConnections :: int
  sc_StatsInterval :: duration
  sc_StatsTUI :: bool
  sc_Benchmark :: bool
  sc_Compression :: bool
  sc_TransportDebug :: bool
  sc_PreventSleep :: bool
  sc_SkipBLEChecks :: bool
  sc_DisableBLERecovery :: bool
  sc_ServerIDFile :: string

text \<open>The target that is logged and served when no service is configured, and the services a session advertises.\<close>

definition serverTarget :: "ServerConfig \<Rightarrow> string" where
  "serverTarget cfg =
     (if sc_Benchmark cfg then ''''
      else case sc_Services cfg of
             [] \<Rightarrow> JoinHostPort (sc_TargetHost cfg) (itoa (sc_TargetPort cfg))
           | s # _ \<Rightarrow> JoinHostPort (sc_TargetHost cfg) (itoa (svc_Port s)))"

definition serverServices :: "ServerConfig \<Rightarrow> Service list" where
  "serverServices cfg =
     (if sc_Services cfg = [] \<and> \<not> sc_Benchmark cfg then [\<lparr>svc_Name = '''', svc_Host = '''', svc_Port = sc_TargetPort cfg\<rparr>] else sc_Services cfg)"

section \<open>Starting the Bluetooth server\<close>

datatype bleRecoveryAction = bleRecoveryNone | bleRecoveryRadio | bleRecoveryServices

definition selectBLERecovery :: "string \<Rightarrow> bool \<Rightarrow> bool \<Rightarrow> bool \<Rightarrow> bool \<Rightarrow> bool \<Rightarrow> bleRecoveryAction" where
  "selectBLERecovery goos disabled contextActive advertisementAborted radioAttempted servicesAttempted =
     (if goos \<noteq> ''windows'' \<or> disabled \<or> \<not> contextActive \<or> \<not> advertisementAborted then bleRecoveryNone
      else if \<not> radioAttempted then bleRecoveryRadio
      else if \<not> servicesAttempted then bleRecoveryServices
      else bleRecoveryNone)"

text \<open>
  What one attempt meets: the result of starting, whether the error is an aborted advertisement, the context's error before and after a recovery,
  the results of the recoveries, and the context's error if it ends the wait.
\<close>

record ble_attempt =
  at_start :: "go_error + nat"
  at_aborted :: bool
  at_ctx :: "go_error option"
  at_radio :: "go_error option"
  at_services :: "go_error option"
  at_ctx2 :: "go_error option"
  at_wait :: "go_error option"

datatype ble_action = TryStart | ResetRadio | RestartServices | WaitFor duration

definition startAttempts :: nat where "startAttempts = 4"

text \<open>\<open>None\<close> when the outcomes given run out before the loop ends.\<close>

fun startBLE ::
  "string \<Rightarrow> bool \<Rightarrow> nat \<Rightarrow> bool \<Rightarrow> bool \<Rightarrow> go_error option \<Rightarrow> ble_attempt list \<Rightarrow> (go_error option + nat) option \<times> ble_action list" where
  "startBLE goos disabled attempt radio services err [] =
     (if attempt > startAttempts then (Some (Inl err), []) else (None, []))"
| "startBLE goos disabled attempt radio services err (a # rest) =
     (if attempt > startAttempts then (Some (Inl err), [])
      else
        case at_start a of
          Inr listener \<Rightarrow> (Some (Inr listener), [TryStart])
        | Inl e \<Rightarrow>
            let action = selectBLERecovery goos disabled (at_ctx a = None) (at_aborted a) radio services;
                radio' = (radio \<or> action = bleRecoveryRadio);
                services' = (services \<or> action = bleRecoveryServices);
                did = (case action of bleRecoveryNone \<Rightarrow> [] | bleRecoveryRadio \<Rightarrow> [ResetRadio] | bleRecoveryServices \<Rightarrow> [RestartServices]);
                recovered = (case action of bleRecoveryNone \<Rightarrow> False | bleRecoveryRadio \<Rightarrow> at_radio a = None | bleRecoveryServices \<Rightarrow> at_services a = None) in
            if recovered then
              (case startBLE goos disabled (attempt + 1) radio' services' (Some e) rest of (r, acts) \<Rightarrow> (r, TryStart # did @ acts))
            else if goos \<noteq> ''windows'' \<or> attempt = startAttempts \<or> at_ctx2 a \<noteq> None then (Some (Inl (Some e)), TryStart # did)
            else
              let delay = 2 ^ (attempt - 1) * Base.second in
              case at_wait a of
                Some c \<Rightarrow> (Some (Inl (Some c)), TryStart # did @ [WaitFor delay])
              | None \<Rightarrow>
                  (case startBLE goos disabled (attempt + 1) radio' services' (Some e) rest of
                     (r, acts) \<Rightarrow> (r, TryStart # did @ [WaitFor delay] @ acts)))"

definition startBLEServer :: "string \<Rightarrow> bool \<Rightarrow> ble_attempt list \<Rightarrow> (go_error option + nat) option \<times> ble_action list" where
  "startBLEServer goos disableBLERecovery outcomes = startBLE goos disableBLERecovery 1 False False None outcomes"

section \<open>The loop over connections\<close>

record serverRun =
  sv_link :: "Session option"
  sv_mux :: "Mux option"

definition serverSessionConfig :: "ServerConfig \<Rightarrow> Hello \<Rightarrow> Config" where
  "serverSessionConfig cfg hello =
     emptyConfig\<lparr>ResumeTimeout := sc_ResumeTimeout cfg, ReplayWindow := DefaultReplayWindow, MaxConnections := sc_MaxConnections cfg,
                 Compression := hello_Compression hello\<rparr>"

text \<open>A session that has ended is forgotten before the next HELLO is looked at.\<close>

definition dropEnded :: "serverRun \<Rightarrow> serverRun" where
  "dropEnded st = (case sv_link st of Some s \<Rightarrow> if s_done s then \<lparr>sv_link = None, sv_mux = None\<rparr> else st | None \<Rightarrow> st)"

definition rejectConn :: "PacketConn \<Rightarrow> string \<Rightarrow> link_effect list" where
  "rejectConn conn reason = [ConnSend conn (rejectPacket reason), ConnClose conn]"

text \<open>The session for a HELLO: the current one, or a new one; the flag is \<open>createdSession\<close>.\<close>

definition sessionFor :: "ServerConfig \<Rightarrow> Counter option \<Rightarrow> (nat \<Rightarrow> bool) \<Rightarrow> Hello \<Rightarrow> serverRun \<Rightarrow> bool \<times> Session \<times> Mux option" where
  "sessionFor cfg counter pick hello st =
     (case sv_link st of
        Some s \<Rightarrow> (False, s, sv_mux st)
      | None \<Rightarrow>
          (True, NewSessionWithID (hello_ID hello) (serverSessionConfig cfg hello),
           Some (newServerWithServices (sc_MaxConnections cfg) (hello_Compression hello) counter (serverServices cfg) pick)))"

text \<open>One turn of \<open>RunServer\<close> with an accepted connection: the result of \<open>ReadHello\<close>, and of sending the reply in \<open>BindServer\<close>.\<close>

definition serverTurn ::
  "ServerConfig \<Rightarrow> Counter option \<Rightarrow> (nat \<Rightarrow> bool) \<Rightarrow> PacketConn \<Rightarrow> go_error + Hello \<Rightarrow> go_error option \<Rightarrow> instant \<Rightarrow> serverRun
   \<Rightarrow> link_effect list \<times> serverRun" where
  "serverTurn cfg counter pick conn helloRead sendResult now st0 =
     (case helloRead of
        Inl e \<Rightarrow> ([ConnClose conn], st0)
      | Inr hello \<Rightarrow>
          let st = dropEnded st0 in
          if (case sv_link st of Some s \<Rightarrow> \<not> Matches s (hello_ID hello) | None \<Rightarrow> False) then (rejectConn conn ''server busy'', st)
          else if hello_Compression hello \<and> \<not> sc_Compression cfg then (rejectConn conn ''compression off'', st)
          else
            case sessionFor cfg counter pick hello st of (created, s, m) \<Rightarrow>
              (case BindServer conn hello sendResult now s of
                 (Some e, eff, s1) \<Rightarrow>
                   if created then (eff @ rejectConn conn ''resume failed'' @ fst (Close s1), \<lparr>sv_link = None, sv_mux = None\<rparr>)
                   else (eff @ rejectConn conn ''resume failed'', st\<lparr>sv_link := Some s1\<rparr>)
               | (None, eff, s1) \<Rightarrow> (eff, \<lparr>sv_link = Some s1, sv_mux = m\<rparr>)))"

section \<open>Lemmas\<close>

text \<open>A failed attempt: one start, the recovery it chose, perhaps a wait, perhaps another attempt.\<close>

definition recovery :: "bleRecoveryAction \<Rightarrow> ble_action list" where
  "recovery action = (case action of bleRecoveryNone \<Rightarrow> [] | bleRecoveryRadio \<Rightarrow> [ResetRadio] | bleRecoveryServices \<Rightarrow> [RestartServices])"

lemma startBLE_failed:
  fixes radio services disabled :: bool and goos :: string
  assumes "n \<le> startAttempts" and "at_start a = Inl e"
  defines "action \<equiv> selectBLERecovery goos disabled (at_ctx a = None) (at_aborted a) radio services"
  obtains (ends) waits r where "set waits \<subseteq> range WaitFor" "startBLE goos disabled n radio services err (a # rest) = (Some r, TryStart # recovery action @ waits)"
  | (again) waits where "set waits \<subseteq> range WaitFor"
      "startBLE goos disabled n radio services err (a # rest)
       = (fst (startBLE goos disabled (n + 1) (radio \<or> action = bleRecoveryRadio) (services \<or> action = bleRecoveryServices) (Some e) rest),
          TryStart # recovery action @ waits @ snd (startBLE goos disabled (n + 1) (radio \<or> action = bleRecoveryRadio) (services \<or> action = bleRecoveryServices) (Some e) rest))"
proof -
  let ?next = "startBLE goos disabled (n + 1) (radio \<or> action = bleRecoveryRadio) (services \<or> action = bleRecoveryServices) (Some e) rest"
  let ?rec = "case action of bleRecoveryNone \<Rightarrow> False | bleRecoveryRadio \<Rightarrow> at_radio a = None | bleRecoveryServices \<Rightarrow> at_services a = None"
  let ?w = "WaitFor (2 ^ (n - 1) * Base.second)"
  have eq: "startBLE goos disabled n radio services err (a # rest) =
      (if ?rec then (fst ?next, TryStart # recovery action @ snd ?next)
       else if goos \<noteq> ''windows'' \<or> n = startAttempts \<or> at_ctx2 a \<noteq> None then (Some (Inl (Some e)), TryStart # recovery action)
       else case at_wait a of
              Some c \<Rightarrow> (Some (Inl (Some c)), TryStart # recovery action @ [?w])
            | None \<Rightarrow> (fst ?next, TryStart # recovery action @ [?w] @ snd ?next))"
    using assms(1,2) by (simp add: Let_def action_def [symmetric] recovery_def case_prod_unfold split: option.split)
  show thesis
  proof (cases "?rec")
    case True
    then have "startBLE goos disabled n radio services err (a # rest) = (fst ?next, TryStart # recovery action @ [] @ snd ?next)"
      unfolding eq by (simp del: startBLE.simps)
    then show thesis by (rule again [rotated]) simp
  next
    case False
    show thesis
    proof (cases "goos \<noteq> ''windows'' \<or> n = startAttempts \<or> at_ctx2 a \<noteq> None")
      case True
      then have "startBLE goos disabled n radio services err (a # rest) = (Some (Inl (Some e)), TryStart # recovery action @ [])"
        unfolding eq using False by (simp del: startBLE.simps)
      then show thesis by (rule ends [rotated]) simp
    next
      case stay: False
      show thesis
      proof (cases "at_wait a")
        case None
        then have "startBLE goos disabled n radio services err (a # rest) = (fst ?next, TryStart # recovery action @ [?w] @ snd ?next)"
          unfolding eq using False stay by (simp del: startBLE.simps)
        then show thesis by (rule again [rotated]) simp
      next
        case (Some c)
        then have "startBLE goos disabled n radio services err (a # rest) = (Some (Inl (Some c)), TryStart # recovery action @ [?w])"
          unfolding eq using False stay by (simp del: startBLE.simps)
        then show thesis by (rule ends [rotated]) simp
      qed
    qed
  qed
qed

definition times :: "ble_action \<Rightarrow> ble_action list \<Rightarrow> nat" where
  "times x acts = length (filter (\<lambda>a. a = x) acts)"

lemma times_simps [simp]: "times x [] = 0" "times x (a # as) = (if a = x then Suc (times x as) else times x as)" "times x (as @ bs) = times x as + times x bs"
  by (simp_all add: times_def)

lemma times_waits: "set waits \<subseteq> range WaitFor \<Longrightarrow> x \<notin> range WaitFor \<Longrightarrow> times x waits = 0"
  unfolding times_def by (auto simp: filter_empty_conv)

lemma times_recovery:
  "times TryStart (recovery a) = 0" "times ResetRadio (recovery a) = (if a = bleRecoveryRadio then 1 else 0)"
  "times RestartServices (recovery a) = (if a = bleRecoveryServices then 1 else 0)"
  by (cases a; simp add: recovery_def)+

lemma recovery_once:
  "selectBLERecovery goos d c ab radio services = bleRecoveryRadio \<Longrightarrow> \<not> radio"
  "selectBLERecovery goos d c ab radio services = bleRecoveryServices \<Longrightarrow> \<not> services"
  by (auto simp: selectBLERecovery_def split: if_splits)

lemma startBLE_bounds:
  "times TryStart (snd (startBLE goos disabled n radio services err outs)) \<le> Suc startAttempts - n
   \<and> times ResetRadio (snd (startBLE goos disabled n radio services err outs)) \<le> (if radio then 0 else 1)
   \<and> times RestartServices (snd (startBLE goos disabled n radio services err outs)) \<le> (if services then 0 else 1)"
proof (induction outs arbitrary: n radio services err)
  case Nil
  show ?case by simp
next
  case (Cons a rest)
  show ?case
  proof (cases "n \<le> startAttempts")
    case False
    then show ?thesis by simp
  next
    case le: True
    show ?thesis
    proof (cases "at_start a")
      case (Inr l)
      then show ?thesis using le by simp
    next
      case (Inl e)
      define act where "act = selectBLERecovery goos disabled (at_ctx a = None) (at_aborted a) radio services"
      have once: "act = bleRecoveryRadio \<Longrightarrow> \<not> radio" "act = bleRecoveryServices \<Longrightarrow> \<not> services"
        unfolding act_def using recovery_once by blast+
      have w: "times TryStart ws = 0 \<and> times ResetRadio ws = 0 \<and> times RestartServices ws = 0" if "set ws \<subseteq> range WaitFor" for ws
        using that by (auto intro!: times_waits)
      show ?thesis
      proof (cases rule: startBLE_failed [OF le Inl, of goos disabled radio services err rest, folded act_def])
        case (1 waits r)
        show ?thesis unfolding 1(2) using le w [OF 1(1)] once by (auto simp: times_recovery)
      next
        case (2 waits)
        show ?thesis unfolding 2(2)
          using Cons.IH [of "n + 1" "radio \<or> act = bleRecoveryRadio" "services \<or> act = bleRecoveryServices" "Some e"] le w [OF 2(1)] once
          by (auto simp: times_recovery split: if_splits)
      qed
    qed
  qed
qed

lemma startBLE_returns:
  "Suc startAttempts - n \<le> length outs \<Longrightarrow> fst (startBLE goos disabled n radio services err outs) \<noteq> None"
proof (induction outs arbitrary: n radio services err)
  case (Cons a rest)
  show ?case
  proof (cases "n \<le> startAttempts")
    case le: True
    show ?thesis
    proof (cases "at_start a")
      case (Inl e)
      show ?thesis
      proof (cases rule: startBLE_failed [OF le Inl, of goos disabled radio services err rest])
        case (2 waits)
        then show ?thesis using Cons by simp
      qed simp
    qed (use le in simp)
  qed simp
qed simp

section \<open>Properties\<close>

text \<open>
  C21: starting the Bluetooth server ends. Whatever each attempt meets, four outcomes are enough for \<open>startBLEServer\<close> to return; it tries to start at most four
  times, resets the radio at most once and restarts the Bluetooth services at most once.
\<close>

theorem start_ble_terminates:
  assumes "startBLEServer goos disabled outcomes = (r, acts)" and "4 \<le> length outcomes"
  shows "r \<noteq> None \<and> times TryStart acts \<le> 4 \<and> times ResetRadio acts \<le> 1 \<and> times RestartServices acts \<le> 1"
  using startBLE_bounds [of goos disabled 1 False False None outcomes] startBLE_returns [of 1 outcomes goos disabled False False None] assms
  by (simp add: startBLEServer_def startAttempts_def)

text \<open>
  C19: the server serves one session and never loses it to a connection. While its session lives, no connection replaces it or its multiplexer
  or changes the bytes it has received or accepted for sending, whether the connection resumes it, comes from another client, asks for
  compression the server does not allow, or fails; another client is told that the server is busy. Every connection ends up
  bound to the session or is closed.
\<close>

theorem server_keeps_session:
  assumes "serverTurn cfg counter pick conn helloRead sendResult now st = (eff, st')" and "sv_link st = Some s" and "\<not> s_done s"
  shows "sv_mux st' = sv_mux st \<and> (\<exists>s'. sv_link st' = Some s' \<and> same_stream s s')
     \<and> (\<forall>hello. helloRead = Inr hello \<and> hello_ID hello \<noteq> s_id s \<longrightarrow> st' = st \<and> eff = rejectConn conn ''server busy'')
     \<and> (ConnClose conn \<in> set eff \<or> (\<exists>s' b. sv_link st' = Some s' \<and> current s' = Some b \<and> b_conn b = conn))"
proof (cases helloRead)
  case (Inl e)
  then show ?thesis using assms by (auto simp: serverTurn_def)
next
  case (Inr hello)
  have st: "dropEnded st = st" using assms(2,3) by (simp add: dropEnded_def)
  show ?thesis
  proof (cases "Matches s (hello_ID hello) \<and> \<not> (hello_Compression hello \<and> \<not> sc_Compression cfg)")
    case False
    then have "st' = st \<and> ConnClose conn \<in> set eff \<and> (hello_ID hello \<noteq> s_id s \<longrightarrow> eff = rejectConn conn ''server busy'')"
      using assms Inr by (cases "Matches s (hello_ID hello)") (auto simp: serverTurn_def st Matches_def rejectConn_def)
    then show ?thesis using assms(2) Inr by simp
  next
    case True
    obtain e eff1 s1 where run: "BindServer conn hello sendResult now s = (e, eff1, s1)" by (metis surj_pair)
    note keep = BindServer_keeps [OF run]
    have same: "sessionFor cfg counter pick hello st = (False, s, sv_mux st)" using assms(2) by (simp add: sessionFor_def)
    show ?thesis
    proof (cases e)
      case None
      then have "eff = eff1" "st' = \<lparr>sv_link = Some s1, sv_mux = sv_mux st\<rparr>"
        using assms(1,2) Inr True by (auto simp: serverTurn_def st same run)
      then show ?thesis using keep None True Inr by (auto simp: Matches_def bound_to_def)
    next
      case (Some x)
      then have "eff = eff1 @ rejectConn conn ''resume failed''" "st' = st\<lparr>sv_link := Some s1\<rparr>"
        using assms(1,2) Inr True by (auto simp: serverTurn_def st same run)
      then show ?thesis using keep True Inr by (auto simp: Matches_def rejectConn_def)
    qed
  qed
qed

subsection \<open>Witnesses\<close>

theorem start_ble_terminates_witness:
  "fst (startBLEServer ''windows'' False (replicate 4 \<lparr>at_start = Inl (Sentinel IOTimeout), at_aborted = True, at_ctx = None, at_radio = None,
     at_services = None, at_ctx2 = None, at_wait = None\<rparr>)) \<noteq> None"
  (is "fst (startBLEServer _ _ ?outs) \<noteq> None")
  using start_ble_terminates [of "''windows''" False ?outs "fst (startBLEServer ''windows'' False ?outs)" "snd (startBLEServer ''windows'' False ?outs)"] by simp

definition sample_server :: ServerConfig where
  "sample_server = \<lparr>sc_TargetHost = ''localhost'', sc_TargetPort = 22, sc_Services = [], sc_Name = ''LightningBNB'', sc_DialTimeout = 0,
     sc_ResumeTimeout = 0, sc_MaxConnections = 4, sc_StatsInterval = 0, sc_StatsTUI = False, sc_Benchmark = False, sc_Compression = False,
     sc_TransportDebug = False, sc_PreventSleep = True, sc_SkipBLEChecks = False, sc_DisableBLERecovery = False, sc_ServerIDFile = ''id''\<rparr>"

theorem server_keeps_session_witness:
  "snd (serverTurn sample_server None (\<lambda>_. False) demo_conn (Inr (demo_hello\<lparr>hello_ID := replicate 16 9\<rparr>)) None 5 \<lparr>sv_link = Some demo_bound, sv_mux = None\<rparr>)
     = \<lparr>sv_link = Some demo_bound, sv_mux = None\<rparr>"
proof -
  let ?st = "\<lparr>sv_link = Some demo_bound, sv_mux = None\<rparr>" and ?h = "demo_hello\<lparr>hello_ID := replicate 16 9\<rparr>"
  obtain eff st' where run: "serverTurn sample_server None (\<lambda>_. False) demo_conn (Inr ?h) None 5 ?st = (eff, st')" by fastforce
  have "hello_ID ?h \<noteq> s_id demo_bound" "\<not> s_done demo_bound" by (simp_all add: demo_simps demo_id_def)
  then show ?thesis using server_keeps_session [OF run, of demo_bound] by (simp add: run)
qed

end
