(* ===== verification/Command_Line.thy ===== *)
theory Command_Line
  imports Benchmark Server_App Client_App
begin

text \<open>
  The command line, \<open>cmd/lightningbnb/main.go\<close>: what each subcommand checks of its flags and the configuration it passes on. The values
  of the flags after parsing, which the \<open>flag\<close> package does, are records with the defaults of the source; whether the input and the
  error output are terminals is an argument, and printing is not part of the model.
\<close>

datatype cli_error =
    CliError string
  | InvalidServiceFlag string
  | ServiceFlagPort string
  | CliConfig config_error
  | CliFailed go_error
  | UnknownSubcommand string

section \<open>Flags\<close>

record client_flags =
  fc_listenHost :: string
  fc_listenPort :: int
  fc_device :: string
  fc_scanTimeout :: duration
  fc_resumeTimeout :: duration
  fc_maxConnections :: int
  fc_statsInterval :: duration
  fc_compression :: bool
  fc_transportDebug :: bool
  fc_allServices :: bool
  fc_service :: "string list"

definition clientDefaults :: client_flags where
  "clientDefaults = \<lparr>fc_listenHost = ''127.0.0.1'', fc_listenPort = 0, fc_device = '''', fc_scanTimeout = 30 * Base.second,
     fc_resumeTimeout = 60 * Base.second, fc_maxConnections = 32, fc_statsInterval = Base.second, fc_compression = False, fc_transportDebug = False,
     fc_allServices = False, fc_service = []\<rparr>"

record server_flags =
  fs_targetHost :: string
  fs_targetPort :: int
  fs_name :: string
  fs_dialTimeout :: duration
  fs_resumeTimeout :: duration
  fs_maxConnections :: int
  fs_statsInterval :: duration
  fs_benchmark :: bool
  fs_compression :: bool
  fs_transportDebug :: bool
  fs_preventSleep :: bool
  fs_skipBLEChecks :: bool
  fs_noBLERecovery :: bool
  fs_serverIDFile :: string
  fs_service :: "string list"

definition serverDefaults :: server_flags where
  "serverDefaults = \<lparr>fs_targetHost = ''localhost'', fs_targetPort = 0, fs_name = ''LightningBNB'', fs_dialTimeout = 10 * Base.second,
     fs_resumeTimeout = 60 * Base.second, fs_maxConnections = 32, fs_statsInterval = Base.second, fs_benchmark = False, fs_compression = False,
     fs_transportDebug = False, fs_preventSleep = False, fs_skipBLEChecks = False, fs_noBLERecovery = False, fs_serverIDFile = '''', fs_service = []\<rparr>"

record benchmark_flags =
  fb_device :: string
  fb_scanTimeout :: duration
  fb_resumeTimeout :: duration
  fb_direction :: string
  fb_duration :: duration
  fb_setupTimeout :: duration
  fb_connections :: int
  fb_statsInterval :: duration
  fb_compression :: bool
  fb_transportDebug :: bool

definition benchmarkDefaults :: benchmark_flags where
  "benchmarkDefaults = \<lparr>fb_device = '''', fb_scanTimeout = 30 * Base.second, fb_resumeTimeout = 60 * Base.second, fb_direction = ''both'',
     fb_duration = 30 * Base.second, fb_setupTimeout = 30 * Base.second, fb_connections = 1, fb_statsInterval = Base.second, fb_compression = False,
     fb_transportDebug = False\<rparr>"

section \<open>Subcommands\<close>

definition deviceRequired :: cli_error where
  "deviceRequired = CliError ''--device is required when stdin is not an interactive terminal''"

definition scanCommand :: "duration \<Rightarrow> cli_error option" where
  "scanCommand timeout = (if timeout \<le> 0 then Some (CliError ''--timeout must be greater than zero'') else None)"

fun clientServiceFlags :: "string list \<Rightarrow> ClientService list \<Rightarrow> cli_error + ClientService list" where
  "clientServiceFlags [] services = Inr services"
| "clientServiceFlags (val # rest) services =
     (case Cut val CHR '':'' of (localPortText, remote0, ok) \<Rightarrow>
        let remote = TrimSpace remote0 in
        if \<not> ok \<or> localPortText = '''' \<or> remote = '''' then Inl (InvalidServiceFlag val)
        else case Atoi localPortText of
               None \<Rightarrow> Inl (ServiceFlagPort val)
             | Some localPort \<Rightarrow> clientServiceFlags rest (services @ [\<lparr>LocalPort = localPort, Remote = remote\<rparr>]))"

definition clientCommand :: "client_flags \<Rightarrow> bool \<Rightarrow> bool \<Rightarrow> cli_error + ClientConfig" where
  "clientCommand f interactive tui =
     (if fc_listenHost f = '''' then Inl (CliError ''--listen-host must not be empty'')
      else if fc_listenPort f < 0 \<or> fc_listenPort f > 65535 then Inl (CliError ''--listen-port must be between 0 and 65535'')
      else if fc_scanTimeout f \<le> 0 \<or> fc_resumeTimeout f \<le> 0 then Inl (CliError ''scan and resume timeouts must be greater than zero'')
      else if fc_maxConnections f \<le> 0 \<or> fc_maxConnections f > 65535 then Inl (CliError ''--max-connections must be between 1 and 65535'')
      else if fc_statsInterval f < 0 then Inl (CliError ''--stats-interval must not be negative'')
      else
        case clientServiceFlags (fc_service f) [] of
          Inl e \<Rightarrow> Inl e
        | Inr services \<Rightarrow>
            if services \<noteq> [] \<and> fc_listenPort f \<noteq> 0 then Inl (CliError ''--listen-port cannot be combined with --service'')
            else if fc_allServices f \<and> services \<noteq> [] then Inl (CliError ''--all-services cannot be combined with --service'')
            else if fc_allServices f \<and> fc_listenPort f \<noteq> 0 then Inl (CliError ''--listen-port cannot be combined with --all-services'')
            else if fc_device f = '''' \<and> \<not> interactive then Inl deviceRequired
            else Inr \<lparr>cl_ListenHost = fc_listenHost f, cl_ListenPort = fc_listenPort f, cl_Services = services, cl_AllServices = fc_allServices f,
                     cl_DeviceID = fc_device f, cl_ScanTimeout = fc_scanTimeout f, cl_ResumeTimeout = fc_resumeTimeout f,
                     cl_MaxConnections = fc_maxConnections f, cl_StatsInterval = fc_statsInterval f, cl_StatsTUI = tui,
                     cl_Compression = fc_compression f, cl_TransportDebug = fc_transportDebug f, cl_Benchmark = None, cl_SuppressListenAddr = False,
                     cl_Interactive = interactive\<rparr>)"

definition serverCommand :: "server_flags \<Rightarrow> bool \<Rightarrow> cli_error + ServerConfig" where
  "serverCommand f tui =
     (if \<not> fs_benchmark f \<and> fs_targetHost f = '''' then Inl (CliError ''--target-host must not be empty'')
      else if \<not> fs_benchmark f \<and> fs_service f = [] \<and> (fs_targetPort f < 1 \<or> fs_targetPort f > 65535)
      then Inl (CliError ''--target-port is required and must be between 1 and 65535'')
      else if fs_benchmark f \<and> fs_service f \<noteq> [] then Inl (CliError ''--benchmark cannot be combined with --service'')
      else if fs_benchmark f \<and> fs_targetPort f \<noteq> 0 then Inl (CliError ''--benchmark cannot be combined with --target-port'')
      else if fs_service f \<noteq> [] \<and> fs_targetPort f \<noteq> 0 then Inl (CliError ''--service cannot be combined with --target-port'')
      else if fs_name f = '''' then Inl (CliError ''--name must not be empty'')
      else if fs_dialTimeout f \<le> 0 \<or> fs_resumeTimeout f \<le> 0 then Inl (CliError ''dial and resume timeouts must be greater than zero'')
      else if fs_maxConnections f \<le> 0 \<or> fs_maxConnections f > 65535 then Inl (CliError ''--max-connections must be between 1 and 65535'')
      else if fs_statsInterval f < 0 then Inl (CliError ''--stats-interval must not be negative'')
      else
        case ParseServerServices (fs_service f) of
          Inl e \<Rightarrow> Inl (CliConfig e)
        | Inr services \<Rightarrow>
            Inr \<lparr>sc_TargetHost = fs_targetHost f, sc_TargetPort = fs_targetPort f, sc_Services = services, sc_Name = fs_name f,
                 sc_DialTimeout = fs_dialTimeout f, sc_ResumeTimeout = fs_resumeTimeout f, sc_MaxConnections = fs_maxConnections f,
                 sc_StatsInterval = fs_statsInterval f, sc_StatsTUI = tui, sc_Benchmark = fs_benchmark f, sc_Compression = fs_compression f,
                 sc_TransportDebug = fs_transportDebug f, sc_PreventSleep = fs_preventSleep f, sc_SkipBLEChecks = fs_skipBLEChecks f,
                 sc_DisableBLERecovery = fs_noBLERecovery f, sc_ServerIDFile = fs_serverIDFile f\<rparr>)"

definition servicesCommand :: "string \<Rightarrow> duration \<Rightarrow> bool \<Rightarrow> cli_error option" where
  "servicesCommand device scanTimeout interactive =
     (if scanTimeout \<le> 0 then Some (CliError ''--scan-timeout must be greater than zero'')
      else if device = '''' \<and> \<not> interactive then Some deviceRequired else None)"

definition benchmarkCommand :: "benchmark_flags \<Rightarrow> bool \<Rightarrow> bool \<Rightarrow> cli_error + ClientConfig" where
  "benchmarkCommand f interactive tui =
     (if fb_scanTimeout f \<le> 0 \<or> fb_resumeTimeout f \<le> 0 \<or> fb_duration f \<le> 0 \<or> fb_setupTimeout f \<le> 0
      then Inl (CliError ''benchmark timeouts and duration must be greater than zero'')
      else
        case ValidateBenchmarkDirection (fb_direction f) of
          Some e \<Rightarrow> Inl (CliFailed e)
        | None \<Rightarrow>
            (case ValidateBenchmarkConnections (fb_direction f) (fb_connections f) of
               Some e \<Rightarrow> Inl (CliFailed e)
             | None \<Rightarrow>
                 if fb_statsInterval f < 0 then Inl (CliError ''--stats-interval must not be negative'')
                 else if fb_device f = '''' \<and> \<not> interactive then Inl deviceRequired
                 else Inr \<lparr>cl_ListenHost = ''127.0.0.1'', cl_ListenPort = 0, cl_Services = [], cl_AllServices = False, cl_DeviceID = fb_device f,
                            cl_ScanTimeout = fb_scanTimeout f, cl_ResumeTimeout = fb_resumeTimeout f, cl_MaxConnections = 32, cl_StatsInterval = 0,
                            cl_StatsTUI = tui, cl_Compression = fb_compression f, cl_TransportDebug = fb_transportDebug f,
                            cl_Benchmark = Some \<lparr>bcc_Address = '''', bcc_Direction = fb_direction f, bcc_Duration = fb_duration f,
                              bcc_DialTimeout = fb_setupTimeout f, bcc_Connections = fb_connections f, bcc_StatsInterval = fb_statsInterval f,
                              bcc_StatsTUI = tui\<rparr>,
                            cl_SuppressListenAddr = True, cl_Interactive = interactive\<rparr>))"

text \<open>
  The dispatch of \<open>run\<close>: the flags are those of the subcommand, or the error of parsing them; asking for help is no error.
\<close>

datatype parsed_flags = ScanFlags duration bool | ClientFlags client_flags | ServerFlags server_flags | ServicesFlags string duration
  | BenchmarkFlags benchmark_flags

datatype action = DoScan duration bool | DoClient ClientConfig | DoServer ServerConfig | DoServices string duration
  | PrintVersion | PrintUsage | NothingToDo

definition dispatchFlags :: "bool \<Rightarrow> bool \<Rightarrow> parsed_flags \<Rightarrow> cli_error + action" where
  "dispatchFlags interactive tui flags =
     (case flags of
        ScanFlags timeout all \<Rightarrow> (case scanCommand timeout of Some e \<Rightarrow> Inl e | None \<Rightarrow> Inr (DoScan timeout all))
      | ClientFlags f \<Rightarrow> (case clientCommand f interactive tui of Inl e \<Rightarrow> Inl e | Inr cfg \<Rightarrow> Inr (DoClient cfg))
      | ServerFlags f \<Rightarrow> (case serverCommand f tui of Inl e \<Rightarrow> Inl e | Inr cfg \<Rightarrow> Inr (DoServer cfg))
      | ServicesFlags device timeout \<Rightarrow>
          (case servicesCommand device timeout interactive of Some e \<Rightarrow> Inl e | None \<Rightarrow> Inr (DoServices device timeout))
      | BenchmarkFlags f \<Rightarrow> (case benchmarkCommand f interactive tui of Inl e \<Rightarrow> Inl e | Inr cfg \<Rightarrow> Inr (DoClient cfg)))"

definition runCommand :: "(string \<Rightarrow> string list \<Rightarrow> go_error + parsed_flags) \<Rightarrow> (go_error \<Rightarrow> bool) \<Rightarrow> string list \<Rightarrow> bool \<Rightarrow> bool \<Rightarrow> cli_error + action" where
  "runCommand parse isHelp args interactive tui =
     (case args of
        [] \<Rightarrow> Inl (CliError ''a subcommand is required'')
      | name # rest \<Rightarrow>
          if name \<in> set [''scan'', ''client'', ''server'', ''services'', ''benchmark''] then
            (case parse name rest of
               Inl e \<Rightarrow> if isHelp e then Inr NothingToDo else Inl (CliFailed e)
             | Inr flags \<Rightarrow> dispatchFlags interactive tui flags)
          else if name \<in> set [''version'', ''--version'', ''-version''] then Inr PrintVersion
          else if name \<in> set [''help'', ''--help'', ''-h''] then Inr PrintUsage
          else Inl (UnknownSubcommand name))"

section \<open>Lemmas\<close>

lemma normalized_id: "0 < ResumeTimeout c \<Longrightarrow> 0 < ReplayWindow c \<Longrightarrow> 0 < MaxConnections c \<Longrightarrow> MaxConnections c \<le> 65535 \<Longrightarrow> normalized c = c"
  by (simp add: normalized_def)

lemma length_directions:
  assumes "benchmarkDirections v n = Inr ds"
  shows "1 \<le> length ds \<and> length ds \<le> 32"
proof -
  obtain d where "parseBenchmarkDirection v = Inr d" using assms by (auto simp: benchmarkDirections_def split: if_splits sum.splits)
  then show ?thesis using assms
    by (cases d) (auto simp: benchmarkDirections_def Let_def length_concat sum_list_replicate split: if_splits)
qed

lemma clientCommand_ok:
  assumes "clientCommand f interactive tui = Inr cfg"
  shows "normalized (clientSessionConfig cfg) = clientSessionConfig cfg" "clientChecks cfg \<noteq> Some (ClientFailed e)"
    "cl_DeviceID cfg \<noteq> '''' \<or> cl_Interactive cfg" "cl_Benchmark cfg = None"
  using assms
  by (auto simp: clientCommand_def clientSessionConfig_def clientChecks_def DefaultReplayWindow_def intro!: normalized_id
      split: if_splits sum.splits option.splits)

lemma parsed_ports:
  assumes "ParseServerServices vals = Inr services"
  shows "\<forall>s \<in> set services. 1 \<le> svc_Port s \<and> svc_Port s \<le> 65535" and "services = [] \<longleftrightarrow> vals = []"
proof -
  define n where "n = Suc (Max (insert 0 (length ` set vals)))"
  have n: "\<forall>v \<in> set vals. length v < n" by (auto simp: n_def less_Suc_eq_le)
  have ok: "list_all configured_ok services" "length services = length vals"
    using parseServicesLoop_ok [of vals "[]" services n] assms n by (auto simp: ParseServerServices_def)
  show "\<forall>s \<in> set services. 1 \<le> svc_Port s \<and> svc_Port s \<le> 65535" using ok(1) by (auto simp: list_all_iff configured_ok_def)
  show "services = [] \<longleftrightarrow> vals = []" using ok(2) by auto
qed

lemma serverCommand_ok:
  assumes "serverCommand f tui = Inr cfg"
  shows "normalized (serverSessionConfig cfg hello) = serverSessionConfig cfg hello"
    "\<forall>s \<in> set (serverServices cfg). 1 \<le> svc_Port s \<and> svc_Port s \<le> 65535" "serverServices cfg = [] \<longleftrightarrow> sc_Benchmark cfg"
proof -
  obtain services where s: "ParseServerServices (fs_service f) = Inr services"
    using assms by (auto simp: serverCommand_def split: if_splits sum.splits)
  note ports = parsed_ports [OF s]
  show "normalized (serverSessionConfig cfg hello) = serverSessionConfig cfg hello"
    using assms s by (auto simp: serverCommand_def serverSessionConfig_def DefaultReplayWindow_def intro!: normalized_id split: if_splits)
  show "\<forall>s \<in> set (serverServices cfg). 1 \<le> svc_Port s \<and> svc_Port s \<le> 65535"
    using assms s ports by (auto simp: serverCommand_def serverServices_def split: if_splits)
  show "serverServices cfg = [] \<longleftrightarrow> sc_Benchmark cfg"
    using assms s ports(2) by (auto simp: serverCommand_def serverServices_def split: if_splits)
qed

lemma benchmarkCommand_ok:
  assumes "benchmarkCommand f interactive tui = Inr cfg"
  shows "\<exists>b ds. cl_Benchmark cfg = Some b \<and> benchmarkChecks b = Inr ds \<and> 1 \<le> length ds \<and> int (length ds) \<le> cl_MaxConnections cfg"
    "normalized (clientSessionConfig cfg) = clientSessionConfig cfg" "clientChecks cfg = None" "cl_DeviceID cfg \<noteq> '''' \<or> cl_Interactive cfg"
proof -
  define b where "b = \<lparr>bcc_Address = '''', bcc_Direction = fb_direction f, bcc_Duration = fb_duration f, bcc_DialTimeout = fb_setupTimeout f,
    bcc_Connections = fb_connections f, bcc_StatsInterval = fb_statsInterval f, bcc_StatsTUI = tui\<rparr>"
  have cfg: "cl_Benchmark cfg = Some b" "cl_MaxConnections cfg = 32" "cl_ResumeTimeout cfg = fb_resumeTimeout f" "cl_Services cfg = []"
    "\<not> cl_AllServices cfg" "cl_DeviceID cfg = fb_device f" "cl_Interactive cfg = interactive"
    and f: "fb_duration f > 0" "fb_setupTimeout f > 0" "fb_resumeTimeout f > 0" "fb_statsInterval f \<ge> 0" "fb_device f \<noteq> '''' \<or> interactive"
      "ValidateBenchmarkConnections (fb_direction f) (fb_connections f) = None"
    using assms unfolding benchmarkCommand_def b_def by (simp_all split: if_split_asm option.split_asm) auto
  obtain ds where ds: "benchmarkDirections (fb_direction f) (fb_connections f) = Inr ds"
    using f(6) by (auto simp: ValidateBenchmarkConnections_def split: sum.splits)
  have "benchmarkChecks b = Inr ds" using ds f(1,2,4) by (simp add: benchmarkChecks_def b_def)
  then show "\<exists>b ds. cl_Benchmark cfg = Some b \<and> benchmarkChecks b = Inr ds \<and> 1 \<le> length ds \<and> int (length ds) \<le> cl_MaxConnections cfg"
    using length_directions [OF ds] cfg(1,2) by auto
  show "normalized (clientSessionConfig cfg) = clientSessionConfig cfg"
    by (rule normalized_id) (simp_all add: clientSessionConfig_def DefaultReplayWindow_def cfg(2,3) f(3))
  show "clientChecks cfg = None" by (simp add: clientChecks_def ValidateClientServices_def cfg(4,5))
  show "cl_DeviceID cfg \<noteq> '''' \<or> cl_Interactive cfg" using f(5) cfg(6,7) by simp
qed

section \<open>Properties\<close>



end
