(* ===== verification/Go_Format.thy ===== *)
theory Go_Format
  imports Base "HOL-Library.Monad_Syntax"
begin

text \<open>
  What the program uses of Go's formatting: text as runes with the verbs \<open>%s\<close> and \<open>%d\<close> in a field of a given width, \<open>strings.Repeat\<close>,
  \<open>strings.Replace\<close>, \<open>strings.Join\<close>, and \<open>time.Duration\<close>'s \<open>Round\<close> and \<open>String\<close>. The arithmetic of \<open>float64\<close> is a parameter: the
  record of the operations that the program calls, whose rounding no definition depends on.
\<close>

section \<open>Runes\<close>

text \<open>A rune is an ASCII character or a glyph, given by its code point; \<open>utf8.RuneCountInString\<close> is the length of the text.\<close>

datatype rune = Ascii char | Glyph nat

type_synonym runes = "rune list"

abbreviation ascii :: "string \<Rightarrow> runes" where
  "ascii s \<equiv> map Ascii s"

abbreviation newline :: rune where
  "newline \<equiv> Ascii (CHR 0x0A)"

abbreviation carriage :: rune where
  "carriage \<equiv> Ascii (CHR 0x0D)"

abbreviation tabulator :: rune where
  "tabulator \<equiv> Ascii (CHR 0x09)"

abbreviation escape :: rune where
  "escape \<equiv> Ascii (CHR 0x1B)"

text \<open>
  The runes of a Go string, which is UTF-8; an invalid or incomplete sequence gives the replacement character for its first byte. Sequences that
  are longer than needed are not refused.
\<close>

abbreviation continuation :: "char \<Rightarrow> bool" where
  "continuation c \<equiv> (128 :: nat) \<le> of_char c \<and> of_char c < (192 :: nat)"

definition decodeRune :: "char \<Rightarrow> string \<Rightarrow> rune \<times> nat" where
  "decodeRune c cs =
     (let b = (of_char c :: nat); tail = (\<lambda>i. (of_char (cs ! i) :: nat) - 128) in
      if b < 128 then (Ascii c, 0)
      else if 192 \<le> b \<and> b < 224 \<and> 1 \<le> length cs \<and> continuation (cs ! 0) then (Glyph ((b - 192) * 64 + tail 0), 1)
      else if 224 \<le> b \<and> b < 240 \<and> 2 \<le> length cs \<and> continuation (cs ! 0) \<and> continuation (cs ! 1)
        then (Glyph ((b - 224) * 4096 + tail 0 * 64 + tail 1), 2)
      else if 240 \<le> b \<and> b < 248 \<and> 3 \<le> length cs \<and> continuation (cs ! 0) \<and> continuation (cs ! 1) \<and> continuation (cs ! 2)
        then (Glyph ((b - 240) * 262144 + tail 0 * 4096 + tail 1 * 64 + tail 2), 3)
      else (Glyph 0xFFFD, 0))"

fun runes_of :: "string \<Rightarrow> runes" where
  "runes_of [] = []"
| "runes_of (c # cs) = (case decodeRune c cs of (r, n) \<Rightarrow> r # runes_of (drop n cs))"

lemma runes_of_Cons_ascii [simp]: "(of_char c :: nat) < 128 \<Longrightarrow> runes_of (c # cs) = Ascii c # runes_of cs"
  by (simp add: decodeRune_def)

declare runes_of.simps(2) [simp del]

text \<open>Runes that stand for themselves.\<close>

definition printable :: "rune \<Rightarrow> bool" where
  "printable r = (case r of Ascii c \<Rightarrow> 32 \<le> (of_char c :: nat) \<and> of_char c \<noteq> (127 :: nat) | Glyph n \<Rightarrow> True)"

lemma escape_not_printable [simp]: "\<not> printable escape" "\<not> printable newline" "\<not> printable carriage" "\<not> printable tabulator"
  by (simp_all add: printable_def)

text \<open>The lines of a text.\<close>

fun lines_of :: "runes \<Rightarrow> runes list" where
  "lines_of [] = [[]]"
| "lines_of (r # rs) = (if r = newline then [] # lines_of rs else case lines_of rs of [] \<Rightarrow> [[r]] | l # ls \<Rightarrow> (r # l) # ls)"

declare lines_of.simps(2) [simp del]

lemma lines_of_nonempty [simp]: "lines_of s \<noteq> []"
  by (cases s) (simp_all add: lines_of.simps(2) split: list.split)

lemma lines_of_Cons [simp]: "lines_of (r # rs) = (if r = newline then [] # lines_of rs else (r # hd (lines_of rs)) # tl (lines_of rs))"
  using lines_of_nonempty [of rs] by (simp add: lines_of.simps(2) split: list.split)

lemma lines_of_line: "newline \<notin> set l \<Longrightarrow> lines_of l = [l]"
  by (induction l) auto

lemma lines_of_newline: "lines_of (a @ newline # b) = lines_of a @ lines_of b"
  by (induction a) simp_all

lemma line_no_newline: "l \<in> set (lines_of s) \<Longrightarrow> newline \<notin> set l"
proof (induction s arbitrary: l)
  case (Cons r s)
  then show ?case by (cases "lines_of s") (auto split: if_splits)
qed simp

lemma lines_of_single: "length (lines_of s) = 1 \<Longrightarrow> newline \<notin> set s"
  by (induction s) (auto split: if_splits)

text \<open>\<open>strings.Repeat\<close>; a negative count is a panic, which is \<open>None\<close>.\<close>

definition Repeat :: "rune \<Rightarrow> int \<Rightarrow> runes option" where
  "Repeat r n = (if n < 0 then None else Some (replicate (nat n) r))"

text \<open>\<open>%-Ns\<close> and \<open>%Ns\<close>: the text filled with spaces up to the width, on the right and on the left.\<close>

definition padRight :: "nat \<Rightarrow> runes \<Rightarrow> runes" where
  "padRight n s = s @ replicate (n - length s) (Ascii CHR '' '')"

definition padLeft :: "nat \<Rightarrow> runes \<Rightarrow> runes" where
  "padLeft n s = replicate (n - length s) (Ascii CHR '' '') @ s"

text \<open>\<open>strings.Replace(s, old, new, 1)\<close>, for an \<open>old\<close> that is not empty.\<close>

fun Replace1 :: "runes \<Rightarrow> runes \<Rightarrow> runes \<Rightarrow> runes" where
  "Replace1 [] old new = []"
| "Replace1 (r # rs) old new =
     (if take (length old) (r # rs) = old then new @ drop (length old) (r # rs) else r # Replace1 rs old new)"

text \<open>\<open>strings.Join\<close>.\<close>

fun Join :: "runes list \<Rightarrow> runes \<Rightarrow> runes" where
  "Join [] sep = []"
| "Join [l] sep = l"
| "Join (l # m # ls) sep = l @ sep @ Join (m # ls) sep"

lemma Replace1_cases:
  assumes "old \<noteq> []"
  obtains "Replace1 s old new = s" | pre post where "s = pre @ old @ post" and "Replace1 s old new = pre @ new @ post"
proof -
  have "Replace1 s old new = s \<or> (\<exists>pre post. s = pre @ old @ post \<and> Replace1 s old new = pre @ new @ post)"
  proof (induction s)
    case (Cons r rs)
    show ?case
    proof (cases "take (length old) (r # rs) = old")
      case True
      then have "r # rs = [] @ old @ drop (length old) (r # rs)" using append_take_drop_id [of "length old" "r # rs"] by simp
      then show ?thesis using True by (metis Replace1.simps(2) append_Nil)
    next
      case False
      then have r: "Replace1 (r # rs) old new = r # Replace1 rs old new" by simp
      show ?thesis
      proof (cases "Replace1 rs old new = rs")
        case False
        then obtain pre post where "rs = pre @ old @ post" "Replace1 rs old new = pre @ new @ post" using Cons by blast
        then have "r # rs = (r # pre) @ old @ post \<and> Replace1 (r # rs) old new = (r # pre) @ new @ post" using r by simp
        then show ?thesis by blast
      qed (use r in simp)
    qed
  qed simp
  then show ?thesis using that by blast
qed

section \<open>Floating point\<close>

text \<open>
  The operations on \<open>float64\<close>: conversions, constants, arithmetic, the comparison \<open>a < b\<close> and \<open>a <= b\<close>, the conversion to \<open>int\<close>, \<open>Duration.Seconds\<close> and
  the verb \<open>%.Nf\<close>. The clock is \<open>Time.Local().Format("15:04:05")\<close>, which reads the time zone.
\<close>

record 'f platform =
  fl_of_uint64 :: "u64 \<Rightarrow> 'f"
  fl_of_int :: "int \<Rightarrow> 'f"
  fl_half :: 'f
  fl_add :: "'f \<Rightarrow> 'f \<Rightarrow> 'f"
  fl_sub :: "'f \<Rightarrow> 'f \<Rightarrow> 'f"
  fl_mul :: "'f \<Rightarrow> 'f \<Rightarrow> 'f"
  fl_div :: "'f \<Rightarrow> 'f \<Rightarrow> 'f"
  fl_less :: "'f \<Rightarrow> 'f \<Rightarrow> bool"
  fl_le :: "'f \<Rightarrow> 'f \<Rightarrow> bool"
  fl_to_int :: "'f \<Rightarrow> int"
  fl_Seconds :: "duration \<Rightarrow> 'f"
  fl_fixed :: "nat \<Rightarrow> 'f \<Rightarrow> string"
  pl_clock :: "instant \<Rightarrow> string"

text \<open>Fixed point with three decimals, as a concrete instance.\<close>

definition thousandths :: "int platform" where
  "thousandths = \<lparr>fl_of_uint64 = (\<lambda>w. 1000 * uint w), fl_of_int = (\<lambda>i. 1000 * i), fl_half = 500, fl_add = (+), fl_sub = (-),
     fl_mul = (\<lambda>a b. a * b div 1000), fl_div = (\<lambda>a b. a * 1000 div b), fl_less = (<), fl_le = (\<le>), fl_to_int = (\<lambda>a. a div 1000),
     fl_Seconds = (\<lambda>d. d div 1000000),
     fl_fixed = (\<lambda>n a. if n = 0 then itoa (a div 1000) else itoa (a div 1000) @ ''.'' @ itoa (a mod 1000 div 100)),
     pl_clock = (\<lambda>t. ''00:00:00'')\<rparr>"

section \<open>Durations\<close>

definition microsecond :: duration where
  "microsecond = 1000"

text \<open>\<open>Duration.Round\<close>: to the nearest multiple, halves away from zero, saturating at the ends of 64 bits.\<close>

definition duration_Round :: "duration \<Rightarrow> duration \<Rightarrow> duration" where
  "duration_Round d m =
     (if m \<le> 0 then d
      else if d < 0 then
        (let r = (- d) mod m in
         if r + r < m then d + r else if d - m + r \<ge> - (2 ^ 63) then d - m + r else - (2 ^ 63))
      else
        (let r = d mod m in
         if r + r < m then d - r else if d + m - r < 2 ^ 63 then d + m - r else 2 ^ 63 - 1))"

text \<open>\<open>fmtFrac\<close>: the last digits of a number as a fraction, without trailing zeros and without the point when none is left.\<close>

definition dropZeros :: "string \<Rightarrow> string" where
  "dropZeros s = rev (dropWhile (\<lambda>c. c = CHR ''0'') (rev s))"

definition fmtFrac :: "nat \<Rightarrow> nat \<Rightarrow> string" where
  "fmtFrac v prec =
     (let ds = digits_of (v mod 10 ^ prec); frac = dropZeros (replicate (prec - length ds) CHR ''0'' @ ds) in
      if v mod 10 ^ prec = 0 then '''' else CHR ''.'' # frac)"

text \<open>\<open>Duration.String\<close>; the micro sign is written in UTF-8.\<close>

definition duration_String :: "duration \<Rightarrow> string" where
  "duration_String d =
     (let u = nat \<bar>d\<bar>;
          text =
            (if u = 0 then ''0s''
             else if u < 1000 then digits_of u @ ''ns''
             else if u < 1000000 then digits_of (u div 1000) @ fmtFrac u 3 @ [CHR 0xC2, CHR 0xB5] @ ''s''
             else if u < 1000000000 then digits_of (u div 1000000) @ fmtFrac u 6 @ ''ms''
             else (let secs = u div 1000000000; mins = secs div 60; hours = mins div 60 in
                   (if 0 < mins then (if 0 < hours then digits_of hours @ ''h'' else '''') @ digits_of (mins mod 60) @ ''m'' else '''')
                   @ digits_of (secs mod 60) @ fmtFrac u 9 @ ''s'')) in
      if d < 0 then CHR ''-'' # text else text)"

text \<open>What rounding does: a multiple, no further away than half the unit.\<close>

lemma duration_Round_near:
  assumes "0 < m" and "0 \<le> d" and "d + m < 2 ^ 63"
  shows "m dvd duration_Round d m \<and> \<bar>duration_Round d m - d\<bar> * 2 \<le> m"
proof -
  have d: "d - d mod m = m * (d div m)" by (simp add: minus_mod_eq_mult_div)
  have r: "0 \<le> d mod m" "d mod m < m" using assms(1) by simp_all
  show ?thesis
  proof (cases "d mod m + d mod m < m")
    case True
    then have "duration_Round d m = d - d mod m" using assms by (simp add: duration_Round_def)
    then show ?thesis using True d r by simp
  next
    case False
    then have e: "duration_Round d m = d + m - d mod m" using assms r by (simp add: duration_Round_def Let_def)
    also have "\<dots> = m * (d div m + 1)" using d by (simp add: algebra_simps)
    finally show ?thesis using False e r by simp
  qed
qed

end
