(* ===== verification/Monitoring.thy ===== *)
theory Monitoring
  imports Link_Session Traffic Go_Format
begin

text \<open>
  What the program reports of itself: the snapshot of a link session (\<open>internal/link/stats.go\<close>), and the reporters of traffic, of the link's
  health and of its transport (\<open>internal/app/traffic.go\<close>, \<open>internal/app/transport_debug.go\<close>) with the lines they write. Rates are
  computed with the operations on \<open>float64\<close> of \<open>Go_Format\<close>.
\<close>

section \<open>The snapshot of a session\<close>

record TransportSnapshot =
  ts_Bound :: bool
  ts_DetachCount :: u64
  ts_LastDetachReason :: string
  ts_HeartbeatPending :: bool
  ts_HeartbeatConsecutiveFailures :: int
  ts_LastReceived :: instant
  ts_LastHeartbeat :: instant
  ts_stats :: transportStats
  ts_OutstandingBytes :: u64
  ts_FlightBytes :: u64
  ts_FlightLimitPackets :: int
  ts_BufferedRXBytes :: u64
  ts_PacketMTU :: int

text \<open>The counters are copied one by one; the record keeps them together.\<close>

definition transportSnapshot :: "Session \<Rightarrow> TransportSnapshot" where
  "transportSnapshot s =
     (let base = \<lparr>ts_Bound = (current s \<noteq> None \<and> \<not> s_closed s), ts_DetachCount = detachCount s, ts_LastDetachReason = lastDetachReason s,
            ts_HeartbeatPending = False, ts_HeartbeatConsecutiveFailures = 0, ts_LastReceived = 0, ts_LastHeartbeat = 0, ts_stats = s_stats s,
            ts_OutstandingBytes = txNext s - txBase s, ts_FlightBytes = 0, ts_FlightLimitPackets = 0,
            ts_BufferedRXBytes = of_int (len (rxBuf s) + rxPendingBytes s), ts_PacketMTU = 0\<rparr> in
      case current s of
        None \<Rightarrow> base
      | Some b \<Rightarrow>
          base\<lparr>ts_HeartbeatPending := b_heartbeatPending b, ts_HeartbeatConsecutiveFailures := b_heartbeatFailures b,
               ts_LastReceived := b_lastRX b, ts_LastHeartbeat := b_lastHeartbeat b, ts_PacketMTU := b_mtu b,
               ts_FlightLimitPackets := max initialFlightWindowPackets (b_flightPackets b),
               ts_FlightBytes := (if b_sendNext b > txBase s then b_sendNext b - txBase s else 0)\<rparr>)"

section \<open>Reporters\<close>

definition delta :: "u64 \<Rightarrow> u64 \<Rightarrow> u64" where
  "delta cur previous = (if cur < previous then 0 else cur - previous)"

record traffic_report =
  tr_current :: traffic_snapshot
  tr_previous :: traffic_snapshot
  tr_elapsed :: duration
  tr_final :: bool

text \<open>\<open>runTrafficReporter\<close>: at each event the counter as it then is, and the time; the loop ends with its context.\<close>

datatype reporter_event = ReporterTick Counter instant | ReporterDone Counter instant

fun reportTraffic :: "traffic_snapshot \<Rightarrow> instant \<Rightarrow> reporter_event list \<Rightarrow> traffic_report list" where
  "reportTraffic previous previousAt [] = []"
| "reportTraffic previous previousAt (ReporterTick c now # es) =
     \<lparr>tr_current = Counter_Snapshot c, tr_previous = previous, tr_elapsed = now - previousAt, tr_final = False\<rparr>
       # reportTraffic (Counter_Snapshot c) now es"
| "reportTraffic previous previousAt (ReporterDone c now # es) =
     [\<lparr>tr_current = Counter_Snapshot c, tr_previous = previous, tr_elapsed = now - previousAt, tr_final = True\<rparr>]"

definition runTrafficReporter :: "Counter \<Rightarrow> instant \<Rightarrow> reporter_event list \<Rightarrow> traffic_report list" where
  "runTrafficReporter c startedAt es = reportTraffic (Counter_Snapshot c) startedAt es"

text \<open>\<open>startTrafficReporter\<close> reports nothing without an interval or a counter.\<close>

definition startTrafficReporter :: "duration \<Rightarrow> Counter option \<Rightarrow> instant \<Rightarrow> reporter_event list \<Rightarrow> traffic_report list" where
  "startTrafficReporter interval counter startedAt es =
     (if interval \<le> 0 then [] else case counter of None \<Rightarrow> [] | Some c \<Rightarrow> runTrafficReporter c startedAt es)"

text \<open>\<open>startLinkHealthReporter\<close>: a report at once and after each tick, and a last one when the session ends.\<close>

datatype health_event = HealthTick Session | HealthSessionDone Session | HealthParentDone

fun reportHealth :: "Session \<Rightarrow> health_event list \<Rightarrow> TransportSnapshot list" where
  "reportHealth s [] = [transportSnapshot s]"
| "reportHealth s (HealthTick s' # es) = transportSnapshot s # reportHealth s' es"
| "reportHealth s (HealthSessionDone s' # es) = [transportSnapshot s, transportSnapshot s']"
| "reportHealth s (HealthParentDone # es) = [transportSnapshot s]"

text \<open>\<open>startLinkFailureReporter\<close>: a line for each report in which the number of detachments has grown.\<close>

fun reportFailures :: "u64 \<Rightarrow> TransportSnapshot list \<Rightarrow> string list" where
  "reportFailures reported [] = []"
| "reportFailures reported (snapshot # rest) =
     (if ts_DetachCount snapshot > reported
      then (''BLE link detached: '' @ ts_LastDetachReason snapshot @ ''; preserving session for reconnect'') # reportFailures (ts_DetachCount snapshot) rest
      else reportFailures reported rest)"

text \<open>The mean duration of a send between two snapshots; Go's division of durations truncates, and both are not negative here.\<close>

definition averageSend :: "TransportSnapshot \<Rightarrow> TransportSnapshot \<Rightarrow> duration" where
  "averageSend cur previous =
     (let sendCalls = delta (st_sendCalls (ts_stats cur)) (st_sendCalls (ts_stats previous));
          sendDuration0 = st_sendDuration (ts_stats cur) - st_sendDuration (ts_stats previous);
          sendDuration = (if sendDuration0 < 0 then 0 else sendDuration0) in
      if sendCalls > 0 then sendDuration sdiv sint sendCalls else 0)"

section \<open>Lines\<close>

text \<open>\<open>formatBytes\<close>: the unit grows while the number has four digits of it.\<close>

function scaleBytes :: "'f platform \<Rightarrow> 'f \<Rightarrow> nat \<Rightarrow> 'f \<times> nat" where
  "scaleBytes P b unit = (if fl_le P (fl_of_int P 1024) b \<and> unit < 4 then scaleBytes P (fl_div P b (fl_of_int P 1024)) (unit + 1) else (b, unit))"
  by auto
termination by (relation "measure (\<lambda>(P, b, unit). 4 - unit)") auto

declare scaleBytes.simps [simp del]

definition formatBytes :: "'f platform \<Rightarrow> 'f \<Rightarrow> string" where
  "formatBytes P b =
     (case scaleBytes P b 0 of (b1, unit) \<Rightarrow>
        fl_fixed P (if unit = 0 then 0 else 1) b1 @ '' '' @ [''B'', ''KiB'', ''MiB'', ''GiB'', ''TiB''] ! unit)"

lemma scaleBytes_unit: "unit \<le> 4 \<Longrightarrow> snd (scaleBytes P b unit) \<le> 4"
  by (induction P b unit rule: scaleBytes.induct) (subst scaleBytes.simps, auto)

definition elapsedSeconds :: "'f platform \<Rightarrow> duration \<Rightarrow> 'f" where
  "elapsedSeconds P elapsed =
     (if fl_le P (fl_Seconds P elapsed) (fl_of_int P 0) then fl_of_int P 1 else fl_Seconds P elapsed)"

definition formatTraffic :: "'f platform \<Rightarrow> traffic_snapshot \<Rightarrow> traffic_snapshot \<Rightarrow> duration \<Rightarrow> string" where
  "formatTraffic P cur previous elapsed =
     (let txDelta = delta (sn_TX cur) (sn_TX previous); rxDelta = delta (sn_RX cur) (sn_RX previous); seconds = elapsedSeconds P elapsed in
      ''tx='' @ formatBytes P (fl_of_uint64 P (sn_TX cur)) @ '' rx='' @ formatBytes P (fl_of_uint64 P (sn_RX cur))
        @ '' tx-rate='' @ formatBytes P (fl_div P (fl_of_uint64 P txDelta) seconds) @ ''/s rx-rate=''
        @ formatBytes P (fl_div P (fl_of_uint64 P rxDelta) seconds) @ ''/s'')"

text \<open>\<open>formatTransportDebug\<close>, and \<open>startTransportDebugReporter\<close> with the events it meets.\<close>

definition formatTransportDebug :: "'f platform \<Rightarrow> TransportSnapshot \<Rightarrow> TransportSnapshot \<Rightarrow> string" where
  "formatTransportDebug P cur previous =
     (let number = (\<lambda>w :: u64. itoa (uint w)); size = (\<lambda>w :: u64. formatBytes P (fl_of_uint64 P w));
          diff = (\<lambda>f. delta (f (ts_stats cur)) (f (ts_stats previous))) in
      ''mtu='' @ itoa (ts_PacketMTU cur)
      @ '' data-tx='' @ number (diff st_dataTXPackets) @ ''pkts/'' @ size (diff st_dataTXBytes)
      @ '' data-rx='' @ number (diff st_dataRXPackets) @ ''pkts/'' @ size (diff st_dataRXBytes)
      @ '' ack-tx='' @ number (diff st_ackTXPackets) @ '' ack-rx='' @ number (diff st_ackRXPackets)
      @ '' hb-tx='' @ number (diff st_heartbeatTX) @ '' hb-rx='' @ number (diff st_heartbeatRX) @ '' hb-fail='' @ number (diff st_heartbeatFailures)
      @ '' rtx='' @ number (diff st_retransmissions) @ '' fast-rtx='' @ number (diff st_fastRetransmissions)
      @ '' ooo='' @ number (diff st_outOfOrderDataPackets) @ '' rejected='' @ number (diff st_rejectedDataPackets)
      @ '' send-api-avg='' @ duration_String (duration_Round (averageSend cur previous) microsecond)
      @ '' send-api-max='' @ duration_String (duration_Round (st_maxSendDuration (ts_stats cur)) microsecond)
      @ '' outstanding='' @ size (ts_OutstandingBytes cur) @ '' flight='' @ size (ts_FlightBytes cur)
      @ '' cwnd='' @ itoa (ts_FlightLimitPackets cur) @ ''pkts rx-buffer='' @ size (ts_BufferedRXBytes cur))"

fun reportTransport :: "'f platform \<Rightarrow> TransportSnapshot \<Rightarrow> health_event list \<Rightarrow> string list" where
  "reportTransport P previous [] = []"
| "reportTransport P previous (HealthTick s # es) =
     (''transport '' @ formatTransportDebug P (transportSnapshot s) previous) # reportTransport P (transportSnapshot s) es"
| "reportTransport P previous (HealthSessionDone s # es) = [''transport final '' @ formatTransportDebug P (transportSnapshot s) previous]"
| "reportTransport P previous (HealthParentDone # es) = []"

definition startTransportDebugReporter :: "'f platform \<Rightarrow> Session option \<Rightarrow> health_event list \<Rightarrow> string list" where
  "startTransportDebugReporter P session es = (case session of None \<Rightarrow> [] | Some s \<Rightarrow> reportTransport P (transportSnapshot s) es)"

section \<open>Lemmas\<close>

lemma reportTraffic_chain:
  "reportTraffic p t es = r # rs \<Longrightarrow> tr_previous r = p \<and> (\<forall>i. Suc i < length (r # rs) \<longrightarrow> tr_previous ((r # rs) ! Suc i) = tr_current ((r # rs) ! i))"
proof (induction p t es arbitrary: r rs rule: reportTraffic.induct)
  case (2 p t c now es)
  show ?case
  proof (cases rs)
    case Nil
    then show ?thesis using 2 by auto
  next
    case (Cons r' rs')
    then have "reportTraffic (Counter_Snapshot c) now es = r' # rs'" using 2(2) by simp
    from 2(1) [OF this] show ?thesis using 2(2) Cons by (auto simp: nth_Cons split: nat.splits)
  qed
qed auto

text \<open>The counter an event carries, and the last totals reported.\<close>

fun eventCounter :: "reporter_event \<Rightarrow> Counter" where
  "eventCounter (ReporterTick c now) = c"
| "eventCounter (ReporterDone c now) = c"

definition lastReported :: "traffic_snapshot \<Rightarrow> traffic_report list \<Rightarrow> traffic_snapshot" where
  "lastReported p rs = (if rs = [] then p else tr_current (last rs))"

lemma lastReported_Cons [simp]: "lastReported p (r # rs) = lastReported (tr_current r) rs"
  by (simp add: lastReported_def)

lemma lastReported_Nil [simp]: "lastReported p [] = p"
  by (simp add: lastReported_def)

lemma unat_delta: "unat b \<le> unat a \<Longrightarrow> unat (delta a b) = unat a - unat b"
  by (simp add: delta_def unat_sub word_le_nat_alt word_less_nat_alt)

lemma reportTraffic_total:
  assumes "sorted (map (\<lambda>x. unat (f x)) (p # map (\<lambda>e. Counter_Snapshot (eventCounter e)) es))"
  shows "unat (f p) + (\<Sum>r \<leftarrow> reportTraffic p t es. unat (delta (f (tr_current r)) (f (tr_previous r)))) = unat (f (lastReported p (reportTraffic p t es)))"
  using assms
proof (induction p t es rule: reportTraffic.induct)
  case (2 p t c now es)
  then show ?case using unat_delta [of "f p" "f (Counter_Snapshot c)"] by auto
next
  case (3 p t c now es)
  then show ?case using unat_delta [of "f p" "f (Counter_Snapshot c)"] by auto
qed simp

lemma reportTraffic_final:
  "reportTraffic p t es = rs @ r # rs' \<Longrightarrow> tr_final r \<Longrightarrow> rs' = []"
  by (induction p t es arbitrary: rs rule: reportTraffic.induct) (auto simp: Cons_eq_append_conv)

text \<open>What a snapshot shows of a session that is as its invariant says.\<close>

lemma transportSnapshot_ok:
  assumes "sess_ok s"
  shows "ts_Bound (transportSnapshot s) = IsBound s" "unat (ts_OutstandingBytes (transportSnapshot s)) = length (txBuf s)"
    "ts_FlightBytes (transportSnapshot s) \<le> ts_OutstandingBytes (transportSnapshot s)"
proof -
  have tx: "unat (txNext s) = unat (txBase s) + length (txBuf s)" using assms by (simp add: sess_ok_def tx_ok_def)
  then have le: "txBase s \<le> txNext s" by (simp add: word_le_nat_alt)
  show "ts_Bound (transportSnapshot s) = IsBound s"
    by (simp add: transportSnapshot_def IsBound_def Let_def split: option.split)
  show "unat (ts_OutstandingBytes (transportSnapshot s)) = length (txBuf s)"
    using tx unat_sub [OF le] by (simp add: transportSnapshot_def Let_def split: option.split)
  show "ts_FlightBytes (transportSnapshot s) \<le> ts_OutstandingBytes (transportSnapshot s)"
  proof (cases "current s")
    case (Some b)
    then have "b_sendNext b \<le> txNext s" using assms by (simp add: sess_ok_def life_ok_def bind_ok_def)
    then have "b_sendNext b - txBase s \<le> txNext s - txBase s" if "txBase s < b_sendNext b"
      using that le by (simp add: word_le_nat_alt word_less_nat_alt unat_sub)
    then show ?thesis using Some by (simp add: transportSnapshot_def Let_def)
  qed (simp add: transportSnapshot_def)
qed

section \<open>Properties\<close>

text \<open>
  The traffic reports add up. As long as the totals do not wrap, the increases that the reports of one run give, each against the snapshot of the
  report before, add up to the whole increase since the start, for both directions; at most the last report is final.
\<close>

theorem traffic_reports_add_up:
  assumes "sorted (map (\<lambda>x. unat (c_tx x)) (c # map eventCounter es))" and "sorted (map (\<lambda>x. unat (c_rx x)) (c # map eventCounter es))"
    and "runTrafficReporter c startedAt es = reports"
  shows "unat (c_tx c) + (\<Sum>r \<leftarrow> reports. unat (delta (sn_TX (tr_current r)) (sn_TX (tr_previous r)))) = unat (sn_TX (lastReported (Counter_Snapshot c) reports))
     \<and> unat (c_rx c) + (\<Sum>r \<leftarrow> reports. unat (delta (sn_RX (tr_current r)) (sn_RX (tr_previous r)))) = unat (sn_RX (lastReported (Counter_Snapshot c) reports))
     \<and> (\<forall>rs r rs'. reports = rs @ r # rs' \<and> tr_final r \<longrightarrow> rs' = [])"
proof -
  have snap: "sn_TX (Counter_Snapshot x) = c_tx x" "sn_RX (Counter_Snapshot x) = c_rx x" for x by (simp_all add: Counter_Snapshot_def)
  have "sorted (map (\<lambda>x. unat (sn_TX x)) (Counter_Snapshot c # map (\<lambda>e. Counter_Snapshot (eventCounter e)) es))"
    "sorted (map (\<lambda>x. unat (sn_RX x)) (Counter_Snapshot c # map (\<lambda>e. Counter_Snapshot (eventCounter e)) es))"
    using assms(1,2) by (simp_all add: snap comp_def)
  from this [THEN reportTraffic_total [of _ _ _ startedAt]] show ?thesis
    using assms(3) reportTraffic_final by (auto simp: runTrafficReporter_def snap)
qed

theorem traffic_reports_add_up_witness:
  "\<exists>reports. runTrafficReporter zeroCounter 0 [ReporterTick (AddTX 5 zeroCounter) 1, ReporterDone (AddTX 9 zeroCounter) 2] = reports
     \<and> (\<Sum>r \<leftarrow> reports. unat (delta (sn_TX (tr_current r)) (sn_TX (tr_previous r)))) = unat (sn_TX (lastReported (Counter_Snapshot zeroCounter) reports))"
  using traffic_reports_add_up [of zeroCounter "[ReporterTick (AddTX 5 zeroCounter) 1, ReporterDone (AddTX 9 zeroCounter) 2]" 0]
  by (simp add: AddTX_def zeroCounter_def)

end
