(* ===== verification/Console.thy ===== *)
theory Console
  imports Monitoring Server_App
begin

text \<open>
  The console of a command (\<open>internal/app/console.go\<close>): a log with a dashboard that is redrawn in place below it. Every operation gives what it
  writes to the output and the new console; \<open>None\<close> is a panic of \<open>strings.Repeat\<close>. The theory ends with a reader of the output, a terminal
  that understands the control sequences the console uses, and what it shows.
\<close>

section \<open>State\<close>

record linkHealthState =
  lh_known :: bool
  lh_bound :: bool
  lh_heartbeatPending :: bool
  lh_failures :: int
  lh_applicationPending :: bool
  lh_lastHeartbeat :: instant

record bufferState =
  bf_known :: bool
  bf_queued :: int
  bf_opening :: int
  bf_active :: int
  bf_bytes :: u64

text \<open>Sessions are compared by reference: a reference is the session's identifier here.\<close>

record 'f runtimeConsole =
  rc_tui :: bool
  rc_color :: bool
  rc_lines :: "runes list"
  rc_peakRate :: 'f
  rc_peakCombinedRate :: 'f
  rc_linkHealth :: linkHealthState
  rc_bufferState :: bufferState
  rc_healthSession :: "SessionID option"
  rc_closed :: bool

definition newRuntimeConsole :: "'f platform \<Rightarrow> bool \<Rightarrow> string \<Rightarrow> 'f runtimeConsole" where
  "newRuntimeConsole P tui noColor =
     \<lparr>rc_tui = tui, rc_color = (tui \<and> noColor = ''''), rc_lines = [], rc_peakRate = fl_of_int P 0, rc_peakCombinedRate = fl_of_int P 0,
      rc_linkHealth = \<lparr>lh_known = False, lh_bound = False, lh_heartbeatPending = False, lh_failures = 0, lh_applicationPending = False, lh_lastHeartbeat = 0\<rparr>,
      rc_bufferState = \<lparr>bf_known = False, bf_queued = 0, bf_opening = 0, bf_active = 0, bf_bytes = 0\<rparr>, rc_healthSession = None, rc_closed = False\<rparr>"

section \<open>Lines of the dashboard\<close>

definition trafficBarWidth :: int where
  "trafficBarWidth = 14"

definition trafficContentWidth :: int where
  "trafficContentWidth = 64"

definition paint :: "bool \<Rightarrow> runes \<Rightarrow> string \<Rightarrow> runes" where
  "paint color text code =
     (if \<not> color then text else escape # ascii ''['' @ ascii code @ ascii ''m'' @ text @ escape # ascii ''[0m'')"

definition dashboardTop :: "string \<Rightarrow> runes option" where
  "dashboardTop state =
     (let prefix = Glyph 0x2500 # ascii '' LightningBNB traffic '' @ Glyph 0xB7 # ascii '' '' @ padRight 5 (ascii state) @ ascii '' '' in do {
        rule \<leftarrow> Repeat (Glyph 0x2500) (trafficContentWidth + 2 - len prefix);
        Some (Glyph 0x256D # prefix @ rule @ [Glyph 0x256E])
      })"

definition dashboardLine :: "runes \<Rightarrow> runes option" where
  "dashboardLine content =
     (let padding0 = trafficContentWidth - len content; padding = (if padding0 < 0 then 0 else padding0) in do {
        spaces \<leftarrow> Repeat (Ascii CHR '' '') padding;
        Some (Glyph 0x2502 # ascii '' '' @ content @ spaces @ ascii '' '' @ [Glyph 0x2502])
      })"

definition rateBar :: "'f platform \<Rightarrow> 'f runtimeConsole \<Rightarrow> 'f \<Rightarrow> runes option" where
  "rateBar P c rate =
     (let filled =
        (if fl_less P (fl_of_int P 0) rate \<and> fl_less P (fl_of_int P 0) (rc_peakRate c) then
           let filled0 = fl_to_int P (fl_add P (fl_mul P (fl_div P rate (rc_peakRate c)) (fl_of_int P trafficBarWidth)) (fl_half P));
               filled1 = (if filled0 < 1 then 1 else filled0) in
           if filled1 > trafficBarWidth then trafficBarWidth else filled1
         else 0) in do {
        full \<leftarrow> Repeat (Glyph 0x2588) filled;
        light \<leftarrow> Repeat (Glyph 0x2591) (trafficBarWidth - filled);
        Some (full @ light)
      })"

text \<open>The label of \<open>healthLine\<close> and its colour.\<close>

definition healthLabel :: "linkHealthState \<Rightarrow> string \<times> string" where
  "healthLabel h =
     (if \<not> lh_known h then (''UNKNOWN'', ''90'')
      else if \<not> lh_bound h then (''OFFLINE'', ''31'')
      else if lh_applicationPending h then (''DEGRADED'', ''33'')
      else if lh_heartbeatPending h \<or> lh_failures h > 0 then (''CHECKING'', ''33'')
      else (''HEALTHY'', ''32''))"

definition healthLine :: "'f platform \<Rightarrow> 'f runtimeConsole \<Rightarrow> runes option" where
  "healthLine P c =
     (let dot = [Glyph 0x25CF]; label = fst (healthLabel (rc_linkHealth c)); color = snd (healthLabel (rc_linkHealth c));
          lastHeartbeat = (if IsZero (lh_lastHeartbeat (rc_linkHealth c)) then ''--'' else pl_clock P (lh_lastHeartbeat (rc_linkHealth c)));
          content = dot @ ascii '' link '' @ padRight 9 (ascii label) @ ascii '' hb last '' @ ascii lastHeartbeat in do {
        line \<leftarrow> dashboardLine content;
        Some (if rc_color c then Replace1 line dot (paint (rc_color c) dot color) else line)
      })"

definition bufferLine :: "'f platform \<Rightarrow> 'f runtimeConsole \<Rightarrow> runes option" where
  "bufferLine P c =
     (let b = rc_bufferState c in
      if \<not> bf_known b then dashboardLine (ascii ''BUF queued -- reqs active -- data --'')
      else do {
        line \<leftarrow> dashboardLine (ascii ''BUF queued '' @ padRight 4 (ascii (itoa (bf_queued b))) @ ascii '' opening ''
                  @ padRight 4 (ascii (itoa (bf_opening b))) @ ascii '' active '' @ padRight 4 (ascii (itoa (bf_active b)))
                  @ ascii '' data '' @ padRight 10 (ascii (formatBytes P (fl_of_uint64 P (bf_bytes b)))));
        Some (if rc_color c then Replace1 line (ascii ''BUF'') (paint (rc_color c) (ascii ''BUF'') ''1;35'') else line)
      })"

definition savings :: "'f platform \<Rightarrow> u64 \<Rightarrow> u64 \<Rightarrow> 'f" where
  "savings P uncompressed compressed =
     (if uncompressed > 0
      then fl_mul P (fl_sub P (fl_of_int P 1) (fl_div P (fl_of_uint64 P compressed) (fl_of_uint64 P uncompressed))) (fl_of_int P 100)
      else fl_of_int P 0)"

definition compressionLine :: "'f platform \<Rightarrow> string \<Rightarrow> u64 \<Rightarrow> u64 \<Rightarrow> runes" where
  "compressionLine P direction uncompressed compressed =
     ascii direction @ ascii ''  uncompressed '' @ padRight 10 (ascii (formatBytes P (fl_of_uint64 P uncompressed))) @ ascii '' compressed ''
       @ padRight 10 (ascii (formatBytes P (fl_of_uint64 P compressed))) @ ascii '' saved '' @ padLeft 6 (ascii (fl_fixed P 1 (savings P uncompressed compressed)))
       @ ascii ''%''"

text \<open>A TX or RX row: the direction and the bar are painted where they first occur.\<close>

definition rateText :: "'f platform \<Rightarrow> string \<Rightarrow> u64 \<Rightarrow> 'f \<Rightarrow> runes" where
  "rateText P direction bytes rate =
     ascii direction @ ascii ''  total '' @ padRight 10 (ascii (formatBytes P (fl_of_uint64 P bytes))) @ ascii '' now ''
       @ padRight 11 (ascii (formatBytes P rate @ ''/s'')) @ ascii '' ''"

definition rateLine :: "'f platform \<Rightarrow> 'f runtimeConsole \<Rightarrow> string \<Rightarrow> u64 \<Rightarrow> 'f \<Rightarrow> string \<Rightarrow> string \<Rightarrow> runes option" where
  "rateLine P c direction bytes rate labelCode barCode = do {
     bar \<leftarrow> rateBar P c rate;
     line \<leftarrow> dashboardLine (rateText P direction bytes rate @ bar);
     Some (if rc_color c
           then Replace1 (Replace1 line (ascii direction) (paint (rc_color c) (ascii direction) labelCode)) bar (paint (rc_color c) bar barCode)
           else line)
   }"

definition compressionRow :: "'f platform \<Rightarrow> 'f runtimeConsole \<Rightarrow> string \<Rightarrow> u64 \<Rightarrow> u64 \<Rightarrow> string \<Rightarrow> runes option" where
  "compressionRow P c direction uncompressed compressed code = do {
     line \<leftarrow> dashboardLine (compressionLine P direction uncompressed compressed);
     Some (if rc_color c then Replace1 line (ascii direction) (paint (rc_color c) (ascii direction) code) else line)
   }"

definition totalText :: "'f platform \<Rightarrow> 'f runtimeConsole \<Rightarrow> traffic_snapshot \<Rightarrow> 'f \<Rightarrow> runes" where
  "totalText P c cur combinedRate =
     Glyph 0x21C5 # ascii ''   total '' @ padRight 10 (ascii (formatBytes P (fl_of_uint64 P (sn_TX cur + sn_RX cur)))) @ ascii '' now ''
       @ padRight 11 (ascii (formatBytes P combinedRate @ ''/s'')) @ ascii '' peak '' @ padRight 9 (ascii (formatBytes P (rc_peakCombinedRate c) @ ''/s''))"

definition trafficLines :: "'f platform \<Rightarrow> 'f runtimeConsole \<Rightarrow> traffic_snapshot \<Rightarrow> 'f \<Rightarrow> 'f \<Rightarrow> bool \<Rightarrow> runes list option" where
  "trafficLines P c cur txRate rxRate final = do {
     top \<leftarrow> dashboardTop (if final then ''FINAL'' else ''LIVE'');
     health \<leftarrow> healthLine P c;
     buffer \<leftarrow> bufferLine P c;
     txLine \<leftarrow> rateLine P c ''TX'' (sn_TX cur) txRate ''1;33'' ''33'';
     rxLine \<leftarrow> rateLine P c ''RX'' (sn_RX cur) rxRate ''1;32'' ''32'';
     compression \<leftarrow> (if sn_CompressionEnabled cur then do {
         txCompression \<leftarrow> compressionRow P c ''TX'' (sn_TXUncompressed cur) (sn_TXCompressed cur) ''1;33'';
         rxCompression \<leftarrow> compressionRow P c ''RX'' (sn_RXUncompressed cur) (sn_RXCompressed cur) ''1;32'';
         Some [txCompression, rxCompression]
       } else Some []);
     both \<leftarrow> dashboardLine (totalText P c cur (fl_add P txRate rxRate));
     rule \<leftarrow> Repeat (Glyph 0x2500) (trafficContentWidth + 2);
     Some ([paint (rc_color c) top ''1;36'', health, buffer, txLine, rxLine] @ compression @ [both, paint (rc_color c) (Glyph 0x2570 # rule @ [Glyph 0x256F]) ''1;36''])
   }"

definition trafficLinesFromCurrent :: "'f platform \<Rightarrow> 'f runtimeConsole \<Rightarrow> runes list \<Rightarrow> runes list option" where
  "trafficLinesFromCurrent P c previous =
     (if length previous < 3 then Some previous
      else do { health \<leftarrow> healthLine P c; buffer \<leftarrow> bufferLine P c; Some (previous[1 := health, 2 := buffer]) })"

text \<open>The rates of a report.\<close>

definition trafficRates :: "'f platform \<Rightarrow> traffic_snapshot \<Rightarrow> traffic_snapshot \<Rightarrow> duration \<Rightarrow> 'f \<times> 'f" where
  "trafficRates P cur previous elapsed =
     (fl_div P (fl_of_uint64 P (delta (sn_TX cur) (sn_TX previous))) (elapsedSeconds P elapsed),
      fl_div P (fl_of_uint64 P (delta (sn_RX cur) (sn_RX previous))) (elapsedSeconds P elapsed))"

section \<open>Operations\<close>

fun clearLines :: "nat \<Rightarrow> runes" where
  "clearLines 0 = []"
| "clearLines (Suc n) = carriage # escape # ascii ''[2K'' @ (if 0 < n then escape # ascii ''[1A'' @ clearLines n else [])"

definition clearLocked :: "'f runtimeConsole \<Rightarrow> runes" where
  "clearLocked c = clearLines (length (rc_lines c))"

definition drawLocked :: "'f runtimeConsole \<Rightarrow> runes" where
  "drawLocked c = Join (rc_lines c) [newline]"

text \<open>\<open>Write\<close>; what the output returns for the data and for the redrawing are arguments.\<close>

definition console_Write :: "runes \<Rightarrow> nat \<times> go_error option \<Rightarrow> go_error option \<Rightarrow> 'f runtimeConsole \<Rightarrow> (nat \<times> go_error option) \<times> runes" where
  "console_Write data written drawn c =
     (if \<not> rc_tui c \<or> rc_lines c = [] \<or> rc_closed c then (written, data)
      else ((fst written, if snd written = None then drawn else snd written), clearLocked c @ data @ drawLocked c))"

text \<open>
  \<open>log.Logger.Printf\<close> with the prefix and the flags of the console: prefix, date and time, message, and a newline unless the message ends in one. The logger does not look
  at what \<open>Write\<close> returns.
\<close>

definition logger_Printf :: "string \<Rightarrow> runes \<Rightarrow> 'f runtimeConsole \<Rightarrow> runes" where
  "logger_Printf stamp message c =
     (let line = ascii ''lightningbnb: '' @ ascii stamp @ ascii '' '' @ message in
      snd (console_Write (if last line = newline then line else line @ [newline]) (0, None) None c))"

text \<open>The end that the reports share: the dashboard is drawn again if it is shown.\<close>

definition redraw :: "'f platform \<Rightarrow> 'f runtimeConsole \<Rightarrow> (runes \<times> 'f runtimeConsole) option" where
  "redraw P c =
     (if rc_lines c = [] then Some ([], c)
      else do {
        lines \<leftarrow> trafficLinesFromCurrent P c (rc_lines c);
        Some (clearLocked c @ drawLocked (c\<lparr>rc_lines := lines\<rparr>), c\<lparr>rc_lines := lines\<rparr>)
      })"

definition ReportTraffic ::
  "'f platform \<Rightarrow> string \<Rightarrow> traffic_snapshot \<Rightarrow> traffic_snapshot \<Rightarrow> duration \<Rightarrow> bool \<Rightarrow> 'f runtimeConsole \<Rightarrow> (runes \<times> 'f runtimeConsole) option" where
  "ReportTraffic P stamp cur previous elapsed final c =
     (if \<not> rc_tui c then
        Some (logger_Printf stamp (ascii ((if final then ''traffic final'' else ''traffic'') @ '' '' @ formatTraffic P cur previous elapsed)) c, c)
      else
        (case trafficRates P cur previous elapsed of (txRate, rxRate) \<Rightarrow>
           if rc_closed c then Some ([], c)
           else
             let peak1 = (if fl_less P (rc_peakRate c) txRate then txRate else rc_peakRate c);
                 peak2 = (if fl_less P peak1 rxRate then rxRate else peak1);
                 combined = (if fl_less P (rc_peakCombinedRate c) (fl_add P txRate rxRate) then fl_add P txRate rxRate else rc_peakCombinedRate c);
                 c1 = c\<lparr>rc_peakRate := peak2, rc_peakCombinedRate := combined\<rparr> in do {
               lines \<leftarrow> trafficLines P c1 cur txRate rxRate final;
               Some (clearLocked c1 @ drawLocked (c1\<lparr>rc_lines := lines\<rparr>), c1\<lparr>rc_lines := lines\<rparr>)
             }))"

definition SetLinkSession :: "SessionID option \<Rightarrow> 'f runtimeConsole \<Rightarrow> 'f runtimeConsole" where
  "SetLinkSession session c = (if \<not> rc_tui c then c else c\<lparr>rc_healthSession := session\<rparr>)"

definition reportRefused :: "SessionID option \<Rightarrow> 'f runtimeConsole \<Rightarrow> bool" where
  "reportRefused session c \<longleftrightarrow> \<not> rc_tui c \<or> rc_closed c \<or> (session \<noteq> None \<and> rc_healthSession c \<noteq> session)"

definition healthOf :: "TransportSnapshot \<Rightarrow> bool \<Rightarrow> linkHealthState" where
  "healthOf snapshot applicationPending =
     \<lparr>lh_known = True, lh_bound = ts_Bound snapshot, lh_heartbeatPending = ts_HeartbeatPending snapshot,
      lh_failures = ts_HeartbeatConsecutiveFailures snapshot, lh_applicationPending = applicationPending, lh_lastHeartbeat = ts_LastHeartbeat snapshot\<rparr>"

definition ReportLinkAndBufferFor ::
  "'f platform \<Rightarrow> SessionID option \<Rightarrow> TransportSnapshot \<Rightarrow> int \<Rightarrow> int \<Rightarrow> int \<Rightarrow> u64 \<Rightarrow> 'f runtimeConsole \<Rightarrow> (runes \<times> 'f runtimeConsole) option" where
  "ReportLinkAndBufferFor P session snapshot queued opening active bytes c =
     (if reportRefused session c then Some ([], c)
      else redraw P (c\<lparr>rc_linkHealth := healthOf snapshot (opening > 0),
             rc_bufferState := \<lparr>bf_known = True, bf_queued = queued, bf_opening = opening, bf_active = active, bf_bytes = bytes\<rparr>\<rparr>))"

definition reportBuffer :: "'f platform \<Rightarrow> SessionID option \<Rightarrow> int \<Rightarrow> int \<Rightarrow> u64 \<Rightarrow> 'f runtimeConsole \<Rightarrow> (runes \<times> 'f runtimeConsole) option" where
  "reportBuffer P session queued active bytes c =
     (if reportRefused session c then Some ([], c)
      else redraw P (c\<lparr>rc_bufferState := \<lparr>bf_known = True, bf_queued = queued, bf_opening = 0, bf_active = active, bf_bytes = bytes\<rparr>\<rparr>))"

definition reportLinkHealth :: "'f platform \<Rightarrow> SessionID option \<Rightarrow> TransportSnapshot \<Rightarrow> 'f runtimeConsole \<Rightarrow> (runes \<times> 'f runtimeConsole) option" where
  "reportLinkHealth P session snapshot c =
     (if reportRefused session c then Some ([], c) else redraw P (c\<lparr>rc_linkHealth := healthOf snapshot False\<rparr>))"

definition console_Close :: "'f runtimeConsole \<Rightarrow> runes \<times> 'f runtimeConsole" where
  "console_Close c =
     (if rc_closed c then ([], c)
      else (if rc_tui c \<and> rc_lines c \<noteq> [] then [newline] else [], c\<lparr>rc_closed := True\<rparr>))"

text \<open>
  What a report of the server's health reporter does to the console. The closure was made for \<open>session\<close>, whose snapshot it passes on, but it reads
  the variable \<open>currentLink\<close> of the loop when it runs.
\<close>

definition serverHealthReport :: "'f platform \<Rightarrow> serverRun \<Rightarrow> Session \<Rightarrow> Mux \<Rightarrow> 'f runtimeConsole \<Rightarrow> (runes \<times> 'f runtimeConsole) option" where
  "serverHealthReport P st session sessionMux c =
     (let snapshot = transportSnapshot session in
      case Mux_Snapshot sessionMux of (streams, pendingAccepts, openingStreams) \<Rightarrow>
        ReportLinkAndBufferFor P (map_option s_id (sv_link st)) snapshot (int pendingAccepts) (int openingStreams) (int streams)
          (ts_OutstandingBytes snapshot + ts_BufferedRXBytes snapshot) c)"

end
