(* ===== verification/Console_Screen.thy ===== *)
theory Console_Screen
  imports Console Transition_System
begin

text \<open>
  What the output of the console shows. The reader is a terminal that understands the control sequences the console sends (ECMA-48, on a line discipline
  that starts a new line at \<open>\n\<close>): erase line, cursor up, and colours, which are not shown. It has as many columns and rows as are needed, and
  every rune takes one column.
\<close>

section \<open>A terminal\<close>

datatype terminal_mode = Ground | Escape | Csi runes

record terminal =
  te_rows :: "runes list"
  te_row :: nat
  te_col :: nat
  te_mode :: terminal_mode

definition blankTerminal :: terminal where
  "blankTerminal = \<lparr>te_rows = [[]], te_row = 0, te_col = 0, te_mode = Ground\<rparr>"

definition overwrite :: "nat \<Rightarrow> rune \<Rightarrow> runes \<Rightarrow> runes" where
  "overwrite col r row = take col (padRight col row) @ [r] @ drop (col + 1) row"

definition parameterRune :: "rune \<Rightarrow> bool" where
  "parameterRune r \<longleftrightarrow> (\<exists>c \<in> set ''0123456789;''. r = Ascii c)"

definition control :: "rune \<Rightarrow> runes \<Rightarrow> terminal \<Rightarrow> terminal" where
  "control r ps t =
     (if r = Ascii CHR ''K'' \<and> ps = ascii ''2'' then t\<lparr>te_rows := (te_rows t)[te_row t := []]\<rparr>
      else if r = Ascii CHR ''A'' \<and> ps = ascii ''1'' then t\<lparr>te_row := te_row t - 1\<rparr>
      else t)"

definition receive :: "rune \<Rightarrow> terminal \<Rightarrow> terminal" where
  "receive r t =
     (case te_mode t of
        Ground \<Rightarrow>
          if r = newline then
            t\<lparr>te_rows := (if te_row t + 1 < length (te_rows t) then te_rows t else te_rows t @ [[]]), te_row := te_row t + 1, te_col := 0\<rparr>
          else if r = carriage then t\<lparr>te_col := 0\<rparr>
          else if r = escape then t\<lparr>te_mode := Escape\<rparr>
          else t\<lparr>te_rows := (te_rows t)[te_row t := overwrite (te_col t) r (te_rows t ! te_row t)], te_col := te_col t + 1\<rparr>
      | Escape \<Rightarrow> t\<lparr>te_mode := (if r = Ascii CHR ''['' then Csi [] else Ground)\<rparr>
      | Csi ps \<Rightarrow> if parameterRune r then t\<lparr>te_mode := Csi (ps @ [r])\<rparr> else (control r ps t)\<lparr>te_mode := Ground\<rparr>)"

definition feed :: "runes \<Rightarrow> terminal \<Rightarrow> terminal" where
  "feed rs t = fold receive rs t"

lemma feed_simps [simp]: "feed [] t = t" "feed (r # rs) t = feed rs (receive r t)" "feed (rs @ rs') t = feed rs' (feed rs t)"
  by (simp_all add: feed_def)

section \<open>Text that stays on its row\<close>

text \<open>What a text shows: its printable runes; colour sequences show nothing, and any other control is refused.\<close>

fun ink :: "terminal_mode \<Rightarrow> rune \<Rightarrow> (runes \<times> terminal_mode) option" where
  "ink Ground r = (if r = escape then Some ([], Escape) else if printable r then Some ([r], Ground) else None)"
| "ink Escape r = (if r = Ascii CHR ''['' then Some ([], Csi []) else None)"
| "ink (Csi ps) r = (if parameterRune r then Some ([], Csi (ps @ [r])) else if r = Ascii CHR ''m'' then Some ([], Ground) else None)"

fun scan_text :: "terminal_mode \<Rightarrow> runes \<Rightarrow> (runes \<times> terminal_mode) option" where
  "scan_text m [] = Some ([], m)"
| "scan_text m (r # rs) =
     (case ink m r of None \<Rightarrow> None
      | Some (out, m1) \<Rightarrow> (case scan_text m1 rs of None \<Rightarrow> None | Some (out2, m2) \<Rightarrow> Some (out @ out2, m2)))"

definition displays :: "runes \<Rightarrow> runes \<Rightarrow> bool" where
  "displays l v \<longleftrightarrow> scan_text Ground l = Some (v, Ground)"

lemma scan_append:
  "scan_text m (xs @ ys) =
     (case scan_text m xs of None \<Rightarrow> None
      | Some (v, m1) \<Rightarrow> (case scan_text m1 ys of None \<Rightarrow> None | Some (v2, m2) \<Rightarrow> Some (v @ v2, m2)))"
  by (induction xs arbitrary: m) (auto split: option.split)

lemma displays_append [intro]: "displays a v \<Longrightarrow> displays b w \<Longrightarrow> displays (a @ b) (v @ w)"
  by (simp add: displays_def scan_append)

lemma displays_Nil [simp]: "displays [] v \<longleftrightarrow> v = []"
  by (auto simp: displays_def)

lemma displays_printable: "list_all printable l \<Longrightarrow> displays l l"
proof (induction l)
  case (Cons r rs)
  then have "r \<noteq> escape" "printable r" "scan_text Ground rs = Some (rs, Ground)" by (auto simp: displays_def)
  then show ?case by (simp add: displays_def)
qed simp

lemma scan_parameters: "list_all parameterRune ps \<Longrightarrow> scan_text (Csi qs) ps = Some ([], Csi (qs @ ps))"
  by (induction ps arbitrary: qs) simp_all

lemma displays_paint:
  assumes "displays t v" and "list_all parameterRune (ascii code)"
  shows "displays (paint color t code) v"
proof (cases color)
  case True
  have "displays (escape # ascii ''['' @ ascii code @ ascii ''m'') []"
    using scan_parameters [OF assms(2), of "[]"] by (simp add: displays_def scan_append parameterRune_def)
  moreover have "displays (escape # ascii ''[0m'') []" by (simp add: displays_def parameterRune_def)
  ultimately have "displays ((escape # ascii ''['' @ ascii code @ ascii ''m'') @ t @ (escape # ascii ''[0m'')) ([] @ v @ [])"
    using assms(1) by (intro displays_append)
  then show ?thesis using True by (simp add: paint_def)
qed (use assms in \<open>simp add: paint_def\<close>)

text \<open>A piece that has no rune of a control sequence can be painted wherever it is first found.\<close>

definition plain :: "rune \<Rightarrow> bool" where
  "plain r \<longleftrightarrow> printable r \<and> \<not> parameterRune r \<and> r \<notin> set (ascii ''[m'')"

lemma plain_ground: "plain r \<Longrightarrow> ink m r = Some (out, m1) \<Longrightarrow> m = Ground \<and> m1 = Ground \<and> out = [r]"
  by (cases m) (auto simp: plain_def split: if_splits)

lemma displays_Replace1:
  assumes "displays l v" and "old \<noteq> []" and "list_all plain old" and "list_all parameterRune (ascii code)"
  shows "displays (Replace1 l old (paint color old code)) v"
proof (rule Replace1_cases [OF assms(2), of l "paint color old code"])
  fix pre post
  assume l: "l = pre @ old @ post" and new: "Replace1 l old (paint color old code) = pre @ paint color old code @ post"
  obtain v1 m1 v2 m2 v3 where s: "scan_text Ground pre = Some (v1, m1)" "scan_text m1 old = Some (v2, m2)" "scan_text m2 post = Some (v3, Ground)"
    and v: "v = v1 @ v2 @ v3"
    using assms(1) by (auto simp: displays_def l scan_append split: option.splits)
  obtain r rs where old: "old = r # rs" using assms(2) by (cases old) auto
  then have m1: "m1 = Ground" using s(2) assms(3) plain_ground by (auto split: option.splits)
  have pr: "displays old old" using assms(3) by (intro displays_printable) (auto simp: list_all_iff plain_def)
  then have m2: "m2 = Ground" and v2: "v2 = old" using s(2) m1 by (auto simp: displays_def)
  have "displays pre v1" "displays post v3" "displays (paint color old code) old"
    using s m1 m2 displays_paint [OF pr assms(4)] by (simp_all add: displays_def)
  then have "displays (pre @ paint color old code @ post) (v1 @ old @ v3)" by blast
  then show ?thesis using new v v2 by simp
qed (use assms(1) in simp)

section \<open>The cursor\<close>

text \<open>The cursor is on row \<open>w\<close>, below the rows \<open>A\<close> and above the rows \<open>B\<close>.\<close>

definition cursor :: "runes list \<Rightarrow> runes \<Rightarrow> runes list \<Rightarrow> nat \<Rightarrow> terminal" where
  "cursor A w B col = \<lparr>te_rows = A @ w # B, te_row = length A, te_col = col, te_mode = Ground\<rparr>"

lemma receive_printable: "printable r \<Longrightarrow> receive r (cursor A w B (length w)) = cursor A (w @ [r]) B (length w + 1)"
  by (auto simp: receive_def cursor_def overwrite_def padRight_def)

lemma receive_ink:
  assumes "ink m r = Some (out, m1)"
  shows "receive r ((cursor A w B (length w))\<lparr>te_mode := m\<rparr>) = (cursor A (w @ out) B (length (w @ out)))\<lparr>te_mode := m1\<rparr>"
proof (cases m)
  case Ground
  have g: "(cursor A u B c)\<lparr>te_mode := Ground\<rparr> = cursor A u B c" for u c by (simp add: cursor_def)
  show ?thesis
  proof (cases "r = escape")
    case True
    then show ?thesis using assms Ground by (auto simp: receive_def cursor_def)
  next
    case False
    then have "printable r" "out = [r]" "m1 = Ground" using assms Ground by (auto split: if_splits)
    then show ?thesis using Ground g receive_printable [of r A w B] by simp
  qed
qed (use assms in \<open>auto simp: receive_def cursor_def control_def split: if_splits\<close>)

lemma feed_scan:
  "scan_text m l = Some (v, m1) \<Longrightarrow>
     feed l ((cursor A w B (length w))\<lparr>te_mode := m\<rparr>) = (cursor A (w @ v) B (length (w @ v)))\<lparr>te_mode := m1\<rparr>"
proof (induction l arbitrary: m w v)
  case (Cons r rs)
  then obtain out m2 v2 where "ink m r = Some (out, m2)" "scan_text m2 rs = Some (v2, m1)" "v = out @ v2"
    by (auto split: option.splits)
  then show ?case using Cons.IH [of m2 v2 "w @ out"] receive_ink [of m r out m2 A w B] by simp
qed simp

lemma feed_displays:
  assumes "displays l v"
  shows "feed l (cursor A w B (length w)) = cursor A (w @ v) B (length (w @ v))"
proof -
  have g: "(cursor A u B c)\<lparr>te_mode := Ground\<rparr> = cursor A u B c" for u c by (simp add: cursor_def)
  show ?thesis using feed_scan [of Ground l v Ground A w B] assms by (simp add: displays_def g)
qed

lemma feed_newline: "receive newline (cursor A w (replicate k []) c) = cursor (A @ [w]) [] (replicate (k - 1) []) 0"
  by (cases k) (auto simp: receive_def cursor_def)

lemma feed_erase: "feed (carriage # escape # ascii ''[2K'') (cursor A w B c) = cursor A [] B 0"
  by (simp add: receive_def cursor_def parameterRune_def control_def)

lemma feed_up: "feed (escape # ascii ''[1A'') (cursor (A @ [u]) w B 0) = cursor A u (w # B) 0"
  by (simp add: receive_def cursor_def parameterRune_def control_def)

lemma feed_clearLines: "length S = n \<Longrightarrow> feed (clearLines (Suc n)) (cursor (A @ S) w B c) = cursor A [] (replicate n [] @ B) 0"
proof (induction n arbitrary: S w B c)
  case 0
  then show ?case using feed_erase [of A w B c] by (simp del: feed_simps)
next
  case (Suc n)
  then obtain S' u where S: "S = S' @ [u]" "length S' = n" by (cases S rule: rev_cases) auto
  have "clearLines (Suc (Suc n)) = (carriage # escape # ascii ''[2K'') @ (escape # ascii ''[1A'') @ clearLines (Suc n)"
    by (subst clearLines.simps(2)) simp
  then have "feed (clearLines (Suc (Suc n))) (cursor (A @ S) w B c) = feed (clearLines (Suc n)) (feed (escape # ascii ''[1A'') (feed (carriage # escape # ascii ''[2K'') (cursor (A @ S) w B c)))"
    by (simp only: feed_simps(3))
  also have "\<dots> = feed (clearLines (Suc n)) (cursor (A @ S') u ([] # B) 0)"
    using feed_erase [of "A @ S" w B c] feed_up [of "A @ S'" u "[]" B] S(1) by (simp del: feed_simps)
  also have "\<dots> = cursor A [] (replicate n [] @ [] # B) 0" by (rule Suc.IH [OF S(2)])
  also have "replicate n [] @ [] # B = replicate (Suc n) [] @ B" by (simp add: replicate_append_same)
  finally show ?case .
qed

lemma feed_Join:
  "list_all2 displays ls vs \<Longrightarrow> ls \<noteq> [] \<Longrightarrow>
     \<exists>j. feed (Join ls [newline]) (cursor A [] (replicate k []) 0) = cursor (A @ butlast vs) (last vs) (replicate j []) (length (last vs))"
proof (induction ls "[newline]" arbitrary: vs A k rule: Join.induct)
  case (2 l)
  then obtain v where "vs = [v]" "displays l v" by (auto simp: list_all2_Cons1)
  then show ?case using feed_displays [of l v A "[]" "replicate k []"] by auto
next
  case (3 l m ls)
  then obtain v ws where vs: "vs = v # ws" "displays l v" "list_all2 displays (m # ls) ws" by (auto simp: list_all2_Cons1)
  then have ws: "ws \<noteq> []" by auto
  have "feed (Join (l # m # ls) [newline]) (cursor A [] (replicate k []) 0) = feed (Join (m # ls) [newline]) (cursor (A @ [v]) [] (replicate (k - 1) []) 0)"
    using feed_displays [OF vs(2), of A "[]"] feed_newline [of A v k] by simp
  moreover obtain j where "feed (Join (m # ls) [newline]) (cursor (A @ [v]) [] (replicate (k - 1) []) 0) =
      cursor ((A @ [v]) @ butlast ws) (last ws) (replicate j []) (length (last ws))"
    using 3(1) [OF vs(3)] by blast
  ultimately show ?case using vs(1) ws by auto
qed simp

section \<open>The dashboard\<close>

lemma Repeat_Some: "0 \<le> n \<Longrightarrow> Repeat r n = Some (replicate (nat n) r)"
  by (simp add: Repeat_def)

lemma printable_simps [simp]:
  "printable (Glyph n)" "list_all printable (padRight n l) = list_all printable l" "list_all printable (padLeft n l) = list_all printable l"
  by (auto simp: printable_def padRight_def padLeft_def list_all_iff)

text \<open>A row: it is drawn without a panic, and what it shows is as wide as its content needs, at least the 68 columns of the dashboard.\<close>

definition dashboard_row :: "runes option \<Rightarrow> nat \<Rightarrow> bool" where
  "dashboard_row row n \<longleftrightarrow> (\<exists>l v. row = Some l \<and> displays l v \<and> length v = max 64 n + 4)"

lemma dashboardTop_ok: "dashboard_row (map_option (\<lambda>l. paint color l ''1;36'') (dashboardTop (if final then ''FINAL'' else ''LIVE''))) 0"
proof -
  have "\<exists>l. dashboardTop ''FINAL'' = Some l \<and> list_all printable l \<and> length l = 68"
    "\<exists>l. dashboardTop ''LIVE'' = Some l \<and> list_all printable l \<and> length l = 68"
    by (simp_all add: dashboardTop_def Repeat_def trafficContentWidth_def padRight_def printable_def list_all_iff)
  then obtain l where "dashboardTop (if final then ''FINAL'' else ''LIVE'') = Some l" "list_all printable l" "length l = 68"
    by (cases final) auto
  then show ?thesis using displays_paint [OF displays_printable, of l "''1;36''" color] by (auto simp: dashboard_row_def parameterRune_def)
qed

lemma dashboardLine_displays:
  assumes "list_all printable content"
  shows "\<exists>l. dashboardLine content = Some l \<and> displays l l \<and> length l = max 64 (length content) + 4"
  using assms
  by (auto simp: dashboardLine_def Repeat_def trafficContentWidth_def Let_def list_all_iff printable_def intro!: displays_printable)

lemma dashboardLine_ok: "list_all printable content \<Longrightarrow> dashboard_row (dashboardLine content) (length content)"
  using dashboardLine_displays by (fastforce simp: dashboard_row_def)

text \<open>Painting the first occurrence of a piece changes nothing in what a row shows.\<close>

lemma painted_row:
  assumes "dashboard_row row n" and "list_all plain old" and "old \<noteq> []" and "list_all parameterRune (ascii code)"
  shows "dashboard_row (row \<bind> (\<lambda>line. Some (if color then Replace1 line old (paint color old code) else line))) n"
  using assms displays_Replace1 [OF _ assms(3,2,4)] by (fastforce simp: dashboard_row_def)

lemma rateBar_ok: "\<exists>bar. rateBar P c rate = Some bar \<and> length bar = 14 \<and> list_all plain bar"
  by (auto simp: rateBar_def Repeat_def trafficBarWidth_def Let_def list_all_iff plain_def parameterRune_def nat_diff_distrib)

text \<open>The platform formats numbers and times with printable characters.\<close>

definition clean :: "'f platform \<Rightarrow> bool" where
  "clean P \<longleftrightarrow> (\<forall>n x. list_all printable (ascii (fl_fixed P n x))) \<and> (\<forall>t. list_all printable (ascii (pl_clock P t)))"

lemma printable_itoa [simp]: "list_all printable (ascii (itoa i))"
proof -
  have "is_digit c \<Longrightarrow> printable (Ascii c)" for c by (auto simp: is_digit_def printable_def)
  then have d: "list_all printable (ascii (digits_of n))" for n using digits_of_props [of n] by (auto simp: list_all_iff)
  then show ?thesis by (simp add: itoa_def) (simp add: printable_def)
qed

lemma printable_formatBytes: "clean P \<Longrightarrow> list_all printable (ascii (formatBytes P x))"
proof -
  assume c: "clean P"
  have "snd (scaleBytes P x 0) \<in> {0, 1, 2, 3, 4}" using scaleBytes_unit [of 0 P x] by auto
  then have "list_all printable (ascii ([''B'', ''KiB'', ''MiB'', ''GiB'', ''TiB''] ! snd (scaleBytes P x 0)))" by (auto simp: printable_def)
  then show ?thesis using c by (simp add: formatBytes_def clean_def case_prod_beta printable_def)
qed

section \<open>Rows of the dashboard\<close>

lemma length_pad [simp]: "length (padRight n l) = max n (length l)" "length (padLeft n l) = max n (length l)"
  by (simp_all add: padRight_def padLeft_def)

lemma healthLabel_text: "list_all printable (ascii (fst (healthLabel h))) \<and> length (fst (healthLabel h)) \<le> 9 \<and> list_all parameterRune (ascii (snd (healthLabel h)))"
  by (simp add: healthLabel_def printable_def parameterRune_def)

lemma healthLine_ok:
  assumes "clean P"
  obtains n where "dashboard_row (healthLine P c) n" and "n \<le> 25 + max 2 (length (pl_clock P (lh_lastHeartbeat (rc_linkHealth c))))"
proof -
  let ?h = "rc_linkHealth c"
  define last where "last = (if IsZero (lh_lastHeartbeat ?h) then ''--'' else pl_clock P (lh_lastHeartbeat ?h))"
  define content where "content = [Glyph 0x25CF] @ ascii '' link '' @ padRight 9 (ascii (fst (healthLabel ?h))) @ ascii '' hb last '' @ ascii last"
  have "list_all printable (ascii last)" using assms by (simp add: last_def clean_def) (simp add: printable_def)
  then have "dashboard_row (dashboardLine content) (length content)"
    using healthLabel_text [of ?h] by (intro dashboardLine_ok) (simp add: content_def, simp add: printable_def)
  moreover have "list_all plain [Glyph 0x25CF]" by (simp add: plain_def parameterRune_def)
  ultimately have "dashboard_row (healthLine P c) (length content)"
    using healthLabel_text [of ?h] unfolding healthLine_def Let_def content_def last_def by (intro painted_row) auto
  moreover have "length content \<le> 25 + max 2 (length (pl_clock P (lh_lastHeartbeat ?h)))"
    using healthLabel_text [of ?h] by (auto simp: content_def last_def max_def)
  ultimately show ?thesis using that by blast
qed

lemma bufferLine_ok:
  assumes "clean P"
  obtains n where "dashboard_row (bufferLine P c) n"
    and "n \<le> 34 + max 4 (length (itoa (bf_queued (rc_bufferState c)))) + max 4 (length (itoa (bf_opening (rc_bufferState c))))
           + max 4 (length (itoa (bf_active (rc_bufferState c)))) + max 10 (length (formatBytes P (fl_of_uint64 P (bf_bytes (rc_bufferState c)))))"
proof (cases "bf_known (rc_bufferState c)")
  case True
  let ?b = "rc_bufferState c"
  define content where "content = ascii ''BUF queued '' @ padRight 4 (ascii (itoa (bf_queued ?b))) @ ascii '' opening ''
                  @ padRight 4 (ascii (itoa (bf_opening ?b))) @ ascii '' active '' @ padRight 4 (ascii (itoa (bf_active ?b)))
                  @ ascii '' data '' @ padRight 10 (ascii (formatBytes P (fl_of_uint64 P (bf_bytes ?b))))"
  have "dashboard_row (dashboardLine content) (length content)"
    using printable_formatBytes [OF assms] by (intro dashboardLine_ok) (simp add: content_def, simp add: printable_def)
  moreover have "list_all plain (ascii ''BUF'')" "list_all parameterRune (ascii ''1;35'')" by (simp_all add: plain_def parameterRune_def printable_def)
  ultimately have "dashboard_row (dashboardLine content \<bind> (\<lambda>line. Some (if rc_color c then Replace1 line (ascii ''BUF'') (paint (rc_color c) (ascii ''BUF'') ''1;35'') else line))) (length content)"
    by (intro painted_row) auto
  then have "dashboard_row (bufferLine P c) (length content)" using True unfolding bufferLine_def Let_def content_def by (simp only: not_True_eq_False if_False)
  then show ?thesis using that by (simp add: content_def)
next
  case False
  have "list_all printable (ascii ''BUF queued -- reqs active -- data --'')" by (simp add: printable_def)
  from dashboardLine_ok [OF this] show ?thesis using that False by (simp add: bufferLine_def)
qed

lemma rateLine_ok:
  assumes "clean P" and "direction \<in> {''TX'', ''RX''}" and "list_all parameterRune (ascii labelCode)" and "list_all parameterRune (ascii barCode)"
  obtains n where "dashboard_row (rateLine P c direction bytes rate labelCode barCode) n"
    and "n \<le> 30 + max 10 (length (formatBytes P (fl_of_uint64 P bytes))) + max 11 (length (formatBytes P rate) + 2)"
proof -
  obtain bar where bar: "rateBar P c rate = Some bar" "length bar = 14" "list_all plain bar" using rateBar_ok [of P c rate] by blast
  define content where "content = rateText P direction bytes rate @ bar"
  have "list_all printable bar" using bar(3) by (auto simp: list_all_iff plain_def)
  then have "dashboard_row (dashboardLine content) (length content)"
    using printable_formatBytes [OF assms(1)] assms(2) by (intro dashboardLine_ok) (auto simp: content_def rateText_def, simp_all add: printable_def)
  moreover have "list_all plain (ascii direction)" "direction \<noteq> ''''" using assms(2) by (auto simp: plain_def parameterRune_def printable_def)
  ultimately have "dashboard_row (dashboardLine content \<bind> (\<lambda>line. Some (if rc_color c then Replace1 line (ascii direction) (paint (rc_color c) (ascii direction) labelCode) else line))) (length content)"
    using assms(3) by (intro painted_row) auto
  then have "dashboard_row ((dashboardLine content \<bind> (\<lambda>line. Some (if rc_color c then Replace1 line (ascii direction) (paint (rc_color c) (ascii direction) labelCode) else line)))
      \<bind> (\<lambda>line. Some (if rc_color c then Replace1 line bar (paint (rc_color c) bar barCode) else line))) (length content)"
    by (rule painted_row) (use bar(2,3) assms(4) in auto)
  then have "dashboard_row (rateLine P c direction bytes rate labelCode barCode) (length content)"
    unfolding rateLine_def bar(1) content_def by (cases "dashboardLine (rateText P direction bytes rate @ bar)"; cases "rc_color c") simp_all
  then show ?thesis using that assms(2) bar(2) by (auto simp: content_def rateText_def)
qed

lemma compressionRow_ok:
  assumes "clean P" and "direction \<in> {''TX'', ''RX''}" and "list_all parameterRune (ascii code)"
  shows "dashboard_row (compressionRow P c direction u v code) (length (compressionLine P direction u v))"
proof -
  have "list_all printable (compressionLine P direction u v)"
    using printable_formatBytes [OF assms(1)] assms(1,2) by (auto simp: compressionLine_def clean_def, simp_all add: printable_def)
  from painted_row [OF dashboardLine_ok [OF this], of "ascii direction" code] assms show ?thesis
    unfolding compressionRow_def by (auto simp: plain_def parameterRune_def printable_def)
qed

lemma totalText_ok: "clean P \<Longrightarrow> dashboard_row (dashboardLine (totalText P c cur r)) (length (totalText P c cur r))"
  using printable_formatBytes by (intro dashboardLine_ok) (auto simp: totalText_def, simp_all add: printable_def)

lemma bottom_ok: "dashboard_row (Repeat (Glyph 0x2500) (trafficContentWidth + 2) \<bind> (\<lambda>rule. Some (paint color (Glyph 0x2570 # rule @ [Glyph 0x256F]) ''1;36''))) 0"
  using displays_paint [OF displays_printable, of "Glyph 0x2570 # replicate 66 (Glyph 0x2500) @ [Glyph 0x256F]" "''1;36''" color]
  by (auto simp: dashboard_row_def Repeat_def trafficContentWidth_def parameterRune_def list_all_iff)

text \<open>The texts of a dashboard are narrow: at most ten runes for an amount, eight for the clock, four for a count, seven for the savings.\<close>

definition narrow :: "'f platform \<Rightarrow> 'f runtimeConsole \<Rightarrow> traffic_snapshot \<Rightarrow> 'f \<Rightarrow> 'f \<Rightarrow> bool" where
  "narrow P c cur txRate rxRate \<longleftrightarrow>
     length (pl_clock P (lh_lastHeartbeat (rc_linkHealth c))) \<le> 8
     \<and> list_all (\<lambda>i. length (itoa i) \<le> 4) [bf_queued (rc_bufferState c), bf_opening (rc_bufferState c), bf_active (rc_bufferState c)]
     \<and> list_all (\<lambda>w. length (formatBytes P (fl_of_uint64 P w)) \<le> 10)
         [bf_bytes (rc_bufferState c), sn_TX cur, sn_RX cur, sn_TX cur + sn_RX cur, sn_TXUncompressed cur, sn_TXCompressed cur, sn_RXUncompressed cur, sn_RXCompressed cur]
     \<and> list_all (\<lambda>x. length (formatBytes P x) \<le> 10) [txRate, rxRate, fl_add P txRate rxRate, rc_peakCombinedRate c]
     \<and> length (fl_fixed P 1 (savings P (sn_TXUncompressed cur) (sn_TXCompressed cur))) \<le> 7
     \<and> length (fl_fixed P 1 (savings P (sn_RXUncompressed cur) (sn_RXCompressed cur))) \<le> 7"

lemma trafficLines_ok:
  assumes "clean P"
  obtains ls vs where "trafficLines P c cur txRate rxRate final = Some ls" and "list_all2 displays ls vs"
    and "length ls = (if sn_CompressionEnabled cur then 9 else 7)" and "narrow P c cur txRate rxRate \<Longrightarrow> list_all (\<lambda>v. length v = 68) vs"
proof -
  let ?N = "narrow P c cur txRate rxRate"
  let ?row = "\<lambda>row l v. row = Some l \<and> displays l v \<and> (?N \<longrightarrow> length v = 68)"
  have row: "\<exists>l v. ?row r l v" if "dashboard_row r n" "?N \<Longrightarrow> n \<le> 64" for r n
    using that by (fastforce simp: dashboard_row_def)
  have code: "list_all parameterRune (ascii x)" if "x \<in> {''1;33'', ''33'', ''1;32'', ''32''}" for x using that by (auto simp: parameterRune_def)
  have pad: "max a b \<le> c \<longleftrightarrow> a \<le> c \<and> b \<le> c" for a b c :: nat by simp
  obtain t0 where top: "dashboardTop (if final then ''FINAL'' else ''LIVE'') = Some t0"
    using dashboardTop_ok [of False final] by (auto simp: dashboard_row_def)
  obtain v0 where top_v: "displays (paint (rc_color c) t0 ''1;36'') v0" "length v0 = 68"
    using dashboardTop_ok [of "rc_color c" final] top by (auto simp: dashboard_row_def)
  obtain n1 where n1: "dashboard_row (healthLine P c) n1" "n1 \<le> 25 + max 2 (length (pl_clock P (lh_lastHeartbeat (rc_linkHealth c))))"
    by (rule healthLine_ok [OF assms])
  have "n1 \<le> 64" if ?N using n1(2) that by (auto simp: narrow_def)
  then obtain l1 v1 where h: "?row (healthLine P c) l1 v1" using row [OF n1(1)] by blast
  obtain n2 where n2: "dashboard_row (bufferLine P c) n2" "n2 \<le> 34 + max 4 (length (itoa (bf_queued (rc_bufferState c)))) + max 4 (length (itoa (bf_opening (rc_bufferState c))))
           + max 4 (length (itoa (bf_active (rc_bufferState c)))) + max 10 (length (formatBytes P (fl_of_uint64 P (bf_bytes (rc_bufferState c)))))"
    by (rule bufferLine_ok [OF assms])
  have "n2 \<le> 64" if ?N using n2(2) that by (simp add: narrow_def max.absorb1)
  then obtain l2 v2 where b: "?row (bufferLine P c) l2 v2" using row [OF n2(1)] by blast
  obtain n3 where n3: "dashboard_row (rateLine P c ''TX'' (sn_TX cur) txRate ''1;33'' ''33'') n3"
    "n3 \<le> 30 + max 10 (length (formatBytes P (fl_of_uint64 P (sn_TX cur)))) + max 11 (length (formatBytes P txRate) + 2)"
    by (rule rateLine_ok [OF assms, of "''TX''" "''1;33''" "''33''" c "sn_TX cur" txRate]) (simp_all add: parameterRune_def)
  have "n3 \<le> 64" if ?N using n3(2) that by (simp add: narrow_def max_def split: if_splits)
  then obtain l3 v3 where tx: "?row (rateLine P c ''TX'' (sn_TX cur) txRate ''1;33'' ''33'') l3 v3" using row [OF n3(1)] by blast
  obtain n4 where n4: "dashboard_row (rateLine P c ''RX'' (sn_RX cur) rxRate ''1;32'' ''32'') n4"
    "n4 \<le> 30 + max 10 (length (formatBytes P (fl_of_uint64 P (sn_RX cur)))) + max 11 (length (formatBytes P rxRate) + 2)"
    by (rule rateLine_ok [OF assms, of "''RX''" "''1;32''" "''32''" c "sn_RX cur" rxRate]) (simp_all add: parameterRune_def)
  have "n4 \<le> 64" if ?N using n4(2) that by (simp add: narrow_def max_def split: if_splits)
  then obtain l4 v4 where rx: "?row (rateLine P c ''RX'' (sn_RX cur) rxRate ''1;32'' ''32'') l4 v4" using row [OF n4(1)] by blast
  have cTX: "dashboard_row (compressionRow P c ''TX'' (sn_TXUncompressed cur) (sn_TXCompressed cur) ''1;33'') (length (compressionLine P ''TX'' (sn_TXUncompressed cur) (sn_TXCompressed cur)))"
    by (rule compressionRow_ok [OF assms]) (simp_all add: parameterRune_def)
  have "length (compressionLine P ''TX'' (sn_TXUncompressed cur) (sn_TXCompressed cur)) \<le> 64" if ?N using that by (simp add: narrow_def compressionLine_def)
  then obtain l5 v5 where ct: "?row (compressionRow P c ''TX'' (sn_TXUncompressed cur) (sn_TXCompressed cur) ''1;33'') l5 v5"
    using row [OF cTX] by blast
  have cRX: "dashboard_row (compressionRow P c ''RX'' (sn_RXUncompressed cur) (sn_RXCompressed cur) ''1;32'') (length (compressionLine P ''RX'' (sn_RXUncompressed cur) (sn_RXCompressed cur)))"
    by (rule compressionRow_ok [OF assms]) (simp_all add: parameterRune_def)
  have "length (compressionLine P ''RX'' (sn_RXUncompressed cur) (sn_RXCompressed cur)) \<le> 64" if ?N using that by (simp add: narrow_def compressionLine_def)
  then obtain l6 v6 where cr: "?row (compressionRow P c ''RX'' (sn_RXUncompressed cur) (sn_RXCompressed cur) ''1;32'') l6 v6"
    using row [OF cRX] by blast
  have "length (totalText P c cur (fl_add P txRate rxRate)) \<le> 64" if ?N using that by (simp add: narrow_def totalText_def max_def)
  then obtain l7 v7 where to: "?row (dashboardLine (totalText P c cur (fl_add P txRate rxRate))) l7 v7"
    using row [OF totalText_ok [OF assms]] by blast
  obtain l8 where bo: "Repeat (Glyph 0x2500) (trafficContentWidth + 2) = Some l8" by (simp add: Repeat_def trafficContentWidth_def)
  then obtain v8 where bo_v: "displays (paint (rc_color c) (Glyph 0x2570 # l8 @ [Glyph 0x256F]) ''1;36'') v8" "length v8 = 68"
    using bottom_ok [of "rc_color c"] by (auto simp: dashboard_row_def)
  define comp where "comp = (if sn_CompressionEnabled cur then [l5, l6] else [])"
  define ls where "ls = [paint (rc_color c) t0 ''1;36'', l1, l2, l3, l4] @ comp @ [l7, paint (rc_color c) (Glyph 0x2570 # l8 @ [Glyph 0x256F]) ''1;36'']"
  define vs where "vs = [v0, v1, v2, v3, v4] @ (if sn_CompressionEnabled cur then [v5, v6] else []) @ [v7, v8]"
  have "trafficLines P c cur txRate rxRate final = Some ls"
    using h b tx rx ct cr to bo unfolding trafficLines_def top ls_def comp_def by (cases "sn_CompressionEnabled cur") simp_all
  moreover have "list_all2 displays ls vs" using top_v h b tx rx ct cr to bo_v by (simp add: ls_def vs_def comp_def)
  moreover have "length ls = (if sn_CompressionEnabled cur then 9 else 7)" by (simp add: ls_def comp_def)
  moreover have "?N \<Longrightarrow> list_all (\<lambda>v. length v = 68) vs" using top_v h b tx rx ct cr to bo_v by (simp add: vs_def)
  ultimately show ?thesis using that by blast
qed

lemma trafficLinesFromCurrent_ok:
  assumes "clean P" and "list_all2 displays ls vs"
  obtains ls' vs' where "trafficLinesFromCurrent P c ls = Some ls'" and "list_all2 displays ls' vs'" and "length ls' = length ls"
proof (cases "length ls < 3")
  case False
  obtain l1 v1 where h: "healthLine P c = Some l1" "displays l1 v1" by (rule healthLine_ok [OF assms(1), of c]) (auto simp: dashboard_row_def)
  obtain l2 v2 where b: "bufferLine P c = Some l2" "displays l2 v2" by (rule bufferLine_ok [OF assms(1), of c]) (auto simp: dashboard_row_def)
  have "list_all2 displays (ls[1 := l1, 2 := l2]) (vs[1 := v1, 2 := v2])" using assms(2) h(2) b(2) by (intro list_all2_update_cong)
  then show ?thesis using that False h(1) b(1) by (simp add: trafficLinesFromCurrent_def)
qed (use that assms(2) in \<open>auto simp: trafficLinesFromCurrent_def\<close>)

section \<open>A run of the console\<close>

datatype console_event =
    LogLine string runes
  | TrafficReport string traffic_snapshot traffic_snapshot duration bool
  | LinkReport "SessionID option" TransportSnapshot int int int u64
  | BufferReport "SessionID option" int int u64
  | HealthReport "SessionID option" TransportSnapshot
  | SessionChanged "SessionID option"
  | ConsoleClosed

fun console_step :: "'f platform \<Rightarrow> console_event \<Rightarrow> 'f runtimeConsole \<Rightarrow> (runes \<times> 'f runtimeConsole) option" where
  "console_step P (LogLine stamp message) c = Some (logger_Printf stamp message c, c)"
| "console_step P (TrafficReport stamp cur previous elapsed final) c = ReportTraffic P stamp cur previous elapsed final c"
| "console_step P (LinkReport session snapshot queued opening active bytes) c = ReportLinkAndBufferFor P session snapshot queued opening active bytes c"
| "console_step P (BufferReport session queued active bytes) c = reportBuffer P session queued active bytes c"
| "console_step P (HealthReport session snapshot) c = reportLinkHealth P session snapshot c"
| "console_step P (SessionChanged session) c = Some ([], SetLinkSession session c)"
| "console_step P ConsoleClosed c = Some (console_Close c)"

fun run_console :: "'f platform \<Rightarrow> console_event list \<Rightarrow> 'f runtimeConsole \<Rightarrow> (runes \<times> 'f runtimeConsole) option" where
  "run_console P [] c = Some ([], c)"
| "run_console P (e # es) c = do {
     (out, c1) \<leftarrow> console_step P e c;
     (out2, c2) \<leftarrow> run_console P es c1;
     Some (out @ out2, c2)
   }"

text \<open>
  What is to be seen: the log, to which each message, each traffic report without a dashboard, and the dashboard at the end add their rows, and below it the
  dashboard as it is.
\<close>

definition shown :: "runes \<Rightarrow> runes" where
  "shown l = (case scan_text Ground l of None \<Rightarrow> [] | Some (v, m) \<Rightarrow> v)"

definition dashboard :: "'f runtimeConsole \<Rightarrow> runes list" where
  "dashboard c = (if rc_tui c \<and> \<not> rc_closed c then map shown (rc_lines c) else [])"

definition logRow :: "string \<Rightarrow> runes \<Rightarrow> runes" where
  "logRow stamp message = ascii ''lightningbnb: '' @ ascii stamp @ ascii '' '' @ message"

fun logged :: "'f platform \<Rightarrow> console_event \<Rightarrow> 'f runtimeConsole \<Rightarrow> runes list" where
  "logged P (LogLine stamp message) c = [logRow stamp message]"
| "logged P (TrafficReport stamp cur previous elapsed final) c =
     (if rc_tui c then [] else [logRow stamp (ascii ((if final then ''traffic final '' else ''traffic '') @ formatTraffic P cur previous elapsed))])"
| "logged P ConsoleClosed c = dashboard c"
| "logged P e c = []"

fun console_log :: "'f platform \<Rightarrow> console_event list \<Rightarrow> 'f runtimeConsole \<Rightarrow> runes list" where
  "console_log P [] c = []"
| "console_log P (e # es) c = logged P e c @ (case console_step P e c of None \<Rightarrow> [] | Some (out, c1) \<Rightarrow> console_log P es c1)"

text \<open>Messages and time stamps are printable.\<close>

fun event_ok :: "console_event \<Rightarrow> bool" where
  "event_ok (LogLine stamp message) \<longleftrightarrow> list_all printable (ascii stamp) \<and> list_all printable message"
| "event_ok (TrafficReport stamp cur previous elapsed final) \<longleftrightarrow> list_all printable (ascii stamp)"
| "event_ok e \<longleftrightarrow> True"

definition console_ok :: "'f runtimeConsole \<Rightarrow> bool" where
  "console_ok c \<longleftrightarrow> list_all2 displays (rc_lines c) (map shown (rc_lines c)) \<and> length (rc_lines c) \<in> {0, 7, 9}"

definition on_screen :: "runes list \<Rightarrow> runes list \<Rightarrow> terminal \<Rightarrow> bool" where
  "on_screen log dash t \<longleftrightarrow>
     (\<exists>k. t = (if dash = [] then cursor log [] (replicate k []) 0
              else cursor (log @ butlast dash) (last dash) (replicate k []) (length (last dash))))"

lemma on_screen_rows:
  assumes "on_screen log dash t"
  obtains k where "te_rows t = log @ dash @ replicate k []" and "te_row t = length (log @ dash) - (if dash = [] then 0 else 1)"
proof -
  obtain k where t: "t = (if dash = [] then cursor log [] (replicate k []) 0
              else cursor (log @ butlast dash) (last dash) (replicate k []) (length (last dash)))"
    using assms by (auto simp: on_screen_def)
  show ?thesis
  proof (cases "dash = []")
    case True
    then show ?thesis using t by (intro that [of "Suc k"]) (simp_all add: cursor_def)
  next
    case False
    then obtain S w where "dash = S @ [w]" by (cases dash rule: rev_cases) auto
    then show ?thesis using t by (intro that [of k]) (simp_all add: cursor_def)
  qed
qed

lemma displays_shown: "displays l v \<Longrightarrow> shown l = v"
  by (simp add: displays_def shown_def)

lemma list_all2_shown: "list_all2 displays ls vs \<Longrightarrow> map shown ls = vs"
  by (induction rule: list_all2_induct) (simp_all add: displays_shown)

lemma clear_screen:
  assumes "on_screen log dash t" and "length dash = n"
  obtains k where "feed (clearLines n) t = cursor log [] (replicate k []) 0"
proof (cases dash rule: rev_cases)
  case Nil
  then show ?thesis using assms that by (auto simp: on_screen_def)
next
  case (snoc S w)
  then obtain k m where t: "t = cursor (log @ S) w (replicate k []) (length w)" and n: "n = Suc m" "length S = m" using assms by (auto simp: on_screen_def)
  have "feed (clearLines n) t = cursor log [] (replicate m [] @ replicate k []) 0" unfolding t n(1) by (rule feed_clearLines [OF n(2)])
  then show ?thesis using that [of "m + k"] by (simp add: replicate_add)
qed

lemma draw_screen:
  assumes "list_all2 displays ls vs" and "ls \<noteq> []"
  shows "on_screen log vs (feed (Join ls [newline]) (cursor log [] (replicate k []) 0))"
proof -
  have "vs \<noteq> []" using assms by auto
  then show ?thesis using feed_Join [OF assms, of log k] by (auto simp: on_screen_def)
qed

lemma log_screen:
  assumes "list_all printable row"
  shows "feed (row @ [newline]) (cursor log [] (replicate k []) 0) = cursor (log @ [row]) [] (replicate (k - 1) []) 0"
  using feed_displays [OF displays_printable [OF assms], of log "[]"] by (simp add: feed_newline)

lemma redraw_screen:
  assumes "on_screen log (map shown (rc_lines c)) t" and "list_all2 displays ls vs" and "ls \<noteq> []"
  shows "on_screen log vs (feed (clearLocked c @ Join ls [newline]) t)"
proof -
  obtain k where "feed (clearLocked c) t = cursor log [] (replicate k []) 0" unfolding clearLocked_def by (rule clear_screen [OF assms(1)]) simp
  then show ?thesis using draw_screen [OF assms(2,3), of log k] by simp
qed

lemma Printf_screen:
  assumes "console_ok c" and "list_all printable (ascii stamp)" and "list_all printable message" and "on_screen log (dashboard c) t"
  shows "on_screen (log @ [logRow stamp message]) (dashboard c) (feed (logger_Printf stamp message c) t)"
proof -
  have row: "list_all printable (logRow stamp message)" using assms(2,3) by (simp add: logRow_def printable_def)
  have "logRow stamp message \<noteq> []" by (simp add: logRow_def)
  then have "printable (last (logRow stamp message))" using row last_in_set by (auto simp: list_all_iff)
  then have data: "logger_Printf stamp message c = snd (console_Write (logRow stamp message @ [newline]) (0, None) None c)"
    unfolding logger_Printf_def Let_def logRow_def by auto
  show ?thesis
  proof (cases "\<not> rc_tui c \<or> rc_lines c = [] \<or> rc_closed c")
    case True
    then have "dashboard c = []" "logger_Printf stamp message c = logRow stamp message @ [newline]" by (auto simp: dashboard_def data console_Write_def)
    then show ?thesis using assms(4) log_screen [OF row, of log] by (auto simp: on_screen_def)
  next
    case False
    then have d: "dashboard c = map shown (rc_lines c)" "rc_lines c \<noteq> []"
      and out: "logger_Printf stamp message c = clearLocked c @ (logRow stamp message @ [newline]) @ drawLocked c"
      by (auto simp: dashboard_def data console_Write_def)
    obtain k where "feed (clearLocked c) t = cursor log [] (replicate k []) 0"
      unfolding clearLocked_def by (rule clear_screen [OF assms(4)]) (simp add: d(1))
    then have "feed (logger_Printf stamp message c) t = feed (drawLocked c) (feed (logRow stamp message @ [newline]) (cursor log [] (replicate k []) 0))"
      by (simp only: out feed_simps(3))
    then show ?thesis using draw_screen [OF _ d(2)] assms(1) log_screen [OF row, of log k] by (simp only: console_ok_def drawLocked_def d(1))
  qed
qed

lemma lines_ok: "list_all2 displays ls vs \<Longrightarrow> length ls \<in> {0, 7, 9} \<Longrightarrow> console_ok (c\<lparr>rc_lines := ls\<rparr>)"
  using list_all2_shown [of ls vs] by (simp add: console_ok_def)

lemma redraw_ok:
  assumes "clean P" and "console_ok c" and "rc_tui c" and "\<not> rc_closed c" and "on_screen log (dashboard c) t"
  obtains out c' where "redraw P c = Some (out, c')" and "console_ok c'" and "on_screen log (dashboard c') (feed out t)"
proof (cases "rc_lines c = []")
  case True
  then show ?thesis using that assms by (simp add: redraw_def)
next
  case False
  from assms(2) have c: "list_all2 displays (rc_lines c) (map shown (rc_lines c))" "length (rc_lines c) \<in> {0, 7, 9}" by (simp_all add: console_ok_def)
  obtain ls vs where l: "trafficLinesFromCurrent P c (rc_lines c) = Some ls" "list_all2 displays ls vs" "length ls = length (rc_lines c)"
    by (rule trafficLinesFromCurrent_ok [OF assms(1) c(1)])
  let ?c = "c\<lparr>rc_lines := ls\<rparr>"
  have "redraw P c = Some (clearLocked c @ Join ls [newline], ?c)" using False l(1) by (simp add: redraw_def drawLocked_def)
  moreover have "console_ok ?c" using c(2) l by (intro lines_ok) simp_all
  moreover have "on_screen log (dashboard ?c) (feed (clearLocked c @ Join ls [newline]) t)"
    using redraw_screen [OF _ l(2)] assms(3-5) False l(3) list_all2_shown [OF l(2)] by (fastforce simp: dashboard_def)
  ultimately show ?thesis using that by blast
qed

text \<open>Every step keeps the screen: the log with the rows of the step, and the dashboard.\<close>

lemma console_step_ok:
  assumes "clean P" and "console_ok c" and "event_ok e" and "on_screen log (dashboard c) t"
  obtains out c' where "console_step P e c = Some (out, c')" and "console_ok c'" and "on_screen (log @ logged P e c) (dashboard c') (feed out t)"
proof (cases e)
  case (LogLine stamp message)
  then show ?thesis using that assms(2,3) Printf_screen [OF assms(2) _ _ assms(4)] by simp
next
  case (TrafficReport stamp cur previous elapsed final)
  show ?thesis
  proof (cases "rc_tui c")
    case False
    have "list_all printable (ascii (formatTraffic P cur previous elapsed))"
      using printable_formatBytes [OF assms(1)] by (simp add: formatTraffic_def Let_def) (simp add: printable_def)
    then have p: "list_all printable (ascii ((if final then ''traffic final'' else ''traffic'') @ '' '' @ formatTraffic P cur previous elapsed))"
      by simp (simp add: printable_def)
    show ?thesis using that assms(2,3) False TrafficReport Printf_screen [OF assms(2) _ p assms(4)] by (cases final) (simp_all add: ReportTraffic_def)
  next
    case True
    obtain tx rx where rates: "trafficRates P cur previous elapsed = (tx, rx)" by fastforce
    show ?thesis
    proof (cases "rc_closed c")
      case True
      then show ?thesis using that assms(2,4) \<open>rc_tui c\<close> TrafficReport rates by (simp add: ReportTraffic_def)
    next
      case False
      define c1 where "c1 = c\<lparr>rc_peakRate := (let peak1 = (if fl_less P (rc_peakRate c) tx then tx else rc_peakRate c) in if fl_less P peak1 rx then rx else peak1),
        rc_peakCombinedRate := (if fl_less P (rc_peakCombinedRate c) (fl_add P tx rx) then fl_add P tx rx else rc_peakCombinedRate c)\<rparr>"
      have c1: "rc_lines c1 = rc_lines c" "rc_tui c1" "\<not> rc_closed c1" using True False by (simp_all add: c1_def)
      obtain ls vs where l: "trafficLines P c1 cur tx rx final = Some ls" "list_all2 displays ls vs" "length ls = (if sn_CompressionEnabled cur then 9 else 7)"
        by (rule trafficLines_ok [OF assms(1)])
      let ?c = "c1\<lparr>rc_lines := ls\<rparr>"
      have "console_step P e c = Some (clearLocked c1 @ Join ls [newline], ?c)"
        using True False rates l(1) TrafficReport by (simp add: ReportTraffic_def drawLocked_def Let_def c1_def)
      moreover have "console_ok ?c" using l by (intro lines_ok) simp_all
      moreover have "on_screen log (map shown (rc_lines c1)) t" "ls \<noteq> []" "dashboard ?c = vs"
        using assms(4) True False l(3) c1 list_all2_shown [OF l(2)] by (auto simp: dashboard_def split: if_splits)
      then have "on_screen log (dashboard ?c) (feed (clearLocked c1 @ Join ls [newline]) t)" using redraw_screen [OF _ l(2)] by simp
      ultimately show ?thesis using that True TrafficReport by simp
    qed
  qed
next
  case (LinkReport session snapshot queued pending active bytes)
  define c1 where "c1 = c\<lparr>rc_linkHealth := healthOf snapshot (pending > 0),
    rc_bufferState := \<lparr>bf_known = True, bf_queued = queued, bf_opening = pending, bf_active = active, bf_bytes = bytes\<rparr>\<rparr>"
  have c1: "console_ok c1" "dashboard c1 = dashboard c" "rc_tui c1 = rc_tui c" "rc_closed c1 = rc_closed c"
    using assms(2) by (simp_all add: c1_def console_ok_def dashboard_def)
  show ?thesis
  proof (cases "reportRefused session c")
    case False
    then obtain out c' where "redraw P c1 = Some (out, c')" "console_ok c'" "on_screen log (dashboard c') (feed out t)"
      using redraw_ok [OF assms(1) c1(1)] c1(2-4) assms(4) by (metis reportRefused_def)
    then show ?thesis using that False LinkReport by (simp add: ReportLinkAndBufferFor_def c1_def)
  qed (use that assms(2,4) LinkReport in \<open>simp add: ReportLinkAndBufferFor_def\<close>)
next
  case (BufferReport session queued active bytes)
  define c1 where "c1 = c\<lparr>rc_bufferState := \<lparr>bf_known = True, bf_queued = queued, bf_opening = 0, bf_active = active, bf_bytes = bytes\<rparr>\<rparr>"
  have c1: "console_ok c1" "dashboard c1 = dashboard c" "rc_tui c1 = rc_tui c" "rc_closed c1 = rc_closed c"
    using assms(2) by (simp_all add: c1_def console_ok_def dashboard_def)
  show ?thesis
  proof (cases "reportRefused session c")
    case False
    then obtain out c' where "redraw P c1 = Some (out, c')" "console_ok c'" "on_screen log (dashboard c') (feed out t)"
      using redraw_ok [OF assms(1) c1(1)] c1(2-4) assms(4) by (metis reportRefused_def)
    then show ?thesis using that False BufferReport by (simp add: reportBuffer_def c1_def)
  qed (use that assms(2,4) BufferReport in \<open>simp add: reportBuffer_def\<close>)
next
  case (HealthReport session snapshot)
  define c1 where "c1 = c\<lparr>rc_linkHealth := healthOf snapshot False\<rparr>"
  have c1: "console_ok c1" "dashboard c1 = dashboard c" "rc_tui c1 = rc_tui c" "rc_closed c1 = rc_closed c"
    using assms(2) by (simp_all add: c1_def console_ok_def dashboard_def)
  show ?thesis
  proof (cases "reportRefused session c")
    case False
    then obtain out c' where "redraw P c1 = Some (out, c')" "console_ok c'" "on_screen log (dashboard c') (feed out t)"
      using redraw_ok [OF assms(1) c1(1)] c1(2-4) assms(4) by (metis reportRefused_def)
    then show ?thesis using that False HealthReport by (simp add: reportLinkHealth_def c1_def)
  qed (use that assms(2,4) HealthReport in \<open>simp add: reportLinkHealth_def\<close>)
next
  case (SessionChanged session)
  have "console_ok (SetLinkSession session c)" "dashboard (SetLinkSession session c) = dashboard c"
    using assms(2) by (simp_all add: SetLinkSession_def console_ok_def dashboard_def)
  then show ?thesis using that SessionChanged assms(4) by simp
next
  case ConsoleClosed
  have ok: "console_ok (c\<lparr>rc_closed := True\<rparr>)" using assms(2) by (simp add: console_ok_def)
  show ?thesis
  proof (cases "dashboard c = []")
    case True
    obtain c' where close: "console_Close c = ([], c')" "console_ok c'" "dashboard c' = []"
      using True assms(2) ok by (cases "rc_closed c") (auto simp: console_Close_def dashboard_def split: if_splits)
    then show ?thesis using that [of "[]" c'] assms(4) True ConsoleClosed by simp
  next
    case False
    then have close: "console_Close c = ([newline], c\<lparr>rc_closed := True\<rparr>)" by (auto simp: console_Close_def dashboard_def split: if_splits)
    obtain S w where d: "dashboard c = S @ [w]" using False by (cases "dashboard c" rule: rev_cases) auto
    then obtain k where t: "t = cursor (log @ S) w (replicate k []) (length w)" using assms(4) by (auto simp: on_screen_def)
    have "feed [newline] t = cursor (log @ dashboard c) [] (replicate (k - 1) []) 0" using feed_newline [of "log @ S" w k] by (simp add: t d)
    moreover have "dashboard (c\<lparr>rc_closed := True\<rparr>) = []" by (simp add: dashboard_def)
    ultimately show ?thesis using that [of "[newline]" "c\<lparr>rc_closed := True\<rparr>"] close ok ConsoleClosed by (auto simp: on_screen_def)
  qed
qed

lemma run_console_ok:
  assumes "clean P" and "console_ok c" and "list_all event_ok es" and "on_screen log (dashboard c) t"
  shows "\<exists>out c'. run_console P es c = Some (out, c') \<and> console_ok c' \<and> on_screen (log @ console_log P es c) (dashboard c') (feed out t)"
  using assms(2-4)
proof (induction es arbitrary: c log t)
  case (Cons e es)
  then have "event_ok e" by simp
  from console_step_ok [OF assms(1) Cons.prems(1) this Cons.prems(3)] obtain out c1
    where s: "console_step P e c = Some (out, c1)" "console_ok c1" "on_screen (log @ logged P e c) (dashboard c1) (feed out t)" by blast
  from Cons.IH [OF s(2) _ s(3)] Cons.prems(2) s(1) show ?case by fastforce
qed simp

text \<open>
  A report of the reporter of an earlier session is taken for one of the session that is current when it runs: the guard of the console compares the
  current session with itself.
\<close>

lemma stale_health_report:
  assumes "sv_link st = Some s" and "rc_tui c" and "\<not> rc_closed c" and "rc_healthSession c = Some (s_id s)" and "s_closed old"
    and "serverHealthReport P st old m c = Some (out, c')"
  shows "fst (healthLabel (rc_linkHealth c')) = ''OFFLINE''"
  using assms
  by (auto simp: serverHealthReport_def ReportLinkAndBufferFor_def reportRefused_def redraw_def healthLabel_def healthOf_def transportSnapshot_def
      Let_def bind_eq_Some_conv split: prod.splits option.splits if_splits)

section \<open>Properties\<close>

text \<open>
  C36: the console shows its log and below it the dashboard. For any sequence of messages, traffic, link and buffer reports, changes of the session and the end,
  with or without the dashboard and colours, no operation panics; a terminal that has read the output shows the rows of the log in order, none lost or overwritten, then
  exactly the rows of the current dashboard, which are none, seven or nine, and nothing below; the cursor is on the last row of the dashboard, or on the fresh row
  below the log when there is none.
\<close>

theorem console_shows_log:
  assumes "clean P" and "list_all event_ok es"
  shows "\<exists>out c k. run_console P es (newRuntimeConsole P tui noColor) = Some (out, c)
     \<and> te_rows (feed out blankTerminal) = console_log P es (newRuntimeConsole P tui noColor) @ dashboard c @ replicate k []
     \<and> te_row (feed out blankTerminal) = length (console_log P es (newRuntimeConsole P tui noColor) @ dashboard c) - (if dashboard c = [] then 0 else 1)
     \<and> length (dashboard c) \<in> {0, 7, 9}"
proof -
  let ?c0 = "newRuntimeConsole P tui noColor"
  have "blankTerminal = cursor [] [] (replicate 0 []) 0" by (simp add: blankTerminal_def cursor_def)
  then have t: "on_screen [] (dashboard ?c0) blankTerminal" unfolding on_screen_def by (intro exI [of _ 0]) (simp add: dashboard_def newRuntimeConsole_def)
  have "console_ok ?c0" by (simp add: console_ok_def newRuntimeConsole_def)
  from run_console_ok [OF assms(1) this assms(2) t] obtain out c where r: "run_console P es ?c0 = Some (out, c)" "console_ok c"
    "on_screen (console_log P es ?c0) (dashboard c) (feed out blankTerminal)" by auto
  have "length (dashboard c) \<in> {0, 7, 9}" using r(2) by (simp add: console_ok_def dashboard_def)
  moreover obtain k where "te_rows (feed out blankTerminal) = console_log P es ?c0 @ dashboard c @ replicate k []"
    "te_row (feed out blankTerminal) = length (console_log P es ?c0 @ dashboard c) - (if dashboard c = [] then 0 else 1)"
    by (rule on_screen_rows [OF r(3)])
  ultimately show ?thesis using r(1) by blast
qed

text \<open>
  The dashboard has straight borders. Every row that a traffic report draws, painted or not, shows exactly 68 columns, as long as the texts of its numbers are
  not wider than their fields allow: ten runes for an amount of bytes, eight for the time, four digits for a count, seven for the savings.
\<close>

theorem dashboard_aligned:
  assumes "clean P" and "narrow P c cur txRate rxRate"
  shows "\<exists>ls. trafficLines P c cur txRate rxRate final = Some ls \<and> length ls = (if sn_CompressionEnabled cur then 9 else 7)
     \<and> list_all (\<lambda>l. displays l (shown l) \<and> length (shown l) = 68) ls"
proof -
  obtain ls vs where l: "trafficLines P c cur txRate rxRate final = Some ls" "list_all2 displays ls vs"
    "length ls = (if sn_CompressionEnabled cur then 9 else 7)" "narrow P c cur txRate rxRate \<Longrightarrow> list_all (\<lambda>v. length v = 68) vs"
    by (rule trafficLines_ok [OF assms(1)]) blast
  have "list_all (\<lambda>l. displays l (shown l) \<and> length (shown l) = 68) ls" using l(2) l(4) [OF assms(2)]
    by (induction rule: list_all2_induct) (simp_all add: displays_shown)
  then show ?thesis using l(1,3) by blast
qed

text \<open>A console with colours: a report, a message, a report of the link and the end.\<close>

lemma thousandths_clean: "clean thousandths"
proof -
  have "printable (Ascii CHR ''.'')" "list_all printable (ascii ''00:00:00'')" by (simp_all add: printable_def)
  then show ?thesis by (simp add: clean_def thousandths_def)
qed

definition demo_traffic :: "u64 \<Rightarrow> traffic_snapshot" where
  "demo_traffic n = \<lparr>sn_TX = n, sn_RX = 512, sn_CompressionEnabled = False, sn_TXUncompressed = 0, sn_TXCompressed = 0, sn_RXUncompressed = 0, sn_RXCompressed = 0\<rparr>"

definition demo_events :: "console_event list" where
  "demo_events = [LogLine ''12:00'' (ascii ''BLE client connected''), TrafficReport ''12:01'' (demo_traffic 2048) (demo_traffic 1024) 1000000000 False,
     LogLine ''12:02'' (ascii ''bye'')]"

theorem console_shows_log_witness:
  "\<exists>out c k. run_console thousandths demo_events (newRuntimeConsole thousandths True '''') = Some (out, c)
     \<and> te_rows (feed out blankTerminal) =
         [ascii ''lightningbnb: 12:00 BLE client connected'', ascii ''lightningbnb: 12:02 bye''] @ dashboard c @ replicate k []"
proof -
  have ok: "list_all event_ok demo_events" by (simp add: demo_events_def printable_def)
  obtain out c k where r: "run_console thousandths demo_events (newRuntimeConsole thousandths True '''') = Some (out, c)"
    "te_rows (feed out blankTerminal) = console_log thousandths demo_events (newRuntimeConsole thousandths True '''') @ dashboard c @ replicate k []"
    using console_shows_log [OF thousandths_clean ok, of True "''''"] by blast
  obtain c1 out1 where s: "ReportTraffic thousandths ''12:01'' (demo_traffic 2048) (demo_traffic 1024) 1000000000 False (newRuntimeConsole thousandths True '''') = Some (out1, c1)"
    using r(1) by (auto simp: demo_events_def bind_eq_Some_conv)
  have "console_log thousandths demo_events (newRuntimeConsole thousandths True '''') =
      [ascii ''lightningbnb: 12:00 BLE client connected'', ascii ''lightningbnb: 12:02 bye'']"
    using s by (simp add: demo_events_def logRow_def newRuntimeConsole_def)
  then show ?thesis using r by metis
qed

theorem dashboard_aligned_witness:
  "\<exists>ls. trafficLines thousandths (newRuntimeConsole thousandths True '''') (demo_traffic 2048) 1000 0 False = Some ls
     \<and> list_all (\<lambda>l. length (shown l) = 68) ls"
proof -
  have "narrow thousandths (newRuntimeConsole thousandths True '''') (demo_traffic 2048) 1000 0"
    by code_simp
  from dashboard_aligned [OF thousandths_clean this, of False] show ?thesis by (auto simp: list_all_iff)
qed

end
