(* ===== verification/Picker_View.thy ===== *)
theory Picker_View
  imports Client_App Go_Format "HOL-Library.Sublist"
begin

text \<open>
  The view of the server picker (\<open>View\<close> and the rendering functions of \<open>internal/app/picker.go\<close>). Text is laid out by lipgloss, which is
  not part of the program: its functions are a parameter, and the locale \<open>lipgloss\<close> is what its documentation says of them.
\<close>

section \<open>Lipgloss\<close>

text \<open>The attributes of a style that the program sets; without a width, a style only decorates its text.\<close>

record lg_style =
  st_border :: bool
  st_borderForeground :: string
  st_padding :: "nat \<times> nat"
  st_width :: int
  st_height :: int
  st_bold :: bool
  st_foreground :: string

definition NewStyle :: lg_style where
  "NewStyle = \<lparr>st_border = False, st_borderForeground = '''', st_padding = (0, 0), st_width = 0, st_height = 0, st_bold = False, st_foreground = ''''\<rparr>"

text \<open>\<open>JoinHorizontal(Top, ...)\<close> and \<open>JoinVertical(Left, ...)\<close>.\<close>

record lipgloss =
  lg_Render :: "lg_style \<Rightarrow> runes \<Rightarrow> runes"
  lg_Width :: "runes \<Rightarrow> int"
  lg_Height :: "runes \<Rightarrow> int"
  lg_JoinHorizontal :: "runes list \<Rightarrow> runes"
  lg_JoinVertical :: "runes list \<Rightarrow> runes"

section \<open>Styles\<close>

record pickerStyles =
  sty_frame :: lg_style
  sty_panelLeft :: lg_style
  sty_panelRight :: lg_style
  sty_title :: lg_style
  sty_heading :: lg_style
  sty_accent :: lg_style
  sty_checked :: lg_style
  sty_selected :: lg_style
  sty_body :: lg_style
  sty_muted :: lg_style
  sty_error :: lg_style
  sty_colored :: bool

definition newPickerStyles :: "string \<Rightarrow> pickerLayout \<Rightarrow> pickerStyles" where
  "newPickerStyles noColor layout =
     (let colored = (noColor = '''');
          box = (\<lambda>w. NewStyle\<lparr>st_border := True, st_borderForeground := ''#334155'', st_padding := (1, 2), st_width := w\<rparr>);
          plainBox = (\<lambda>w. NewStyle\<lparr>st_border := True, st_padding := (1, 2), st_width := w\<rparr>);
          strong = (\<lambda>c. NewStyle\<lparr>st_bold := True, st_foreground := c\<rparr>);
          styles = \<lparr>sty_frame = box (pl_frameWidth layout), sty_panelLeft = box (pl_leftWidth layout), sty_panelRight = box (pl_rightWidth layout),
            sty_title = strong ''#FF7A90'', sty_heading = strong ''#F8FAFC'', sty_accent = strong ''#7DD3FC'', sty_checked = strong ''#86EFAC'',
            sty_selected = strong ''#FDE68A'', sty_body = NewStyle\<lparr>st_foreground := ''#CBD5E1''\<rparr>, sty_muted = NewStyle\<lparr>st_foreground := ''#64748B''\<rparr>,
            sty_error = strong ''#FDA4AF'', sty_colored = colored\<rparr> in
      if \<not> colored then
        styles\<lparr>sty_title := NewStyle, sty_heading := NewStyle, sty_accent := NewStyle, sty_checked := NewStyle, sty_selected := NewStyle, sty_body := NewStyle,
          sty_muted := NewStyle, sty_error := NewStyle, sty_panelLeft := plainBox (pl_leftWidth layout), sty_panelRight := plainBox (pl_rightWidth layout)\<rparr>
      else styles)"

definition renderText :: "lipgloss \<Rightarrow> pickerStyles \<Rightarrow> lg_style \<Rightarrow> runes \<Rightarrow> runes" where
  "renderText L styles style text = (if \<not> sty_colored styles then text else lg_Render L style text)"

section \<open>Panels\<close>

definition idText :: "Device \<Rightarrow> string" where
  "idText device = ''ID '' @ (if dev_ServerID device = '''' then dev_ID device else dev_ServerID device)"

definition deviceRow :: "lipgloss \<Rightarrow> pickerStyles \<Rightarrow> bool \<Rightarrow> Device \<Rightarrow> runes" where
  "deviceRow L styles isSelected device =
     (let marker = (if isSelected then renderText L styles (sty_accent styles) [Glyph 0x276F] else renderText L styles (sty_muted styles) [Glyph 0x25CB]);
          nameStyle = (if isSelected then sty_selected styles else sty_body styles) in
      marker @ ascii ''  '' @ renderText L styles nameStyle (runes_of (deviceDisplayName device)) @ ascii ''  ''
        @ renderText L styles (sty_body styles) (ascii (''RSSI='' @ itoa (dev_RSSI device))))"

definition idRow :: "lipgloss \<Rightarrow> pickerStyles \<Rightarrow> Device \<Rightarrow> runes" where
  "idRow L styles device = ascii ''   '' @ renderText L styles (sty_muted styles) (runes_of (idText device))"

fun deviceRows :: "lipgloss \<Rightarrow> pickerStyles \<Rightarrow> int \<Rightarrow> int \<Rightarrow> Device list \<Rightarrow> runes" where
  "deviceRows L styles selected index [] = []"
| "deviceRows L styles selected index (device # devices) =
     deviceRow L styles (index = selected) device @ [newline] @ idRow L styles device
       @ (if devices = [] then [] else [newline]) @ deviceRows L styles selected (index + 1) devices"

definition renderPickerDeviceContent :: "lipgloss \<Rightarrow> pickerStyles \<Rightarrow> pickerModel \<Rightarrow> runes" where
  "renderPickerDeviceContent L styles m =
     renderText L styles (sty_heading styles) (ascii ''Nearby servers'') @ [newline, newline]
       @ deviceRows L styles (pk_selected m) 0 (map (\<lambda>devID. lookupDevice devID m) (pk_orderedIDs m))"

text \<open>\<open>%-14s\<close> of the name, then the port or an arrow and the target.\<close>

definition serviceRow :: "Service \<Rightarrow> runes" where
  "serviceRow service =
     (let name = (if svc_Name service = '''' then ''(default)'' else svc_Name service); port = itoa (svc_Port service) in
      padRight 14 (runes_of name)
        @ (if svc_Host service = '''' then ascii '' :'' @ ascii port
           else ascii '' '' @ [Glyph 0x2192] @ ascii '' '' @ runes_of (JoinHostPort (svc_Host service) port)))"

definition renderPickerServicesContent :: "lipgloss \<Rightarrow> pickerStyles \<Rightarrow> pickerModel \<Rightarrow> runes" where
  "renderPickerServicesContent L styles m =
     (let render = renderText L styles in
      render (sty_heading styles) (ascii ''Exposed services'') @ [newline, newline] @
      (if pk_selected m < 0 \<or> pk_selected m \<ge> len (pk_orderedIDs m)
       then render (sty_muted styles) (ascii ''Select a server to view'' @ [newline] @ ascii ''its exposed services.'')
       else
         let deviceID = pk_orderedIDs m ! nat (pk_selected m) in
         render (sty_accent styles) (runes_of (deviceDisplayName (lookupDevice deviceID m))) @ [newline, newline] @
         (case pk_serviceState m deviceID of
            None \<Rightarrow> render (sty_muted styles) (ascii ''Connecting to server'' @ [Glyph 0x2026, newline] @ ascii ''Reading service list'' @ [Glyph 0x2026])
          | Some state \<Rightarrow>
              if pss_loading state
              then render (sty_muted styles) (ascii ''Connecting to server'' @ [Glyph 0x2026, newline] @ ascii ''Reading service list'' @ [Glyph 0x2026])
              else case pss_err state of
                Some e \<Rightarrow> render (sty_error styles) (ascii ''! Unable to read services'') @ [newline] @ render (sty_muted styles) (runes_of (err_text e))
              | None \<Rightarrow>
                  if pss_services state = [] then render (sty_muted styles) (ascii ''No exposed services.'')
                  else Join (map (\<lambda>service. render (sty_body styles) (serviceRow service)) (pss_services state)) [newline])))"

section \<open>The view\<close>

definition spinnerGlyphs :: "nat list" where
  "spinnerGlyphs = [0x280B, 0x2819, 0x2839, 0x2838, 0x283C, 0x2834, 0x2826, 0x2827, 0x2807, 0x280F]"

definition titleRow :: "lipgloss \<Rightarrow> pickerStyles \<Rightarrow> runes" where
  "titleRow L styles =
     renderText L styles (sty_title styles) (Glyph 0x25C6 # ascii '' LightningBNB'') @ renderText L styles (sty_muted styles) (ascii ''  server picker'')"

definition foundText :: "pickerModel \<Rightarrow> runes" where
  "foundText m = Ascii CHR '' '' # Glyph 0xB7 # ascii ('' '' @ itoa (len (pk_orderedIDs m)) @ '' server(s) found'')"

text \<open>The scan status; \<open>None\<close> is the panic of an index out of range.\<close>

definition statusRow :: "lipgloss \<Rightarrow> pickerStyles \<Rightarrow> pickerModel \<Rightarrow> runes option" where
  "statusRow L styles m =
     (if pk_scanning m then
        (if pk_frame m \<ge> length spinnerGlyphs then None
         else Some (renderText L styles (sty_accent styles) (ascii ''Scanning '' @ [Glyph (spinnerGlyphs ! pk_frame m)] @ foundText m)))
      else Some (renderText L styles (sty_muted styles) (ascii ''Scan complete'' @ foundText m)))"

definition panels :: "lipgloss \<Rightarrow> pickerLayout \<Rightarrow> pickerStyles \<Rightarrow> pickerModel \<Rightarrow> runes" where
  "panels L layout styles m =
     (let leftContent = renderPickerDeviceContent L styles m; rightContent = renderPickerServicesContent L styles m;
          panelHeight = max (lg_Height L leftContent) (lg_Height L rightContent);
          leftPanel = lg_Render L ((sty_panelLeft styles)\<lparr>st_height := panelHeight\<rparr>) leftContent in
      if pl_split layout
      then lg_JoinHorizontal L [leftPanel, ascii '' '', lg_Render L ((sty_panelRight styles)\<lparr>st_height := panelHeight\<rparr>) rightContent]
      else lg_JoinVertical L [leftPanel, lg_Render L ((sty_panelRight styles)\<lparr>st_width := pl_leftWidth layout, st_height := panelHeight\<rparr>) rightContent])"

definition footerRow :: "lipgloss \<Rightarrow> pickerStyles \<Rightarrow> runes" where
  "footerRow L styles =
     renderText L styles (sty_muted styles)
       ([Glyph 0x2191] @ ascii ''/'' @ [Glyph 0x2193] @ ascii '' or j/k move '' @ [Glyph 0xB7] @ ascii '' hover to inspect '' @ [Glyph 0xB7]
          @ ascii '' Enter connect '' @ [Glyph 0xB7] @ ascii '' q cancel'')"

definition viewBody :: "lipgloss \<Rightarrow> pickerLayout \<Rightarrow> pickerStyles \<Rightarrow> string \<Rightarrow> pickerModel \<Rightarrow> runes" where
  "viewBody L layout styles errorText m =
     (if errorText \<noteq> '''' then renderText L styles (sty_error styles) (runes_of (''! '' @ errorText))
      else if pk_orderedIDs m = [] then
        (if pk_scanning m then renderText L styles (sty_muted styles) (ascii ''Waiting for nearby LightningBNB servers'' @ [Glyph 0x2026])
         else renderText L styles (sty_muted styles) (ascii ''No nearby LightningBNB servers found.''))
      else panels L layout styles m)"

definition renderPickerView :: "lipgloss \<Rightarrow> string \<Rightarrow> string \<Rightarrow> pickerModel \<Rightarrow> runes option" where
  "renderPickerView L noColor errorText m =
     (let layout = pickerLayoutFor (pk_windowWidth m); styles = newPickerStyles noColor layout in do {
        status \<leftarrow> statusRow L styles m;
        Some (lg_Render L (sty_frame styles)
          (titleRow L styles @ [newline] @ renderText L styles (sty_heading styles) (ascii ''Select a nearby server'') @ [newline, newline]
             @ status @ [newline, newline] @ viewBody L layout styles errorText m @ [newline] @ footerRow L styles))
      })"

definition View :: "lipgloss \<Rightarrow> string \<Rightarrow> pickerModel \<Rightarrow> runes option" where
  "View L noColor m = renderPickerView L noColor (case pk_scanErr m of None \<Rightarrow> '''' | Some e \<Rightarrow> err_text e) m"

section \<open>What lipgloss does\<close>

text \<open>
  A style without a box decorates every line of its text and keeps its width; a box with a border and the padding of the program puts a line that fits two rows below its
  top and is as wide as its style says, with the border; joined blocks keep their rows. Rendering replaces tabs. Letters, digits and the program's glyphs are one column wide.
\<close>

definition plainStyle :: "lg_style \<Rightarrow> bool" where
  "plainStyle st \<longleftrightarrow> \<not> st_border st \<and> st_padding st = (0, 0) \<and> st_width st = 0 \<and> st_height st = 0"

definition boxStyle :: "lg_style \<Rightarrow> bool" where
  "boxStyle st \<longleftrightarrow> st_border st \<and> st_padding st = (1, 2) \<and> 4 < st_width st"

definition column :: "rune \<Rightarrow> bool" where
  "column r \<longleftrightarrow> (case r of Ascii c \<Rightarrow> printable r | Glyph n \<Rightarrow> n \<in> {0x25C6, 0xB7} \<union> set spinnerGlyphs)"

locale lipgloss_contract =
  fixes L :: lipgloss
  assumes text_lines: "plainStyle st \<Longrightarrow> tabulator \<notin> set s \<Longrightarrow> list_all2 sublist (lines_of s) (lines_of (lg_Render L st s))"
    and text_width: "plainStyle st \<Longrightarrow> tabulator \<notin> set s \<Longrightarrow> lg_Width L (lg_Render L st s) = lg_Width L s"
    and columns: "list_all column s \<Longrightarrow> lg_Width L s = len s"
    and append_width: "newline \<notin> set a \<Longrightarrow> newline \<notin> set b \<Longrightarrow> lg_Width L (a @ b) = lg_Width L a + lg_Width L b"
    and line_width: "l \<in> set (lines_of s) \<Longrightarrow> lg_Width L l \<le> lg_Width L s"
    and no_tabs: "tabulator \<notin> set (lg_Render L st s)"
    and box_row: "boxStyle st \<Longrightarrow> k < length (lines_of s) \<Longrightarrow> \<forall>j \<le> k. lg_Width L (lines_of s ! j) \<le> st_width st - 4 \<Longrightarrow> tabulator \<notin> set s \<Longrightarrow>
        k + 2 < length (lines_of (lg_Render L st s)) \<and> sublist (lines_of s ! k) (lines_of (lg_Render L st s) ! (k + 2))"
    and box_width: "boxStyle st \<Longrightarrow> lg_Width L (lg_Render L st s) = st_width st + 2"
    and horizontal_row: "k < length (lines_of a) \<Longrightarrow>
        k < length (lines_of (lg_JoinHorizontal L (a # bs))) \<and> sublist (lines_of a ! k) (lines_of (lg_JoinHorizontal L (a # bs)) ! k)"
    and horizontal_width: "lg_Width L (lg_JoinHorizontal L bs) = sum_list (map (lg_Width L) bs)"
    and vertical_row: "k < length (lines_of a) \<Longrightarrow>
        k < length (lines_of (lg_JoinVertical L (a # bs))) \<and> sublist (lines_of a ! k) (lines_of (lg_JoinVertical L (a # bs)) ! k)"
    and vertical_width: "lg_Width L (lg_JoinVertical L [a, b]) = max (lg_Width L a) (lg_Width L b)"
    and join_tabs: "\<forall>b \<in> set bs. tabulator \<notin> set b \<Longrightarrow> tabulator \<notin> set (lg_JoinHorizontal L bs) \<and> tabulator \<notin> set (lg_JoinVertical L bs)"
begin

lemma text_ok:
  assumes "plainStyle st" and "newline \<notin> set t" and "tabulator \<notin> set t"
  shows "sublist t (renderText L styles st t)" "newline \<notin> set (renderText L styles st t)" "tabulator \<notin> set (renderText L styles st t)"
    "lg_Width L (renderText L styles st t) = lg_Width L t"
proof -
  have l: "list_all2 sublist [t] (lines_of (lg_Render L st t))" using text_lines [OF assms(1,3)] lines_of_line [OF assms(2)] by simp
  then have "length (lines_of (lg_Render L st t)) = 1" by (simp add: list_all2_lengthD [symmetric])
  then have n: "newline \<notin> set (lg_Render L st t)" by (rule lines_of_single)
  then have "sublist t (lg_Render L st t)" using l lines_of_line by simp
  then show "sublist t (renderText L styles st t)" "newline \<notin> set (renderText L styles st t)" "tabulator \<notin> set (renderText L styles st t)"
    "lg_Width L (renderText L styles st t) = lg_Width L t"
    using n assms no_tabs text_width [OF assms(1,3)] by (simp_all add: renderText_def)
qed

end

lemma layout_ok:
  assumes "layout = pickerLayoutFor w"
  shows "40 \<le> pl_frameWidth layout" "4 < pl_leftWidth layout" "pl_split layout \<Longrightarrow> 4 < pl_rightWidth layout"
    "pl_split layout \<Longrightarrow> pl_leftWidth layout + pl_rightWidth layout + 13 = pl_frameWidth layout" "\<not> pl_split layout \<Longrightarrow> pl_leftWidth layout + 6 = pl_frameWidth layout"
proof -
  obtain f where f: "40 \<le> f" and l: "layout = (if f < 82 then \<lparr>pl_frameWidth = f, pl_leftWidth = f - 6, pl_rightWidth = 0, pl_split = False\<rparr>
      else \<lparr>pl_frameWidth = f, pl_leftWidth = (f - 13) * 3 div 5, pl_rightWidth = f - 13 - (f - 13) * 3 div 5, pl_split = True\<rparr>)"
    unfolding assms pickerLayoutFor_def Let_def by (smt (verit))
  show "40 \<le> pl_frameWidth layout" "4 < pl_leftWidth layout" "pl_split layout \<Longrightarrow> 4 < pl_rightWidth layout"
    "pl_split layout \<Longrightarrow> pl_leftWidth layout + pl_rightWidth layout + 13 = pl_frameWidth layout" "\<not> pl_split layout \<Longrightarrow> pl_leftWidth layout + 6 = pl_frameWidth layout"
    using f by (simp_all add: l split: if_splits) presburger+
qed

lemma styles_ok:
  assumes "layout = pickerLayoutFor w"
  shows "plainStyle (sty_title (newPickerStyles nc layout))" "plainStyle (sty_heading (newPickerStyles nc layout))" "plainStyle (sty_accent (newPickerStyles nc layout))"
    "plainStyle (sty_selected (newPickerStyles nc layout))" "plainStyle (sty_body (newPickerStyles nc layout))" "plainStyle (sty_muted (newPickerStyles nc layout))"
    "boxStyle (sty_frame (newPickerStyles nc layout))" "st_width (sty_frame (newPickerStyles nc layout)) = pl_frameWidth layout"
    "boxStyle ((sty_panelLeft (newPickerStyles nc layout))\<lparr>st_height := h\<rparr>)" "st_width (sty_panelLeft (newPickerStyles nc layout)) = pl_leftWidth layout"
    "pl_split layout \<Longrightarrow> boxStyle ((sty_panelRight (newPickerStyles nc layout))\<lparr>st_height := h\<rparr>)" "st_width (sty_panelRight (newPickerStyles nc layout)) = pl_rightWidth layout"
    "boxStyle ((sty_panelRight (newPickerStyles nc layout))\<lparr>st_width := pl_leftWidth layout, st_height := h\<rparr>)"
  using layout_ok [OF assms] by (simp_all add: newPickerStyles_def plainStyle_def boxStyle_def NewStyle_def Let_def)

text \<open>The lines of the list of servers.\<close>

lemma deviceRows_lines:
  assumes "\<And>b d. d \<in> set ds \<Longrightarrow> newline \<notin> set (deviceRow L styles b d) \<and> newline \<notin> set (idRow L styles d)" and "j < length ds"
  shows "2 * j + 1 < length (lines_of (deviceRows L styles sel idx ds))
     \<and> lines_of (deviceRows L styles sel idx ds) ! (2 * j) = deviceRow L styles (idx + int j = sel) (ds ! j)
     \<and> lines_of (deviceRows L styles sel idx ds) ! (2 * j + 1) = idRow L styles (ds ! j)"
  using assms
proof (induction ds arbitrary: j idx)
  case (Cons d ds)
  have n: "newline \<notin> set (deviceRow L styles (idx = sel) d)" "newline \<notin> set (idRow L styles d)" using Cons.prems(1) by simp_all
  show ?case
  proof (cases ds)
    case Nil
    then show ?thesis using Cons.prems(2) n by (simp add: lines_of_newline lines_of_line)
  next
    case (Cons d' ds')
    then have l: "lines_of (deviceRows L styles sel idx (d # ds)) =
        [deviceRow L styles (idx = sel) d, idRow L styles d] @ lines_of (deviceRows L styles sel (idx + 1) ds)"
      using n by (simp add: lines_of_newline lines_of_line)
    show ?thesis
    proof (cases j)
      case 0
      then show ?thesis unfolding l by simp
    next
      case (Suc i)
      have "2 * i + 1 < length (lines_of (deviceRows L styles sel (idx + 1) ds))
        \<and> lines_of (deviceRows L styles sel (idx + 1) ds) ! (2 * i) = deviceRow L styles (idx + 1 + int i = sel) (ds ! i)
        \<and> lines_of (deviceRows L styles sel (idx + 1) ds) ! (2 * i + 1) = idRow L styles (ds ! i)"
        by (rule Cons.IH) (use Cons.prems Suc in auto)
      then show ?thesis unfolding l Suc by (simp add: add.assoc)
    qed
  qed
qed simp

definition textOf :: "runes \<Rightarrow> bool" where
  "textOf t \<longleftrightarrow> newline \<notin> set t \<and> tabulator \<notin> set t"

lemma printable_textOf: "list_all printable t \<Longrightarrow> textOf t"
  by (auto simp: textOf_def list_all_iff)

lemma itoa_textOf: "textOf (ascii (''RSSI='' @ itoa n))"
proof -
  have "is_digit c \<Longrightarrow> printable (Ascii c)" for c by (auto simp: is_digit_def printable_def)
  then have "list_all printable (ascii (digits_of k))" for k using digits_of_props [of k] by (auto simp: list_all_iff)
  then have "list_all printable (ascii (''RSSI='' @ itoa n))" by (simp add: itoa_def) (simp add: printable_def)
  then show ?thesis by (rule printable_textOf)
qed

text \<open>Names and identifiers that a row can show.\<close>

definition showable :: "Device \<Rightarrow> bool" where
  "showable d \<longleftrightarrow> list_all printable (runes_of (deviceDisplayName d)) \<and> list_all printable (runes_of (idText d))"

context lipgloss_contract begin

lemma deviceRow_ok:
  assumes "layout = pickerLayoutFor w" and "showable d"
  shows "textOf (deviceRow L (newPickerStyles nc layout) b d)" "sublist (runes_of (deviceDisplayName d)) (deviceRow L (newPickerStyles nc layout) b d)"
    "textOf (idRow L (newPickerStyles nc layout) d)" "sublist (runes_of (idText d)) (idRow L (newPickerStyles nc layout) d)"
proof -
  let ?s = "newPickerStyles nc layout"
  note st = styles_ok [OF assms(1), where nc = nc]
  have name: "textOf (runes_of (deviceDisplayName d))" "textOf (runes_of (idText d))" using assms(2) by (simp_all add: showable_def printable_textOf)
  have glyphs: "textOf [Glyph g]" for g by (simp add: textOf_def)
  have R: "textOf (renderText L ?s st t)" "sublist t (renderText L ?s st t)" if "plainStyle st" "textOf t" for st t
    using text_ok [OF that(1), of t] that(2) by (simp_all add: textOf_def)
  have sp: "textOf (ascii ''  '')" "textOf (ascii ''   '')" by (simp_all add: textOf_def)
  have ap: "textOf (a @ b)" if "textOf a" "textOf b" for a b using that by (simp add: textOf_def)
  have row: "deviceRow L ?s b d = (if b then renderText L ?s (sty_accent ?s) [Glyph 0x276F] else renderText L ?s (sty_muted ?s) [Glyph 0x25CB]) @ ascii ''  ''
      @ renderText L ?s (if b then sty_selected ?s else sty_body ?s) (runes_of (deviceDisplayName d)) @ ascii ''  ''
      @ renderText L ?s (sty_body ?s) (ascii (''RSSI='' @ itoa (dev_RSSI d)))"
    by (simp add: deviceRow_def)
  show "textOf (deviceRow L ?s b d)" unfolding row
    using st name glyphs by (intro ap R sp itoa_textOf) (auto intro!: R)
  have "sublist (runes_of (deviceDisplayName d)) (renderText L ?s (if b then sty_selected ?s else sty_body ?s) (runes_of (deviceDisplayName d)))"
    using st by (intro R(2) name) auto
  then show "sublist (runes_of (deviceDisplayName d)) (deviceRow L ?s b d)" unfolding row
    by (meson sublist_append_leftI sublist_append_rightI sublist_order.order_trans)
  show "textOf (idRow L ?s d)" unfolding idRow_def using st name by (intro ap sp R) auto
  have "sublist (runes_of (idText d)) (renderText L ?s (sty_muted ?s) (runes_of (idText d)))" using st by (intro R(2) name) auto
  then show "sublist (runes_of (idText d)) (idRow L ?s d)" unfolding idRow_def
    by (meson sublist_append_leftI sublist_order.order_trans)
qed

text \<open>The lines of the list: a server's name and, below it, its identifier.\<close>

lemma deviceContent_lines:
  fixes nc :: string
  assumes layout: "layout = pickerLayoutFor w" and "\<forall>i \<in> set (pk_orderedIDs m). showable (lookupDevice i m)" and "i < length (pk_orderedIDs m)"
  defines "ls \<equiv> lines_of (renderPickerDeviceContent L (newPickerStyles nc layout) m)" and "d \<equiv> lookupDevice (pk_orderedIDs m ! i) m"
  shows "2 * i + 3 < length ls"
    and "sublist (runes_of (deviceDisplayName d)) (ls ! (2 * i + 2))" and "sublist (runes_of (idText d)) (ls ! (2 * i + 3))"
proof -
  let ?s = "newPickerStyles nc layout"
  let ?ds = "map (\<lambda>devID. lookupDevice devID m) (pk_orderedIDs m)"
  let ?rows = "lines_of (deviceRows L ?s (pk_selected m) 0 ?ds)"
  have heading: "newline \<notin> set (renderText L ?s (sty_heading ?s) (ascii ''Nearby servers''))"
    using text_ok(2) [OF styles_ok(2) [OF layout], of "ascii ''Nearby servers''"] by simp
  have ls: "ls = [renderText L ?s (sty_heading ?s) (ascii ''Nearby servers''), []] @ ?rows"
    unfolding ls_def renderPickerDeviceContent_def using heading by (simp add: lines_of_newline lines_of_line)
  have show_all: "\<And>d. d \<in> set ?ds \<Longrightarrow> showable d" using assms(2) by auto
  have nl: "newline \<notin> set (deviceRow L ?s b d) \<and> newline \<notin> set (idRow L ?s d)" if "d \<in> set ?ds" for b d
    using deviceRow_ok [OF layout show_all [OF that]] by (simp add: textOf_def)
  have rows: "2 * i + 1 < length ?rows \<and> ?rows ! (2 * i) = deviceRow L ?s (0 + int i = pk_selected m) (?ds ! i) \<and> ?rows ! (2 * i + 1) = idRow L ?s (?ds ! i)"
    by (rule deviceRows_lines) (use nl assms(3) in auto)
  have d: "?ds ! i = d" using assms(3) by (simp add: d_def)
  have "showable d" using assms(2,3) by (simp add: d_def)
  note ok = deviceRow_ok [OF layout this, of nc]
  show "2 * i + 3 < length ls" using rows by (simp add: ls)
  show "sublist (runes_of (deviceDisplayName d)) (ls ! (2 * i + 2))" using rows ok(2) d by (simp add: ls)
  show "sublist (runes_of (idText d)) (ls ! (2 * i + 3))" using rows ok(4) d by (simp add: ls numeral_3_eq_3)
qed

lemma deviceContent_tabs:
  assumes layout: "layout = pickerLayoutFor w" and "\<forall>i \<in> set (pk_orderedIDs m). showable (lookupDevice i m)"
  shows "tabulator \<notin> set (renderPickerDeviceContent L (newPickerStyles nc layout) m)"
proof -
  have rows: "tabulator \<notin> set (deviceRows L (newPickerStyles nc layout) sel idx ds)" if "\<forall>d \<in> set ds. showable d" for sel idx ds
    using that deviceRow_ok(1,3) [OF layout] by (induction ds arbitrary: idx) (simp_all add: textOf_def)
  show ?thesis using rows assms(2) text_ok(3) [OF styles_ok(2) [OF layout], of "ascii ''Nearby servers''"]
    by (simp add: renderPickerDeviceContent_def)
qed

end

lemma length_itoa: "0 \<le> n \<Longrightarrow> n < 10000 \<Longrightarrow> length (itoa n) \<le> 4"
proof -
  assume n: "0 \<le> n" "n < 10000"
  have d: "length (digits_of k) \<le> Suc j" if "k < 10 ^ Suc j" for k j
    using that
  proof (induction j arbitrary: k)
    case 0
    then show ?case by (subst digits_of.simps) simp
  next
    case (Suc j)
    then have "length (digits_of (k div 10)) \<le> Suc j" by (intro Suc.IH) (simp add: div_less_iff_less_mult)
    then show ?case by (subst digits_of.simps) simp
  qed
  show ?thesis using d [of "nat n" 3] n by (simp add: itoa_def nat_less_iff)
qed

lemma itoa_columns: "list_all column (ascii (itoa n))"
proof -
  have "is_digit c \<Longrightarrow> column (Ascii c)" for c by (auto simp: is_digit_def column_def printable_def)
  then have "list_all column (ascii (digits_of k))" for k using digits_of_props [of k] by (auto simp: list_all_iff)
  then show ?thesis by (simp add: itoa_def) (simp add: column_def printable_def)
qed

lemma column_textOf: "list_all column t \<Longrightarrow> textOf t"
  by (auto simp: textOf_def list_all_iff column_def)

context lipgloss_contract begin

lemma panels_ok:
  assumes layout: "layout = pickerLayoutFor w" and fits: "lg_Width L (renderPickerDeviceContent L (newPickerStyles nc layout) m) \<le> pl_leftWidth layout - 4"
    and showable: "\<forall>i \<in> set (pk_orderedIDs m). showable (lookupDevice i m)"
  defines "p \<equiv> panels L layout (newPickerStyles nc layout) m" and "ls \<equiv> lines_of (renderPickerDeviceContent L (newPickerStyles nc layout) m)"
  shows "lg_Width L p \<le> pl_frameWidth layout - 4" and "tabulator \<notin> set p"
    and "k < length ls \<Longrightarrow> k + 2 < length (lines_of p) \<and> sublist (ls ! k) (lines_of p ! (k + 2))"
proof -
  let ?s = "newPickerStyles nc layout"
  let ?left = "renderPickerDeviceContent L ?s m" and ?right = "renderPickerServicesContent L ?s m"
  let ?h = "max (lg_Height L ?left) (lg_Height L ?right)"
  let ?l = "lg_Render L ((sty_panelLeft ?s)\<lparr>st_height := ?h\<rparr>) ?left"
  let ?r1 = "lg_Render L ((sty_panelRight ?s)\<lparr>st_height := ?h\<rparr>) ?right"
  let ?r2 = "lg_Render L ((sty_panelRight ?s)\<lparr>st_width := pl_leftWidth layout, st_height := ?h\<rparr>) ?right"
  note st = styles_ok [OF layout, where nc = nc]
  note lo = layout_ok [OF layout]
  have p: "p = (if pl_split layout then lg_JoinHorizontal L [?l, ascii '' '', ?r1] else lg_JoinVertical L [?l, ?r2])"
    by (simp add: p_def panels_def Let_def)
  have wl: "lg_Width L ?l = pl_leftWidth layout + 2" using box_width [OF st(9)] st(10) by simp
  have w1: "lg_Width L (ascii '' '') = 1" using columns [of "ascii '' ''"] by (simp add: column_def printable_def)
  show "lg_Width L p \<le> pl_frameWidth layout - 4"
  proof (cases "pl_split layout")
    case True
    have "lg_Width L ?r1 = pl_rightWidth layout + 2" using box_width [OF st(11) [OF True]] st(12) by simp
    then have "lg_Width L p = pl_leftWidth layout + pl_rightWidth layout + 5" using True wl w1 by (simp add: p horizontal_width)
    then show ?thesis using lo(4) [OF True] by simp
  next
    case False
    have "lg_Width L ?r2 = pl_leftWidth layout + 2" using box_width [OF st(13)] by simp
    then have "lg_Width L p = pl_leftWidth layout + 2" using False wl by (simp add: p vertical_width)
    then show ?thesis using lo(5) [OF False] by simp
  qed
  show "tabulator \<notin> set p" using join_tabs [of "[?l, ascii '' '', ?r1]"] join_tabs [of "[?l, ?r2]"] no_tabs by (simp add: p)
  assume k: "k < length ls"
  have "\<forall>j \<le> k. lg_Width L (ls ! j) \<le> st_width ((sty_panelLeft ?s)\<lparr>st_height := ?h\<rparr>) - 4"
  proof (intro allI impI)
    fix j assume "j \<le> k"
    then have "ls ! j \<in> set ls" using k by simp
    then have "lg_Width L (ls ! j) \<le> lg_Width L ?left" unfolding ls_def by (rule line_width)
    then show "lg_Width L (ls ! j) \<le> st_width ((sty_panelLeft ?s)\<lparr>st_height := ?h\<rparr>) - 4" using fits st(10) by simp
  qed
  from box_row [OF st(9) k [unfolded ls_def] this [unfolded ls_def] deviceContent_tabs [OF layout showable]]
  have row: "k + 2 < length (lines_of ?l)" "sublist (ls ! k) (lines_of ?l ! (k + 2))" by (simp_all add: ls_def)
  have "k + 2 < length (lines_of p) \<and> sublist (lines_of ?l ! (k + 2)) (lines_of p ! (k + 2))"
    using horizontal_row [OF row(1)] vertical_row [OF row(1)] by (simp add: p)
  then show "k + 2 < length (lines_of p) \<and> sublist (ls ! k) (lines_of p ! (k + 2))" using row(2) sublist_order.order_trans by blast
qed

text \<open>The frame puts the lines of the body seven rows below its top.\<close>

lemma view_rows:
  assumes ok: "picker_ok m" and few: "length (pk_orderedIDs m) < 10000" and layout: "layout = pickerLayoutFor (pk_windowWidth m)"
    and body: "lg_Width L (viewBody L layout (newPickerStyles nc layout) e m) \<le> pl_frameWidth layout - 4"
    and tabs: "tabulator \<notin> set (viewBody L layout (newPickerStyles nc layout) e m)"
  obtains view where "renderPickerView L nc e m = Some view"
    and "\<And>k. k < length (lines_of (viewBody L layout (newPickerStyles nc layout) e m)) \<Longrightarrow>
          k + 7 < length (lines_of view) \<and> sublist (lines_of (viewBody L layout (newPickerStyles nc layout) e m) ! k) (lines_of view ! (k + 7))"
proof -
  let ?s = "newPickerStyles nc layout"
  let ?body = "viewBody L layout ?s e m"
  note st = styles_ok [OF layout, where nc = nc]
  have R: "textOf (renderText L ?s st t) \<and> lg_Width L (renderText L ?s st t) = len t" if "plainStyle st" "list_all column t" for st t
    using text_ok [OF that(1), of t] column_textOf [OF that(2)] columns [OF that(2)] by (simp add: textOf_def)
  have title: "textOf (titleRow L ?s)" "lg_Width L (titleRow L ?s) = 29"
    using R [OF st(1), of "Glyph 0x25C6 # ascii '' LightningBNB''"] R [OF st(6), of "ascii ''  server picker''"]
    by (simp_all add: titleRow_def append_width column_def printable_def textOf_def)
  let ?select = "renderText L ?s (sty_heading ?s) (ascii ''Select a nearby server'')"
  have select: "textOf ?select" "lg_Width L ?select = 22" using R [OF st(2), of "ascii ''Select a nearby server''"] by (simp_all add: column_def printable_def)
  have found: "list_all column (foundText m)" "len (foundText m) \<le> 23"
    using itoa_columns [of "len (pk_orderedIDs m)"] length_itoa [of "len (pk_orderedIDs m)"] few by (simp_all add: foundText_def) (simp add: column_def printable_def)
  have frame: "pk_frame m < length spinnerGlyphs" using ok by (simp add: picker_ok_def pickerSpinnerFrames_def spinnerGlyphs_def)
  then have spin: "column (Glyph (spinnerGlyphs ! pk_frame m))" by (simp add: column_def)
  have scan: "list_all column (ascii ''Scanning '' @ [Glyph (spinnerGlyphs ! pk_frame m)] @ foundText m)" "list_all column (ascii ''Scan complete'' @ foundText m)"
    using found(1) spin by (simp_all, simp_all add: column_def printable_def)
  obtain status where status: "statusRow L ?s m = Some status" "textOf status" "lg_Width L status \<le> 36"
    using R [OF st(3) scan(1)] R [OF st(6) scan(2)] frame found(2) by (cases "pk_scanning m") (auto simp: statusRow_def)
  define content where "content = titleRow L ?s @ [newline] @ ?select @ [newline, newline] @ status @ [newline, newline] @ ?body @ [newline] @ footerRow L ?s"
  have view: "renderPickerView L nc e m = Some (lg_Render L (sty_frame ?s) content)"
    using status(1) by (simp add: renderPickerView_def content_def layout [symmetric] Let_def)
  have lines: "lines_of content = [titleRow L ?s, ?select, [], status, []] @ lines_of ?body @ lines_of (footerRow L ?s)"
    using title(1) select(1) status(2) by (simp add: content_def lines_of_newline lines_of_line textOf_def)
  have "tabulator \<notin> set (footerRow L ?s)" unfolding footerRow_def by (rule text_ok(3) [OF st(6)]) simp_all
  then have tab: "tabulator \<notin> set content" using title(1) select(1) status(2) tabs by (simp add: content_def textOf_def)
  have w0: "lg_Width L [] = 0" using columns [of "[]"] by simp
  have row: "k + 7 < length (lines_of (lg_Render L (sty_frame ?s) content)) \<and> sublist (lines_of ?body ! k) (lines_of (lg_Render L (sty_frame ?s) content) ! (k + 7))"
    if k: "k < length (lines_of ?body)" for k
  proof -
    have n: "lines_of content ! (k + 5) = lines_of ?body ! k" "k + 5 < length (lines_of content)" using k by (simp_all add: lines nth_append)
    have "\<forall>j \<le> k + 5. lg_Width L (lines_of content ! j) \<le> st_width (sty_frame ?s) - 4"
    proof (intro allI impI)
      fix j assume "j \<le> k + 5"
      show "lg_Width L (lines_of content ! j) \<le> st_width (sty_frame ?s) - 4"
      proof (cases "j < 5")
        case True
        then have "j = 0 \<or> j = 1 \<or> j = 2 \<or> j = 3 \<or> j = 4" by arith
        then show ?thesis using title(2) select(2) status(3) w0 layout_ok(1) [OF layout] st(8) by (auto simp: lines nth_append)
      next
        case False
        define i where "i = j - 5"
        then have i: "j = i + 5" "i < length (lines_of ?body)" using False \<open>j \<le> k + 5\<close> k by simp_all
        then have "lines_of content ! j = lines_of ?body ! i" by (simp add: lines nth_append)
        moreover have "lg_Width L (lines_of ?body ! i) \<le> lg_Width L ?body" using i(2) by (intro line_width) simp
        ultimately show ?thesis using body st(8) by simp
      qed
    qed
    from box_row [OF st(7) n(2) this tab] n(1) show ?thesis by (simp add: add.commute)
  qed
  show ?thesis by (rule that [OF view row])
qed

end

text \<open>The mouse on the rows of a server.\<close>

lemma mouse_selects:
  assumes "i < length (pk_orderedIDs m)" and "y = 11 + 2 * int i \<or> y = 12 + 2 * int i"
  shows "pk_selected (fst (Update (MouseMsg True y) m)) = int i"
proof -
  have e: "pk_selected (fst (ensureSelectedServices m')) = pk_selected m'" for m'
    by (simp add: ensureSelectedServices_def cancelServiceProbe_def Let_def)
  have "pickerDeviceIndexAtY y = Some (int i)" using assms(2) by (auto simp: pickerDeviceIndexAtY_def pickerDeviceFirstRowY_def)
  then show ?thesis using assms(1) e by (simp add: Update_def updateMouse_def)
qed

section \<open>A concrete layout\<close>

text \<open>Without decoration: every rune is one column wide, a line that is too long is cut into pieces, and joined blocks are filled with spaces.\<close>

abbreviation space :: rune where
  "space \<equiv> Ascii CHR '' ''"

definition detab :: "runes \<Rightarrow> runes" where
  "detab s = concat (map (\<lambda>r. if r = tabulator then replicate 4 space else [r]) s)"

definition blockWidth :: "runes list \<Rightarrow> nat" where
  "blockWidth ls = foldr max (map length ls) 0"

definition fillTo :: "nat \<Rightarrow> runes \<Rightarrow> runes" where
  "fillTo n l = l @ replicate (n - length l) space"

function cutLine :: "nat \<Rightarrow> runes \<Rightarrow> runes list" where
  "cutLine n l = (if n = 0 \<or> length l \<le> n then [take n l] else take n l # cutLine n (drop n l))"
  by auto
termination by (relation "measure (\<lambda>(n, l). length l)") auto

declare cutLine.simps [simp del]

definition boxRows :: "nat \<Rightarrow> nat \<Rightarrow> runes \<Rightarrow> runes list" where
  "boxRows w h s =
     (let inner = concat (map (cutLine (w - 4)) (lines_of (detab s)));
          row = (\<lambda>l. [Glyph 0x2502, space, space] @ fillTo (w - 4) l @ [space, space, Glyph 0x2502]);
          blank = row []; rule = (\<lambda>a b. [Glyph a] @ replicate w (Glyph 0x2500) @ [Glyph b]) in
      [rule 0x256D 0x256E, blank] @ map row inner @ replicate (h - length inner) blank @ [blank, rule 0x2570 0x256F])"

definition besides :: "runes list \<Rightarrow> runes list \<Rightarrow> runes list" where
  "besides a b =
     (let n = max (length a) (length b); line = (\<lambda>ls i. fillTo (blockWidth ls) (if i < length ls then ls ! i else [])) in
      map (\<lambda>i. line a i @ line b i) [0..<n])"

definition plainGloss :: lipgloss where
  "plainGloss =
     \<lparr>lg_Render = (\<lambda>st s. if st_border st then Join (boxRows (nat (st_width st)) (nat (st_height st)) s) [newline] else detab s),
      lg_Width = (\<lambda>s. int (blockWidth (lines_of s))), lg_Height = (\<lambda>s. len (lines_of s)),
      lg_JoinHorizontal = (\<lambda>bs. Join (foldr (\<lambda>b rest. besides (lines_of b) rest) bs [[]]) [newline]),
      lg_JoinVertical = (\<lambda>bs. Join (concat (map lines_of bs)) [newline])\<rparr>"

lemma detab_id: "tabulator \<notin> set s \<Longrightarrow> detab s = s"
  by (induction s) (auto simp: detab_def)

lemma tab_detab: "tabulator \<notin> set (detab s)"
  by (auto simp: detab_def)

lemma blockWidth_line: "l \<in> set ls \<Longrightarrow> length l \<le> blockWidth ls"
  by (induction ls) (auto simp: blockWidth_def)

lemma blockWidth_eq: "ls \<noteq> [] \<Longrightarrow> \<forall>l \<in> set ls. length l = n \<Longrightarrow> blockWidth ls = n"
proof (induction ls)
  case (Cons l ls)
  then show ?case by (cases "ls = []") (simp_all add: blockWidth_def)
qed simp

lemma blockWidth_append: "blockWidth (a @ b) = max (blockWidth a) (blockWidth b)"
  by (induction a) (auto simp: blockWidth_def)

lemma lines_Join: "ls \<noteq> [] \<Longrightarrow> \<forall>l \<in> set ls. newline \<notin> set l \<Longrightarrow> lines_of (Join ls [newline]) = ls"
  by (induction ls "[newline]" rule: Join.induct) (simp_all add: lines_of_line lines_of_newline)

lemma set_Join: "set (Join ls [newline]) \<subseteq> insert newline (\<Union>l \<in> set ls. set l)"
  by (induction ls "[newline]" rule: Join.induct) auto

lemma length_fillTo: "length l \<le> n \<Longrightarrow> length (fillTo n l) = n"
  by (simp add: fillTo_def)

lemma cutLine_ok: "p \<in> set (cutLine n l) \<Longrightarrow> length p \<le> n \<and> set p \<subseteq> set l"
proof (induction n l rule: cutLine.induct)
  case (1 n l)
  show ?case
  proof (cases "n = 0 \<or> length l \<le> n \<or> p = take n l")
    case True
    then have "p = take n l" using 1(2) cutLine.simps [of n l] by (auto split: if_splits)
    then show ?thesis by (simp add: set_take_subset)
  next
    case False
    then have "p \<in> set (cutLine n (drop n l))" using 1(2) cutLine.simps [of n l] by simp
    then show ?thesis using 1(1) False set_drop_subset [of n l] by blast
  qed
qed

lemma cutLine_fits: "length l \<le> n \<Longrightarrow> cutLine n l = [l]"
  by (subst cutLine.simps) simp

lemma set_lines: "l \<in> set (lines_of s) \<Longrightarrow> set l \<subseteq> set s - {newline}"
proof (induction s arbitrary: l)
  case (Cons r s)
  have "set (hd (lines_of s)) \<subseteq> set s - {newline}" by (rule Cons.IH) simp
  moreover have "set l' \<subseteq> set s - {newline}" if "l' \<in> set (tl (lines_of s)) \<or> l' \<in> set (lines_of s)" for l'
    by (rule Cons.IH) (use that list.set_sel(2) [OF lines_of_nonempty] in blast)
  moreover have "l = [] \<or> l \<in> set (lines_of s)" if "r = newline" using Cons.prems that by simp
  moreover have "l = r # hd (lines_of s) \<or> l \<in> set (tl (lines_of s))" if "r \<noteq> newline" using Cons.prems that by simp
  ultimately show ?case by (cases "r = newline") fastforce+
qed simp

lemma boxRows_ok:
  assumes "l \<in> set (boxRows w h s)"
  shows "newline \<notin> set l" "tabulator \<notin> set l" "4 \<le> w \<Longrightarrow> length l = w + 2"
proof -
  let ?inner = "concat (map (cutLine (w - 4)) (lines_of (detab s)))"
  have inner: "length p \<le> w - 4 \<and> newline \<notin> set p \<and> tabulator \<notin> set p" if p: "p \<in> set ?inner" for p
  proof -
    obtain q where q: "q \<in> set (lines_of (detab s))" "p \<in> set (cutLine (w - 4) q)" using p by auto
    show ?thesis using cutLine_ok [OF q(2)] set_lines [OF q(1)] tab_detab [of s] by blast
  qed
  from assms consider "l = [Glyph 0x256D] @ replicate w (Glyph 0x2500) @ [Glyph 0x256E]" | "l = [Glyph 0x2570] @ replicate w (Glyph 0x2500) @ [Glyph 0x256F]"
    | p where "l = [Glyph 0x2502, space, space] @ fillTo (w - 4) p @ [space, space, Glyph 0x2502]" "length p \<le> w - 4 \<and> newline \<notin> set p \<and> tabulator \<notin> set p"
    unfolding boxRows_def Let_def using inner by auto
  then have "newline \<notin> set l \<and> tabulator \<notin> set l \<and> (4 \<le> w \<longrightarrow> length l = w + 2)"
  proof cases
    case (3 p)
    then have "length (fillTo (w - 4) p) = w - 4" by (simp add: length_fillTo)
    then have "length l = (w - 4) + 6" using 3(1) by simp
    then show ?thesis using 3 by (auto simp: fillTo_def)
  qed simp_all
  then show "newline \<notin> set l" "tabulator \<notin> set l" "4 \<le> w \<Longrightarrow> length l = w + 2" by simp_all
qed

lemma boxRows_nonempty: "boxRows w h s \<noteq> []"
  by (simp add: boxRows_def Let_def)

lemma concat_map_split: "concat (map f xs) = concat (map f (take n xs)) @ concat (map f (drop n xs))"
  by (metis append_take_drop_id concat_append map_append)

lemma boxRows_row:
  assumes "k < length (lines_of s)" and "\<forall>j \<le> k. length (lines_of s ! j) \<le> w - 4" and "tabulator \<notin> set s"
  shows "k + 2 < length (boxRows w h s) \<and> sublist (lines_of s ! k) (boxRows w h s ! (k + 2))"
proof -
  let ?ls = "lines_of s"
  have "concat (map (cutLine (w - 4)) (take (Suc k) ?ls)) = concat (map (\<lambda>l. [l]) (take (Suc k) ?ls))"
    using assms(1,2) by (intro arg_cong [where f = concat] map_cong refl cutLine_fits) (auto simp: in_set_conv_nth)
  then have "concat (map (cutLine (w - 4)) (take (Suc k) ?ls)) = take (Suc k) ?ls" by simp
  then have inner: "concat (map (cutLine (w - 4)) ?ls) = take (Suc k) ?ls @ concat (map (cutLine (w - 4)) (drop (Suc k) ?ls))"
    using concat_map_split [of "cutLine (w - 4)" ?ls "Suc k"] by simp
  define rest where "rest = concat (map (cutLine (w - 4)) (drop (Suc k) ?ls))"
  have n: "length (take (Suc k) ?ls @ rest) > k" "(take (Suc k) ?ls @ rest) ! k = ?ls ! k" using assms(1) by (simp_all add: nth_append)
  have "boxRows w h s ! (k + 2) = [Glyph 0x2502, space, space] @ fillTo (w - 4) (?ls ! k) @ [space, space, Glyph 0x2502]"
    using n inner assms(1) by (simp add: boxRows_def Let_def detab_id [OF assms(3)] rest_def [symmetric] nth_append)
  moreover have "k + 2 < length (boxRows w h s)"
    using n inner by (simp add: boxRows_def Let_def detab_id [OF assms(3)] rest_def [symmetric])
  moreover have "sublist (?ls ! k) ([Glyph 0x2502, space, space] @ ?ls ! k @ replicate (w - 4 - length (?ls ! k)) space @ [space, space, Glyph 0x2502])"
    by (rule sublist_appendI)
  ultimately show ?thesis by (simp add: fillTo_def)
qed

lemma besides_row: "k < length a \<Longrightarrow> k < length (besides a b) \<and> sublist (a ! k) (besides a b ! k)"
proof -
  assume k: "k < length a"
  then have "k < length (besides a b)" by (simp add: besides_def Let_def)
  moreover have "besides a b ! k = a ! k @ replicate (blockWidth a - length (a ! k)) space @ fillTo (blockWidth b) (if k < length b then b ! k else [])"
    using k by (simp add: besides_def Let_def fillTo_def)
  ultimately show ?thesis by simp
qed

lemma besides_ok: "a \<noteq> [] \<Longrightarrow> besides a b \<noteq> [] \<and> (\<forall>l \<in> set (besides a b). length l = blockWidth a + blockWidth b \<and> set l \<subseteq> insert space (\<Union>l \<in> set a \<union> set b. set l))"
proof -
  assume a: "a \<noteq> []"
  have f: "length (fillTo (blockWidth ls) (if i < length ls then ls ! i else [])) = blockWidth ls
      \<and> set (fillTo (blockWidth ls) (if i < length ls then ls ! i else [])) \<subseteq> insert space (\<Union>l \<in> set ls. set l)" for ls and i :: nat
  proof (cases "i < length ls")
    case True
    then have "ls ! i \<in> set ls" by simp
    then show ?thesis using True blockWidth_line [of "ls ! i" ls] by (auto simp: length_fillTo) (auto simp: fillTo_def)
  qed (auto simp: fillTo_def)
  have "besides a b \<noteq> []" using a by (cases a) (simp_all add: besides_def Let_def)
  moreover have "length l = blockWidth a + blockWidth b \<and> set l \<subseteq> insert space (\<Union>l \<in> set a \<union> set b. set l)" if l: "l \<in> set (besides a b)" for l
  proof -
    obtain i where "l = fillTo (blockWidth a) (if i < length a then a ! i else []) @ fillTo (blockWidth b) (if i < length b then b ! i else [])"
      using l by (auto simp: besides_def Let_def)
    then show ?thesis using f [of a i] f [of b i] by auto
  qed
  ultimately show ?thesis by blast
qed

definition joined :: "runes list \<Rightarrow> runes list" where
  "joined bs = foldr (\<lambda>b rest. besides (lines_of b) rest) bs [[]]"

lemma joined_ok:
  "joined bs \<noteq> [] \<and> blockWidth (joined bs) = sum_list (map (\<lambda>b. blockWidth (lines_of b)) bs)
   \<and> (\<forall>l \<in> set (joined bs). newline \<notin> set l \<and> ((\<forall>b \<in> set bs. tabulator \<notin> set b) \<longrightarrow> tabulator \<notin> set l))"
proof (induction bs)
  case Nil
  then show ?case by (simp add: joined_def blockWidth_def)
next
  case (Cons b bs)
  have j: "joined (b # bs) = besides (lines_of b) (joined bs)" by (simp add: joined_def)
  note ok = besides_ok [OF lines_of_nonempty [of b], of "joined bs"]
  have "blockWidth (joined (b # bs)) = blockWidth (lines_of b) + blockWidth (joined bs)" unfolding j using ok by (intro blockWidth_eq) auto
  moreover have "newline \<notin> set l \<and> ((\<forall>b \<in> set (b # bs). tabulator \<notin> set b) \<longrightarrow> tabulator \<notin> set l)" if l: "l \<in> set (joined (b # bs))" for l
  proof -
    have "set l \<subseteq> insert space (\<Union>l \<in> set (lines_of b) \<union> set (joined bs). set l)" using l ok unfolding j by blast
    then show ?thesis using Cons.IH set_lines [of _ b] by fastforce
  qed
  ultimately show ?case using Cons.IH ok j by simp
qed

interpretation plainGloss: lipgloss_contract plainGloss
proof
  show "list_all2 sublist (lines_of s) (lines_of (lg_Render plainGloss st s))" if "plainStyle st" "tabulator \<notin> set s" for st s
    using that by (simp add: plainGloss_def plainStyle_def detab_id list_all2_same)
  show "lg_Width plainGloss (lg_Render plainGloss st s) = lg_Width plainGloss s" if "plainStyle st" "tabulator \<notin> set s" for st s
    using that by (simp add: plainGloss_def plainStyle_def detab_id)
  show "lg_Width plainGloss s = len s" if "list_all column s" for s
    using column_textOf [OF that] by (simp add: plainGloss_def textOf_def lines_of_line blockWidth_def)
  show "lg_Width plainGloss (a @ b) = lg_Width plainGloss a + lg_Width plainGloss b" if "newline \<notin> set a" "newline \<notin> set b" for a b
    using that by (simp add: plainGloss_def lines_of_line blockWidth_def)
  show "lg_Width plainGloss l \<le> lg_Width plainGloss s" if "l \<in> set (lines_of s)" for l s
    using blockWidth_line [OF that] line_no_newline [OF that] by (simp add: plainGloss_def lines_of_line blockWidth_def)
  have box: "lines_of (lg_Render plainGloss st s) = boxRows (nat (st_width st)) (nat (st_height st)) s" if "boxStyle st" for st s
    using lines_Join [OF boxRows_nonempty, of "nat (st_width st)" "nat (st_height st)" s] boxRows_ok(1) that by (simp add: plainGloss_def boxStyle_def)
  show "tabulator \<notin> set (lg_Render plainGloss st s)" for st s
    using set_Join [of "boxRows (nat (st_width st)) (nat (st_height st)) s"] boxRows_ok(2) [of _ "nat (st_width st)" "nat (st_height st)" s] tab_detab [of s]
    by (auto simp: plainGloss_def)
  show "k + 2 < length (lines_of (lg_Render plainGloss st s)) \<and> sublist (lines_of s ! k) (lines_of (lg_Render plainGloss st s) ! (k + 2))"
    if st: "boxStyle st" and k: "k < length (lines_of s)" and fits: "\<forall>j \<le> k. lg_Width plainGloss (lines_of s ! j) \<le> st_width st - 4" and tab: "tabulator \<notin> set s" for st k s
  proof -
    have "\<forall>j \<le> k. length (lines_of s ! j) \<le> nat (st_width st) - 4"
    proof (intro allI impI)
      fix j assume "j \<le> k"
      then have l: "lines_of s ! j \<in> set (lines_of s)" "lg_Width plainGloss (lines_of s ! j) \<le> st_width st - 4" using k fits by simp_all
      then show "length (lines_of s ! j) \<le> nat (st_width st) - 4"
        using line_no_newline [OF l(1)] by (simp add: plainGloss_def lines_of_line blockWidth_def)
    qed
    from boxRows_row [OF k this tab] show ?thesis by (simp add: box [OF st])
  qed
  show "lg_Width plainGloss (lg_Render plainGloss st s) = st_width st + 2" if st: "boxStyle st" for st s
  proof -
    have "blockWidth (boxRows (nat (st_width st)) (nat (st_height st)) s) = nat (st_width st) + 2"
      using boxRows_ok(3) [of _ "nat (st_width st)"] st by (intro blockWidth_eq boxRows_nonempty) (auto simp: boxStyle_def)
    then show ?thesis using st box [OF st, of s] by (simp add: plainGloss_def boxStyle_def)
  qed
  have h: "lines_of (lg_JoinHorizontal plainGloss bs) = joined bs" for bs
    using joined_ok [of bs] by (simp add: plainGloss_def joined_def [symmetric] lines_Join)
  show "k < length (lines_of (lg_JoinHorizontal plainGloss (a # bs))) \<and> sublist (lines_of a ! k) (lines_of (lg_JoinHorizontal plainGloss (a # bs)) ! k)"
    if "k < length (lines_of a)" for k a bs
    using besides_row [OF that] unfolding h by (simp add: joined_def)
  show "lg_Width plainGloss (lg_JoinHorizontal plainGloss bs) = sum_list (map (lg_Width plainGloss) bs)" for bs
  proof -
    have "lg_Width plainGloss (lg_JoinHorizontal plainGloss bs) = int (blockWidth (joined bs))" using h [of bs] by (simp add: plainGloss_def)
    moreover have "int (sum_list (map (\<lambda>b. blockWidth (lines_of b)) bs)) = sum_list (map (lg_Width plainGloss) bs)"
      by (induction bs) (simp_all add: plainGloss_def)
    ultimately show ?thesis using joined_ok [of bs] by simp
  qed
  have v: "lines_of (lg_JoinVertical plainGloss bs) = concat (map lines_of bs)" if "bs \<noteq> []" for bs
    using that line_no_newline by (auto simp: plainGloss_def intro!: lines_Join)
  show "k < length (lines_of (lg_JoinVertical plainGloss (a # bs))) \<and> sublist (lines_of a ! k) (lines_of (lg_JoinVertical plainGloss (a # bs)) ! k)"
    if "k < length (lines_of a)" for k a bs
    using that unfolding v [of "a # bs", simplified] by (simp add: nth_append)
  show "lg_Width plainGloss (lg_JoinVertical plainGloss [a, b]) = max (lg_Width plainGloss a) (lg_Width plainGloss b)" for a b
    using v [of "[a, b]"] by (simp add: plainGloss_def blockWidth_append)
  show "tabulator \<notin> set (lg_JoinHorizontal plainGloss bs) \<and> tabulator \<notin> set (lg_JoinVertical plainGloss bs)" if "\<forall>b \<in> set bs. tabulator \<notin> set b" for bs
  proof
    have "lg_JoinHorizontal plainGloss bs = Join (joined bs) [newline]" by (simp add: plainGloss_def joined_def)
    then show "tabulator \<notin> set (lg_JoinHorizontal plainGloss bs)" using set_Join [of "joined bs"] joined_ok [of bs] that by fastforce
    have "lg_JoinVertical plainGloss bs = Join (concat (map lines_of bs)) [newline]" by (simp add: plainGloss_def)
    moreover have "tabulator \<notin> set l" if l: "l \<in> set (concat (map lines_of bs))" for l using l set_lines \<open>\<forall>b \<in> set bs. tabulator \<notin> set b\<close> by fastforce
    ultimately show "tabulator \<notin> set (lg_JoinVertical plainGloss bs)" using set_Join [of "concat (map lines_of bs)"] by fastforce
  qed
qed

section \<open>Properties\<close>


definition demo_device :: "string \<Rightarrow> string \<Rightarrow> Device" where
  "demo_device devID name = zeroDevice\<lparr>dev_ID := devID, dev_Name := name, dev_RSSI := - 60\<rparr>"

definition demo_picker :: pickerModel where
  "demo_picker = fold addDevice [demo_device ''aa'' ''kitchen'', demo_device ''bb'' ''garage''] newPickerModel"

lemma demo_device_name:
  assumes "name \<noteq> ''''" and "visible (hd name)" and "visible (last name)"
  shows "deviceDisplayName (demo_device devID name) = name"
  using assms TrimSpace_visible [of name] by (simp add: deviceDisplayName_def demo_device_def zeroDevice_def)

lemma demo_device_id: "idText (demo_device devID name) = ''ID '' @ devID"
  by (simp add: idText_def demo_device_def zeroDevice_def)


end
