(* ===== verification/Picker_Run.thy ===== *)
theory Picker_Run
  imports Picker "HOL-Library.Sublist"
begin

text \<open>
  The picker's program, \<open>newPickerModel\<close> to \<open>stop\<close> of \<open>internal/app/picker.go\<close>: the goroutine that scans and puts events into a channel, the commands in flight and
  the messages they send to \<open>Update\<close>. The library \<open>bubbletea\<close> runs every command in a goroutine of its own and gives \<open>Update\<close> one message
  at a time, in any order; so the messages are a pool here, and an event of the model is any step that may come next.
\<close>

section \<open>The program\<close>

datatype scan_producer = Scanning | Offering pickerScanEvent | ScanOver

text \<open>Besides the state, what the scan has reported so far and what \<open>Update\<close> has handled of it.\<close>

record pickerProgram =
  pp_model :: pickerModel
  pp_events :: "pickerScanEvent list"
  pp_producer :: scan_producer
  pp_ctxErr :: "go_error option"
  pp_cmds :: "picker_cmd list"
  pp_waitsContext :: bool
  pp_msgs :: "picker_msg list"
  pp_quit :: bool
  pp_reported :: "pickerScanEvent list"
  pp_handled :: "pickerScanEvent list"

definition scanEventsCap :: nat where "scanEventsCap = 32"

text \<open>\<open>newPickerModel\<close> and \<open>Init\<close>: the scan has begun, and the first commands are under way.\<close>

definition pickerInit :: pickerProgram where
  "pickerInit = \<lparr>pp_model = newPickerModel, pp_events = [], pp_producer = Scanning, pp_ctxErr = None, pp_cmds = [CmdNextScanEvent, CmdNextScanTick],
     pp_waitsContext = True, pp_msgs = [], pp_quit = False, pp_reported = [], pp_handled = []\<rparr>"

definition scanCtxDone :: "pickerProgram \<Rightarrow> bool" where
  "scanCtxDone s \<longleftrightarrow> pp_ctxErr s \<noteq> None \<or> pk_scanCancelled (pp_model s)"

definition deviceEvent :: "Device \<Rightarrow> pickerScanEvent" where
  "deviceEvent d = \<lparr>ev_device = Some d, ev_devices = [], ev_err = None, ev_done = False\<rparr>"

definition finalEvent :: "Device list \<Rightarrow> go_error option \<Rightarrow> pickerScanEvent" where
  "finalEvent ds err = \<lparr>ev_device = None, ev_devices = ds, ev_err = err, ev_done = True\<rparr>"

definition producerAfter :: "pickerScanEvent \<Rightarrow> scan_producer" where
  "producerAfter e = (if ev_done e then ScanOver else Scanning)"

definition pickerStop :: "pickerModel \<Rightarrow> pickerModel" where
  "pickerStop m = (cancelServiceProbe m)\<lparr>pk_scanCancelled := True\<rparr>"

datatype picker_event =
    Reports Device
  | Finishes "Device list" "go_error option"
  | Offers
  | GivesUp
  | Receives
  | Ticks
  | Probed string u64 Device "Service list" "go_error option"
  | ContextEnds go_error
  | ContextNoticed
  | UserDoes picker_msg
  | Handles nat
  | Quits
  | Stops

definition userMsg :: "picker_msg \<Rightarrow> bool" where
  "userMsg msg = (case msg of WindowSize w \<Rightarrow> True | MouseMsg motion y \<Rightarrow> True | KeyMsg key \<Rightarrow> True | _ \<Rightarrow> False)"

text \<open>The scan's callback and its end: each offers an event and waits for room or for the end of the scan's context.\<close>

definition offerEvent :: "pickerScanEvent \<Rightarrow> pickerProgram \<Rightarrow> pickerProgram option" where
  "offerEvent e s = (if pp_producer s = Scanning then Some (s\<lparr>pp_producer := Offering e, pp_reported := pp_reported s @ [e]\<rparr>) else None)"

text \<open>A command in flight ends with a message.\<close>

definition commandEnds :: "picker_cmd \<Rightarrow> picker_msg \<Rightarrow> pickerProgram \<Rightarrow> pickerProgram option" where
  "commandEnds cmd msg s =
     (if cmd \<in> set (pp_cmds s) then Some (s\<lparr>pp_cmds := remove1 cmd (pp_cmds s), pp_msgs := pp_msgs s @ [msg]\<rparr>) else None)"

definition handleMsg :: "nat \<Rightarrow> pickerProgram \<Rightarrow> pickerProgram option" where
  "handleMsg i s =
     (if pp_quit s \<or> i \<ge> length (pp_msgs s) then None
      else case Update (pp_msgs s ! i) (pp_model s) of
             (m, cmds) \<Rightarrow> Some (s\<lparr>pp_model := m, pp_cmds := pp_cmds s @ cmds, pp_msgs := take i (pp_msgs s) @ drop (Suc i) (pp_msgs s),
               pp_handled := pp_handled s @ (case pp_msgs s ! i of ScanEvent e \<Rightarrow> [e] | _ \<Rightarrow> [])\<rparr>))"

text \<open>\<open>None\<close> where the step cannot happen.\<close>

fun pickerDo :: "picker_event \<Rightarrow> pickerProgram \<Rightarrow> pickerProgram option" where
  "pickerDo (Reports d) s = offerEvent (deviceEvent d) s"
| "pickerDo (Finishes ds err) s = offerEvent (finalEvent ds err) s"
| "pickerDo Offers s =
     (case pp_producer s of
        Offering e \<Rightarrow> if length (pp_events s) < scanEventsCap then Some (s\<lparr>pp_events := pp_events s @ [e], pp_producer := producerAfter e\<rparr>) else None
      | _ \<Rightarrow> None)"
| "pickerDo GivesUp s = (case pp_producer s of Offering e \<Rightarrow> if scanCtxDone s then Some (s\<lparr>pp_producer := producerAfter e\<rparr>) else None | _ \<Rightarrow> None)"
| "pickerDo Receives s = (case pp_events s of [] \<Rightarrow> None | e # rest \<Rightarrow> commandEnds CmdNextScanEvent (ScanEvent e) (s\<lparr>pp_events := rest\<rparr>))"
| "pickerDo Ticks s = commandEnds CmdNextScanTick ScanTick s"
| "pickerDo (Probed deviceID request device services err) s = commandEnds (CmdProbe deviceID request device) (ServicesEvent deviceID request services err) s"
| "pickerDo (ContextEnds e) s = (if pp_ctxErr s = None then Some (s\<lparr>pp_ctxErr := Some e\<rparr>) else None)"
| "pickerDo ContextNoticed s =
     (case pp_ctxErr s of
        Some e \<Rightarrow> if pp_waitsContext s then Some (s\<lparr>pp_waitsContext := False, pp_msgs := pp_msgs s @ [ContextMsg e]\<rparr>) else None
      | None \<Rightarrow> None)"
| "pickerDo (UserDoes msg) s = (if userMsg msg then Some (s\<lparr>pp_msgs := pp_msgs s @ [msg]\<rparr>) else None)"
| "pickerDo (Handles i) s = handleMsg i s"
| "pickerDo Quits s = (if CmdQuit \<in> set (pp_cmds s) then Some (s\<lparr>pp_quit := True\<rparr>) else None)"
| "pickerDo Stops s = (if pp_quit s then Some (s\<lparr>pp_model := pickerStop (pp_model s)\<rparr>) else None)"

fun pickerRuns :: "picker_event list \<Rightarrow> pickerProgram \<Rightarrow> pickerProgram option" where
  "pickerRuns [] s = Some s"
| "pickerRuns (e # es) s = (case pickerDo e s of None \<Rightarrow> None | Some s' \<Rightarrow> pickerRuns es s')"

section \<open>Invariant\<close>

definition scanMsgs :: "picker_msg list \<Rightarrow> pickerScanEvent list" where
  "scanMsgs msgs = concat (map (\<lambda>msg. case msg of ScanEvent e \<Rightarrow> [e] | _ \<Rightarrow> []) msgs)"

lemma scanMsgs_simps [simp]:
  "scanMsgs [] = []" "scanMsgs (ms @ ns) = scanMsgs ms @ scanMsgs ns" "scanMsgs (m # ms) = (case m of ScanEvent e \<Rightarrow> [e] | _ \<Rightarrow> []) @ scanMsgs ms"
  by (simp_all add: scanMsgs_def)

definition offered :: "scan_producer \<Rightarrow> pickerScanEvent list" where
  "offered p = (case p of Offering e \<Rightarrow> [e] | _ \<Rightarrow> [])"

text \<open>The identifiers an event brings.\<close>

definition eventIDs :: "pickerScanEvent \<Rightarrow> string set" where
  "eventIDs e = (case ev_device e of Some d \<Rightarrow> {dev_ID d} | None \<Rightarrow> {}) \<union> (if ev_done e then dev_ID ` set (ev_devices e) else {})"

definition over :: "pickerScanEvent list \<Rightarrow> bool" where
  "over es \<longleftrightarrow> list_ex ev_done es"

text \<open>What \<open>Update\<close> has still to get, in order.\<close>

definition pending :: "pickerProgram \<Rightarrow> pickerScanEvent list" where
  "pending s = scanMsgs (pp_msgs s) @ pp_events s @ offered (pp_producer s)"

definition order_ok :: "pickerProgram \<Rightarrow> bool" where
  "order_ok s \<longleftrightarrow> subseq (pp_handled s @ pending s) (pp_reported s) \<and> (\<not> scanCtxDone s \<longrightarrow> pp_handled s @ pending s = pp_reported s)
     \<and> list_all (\<lambda>e. \<not> ev_done e) (butlast (pp_reported s)) \<and> (pp_producer s = Scanning \<longrightarrow> \<not> over (pp_reported s))
     \<and> (\<forall>e. pp_producer s = Offering e \<longrightarrow> pp_reported s \<noteq> [] \<and> last (pp_reported s) = e)
     \<and> list_all (\<lambda>e. ev_device e \<noteq> None \<or> ev_done e) (pp_reported s)"

definition queue_ok :: "pickerProgram \<Rightarrow> bool" where
  "queue_ok s \<longleftrightarrow> length (pp_events s) \<le> scanEventsCap
     \<and> count_list (pp_cmds s) CmdNextScanEvent + length (scanMsgs (pp_msgs s)) = (if over (pp_handled s) then 0 else 1)"

definition view_ok :: "pickerProgram \<Rightarrow> bool" where
  "view_ok s \<longleftrightarrow> picker_ok (pp_model s) \<and> set (pk_orderedIDs (pp_model s)) = \<Union> (eventIDs ` set (pp_handled s))
     \<and> (pk_scanning (pp_model s) \<longleftrightarrow> \<not> over (pp_handled s))"

definition program_ok :: "pickerProgram \<Rightarrow> bool" where
  "program_ok s \<longleftrightarrow> order_ok s \<and> queue_ok s \<and> view_ok s"

lemma over_simps [simp]: "\<not> over []" "over (es @ fs) \<longleftrightarrow> over es \<or> over fs" "over (e # es) \<longleftrightarrow> ev_done e \<or> over es"
  by (simp_all add: over_def)

lemma program_ok_init: "program_ok pickerInit"
  by (simp add: program_ok_def order_ok_def queue_ok_def view_ok_def pickerInit_def pending_def offered_def over_def newPickerModel_def picker_ok_def
      pickerSpinnerFrames_def)

text \<open>The final event is the last one.\<close>

lemma over_last:
  "list_all (\<lambda>e. \<not> ev_done e) (butlast es) \<Longrightarrow> subseq (xs @ ys) es \<Longrightarrow> over xs \<Longrightarrow> ys = []"
proof (induction es arbitrary: xs)
  case (Cons e es)
  obtain x xs' where xs: "xs = x # xs'" using Cons.prems(3) by (cases xs) auto
  show ?case
  proof (cases "es = []")
    case True
    then show ?thesis using Cons.prems(2) xs by (auto split: if_splits dest!: list_emb_Nil2)
  next
    case False
    then have e: "\<not> ev_done e" "list_all (\<lambda>e. \<not> ev_done e) (butlast es)" using Cons.prems(1) by simp_all
    show ?thesis using Cons.prems(2,3) Cons.IH [OF e(2), of xs'] Cons.IH [OF e(2), of xs] e(1) xs by (auto split: if_splits)
  qed
qed (auto dest!: list_emb_Nil2)

lemma over_iff_last: "list_all (\<lambda>e. \<not> ev_done e) (butlast es) \<Longrightarrow> es \<noteq> [] \<Longrightarrow> over es \<longleftrightarrow> ev_done (last es)"
  by (cases es rule: rev_cases) (auto simp: over_def list_all_iff list_ex_iff)

lemma ensure_same:
  "pk_orderedIDs (fst (ensureSelectedServices m)) = pk_orderedIDs m" "pk_scanning (fst (ensureSelectedServices m)) = pk_scanning m"
  "pk_scanCancelled (fst (ensureSelectedServices m)) = pk_scanCancelled m" "count_list (snd (ensureSelectedServices m)) CmdNextScanEvent = 0"
  by (simp_all add: ensureSelectedServices_def cancelServiceProbe_def Let_def)

lemma move_same:
  "pk_orderedIDs (fst (moveSelection d m)) = pk_orderedIDs m" "pk_scanning (fst (moveSelection d m)) = pk_scanning m"
  "pk_scanCancelled (fst (moveSelection d m)) = pk_scanCancelled m" "count_list (snd (moveSelection d m)) CmdNextScanEvent = 0"
  by (simp_all add: moveSelection_def ensure_same)

text \<open>A message that is no event of the scan leaves the list of servers alone.\<close>

lemma Update_other:
  assumes "\<nexists>e. msg = ScanEvent e"
  shows "pk_orderedIDs (fst (Update msg m)) = pk_orderedIDs m \<and> pk_scanning (fst (Update msg m)) = pk_scanning m
     \<and> (pk_scanCancelled m \<longrightarrow> pk_scanCancelled (fst (Update msg m))) \<and> count_list (snd (Update msg m)) CmdNextScanEvent = 0"
proof (cases msg)
  case (KeyMsg key)
  then show ?thesis by (simp add: Update_def updateKey_def move_same Let_def cancelServiceProbe_def)
next
  case (MouseMsg motion y)
  then show ?thesis by (simp add: Update_def updateMouse_def ensure_same split: option.split)
next
  case (ServicesEvent deviceID request services err)
  then show ?thesis by (simp add: Update_def updateServices_def cancelServiceProbe_def Let_def split: option.split)
qed (use assms in \<open>auto simp: Update_def\<close>)

lemma add_same: "pk_scanning (addDevice d m) = pk_scanning m" "pk_scanCancelled (addDevice d m) = pk_scanCancelled m"
  by (simp_all add: addDevice_def)

lemma add_ids: "picker_ok m \<Longrightarrow> set (pk_orderedIDs (addDevice d m)) = insert (dev_ID d) (set (pk_orderedIDs m))"
  by (auto simp: addDevice_def picker_ok_def)

lemma adds_same: "pk_scanning (fold addDevice ds m) = pk_scanning m" "pk_scanCancelled (fold addDevice ds m) = pk_scanCancelled m"
  by (induction ds arbitrary: m) (simp_all add: add_same)

lemma adds_ids: "picker_ok m \<Longrightarrow> set (pk_orderedIDs (fold addDevice ds m)) = dev_ID ` set ds \<union> set (pk_orderedIDs m)"
  by (induction ds arbitrary: m) (auto simp: add_ids addDevice_ok)

lemma Update_scan:
  assumes "picker_ok m"
  shows "set (pk_orderedIDs (fst (Update (ScanEvent e) m))) = eventIDs e \<union> set (pk_orderedIDs m)
     \<and> (pk_scanning (fst (Update (ScanEvent e) m)) \<longleftrightarrow> \<not> ev_done e \<and> pk_scanning m)
     \<and> pk_scanCancelled (fst (Update (ScanEvent e) m)) = pk_scanCancelled m
     \<and> count_list (snd (Update (ScanEvent e) m)) CmdNextScanEvent = (if ev_done e then 0 else 1)"
proof -
  define m1 where "m1 = (case ev_device e of Some d \<Rightarrow> addDevice d m | None \<Rightarrow> m)"
  have m1: "picker_ok m1" "set (pk_orderedIDs m1) = (case ev_device e of Some d \<Rightarrow> {dev_ID d} | None \<Rightarrow> {}) \<union> set (pk_orderedIDs m)"
    "pk_scanning m1 = pk_scanning m" "pk_scanCancelled m1 = pk_scanCancelled m"
    using assms by (simp_all add: m1_def add_ids addDevice_ok add_same split: option.split)
  show ?thesis
  proof (cases "ev_done e")
    case True
    have "picker_ok (m1\<lparr>pk_scanning := False, pk_scanErr := ev_err e\<rparr>)" using m1(1) by (rule picker_ok_cong) simp_all
    then show ?thesis using True m1 adds_ids
      by (auto simp: Update_def updateScan_def m1_def [symmetric] Let_def ensure_same adds_same eventIDs_def)
  next
    case False
    then show ?thesis using m1
      by (auto simp: Update_def updateScan_def m1_def [symmetric] Let_def ensure_same eventIDs_def case_prod_unfold)
  qed
qed

section \<open>Every step keeps the invariant\<close>

lemma pending_simps [simp]:
  "pending (s\<lparr>pp_model := m\<rparr>) = pending s" "pending (s\<lparr>pp_cmds := cs\<rparr>) = pending s" "pending (s\<lparr>pp_ctxErr := e\<rparr>) = pending s"
  "pending (s\<lparr>pp_quit := q\<rparr>) = pending s" "pending (s\<lparr>pp_waitsContext := q\<rparr>) = pending s" "pending (s\<lparr>pp_reported := r\<rparr>) = pending s"
  "pending (s\<lparr>pp_handled := r\<rparr>) = pending s"
  by (simp_all add: pending_def)

lemma scanCtx_simps [simp]:
  "scanCtxDone (s\<lparr>pp_cmds := cs\<rparr>) = scanCtxDone s" "scanCtxDone (s\<lparr>pp_msgs := ms\<rparr>) = scanCtxDone s" "scanCtxDone (s\<lparr>pp_events := es\<rparr>) = scanCtxDone s"
  "scanCtxDone (s\<lparr>pp_producer := p\<rparr>) = scanCtxDone s" "scanCtxDone (s\<lparr>pp_waitsContext := q\<rparr>) = scanCtxDone s" "scanCtxDone (s\<lparr>pp_reported := r\<rparr>) = scanCtxDone s"
  "scanCtxDone (s\<lparr>pp_handled := r\<rparr>) = scanCtxDone s" "scanCtxDone (s\<lparr>pp_quit := b\<rparr>) = scanCtxDone s"
  by (simp_all add: scanCtxDone_def)

lemma ok_offerEvent:
  assumes ok: "program_ok s" and run: "offerEvent e s = Some s'" and e: "ev_device e \<noteq> None \<or> ev_done e"
  shows "program_ok s'"
proof -
  have s': "pp_producer s = Scanning" "s' = s\<lparr>pp_producer := Offering e, pp_reported := pp_reported s @ [e]\<rparr>"
    using run by (auto simp: offerEvent_def split: if_splits)
  then have "\<not> over (pp_reported s)" using ok by (simp add: program_ok_def order_ok_def)
  then have nd: "list_all (\<lambda>e. \<not> ev_done e) (pp_reported s)" by (auto simp: over_def list_all_iff list_ex_iff)
  have p: "pending s' = pending s @ [e]" using s' by (simp add: pending_def offered_def)
  have "subseq (pp_handled s @ pending s @ [e]) (pp_reported s @ [e])"
    using ok list_emb_append_mono [of "(=)" "pp_handled s @ pending s" "pp_reported s" "[e]" "[e]"] by (simp add: program_ok_def order_ok_def)
  then have "order_ok s'" using ok nd e p s' by (auto simp: program_ok_def order_ok_def)
  then show ?thesis using ok s'(2) by (simp add: program_ok_def queue_ok_def view_ok_def)
qed

text \<open>The producer goes on: its event has been taken by the channel or given up.\<close>

lemma order_producer:
  assumes ok: "order_ok s" and p: "pp_producer s = Offering e" and s': "pp_producer s' = producerAfter e" "pp_reported s' = pp_reported s"
    "pp_handled s' = pp_handled s" "scanCtxDone s' = scanCtxDone s" "subseq (pending s') (pending s)" "\<not> scanCtxDone s \<Longrightarrow> pending s' = pending s"
  shows "order_ok s'"
proof -
  have "list_all (\<lambda>e. \<not> ev_done e) (butlast (pp_reported s))" "pp_reported s \<noteq> []" "last (pp_reported s) = e"
    using ok p by (auto simp: order_ok_def)
  then have "\<not> ev_done e \<Longrightarrow> \<not> over (pp_reported s)" using over_iff_last by blast
  moreover have "subseq (pp_handled s @ pending s') (pp_reported s)"
    using ok s'(5) subseq_order.trans [OF _ conjunct1 [OF ok [unfolded order_ok_def]]] by (simp add: subseq_append')
  ultimately show ?thesis using ok s' by (auto simp: order_ok_def producerAfter_def)
qed

lemma ok_Offers:
  assumes ok: "program_ok s" and run: "pickerDo Offers s = Some s'"
  shows "program_ok s'"
proof -
  obtain e where s': "pp_producer s = Offering e" "length (pp_events s) < scanEventsCap" "s' = s\<lparr>pp_events := pp_events s @ [e], pp_producer := producerAfter e\<rparr>"
    using run by (auto split: scan_producer.splits if_splits)
  have "pending s' = pending s" using s' by (simp add: pending_def offered_def producerAfter_def)
  then have "order_ok s'" using ok s'(1,3) by (intro order_producer [of s e s']) (simp_all add: program_ok_def)
  then show ?thesis using ok s'(2,3) by (simp add: program_ok_def queue_ok_def view_ok_def)
qed

lemma ok_GivesUp:
  assumes ok: "program_ok s" and run: "pickerDo GivesUp s = Some s'"
  shows "program_ok s'"
proof -
  obtain e where s': "pp_producer s = Offering e" "scanCtxDone s" "s' = s\<lparr>pp_producer := producerAfter e\<rparr>"
    using run by (auto split: scan_producer.splits if_splits)
  have "subseq (pending s') (pending s)" using s' by (simp add: pending_def offered_def producerAfter_def subseq_append' subseq_rev_drop_many)
  then have "order_ok s'" using ok s' by (intro order_producer [of s e s']) (simp_all add: program_ok_def)
  then show ?thesis using ok s'(3) by (simp add: program_ok_def queue_ok_def view_ok_def)
qed

text \<open>Steps that leave the scan alone.\<close>

lemma ok_other:
  assumes ok: "program_ok s" and same: "pp_events s' = pp_events s" "pp_producer s' = pp_producer s" "pp_reported s' = pp_reported s" "pp_handled s' = pp_handled s"
    "scanMsgs (pp_msgs s') = scanMsgs (pp_msgs s)" "count_list (pp_cmds s') CmdNextScanEvent = count_list (pp_cmds s) CmdNextScanEvent"
    and ctx: "scanCtxDone s \<Longrightarrow> scanCtxDone s'"
    and m: "picker_ok (pp_model s')" "pk_orderedIDs (pp_model s') = pk_orderedIDs (pp_model s)" "pk_scanning (pp_model s') = pk_scanning (pp_model s)"
  shows "program_ok s'"
proof -
  have "pending s' = pending s" using same by (simp add: pending_def)
  then show ?thesis using ok same ctx m unfolding program_ok_def order_ok_def queue_ok_def view_ok_def by auto
qed

lemma count_remove1: "x \<noteq> y \<Longrightarrow> count_list (remove1 x xs) y = count_list xs y"
  by (induction xs) auto

lemma count_remove1_same: "x \<in> set xs \<Longrightarrow> Suc (count_list (remove1 x xs) x) = count_list xs x"
  by (induction xs) auto

lemma ok_commandEnds:
  assumes "program_ok s" and "commandEnds cmd msg s = Some s'" and "cmd \<noteq> CmdNextScanEvent" and "\<nexists>e. msg = ScanEvent e"
  shows "program_ok s'"
proof -
  have s': "s' = s\<lparr>pp_cmds := remove1 cmd (pp_cmds s), pp_msgs := pp_msgs s @ [msg]\<rparr>" using assms(2) by (auto simp: commandEnds_def split: if_splits)
  have "(case msg of ScanEvent e \<Rightarrow> [e] | _ \<Rightarrow> []) = []" using assms(4) by (cases msg) auto
  then show ?thesis using assms(1,3) s' by (intro ok_other [OF assms(1)]) (simp_all add: count_remove1 program_ok_def view_ok_def)
qed

lemma one_token: "0 < n \<Longrightarrow> n + m = (if b then 0 else 1) \<Longrightarrow> n = 1 \<and> m = (0 :: nat) \<and> \<not> b"
proof (cases b)
  case False
  assume "0 < n" "n + m = (if b then 0 else 1)"
  then have "0 < n" "n + m = 1" using False by simp_all
  then show ?thesis using False by presburger
qed simp

lemma ok_Receives:
  assumes ok: "program_ok s" and run: "pickerDo Receives s = Some s'"
  shows "program_ok s'"
proof -
  obtain e rest where e: "pp_events s = e # rest" "CmdNextScanEvent \<in> set (pp_cmds s)"
    "s' = s\<lparr>pp_events := rest, pp_cmds := remove1 CmdNextScanEvent (pp_cmds s), pp_msgs := pp_msgs s @ [ScanEvent e]\<rparr>"
    using run by (auto simp: commandEnds_def split: list.splits if_splits)
  have c: "0 < count_list (pp_cmds s) CmdNextScanEvent" using e(2) count_remove1_same [OF e(2)] by simp
  moreover have "count_list (pp_cmds s) CmdNextScanEvent + length (scanMsgs (pp_msgs s)) = (if over (pp_handled s) then 0 else 1)"
    using ok by (simp add: program_ok_def queue_ok_def)
  ultimately have "count_list (pp_cmds s) CmdNextScanEvent = 1 \<and> length (scanMsgs (pp_msgs s)) = 0 \<and> \<not> over (pp_handled s)" by (rule one_token)
  then have q: "scanMsgs (pp_msgs s) = []" "\<not> over (pp_handled s)" "count_list (pp_cmds s) CmdNextScanEvent = 1" by simp_all
  have "pending s' = pending s" using e q(1) by (simp add: pending_def)
  then have "order_ok s'" using ok e(3) by (simp add: program_ok_def order_ok_def)
  moreover have "queue_ok s'" using ok e(1,3) q count_remove1_same [OF e(2)] by (simp add: program_ok_def queue_ok_def)
  ultimately show ?thesis using ok e(3) by (simp add: program_ok_def view_ok_def)
qed

lemma pending_reported: "order_ok s \<Longrightarrow> e \<in> set (pending s) \<Longrightarrow> ev_device e \<noteq> None \<or> ev_done e"
proof -
  assume ok: "order_ok s" and e: "e \<in> set (pending s)"
  have "subseq (pp_handled s @ pending s) (pp_reported s)" using ok by (simp add: order_ok_def)
  then obtain e' where "e' \<in> set (pp_reported s)" "e = e'" by (rule list_emb_set [where x = e]) (use e in auto)
  then show ?thesis using ok by (auto simp: order_ok_def list_all_iff)
qed

lemma handleMsg_runs:
  assumes "handleMsg i s = Some s'"
  defines "msg \<equiv> pp_msgs s ! i"
  obtains before after where "pp_msgs s = before @ msg # after" "\<not> pp_quit s"
    "s' = s\<lparr>pp_model := fst (Update msg (pp_model s)), pp_cmds := pp_cmds s @ snd (Update msg (pp_model s)), pp_msgs := before @ after,
       pp_handled := pp_handled s @ (case msg of ScanEvent e \<Rightarrow> [e] | _ \<Rightarrow> [])\<rparr>"
  using assms by (intro that [of "take i (pp_msgs s)" "drop (Suc i) (pp_msgs s)"])
    (auto simp: handleMsg_def id_take_nth_drop [symmetric] split: if_splits prod.splits)

lemma ok_Handles:
  assumes ok: "program_ok s" and run: "handleMsg i s = Some s'"
  shows "program_ok s'"
proof (rule handleMsg_runs [OF run])
  fix before after
  let ?msg = "pp_msgs s ! i"
  let ?up = "Update ?msg (pp_model s)"
  assume msgs: "pp_msgs s = before @ ?msg # after" and "\<not> pp_quit s"
    and s': "s' = s\<lparr>pp_model := fst ?up, pp_cmds := pp_cmds s @ snd ?up, pp_msgs := before @ after,
       pp_handled := pp_handled s @ (case ?msg of ScanEvent e \<Rightarrow> [e] | _ \<Rightarrow> [])\<rparr>"
  have m: "picker_ok (pp_model s)" using ok by (simp add: program_ok_def view_ok_def)
  have split: "scanMsgs (pp_msgs s) = scanMsgs before @ (case ?msg of ScanEvent e \<Rightarrow> [e] | _ \<Rightarrow> []) @ scanMsgs after" by (subst msgs) simp
  show ?thesis
  proof (cases "\<exists>e. ?msg = ScanEvent e")
    case False
    then have none: "(case ?msg of ScanEvent e \<Rightarrow> [e] | _ \<Rightarrow> []) = []" by (cases ?msg) auto
    have "msg_ok ?msg" using False by (cases ?msg) (auto simp: msg_ok_def)
    then have "picker_ok (fst ?up)" using Update_ok [OF m] by blast
    then show ?thesis using ok s' split none Update_other [OF False, of "pp_model s"]
      by (intro ok_other [OF ok]) (auto simp: scanCtxDone_def)
  next
    case True
    then obtain e where e: "?msg = ScanEvent e" by blast
    have tok: "count_list (pp_cmds s) CmdNextScanEvent + length (scanMsgs (pp_msgs s)) = (if over (pp_handled s) then 0 else 1)"
      using ok by (simp add: program_ok_def queue_ok_def)
    have len: "length (scanMsgs (pp_msgs s)) = length (scanMsgs before) + Suc (length (scanMsgs after))" using split e by simp
    have "length (scanMsgs before) = 0" "length (scanMsgs after) = 0" "count_list (pp_cmds s) CmdNextScanEvent = 0" "\<not> over (pp_handled s)"
      using tok unfolding len by (simp_all split: if_splits)
    then have q: "scanMsgs before = []" "scanMsgs after = []" "count_list (pp_cmds s) CmdNextScanEvent = 0" "\<not> over (pp_handled s)" by simp_all
    have "pending s = e # pp_events s @ offered (pp_producer s)" using split e q by (simp add: pending_def)
    moreover have "pending s' = pp_events s @ offered (pp_producer s)" using s' q by (simp add: pending_def)
    ultimately have p: "pp_handled s' @ pending s' = pp_handled s @ pending s" "e \<in> set (pending s)" using s' e by simp_all
    have eok: "ev_device e \<noteq> None \<or> ev_done e" using pending_reported p(2) ok by (auto simp: program_ok_def)
    note up = Update_scan [OF m, of e]
    have ctx: "scanCtxDone s' = scanCtxDone s" using s' up e by (simp add: scanCtxDone_def)
    have "order_ok s'" using ok p(1) ctx s' by (simp add: program_ok_def order_ok_def)
    moreover have "queue_ok s'" using ok s' e q up by (auto simp: program_ok_def queue_ok_def)
    moreover have "picker_ok (fst ?up)" using Update_ok [OF m, of ?msg] e eok by (simp add: msg_ok_def)
    then have "view_ok s'" using ok s' e up by (auto simp: program_ok_def view_ok_def)
    ultimately show ?thesis by (simp add: program_ok_def)
  qed
qed

lemma pickerDo_ok:
  assumes ok: "program_ok s" and run: "pickerDo event s = Some s'"
  shows "program_ok s'"
proof -
  have m: "picker_ok (pp_model s)" using ok by (simp add: program_ok_def view_ok_def)
  show ?thesis
  proof (cases event)
    case (Reports d)
    then show ?thesis using run ok by (auto intro: ok_offerEvent simp: deviceEvent_def)
  next
    case (Finishes ds err)
    then show ?thesis using run ok by (auto intro: ok_offerEvent simp: finalEvent_def)
  next
    case Offers
    then show ?thesis using ok_Offers ok run by blast
  next
    case GivesUp
    then show ?thesis using ok_GivesUp ok run by blast
  next
    case Receives
    then show ?thesis using ok_Receives ok run by blast
  next
    case Ticks
    then show ?thesis using run ok_commandEnds [OF ok] by simp
  next
    case (Probed deviceID request device services err)
    then show ?thesis using run ok_commandEnds [OF ok] by simp
  next
    case (ContextEnds e)
    then have "s' = s\<lparr>pp_ctxErr := Some e\<rparr>" using run by (auto split: if_splits)
    then show ?thesis using m by (intro ok_other [OF ok]) (simp_all add: scanCtxDone_def)
  next
    case ContextNoticed
    then obtain e where "s' = s\<lparr>pp_waitsContext := False, pp_msgs := pp_msgs s @ [ContextMsg e]\<rparr>" using run by (auto split: option.splits if_splits)
    then show ?thesis using m by (intro ok_other [OF ok]) simp_all
  next
    case (UserDoes msg)
    then have "s' = s\<lparr>pp_msgs := pp_msgs s @ [msg]\<rparr>" "(case msg of ScanEvent e \<Rightarrow> [e] | _ \<Rightarrow> []) = []"
      using run by (auto simp: userMsg_def split: if_splits picker_msg.splits)
    then show ?thesis using m by (intro ok_other [OF ok]) simp_all
  next
    case (Handles i)
    then show ?thesis using ok_Handles ok run by simp
  next
    case Quits
    then have "s' = s\<lparr>pp_quit := True\<rparr>" using run by (auto split: if_splits)
    then show ?thesis using m by (intro ok_other [OF ok]) simp_all
  next
    case Stops
    then have s': "s' = s\<lparr>pp_model := pickerStop (pp_model s)\<rparr>" using run by (auto split: if_splits)
    have "picker_ok (pickerStop (pp_model s))" using m by (auto elim!: picker_ok_cong simp: pickerStop_def cancelServiceProbe_def)
    then show ?thesis using s' by (intro ok_other [OF ok]) (simp_all add: scanCtxDone_def pickerStop_def cancelServiceProbe_def)
  qed
qed

lemma pickerRuns_ok: "program_ok s \<Longrightarrow> pickerRuns events s = Some s' \<Longrightarrow> program_ok s'"
  by (induction events arbitrary: s) (auto intro: pickerDo_ok split: option.splits)

section \<open>Properties\<close>

lemma handled_over: "order_ok s \<Longrightarrow> over (pp_handled s) \<Longrightarrow> pending s = []"
  unfolding order_ok_def using over_last by blast

lemma scan_msg: "(case msg of ScanEvent e \<Rightarrow> [e] | _ \<Rightarrow> []) \<noteq> [] \<Longrightarrow> \<exists>e. msg = ScanEvent e"
  by (cases msg) auto

lemma scanMsg_index:
  assumes "scanMsgs msgs \<noteq> []"
  shows "\<exists>i < length msgs. \<exists>e. msgs ! i = ScanEvent e"
proof -
  obtain msg where "msg \<in> set msgs" "(case msg of ScanEvent e \<Rightarrow> [e] | _ \<Rightarrow> []) \<noteq> []" using assms by (auto simp: scanMsgs_def)
  then show ?thesis using scan_msg [of msg] by (auto simp: in_set_conv_nth)
qed

text \<open>The scan does not wait for ever: its channel has room, or somebody is about to take an event from it.\<close>

lemma producer_goes_on:
  assumes ok: "program_ok s" and p: "pp_producer s = Offering e" and go: "\<not> pp_quit s \<or> pk_scanCancelled (pp_model s)"
  shows "\<exists>event \<in> {Offers, GivesUp, Receives} \<union> range Handles. pickerDo event s \<noteq> None"
proof (cases "scanCtxDone s")
  case True
  then show ?thesis using p by auto
next
  case False
  then have q: "\<not> pp_quit s" using go by (auto simp: scanCtxDone_def)
  show ?thesis
  proof (cases "length (pp_events s) < scanEventsCap")
    case True
    then show ?thesis using p by (intro bexI [of _ Offers]) simp_all
  next
    case full: False
    then obtain x xs where ev: "pp_events s = x # xs" by (cases "pp_events s") (auto simp: scanEventsCap_def)
    have "pending s \<noteq> []" using p by (simp add: pending_def offered_def)
    then have "\<not> over (pp_handled s)" using handled_over ok by (auto simp: program_ok_def)
    then have tok: "count_list (pp_cmds s) CmdNextScanEvent + length (scanMsgs (pp_msgs s)) = 1" using ok by (simp add: program_ok_def queue_ok_def)
    show ?thesis
    proof (cases "scanMsgs (pp_msgs s) = []")
      case True
      then have "CmdNextScanEvent \<in> set (pp_cmds s)" using tok by (metis add.right_neutral count_notin list.size(3) zero_neq_one)
      then show ?thesis using ev by (intro bexI [of _ Receives]) (simp_all add: commandEnds_def)
    next
      case False
      then obtain i where "i < length (pp_msgs s)" using scanMsg_index by blast
      then show ?thesis using q by (intro bexI [of _ "Handles i"]) (auto simp: handleMsg_def split: prod.split)
    qed
  qed
qed

text \<open>
  C37: the picker shows every server the scan reports. In every run of the picker's program, whatever order its commands, messages, keys and the end of the context come in: the channel
  never holds more than its capacity; the servers shown are exactly those of the scan events that have been handled; while the scan is not cancelled these are the first events
  reported, in order, none lost or handled twice, and all of them once the picker says that the scan is complete; and the scanning goroutine never blocks for ever, neither
  while the program runs nor after it was stopped.
\<close>

theorem picker_shows_scan:
  assumes "pickerRuns events pickerInit = Some s"
  shows "length (pp_events s) \<le> scanEventsCap \<and> set (pk_orderedIDs (pp_model s)) = \<Union> (eventIDs ` set (pp_handled s))
     \<and> (\<not> scanCtxDone s \<longrightarrow> (\<exists>rest. pp_reported s = pp_handled s @ rest \<and> (\<not> pk_scanning (pp_model s) \<longrightarrow> rest = [])))
     \<and> subseq (pp_handled s) (pp_reported s)
     \<and> (\<forall>e. pp_producer s = Offering e \<and> (\<not> pp_quit s \<or> pk_scanCancelled (pp_model s)) \<longrightarrow>
           (\<exists>event \<in> {Offers, GivesUp, Receives} \<union> range Handles. pickerDo event s \<noteq> None))"
proof -
  have ok: "program_ok s" by (rule pickerRuns_ok [OF program_ok_init assms])
  then have o: "order_ok s" and v: "view_ok s" by (simp_all add: program_ok_def)
  have "pp_reported s = pp_handled s @ pending s" if "\<not> scanCtxDone s" using o that by (simp add: order_ok_def)
  moreover have "pending s = []" if "\<not> pk_scanning (pp_model s)" using v that handled_over [OF o] by (simp add: view_ok_def)
  moreover have "subseq (pp_handled s) (pp_reported s)"
    using o list_emb_append2 [of "(=)"] unfolding order_ok_def by (meson subseq_order.trans subseq_rev_drop_many subseq_order.order_refl)
  moreover have "length (pp_events s) \<le> scanEventsCap" using ok by (simp add: program_ok_def queue_ok_def)
  moreover have "set (pk_orderedIDs (pp_model s)) = \<Union> (eventIDs ` set (pp_handled s))" using v by (simp add: view_ok_def)
  ultimately show ?thesis using producer_goes_on [OF ok] by blast
qed

text \<open>Two servers are found, one of them again when the scan ends.\<close>

theorem picker_shows_scan_witness:
  "\<exists>s. pickerRuns [Reports (zeroDevice\<lparr>dev_ID := ''a''\<rparr>), Offers, Finishes [zeroDevice\<lparr>dev_ID := ''b''\<rparr>, zeroDevice\<lparr>dev_ID := ''a''\<rparr>] None, Receives, Handles 0,
        Offers, Receives, Handles 0] pickerInit = Some s
     \<and> \<not> pk_scanning (pp_model s) \<and> set (pk_orderedIDs (pp_model s)) = {''a'', ''b''} \<and> pp_handled s = pp_reported s"
  (is "\<exists>s. pickerRuns ?events pickerInit = Some s \<and> _")
proof -
  obtain s where s: "pickerRuns ?events pickerInit = Some s" "\<not> pk_scanning (pp_model s)" "\<not> scanCtxDone s"
    "pp_reported s = [deviceEvent (zeroDevice\<lparr>dev_ID := ''a''\<rparr>), finalEvent [zeroDevice\<lparr>dev_ID := ''b''\<rparr>, zeroDevice\<lparr>dev_ID := ''a''\<rparr>] None]"
    by (simp add: pickerInit_def offerEvent_def deviceEvent_def finalEvent_def commandEnds_def handleMsg_def scanEventsCap_def producerAfter_def Update_def
        updateScan_def addDevice_def newPickerModel_def ensureSelectedServices_def cancelServiceProbe_def lookupDevice_def zeroDevice_def scanCtxDone_def Let_def)
  from picker_shows_scan [OF s(1)] s(2,3) have h: "pp_handled s = pp_reported s" "set (pk_orderedIDs (pp_model s)) = \<Union> (eventIDs ` set (pp_handled s))" by auto
  have "\<Union> (eventIDs ` set (pp_reported s)) = {''a'', ''b''}" by (auto simp: s(4) eventIDs_def deviceEvent_def finalEvent_def zeroDevice_def)
  then have "set (pk_orderedIDs (pp_model s)) = {''a'', ''b''}" using h by simp
  then show ?thesis using s(1,2) h(1) by blast
qed

end
