(* ===== verification/Service_Recovery.thy ===== *)
theory Service_Recovery
  imports Base
begin

text \<open>
  Restarting the Windows Bluetooth services (\<open>internal/app/ble_service_recovery_windows.go\<close>): the command given to PowerShell and its encoding, and the
  elevated process that is started and waited for. What the Windows API returns is an argument; its calls are a list of actions.
\<close>

section \<open>Encoding the command\<close>

text \<open>\<open>utf16.Encode\<close> of code points: a surrogate pair above \<open>0xFFFF\<close>, the replacement character for what is no code point.\<close>

fun utf16_Encode :: "nat list \<Rightarrow> u16 list" where
  "utf16_Encode [] = []"
| "utf16_Encode (r # rs) =
     (if r < 0xD800 \<or> 0xE000 \<le> r \<and> r < 0x10000 then [of_nat r]
      else if 0x10000 \<le> r \<and> r \<le> 0x10FFFF then [of_nat (0xD800 + (r - 0x10000) div 0x400), of_nat (0xDC00 + (r - 0x10000) mod 0x400)]
      else [0xFFFD]) @ utf16_Encode rs"

definition put_uint16_le :: "u16 \<Rightarrow> bytes" where
  "put_uint16_le w = [ucast w, ucast (drop_bit 8 w)]"

text \<open>\<open>base64.StdEncoding.EncodeToString\<close>.\<close>

definition base64_alphabet :: string where
  "base64_alphabet = ''ABCDEFGHIJKLMNOPQRSTUVWXYZabcdefghijklmnopqrstuvwxyz0123456789+/''"

definition digit64 :: "nat \<Rightarrow> char" where
  "digit64 n = base64_alphabet ! (n mod 64)"

fun base64_Encode :: "bytes \<Rightarrow> string" where
  "base64_Encode [] = ''''"
| "base64_Encode [a] = (let n = unat a * 65536 in [digit64 (n div 262144), digit64 (n div 4096), CHR ''='', CHR ''=''])"
| "base64_Encode [a, b] = (let n = unat a * 65536 + unat b * 256 in [digit64 (n div 262144), digit64 (n div 4096), digit64 (n div 64), CHR ''=''])"
| "base64_Encode (a # b # c # rest) =
     (let n = unat a * 65536 + unat b * 256 + unat c in [digit64 (n div 262144), digit64 (n div 4096), digit64 (n div 64), digit64 n] @ base64_Encode rest)"

definition encodePowerShellCommand :: "nat list \<Rightarrow> string" where
  "encodePowerShellCommand command = base64_Encode (concat (map put_uint16_le (utf16_Encode command)))"

definition recoveryCommand :: string where
  "recoveryCommand =
     ''$ErrorActionPreference='' @ [CHR 0x27] @ ''Stop'' @ [CHR 0x27] @ ''; ''
     @ ''$rtk=Get-Service -Name '' @ [CHR 0x27] @ ''RtkBtManServ'' @ [CHR 0x27] @ '' -ErrorAction SilentlyContinue; ''
     @ ''if ($null -ne $rtk) { if ($rtk.Status -eq '' @ [CHR 0x27] @ ''Stopped'' @ [CHR 0x27] @ '') { Start-Service -Name '' @ [CHR 0x27] @ ''RtkBtManServ'' @ [CHR 0x27]
     @ '' } else { Restart-Service -Name '' @ [CHR 0x27] @ ''RtkBtManServ'' @ [CHR 0x27] @ '' -Force } }; ''
     @ ''$bt=Get-Service -Name '' @ [CHR 0x27] @ ''bthserv'' @ [CHR 0x27] @ '' -ErrorAction Stop; ''
     @ ''if ($bt.Status -eq '' @ [CHR 0x27] @ ''Stopped'' @ [CHR 0x27] @ '') { Start-Service -Name '' @ [CHR 0x27] @ ''bthserv'' @ [CHR 0x27]
     @ '' } else { Restart-Service -Name '' @ [CHR 0x27] @ ''bthserv'' @ [CHR 0x27] @ '' -Force }; ''
     @ ''Start-Sleep -Seconds 5''"

section \<open>The elevated process\<close>

datatype win_action = ShellExecute string string | WaitProcess nat | SleepMs nat | CloseHandle nat

text \<open>\<open>windows.UTF16PtrFromString\<close> refuses a text with a NUL.\<close>

definition EINVAL :: go_error where
  "EINVAL = ErrorText ''invalid argument''"

definition UTF16PtrFromString :: "string \<Rightarrow> go_error option" where
  "UTF16PtrFromString s = (if CHR 0x00 \<in> set s then Some EINVAL else None)"

text \<open>
  One pass of the wait: the context's error, the result of \<open>WaitForSingleObject\<close> and of \<open>GetExitCodeProcess\<close>. \<open>hex\<close> is the verb \<open>%x\<close>.
\<close>

record wait_pass =
  wp_ctx :: "go_error option"
  wp_wait :: "go_error + u32"
  wp_exit :: "go_error + u32"

definition WAIT_OBJECT_0 :: u32 where "WAIT_OBJECT_0 = 0"
definition WAIT_TIMEOUT :: u32 where "WAIT_TIMEOUT = 258"

text \<open>\<open>None\<close> when the passes given run out before the process has ended.\<close>

fun waitElevated :: "(u32 \<Rightarrow> string) \<Rightarrow> nat \<Rightarrow> wait_pass list \<Rightarrow> go_error option option \<times> win_action list" where
  "waitElevated hex process [] = (None, [])"
| "waitElevated hex process (p # rest) =
     (case wp_ctx p of
        Some e \<Rightarrow> (Some (Some e), [])
      | None \<Rightarrow>
          (case wp_wait p of
             Inl e \<Rightarrow> (Some (Some (Wrapped ''wait for elevated recovery: '' e '''')), [WaitProcess process])
           | Inr status \<Rightarrow>
               if status = WAIT_OBJECT_0 then
                 (case wp_exit p of
                    Inl e \<Rightarrow> (Some (Some (Wrapped ''read elevated recovery result: '' e '''')), [WaitProcess process])
                  | Inr code \<Rightarrow>
                      (Some (if code \<noteq> 0 then Some (ErrorText (''elevated recovery exited with code '' @ itoa (uint code))) else None), [WaitProcess process]))
               else if status \<noteq> WAIT_TIMEOUT then
                 (Some (Some (ErrorText (''wait for elevated recovery returned status 0x'' @ hex status))), [WaitProcess process])
               else (case waitElevated hex process rest of (r, acts) \<Rightarrow> (r, WaitProcess process # SleepMs 25 # acts))))"

text \<open>The result of \<open>ShellExecuteExW\<close>: an error of the call or an unexplained failure, or a process handle, which may be 0.\<close>

datatype shell_result = ShellFailed "go_error option" | ShellStarted nat

definition runElevatedAndWait :: "(u32 \<Rightarrow> string) \<Rightarrow> string \<Rightarrow> string \<Rightarrow> shell_result \<Rightarrow> wait_pass list \<Rightarrow> go_error option option \<times> win_action list" where
  "runElevatedAndWait hex executable parameters shell passes =
     (case UTF16PtrFromString ''runas'' of Some e \<Rightarrow> (Some (Some e), []) | None \<Rightarrow>
      case UTF16PtrFromString executable of Some e \<Rightarrow> (Some (Some e), []) | None \<Rightarrow>
      case UTF16PtrFromString parameters of Some e \<Rightarrow> (Some (Some e), []) | None \<Rightarrow>
        (case shell of
           ShellFailed (Some e) \<Rightarrow> (Some (Some (Wrapped ''request administrator permission: '' e '''')), [ShellExecute executable parameters])
         | ShellFailed None \<Rightarrow> (Some (Some (ErrorText ''request administrator permission: ShellExecuteExW failed'')), [ShellExecute executable parameters])
         | ShellStarted process \<Rightarrow>
             if process = 0 then (Some (Some (ErrorText ''elevated recovery returned no process handle'')), [ShellExecute executable parameters])
             else
               (case waitElevated hex process passes of
                  (r, acts) \<Rightarrow> (r, ShellExecute executable parameters # acts @ (if r = None then [] else [CloseHandle process])))))"

text \<open>\<open>filepath.Join\<close> of a clean directory and a path below it.\<close>

definition powerShellPath :: "string \<Rightarrow> string" where
  "powerShellPath windowsDirectory = windowsDirectory @ [CHR 0x5C] @ ''System32'' @ [CHR 0x5C] @ ''WindowsPowerShell'' @ [CHR 0x5C] @ ''v1.0'' @ [CHR 0x5C] @ ''powershell.exe''"

definition recoverBluetoothServicesElevated :: "(u32 \<Rightarrow> string) \<Rightarrow> go_error + string \<Rightarrow> shell_result \<Rightarrow> wait_pass list \<Rightarrow> go_error option option \<times> win_action list" where
  "recoverBluetoothServicesElevated hex windowsDirectory shell passes =
     (case windowsDirectory of
        Inl e \<Rightarrow> (Some (Some (Wrapped ''locate Windows PowerShell: '' e '''')), [])
      | Inr directory \<Rightarrow>
          runElevatedAndWait hex (powerShellPath directory)
            (''-NoProfile -NonInteractive -EncodedCommand '' @ encodePowerShellCommand (map of_char recoveryCommand)) shell passes)"

text \<open>Elsewhere it is not available.\<close>

definition recoverBluetoothServicesOther :: "go_error option" where
  "recoverBluetoothServicesOther = Some (ErrorText ''Windows Bluetooth service recovery is unavailable on this platform'')"

section \<open>Decoding\<close>

text \<open>What PowerShell does with the parameter: base 64, UTF-16 with the low byte first.\<close>

definition value64 :: "char \<Rightarrow> nat option" where
  "value64 c = (let i = length (takeWhile (\<lambda>d. d \<noteq> c) base64_alphabet) in if i < 64 then Some i else None)"

fun base64_Decode :: "string \<Rightarrow> bytes option" where
  "base64_Decode [] = Some []"
| "base64_Decode (p # q # r # s # rest) =
     (case (value64 p, value64 q) of
        (Some a, Some b) \<Rightarrow>
          (case (value64 r, value64 s) of
             (Some c, Some d) \<Rightarrow>
               (case base64_Decode rest of None \<Rightarrow> None
                | Some bs \<Rightarrow> Some ([of_nat (a * 4 + b div 16), of_nat (b mod 16 * 16 + c div 4), of_nat (c mod 4 * 64 + d)] @ bs))
           | (Some c, None) \<Rightarrow> if s = CHR ''='' \<and> rest = [] then Some [of_nat (a * 4 + b div 16), of_nat (b mod 16 * 16 + c div 4)] else None
           | (None, _) \<Rightarrow> if r = CHR ''='' \<and> s = CHR ''='' \<and> rest = [] then Some [of_nat (a * 4 + b div 16)] else None)
      | _ \<Rightarrow> None)"
| "base64_Decode _ = None"

fun uint16s_le :: "bytes \<Rightarrow> u16 list option" where
  "uint16s_le [] = Some []"
| "uint16s_le [a] = None"
| "uint16s_le (a # b # rest) = map_option (\<lambda>ws. of_nat (unat a + 256 * unat b) # ws) (uint16s_le rest)"

fun utf16_Decode :: "u16 list \<Rightarrow> nat list" where
  "utf16_Decode [] = []"
| "utf16_Decode [w] = [if 0xD800 \<le> w \<and> w < 0xE000 then 0xFFFD else unat w]"
| "utf16_Decode (w # v # ws) =
     (if 0xD800 \<le> w \<and> w < 0xDC00 \<and> 0xDC00 \<le> v \<and> v < 0xE000 then (0x10000 + (unat w - 0xD800) * 0x400 + (unat v - 0xDC00)) # utf16_Decode ws
      else if 0xD800 \<le> w \<and> w < 0xE000 then 0xFFFD # utf16_Decode (v # ws)
      else unat w # utf16_Decode (v # ws))"

definition code_point :: "nat \<Rightarrow> bool" where
  "code_point r \<longleftrightarrow> r < 0xD800 \<or> 0xE000 \<le> r \<and> r \<le> 0x10FFFF"

lemma value64_digit64: "value64 (digit64 n) = Some (n mod 64)"
proof -
  let ?i = "n mod 64"
  have d: "distinct base64_alphabet" "length base64_alphabet = 64" by (simp_all add: base64_alphabet_def)
  then have "takeWhile (\<lambda>d. d \<noteq> base64_alphabet ! ?i) base64_alphabet = take ?i base64_alphabet"
    by (intro takeWhile_eq_take_P_nth) (auto simp: nth_eq_iff_index_eq)
  then show ?thesis using d(2) by (simp add: digit64_def value64_def min_def)
qed

lemma value64_pad: "value64 CHR ''='' = None"
  by code_simp

lemma div_mod_64: "r < 64 \<Longrightarrow> (64 * q + r) mod 64 = (r :: nat)"
  by simp

lemma sextets:
  fixes a b c :: nat
  assumes "a < 256" and "b < 256" and "c < 256"
  defines "n \<equiv> a * 65536 + b * 256 + c"
  shows "n div 262144 mod 64 * 4 + n div 4096 mod 64 div 16 = a" "n div 4096 mod 64 mod 16 * 16 + n div 64 mod 64 div 4 = b"
    "n div 64 mod 64 mod 4 * 64 + n mod 64 = c"
proof -
  define a1 a0 b1 b0 c1 c0 where "a1 = a div 4" "a0 = a mod 4" "b1 = b div 16" "b0 = b mod 16" "c1 = c div 64" "c0 = c mod 64"
  then have a: "a = 4 * a1 + a0" "a0 < 4" "a1 < 64" and b: "b = 16 * b1 + b0" "b0 < 16" "b1 < 16" and c: "c = 64 * c1 + c0" "c0 < 64" "c1 < 4"
    using assms(1-3) by (simp_all add: div_less_iff_less_mult)
  have "n div 262144 = a1" by (rule div_nat_eqI) (use a b c in \<open>simp_all add: n_def\<close>)
  then have d1: "n div 262144 mod 64 = a1" using a(3) by simp
  have "n div 4096 = 64 * a1 + (16 * a0 + b1)" by (rule div_nat_eqI) (use a b c in \<open>simp_all add: n_def\<close>)
  then have d2: "n div 4096 mod 64 = 16 * a0 + b1" using a(2) b(3) by (simp only: div_mod_64)
  have "n div 64 = 64 * (64 * a1 + 16 * a0 + b1) + (4 * b0 + c1)" by (rule div_nat_eqI) (use a b c in \<open>simp_all add: n_def\<close>)
  then have d3: "n div 64 mod 64 = 4 * b0 + c1" using b(2) c(3) by (simp only: div_mod_64)
  have "n = 64 * (4096 * a1 + 1024 * a0 + 64 * b1 + 4 * b0 + c1) + c0" using a(1) b(1) c(1) by (simp add: n_def)
  then have d4: "n mod 64 = c0" using c(2) by (simp only: div_mod_64)
  show "n div 262144 mod 64 * 4 + n div 4096 mod 64 div 16 = a" unfolding d1 d2 using a(1) b(3) by simp
  show "n div 4096 mod 64 mod 16 * 16 + n div 64 mod 64 div 4 = b" unfolding d2 d3 using b c(3) by simp
  show "n div 64 mod 64 mod 4 * 64 + n mod 64 = c" unfolding d3 d4 using c by simp
qed

lemma byte_bound: "unat (a :: byte) < 256"
  using unat_less_pow [of a] by simp

text \<open>The three bytes of a group, from its four sextets.\<close>

lemma group_bytes:
  fixes a b c :: byte
  defines "n \<equiv> unat a * 65536 + unat b * 256 + unat c"
  shows "of_nat (n div 262144 mod 64 * 4 + n div 4096 mod 64 div 16) = a" "of_nat (n div 4096 mod 64 mod 16 * 16 + n div 64 mod 64 div 4) = b"
    "of_nat (n div 64 mod 64 mod 4 * 64 + n mod 64) = c"
  unfolding n_def sextets [OF byte_bound byte_bound byte_bound] by simp_all

lemma base64_round_trip: "base64_Decode (base64_Encode bs) = Some bs"
proof (induction bs rule: base64_Encode.induct)
  case (2 a)
  define n where "n = unat a * 65536"
  have "base64_Decode (base64_Encode [a]) = Some [of_nat (n div 262144 mod 64 * 4 + n div 4096 mod 64 div 16)]"
    by (simp only: base64_Encode.simps base64_Decode.simps Let_def n_def value64_digit64 value64_pad prod.case option.case if_True conj_ac simp_thms)
  then show ?case using group_bytes(1) [of a 0 0] by (simp add: n_def del: of_nat_add of_nat_mult)
next
  case (3 a b)
  define n where "n = unat a * 65536 + unat b * 256"
  have "base64_Decode (base64_Encode [a, b]) =
      Some [of_nat (n div 262144 mod 64 * 4 + n div 4096 mod 64 div 16), of_nat (n div 4096 mod 64 mod 16 * 16 + n div 64 mod 64 div 4)]"
    by (simp only: base64_Encode.simps base64_Decode.simps Let_def n_def value64_digit64 value64_pad prod.case option.case if_True conj_ac simp_thms)
  then show ?case using group_bytes(1,2) [of a b 0] by (simp add: n_def del: of_nat_add of_nat_mult)
next
  case (4 a b c rest)
  define n where "n = unat a * 65536 + unat b * 256 + unat c"
  have "base64_Decode (base64_Encode (a # b # c # rest)) =
      Some ([of_nat (n div 262144 mod 64 * 4 + n div 4096 mod 64 div 16), of_nat (n div 4096 mod 64 mod 16 * 16 + n div 64 mod 64 div 4),
             of_nat (n div 64 mod 64 mod 4 * 64 + n mod 64)] @ rest)"
    by (simp only: base64_Encode.simps base64_Decode.simps Let_def n_def value64_digit64 prod.case option.case 4 append_Cons append_Nil)
  then show ?case unfolding n_def group_bytes by simp
qed simp

lemma uint16s_round_trip: "uint16s_le (concat (map put_uint16_le ws)) = Some ws"
proof (induction ws)
  case (Cons w ws)
  have "unat w div 256 < 256" using unat_less_pow [of w] by simp
  then have "unat (ucast w :: byte) + 256 * unat (ucast (drop_bit 8 w) :: byte) = unat w"
    by (simp add: unsigned_ucast_eq unsigned_drop_bit_eq take_bit_eq_mod) (simp add: drop_bit_eq_div)
  then show ?case using Cons by (simp add: put_uint16_le_def)
qed simp

lemma utf16_round_trip: "list_all code_point rs \<Longrightarrow> utf16_Decode (utf16_Encode rs) = rs"
proof (induction rs)
  case (Cons r rs)
  then have r: "code_point r" and IH: "utf16_Decode (utf16_Encode rs) = rs" by simp_all
  show ?case
  proof (cases "r < 0x10000")
    case True
    define w where "w = (of_nat r :: u16)"
    have w: "unat w = r" using True by (simp add: w_def unat_of_nat)
    have basic: "utf16_Encode (r # rs) = w # utf16_Encode rs" using r True by (simp add: code_point_def w_def)
    have "\<not> (0xD800 \<le> w \<and> w < 0xE000)" using r True w by (auto simp: code_point_def word_le_nat_alt word_less_nat_alt)
    moreover have "\<not> (0xD800 \<le> w \<and> w < 0xDC00)" using r True w by (auto simp: code_point_def word_le_nat_alt word_less_nat_alt)
    ultimately show ?thesis using IH w unfolding basic by (cases "utf16_Encode rs") auto
  next
    case False
    define w where "w = (of_nat (0xD800 + (r - 0x10000) div 0x400) :: u16)"
    define v where "v = (of_nat (0xDC00 + (r - 0x10000) mod 0x400) :: u16)"
    have b: "(r - 0x10000) div 0x400 < 0x400" using r False by (simp add: code_point_def div_less_iff_less_mult)
    have w: "unat w = 0xD800 + (r - 0x10000) div 0x400" using b unat_of_nat [where 'a = 16] by (simp add: w_def take_bit_eq_mod unsigned_of_nat del: of_nat_add)
    have v: "unat v = 0xDC00 + (r - 0x10000) mod 0x400" by (simp add: v_def take_bit_eq_mod unsigned_of_nat del: of_nat_add)
    have basic: "utf16_Encode (r # rs) = w # v # utf16_Encode rs" using r False by (simp add: code_point_def w_def v_def)
    have "0xD800 \<le> w" "w < 0xDC00" "0xDC00 \<le> v" "v < 0xE000" using b w v by (simp_all add: word_le_nat_alt word_less_nat_alt)
    then have "utf16_Decode (w # v # utf16_Encode rs) = (0x10000 + (unat w - 0xD800) * 0x400 + (unat v - 0xDC00)) # rs" using IH by simp
    also have "0x10000 + (unat w - 0xD800) * 0x400 + (unat v - 0xDC00) = r" using False div_mult_mod_eq [of "r - 0x10000" "0x400"] by (simp add: w v)
    finally show ?thesis unfolding basic .
  qed
qed simp

text \<open>What a wait says of the process.\<close>

lemma waitElevated_ok:
  "waitElevated hex process passes = (r, acts) \<Longrightarrow>
     (r = Some None \<longrightarrow> (\<exists>k < length passes. wp_wait (passes ! k) = Inr WAIT_OBJECT_0 \<and> wp_exit (passes ! k) = Inr 0))
     \<and> CloseHandle h \<notin> set acts \<and> (list_ex (\<lambda>p. wp_ctx p \<noteq> None \<or> wp_wait p \<noteq> Inr WAIT_TIMEOUT) passes \<longrightarrow> r \<noteq> None)"
proof (induction passes arbitrary: r acts)
  case (Cons p passes)
  show ?case
  proof (cases "wp_ctx p = None \<and> wp_wait p = Inr WAIT_TIMEOUT")
    case True
    obtain r1 acts1 where rest: "waitElevated hex process passes = (r1, acts1)" by fastforce
    then have eq: "r = r1" "acts = WaitProcess process # SleepMs 25 # acts1" using Cons.prems True by (simp_all add: WAIT_OBJECT_0_def WAIT_TIMEOUT_def)
    show ?thesis using Cons.IH [OF rest] True unfolding eq by auto
  next
    case False
    then show ?thesis using Cons.prems
      by (auto simp: nth_Cons' split: option.splits sum.splits if_splits)
  qed
qed simp

section \<open>Properties\<close>

text \<open>
  PowerShell reads the command that was given. Decoding the parameter, base 64 and then UTF-16 with the low byte first, gives the code points of the command, for every
  command of valid code points; the recovery command is one.
\<close>

theorem powershell_command_round_trip:
  assumes "list_all code_point command"
  shows "(case base64_Decode (encodePowerShellCommand command) of None \<Rightarrow> None | Some bs \<Rightarrow> map_option utf16_Decode (uint16s_le bs)) = Some command
     \<and> list_all code_point (map of_char recoveryCommand)"
proof -
  have "code_point (of_char c)" for c :: char
  proof -
    have "(of_char c :: nat) < 256" by simp
    then show ?thesis unfolding code_point_def by linarith
  qed
  then have "list_all code_point (map of_char recoveryCommand)" by (simp add: list_all_iff)
  then show ?thesis using utf16_round_trip [OF assms] by (simp add: encodePowerShellCommand_def base64_round_trip uint16s_round_trip)
qed

theorem powershell_command_round_trip_witness:
  "(case base64_Decode (encodePowerShellCommand [65, 0x1F600]) of None \<Rightarrow> None | Some bs \<Rightarrow> map_option utf16_Decode (uint16s_le bs)) = Some [65, 0x1F600]"
  using powershell_command_round_trip [of "[65, 0x1F600]"] by (simp add: code_point_def)

text \<open>
  C40: the recovery reports what the elevated process did. It succeeds only if a process was started and ended with exit code 0; the process handle is closed
  exactly once when the recovery returns, on every path, and only if there is one; and it returns once the context has ended or a wait does not time out.
\<close>

theorem elevated_wait_accounts:
  assumes "runElevatedAndWait hex executable parameters shell passes = (r, acts)"
  shows "(r = Some None \<longrightarrow> (\<exists>process k. shell = ShellStarted process \<and> process \<noteq> 0 \<and> k < length passes \<and> wp_wait (passes ! k) = Inr WAIT_OBJECT_0 \<and> wp_exit (passes ! k) = Inr 0))
     \<and> (\<forall>process. length (filter (\<lambda>a. a = CloseHandle process) acts) =
          (if shell = ShellStarted process \<and> process \<noteq> 0 \<and> ShellExecute executable parameters \<in> set acts \<and> r \<noteq> None then 1 else 0))
     \<and> (list_ex (\<lambda>p. wp_ctx p \<noteq> None \<or> wp_wait p \<noteq> Inr WAIT_TIMEOUT) passes \<longrightarrow> r \<noteq> None)"
proof -
  have runas: "UTF16PtrFromString ''runas'' = None" by (simp add: UTF16PtrFromString_def)
  consider (started) process where "shell = ShellStarted process" "process \<noteq> 0" "ShellExecute executable parameters \<in> set acts"
      "(r, acts) = (case waitElevated hex process passes of (r, acts) \<Rightarrow> (r, ShellExecute executable parameters # acts @ (if r = None then [] else [CloseHandle process])))"
    | (failed) "r \<noteq> None" "r \<noteq> Some None" "\<forall>h. CloseHandle h \<notin> set acts" "ShellExecute executable parameters \<in> set acts \<longrightarrow> (\<forall>h. shell = ShellStarted h \<longrightarrow> h = 0)"
    using assms by (auto simp: runElevatedAndWait_def runas split: option.splits shell_result.splits if_splits prod.splits)
  then show ?thesis
  proof cases
    case started
    obtain r1 acts1 where wait: "waitElevated hex process passes = (r1, acts1)" by fastforce
    then have eq: "r = r1" "acts = ShellExecute executable parameters # acts1 @ (if r = None then [] else [CloseHandle process])" using started(4) by auto
    note ok = waitElevated_ok [OF wait]
    have none: "filter (\<lambda>a. a = CloseHandle h) acts1 = []" for h using ok [of h] by (auto simp: filter_empty_conv)
    show ?thesis using ok [of 0] started(1-3) none unfolding eq(1) by (auto simp: eq)
  next
    case failed
    have "filter (\<lambda>a. a = CloseHandle h) acts = []" for h using failed(3) by (auto simp: filter_empty_conv)
    then show ?thesis using failed by auto
  qed
qed

theorem elevated_wait_accounts_witness:
  "runElevatedAndWait (\<lambda>w. itoa (uint w)) ''powershell.exe'' ''-x'' (ShellStarted 7)
       [\<lparr>wp_ctx = None, wp_wait = Inr WAIT_TIMEOUT, wp_exit = Inr 0\<rparr>, \<lparr>wp_ctx = None, wp_wait = Inr WAIT_OBJECT_0, wp_exit = Inr 0\<rparr>]
     = (Some None, [ShellExecute ''powershell.exe'' ''-x'', WaitProcess 7, SleepMs 25, WaitProcess 7, CloseHandle 7])
   \<and> length (filter (\<lambda>a. a = CloseHandle 7) [ShellExecute ''powershell.exe'' ''-x'', WaitProcess 7, SleepMs 25, WaitProcess 7, CloseHandle 7]) = 1"
proof -
  let ?passes = "[\<lparr>wp_ctx = None, wp_wait = Inr WAIT_TIMEOUT, wp_exit = Inr 0\<rparr>, \<lparr>wp_ctx = None, wp_wait = Inr WAIT_OBJECT_0, wp_exit = Inr 0\<rparr>]"
  have run: "runElevatedAndWait (\<lambda>w. itoa (uint w)) ''powershell.exe'' ''-x'' (ShellStarted 7) ?passes
      = (Some None, [ShellExecute ''powershell.exe'' ''-x'', WaitProcess 7, SleepMs 25, WaitProcess 7, CloseHandle 7])"
    by (simp add: runElevatedAndWait_def UTF16PtrFromString_def WAIT_OBJECT_0_def WAIT_TIMEOUT_def)
  from elevated_wait_accounts [OF run] have "length (filter (\<lambda>a. a = CloseHandle 7) [ShellExecute ''powershell.exe'' ''-x'', WaitProcess 7, SleepMs 25, WaitProcess 7, CloseHandle 7]) = 1"
    by auto
  then show ?thesis using run by blast
qed

end
