(* ===== verification/Sleep_Inhibitor.thy ===== *)
theory Sleep_Inhibitor
  imports Base Transition_System
begin

text \<open>
  Keeping the system awake (\<open>internal/app/prevent_sleep_linux.go\<close>, \<open>prevent_sleep_windows.go\<close>, \<open>prevent_sleep_unsupported.go\<close>). On Windows a
  thread of its own holds the request, and acquiring it, the thread and closing it talk over channels: each stretch of code between
  two points that may block is a step. What the operating system returns is an argument.
\<close>

section \<open>Linux\<close>

text \<open>The results of the D-Bus calls, the descriptor received and whether a file can be made of it; the file is named by its descriptor.\<close>

definition acquireSleepInhibitor_linux :: "go_error option \<Rightarrow> bool \<Rightarrow> go_error + int \<Rightarrow> bool \<Rightarrow> go_error + int" where
  "acquireSleepInhibitor_linux busErr supportsFDs inhibited fileOK =
     (case busErr of
        Some e \<Rightarrow> Inl (Wrapped ''connect to system D-Bus: '' e '''')
      | None \<Rightarrow>
          if \<not> supportsFDs then Inl (ErrorText ''system D-Bus does not support file descriptor passing'')
          else case inhibited of
                 Inl e \<Rightarrow> Inl (Wrapped ''acquire systemd-logind inhibitor: '' e '''')
               | Inr descriptor \<Rightarrow>
                   if descriptor < 0 then Inl (ErrorText ''systemd-logind returned an invalid inhibitor descriptor'')
                   else if \<not> fileOK then Inl (ErrorText ''open systemd-logind inhibitor descriptor'')
                   else Inr descriptor)"

definition acquireSleepInhibitor_unsupported :: "go_error + int" where
  "acquireSleepInhibitor_unsupported = Inl (ErrorText ''sleep prevention is unsupported on this platform'')"

section \<open>Windows\<close>

text \<open>\<open>SetThreadExecutionState\<close> returns the old state, or 0 and perhaps an error; \<open>None\<close> is also \<open>ERROR_SUCCESS\<close>.\<close>

definition callSetThreadExecutionState :: "u64 \<Rightarrow> go_error option \<Rightarrow> go_error option" where
  "callSetThreadExecutionState result callErr =
     (if result \<noteq> 0 then None
      else case callErr of Some e \<Rightarrow> Some e | None \<Rightarrow> Some (ErrorText ''SetThreadExecutionState returned zero''))"

datatype run_state = RunStart | RunWaiting | RunEnded
datatype acquire_state = Acquiring | Cancelled go_error | Acquired | AcquireFailed go_error
datatype close_state = CloseIdle | CloseWaiting | CloseReturned "go_error option"

text \<open>
  A channel with a buffer of one is the value in it; \<open>done\<close> is only ever closed, and \<open>in_closes\<close> counts how often. \<open>in_active\<close> is the
  request in force, \<open>in_release\<close> the result of giving it back.
\<close>

record windowsSleepInhibitor =
  in_done :: bool
  in_closes :: nat
  in_closed :: "go_error option option"
  in_ready :: "go_error option option"
  in_run :: run_state
  in_acquire :: acquire_state
  in_close :: close_state
  in_active :: bool
  in_release :: "go_error option option"

definition newInhibitor :: windowsSleepInhibitor where
  "newInhibitor = \<lparr>in_done = False, in_closes = 0, in_closed = None, in_ready = None, in_run = RunStart, in_acquire = Acquiring, in_close = CloseIdle,
     in_active = False, in_release = None\<rparr>"

text \<open>The thread: \<open>run\<close> up to the point where it waits, and after it.\<close>

definition runSets :: "go_error option \<Rightarrow> windowsSleepInhibitor \<Rightarrow> windowsSleepInhibitor" where
  "runSets setErr s =
     (case setErr of
        Some e \<Rightarrow> s\<lparr>in_ready := Some (Some (Wrapped ''set Windows execution state: '' e '''')), in_closed := Some None, in_run := RunEnded\<rparr>
      | None \<Rightarrow> s\<lparr>in_active := True, in_ready := Some None, in_run := RunWaiting\<rparr>)"

definition runReleases :: "go_error option \<Rightarrow> windowsSleepInhibitor \<Rightarrow> windowsSleepInhibitor" where
  "runReleases releaseErr s =
     s\<lparr>in_active := (in_active s \<and> releaseErr \<noteq> None), in_release := Some releaseErr, in_closed := Some releaseErr, in_run := RunEnded\<rparr>"

definition closeDone :: "windowsSleepInhibitor \<Rightarrow> windowsSleepInhibitor" where
  "closeDone s = s\<lparr>in_done := True, in_closes := in_closes s + 1\<rparr>"

text \<open>\<open>acquireSleepInhibitor\<close>, \<open>run\<close> and \<open>Close\<close>; a second \<open>Close\<close> only waits for the first.\<close>

inductive inhibitor_step :: "windowsSleepInhibitor \<Rightarrow> windowsSleepInhibitor \<Rightarrow> bool" where
  run_sets: "in_run s = RunStart \<Longrightarrow> inhibitor_step s (runSets (callSetThreadExecutionState result callErr) s)"
| run_releases: "in_run s = RunWaiting \<Longrightarrow> in_done s \<Longrightarrow> inhibitor_step s (runReleases (callSetThreadExecutionState result callErr) s)"
| acquire_ready: "in_acquire s = Acquiring \<Longrightarrow> in_ready s = Some err \<Longrightarrow>
    inhibitor_step s (s\<lparr>in_ready := None, in_acquire := (case err of None \<Rightarrow> Acquired | Some e \<Rightarrow> AcquireFailed e)\<rparr>)"
| acquire_cancelled: "in_acquire s = Acquiring \<Longrightarrow> inhibitor_step s ((closeDone s)\<lparr>in_acquire := Cancelled ctxErr\<rparr>)"
| acquire_given_up: "in_acquire s = Cancelled e \<Longrightarrow> in_closed s = Some x \<Longrightarrow> inhibitor_step s (s\<lparr>in_closed := None, in_acquire := AcquireFailed e\<rparr>)"
| close_starts: "in_acquire s = Acquired \<Longrightarrow> in_close s = CloseIdle \<Longrightarrow> inhibitor_step s ((closeDone s)\<lparr>in_close := CloseWaiting\<rparr>)"
| close_returns: "in_close s = CloseWaiting \<Longrightarrow> in_closed s = Some x \<Longrightarrow> inhibitor_step s (s\<lparr>in_closed := None, in_close := CloseReturned x\<rparr>)"

inductive_cases inhibitor_stepE: "inhibitor_step s t"

section \<open>Invariant\<close>

definition inhibitor_ok :: "windowsSleepInhibitor \<Rightarrow> bool" where
  "inhibitor_ok s \<longleftrightarrow>
     in_closes s = (if in_done s then 1 else 0)
     \<and> (in_done s \<longleftrightarrow> (in_close s \<noteq> CloseIdle \<or> (\<exists>e. in_acquire s = Cancelled e)
          \<or> (\<exists>e. in_acquire s = AcquireFailed e) \<and> in_closed s = None))
     \<and> (in_close s \<noteq> CloseIdle \<longrightarrow> in_acquire s = Acquired)
     \<and> (case in_run s of
          RunStart \<Rightarrow> \<not> in_active s \<and> in_ready s = None \<and> in_closed s = None \<and> in_release s = None \<and> (in_acquire s = Acquiring \<or> (\<exists>e. in_acquire s = Cancelled e))
        | RunWaiting \<Rightarrow> in_active s \<and> in_closed s = None \<and> in_release s = None \<and> (in_acquire s = Acquiring \<longrightarrow> in_ready s = Some None)
            \<and> (\<nexists>e. in_acquire s = AcquireFailed e) \<and> (\<forall>x. in_close s \<noteq> CloseReturned x)
        | RunEnded \<Rightarrow>
            (case in_release s of
               None \<Rightarrow> \<not> in_active s \<and> in_acquire s \<noteq> Acquired \<and> (in_acquire s = Acquiring \<longrightarrow> (\<exists>e. in_ready s = Some (Some e)))
                 \<and> ((\<nexists>e. in_acquire s = AcquireFailed e) \<longrightarrow> in_closed s = Some None)
             | Some r \<Rightarrow> in_done s \<and> (in_active s \<longrightarrow> r \<noteq> None) \<and> in_acquire s \<noteq> Acquiring
                 \<and> ((\<exists>e. in_acquire s = Cancelled e) \<or> in_close s = CloseWaiting \<longrightarrow> in_closed s = Some r)
                 \<and> (\<forall>x. in_close s = CloseReturned x \<longrightarrow> x = r)))"

lemma newInhibitor_ok: "inhibitor_ok newInhibitor"
  by (simp add: inhibitor_ok_def newInhibitor_def)

lemma inhibitor_step_ok: "inhibitor_ok s \<Longrightarrow> inhibitor_step s t \<Longrightarrow> inhibitor_ok t"
  by (erule inhibitor_stepE)
    (cases "in_run s"; cases "in_release s"; auto simp: inhibitor_ok_def runSets_def runReleases_def closeDone_def split: option.splits)+

interpretation inhibitor_runs: transition_system "\<lambda>s. s = newInhibitor" inhibitor_step inhibitor_ok
proof
  show "inhibitor_ok s" if "s = newInhibitor" for s using that newInhibitor_ok by simp
qed (rule inhibitor_step_ok)

text \<open>What is left to do; every step does some of it.\<close>

definition inhibitor_rest :: "windowsSleepInhibitor \<Rightarrow> nat" where
  "inhibitor_rest s =
     (case in_run s of RunStart \<Rightarrow> 2 | RunWaiting \<Rightarrow> 1 | RunEnded \<Rightarrow> 0)
     + (case in_acquire s of
          Acquiring \<Rightarrow> 3
        | Cancelled e \<Rightarrow> 1
        | AcquireFailed e \<Rightarrow> 0
        | Acquired \<Rightarrow> (case in_close s of CloseIdle \<Rightarrow> 2 | CloseWaiting \<Rightarrow> 1 | CloseReturned x \<Rightarrow> 0))"

lemma inhibitor_step_rest: "inhibitor_ok s \<Longrightarrow> inhibitor_step s t \<Longrightarrow> inhibitor_rest t < inhibitor_rest s"
  by (erule inhibitor_stepE)
    (auto simp: inhibitor_ok_def inhibitor_rest_def runSets_def runReleases_def closeDone_def split: option.splits)

lemma inhibitor_run_rest: "(inhibitor_step ^^ n) newInhibitor s \<Longrightarrow> inhibitor_ok s \<and> n + inhibitor_rest s \<le> 5"
proof (induction n arbitrary: s)
  case 0
  then show ?case using newInhibitor_ok by (auto simp: inhibitor_rest_def newInhibitor_def)
next
  case (Suc n)
  then obtain t where t: "(inhibitor_step ^^ n) newInhibitor t" "inhibitor_step t s" by auto
  then show ?case using Suc.IH [OF t(1)] inhibitor_step_ok [of t s] inhibitor_step_rest [of t s] by auto
qed

text \<open>Whoever waits is waited for by nobody: the thread or a value in the channel goes on.\<close>

lemma inhibitor_progress:
  assumes ok: "inhibitor_ok s" and waits: "in_acquire s = Acquiring \<or> (\<exists>e. in_acquire s = Cancelled e) \<or> in_close s = CloseWaiting"
  shows "\<exists>t. inhibitor_step s t \<and> in_closes t = in_closes s"
proof (cases "in_run s")
  case RunStart
  have "in_closes (runSets r s) = in_closes s" for r by (simp add: runSets_def split: option.split)
  then show ?thesis using run_sets [OF RunStart] by blast
next
  case RunWaiting
  show ?thesis
  proof (cases "in_done s")
    case True
    have "in_closes (runReleases r s) = in_closes s" for r by (simp add: runReleases_def)
    then show ?thesis using run_releases [OF RunWaiting True] by blast
  next
    case False
    then have a: "in_acquire s = Acquiring" "in_ready s = Some None" using ok waits RunWaiting by (auto simp: inhibitor_ok_def)
    show ?thesis using acquire_ready [OF a] by (intro exI conjI) (assumption, simp)
  qed
next
  case RunEnded
  consider err where "in_acquire s = Acquiring" "in_ready s = Some err" | e x where "in_acquire s = Cancelled e" "in_closed s = Some x"
    | x where "in_close s = CloseWaiting" "in_closed s = Some x"
    using ok waits RunEnded by (cases "in_release s") (auto simp: inhibitor_ok_def)
  then show ?thesis
  proof cases
    case 1
    show ?thesis using acquire_ready [OF 1] by (intro exI conjI) (assumption, simp)
  next
    case 2
    show ?thesis using acquire_given_up [OF 2] by (intro exI conjI) (assumption, simp)
  next
    case 3
    show ?thesis using close_returns [OF 3] by (intro exI conjI) (assumption, simp)
  qed
qed

section \<open>Properties\<close>

text \<open>
  C39: on Windows, acquiring and closing the sleep inhibitor return and leave no request behind. Whatever the system calls return and whenever the context is
  cancelled, no run has more than five steps and none stops while the caller waits, so \<open>acquireSleepInhibitor\<close> and \<open>Close\<close> return; the channel \<open>done\<close> is never
  closed twice; after a failed acquisition or a close the thread has ended, and the request is in force only if giving it back failed, which \<open>Close\<close> reports; while the
  inhibitor is held the request is in force.
\<close>

theorem sleep_inhibitor_safe:
  assumes "(inhibitor_step ^^ n) newInhibitor s"
  shows "n \<le> 5 \<and> in_closes s \<le> 1
     \<and> (in_acquire s = Acquiring \<or> (\<exists>e. in_acquire s = Cancelled e) \<or> in_close s = CloseWaiting \<longrightarrow> (\<exists>t. inhibitor_step s t \<and> in_closes t = in_closes s))
     \<and> ((\<exists>e. in_acquire s = AcquireFailed e) \<or> (\<exists>x. in_close s = CloseReturned x) \<longrightarrow>
          in_run s = RunEnded \<and> (in_active s \<longrightarrow> (\<exists>e. in_release s = Some (Some e))))
     \<and> (\<forall>x. in_close s = CloseReturned x \<longrightarrow> in_release s = Some x)
     \<and> (in_acquire s = Acquired \<and> in_close s = CloseIdle \<longrightarrow> in_active s)"
proof -
  have ok: "inhibitor_ok s" "n \<le> 5" using inhibitor_run_rest [OF assms] by simp_all
  then have "in_closes s \<le> 1" by (simp add: inhibitor_ok_def)
  moreover have "(\<exists>e. in_acquire s = AcquireFailed e) \<or> (\<exists>x. in_close s = CloseReturned x) \<longrightarrow>
      in_run s = RunEnded \<and> (in_active s \<longrightarrow> (\<exists>e. in_release s = Some (Some e)))"
    using ok(1) by (cases "in_run s"; cases "in_release s") (auto simp: inhibitor_ok_def)
  moreover have "\<forall>x. in_close s = CloseReturned x \<longrightarrow> in_release s = Some x"
    using ok(1) by (cases "in_run s"; cases "in_release s") (auto simp: inhibitor_ok_def)
  moreover have "in_acquire s = Acquired \<and> in_close s = CloseIdle \<longrightarrow> in_active s"
    using ok(1) by (cases "in_run s"; cases "in_release s") (auto simp: inhibitor_ok_def)
  ultimately show ?thesis using ok inhibitor_progress by blast
qed

text \<open>The inhibitor is acquired and closed.\<close>

theorem sleep_inhibitor_safe_witness:
  "\<exists>s. (inhibitor_step ^^ 5) newInhibitor s \<and> in_close s = CloseReturned None \<and> in_run s = RunEnded \<and> \<not> in_active s"
proof -
  let ?s0 = newInhibitor
  define s1 where "s1 = runSets None ?s0"
  define s2 where "s2 = s1\<lparr>in_ready := None, in_acquire := Acquired\<rparr>"
  define s3 where "s3 = (closeDone s2)\<lparr>in_close := CloseWaiting\<rparr>"
  define s4 where "s4 = runReleases None s3"
  define s5 where "s5 = s4\<lparr>in_closed := None, in_close := CloseReturned None\<rparr>"
  note defs = s1_def s2_def s3_def s4_def s5_def newInhibitor_def runSets_def closeDone_def runReleases_def
  have c: "callSetThreadExecutionState 1 None = None" by (simp add: callSetThreadExecutionState_def)
  have "inhibitor_step ?s0 s1" using run_sets [of ?s0 1 None] by (simp add: c s1_def newInhibitor_def)
  moreover have "inhibitor_step s1 s2" using acquire_ready [of s1 None] by (simp add: defs)
  moreover have "inhibitor_step s2 s3" using close_starts [of s2] by (simp add: defs)
  moreover have "inhibitor_step s3 s4" using run_releases [of s3 1 None] by (simp add: c defs)
  moreover have "inhibitor_step s4 s5" using close_returns [of s4 None] by (simp add: defs)
  ultimately have "(inhibitor_step ^^ 5) ?s0 s5" by (simp add: numeral_eq_Suc) (blast intro: relcomppI)
  moreover from sleep_inhibitor_safe [OF this] have "in_run s5 = RunEnded" "in_release s5 = Some None \<longrightarrow> \<not> in_active s5" by (auto simp: s5_def)
  moreover have "in_close s5 = CloseReturned None" "in_release s5 = Some None" by (simp_all add: defs)
  ultimately show ?thesis by blast
qed

end
