(* ===== verification/Link_Calls.thy ===== *)
theory Link_Calls
  imports Link_Session
begin

text \<open>
  A link session while its own loops, the multiplexer and its timers use it: the critical sections of \<open>Link_Session\<close> as calls with their effects. The lemmas show that
  no call loses the session's connection without closing it; the runs of the server and of the client rest on them.
\<close>

section \<open>A session while others use it\<close>

text \<open>The critical sections of a link session that its loops, the multiplexer and its timers run, with their effects.\<close>

datatype link_call =
    WriteCall bytes
  | ReadCall nat
  | SendCall u64 instant
  | SentCall u64 bytes instant instant "go_error option"
  | ReceiveCall u64 recv_event instant
  | HeartbeatCall u64 instant
  | HeartbeatSentCall u64 instant instant "go_error option"
  | FailCall go_error
  | CloseCall
  | ExpireCall instant duration instant bool

fun linkCall :: "link_call \<Rightarrow> Session \<Rightarrow> link_effect list \<times> Session" where
  "linkCall (WriteCall p) s = ([], snd (snd (Write 0 p s)))"
| "linkCall (ReadCall n) s = ([], snd (Read n s))"
| "linkCall (SendCall g now) s = ([], snd (sendStep g now s))"
| "linkCall (SentCall g packet started finished err) s = snd (sendDone g packet started finished err s)"
| "linkCall (ReceiveCall g ev now) s = snd (receiveStep g ev now s)"
| "linkCall (HeartbeatCall g now) s = snd (heartbeatStep g now s)"
| "linkCall (HeartbeatSentCall g started finished err) s = snd (heartbeatSent g started finished err s)"
| "linkCall (FailCall err) s = closeWithError err s"
| "linkCall CloseCall s = Close s"
| "linkCall (ExpireCall since timeout now doneFirst) s = expireAfter since timeout now doneFirst s"

text \<open>The connection a session conns_held.\<close>

definition heldConn :: "Session \<Rightarrow> PacketConn option" where
  "heldConn s = map_option b_conn (current s)"

definition vital :: "Session \<Rightarrow> PacketConn option \<times> bool \<times> bool" where
  "vital s = (heldConn s, s_closed s, s_done s)"

lemma vital_same: "current s' = current s \<Longrightarrow> s_closed s' = s_closed s \<Longrightarrow> s_done s' = s_done s \<Longrightarrow> vital s' = vital s"
  by (simp add: vital_def heldConn_def)

lemma vital_bind: "current s = Some b \<Longrightarrow> b_conn b' = b_conn b \<Longrightarrow> vital (s\<lparr>current := Some b'\<rparr>) = vital s"
  by (simp add: vital_def heldConn_def)

lemma vital_update [simp]:
  "vital (signalLocked s) = vital s" "vital (s\<lparr>s_stats := x\<rparr>) = vital s" "vital (s\<lparr>ackDirty := y\<rparr>) = vital s"
  "vital (s\<lparr>pongDirty := y\<rparr>) = vital s" "vital (s\<lparr>havePendingHello := y\<rparr>) = vital s" "vital (s\<lparr>helloReply := z\<rparr>) = vital s"
  by (simp_all add: vital_def heldConn_def signalLocked_def)

lemma vital_accept: "acceptDataLocked seq payload s = (r, s') \<Longrightarrow> vital s' = vital s"
  by (auto simp: acceptDataLocked_def bufferAhead_def deliverInOrder_def vital_def heldConn_def signalLocked_def Let_def
      split: if_splits scan_result.splits prod.splits)

lemma vital_data: "handleData packet now s = (e, s') \<Longrightarrow> vital s' = vital s"
  by (auto simp: handleData_def scheduleAck_def Let_def vital_def heldConn_def signalLocked_def
      dest!: vital_accept split: if_splits prod.splits sum.splits)

lemma vital_reconcile: "reconcilePeerLocked x s = (r, s') \<Longrightarrow> vital s' = vital s"
  by (auto simp: reconcilePeerLocked_def signalLocked_def vital_def heldConn_def Let_def split: if_splits option.splits)

lemma vital_negotiate [simp]: "vital (negotiateLocked peer s) = vital s"
  by (simp add: negotiateLocked_def vital_def heldConn_def Let_def)

text \<open>Steps that take the binding out, change it and put it back keep its connection.\<close>

definition rebinds :: "binding \<Rightarrow> Session \<Rightarrow> binding \<Rightarrow> Session \<Rightarrow> bool" where
  "rebinds b s b' s' \<longleftrightarrow> b_conn b' = b_conn b \<and> s_closed s' = s_closed s \<and> s_done s' = s_done s"

lemma vital_rebinds: "rebinds b s b' s' \<Longrightarrow> current s = Some b0 \<Longrightarrow> b_conn b0 = b_conn b \<Longrightarrow> vital (s'\<lparr>current := Some b'\<rparr>) = vital s"
  by (simp add: rebinds_def vital_def heldConn_def)

lemma rebinds_vital: "vital s' = vital s \<Longrightarrow> b_conn b' = b_conn b \<Longrightarrow> rebinds b s b' s'"
  by (simp add: rebinds_def vital_def)

lemma conn_window [simp]: "b_conn (ackAdvanced b now s) = b_conn b" "b_conn (reduceFlightWindow b) = b_conn b" "b_conn (resetCursor b s) = b_conn b"
  by (simp_all add: ackAdvanced_def reduceFlightWindow_def resetCursor_def Let_def)

lemma rebinds_ack: "handleAckLocked b expected now s = (e, b', s') \<Longrightarrow> rebinds b s b' s'"
  by (rule rebinds_vital) (auto simp: handleAckLocked_def Let_def dest!: vital_reconcile split: if_splits prod.splits option.splits)

lemma rebinds_retransmit: "retransmitDue b now s = (b', s') \<Longrightarrow> rebinds b s b' s'"
  by (rule rebinds_vital) (auto simp: retransmitDue_def Let_def split: if_splits)

lemma rebinds_data: "nextDataLocked b now s = (r, b', s') \<Longrightarrow> rebinds b s b' s'"
  by (auto simp: nextDataLocked_def Let_def rebinds_def split: if_splits option.splits)

lemma rebinds_packet:
  assumes "nextPacketLocked b now s = (r, b', s')"
  shows "rebinds b s b' s'"
proof -
  obtain b1 s1 where d: "retransmitDue (resetCursor b s) now s = (b1, s1)" by fastforce
  then show ?thesis using assms rebinds_retransmit [OF d] rebinds_data [of b1 now s1 r b' s']
    by (auto simp: nextPacketLocked_def rebinds_def split: if_splits)
qed

lemma rebinds_heartbeat: "heartbeatCheckLocked b now s = (r, b', s') \<Longrightarrow> rebinds b s b' s'"
  by (auto simp: heartbeatCheckLocked_def Let_def rebinds_def split: if_splits)

lemma vital_handleAck:
  assumes "handleAck b packet now s = (e, s')" and "current s = Some b"
  shows "vital s' = vital s"
proof -
  obtain r b1 s1 where a: "handleAckLocked b (uint64_of (part packet 1 8)) now s = (r, b1, s1)" by (metis surj_pair)
  have "vital (s1\<lparr>current := Some b1\<rparr>) = vital s" by (rule vital_rebinds [OF rebinds_ack [OF a] assms(2) refl])
  then show ?thesis using assms(1) by (auto simp: handleAck_def a [unfolded One_nat_def] vital_def heldConn_def split: if_splits option.splits)
qed

lemma vital_renegotiate: "heldConn s = Some (b_conn b) \<Longrightarrow> vital (renegotiate b packet c s) = vital s"
  by (auto simp: renegotiate_def Let_def vital_def heldConn_def negotiateLocked_def)

lemma vital_handleHello:
  assumes "handleHello b packet s = (e, s')" and "current s = Some b"
  shows "vital s' = vital s"
proof -
  obtain r s1 where rp: "reconcilePeerLocked (uint64_of (part packet 1 8)) s = (r, s1)" by fastforce
  have v: "vital s1 = vital s" by (rule vital_reconcile [OF rp])
  then have "heldConn s1 = Some (b_conn b)" using assms(2) by (simp add: vital_def heldConn_def)
  then have "vital (renegotiate b packet c s1) = vital s" for c using v by (simp add: vital_renegotiate)
  then show ?thesis using assms(1) v by (auto simp: handleHello_def rp [unfolded One_nat_def] Let_def split: if_splits option.splits)
qed

lemma vital_dispatch:
  assumes "dispatchPacket b packet now s = (e, eff, s')" and "current s = Some b"
  shows "vital s' = vital s"
proof -
  have pong: "vital (s\<lparr>s_stats := x, current := Some (b\<lparr>b_lastHeartbeat := now\<rparr>)\<rparr>) = vital s" for x
    using assms(2) by (simp add: vital_def heldConn_def)
  have hello: "vital (s\<lparr>pendingHelloID := x\<rparr>) = vital s" for x by (simp add: vital_def heldConn_def)
  show ?thesis using assms(1) unfolding dispatchPacket_def Let_def
    by (auto simp: pong hello dest: vital_data vital_handleAck [OF _ assms(2)] vital_handleHello [OF _ assms(2)] split: if_split_asm prod.splits)
qed

lemma vital_handlePacket: "handlePacket g packet now s = (e, eff, s') \<Longrightarrow> vital s' = vital s"
proof -
  assume run: "handlePacket g packet now s = (e, eff, s')"
  show ?thesis
  proof (cases "\<exists>b0. current s = Some b0 \<and> packet \<noteq> [] \<and> b_gen b0 = g \<and> \<not> s_closed s")
    case True
    then obtain b0 where b0: "current s = Some b0" "packet \<noteq> []" "b_gen b0 = g" "\<not> s_closed s" by blast
    define b where "b = b0\<lparr>b_lastRX := now, b_heartbeatPending := False, b_heartbeatFailures := 0\<rparr>"
    have "dispatchPacket b packet now (s\<lparr>current := Some b\<rparr>) = (e, eff, s')" using run b0 by (simp add: handlePacket_def Let_def b_def)
    from vital_dispatch [OF this] have "vital s' = vital (s\<lparr>current := Some b\<rparr>)" by simp
    also have "\<dots> = vital s" by (rule vital_bind [OF b0(1)]) (simp add: b_def)
    finally show ?thesis .
  qed (use run in \<open>auto simp: handlePacket_def split: if_splits option.splits\<close>)
qed

text \<open>A step does not lose its connection: it still conns_held it or closes it. A closed session conns_held none.\<close>

definition life :: "Session \<Rightarrow> bool" where
  "life s \<longleftrightarrow> s_closed s = s_done s \<and> (s_closed s \<longrightarrow> heldConn s = None)"

definition keepsConn :: "Session \<Rightarrow> link_effect list \<Rightarrow> Session \<Rightarrow> bool" where
  "keepsConn s eff s' \<longleftrightarrow> (life s \<longrightarrow> life s') \<and> (\<forall>conn. heldConn s = Some conn \<longrightarrow> heldConn s' = Some conn \<or> ConnClose conn \<in> set eff)"

lemma keepsConn_vital: "vital s' = vital s \<Longrightarrow> keepsConn s eff s'"
  by (simp add: keepsConn_def vital_def life_def)

lemma keepsConn_trans: "keepsConn s eff1 s1 \<Longrightarrow> keepsConn s1 eff2 s' \<Longrightarrow> keepsConn s (eff1 @ eff2) s'"
  by (auto simp: keepsConn_def)

lemma keepsConn_fail: "failBinding g now e s = (eff, s') \<Longrightarrow> keepsConn s eff s'"
  by (auto simp: failBinding_def keepsConn_def life_def heldConn_def signalLocked_def split: option.splits if_splits)

lemma keepsConn_closeErr: "closeWithError e s = (eff, s') \<Longrightarrow> keepsConn s eff s'"
  by (auto simp: closeWithError_def keepsConn_def life_def heldConn_def signalLocked_def split: option.splits if_splits)

lemma keepsConn_Close: "keepsConn s (fst (Close s)) (snd (Close s))"
  by (auto simp: Close_def keepsConn_def split: prod.splits dest!: keepsConn_closeErr [unfolded keepsConn_def])

lemma keepsConn_after: "vital s1 = vital s \<Longrightarrow> failBinding g now e s1 = (eff, s') \<Longrightarrow> keepsConn s eff s'"
  using keepsConn_trans [OF keepsConn_vital [of s1 s "[]"] keepsConn_fail] by simp

lemma vital_Write: "vital (snd (snd (Write n p s))) = vital s"
proof (induction n p s rule: Write.induct)
  case (2 written v va s)
  have "vital (signalLocked (s\<lparr>txBuf := x, txNext := y\<rparr>)) = vital s" for x y by (simp add: vital_def heldConn_def)
  then show ?case using 2 by (simp add: Write.simps(2) Let_def)
qed simp

lemma vital_Read: "vital (snd (Read n s)) = vital s"
  by (simp add: Read_def vital_def heldConn_def signalLocked_def)

lemma vital_sendStep: "vital (snd (sendStep g now s)) = vital s"
proof (cases "\<exists>b. current s = Some b \<and> b_gen b = g \<and> \<not> s_closed s")
  case True
  then obtain b where b: "current s = Some b" "b_gen b = g" "\<not> s_closed s" by blast
  obtain r b1 s1 where n: "nextPacketLocked b now s = (r, b1, s1)" by (metis surj_pair)
  show ?thesis using vital_rebinds [OF rebinds_packet [OF n] b(1) refl] b n by (simp add: sendStep_def)
qed (auto simp: sendStep_def split: option.split)

lemma vital_sendFinished: "vital (sendFinished g packet d finished err s) = vital s"
  by (auto simp: sendFinished_def Let_def vital_def heldConn_def split: option.split)

lemma vital_heartbeatResult: "vital (snd (heartbeatSendResultLocked g started finished err s)) = vital s"
  by (auto simp: heartbeatSendResultLocked_def Let_def vital_def heldConn_def split: option.split)

lemma keepsConn_heartbeat: "heartbeatStep g now s = (r, eff, s') \<Longrightarrow> keepsConn s eff s'"
proof (cases "\<exists>b. current s = Some b \<and> b_gen b = g \<and> \<not> s_closed s")
  case True
  assume run: "heartbeatStep g now s = (r, eff, s')"
  obtain b where b: "current s = Some b" "b_gen b = g" "\<not> s_closed s" using True by blast
  obtain probe detach b1 s1 where h: "heartbeatCheckLocked b now s = ((probe, detach), b1, s1)" by (metis surj_pair)
  have v: "vital (s1\<lparr>current := Some b1\<rparr>) = vital s" by (rule vital_rebinds [OF rebinds_heartbeat [OF h] b(1) refl])
  show ?thesis
  proof (cases detach)
    case True
    obtain eff3 s3 where f: "failBinding g now (ErrorText ''heartbeat response failure limit reached'') (s1\<lparr>current := Some b1\<rparr>) = (eff3, s3)" by fastforce
    then have "eff = eff3" "s' = s3" using run b h True by (simp_all add: heartbeatStep_def Let_def)
    then show ?thesis using keepsConn_after [OF v f] by simp
  next
    case False
    then have "s' = s1\<lparr>current := Some b1\<rparr>" using run b h by (simp add: heartbeatStep_def Let_def)
    then show ?thesis using keepsConn_vital [OF v] by simp
  qed
next
  case False
  assume "heartbeatStep g now s = (r, eff, s')"
  then have "s' = s" using False by (auto simp: heartbeatStep_def split: option.splits)
  then show ?thesis by (simp add: keepsConn_vital)
qed

lemma keepsConn_heartbeatSent: "heartbeatSent g started finished err s = (go, eff, s') \<Longrightarrow> keepsConn s eff s'"
proof -
  assume run: "heartbeatSent g started finished err s = (go, eff, s')"
  define st where "st = recordSendTime (finished - started) (s_stats s)"
  define s1 where "s1 = s\<lparr>s_stats := (if err = None then st\<lparr>st_heartbeatTX := st_heartbeatTX st + 1\<rparr> else st)\<rparr>"
  obtain detach s2 where h: "heartbeatSendResultLocked g started finished err s1 = (detach, s2)" by fastforce
  have "vital s2 = vital s1" using vital_heartbeatResult [of g started finished err s1] h by simp
  then have v: "vital s2 = vital s" by (simp add: s1_def)
  show ?thesis using run h v by (auto simp: heartbeatSent_def Let_def st_def [symmetric] s1_def [symmetric] intro: keepsConn_vital keepsConn_after
      split: option.splits if_splits prod.splits)
qed

lemma keepsConn_receive: "receiveStep g ev now s = (go, eff, s') \<Longrightarrow> keepsConn s eff s'"
proof (cases ev)
  case (RecvPacket packet)
  assume run: "receiveStep g ev now s = (go, eff, s')"
  obtain e eff1 s1 where h: "handlePacket g packet now s = (e, eff1, s1)" by (metis surj_pair)
  have v: "keepsConn s eff1 s1" by (rule keepsConn_vital [OF vital_handlePacket [OF h]])
  show ?thesis using run RecvPacket h v by (auto simp: receiveStep_def intro: keepsConn_trans keepsConn_fail split: option.splits prod.splits)
qed (auto simp: receiveStep_def intro: keepsConn_fail keepsConn_vital split: prod.splits)

lemma keepsConn_expire: "expireAfter since timeout now first s = (eff, s') \<Longrightarrow> keepsConn s eff s'"
  by (auto simp: expireAfter_def Let_def intro: keepsConn_vital keepsConn_closeErr split: if_splits)

lemma keepsConn_sent: "sendDone g packet started finished err s = (go, eff, s') \<Longrightarrow> keepsConn s eff s'"
  by (auto simp: sendDone_def Let_def vital_sendFinished intro: keepsConn_vital keepsConn_after [OF vital_sendFinished] split: option.splits prod.splits)

lemma linkCall_keeps: "keepsConn s (fst (linkCall call s)) (snd (linkCall call s))"
proof (cases call)
  case (SentCall g packet started finished err)
  then show ?thesis using keepsConn_sent [of g packet started finished err s] by (simp add: prod_eq_iff)
next
  case (ReceiveCall g ev now)
  then show ?thesis using keepsConn_receive [of g ev now s] by (simp add: prod_eq_iff)
next
  case (HeartbeatCall g now)
  then show ?thesis using keepsConn_heartbeat [of g now s] by (simp add: prod_eq_iff)
next
  case (HeartbeatSentCall g started finished err)
  then show ?thesis using keepsConn_heartbeatSent [of g started finished err s] by (simp add: prod_eq_iff)
next
  case (FailCall e)
  then show ?thesis using keepsConn_closeErr [of e s] by (simp add: prod_eq_iff)
next
  case (ExpireCall since timeout now first)
  then show ?thesis using keepsConn_expire [of since timeout now first s] by (simp add: prod_eq_iff)
qed (auto intro: keepsConn_vital vital_Write vital_Read vital_sendStep keepsConn_Close)

lemma keepsConn_BindServer:
  assumes "BindServer conn hello sendResult now s = (e, eff, s')"
  shows "keepsConn s eff s'" and "e = None \<Longrightarrow> heldConn s' = Some conn" and "e \<noteq> None \<Longrightarrow> vital s' = vital s"
proof -
  obtain r s1 where rp: "reconcilePeerLocked (hello_ExpectedRemote hello) s = (r, s1)" by fastforce
  note v = vital_reconcile [OF rp]
  consider (refused) "e \<noteq> None" "s' = s \<or> s' = s1 \<or> (\<exists>peer. s' = negotiateLocked peer s1)"
    | (bound) peer mtu ack eff' where "attach conn mtu now (negotiateLocked peer s1) = (e, eff', s')" "eff = ack # eff'"
    using assms rp by (fastforce simp: BindServer_def Let_def split: if_splits option.splits prod.splits)
  then have "keepsConn s eff s' \<and> (e = None \<longrightarrow> heldConn s' = Some conn) \<and> (e \<noteq> None \<longrightarrow> vital s' = vital s)"
  proof cases
    case refused
    then have "vital s' = vital s" using v by auto
    then show ?thesis using refused(1) keepsConn_vital by blast
  next
    case bound
    have "vital (negotiateLocked peer s1) = vital s" using v by simp
    then show ?thesis using bound
      by (auto simp: attach_def Let_def keepsConn_def life_def vital_def heldConn_def signalLocked_def split: if_splits option.splits)
  qed
  then show "keepsConn s eff s'" and "e = None \<Longrightarrow> heldConn s' = Some conn" and "e \<noteq> None \<Longrightarrow> vital s' = vital s" by blast+
qed

end
