(* ===== verification/Server_Run.thy ===== *)
theory Server_Run
  imports Server_App Identity Sleep_Inhibitor Link_Calls
begin

text \<open>
  \<open>RunServer\<close> of \<open>internal/app/server.go\<close> from its start to its end: the identity, the Bluetooth server, the sleep inhibitor, the sessions that the loop over
  connections serves while their own goroutines run, and the deferred calls. It composes \<open>Identity\<close>, \<open>Server_App\<close>, \<open>Link_Session\<close>, \<open>Mux\<close> and the result of
  \<open>Sleep_Inhibitor\<close>; what the session's goroutines do is in \<open>Link_Calls\<close>.
\<close>

section \<open>The whole run\<close>

text \<open>
  What happens to the server while it serves: a connection with the result of \<open>ReadHello\<close>, of sending the reply and the counter at that time; the end
  of \<open>Accept\<close>, with whether the context has ended; a step of the link session or of the multiplexer; and the goroutine that closes the
  link when the multiplexer has ended.
\<close>

datatype server_event =
    Accepts PacketConn "go_error + Hello" "go_error option" instant Counter "nat \<Rightarrow> bool"
  | AcceptFails go_error bool
  | LinkRuns link_call
  | MuxRuns Mux
  | MuxEnds

definition noSession :: serverRun where
  "noSession = \<lparr>sv_link = None, sv_mux = None\<rparr>"

fun serverEvent :: "ServerConfig \<Rightarrow> server_event \<Rightarrow> serverRun \<Rightarrow> link_effect list \<times> serverRun" where
  "serverEvent cfg (Accepts conn hello sendResult now counter pick) st = serverTurn cfg (Some counter) pick conn hello sendResult now st"
| "serverEvent cfg (AcceptFails e ended) st = ([], st)"
| "serverEvent cfg (LinkRuns call) st =
     (case sv_link st of None \<Rightarrow> ([], st) | Some s \<Rightarrow> (case linkCall call s of (eff, s') \<Rightarrow> (eff, st\<lparr>sv_link := Some s'\<rparr>)))"
| "serverEvent cfg (MuxRuns m) st = ([], st\<lparr>sv_mux := map_option (\<lambda>_. m) (sv_mux st)\<rparr>)"
| "serverEvent cfg MuxEnds st =
     (case (sv_link st, sv_mux st) of
        (Some s, Some m) \<Rightarrow> if m_done m \<and> IsBound s then (case Close s of (eff, s') \<Rightarrow> (eff, st\<lparr>sv_link := Some s'\<rparr>)) else ([], st)
      | _ \<Rightarrow> ([], st))"

text \<open>\<open>None\<close> when the events given run out before \<open>Accept\<close> fails.\<close>

fun serverLoop :: "ServerConfig \<Rightarrow> server_event list \<Rightarrow> serverRun \<Rightarrow> go_error option option \<times> link_effect list \<times> serverRun" where
  "serverLoop cfg [] st = (None, [], st)"
| "serverLoop cfg (AcceptFails e ended # rest) st = (Some (if ended then None else Some e), [], st)"
| "serverLoop cfg (event # rest) st =
     (case serverEvent cfg event st of (eff, st1) \<Rightarrow> (case serverLoop cfg rest st1 of (r, eff', st2) \<Rightarrow> (r, eff @ eff', st2)))"

text \<open>The deferred call: closing the multiplexer closes its link, unless it has ended before.\<close>

definition stopSessions :: "serverRun \<Rightarrow> link_effect list \<times> serverRun" where
  "stopSessions st =
     (case sv_link st of
        None \<Rightarrow> ([], st\<lparr>sv_mux := map_option Mux_Close (sv_mux st)\<rparr>)
      | Some s \<Rightarrow>
          (case (case sv_mux st of Some m \<Rightarrow> if m_done m then ([], s) else Close s | None \<Rightarrow> ([], s)) of
             (eff1, s1) \<Rightarrow>
               (case Close s1 of (eff2, s2) \<Rightarrow> (eff1 @ eff2, \<lparr>sv_link = Some s2, sv_mux = map_option Mux_Close (sv_mux st)\<rparr>))))"

datatype server_error = ServerIDError id_file_error | StartError "go_error option" | SleepError go_error | AcceptError go_error

datatype server_effect = OnBLE ble_action | AcquiresSleep | OnServerLink link_effect | StopsStats | ReleasesSleep int | ListenerCloses nat | ConsoleCloses

record server_env =
  se_goos :: string
  se_configDir :: "go_error + string"
  se_idEnvs :: "id_env list"
  se_attempts :: "ble_attempt list"
  se_inhibitor :: "go_error + int"
  se_events :: "server_event list"

text \<open>The result, what was done, the files and the last session; the result is \<open>None\<close> while the server runs.\<close>

definition RunServer :: "ServerConfig \<Rightarrow> server_env \<Rightarrow> files \<Rightarrow> server_error option option \<times> server_effect list \<times> files \<times> serverRun" where
  "RunServer cfg env fs =
     (case loadOrCreateServerID (se_configDir env) (se_idEnvs env) (sc_ServerIDFile cfg) fs of
        (None, fs1) \<Rightarrow> (None, [], fs1, noSession)
      | (Some (Inl e), fs1) \<Rightarrow> (Some (Some (ServerIDError e)), [ConsoleCloses], fs1, noSession)
      | (Some (Inr (serverID, path)), fs1) \<Rightarrow>
          (case startBLEServer (se_goos env) (sc_DisableBLERecovery cfg) (se_attempts env) of
             (None, acts) \<Rightarrow> (None, map OnBLE acts, fs1, noSession)
           | (Some (Inl e), acts) \<Rightarrow> (Some (Some (StartError e)), map OnBLE acts @ [ConsoleCloses], fs1, noSession)
           | (Some (Inr listener), acts) \<Rightarrow>
               (case (if sc_PreventSleep cfg then map_sum id Some (se_inhibitor env) else Inr None) of
                  Inl e \<Rightarrow> (Some (Some (SleepError e)), map OnBLE acts @ [AcquiresSleep, ListenerCloses listener, ConsoleCloses], fs1, noSession)
                | Inr inhibitor \<Rightarrow>
                    let begun = map OnBLE acts @ (if sc_PreventSleep cfg then [AcquiresSleep] else []) in
                    (case serverLoop cfg (se_events env) noSession of
                       (None, eff, st) \<Rightarrow> (None, begun @ map OnServerLink eff, fs1, st)
                     | (Some r, eff, st) \<Rightarrow>
                         (case stopSessions st of
                            (eff', st') \<Rightarrow>
                              (Some (map_option AcceptError r),
                               begun @ map OnServerLink (eff @ eff') @ [StopsStats]
                                 @ (case inhibitor of Some h \<Rightarrow> [ReleasesSleep h] | None \<Rightarrow> []) @ [ListenerCloses listener, ConsoleCloses],
                               fs1, st'))))))"

section \<open>Lemmas\<close>

text \<open>Every connection that was accepted is closed or held by the session.\<close>

definition conns_held :: "PacketConn set \<Rightarrow> link_effect list \<Rightarrow> serverRun \<Rightarrow> bool" where
  "conns_held conns effs st \<longleftrightarrow> (\<forall>s. sv_link st = Some s \<longrightarrow> life s)
     \<and> (\<forall>conn \<in> conns. ConnClose conn \<in> set effs \<or> (\<exists>s. sv_link st = Some s \<and> heldConn s = Some conn))"

definition connsOf :: "server_event \<Rightarrow> PacketConn set" where
  "connsOf event = (case event of Accepts conn hello sendResult now counter pick \<Rightarrow> {conn} | _ \<Rightarrow> {})"

lemma holds_mono: "conns_held conns effs st \<Longrightarrow> set effs \<subseteq> set effs' \<Longrightarrow> conns_held conns effs' st"
  by (fastforce simp: conns_held_def)

lemma holds_closed: "conns_held conns effs st \<Longrightarrow> ConnClose conn \<in> set eff \<Longrightarrow> conns_held (insert conn conns) (effs @ eff) st"
  by (auto simp: conns_held_def)

lemma holds_keeps:
  assumes "conns_held conns effs st" and "sv_link st = Some s" and "keepsConn s eff s'" and "sv_link st' = Some s'"
  shows "conns_held conns (effs @ eff) st'"
  using assms unfolding conns_held_def keepsConn_def by auto

lemma holds_dropEnded: "conns_held conns effs st \<Longrightarrow> conns_held conns effs (dropEnded st)"
  by (auto simp: conns_held_def dropEnded_def life_def split: option.split)

lemma NewSession_life: "life (NewSessionWithID x c)" "heldConn (NewSessionWithID x c) = None"
  by (simp_all add: NewSessionWithID_def life_def heldConn_def)

lemma rejectConn_closes: "ConnClose conn \<in> set (rejectConn conn reason)"
  by (simp add: rejectConn_def)

lemma holds_turn:
  assumes h0: "conns_held conns effs st0" and run: "serverTurn cfg counter pick conn helloRead sendResult now st0 = (eff, st')"
  shows "conns_held (insert conn conns) (effs @ eff) st'"
proof (cases helloRead)
  case (Inl e)
  then show ?thesis using run holds_closed [OF h0, of conn eff] by (auto simp: serverTurn_def)
next
  case (Inr hello)
  define st where "st = dropEnded st0"
  have h: "conns_held conns effs st" unfolding st_def by (rule holds_dropEnded [OF h0])
  show ?thesis
  proof (cases "(case sv_link st of Some s \<Rightarrow> \<not> Matches s (hello_ID hello) | None \<Rightarrow> False) \<or> hello_Compression hello \<and> \<not> sc_Compression cfg")
    case True
    then obtain reason where "eff = rejectConn conn reason" "st' = st"
      using run Inr by (auto simp: serverTurn_def st_def [symmetric] split: if_splits)
    then show ?thesis using holds_closed [OF h rejectConn_closes] by simp
  next
    case False
    obtain created s m where f: "sessionFor cfg counter pick hello st = (created, s, m)" by (metis surj_pair)
    obtain e eff1 s1 where b: "BindServer conn hello sendResult now s = (e, eff1, s1)" by (metis surj_pair)
    note keep = keepsConn_BindServer [OF b]
    have run': "(eff, st') = (case e of
        Some x \<Rightarrow> if created then (eff1 @ rejectConn conn ''resume failed'' @ fst (Close s1), noSession)
                   else (eff1 @ rejectConn conn ''resume failed'', st\<lparr>sv_link := Some s1\<rparr>)
      | None \<Rightarrow> (eff1, \<lparr>sv_link = Some s1, sv_mux = m\<rparr>))"
      using run Inr False by (auto simp: serverTurn_def st_def [symmetric] f b noSession_def split: option.splits)
    show ?thesis
    proof (cases "sv_link st")
      case None
      then have s: "created" "life s" "heldConn s = None" using f NewSession_life by (auto simp: sessionFor_def)
      have old: "ConnClose c \<in> set effs" if "c \<in> conns" for c using h that None by (auto simp: conns_held_def)
      show ?thesis
      proof (cases e)
        case None
        then show ?thesis using run' keep(1,2) s(2) old by (auto simp: conns_held_def keepsConn_def)
      next
        case (Some x)
        then show ?thesis using run' s(1) old rejectConn_closes [of conn] by (auto simp: conns_held_def noSession_def)
      qed
    next
      case (Some s0)
      then have s: "\<not> created" "s = s0" using f by (auto simp: sessionFor_def)
      then have k: "conns_held conns (effs @ eff1) \<lparr>sv_link = Some s1, sv_mux = m'\<rparr>" for m' using holds_keeps [OF h Some, of eff1 s1] keep(1) by simp
      show ?thesis
      proof (cases e)
        case None
        then show ?thesis using run' k [of m] keep(2) by (auto simp: conns_held_def)
      next
        case (Some x)
        then have eq: "eff = eff1 @ rejectConn conn ''resume failed''" "st' = \<lparr>sv_link = Some s1, sv_mux = sv_mux st\<rparr>" using run' s(1) by auto
        show ?thesis using holds_closed [OF k rejectConn_closes [of conn]] unfolding eq by simp
      qed
    qed
  qed
qed

lemma holds_event:
  assumes "conns_held conns effs st" and "serverEvent cfg event st = (eff, st')"
  shows "conns_held (connsOf event \<union> conns) (effs @ eff) st'"
proof (cases event)
  case (LinkRuns call)
  show ?thesis
  proof (cases "sv_link st")
    case (Some s)
    then have "sv_link st' = Some (snd (linkCall call s))" "eff = fst (linkCall call s)" using assms(2) LinkRuns by (auto split: prod.splits)
    then show ?thesis using holds_keeps [OF assms(1) Some linkCall_keeps] LinkRuns by (simp add: connsOf_def)
  qed (use assms LinkRuns in \<open>simp add: connsOf_def\<close>)
next
  case MuxEnds
  have "sv_link st' = sv_link st \<and> eff = [] \<or> (\<exists>s. sv_link st = Some s \<and> sv_link st' = Some (snd (Close s)) \<and> eff = fst (Close s))"
    using assms(2) MuxEnds by (auto split: option.splits prod.splits if_splits)
  then show ?thesis
  proof
    assume "sv_link st' = sv_link st \<and> eff = []"
    then show ?thesis using assms(1) MuxEnds by (simp add: connsOf_def conns_held_def)
  next
    assume "\<exists>s. sv_link st = Some s \<and> sv_link st' = Some (snd (Close s)) \<and> eff = fst (Close s)"
    then show ?thesis using holds_keeps [OF assms(1) _ keepsConn_Close] MuxEnds by (auto simp: connsOf_def)
  qed
next
  case (MuxRuns m)
  then show ?thesis using assms by (auto simp: connsOf_def conns_held_def)
next
  case (Accepts conn hello sendResult now counter pick)
  then show ?thesis using assms holds_turn by (auto simp: connsOf_def)
qed (use assms in \<open>simp add: connsOf_def\<close>)

fun acceptedConns :: "server_event list \<Rightarrow> PacketConn set" where
  "acceptedConns [] = {}"
| "acceptedConns (AcceptFails e ended # rest) = {}"
| "acceptedConns (event # rest) = connsOf event \<union> acceptedConns rest"

lemma holds_loop:
  "conns_held conns effs st \<Longrightarrow> serverLoop cfg events st = (Some r, eff, st') \<Longrightarrow>
     conns_held (conns \<union> acceptedConns events) (effs @ eff) st' \<and> (r = None \<longrightarrow> (\<exists>e. AcceptFails e True \<in> set events))"
proof (induction events arbitrary: conns effs st eff)
  case (Cons event rest)
  show ?case
  proof (cases "\<exists>e ended. event = AcceptFails e ended")
    case True
    then show ?thesis using Cons.prems by (auto split: if_splits)
  next
    case False
    obtain eff1 st1 where e: "serverEvent cfg event st = (eff1, st1)" by fastforce
    obtain r2 eff2 st2 where l: "serverLoop cfg rest st1 = (r2, eff2, st2)" by (metis surj_pair)
    have step: "serverLoop cfg (event # rest) st = (r2, eff1 @ eff2, st2)" "acceptedConns (event # rest) = connsOf event \<union> acceptedConns rest"
      using False e l by (cases event; auto)+
    then have eq: "r2 = Some r" "eff = eff1 @ eff2" "st2 = st'" using Cons.prems(2) by simp_all
    have "conns_held (connsOf event \<union> conns) (effs @ eff1) st1" by (rule holds_event [OF Cons.prems(1) e])
    from Cons.IH [OF this] l have "conns_held (connsOf event \<union> conns \<union> acceptedConns rest) ((effs @ eff1) @ eff2) st' \<and>
        (r = None \<longrightarrow> (\<exists>e. AcceptFails e True \<in> set rest))" unfolding eq by blast
    then show ?thesis unfolding step(2) eq(2) by (auto simp: Un_ac)
  qed
qed simp

lemma serverLoop_returns: "AcceptFails e ended \<in> set events \<Longrightarrow> fst (serverLoop cfg events st) \<noteq> None"
proof (induction events arbitrary: st)
  case (Cons event rest)
  show ?case
  proof (cases "\<exists>e ended. event = AcceptFails e ended")
    case False
    then have "AcceptFails e ended \<in> set rest" using Cons.prems by auto
    from Cons.IH [OF this] False show ?thesis by (cases event) (auto split: prod.split simp: prod_eq_iff)
  qed auto
qed simp

lemma Close_ends:
  assumes "life s"
  shows "s_done (snd (Close s))" "life (snd (Close s))" "heldConn (snd (Close s)) = None" "heldConn s = Some conn \<Longrightarrow> ConnClose conn \<in> set (fst (Close s))"
  using assms by (auto simp: Close_def closeWithError_def Let_def life_def heldConn_def signalLocked_def split: option.splits)

lemma stop_ends:
  assumes h: "conns_held conns effs st" and run: "stopSessions st = (eff, st')"
  shows "\<forall>conn \<in> conns. ConnClose conn \<in> set (effs @ eff)" "\<forall>s. sv_link st' = Some s \<longrightarrow> s_done s" "\<forall>m. sv_mux st' = Some m \<longrightarrow> m_done m"
proof -
  show "\<forall>m. sv_mux st' = Some m \<longrightarrow> m_done m" using run by (auto simp: stopSessions_def Mux_Close_def split: option.splits prod.splits)
  have "(\<forall>conn \<in> conns. ConnClose conn \<in> set (effs @ eff)) \<and> (\<forall>s. sv_link st' = Some s \<longrightarrow> s_done s)"
  proof (cases "sv_link st")
    case None
    then show ?thesis using h run by (auto simp: stopSessions_def conns_held_def)
  next
    case (Some s)
    then have s: "life s" using h by (simp add: conns_held_def)
    obtain eff1 s1 where first: "(case sv_mux st of Some m \<Rightarrow> if m_done m then ([], s) else Close s | None \<Rightarrow> ([], s)) = (eff1, s1)" by fastforce
    then have "(eff1, s1) = ([], s) \<or> (eff1, s1) = Close s" by (auto split: option.splits if_splits)
    then have s1: "life s1" "heldConn s = Some c \<Longrightarrow> ConnClose c \<in> set eff1 \<or> heldConn s1 = Some c" for c
      using s Close_ends [OF s] by (auto simp: prod_eq_iff)
    have "eff = eff1 @ fst (Close s1)" "sv_link st' = Some (snd (Close s1))"
      using run Some first by (auto simp: stopSessions_def split: prod.splits)
    then show ?thesis using h Some s1(2) Close_ends [OF s1(1)] by (fastforce simp: conns_held_def)
  qed
  then show "\<forall>conn \<in> conns. ConnClose conn \<in> set (effs @ eff)" "\<forall>s. sv_link st' = Some s \<longrightarrow> s_done s" by blast+
qed

text \<open>What must come after what when the server stops.\<close>

fun stopRank :: "server_effect \<Rightarrow> nat" where
  "stopRank (OnBLE action) = 0"
| "stopRank AcquiresSleep = 1"
| "stopRank (OnServerLink eff) = 2"
| "stopRank StopsStats = 3"
| "stopRank (ReleasesSleep h) = 4"
| "stopRank (ListenerCloses l) = 5"
| "stopRank ConsoleCloses = 6"

definition occurs :: "server_effect \<Rightarrow> server_effect list \<Rightarrow> nat" where
  "occurs e effs = length (filter (\<lambda>x. x = e) effs)"

lemma occurs_simps [simp]:
  "occurs e [] = 0" "occurs e (x # xs) = (if x = e then Suc (occurs e xs) else occurs e xs)" "occurs e (xs @ ys) = occurs e xs + occurs e ys"
  by (simp_all add: occurs_def)

lemma occurs_map: "e \<notin> range f \<Longrightarrow> occurs e (map f xs) = 0"
  by (induction xs) auto

lemma occurs_effects [simp]:
  "occurs ConsoleCloses (map OnBLE acts) = 0" "occurs ConsoleCloses (map OnServerLink eff) = 0" "occurs (ListenerCloses l) (map OnBLE acts) = 0"
  "occurs (ListenerCloses l) (map OnServerLink eff) = 0" "occurs (ReleasesSleep h) (map OnBLE acts) = 0" "occurs (ReleasesSleep h) (map OnServerLink eff) = 0"
  by (auto intro!: occurs_map)

lemma sorted_ranks: "sorted (map (stopRank \<circ> OnBLE) acts)" "sorted (map (stopRank \<circ> OnServerLink) eff)"
  by (simp_all add: comp_def sorted_iff_nth_mono)

lemma startBLE_tried: "startBLE goos disabled n radio services err outs = (Some (Inr l), acts) \<Longrightarrow> TryStart \<in> set acts"
  by (cases outs) (auto simp: Let_def split: if_splits sum.splits option.splits prod.splits)

text \<open>The ways a run can go.\<close>

lemma RunServer_cases:
  assumes "RunServer cfg env fs = (result, effs, fs', st)"
  obtains (no_id) e where "result = Some (Some (ServerIDError e))" "effs = [ConsoleCloses]" "st = noSession"
  | (no_start) e acts where "startBLEServer (se_goos env) (sc_DisableBLERecovery cfg) (se_attempts env) = (Some (Inl e), acts)"
      "result = Some (Some (StartError e))" "effs = map OnBLE acts @ [ConsoleCloses]" "st = noSession"
  | (no_sleep) e acts l where "startBLEServer (se_goos env) (sc_DisableBLERecovery cfg) (se_attempts env) = (Some (Inr l), acts)"
      "se_inhibitor env = Inl e" "result = Some (Some (SleepError e))" "effs = map OnBLE acts @ [AcquiresSleep, ListenerCloses l, ConsoleCloses]" "st = noSession"
  | (served) acts l r eff st1 eff' where "startBLEServer (se_goos env) (sc_DisableBLERecovery cfg) (se_attempts env) = (Some (Inr l), acts)"
      "serverLoop cfg (se_events env) noSession = (Some r, eff, st1)" "stopSessions st1 = (eff', st)" "result = Some (map_option AcceptError r)"
      "\<not> sc_PreventSleep cfg \<and> effs = map OnBLE acts @ map OnServerLink (eff @ eff') @ [StopsStats, ListenerCloses l, ConsoleCloses]
       \<or> (\<exists>h. se_inhibitor env = Inr h
             \<and> effs = map OnBLE acts @ [AcquiresSleep] @ map OnServerLink (eff @ eff') @ [StopsStats, ReleasesSleep h, ListenerCloses l, ConsoleCloses])"
  | (running) "result = None"
      "fst (loadOrCreateServerID (se_configDir env) (se_idEnvs env) (sc_ServerIDFile cfg) fs) = None
       \<or> fst (startBLEServer (se_goos env) (sc_DisableBLERecovery cfg) (se_attempts env)) = None \<or> fst (serverLoop cfg (se_events env) noSession) = None"
proof -
  obtain idr fs1 where i: "loadOrCreateServerID (se_configDir env) (se_idEnvs env) (sc_ServerIDFile cfg) fs = (idr, fs1)" by fastforce
  obtain sr acts where s: "startBLEServer (se_goos env) (sc_DisableBLERecovery cfg) (se_attempts env) = (sr, acts)" by fastforce
  obtain lr eff st1 where l: "serverLoop cfg (se_events env) noSession = (lr, eff, st1)" by (metis surj_pair)
  obtain eff' st2 where e: "stopSessions st1 = (eff', st2)" by fastforce
  consider "idr = None" | x where "idr = Some (Inl x)" | y where "idr = Some (Inr y)" "sr = None" | y x where "idr = Some (Inr y)" "sr = Some (Inl x)"
    | y p where "idr = Some (Inr y)" "sr = Some (Inr p)" by (metis option.exhaust sumE)
  then show thesis
  proof cases
    case 1
    then show thesis using assms i running by (simp add: RunServer_def)
  next
    case (2 x)
    then show thesis using assms i no_id [of x] by (simp add: RunServer_def)
  next
    case (3 y)
    then show thesis using assms i s running by (simp add: RunServer_def split: prod.splits)
  next
    case (4 y x)
    then show thesis using assms i s no_start [of x acts] by (simp add: RunServer_def split: prod.splits)
  next
    case (5 y p)
    note parts = assms i s l e 5
    show thesis
    proof (cases "sc_PreventSleep cfg \<and> (\<exists>x. se_inhibitor env = Inl x)")
      case True
      then show thesis using parts no_sleep [of p acts] by (auto simp: RunServer_def Let_def split: prod.splits)
    next
      case False
      show thesis
      proof (cases lr)
        case None
        then show thesis using parts False running by (cases "se_inhibitor env") (auto simp: RunServer_def Let_def split: prod.splits if_splits)
      next
        case (Some r)
        have "(result, effs, st) = (Some (map_option AcceptError r),
            map OnBLE acts @ (if sc_PreventSleep cfg then [AcquiresSleep] else []) @ map OnServerLink (eff @ eff') @ [StopsStats]
              @ (if sc_PreventSleep cfg then [ReleasesSleep (projr (se_inhibitor env))] else []) @ [ListenerCloses p, ConsoleCloses], st2)"
          using parts False Some by (cases "se_inhibitor env") (auto simp: RunServer_def Let_def split: prod.splits if_splits)
        then show thesis using served [of p acts r eff st1 eff'] s l e 5 Some False by (cases "se_inhibitor env") (auto split: if_splits)
      qed
    qed
  qed
qed

section \<open>Properties\<close>

text \<open>
  C20: the server stops clean. Whatever happens, when \<open>RunServer\<close> returns it has released what it took, in the reverse order, on every path: the
  connections and sessions first, then the reporter, the sleep inhibitor, the Bluetooth listener and the console; the console is closed once, the
  listener once if the Bluetooth server started, the inhibitor once if it was acquired; every connection that was accepted has been closed, and link session and
  multiplexer have ended. It returns without an error only if the context has ended, and it does return once \<open>Accept\<close> fails.
\<close>

theorem server_stops_clean:
  assumes "RunServer cfg env fs = (result, effs, fs', st)"
  shows "(result \<noteq> None \<longrightarrow>
        sorted (map stopRank effs) \<and> occurs ConsoleCloses effs = 1
        \<and> (\<forall>l. occurs (ListenerCloses l) effs =
              (if OnBLE TryStart \<in> set effs \<and> fst (startBLEServer (se_goos env) (sc_DisableBLERecovery cfg) (se_attempts env)) = Some (Inr l) then 1 else 0))
        \<and> (\<forall>h. occurs (ReleasesSleep h) effs = (if AcquiresSleep \<in> set effs \<and> se_inhibitor env = Inr h then 1 else 0))
        \<and> (StopsStats \<in> set effs \<longrightarrow> (\<forall>conn \<in> acceptedConns (se_events env). OnServerLink (ConnClose conn) \<in> set effs))
        \<and> (\<forall>s. sv_link st = Some s \<longrightarrow> s_done s) \<and> (\<forall>m. sv_mux st = Some m \<longrightarrow> m_done m))
     \<and> (result = Some None \<longrightarrow> (\<exists>e. AcceptFails e True \<in> set (se_events env)))
     \<and> (fst (loadOrCreateServerID (se_configDir env) (se_idEnvs env) (sc_ServerIDFile cfg) fs) \<noteq> None \<and> 4 \<le> length (se_attempts env)
          \<and> (\<exists>e ended. AcceptFails e ended \<in> set (se_events env)) \<longrightarrow> result \<noteq> None)"
  using assms
proof (cases rule: RunServer_cases)
  case (no_start e acts)
  then show ?thesis by (auto simp: noSession_def sorted_append sorted_ranks)
next
  case (no_sleep e acts l)
  then have "TryStart \<in> set acts" using startBLE_tried by (auto simp: startBLEServer_def)
  then show ?thesis using no_sleep by (auto simp: noSession_def sorted_append sorted_ranks)
next
  case (served acts l r eff st1 eff')
  have "conns_held {} [] noSession" by (simp add: conns_held_def noSession_def)
  from holds_loop [OF this served(2)] have h: "conns_held (acceptedConns (se_events env)) eff st1" "r = None \<longrightarrow> (\<exists>e. AcceptFails e True \<in> set (se_events env))" by simp_all
  note ends = stop_ends [OF h(1) served(3)]
  have "TryStart \<in> set acts" using served(1) startBLE_tried by (auto simp: startBLEServer_def)
  then show ?thesis using served ends h(2) by (auto simp: sorted_append sorted_ranks)
next
  case running
  have "fst (serverLoop cfg (se_events env) noSession) \<noteq> None" if "AcceptFails e ended \<in> set (se_events env)" for e ended
    using serverLoop_returns [OF that] .
  moreover have "fst (startBLEServer (se_goos env) (sc_DisableBLERecovery cfg) (se_attempts env)) \<noteq> None" if "4 \<le> length (se_attempts env)"
    using startBLE_returns [of 1 "se_attempts env"] that by (simp add: startBLEServer_def startAttempts_def)
  ultimately show ?thesis using running by auto
qed (simp add: noSession_def)

text \<open>A server that keeps the system awake, takes one client and is told to stop.\<close>

definition sample_attempt :: ble_attempt where
  "sample_attempt = \<lparr>at_start = Inr 7, at_aborted = False, at_ctx = None, at_radio = None, at_services = None, at_ctx2 = None, at_wait = None\<rparr>"

definition sample_env :: server_env where
  "sample_env = \<lparr>se_goos = ''linux'', se_configDir = Inr ''d'', se_idEnvs = [demo_env], se_attempts = replicate 4 sample_attempt, se_inhibitor = acquireSleepInhibitor_linux None True (Inr 3) True,
     se_events = [Accepts demo_conn (Inr demo_hello) None 5 zeroCounter (\<lambda>_. False), AcceptFails (Sentinel ContextCanceled) True]\<rparr>"

theorem server_stops_clean_witness:
  "\<exists>effs fs' st. RunServer sample_server sample_env Map.empty = (Some None, effs, fs', st) \<and> OnServerLink (ConnClose demo_conn) \<in> set effs
     \<and> occurs (ReleasesSleep 3) effs = 1 \<and> occurs (ListenerCloses 7) effs = 1"
proof -
  obtain sid fs1 where i: "loadOrCreateServerID (Inr ''d'') [demo_env] ''id'' Map.empty = (Some (Inr (sid, ''id'')), fs1)"
    by (simp add: loadOrCreateServerID_def demo_env_def NewServerID_def)
  have b: "startBLEServer ''linux'' False (replicate 4 sample_attempt) = (Some (Inr 7), [TryStart])"
    by (simp add: startBLEServer_def sample_attempt_def startAttempts_def numeral_eq_Suc)
  obtain eff st1 where "serverTurn sample_server (Some zeroCounter) (\<lambda>_. False) demo_conn (Inr demo_hello) None 5 noSession = (eff, st1)" by fastforce
  then have l: "serverLoop sample_server (se_events sample_env) noSession = (Some None, eff, st1)" by (simp add: sample_env_def)
  obtain eff' st2 where s: "stopSessions st1 = (eff', st2)" by fastforce
  obtain effs where run: "RunServer sample_server sample_env Map.empty = (Some None, effs, fs1, st2)"
    and e: "StopsStats \<in> set effs" "AcquiresSleep \<in> set effs" "OnBLE TryStart \<in> set effs"
    using i b l s by (simp add: RunServer_def sample_server_def sample_env_def acquireSleepInhibitor_linux_def)
  from server_stops_clean [OF run] e have "\<forall>conn \<in> acceptedConns (se_events sample_env). OnServerLink (ConnClose conn) \<in> set effs"
    "\<forall>h. occurs (ReleasesSleep h) effs = (if se_inhibitor sample_env = Inr h then 1 else 0)"
    "\<forall>l. occurs (ListenerCloses l) effs = (if fst (startBLEServer (se_goos sample_env) (sc_DisableBLERecovery sample_server) (se_attempts sample_env)) = Some (Inr l) then 1 else 0)"
    by simp_all
  then have "OnServerLink (ConnClose demo_conn) \<in> set effs" "occurs (ReleasesSleep 3) effs = 1" "occurs (ListenerCloses 7) effs = 1"
    using b by (simp_all add: sample_env_def sample_server_def connsOf_def acquireSleepInhibitor_linux_def)
  then show ?thesis using run by blast
qed

end
