(* ===== verification/Client_Run.thy ===== *)
theory Client_Run
  imports Client_App Link_Calls
begin

text \<open>
  \<open>RunClient\<close> of \<open>internal/app/client.go\<close> from its start to its end: the checks, the listeners, the choice of a server, the sessions that its two loops go through while
  their goroutines run, and the deferred calls. It composes the definitions of \<open>Client_App\<close> with the calls of \<open>Link_Calls\<close>.
\<close>

section \<open>The whole run\<close>

text \<open>What the start of a session meets: whether the context has ended, the random identifier, the shared counter at that time.\<close>

record fresh_meets =
  fm_ctxDone :: bool
  fm_random :: "go_error + SessionID"
  fm_counter :: "Counter option"
  fm_pick :: "nat \<Rightarrow> bool"

text \<open>A turn of the inner loop, with what the next session meets if the turn asks for one; or a step of the session or of the multiplexer meanwhile.\<close>

datatype client_event = TurnMeets client_turn fresh_meets | LinkMoves link_call | MuxMoves Mux

definition closeListeners :: "clientRun \<Rightarrow> client_effect list" where
  "closeListeners st = map ListenerClose (ls_all (cr_listeners st))"

text \<open>\<open>None\<close> when the events given run out, or end within a handshake.\<close>

fun clientLoop :: "ClientConfig \<Rightarrow> client_error option \<Rightarrow> client_event list \<Rightarrow> clientRun \<Rightarrow> client_error option option \<times> client_effect list \<times> clientRun" where
  "clientLoop cfg bridgeErr [] st = (None, [], st)"
| "clientLoop cfg bridgeErr (LinkMoves call # rest) st =
     (case linkCall call (cr_linkSession st) of
        (eff, s) \<Rightarrow> (case clientLoop cfg bridgeErr rest (st\<lparr>cr_linkSession := s\<rparr>) of (r, eff', st') \<Rightarrow> (r, map OnLink eff @ eff', st')))"
| "clientLoop cfg bridgeErr (MuxMoves m # rest) st = clientLoop cfg bridgeErr rest (st\<lparr>cr_muxSession := m\<rparr>)"
| "clientLoop cfg bridgeErr (TurnMeets t f # rest) st =
     (case clientTurn cfg t st of
        (InHandshake, eff, st1) \<Rightarrow> (None, eff, st1)
      | (LeaveLoop, eff, st1) \<Rightarrow> (Some bridgeErr, eff, st1)
      | (Return r, eff, st1) \<Rightarrow> (Some r, eff, st1)
      | (NextTurn, eff, st1) \<Rightarrow> (case clientLoop cfg bridgeErr rest st1 of (r, eff', st') \<Rightarrow> (r, eff @ eff', st'))
      | (NextSession, eff, st1) \<Rightarrow>
          if fm_ctxDone f then (Some bridgeErr, eff @ closeListeners st1, st1)
          else case NewSession (fm_random f) (clientSessionConfig cfg) of
                 Inl e \<Rightarrow> (Some (Some (ClientFailed e)), eff @ closeListeners st1, st1)
               | Inr s \<Rightarrow>
                   (case clientLoop cfg bridgeErr rest (st1\<lparr>cr_linkSession := s, cr_muxSession := clientMux cfg (fm_counter f) (fm_pick f)\<rparr>) of
                      (r, eff', st') \<Rightarrow> (r, eff @ eff', st')))"

datatype run_effect = OnClient client_effect | EndsConsole

record client_env =
  ce_listen :: "(go_error + nat) list"
  ce_chosen :: "go_error + Device"
  ce_first :: fresh_meets
  ce_events :: "client_event list"
  ce_bridgeErr :: "client_error option"

definition RunClient :: "ClientConfig \<Rightarrow> client_env \<Rightarrow> client_error option option \<times> run_effect list \<times> clientRun option" where
  "RunClient cfg env =
     (case clientChecks cfg of
        Some e \<Rightarrow> (Some (Some e), [EndsConsole], None)
      | None \<Rightarrow>
          (case clientListen cfg (ce_listen env) of
             Inl (e, ls) \<Rightarrow> (Some (Some e), map (\<lambda>n. OnClient (ListenerClose n)) ls @ [EndsConsole], None)
           | Inr l \<Rightarrow>
               let closing = map (\<lambda>n. OnClient (ListenerClose n)) (ls_all l) @ [EndsConsole] in
               (case clientDevice cfg (ce_chosen env) of
                  Inl e \<Rightarrow> (Some (Some e), closing, None)
                | Inr (deviceID, selected) \<Rightarrow>
                    if fm_ctxDone (ce_first env) then (Some (ce_bridgeErr env), closing, None)
                    else
                      (case NewSession (fm_random (ce_first env)) (clientSessionConfig cfg) of
                         Inl e \<Rightarrow> (Some (Some (ClientFailed e)), closing, None)
                       | Inr s \<Rightarrow>
                           (case clientLoop cfg (ce_bridgeErr env) (ce_events env)
                                   (cw_run (clientBegin cfg l deviceID selected s (fm_counter (ce_first env)) (fm_pick (ce_first env)))) of
                              (r, eff, st) \<Rightarrow> (r, map OnClient eff @ (if r = None then [] else [EndsConsole]), Some st))))))"

section \<open>Lemmas\<close>

lemma keepsConn_BindClient:
  assumes "BindClient (Some conn) es now s = Some (e, eff, s')"
  shows "keepsConn s eff s'"
proof (cases "\<exists>cfg reply. bindClientReply cfg conn reply now s = (e, eff, s')")
  case False
  then show ?thesis using assms by (auto simp: BindClient_def keepsConn_vital split: sum.splits option.splits)
next
  case True
  then obtain cfg reply where r: "bindClientReply cfg conn reply now s = (e, eff, s')" by blast
  obtain expected peer mtu where reply: "reply = (expected, peer, mtu)" by (cases reply)
  obtain x s1 where rp: "reconcilePeerLocked expected s = (x, s1)" by fastforce
  note v = vital_reconcile [OF rp]
  consider "vital s' = vital s" | (bound) m where "attach conn m now (negotiateLocked peer s1) = (e, eff, s')"
    using r v by (auto simp: bindClientReply_def reply rp split: if_splits option.splits)
  then show ?thesis
  proof cases
    case bound
    have "vital (negotiateLocked peer s1) = vital s" using v by simp
    then show ?thesis using bound
      by (auto simp: attach_def Let_def keepsConn_def life_def vital_def heldConn_def signalLocked_def split: if_splits option.splits)
  qed (rule keepsConn_vital)
qed

lemma NewSession_begins: "NewSession random cfg = Inr s \<Longrightarrow> life s \<and> heldConn s = None"
  by (auto simp: NewSession_def NewSessionWithID_def life_def heldConn_def split: sum.splits)

lemma life_live: "life s \<Longrightarrow> live_ok s"
  by (simp add: life_def live_ok_def)

lemma life_done: "life s \<Longrightarrow> s_done s \<Longrightarrow> heldConn s = None"
  by (simp add: life_def)

text \<open>The listeners of a turn are still there after it.\<close>

lemma openListeners_mono: "openListeners rs l = (e, l') \<Longrightarrow> set (ls_all l) \<subseteq> set (ls_all l')"
  by (induction rs l rule: openListeners.induct) (auto simp: addListener_def)

lemma startAllServices_mono: "startAllServices cfg t st = (e, st') \<Longrightarrow> set (ls_all (cr_listeners st)) \<subseteq> set (ls_all (cr_listeners st'))"
  by (auto simp: startAllServices_def dest!: openListeners_mono split: if_splits sum.splits prod.splits option.splits)

definition listensStill :: "clientRun \<Rightarrow> clientRun \<Rightarrow> bool" where
  "listensStill st st' \<longleftrightarrow> set (ls_all (cr_listeners st)) \<subseteq> set (ls_all (cr_listeners st'))"

text \<open>A turn of the client keeps the connection of its session, or closes it.\<close>

definition turn_keeps :: "clientRun \<Rightarrow> client_effect list \<Rightarrow> clientRun \<Rightarrow> bool" where
  "turn_keeps st eff st' \<longleftrightarrow> (life (cr_linkSession st) \<longrightarrow> life (cr_linkSession st')
       \<and> (\<forall>conn. heldConn (cr_linkSession st) = Some conn \<longrightarrow> heldConn (cr_linkSession st') = Some conn \<or> OnLink (ConnClose conn) \<in> set eff))
     \<and> listensStill st st'"

lemma turn_keepsI:
  assumes "keepsConn (cr_linkSession st) eff1 (cr_linkSession st')" and "OnLink ` set eff1 \<subseteq> set eff" and "listensStill st st'"
  shows "turn_keeps st eff st'"
  using assms by (auto simp: turn_keeps_def keepsConn_def)

lemma keeps_closeSessions: "closeSessions st = (eff, st') \<Longrightarrow> keepsConn (cr_linkSession st) (fst (Close (cr_linkSession st))) (cr_linkSession st')
     \<and> eff = map OnLink (fst (Close (cr_linkSession st))) \<and> cr_listeners st' = cr_listeners st"
  using keepsConn_Close [of "cr_linkSession st"] by (auto simp: closeSessions_def split: prod.splits)

lemma keeps_leave: "leave r eff st = (r', eff', st') \<Longrightarrow> turn_keeps st eff' st' \<and> set eff \<subseteq> set eff'"
  by (auto simp: leave_def listensStill_def dest!: keeps_closeSessions intro!: turn_keepsI split: prod.splits)

lemma turn_keeps_same: "cr_linkSession st' = cr_linkSession st \<Longrightarrow> cr_listeners st' = cr_listeners st \<Longrightarrow> turn_keeps st eff st'"
  by (simp add: turn_keeps_def listensStill_def)

lemma turn_keeps_after:
  assumes "turn_keeps st1 eff2 st'" and "keepsConn (cr_linkSession st) eff1 (cr_linkSession st1)" and "listensStill st st1"
    and "OnLink ` set eff1 \<subseteq> set eff" and "set eff2 \<subseteq> set eff"
  shows "turn_keeps st eff st'"
  using assms by (fastforce simp: turn_keeps_def keepsConn_def listensStill_def)

lemma keeps_connectFailed:
  assumes "connectFailed t e eff st = (r, eff', st')"
  shows "turn_keeps st eff' st' \<and> set eff \<subseteq> set eff'"
proof (cases "RejectionReason e = ''resume failed''")
  case True
  then show ?thesis using assms by (auto simp: connectFailed_def listensStill_def dest!: keeps_closeSessions intro!: turn_keepsI split: prod.splits)
next
  case False
  then show ?thesis using assms keeps_leave [of LeaveLoop eff st] by (auto simp: connectFailed_def turn_keeps_same split: if_splits)
qed

lemma keeps_connectTurn:
  assumes "connectTurn cfg t device st = (r, eff, st')"
  shows "turn_keeps st eff st'"
proof (cases "ti_connect t")
  case (Inl e)
  then have "connectFailed t e [] (learnID (dev_ServerID device) st) = (r, eff, st')" using assms by (simp add: connectTurn_def)
  then have "turn_keeps (learnID (dev_ServerID device) st) eff st'" using keeps_connectFailed by blast
  then show ?thesis by (simp add: turn_keeps_def listensStill_def)
next
  case (Inr c)
  obtain conn sid where c: "ti_connect t = Inr (conn, sid)" using Inr by (cases c) auto
  define st0 where "st0 = learnID sid (learnID (dev_ServerID device) st)"
  have st0: "cr_linkSession st0 = cr_linkSession st" "cr_listeners st0 = cr_listeners st" by (simp_all add: st0_def)
  show ?thesis
  proof (cases "BindClient (Some conn) (ti_handshake t) (ti_now t) (cr_linkSession st)")
    case None
    then show ?thesis using assms c by (auto simp: connectTurn_def turn_keeps_same)
  next
    case (Some b)
    obtain e eff1 s where b: "BindClient (Some conn) (ti_handshake t) (ti_now t) (cr_linkSession st) = Some (e, eff1, s)"
      using Some by (cases b) auto
    note k = keepsConn_BindClient [OF b]
    show ?thesis
    proof (cases e)
      case (Some x)
      define st1 where "st1 = st0\<lparr>cr_linkSession := s\<rparr>"
      have "connectFailed t x (Connected conn # map OnLink eff1 @ [OnLink (ConnClose conn)]) st1 = (r, eff, st')"
        using assms c b Some by (simp add: connectTurn_def st1_def st0_def)
      from keeps_connectFailed [OF this] show ?thesis using k st0
        by (intro turn_keeps_after [of st1 eff st' st eff1]) (auto simp: st1_def listensStill_def)
    next
      case None
      define st1 where "st1 = st0\<lparr>cr_linkSession := s, cr_lastDevice := Some device\<rparr>"
      obtain err st2 where all: "startAllServices cfg t st1 = (err, st2)" by fastforce
      have st2: "keepsConn (cr_linkSession st) eff1 (cr_linkSession st2)" "listensStill st st2"
        using startAllServices_frame [OF all] startAllServices_mono [OF all] k st0 by (simp_all add: st1_def listensStill_def)
      have run: "(r, eff, st') = (case err of
          Some e \<Rightarrow> leave (Return (Some e)) (Connected conn # map OnLink eff1) st2
        | None \<Rightarrow> (NextTurn, Connected conn # map OnLink eff1, startBenchmark cfg st2))"
        using assms c b None all by (simp add: connectTurn_def st1_def st0_def)
      show ?thesis
      proof (cases err)
        case None
        then show ?thesis using run st2 by (intro turn_keepsI [of st eff1 st' eff]) (auto simp: listensStill_def startBenchmark_def split: if_splits)
      next
        case (Some x)
        then have "leave (Return (Some x)) (Connected conn # map OnLink eff1) st2 = (r, eff, st')" using run by simp
        from keeps_leave [OF this] show ?thesis using st2 by (intro turn_keeps_after [of st2 eff st' st eff1]) auto
      qed
    qed
  qed
qed

lemma nextDevice_listeners: "nextDevice t st = (d, st') \<Longrightarrow> cr_listeners st' = cr_listeners st"
  by (auto simp: nextDevice_def split: option.splits)

lemma keeps_clientTurn:
  assumes "clientTurn cfg t st = (r, eff, st')"
  shows "turn_keeps st eff st'"
proof (cases "ti_ctxDone t \<or> benchmarkEnded t st \<or> s_done (cr_linkSession st) \<or> IsBound (cr_linkSession st)")
  case True
  then consider (left) x where "leave x [] st = (r, eff, st')" | (same) "cr_linkSession st' = cr_linkSession st" "cr_listeners st' = cr_listeners st"
    using assms by (auto simp: clientTurn_def Let_def split: if_splits)
  then show ?thesis
  proof cases
    case left
    then show ?thesis using keeps_leave by blast
  qed (rule turn_keeps_same)
next
  case False
  obtain d st1 where n: "nextDevice t st = (d, st1)" by fastforce
  have st1: "cr_linkSession st1 = cr_linkSession st" "cr_listeners st1 = cr_listeners st" using nextDevice_frame [OF n] nextDevice_listeners [OF n] by simp_all
  have "turn_keeps st1 eff st'"
  proof (cases d)
    case (Inl e)
    then have "leave LeaveLoop [] st1 = (r, eff, st') \<or> st' = st1" using assms False n by (auto simp: clientTurn_def split: if_splits)
    then show ?thesis using keeps_leave turn_keeps_same by blast
  next
    case (Inr device)
    then have "connectTurn cfg t device st1 = (r, eff, st')" using assms False n by (simp add: clientTurn_def)
    then show ?thesis by (rule keeps_connectTurn)
  qed
  then show ?thesis using st1 by (simp add: turn_keeps_def listensStill_def)
qed

text \<open>Every connection the client got is closed or held by its session.\<close>

definition accounts :: "client_effect list \<Rightarrow> clientRun \<Rightarrow> bool" where
  "accounts effs st \<longleftrightarrow> life (cr_linkSession st)
     \<and> (\<forall>conn. Connected conn \<in> set effs \<longrightarrow> OnLink (ConnClose conn) \<in> set effs \<or> heldConn (cr_linkSession st) = Some conn)"

definition settled :: "client_effect list \<Rightarrow> clientRun \<Rightarrow> bool" where
  "settled effs st \<longleftrightarrow> (\<forall>conn. Connected conn \<in> set effs \<longrightarrow> OnLink (ConnClose conn) \<in> set effs)
     \<and> s_done (cr_linkSession st) \<and> m_done (cr_muxSession st) \<and> ListenerClose ` set (ls_all (cr_listeners st)) \<subseteq> set effs"

lemma accounts_link:
  assumes "accounts effs st" and "linkCall call (cr_linkSession st) = (eff, s)"
  shows "accounts (effs @ map OnLink eff) (st\<lparr>cr_linkSession := s\<rparr>)"
  using assms linkCall_keeps [of "cr_linkSession st" call] by (fastforce simp: accounts_def keepsConn_def)

lemma accounts_turn:
  assumes a: "accounts effs st" and run: "clientTurn cfg t st = (r, eff, st')" and r: "r \<noteq> InHandshake"
  shows "accounts (effs @ eff) st'" and "listensStill st st'"
    and "r \<noteq> NextTurn \<Longrightarrow> s_done (cr_linkSession st') \<and> m_done (cr_muxSession st')"
    and "r = LeaveLoop \<or> (\<exists>x. r = Return x) \<Longrightarrow> settled (effs @ eff) st'"
proof -
  have l: "life (cr_linkSession st)" using a by (simp add: accounts_def)
  note k = keeps_clientTurn [OF run, unfolded turn_keeps_def]
  then show "listensStill st st'" by simp
  have "OnLink (ConnClose conn) \<in> set eff \<or> heldConn (cr_linkSession st') = Some conn" if "Connected conn \<in> set eff" for conn
    using clientTurn_kept [OF run] that r by (auto simp: conn_kept_def bound_to_def heldConn_def)
  then show acc: "accounts (effs @ eff) st'" using a k l by (fastforce simp: accounts_def)
  show ends: "s_done (cr_linkSession st') \<and> m_done (cr_muxSession st')" if "r \<noteq> NextTurn"
    using clientTurn_ok [OF run life_live [OF l]] r that by (auto simp: turn_ok_def)
  show "settled (effs @ eff) st'" if "r = LeaveLoop \<or> (\<exists>x. r = Return x)"
  proof -
    have d: "s_done (cr_linkSession st')" "m_done (cr_muxSession st')" using ends that by auto
    have "heldConn (cr_linkSession st') = None" using acc d(1) by (simp add: accounts_def life_done)
    moreover have "ListenerClose ` set (ls_all (cr_listeners st')) \<subseteq> set eff" using clientTurn_listeners [OF run] that by blast
    ultimately show ?thesis using acc d by (auto simp: accounts_def settled_def)
  qed
qed

lemma settled_close:
  assumes "accounts effs st" and "s_done (cr_linkSession st)" and "m_done (cr_muxSession st)"
  shows "settled (effs @ closeListeners st) st"
  using assms life_done [of "cr_linkSession st"] by (auto simp: accounts_def settled_def closeListeners_def)

lemma accounts_fresh:
  assumes "accounts effs st" and "s_done (cr_linkSession st)" and "NewSession random cfg = Inr s"
  shows "accounts effs (st\<lparr>cr_linkSession := s, cr_muxSession := m\<rparr>)"
  using assms life_done [of "cr_linkSession st"] NewSession_begins [of random cfg s] by (auto simp: accounts_def)

lemma clientLoop_settles:
  "accounts effs st \<Longrightarrow> clientLoop cfg bridgeErr events st = (Some r, eff, st') \<Longrightarrow> settled (effs @ eff) st' \<and> listensStill st st'"
proof (induction cfg bridgeErr events st arbitrary: effs eff rule: clientLoop.induct)
  case (2 cfg bridgeErr call rest st)
  obtain eff1 s where c: "linkCall call (cr_linkSession st) = (eff1, s)" by fastforce
  obtain eff2 where l: "clientLoop cfg bridgeErr rest (st\<lparr>cr_linkSession := s\<rparr>) = (Some r, eff2, st')" "eff = map OnLink eff1 @ eff2"
    using "2.prems"(2) c by (auto split: prod.splits)
  show ?case using "2.IH" [OF c [symmetric] accounts_link [OF "2.prems"(1) c] l(1)] l(2) by (simp add: listensStill_def)
next
  case (3 cfg bridgeErr m rest st)
  have "accounts effs (st\<lparr>cr_muxSession := m\<rparr>)" using "3.prems"(1) by (simp add: accounts_def)
  from "3.IH" [OF this] "3.prems"(2) show ?case by (simp add: listensStill_def)
next
  case (4 cfg bridgeErr t f rest st)
  obtain q eff1 st1 where t: "clientTurn cfg t st = (q, eff1, st1)" by (metis surj_pair)
  note turn = accounts_turn [OF "4.prems"(1) t]
  show ?case
  proof (cases q)
    case NextTurn
    obtain eff2 where l: "clientLoop cfg bridgeErr rest st1 = (Some r, eff2, st')" "eff = eff1 @ eff2"
      using "4.prems"(2) t NextTurn by (auto split: prod.splits)
    have a: "accounts (effs @ eff1) st1" "listensStill st st1" using turn(1,2) NextTurn by simp_all
    have "settled ((effs @ eff1) @ eff2) st' \<and> listensStill st1 st'" using "4.IH"(1) [OF t [symmetric]] NextTurn a(1) l(1) by blast
    then show ?thesis using a(2) l(2) by (auto simp: listensStill_def)
  next
    case InHandshake
    then show ?thesis using "4.prems"(2) t by simp
  next
    case LeaveLoop
    then show ?thesis using "4.prems"(2) t turn(2,4) by simp
  next
    case (Return x)
    then show ?thesis using "4.prems"(2) t turn(2,4) by simp
  next
    case NextSession
    then have n: "accounts (effs @ eff1) st1" "listensStill st st1" "s_done (cr_linkSession st1)" "m_done (cr_muxSession st1)" using turn(1-3) by simp_all
    show ?thesis
    proof (cases "\<not> fm_ctxDone f \<and> (\<exists>s. NewSession (fm_random f) (clientSessionConfig cfg) = Inr s)")
      case False
      then have "eff = eff1 @ closeListeners st1" "st' = st1" using "4.prems"(2) t NextSession by (auto split: if_splits sum.splits)
      then show ?thesis using settled_close [OF n(1,3,4)] n(2) by simp
    next
      case True
      then obtain s where s: "\<not> fm_ctxDone f" "NewSession (fm_random f) (clientSessionConfig cfg) = Inr s" by blast
      define st2 where "st2 = st1\<lparr>cr_linkSession := s, cr_muxSession := clientMux cfg (fm_counter f) (fm_pick f)\<rparr>"
      obtain eff2 where l: "clientLoop cfg bridgeErr rest st2 = (Some r, eff2, st')" "eff = eff1 @ eff2"
        using "4.prems"(2) t NextSession s by (auto simp: st2_def split: prod.splits)
      have a: "accounts (effs @ eff1) st2" unfolding st2_def by (rule accounts_fresh [OF n(1,3) s(2)])
      have "settled ((effs @ eff1) @ eff2) st' \<and> listensStill st2 st'"
        using "4.IH"(2) [OF t [symmetric]] NextSession s a l(1) unfolding st2_def by blast
      then show ?thesis using n(2) l(2) by (auto simp: listensStill_def st2_def)
    qed
  qed
qed simp

section \<open>Properties\<close>

text \<open>
  C18: the client stops clean. When \<open>RunClient\<close> returns, whatever its turns met and whatever the goroutines of its sessions did meanwhile: every BLE connection it
  got has been closed, every TCP listener it opened has been closed, those of a start that failed half way and those opened for advertised services included,
  the last link session and its multiplexer have ended, and the console is closed once, at the end.
\<close>

theorem client_stops_clean:
  assumes "RunClient cfg env = (Some r, effs, st)"
  shows "(\<forall>conn. OnClient (Connected conn) \<in> set effs \<longrightarrow> OnClient (OnLink (ConnClose conn)) \<in> set effs)
     \<and> (clientChecks cfg = None \<longrightarrow>
          (\<forall>n \<in> (case clientListen cfg (ce_listen env) of Inl (e, ls) \<Rightarrow> set ls | Inr l \<Rightarrow> set (ls_all l)). OnClient (ListenerClose n) \<in> set effs))
     \<and> (\<forall>st'. st = Some st' \<longrightarrow> s_done (cr_linkSession st') \<and> m_done (cr_muxSession st')
          \<and> (\<forall>n \<in> set (ls_all (cr_listeners st')). OnClient (ListenerClose n) \<in> set effs))
     \<and> (\<exists>before. effs = before @ [EndsConsole] \<and> EndsConsole \<notin> set before)"
proof -
  consider (early) ls where "effs = map (\<lambda>n. OnClient (ListenerClose n)) ls @ [EndsConsole]" "st = None"
      "clientChecks cfg = None \<Longrightarrow> (case clientListen cfg (ce_listen env) of Inl (e, l) \<Rightarrow> l | Inr l \<Rightarrow> ls_all l) = ls"
    | (looped) l deviceID selected s eff st' where "clientListen cfg (ce_listen env) = Inr l"
        "NewSession (fm_random (ce_first env)) (clientSessionConfig cfg) = Inr s"
        "clientLoop cfg (ce_bridgeErr env) (ce_events env)
           (cw_run (clientBegin cfg l deviceID selected s (fm_counter (ce_first env)) (fm_pick (ce_first env)))) = (Some r, eff, st')"
        "effs = map OnClient eff @ [EndsConsole]" "st = Some st'"
  proof (cases "clientChecks cfg")
    case (Some e)
    then have "effs = [EndsConsole]" "st = None" using assms by (simp_all add: RunClient_def)
    then show ?thesis using early [of "[]"] Some by simp
  next
    case None
    show ?thesis
    proof (cases "clientListen cfg (ce_listen env)")
      case (Inl e)
      then show ?thesis using assms None early [of "snd e"] by (cases e) (simp add: RunClient_def)
    next
      case (Inr l)
      show ?thesis
      proof (cases "\<exists>deviceID selected s. clientDevice cfg (ce_chosen env) = Inr (deviceID, selected) \<and> \<not> fm_ctxDone (ce_first env)
            \<and> NewSession (fm_random (ce_first env)) (clientSessionConfig cfg) = Inr s")
        case False
        then show ?thesis using assms None Inr early [of "ls_all l"]
          by (auto simp: RunClient_def Let_def split: sum.splits if_splits prod.splits)
      next
        case True
        then obtain deviceID selected s where c: "clientDevice cfg (ce_chosen env) = Inr (deviceID, selected)" "\<not> fm_ctxDone (ce_first env)"
          "NewSession (fm_random (ce_first env)) (clientSessionConfig cfg) = Inr s" by blast
        then show ?thesis using assms None Inr looped [of l s deviceID selected]
          by (auto simp: RunClient_def Let_def split: prod.splits)
      qed
    qed
  qed
  then show ?thesis
  proof cases
    case early
    then show ?thesis by (auto split: sum.splits prod.splits)
  next
    case looped
    have "accounts [] (cw_run (clientBegin cfg l deviceID selected s (fm_counter (ce_first env)) (fm_pick (ce_first env))))"
      using NewSession_begins [OF looped(2)] by (simp add: accounts_def clientBegin_def)
    from clientLoop_settles [OF this looped(3)] have k: "settled eff st'" "set (ls_all l) \<subseteq> set (ls_all (cr_listeners st'))"
      by (simp_all add: listensStill_def clientBegin_def)
    have "EndsConsole \<notin> set (map OnClient eff)" by auto
    moreover have "ListenerClose n \<in> set eff" if "n \<in> set (ls_all (cr_listeners st'))" for n using k(1) that by (auto simp: settled_def)
    ultimately show ?thesis using k looped(1,4,5) by (auto simp: settled_def)
  qed
qed

text \<open>A client that finds its server, fails in the handshake, and is told to stop.\<close>

definition sample_meets :: fresh_meets where
  "sample_meets = \<lparr>fm_ctxDone = False, fm_random = Inr (replicate 16 7), fm_counter = None, fm_pick = (\<lambda>_. False)\<rparr>"

definition sample_client_env :: client_env where
  "sample_client_env = \<lparr>ce_listen = [Inr 5], ce_chosen = Inr sample_device, ce_first = sample_meets,
     ce_events = [TurnMeets (sample_turn\<lparr>ti_find := Inr sample_device\<rparr>) sample_meets, TurnMeets (sample_turn\<lparr>ti_ctxDone := True\<rparr>) sample_meets],
     ce_bridgeErr = None\<rparr>"

theorem client_stops_clean_witness:
  "\<exists>effs st. RunClient sample_client sample_client_env = (Some None, effs, Some st) \<and> s_done (cr_linkSession st)
     \<and> OnClient (OnLink (ConnClose \<lparr>conn_ref = 3, conn_MTU = 100\<rparr>)) \<in> set effs \<and> OnClient (ListenerClose 5) \<in> set effs"
proof -
  have checks: "clientChecks sample_client = None" by (simp add: clientChecks_def sample_client_def ValidateClientServices_def)
  have listen: "clientListen sample_client [Inr 5] = Inr (addListener '''' 5 noListeners)"
    by (simp add: clientListen_def clientServices_def sample_client_def)
  have new: "NewSession (Inr (replicate 16 7)) (clientSessionConfig sample_client) = Inr (NewSessionWithID (replicate 16 7) (clientSessionConfig sample_client))"
    by (simp add: NewSession_def)
  have dev: "clientDevice sample_client (Inr sample_device) = Inr (''LBNB-1'', None)" by (simp add: clientDevice_def sample_client_def)
  define st0 where "st0 = cw_run (clientBegin sample_client (addListener '''' 5 noListeners) ''LBNB-1'' None
     (NewSessionWithID (replicate 16 7) (clientSessionConfig sample_client)) None (\<lambda>_. False))"
  obtain q eff1 st1 where t1: "clientTurn sample_client (sample_turn\<lparr>ti_find := Inr sample_device\<rparr>) st0 = (q, eff1, st1)" by (metis surj_pair)
  have q: "q = NextTurn" "Connected \<lparr>conn_ref = 3, conn_MTU = 100\<rparr> \<in> set eff1" using t1 by (auto simp: client_eval st0_def)
  obtain eff2 st2 where "leave LeaveLoop [] st1 = (LeaveLoop, eff2, st2)" using leave_effects [of LeaveLoop "[]" st1] by (metis surj_pair)
  then have t2: "clientTurn sample_client (sample_turn\<lparr>ti_ctxDone := True\<rparr>) st1 = (LeaveLoop, eff2, st2)" by (simp add: clientTurn_def)
  define effs where "effs = map OnClient (eff1 @ eff2) @ [EndsConsole]"
  have run: "RunClient sample_client sample_client_env = (Some None, effs, Some st2)"
    using t1 t2 q(1) by (simp add: RunClient_def checks listen dev new sample_client_env_def sample_meets_def st0_def effs_def)
  have "OnClient (Connected \<lparr>conn_ref = 3, conn_MTU = 100\<rparr>) \<in> set effs" using q(2) by (simp add: effs_def)
  then have "OnClient (OnLink (ConnClose \<lparr>conn_ref = 3, conn_MTU = 100\<rparr>)) \<in> set effs" "s_done (cr_linkSession st2)"
    using client_stops_clean [OF run] by blast+
  moreover have "\<forall>n \<in> (case clientListen sample_client (ce_listen sample_client_env) of Inl (e, ls) \<Rightarrow> set ls | Inr l \<Rightarrow> set (ls_all l)). OnClient (ListenerClose n) \<in> set effs"
    using client_stops_clean [OF run] checks by blast
  then have "OnClient (ListenerClose 5) \<in> set effs" by (simp add: sample_client_env_def listen addListener_def)
  ultimately show ?thesis using run by blast
qed

end
