(* ===== verification/Spec2Isabelle.thy ===== *)
theory Spec2Isabelle
  imports Link_Refinement Link_Rebind Link_Resume Tunnel_Run Gatt_Table Bridge Queries Command_Line Console_Screen Picker_View Picker_Run Service_Recovery Server_Run Client_Run
begin

text \<open>
  LightningBNB carries TCP connections over Bluetooth LE. A client listens on local TCP ports; each accepted connection becomes a
  stream of a multiplexer, whose frames are the byte stream of a resumable link session, whose packets are GATT writes and
  notifications of a BLE connection. The server does the reverse and dials the target of the service a stream names. When the BLE connection is
  lost, the link session waits for a new one and resumes where it was; when it does not come in time, both sides start over.

  \<^bold>\<open>Parts and theories.\<close> All paths are below \<open>src/\<close>.

  \<^item> Shared: \<open>Base\<close> (Go's errors, slices, integers and maps, big-endian encodings, decimal text), \<open>Go_Strings\<close> (the functions of \<open>strings\<close>, \<open>strconv\<close> and
    \<open>net\<close> that the program uses), \<open>Transition_System\<close> (runs, invariants and simulations of step relations, as locales), \<open>Codec\<close> (encodings and
    their decoders, as locales).
  \<^item> Link, \<open>internal/link\<close>: \<open>Handshake\<close> (\<open>handshake.go\<close>: HELLO, HELLO_ACK, REJECT), \<open>Link_State\<close>, \<open>Link_Receive\<close>, \<open>Link_Send\<close>, \<open>Link_Session\<close>
    (\<open>session.go\<close>: the session's fields, \<open>acceptDataLocked\<close>, \<open>nextPacketLocked\<close> and \<open>handleAckLocked\<close>, then the loops, binding, expiry, \<open>Read\<close>, \<open>Write\<close>, \<open>Close\<close>).
    \<open>Link_Calls\<close> has the calls that others make on a session while the server or the client runs.
    \<open>Reliable\<close> puts two sessions and a network together; \<open>Link_Refinement\<close>, \<open>Link_Rebind\<close> and \<open>Link_Resume\<close> reason about that system.
  \<^item> Frames and multiplexer, \<open>internal/protocol\<close> and \<open>internal/mux\<close>: \<open>Frame\<close> (\<open>frame.go\<close>), \<open>Compression\<close> (\<open>compression.go\<close>), \<open>Service_List\<close> (the service list of
    \<open>session.go\<close>), \<open>Mux\<close> (\<open>session.go\<close>, \<open>stream.go\<close>), \<open>Mux_Inv\<close> (its invariant), \<open>Mux_Run\<close> (its runs), \<open>Mux_Trace\<close> (what a run has written to and read from each stream).
  \<^item> The tunnel: \<open>Tunnel\<close> puts two multiplexers on the two link sessions of \<open>Reliable\<close>, \<open>Tunnel_Run\<close> holds a run of it.
  \<^item> Bridge, \<open>internal/bridge\<close>: \<open>Bridge\<close> (\<open>client.go\<close>, \<open>server.go\<close>, \<open>proxy.go\<close>); \<open>Traffic\<close> (\<open>internal/traffic/counter.go\<close>).
  \<^item> Bluetooth, \<open>internal/ble\<close>: \<open>Identity\<close> (\<open>identity.go\<close> and \<open>internal/app/server_id.go\<close>), \<open>Send_Lock\<close> (\<open>send_lock.go\<close>), \<open>Packet_Conn\<close> (\<open>client_conn.go\<close>,
    \<open>server_supported.go\<close>), \<open>Discovery\<close> (\<open>ble.go\<close>), \<open>Gatt_Table\<close> (\<open>server_config.go\<close>, and how a client finds and connects to the server that registered the table).
  \<^item> Commands, \<open>internal/app\<close> and \<open>cmd/lightningbnb\<close>: \<open>Service_Config\<close> (\<open>services.go\<close>), \<open>Server_App\<close> and \<open>Server_Run\<close> (\<open>server.go\<close>), \<open>Client_App\<close> and \<open>Client_Run\<close> (\<open>client.go\<close>), \<open>Picker\<close>,
    \<open>Picker_View\<close> and \<open>Picker_Run\<close> (\<open>picker.go\<close>), \<open>Benchmark\<close> (\<open>benchmark.go\<close>), \<open>Queries\<close> (\<open>scan.go\<close>, \<open>list_services.go\<close>), \<open>Monitoring\<close> (\<open>traffic.go\<close>, \<open>transport_debug.go\<close> and
    \<open>internal/link/stats.go\<close>), \<open>Console\<close> and \<open>Console_Screen\<close> (\<open>console.go\<close>, and the terminal it writes to), \<open>Sleep_Inhibitor\<close> (\<open>prevent_sleep_*.go\<close>),
    \<open>Service_Recovery\<close> (\<open>ble_service_recovery_*.go\<close>), \<open>Command_Line\<close> (\<open>main.go\<close>). \<open>Go_Format\<close> has the runes, padding, joining and durations that the screens are made of.

  \<^bold>\<open>How the code is modelled.\<close> A struct is a record with the source's fields, a method is a function from the state to its result and the new state. Integers
  keep their width: offsets, counters and windows are words that wrap, Go's \<open>int\<close> is \<open>int\<close> where its bounds cannot be reached. Errors are values of \<open>go_error\<close>
  (sentinels, texts, wrapped errors, the rejection); a panic is an error value too, so that its absence is a theorem. Pointers to streams are indices
  into a heap of streams; the pointer to a binding is its generation. What a method does beyond its state (closing a connection, starting a
  goroutine, sending) is a list of effects. A section under a mutex is one step, and goroutines are any interleaving of such steps; a select with
  several ready cases takes any of them, by an argument or a list of choices in the state. A method that blocks returns \<open>None\<close> or a waiting outcome for the
  pass that blocks, and the pass is repeated when it is woken. Time, random bytes, results of the operating system and of the Bluetooth stack are arguments. Loops
  are recursion with a termination proof; the loops over events (\<open>clientHandshake\<close>, \<open>startBLE\<close>, the reporters) consume the list of events they
  meet, and \<open>startBLE_returns\<close> shows that four are enough. \<open>compress/flate\<close> is a parameter whose contract is the locale \<open>flate_codec\<close>, and an
  \<open>io.Writer\<close> one with the contract \<open>io_writer\<close>; the library \<open>lipgloss\<close>, which draws the picker, is one with the contract \<open>lipgloss_contract\<close>; all three are
  interpreted. Arithmetic on \<open>float64\<close> and its formatting is the parameter \<open>platform\<close>, on whose values nothing depends but that a formatted number has no control characters.

  \<^bold>\<open>What is shown.\<close>

  \<^item> The link delivers in order and without loss under loss, repetition, reordering and rebinding, within its memory bound, does not fail on its peer's packets, makes
    progress, and refines a pair of byte pipes; a lost connection can always be resumed, and each side then sends exactly what the other lacks (\<open>Reliable\<close>, \<open>Link_Refinement\<close>,
    \<open>Link_Resume\<close>).
  \<^item> The multiplexer keeps its invariant in every run: limits, windows and queues; it schedules streams in turn, emits only frames its peer reads, wakes everybody at shutdown, and confines
    a peer's window violation to its stream (\<open>Mux_Run\<close>). Its frames cross the link in order and whole, and
    what is written to a stream at one end of the tunnel is what is read at the other (below).
  \<^item> Encodings: service lists, server identities, DATA compression, frames and handshakes are read back as written; the service list decoder accepts nothing
    else.
  \<^item> The bridge admits no more connections than configured and answers every stream; a proxy closes both ends (\<open>Bridge\<close>).
  \<^item> Bluetooth: one sender at a time, one connection per listener, packets in order within bounded queues, no leaked native connection, an adapter table of open
    connections, an identity that lasts, and a client that finds and connects to the server whose identity it asks for.
  \<^item> Commands: the server keeps its one session, the client leaves none open, both stop clean, with every connection and listener closed, starting the server ends, the picker's model stays
    well formed, the benchmark counts what arrived, listings are ordered as the comparison says, and accepted flags are usable;
    the terminal shows the log and the dashboard, the picker shows what the scan reports, the mouse selects the server it points at, the sleep inhibitor is given back, and the elevated recovery reports what its process did.

  \<^bold>\<open>Assumptions.\<close> Fewer than \<open>2 ^ 63\<close> bytes of replay window; a session ends before its 64-bit offsets do, as the code demands. The network of \<open>Reliable\<close> carries
  only packets the two sessions have sent: a third party on the BLE connection is not modelled.

  \<^bold>\<open>Not modelled.\<close> The vendored Bluetooth stack (\<open>third_party\<close>); the checks of the Windows radio, which only call
  the operating system; the terminal library that runs the picker, which gives it one message at a time; log messages; flag parsing, which the standard library does; accessors that return a field; and timing: that
  a timer fires is an event, not when.
\<close>

section \<open>Frames over the link\<close>

text \<open>
  The multiplexer writes its frames to the link session and reads its peer's frames from it. The frames a reader gets from the bytes it has, one
  \<open>ReadFrame\<close> after another until one fails or \<open>n\<close> are read.
\<close>

fun readFrames :: "nat \<Rightarrow> reader \<Rightarrow> Frame list" where
  "readFrames 0 r = []"
| "readFrames (Suc n) r = (case ReadFrame r of (Inl e, r') \<Rightarrow> [] | (Inr f, r') \<Rightarrow> f # readFrames n r')"

lemma readFrames_prefix:
  assumes "rd_data r @ rest = concat (map encodeFrame frames)" and "list_all sendable frames"
  shows "\<exists>k. readFrames n r = take k frames"
  using assms
proof (induction n arbitrary: r frames)
  case 0
  show ?case by (rule exI [of _ 0]) simp
next
  case (Suc n)
  obtain res r' where run: "ReadFrame r = (res, r')" by fastforce
  show ?case
  proof (cases res)
    case (Inl e)
    then show ?thesis using run by (intro exI [of _ 0]) simp
  next
    case (Inr f)
    then obtain gs where gs: "frames = f # gs" "rd_data r' @ rest = concat (map encodeFrame gs)"
      using read_first_frame [OF _ Suc.prems] run by blast
    then obtain k where "readFrames n r' = take k gs" using Suc.IH [OF gs(2)] Suc.prems(2) by auto
    then show ?thesis using run Inr gs(1) by (intro exI [of _ "Suc k"]) simp
  qed
qed

lemma readFrames_all:
  "rd_data r = concat (map encodeFrame frames) \<Longrightarrow> list_all sendable frames \<Longrightarrow> length frames \<le> n \<Longrightarrow> readFrames n r = frames"
proof (induction n arbitrary: r frames)
  case (Suc n)
  show ?case
  proof (cases frames)
    case Nil
    then have "rd_data r = []" using Suc.prems(1) by simp
    then have "\<exists>e r'. ReadFrame r = (Inl e, r')" by (simp add: ReadFrame_def ReadFull_def HeaderSize_def)
    then show ?thesis using Nil by auto
  next
    case (Cons g gs)
    then have "ReadFrame r = (Inr g, r\<lparr>rd_data := concat (map encodeFrame gs)\<rparr>)"
      using Suc.prems by (intro ReadFrame_encodeFrame) (auto simp: sendable_def)
    then show ?thesis using Suc Cons by simp
  qed
qed simp


definition sample_frame :: Frame where
  "sample_frame = \<lparr>FType = FrameFIN, StreamID = 1, Payload = []\<rparr>"

lemma sample_frame_written:
  "\<exists>s. Write 0 (encodeFrame sample_frame) demo_new = (9, WriteDone, s)"
  by (simp add: sample_frame_def encodeFrame_def put_uint32_def Write.simps writeSpace_def demo_simps signalLocked_def Let_def)


section \<open>Streams through the tunnel\<close>

text \<open>
  C3: a stream arrives whole. Two multiplexer sessions talk over two link sessions, whatever the network loses, repeats or reorders
  and however often the links are rebound, and whatever the two programs do with their streams. What was read from a stream at one end is
  always a prefix of what was written to the stream of the same identifier at the other end: no byte is lost, altered, repeated,
  reordered or taken from another stream. When a reader that has not closed its side gets end of file, it has got everything that
  was written. With compression this needs a DEFLATE codec whose reader inverts its writer.
\<close>

theorem streams_cross_tunnel:
  assumes "flate_codec F" and "tunnel_started F c t0" and "tunnel_reach F t0 t"
    and "p < length (m_heap (tn_mux t a))" and "q < length (m_heap (tn_mux t (other a)))"
    and "sm_id (at (tn_mux t a) p) = sm_id (at (tn_mux t (other a)) q)"
  shows "(\<exists>rest. ep_wrote (tn_end t a) p = ep_got (tn_end t (other a)) q @ rest)
     \<and> (0 < n \<and> fst (Stream_Read n q (tn_mux t (other a))) = Some (Inl (Sentinel EOF)) \<and> \<not> sm_closed (at (tn_mux t (other a)) q)
          \<and> q \<notin> ep_stopped (tn_end t (other a)) \<longrightarrow> ep_got (tn_end t (other a)) q = ep_wrote (tn_end t a) p)"
proof -
  let ?s = "at (tn_mux t (other a)) q"
  have "ends_ok F c (tn_end t)" using tunnel_reach_ok [OF assms(1-3)] by (simp add: tunnel_ok_def)
  note ends = stream_ends [OF this assms(4-6)]
  have "sm_remoteWriteClosed ?s \<and> sm_inbound ?s = []"
    if "0 < n" "fst (Stream_Read n q (tn_mux t (other a))) = Some (Inl (Sentinel EOF))" "\<not> sm_closed ?s"
    using that by (auto simp: Stream_Read_def Let_def split: if_splits)
  then show ?thesis using ends by (auto elim!: prefixE)
qed

theorem streams_cross_tunnel_witness:
  "\<exists>t0 t. tunnel_started stored False t0 \<and> tunnel_reach stored t0 t \<and> ep_wrote (tn_end t ServerSide) 0 = [1, 2, 3]
     \<and> fst (Stream_Read 10 0 (tn_mux t ClientSide)) = Some (Inl (Sentinel EOF))
     \<and> ep_got (tn_end t ClientSide) 0 = ep_wrote (tn_end t ServerSide) 0"
proof -
  obtain w where w: "link_reachable demo_id emptyConfig emptyConfig w" "w_sess w = (\<lambda>a. demo_bound)" "w_written w = (\<lambda>a. [])" "w_read w = (\<lambda>a. [])"
    using demo_run_bound by blast
  define t0 where "t0 = tunnel_start w run_c0 run_s0"
  have "ReplayWindow emptyConfig < 2 ^ 63" by (simp add: emptyConfig_def)
  then have "links_ok w" using w(1) unfolding links_ok_def by blast
  then have start: "tunnel_started stored False t0"
    using w(3,4) unfolding tunnel_started_def t0_def run_c0_def run_s0_def by (intro exI conjI) (auto simp: encodeServices_def codec MaxDataPayload_def)
  obtain t where t: "tunnel_reach stored t0 t" "tn_mux t ClientSide = run_c7" "tn_mux t ServerSide = run_s8"
    "ep_wrote (tn_end t ServerSide) 0 = [1, 2, 3]" "ep_stopped (tn_end t ClientSide) = {}"
    by (rule run_down [OF w(2) t0_def])
  have "m_heap run_s8 = [run_stream 2 True []]" by (simp add: run_s8_eq)
  moreover have "length (m_heap run_c7) = 1" by (subst run_c7_eq(3)) simp
  ultimately have "0 < length (m_heap run_s8)" "0 < length (m_heap run_c7)" "sm_id (at run_s8 0) = sm_id (at run_c7 0)"
    using run_c7_eq(2) by (simp_all add: run_stream_def newStream_def)
  with streams_cross_tunnel [OF stored.flate_codec_axioms start t(1), of 0 ServerSide 0 10] run_c7_eq(4,5) t(2-5)
  have "ep_got (tn_end t ClientSide) 0 = ep_wrote (tn_end t ServerSide) 0" by simp
  moreover have "fst (Stream_Read 10 0 (tn_mux t ClientSide)) = Some (Inl (Sentinel EOF))" using t(2) run_c7_eq(4) by simp
  ultimately show ?thesis using start t(1,4) by blast
qed

end
